(* ===== verification/XPrelude.thy ===== *)
theory XPrelude
  imports Main "HOL-Library.Word"
begin

text \<open>
  Shared vocabulary of the development: the machine types of the X server (protocol
  cards, atoms, resource identifiers, access masks), the status codes every request
  handler returns, the access-mode bits of \<^verbatim>\<open>include/dixaccess.h\<close>, and the generic lemmas
  on lists and words that the component theories rest on.
\<close>

unbundle bit_operations_syntax

named_theorems x_status \<open>rewrite rules for status codes and access masks\<close>

type_synonym card8 = "8 word"
type_synonym card16 = "16 word"
type_synonym card32 = "32 word"
type_synonym xid = "32 word"
type_synonym atom = "32 word"
type_synonym mask = "32 word"

text \<open>Protocol status codes (the core errors of X.h, and a slot for extension errors).\<close>

datatype status =
    Success
  | BadRequest | BadValue | BadWindow | BadPixmap | BadAtom | BadCursor | BadFont
  | BadMatch | BadDrawable | BadAccess | BadAlloc | BadColor | BadGC | BadIDChoice
  | BadName | BadLength | BadImplementation
  | ExtensionError nat

text \<open>Access-mode bits (include/dixaccess.h).\<close>

definition DixReadAccess :: mask where "DixReadAccess = 1"
definition DixWriteAccess :: mask where "DixWriteAccess = push_bit 1 1"
definition DixDestroyAccess :: mask where "DixDestroyAccess = push_bit 2 1"
definition DixCreateAccess :: mask where "DixCreateAccess = push_bit 3 1"
definition DixGetAttrAccess :: mask where "DixGetAttrAccess = push_bit 4 1"
definition DixSetAttrAccess :: mask where "DixSetAttrAccess = push_bit 5 1"
definition DixListPropAccess :: mask where "DixListPropAccess = push_bit 6 1"
definition DixGetPropAccess :: mask where "DixGetPropAccess = push_bit 7 1"
definition DixSetPropAccess :: mask where "DixSetPropAccess = push_bit 8 1"
definition DixRemoveAccess :: mask where "DixRemoveAccess = push_bit 13 1"
definition DixAddAccess :: mask where "DixAddAccess = push_bit 12 1"
definition DixBlendAccess :: mask where "DixBlendAccess = push_bit 16 1"
definition DixUseAccess :: mask where "DixUseAccess = push_bit 24 1"
definition DixPostAccess :: mask where "DixPostAccess = push_bit 28 1"

lemmas dix_access_defs =
  DixReadAccess_def DixWriteAccess_def DixDestroyAccess_def DixCreateAccess_def
  DixGetAttrAccess_def DixSetAttrAccess_def DixListPropAccess_def DixGetPropAccess_def
  DixSetPropAccess_def DixRemoveAccess_def DixAddAccess_def DixBlendAccess_def
  DixUseAccess_def DixPostAccess_def

declare dix_access_defs [x_status]

subsection \<open>Requests\<close>

text \<open>What a request handler gives back: an error with the error value the handler stored in
  the client (if it stored one), a reply, or plain success.\<close>

datatype 'r response = Err status "32 word option" | Reply 'r | Done

text \<open>A handler that returns a status: the dispatcher sends an error unless it is \<open>Success\<close>.\<close>

definition status_response :: "status \<Rightarrow> 32 word option \<Rightarrow> 'r response" where
  "status_response rc err = (if rc = Success then Done else Err rc err)"

text \<open>The length checks of include/dix.h; \<open>req_len\<close> counts 4-byte units, \<open>sz\<close> and \<open>n\<close> bytes.
  They hold when the handler may go on (the macros return \<open>BadLength\<close> otherwise).\<close>

definition REQUEST_SIZE_MATCH :: "nat \<Rightarrow> nat \<Rightarrow> bool" where
  "REQUEST_SIZE_MATCH sz req_len \<longleftrightarrow> sz div 4 = req_len"

definition REQUEST_AT_LEAST_SIZE :: "nat \<Rightarrow> nat \<Rightarrow> bool" where
  "REQUEST_AT_LEAST_SIZE sz req_len \<longleftrightarrow> \<not> sz div 4 > req_len"

definition REQUEST_FIXED_SIZE :: "nat \<Rightarrow> nat \<Rightarrow> nat \<Rightarrow> bool" where
  "REQUEST_FIXED_SIZE sz n req_len \<longleftrightarrow>
     \<not> (sz div 4 > req_len \<or> n div 4 \<ge> req_len \<or> (sz + n + 3) div 4 \<noteq> req_len)"

definition bytes_to_int32 :: "nat \<Rightarrow> nat" where
  "bytes_to_int32 bytes = ((bytes + 3) div 4) mod 2 ^ 32"

text \<open>An accepted variable-length request really carries its \<open>n\<close> bytes of data.\<close>

lemma REQUEST_FIXED_SIZE_fits: "REQUEST_FIXED_SIZE sz n req_len \<Longrightarrow> sz + n \<le> 4 * req_len"
  by (auto simp: REQUEST_FIXED_SIZE_def)

subsection \<open>Generic lemmas\<close>

lemma unat_inc:
  fixes w :: "'a::len word"
  assumes "unat w + 1 < 2 ^ LENGTH('a)"
  shows "unat (w + 1) = unat w + 1"
  using assms by (simp add: unat_word_ariths)

lemma unat_card16_less: "unat (w :: card16) < 65536"
  by (rule order_less_le_trans [OF unsigned_less]) simp

lemma unat_card32_less: "unat (w :: card32) < 4294967296"
  by (rule order_less_le_trans [OF unsigned_less]) simp

lemma find_Some_mem: "List.find P xs = Some x \<Longrightarrow> x \<in> set xs \<and> P x"
  by (auto simp: find_Some_iff)

lemma find_None_filter: "List.find P xs = None \<longleftrightarrow> filter P xs = []"
  by (auto simp: find_None_iff filter_empty_conv)

end
