(* ===== verification/ServerTime.thy ===== *)
theory ServerTime
  imports XPrelude
begin

text \<open>
  Server time stamps (dix/dixutils.c). The protocol carries a 32-bit millisecond clock
  that wraps about every 49.7 days; the server extends it with a month counter, compares
  the extended stamps, and maps a client-supplied 32-bit time to the extended stamp
  nearest to the current time.
\<close>

record TimeStamp =
  months :: "32 word"
  milliseconds :: "32 word"

datatype time_order = EARLIER | SAMETIME | LATER

definition CompareTimeStamps :: "TimeStamp \<Rightarrow> TimeStamp \<Rightarrow> time_order" where
  "CompareTimeStamps a b =
     (if months a < months b then EARLIER
      else if months a > months b then LATER
      else if milliseconds a < milliseconds b then EARLIER
      else if milliseconds a > milliseconds b then LATER
      else SAMETIME)"

definition CurrentTime :: "32 word" where
  "CurrentTime = 0"

text \<open>\<open>HALFMONTH\<close> and the differences are \<open>unsigned long\<close> (64 bits), so nothing wraps in
  the comparison; \<open>ts.months\<close> is 32 bits and does.\<close>

definition HALFMONTH :: int where
  "HALFMONTH = 2147483648"

definition ClientTimeToServerTime :: "TimeStamp \<Rightarrow> 32 word \<Rightarrow> TimeStamp" where
  "ClientTimeToServerTime currentTime c =
     (if c = CurrentTime then currentTime
      else
        let ts = \<lparr>months = months currentTime, milliseconds = c\<rparr> in
        if c > milliseconds currentTime then
          (if uint c - uint (milliseconds currentTime) > HALFMONTH
           then ts\<lparr>months := months ts - 1\<rparr> else ts)
        else if c < milliseconds currentTime then
          (if uint (milliseconds currentTime) - uint c > HALFMONTH
           then ts\<lparr>months := months ts + 1\<rparr> else ts)
        else ts)"

subsection \<open>The time line\<close>

text \<open>The position of a stamp on the unwrapped millisecond time line.\<close>

definition stamp_pos :: "TimeStamp \<Rightarrow> int" where
  "stamp_pos t = uint (months t) * 2 ^ 32 + uint (milliseconds t)"

lemma lex_encode_eq:
  fixes a b m n :: int
  assumes "0 \<le> m" "m < 4294967296" "0 \<le> n" "n < 4294967296"
  shows "a * 4294967296 + m = b * 4294967296 + n \<longleftrightarrow> a = b \<and> m = n"
  using assms by (cases a b rule: linorder_cases) linarith+

lemma lex_encode_less:
  fixes a b m n :: int
  assumes "0 \<le> m" "m < 4294967296" "0 \<le> n" "n < 4294967296"
  shows "a * 4294967296 + m < b * 4294967296 + n \<longleftrightarrow> a < b \<or> a = b \<and> m < n"
  using assms by (cases a b rule: linorder_cases) linarith+

lemma uint_ms_bounds: "0 \<le> uint (w :: 32 word)" "uint (w :: 32 word) < 4294967296"
  using uint_lt2p [of w] by auto

lemma stamp_pos_eq:
  "stamp_pos a = stamp_pos b \<longleftrightarrow> uint (months a) = uint (months b) \<and> uint (milliseconds a) = uint (milliseconds b)"
  by (simp add: stamp_pos_def lex_encode_eq uint_ms_bounds)

lemma stamp_pos_less:
  "stamp_pos a < stamp_pos b \<longleftrightarrow> uint (months a) < uint (months b)
     \<or> uint (months a) = uint (months b) \<and> uint (milliseconds a) < uint (milliseconds b)"
  by (simp add: stamp_pos_def lex_encode_less uint_ms_bounds)

lemma stamp_pos_inject: "stamp_pos a = stamp_pos b \<longleftrightarrow> a = b"
  by (auto simp: stamp_pos_eq word_uint_eq_iff [symmetric])

lemma CompareTimeStamps_pos:
  "CompareTimeStamps a b =
     (if stamp_pos a < stamp_pos b then EARLIER
      else if stamp_pos a > stamp_pos b then LATER else SAMETIME)"
  by (auto simp: CompareTimeStamps_def stamp_pos_less word_less_def word_uint_eq_iff)

lemma CompareTimeStamps_LATER: "CompareTimeStamps a b = LATER \<longleftrightarrow> stamp_pos b < stamp_pos a"
  by (simp add: CompareTimeStamps_pos)

lemma CompareTimeStamps_EARLIER: "CompareTimeStamps a b = EARLIER \<longleftrightarrow> stamp_pos a < stamp_pos b"
  by (simp add: CompareTimeStamps_pos)

lemma CompareTimeStamps_refl [simp]: "CompareTimeStamps a a = SAMETIME"
  by (simp add: CompareTimeStamps_pos)

text \<open>The comparison is a total order on stamps: antisymmetric and transitive.\<close>

lemma CompareTimeStamps_swap: "CompareTimeStamps a b = EARLIER \<longleftrightarrow> CompareTimeStamps b a = LATER"
  by (simp add: CompareTimeStamps_pos)

lemma CompareTimeStamps_same: "CompareTimeStamps a b = SAMETIME \<longleftrightarrow> a = b"
  by (auto simp: CompareTimeStamps_pos stamp_pos_inject [symmetric])

subsection \<open>Client times\<close>

lemma ClientTimeToServerTime_current [simp]: "ClientTimeToServerTime now CurrentTime = now"
  by (simp add: ClientTimeToServerTime_def)

lemma ClientTimeToServerTime_ms:
  "c \<noteq> CurrentTime \<Longrightarrow> milliseconds (ClientTimeToServerTime now c) = c"
  by (simp add: ClientTimeToServerTime_def Let_def)

lemma uint_dec: "0 < uint (w :: 32 word) \<Longrightarrow> uint (w - 1) = uint w - 1"
  using uint_ms_bounds [of w] by (simp add: uint_word_arith_bintrs take_bit_eq_mod)

lemma uint_inc: "uint (w :: 32 word) < 4294967295 \<Longrightarrow> uint (w + 1) = uint w + 1"
  using uint_ms_bounds [of w] by (simp add: uint_word_arith_bintrs take_bit_eq_mod)

lemma ClientTimeToServerTime_months:
  "c \<noteq> CurrentTime \<Longrightarrow> months (ClientTimeToServerTime now c) =
     (if uint c - uint (milliseconds now) > 2147483648 then months now - 1
      else if uint (milliseconds now) - uint c > 2147483648 then months now + 1
      else months now)"
  by (auto simp: ClientTimeToServerTime_def Let_def HALFMONTH_def word_less_def)

lemma unwrap_distance:
  fixes u v k :: int
  assumes "0 \<le> u" "u < 4294967296" "0 \<le> v" "v < 4294967296"
  shows "\<bar>(if u - v > 2147483648 then k - 1 else if v - u > 2147483648 then k + 1 else k)
           * 4294967296 + u - (k * 4294967296 + v)\<bar> \<le> 2147483648"
  using assms by (simp add: abs_le_iff)

text \<open>C38. Away from the ends of the month counter, the stamp the server gives to a client
  time carries that millisecond value and lies within half a wrap period (2^31 ms) of the
  server's current time: the 32-bit client clock is unwrapped in the right direction.\<close>

theorem ClientTimeToServerTime_nearest:
  assumes months: "0 < uint (months now)" "uint (months now) < 4294967295"
    and c: "c \<noteq> CurrentTime"
  shows "milliseconds (ClientTimeToServerTime now c) = c \<and>
    \<bar>stamp_pos (ClientTimeToServerTime now c) - stamp_pos now\<bar> \<le> 2147483648"
proof (rule conjI)
  show "milliseconds (ClientTimeToServerTime now c) = c"
    using c by (rule ClientTimeToServerTime_ms)
  define n where "n = milliseconds now"
  have bounds: "0 \<le> uint c" "uint c < 4294967296" "0 \<le> uint n" "uint n < 4294967296"
    by (rule uint_ms_bounds)+
  let ?ts = "ClientTimeToServerTime now c"
  have pos: "stamp_pos ?ts = uint (months ?ts) * 4294967296 + uint c"
    using ClientTimeToServerTime_ms [OF c] by (simp add: stamp_pos_def)
  have now: "stamp_pos now = uint (months now) * 4294967296 + uint n"
    by (simp add: stamp_pos_def n_def)
  have m: "uint (months ?ts) =
      (if uint c - uint n > 2147483648 then uint (months now) - 1
       else if uint n - uint c > 2147483648 then uint (months now) + 1
       else uint (months now))"
    using months by (simp add: ClientTimeToServerTime_months [OF c] uint_dec uint_inc n_def)
  show "\<bar>stamp_pos ?ts - stamp_pos now\<bar> \<le> 2147483648"
    unfolding pos now m by (rule unwrap_distance [OF bounds])
qed

theorem ClientTimeToServerTime_nearest_witness:
  "milliseconds (ClientTimeToServerTime \<lparr>months = 5, milliseconds = 100\<rparr> 4294967200) = 4294967200 \<and>
   \<bar>stamp_pos (ClientTimeToServerTime \<lparr>months = 5, milliseconds = 100\<rparr> 4294967200)
     - stamp_pos \<lparr>months = 5, milliseconds = 100\<rparr>\<bar> \<le> 2147483648"
  by (rule ClientTimeToServerTime_nearest) (simp_all add: CurrentTime_def)

end
