(* ===== verification/Atoms.thy ===== *)
theory Atoms
  imports XPrelude "HOL-Library.List_Lexorder" "HOL-Library.Product_Lexorder"
begin

text \<open>
  The atom table (dix/atom.c): a binary search tree ordered by a 32-bit fingerprint of
  the name and then by the name, and a table from atoms to the same nodes. A name is the
  byte string the caller passes with its length; a stored name is a C string, cut at the
  first NUL.
\<close>

subsection \<open>C strings\<close>

text \<open>The part of a byte buffer a C string function sees.\<close>

definition c_string :: "string \<Rightarrow> string" where
  "c_string s = takeWhile (\<lambda>c. c \<noteq> CHR 0x00) s"

text \<open>\<open>(unsigned int) string[i]\<close>: plain \<open>char\<close> is signed, so bytes above 127 sign-extend.\<close>

definition c_uint :: "char \<Rightarrow> 32 word" where
  "c_uint c = scast (of_nat (of_char c) :: 8 word)"

text \<open>\<open>strncmp\<close> on unsigned bytes; the end of the second list is its terminating NUL.\<close>

fun strncmp :: "string \<Rightarrow> string \<Rightarrow> nat \<Rightarrow> int" where
  "strncmp s t 0 = 0"
| "strncmp s t (Suc n) =
     (let a = (case s of [] \<Rightarrow> 0 | c # _ \<Rightarrow> of_char c);
          b = (case t of [] \<Rightarrow> 0 | c # _ \<Rightarrow> of_char c) :: nat
      in if a \<noteq> b then int a - int b
         else if a = 0 then 0
         else strncmp (tl s) (tl t) n)"

subsection \<open>State\<close>

record anode =
  a_atom :: atom
  fingerPrint :: "32 word"
  nstring :: string

datatype atree = ALeaf | ANode atree anode atree

record atoms =
  atomRoot :: atree
  lastAtom :: atom
  tableLength :: nat
  nodeTable :: "anode option list"

datatype atom_alloc = AllocNode | AllocString | AllocTable

definition InitialTableSize :: nat where "InitialTableSize = 256"
definition XA_LAST_PREDEFINED :: atom where "XA_LAST_PREDEFINED = 68"
definition BAD_RESOURCE :: atom where "BAD_RESOURCE = 0xe0000000"
definition NoAtom :: atom where "NoAtom = 0"

subsection \<open>MakeAtom\<close>

definition fp_step :: "string \<Rightarrow> nat \<Rightarrow> 32 word \<Rightarrow> 32 word" where
  "fp_step s i fp = (fp * 27 + c_uint (s ! i)) * 27 + c_uint (s ! (length s - 1 - i))"

definition atom_fp :: "string \<Rightarrow> 32 word" where
  "atom_fp s = fold (fp_step s) [0 ..< (length s + 1) div 2] 0"

text \<open>One turn of the search loop: which way \<open>np\<close> moves at a node.\<close>

datatype atom_dir = GoLeft | GoRight | Here

definition atom_dir :: "32 word \<Rightarrow> string \<Rightarrow> anode \<Rightarrow> atom_dir" where
  "atom_dir fp s n =
     (if fp < fingerPrint n then GoLeft
      else if fp > fingerPrint n then GoRight
      else
        let comp = strncmp s (nstring n) (length s) in
        if comp < 0 \<or> comp = 0 \<and> length s < length (nstring n) then GoLeft
        else if comp > 0 then GoRight
        else Here)"

fun atom_search :: "32 word \<Rightarrow> string \<Rightarrow> atree \<Rightarrow> atom option" where
  "atom_search fp s ALeaf = None"
| "atom_search fp s (ANode l n r) =
     (case atom_dir fp s n of
        GoLeft \<Rightarrow> atom_search fp s l
      | GoRight \<Rightarrow> atom_search fp s r
      | Here \<Rightarrow> Some (a_atom n))"

text \<open>Storing through \<open>*np\<close> at the empty slot the search stopped at.\<close>

fun atom_insert :: "32 word \<Rightarrow> string \<Rightarrow> anode \<Rightarrow> atree \<Rightarrow> atree" where
  "atom_insert fp s nd ALeaf = ANode ALeaf nd ALeaf"
| "atom_insert fp s nd (ANode l n r) =
     (case atom_dir fp s n of
        GoLeft \<Rightarrow> ANode (atom_insert fp s nd l) n r
      | GoRight \<Rightarrow> ANode l n (atom_insert fp s nd r)
      | Here \<Rightarrow> ANode l n r)"

text \<open>The table doubles when the next atom does not fit (the new half is never read before
  it is written: \<open>NameForAtom\<close> checks \<open>lastAtom\<close> first).\<close>

definition grow_table :: "atoms \<Rightarrow> atoms" where
  "grow_table s = s\<lparr>tableLength := 2 * tableLength s,
                   nodeTable := nodeTable s @ replicate (tableLength s) None\<rparr>"

definition table_full :: "atoms \<Rightarrow> bool" where
  "table_full s \<longleftrightarrow> unat (lastAtom s + 1) \<ge> tableLength s"

definition MakeAtom :: "(atom_alloc \<Rightarrow> bool) \<Rightarrow> string \<Rightarrow> bool \<Rightarrow> atoms \<Rightarrow> atom \<times> atoms" where
  "MakeAtom ok string makeit s =
     (let fp = atom_fp string in
      case atom_search fp string (atomRoot s) of
        Some a \<Rightarrow> (a, s)
      | None \<Rightarrow>
          if makeit then
            if \<not> ok AllocNode then (BAD_RESOURCE, s)
            else if \<not> lastAtom s < XA_LAST_PREDEFINED \<and> \<not> ok AllocString then (BAD_RESOURCE, s)
            else if table_full s \<and> \<not> ok AllocTable then (BAD_RESOURCE, s)
            else
              let s1 = (if table_full s then grow_table s else s);
                  new = lastAtom s + 1;
                  nd = \<lparr>a_atom = new, fingerPrint = fp, nstring = c_string string\<rparr>
              in (new, s1\<lparr>atomRoot := atom_insert fp string nd (atomRoot s),
                         lastAtom := new,
                         nodeTable := (nodeTable s1)[unat new := Some nd]\<rparr>)
          else (NoAtom, s))"

definition ValidAtom :: "atom \<Rightarrow> atoms \<Rightarrow> bool" where
  "ValidAtom atom s \<longleftrightarrow> atom \<noteq> NoAtom \<and> atom \<le> lastAtom s"

definition NameForAtom :: "atom \<Rightarrow> atoms \<Rightarrow> string option" where
  "NameForAtom atom s =
     (if atom > lastAtom s then None
      else case nodeTable s ! unat atom of None \<Rightarrow> None | Some n \<Rightarrow> Some (nstring n))"

definition dixAddAtom :: "(atom_alloc \<Rightarrow> bool) \<Rightarrow> string \<Rightarrow> atoms \<Rightarrow> atom \<times> atoms" where
  "dixAddAtom ok name s = MakeAtom ok (c_string name) True s"

definition dixGetAtomID :: "(atom_alloc \<Rightarrow> bool) \<Rightarrow> string \<Rightarrow> atoms \<Rightarrow> atom" where
  "dixGetAtomID ok name s = fst (MakeAtom ok (c_string name) False s)"

subsection \<open>Teardown and start-up\<close>

text \<open>\<open>FreeAtom\<close> releases the nodes bottom-up; the order is kept as the list of the atoms
  freed, with the flag saying whether the name was a heap copy that is freed too.\<close>

fun FreeAtom :: "atree \<Rightarrow> (atom \<times> bool) list" where
  "FreeAtom ALeaf = []"
| "FreeAtom (ANode l n r) =
     FreeAtom l @ FreeAtom r @ [(a_atom n, a_atom n > XA_LAST_PREDEFINED)]"

definition FreeAllAtoms :: "atoms \<Rightarrow> (atom \<times> bool) list \<times> atoms" where
  "FreeAllAtoms s =
     (case atomRoot s of
        ALeaf \<Rightarrow> ([], s)
      | ANode _ _ _ \<Rightarrow>
          (FreeAtom (atomRoot s), s\<lparr>atomRoot := ALeaf, nodeTable := [], lastAtom := NoAtom\<rparr>))"

text \<open>\<open>InitAtoms\<close>: the predeclared names come from a generated file, so they are an argument.
  \<open>None\<close> stands for \<open>FatalError\<close>.\<close>

definition init_table :: "atoms \<Rightarrow> atoms" where
  "init_table s = s\<lparr>tableLength := InitialTableSize,
                   nodeTable := replicate InitialTableSize None\<rparr>"

definition InitAtoms :: "(atom_alloc \<Rightarrow> bool) \<Rightarrow> string list \<Rightarrow> atoms \<Rightarrow> atoms option" where
  "InitAtoms ok predeclared s =
     (let s0 = snd (FreeAllAtoms s) in
      if \<not> ok AllocTable then None
      else
        let s1 = fold (\<lambda>name t. snd (MakeAtom ok name True t)) predeclared (init_table s0) in
        if lastAtom s1 \<noteq> XA_LAST_PREDEFINED then None else Some s1)"

subsection \<open>Requests\<close>

text \<open>\<open>ProcInternAtom\<close> and \<open>ProcGetAtomName\<close> (dix/dispatch.c) on decoded requests; a boolean
  field is a byte.\<close>

definition ProcInternAtom ::
    "(atom_alloc \<Rightarrow> bool) \<Rightarrow> nat \<Rightarrow> card8 \<Rightarrow> string \<Rightarrow> atoms \<Rightarrow> atom response \<times> atoms" where
  "ProcInternAtom ok req_len onlyIfExists tchar s =
     (if \<not> REQUEST_AT_LEAST_SIZE 8 req_len then (Err BadLength None, s)
      else if \<not> REQUEST_FIXED_SIZE 8 (length tchar) req_len then (Err BadLength None, s)
      else if onlyIfExists \<noteq> 1 \<and> onlyIfExists \<noteq> 0 then (Err BadValue (Some (ucast onlyIfExists)), s)
      else
        case MakeAtom ok tchar (onlyIfExists = 0) s of (atom, s') \<Rightarrow>
          if atom = BAD_RESOURCE then (Err BadAlloc None, s') else (Reply atom, s'))"

definition ProcGetAtomName :: "nat \<Rightarrow> atom \<Rightarrow> atoms \<Rightarrow> string response" where
  "ProcGetAtomName req_len stuff_id s =
     (if \<not> REQUEST_SIZE_MATCH 8 req_len then Err BadLength None
      else case NameForAtom stuff_id s of
             None \<Rightarrow> Err BadAtom (Some stuff_id)
           | Some str \<Rightarrow> Reply str)"

subsection \<open>The search order\<close>

abbreviation nul_free :: "string \<Rightarrow> bool" where
  "nul_free s \<equiv> CHR 0x00 \<notin> set s"

definition skey :: "string \<Rightarrow> nat list" where
  "skey s = map of_char s"

text \<open>The key of a name: its fingerprint, then its bytes; keys are ordered lexicographically.\<close>

definition name_key :: "string \<Rightarrow> 32 word \<times> nat list" where
  "name_key s = (atom_fp s, skey (c_string s))"

definition node_key :: "anode \<Rightarrow> 32 word \<times> nat list" where
  "node_key n = (fingerPrint n, skey (nstring n))"

lemma skey_inject [simp]: "skey s = skey t \<longleftrightarrow> s = t"
  by (auto simp: skey_def inj_map_eq_map inj_def)

lemma skey_simps [simp]: "skey [] = []" "skey (c # s) = of_char c # skey s"
  by (simp_all add: skey_def)

lemma c_string_simps [simp]:
  "c_string [] = []"
  "c_string (c # s) = (if c = CHR 0x00 then [] else c # c_string s)"
  by (simp_all add: c_string_def)

lemma c_string_nul_free [simp]: "nul_free (c_string s)"
  by (induction s) auto

lemma c_string_id: "nul_free s \<Longrightarrow> c_string s = s"
  by (induction s) auto

lemma of_char_0_iff: "(of_char c :: nat) = 0 \<longleftrightarrow> c = CHR 0x00"
proof -
  have "of_char (CHR 0x00) = (0 :: nat)" by simp
  then show ?thesis by (metis of_char_eq_iff)
qed

lemma of_char_neq: "x \<noteq> y \<Longrightarrow> (of_char x :: nat) < of_char y \<or> (of_char y :: nat) < of_char x"
  by (metis linorder_neqE_nat of_char_eq_iff)

lemma strncmp_order:
  assumes "nul_free t"
  shows "strncmp s t (length s) < 0 \<or> strncmp s t (length s) = 0 \<and> length s < length t
           \<longleftrightarrow> skey (c_string s) < skey t"
    and "strncmp s t (length s) > 0 \<longleftrightarrow> skey t < skey (c_string s)"
  using assms
proof (induction s arbitrary: t)
  case Nil
  { case 1 show ?case by (cases t) auto }
  { case 2 show ?case by simp }
next
  case (Cons x xs)
  { case 1 then show ?case
      using Cons.IH(1) [of "tl t"] by (cases t) (auto simp: of_char_0_iff Let_def dest: of_char_neq) }
  { case 2 then show ?case
      using Cons.IH(2) [of "tl t"] by (cases t) (auto simp: of_char_0_iff Let_def dest: of_char_neq) }
qed

lemma atom_dir_key:
  assumes "nul_free (nstring n)"
  shows "atom_dir (atom_fp s) s n =
     (if name_key s < node_key n then GoLeft
      else if name_key s > node_key n then GoRight else Here)"
  using strncmp_order [OF assms, of s]
  by (auto simp: atom_dir_def Let_def name_key_def node_key_def)

subsection \<open>The tree is a search tree\<close>

fun anodes :: "atree \<Rightarrow> anode set" where
  "anodes ALeaf = {}"
| "anodes (ANode l n r) = insert n (anodes l \<union> anodes r)"

fun abst :: "atree \<Rightarrow> bool" where
  "abst ALeaf = True"
| "abst (ANode l n r) \<longleftrightarrow> abst l \<and> abst r
     \<and> (\<forall>m \<in> anodes l. node_key m < node_key n) \<and> (\<forall>m \<in> anodes r. node_key n < node_key m)"

lemma atom_search_spec:
  assumes "abst t" "\<forall>n \<in> anodes t. nul_free (nstring n)"
  shows "atom_search (atom_fp s) s t = Some a
     \<longleftrightarrow> (\<exists>n \<in> anodes t. node_key n = name_key s \<and> a_atom n = a)"
  using assms
proof (induction t)
  case (ANode l n r)
  then show ?case
    by (cases "name_key s" "node_key n" rule: linorder_cases)
       (auto simp: atom_dir_key dest: less_imp_not_eq less_asym order.strict_trans)
qed simp

lemma atom_search_None:
  assumes "abst t" "\<forall>n \<in> anodes t. nul_free (nstring n)"
  shows "atom_search (atom_fp s) s t = None \<longleftrightarrow> name_key s \<notin> node_key ` anodes t"
  using atom_search_spec [OF assms, of s]
  by (cases "atom_search (atom_fp s) s t") (auto simp: image_iff, metis+)

lemma anodes_insert:
  assumes "abst t" "\<forall>n \<in> anodes t. nul_free (nstring n)" "name_key s \<notin> node_key ` anodes t"
  shows "anodes (atom_insert (atom_fp s) s nd t) = insert nd (anodes t)"
  using assms
  by (induction t) (auto simp: atom_dir_key not_less order_le_less split: if_splits)

lemma anodes_insert_subset: "anodes (atom_insert fp s nd t) \<subseteq> insert nd (anodes t)"
  by (induction t) (auto split: atom_dir.splits)

lemma abst_insert:
  assumes "abst t" "\<forall>n \<in> anodes t. nul_free (nstring n)" "name_key s \<notin> node_key ` anodes t"
    and "node_key nd = name_key s"
  shows "abst (atom_insert (atom_fp s) s nd t)"
  using assms
  by (induction t) (auto simp: atom_dir_key dest!: anodes_insert_subset [THEN subsetD])

lemma abst_key_unique:
  "abst t \<Longrightarrow> m \<in> anodes t \<Longrightarrow> n \<in> anodes t \<Longrightarrow> node_key m = node_key n \<Longrightarrow> m = n"
  by (induction t) (auto, (metis less_irrefl order.strict_trans)+)

subsection \<open>The invariant of the atom table\<close>

definition atoms_inv :: "atoms \<Rightarrow> bool" where
  "atoms_inv s \<longleftrightarrow>
     abst (atomRoot s) \<and> (\<forall>n \<in> anodes (atomRoot s). nul_free (nstring n))
     \<and> length (nodeTable s) = tableLength s \<and> unat (lastAtom s) < tableLength s
     \<and> nodeTable s ! 0 = None
     \<and> (\<forall>i. 0 < i \<and> i \<le> unat (lastAtom s) \<longrightarrow>
           (\<exists>n \<in> anodes (atomRoot s). nodeTable s ! i = Some n \<and> unat (a_atom n) = i))
     \<and> (\<forall>n \<in> anodes (atomRoot s). 0 < unat (a_atom n) \<and> unat (a_atom n) \<le> unat (lastAtom s)
           \<and> nodeTable s ! unat (a_atom n) = Some n)"

text \<open>\<open>k\<close> more atoms stay below the marker \<open>BAD_RESOURCE\<close>.\<close>

definition atoms_room :: "nat \<Rightarrow> atoms \<Rightarrow> bool" where
  "atoms_room k s \<longleftrightarrow> unat (lastAtom s) + k < unat BAD_RESOURCE"

lemma atoms_room_unat: "atoms_room (Suc k) s \<Longrightarrow> unat (lastAtom s + 1) = unat (lastAtom s) + 1"
  by (rule unat_inc) (auto simp: atoms_room_def BAD_RESOURCE_def)

lemma atoms_room_fresh: "atoms_room (Suc k) s \<Longrightarrow> lastAtom s + 1 \<noteq> BAD_RESOURCE"
  using atoms_room_unat [of k s] by (auto simp: atoms_room_def)

lemma atoms_inv_empty: "atoms_inv \<lparr>atomRoot = ALeaf, lastAtom = NoAtom, tableLength = InitialTableSize,
    nodeTable = replicate InitialTableSize None\<rparr>"
  by (auto simp: atoms_inv_def NoAtom_def InitialTableSize_def)

text \<open>What \<open>MakeAtom\<close> does, by cases: the name is there, the caller did not ask to create it,
  memory ran out, or a node is added.\<close>

definition atom_new_node :: "string \<Rightarrow> atoms \<Rightarrow> anode" where
  "atom_new_node name s =
     \<lparr>a_atom = lastAtom s + 1, fingerPrint = atom_fp name, nstring = c_string name\<rparr>"

definition atom_added :: "string \<Rightarrow> atoms \<Rightarrow> atoms" where
  "atom_added name s =
     (let s1 = (if table_full s then grow_table s else s); nd = atom_new_node name s
      in s1\<lparr>atomRoot := atom_insert (atom_fp name) name nd (atomRoot s),
            lastAtom := lastAtom s + 1,
            nodeTable := (nodeTable s1)[unat (lastAtom s + 1) := Some nd]\<rparr>)"

lemma MakeAtom_cases:
  assumes "MakeAtom ok name makeit s = (a, s')"
  obtains (found) "atom_search (atom_fp name) name (atomRoot s) = Some a" "s' = s"
    | (absent) "atom_search (atom_fp name) name (atomRoot s) = None" "\<not> makeit" "a = NoAtom" "s' = s"
    | (nomem) "atom_search (atom_fp name) name (atomRoot s) = None" "makeit" "a = BAD_RESOURCE" "s' = s"
    | (added) "atom_search (atom_fp name) name (atomRoot s) = None" "makeit"
        "a = lastAtom s + 1" "s' = atom_added name s"
  using assms
  by (fastforce simp: MakeAtom_def Let_def atom_added_def atom_new_node_def split: option.splits if_splits)

lemma atom_added_table:
  assumes "atoms_inv s" "atoms_room (Suc k) s"
  shows "length (nodeTable (atom_added name s)) = tableLength (atom_added name s)"
    and "unat (lastAtom s) + 1 < tableLength (atom_added name s)"
    and "i \<le> unat (lastAtom s) \<Longrightarrow> nodeTable (atom_added name s) ! i = nodeTable s ! i"
    and "nodeTable (atom_added name s) ! (unat (lastAtom s) + 1) = Some (atom_new_node name s)"
  using assms
  by (auto simp: atom_added_def Let_def grow_table_def table_full_def atoms_inv_def
      atoms_room_unat nth_append nth_list_update)

lemma atom_added_simps [simp]:
  "atomRoot (atom_added name s) = atom_insert (atom_fp name) name (atom_new_node name s) (atomRoot s)"
  "lastAtom (atom_added name s) = lastAtom s + 1"
  by (simp_all add: atom_added_def Let_def)

lemma node_key_new [simp]: "node_key (atom_new_node name s) = name_key name"
  by (simp add: node_key_def name_key_def atom_new_node_def)

lemma atom_new_node_simps [simp]:
  "a_atom (atom_new_node name s) = lastAtom s + 1" "nstring (atom_new_node name s) = c_string name"
  by (simp_all add: atom_new_node_def)

lemma atom_added_inv:
  assumes inv: "atoms_inv s" and room: "atoms_room (Suc k) s"
    and new: "atom_search (atom_fp name) name (atomRoot s) = None"
  shows "atoms_inv (atom_added name s)"
proof -
  have bst: "abst (atomRoot s)" "\<forall>n \<in> anodes (atomRoot s). nul_free (nstring n)"
    using inv by (auto simp: atoms_inv_def)
  have fresh: "name_key name \<notin> node_key ` anodes (atomRoot s)"
    using new atom_search_None [OF bst] by simp
  have nodes: "anodes (atomRoot (atom_added name s)) = insert (atom_new_node name s) (anodes (atomRoot s))"
    using anodes_insert [OF bst fresh] by simp
  note tab = atom_added_table [OF inv room, where name = name] and una = atoms_room_unat [OF room]
  show ?thesis
    unfolding atoms_inv_def nodes
  proof (intro conjI)
    show "abst (atomRoot (atom_added name s))"
      using abst_insert [OF bst fresh] by simp
    show "\<forall>i. 0 < i \<and> i \<le> unat (lastAtom (atom_added name s)) \<longrightarrow>
        (\<exists>n \<in> insert (atom_new_node name s) (anodes (atomRoot s)).
           nodeTable (atom_added name s) ! i = Some n \<and> unat (a_atom n) = i)"
      using inv tab una by (auto simp: atoms_inv_def le_Suc_eq)
  qed (use inv tab una bst in \<open>auto simp: atoms_inv_def\<close>)
qed

lemma MakeAtom_inv:
  assumes "atoms_inv s" "atoms_room (Suc k) s" "MakeAtom ok name makeit s = (a, s')"
  shows "atoms_inv s'"
  using assms(3) by (cases rule: MakeAtom_cases) (auto intro: atom_added_inv assms)

subsection \<open>Names and atoms\<close>

lemma atoms_invD:
  assumes "atoms_inv s" "n \<in> anodes (atomRoot s)"
  shows "ValidAtom (a_atom n) s" "NameForAtom (a_atom n) s = Some (nstring n)"
  using assms by (auto simp: atoms_inv_def ValidAtom_def NoAtom_def NameForAtom_def word_le_nat_alt
      word_less_nat_alt)

lemma ValidAtom_node:
  assumes "atoms_inv s" "ValidAtom b s"
  obtains n where "n \<in> anodes (atomRoot s)" "a_atom n = b"
proof -
  have "0 < unat b \<and> unat b \<le> unat (lastAtom s)"
    using assms(2) by (simp add: ValidAtom_def NoAtom_def word_le_nat_alt unat_gt_0)
  then obtain n where "n \<in> anodes (atomRoot s)" "unat (a_atom n) = unat b"
    using assms(1) unfolding atoms_inv_def by blast
  then show thesis using that by (simp add: word_unat_eq_iff)
qed

lemma atom_added_nodes:
  assumes "atoms_inv s" "atom_search (atom_fp name) name (atomRoot s) = None"
  shows "anodes (atomRoot (atom_added name s)) = insert (atom_new_node name s) (anodes (atomRoot s))"
  using assms by (simp add: atoms_inv_def anodes_insert atom_search_None)

lemma atom_found_node:
  assumes "atoms_inv s" "atom_search (atom_fp name) name (atomRoot s) = Some a"
  obtains n where "n \<in> anodes (atomRoot s)" "a_atom n = a" "nstring n = c_string name"
  using assms by (auto simp: atoms_inv_def atom_search_spec node_key_def name_key_def)

lemma MakeAtom_name:
  assumes inv: "atoms_inv s" and room: "atoms_room (Suc k) s"
    and make: "MakeAtom ok name makeit s = (a, s')" and a: "a \<noteq> BAD_RESOURCE" "a \<noteq> NoAtom"
  shows "ValidAtom a s' \<and> NameForAtom a s' = Some (c_string name)"
  using make
proof (cases rule: MakeAtom_cases)
  case found
  then show ?thesis using inv atoms_invD [OF inv] by (metis atom_found_node)
next
  case added
  then have "atom_new_node name s \<in> anodes (atomRoot s')"
    using atom_added_nodes [OF inv] by simp
  then show ?thesis
    using atoms_invD [of s' "atom_new_node name s"] added atom_added_inv [OF inv room] by simp
qed (use a in auto)

lemma MakeAtom_frame:
  assumes inv: "atoms_inv s" and room: "atoms_room (Suc k) s"
    and make: "MakeAtom ok name makeit s = (a, s')" and b: "ValidAtom b s"
  shows "ValidAtom b s' \<and> NameForAtom b s' = NameForAtom b s"
  using make
proof (cases rule: MakeAtom_cases)
  case added
  obtain n where n: "n \<in> anodes (atomRoot s)" "a_atom n = b"
    using ValidAtom_node [OF inv b] .
  then have "n \<in> anodes (atomRoot s')" using added atom_added_nodes [OF inv] by simp
  then show ?thesis
    using n added atoms_invD [OF inv] atoms_invD [of s'] atom_added_inv [OF inv room] by metis
qed (use b in auto)

lemma MakeAtom_room:
  "atoms_room (Suc k) s \<Longrightarrow> MakeAtom ok name makeit s = (a, s') \<Longrightarrow> atoms_room k s'"
  using atoms_room_unat [of k s] by (auto elim!: MakeAtom_cases simp: atoms_room_def)

lemma MakeAtom_again:
  assumes inv: "atoms_inv s" and room: "atoms_room (Suc k) s"
    and make: "MakeAtom ok name True s = (a, s')" and a: "a \<noteq> BAD_RESOURCE"
  shows "MakeAtom ok' name makeit s' = (a, s')"
  using make
proof (cases rule: MakeAtom_cases)
  case added
  then have "atom_search (atom_fp name) name (atomRoot s') = Some a"
    using atom_added_nodes [OF inv] atom_added_inv [OF inv room]
    by (subst atom_search_spec) (auto simp: atoms_inv_def)
  then show ?thesis by (simp add: MakeAtom_def)
qed (use a in \<open>auto simp: MakeAtom_def\<close>)

subsection \<open>The interface the rest of the server uses\<close>

text \<open>
  Every other component sees atoms through three operations: intern a name, read a name
  back, test validity. The locale states what they promise; \<open>room k\<close> says that \<open>k\<close> more
  atoms can be created.
\<close>

locale atom_store =
  fixes intern :: "string \<Rightarrow> 's \<Rightarrow> atom \<times> 's"
    and name_of :: "atom \<Rightarrow> 's \<Rightarrow> string option"
    and valid :: "atom \<Rightarrow> 's \<Rightarrow> bool"
    and inv :: "'s \<Rightarrow> bool"
    and room :: "nat \<Rightarrow> 's \<Rightarrow> bool"
  assumes inv_intern: "inv s \<Longrightarrow> room (Suc k) s \<Longrightarrow> intern n s = (a, s') \<Longrightarrow> inv s'"
    and room_intern: "room (Suc k) s \<Longrightarrow> intern n s = (a, s') \<Longrightarrow> room k s'"
    and name_intern: "inv s \<Longrightarrow> room (Suc k) s \<Longrightarrow> nul_free n \<Longrightarrow> intern n s = (a, s')
        \<Longrightarrow> valid a s' \<and> name_of a s' = Some n"
    and frame_intern: "inv s \<Longrightarrow> room (Suc k) s \<Longrightarrow> intern n s = (a, s') \<Longrightarrow> valid b s
        \<Longrightarrow> valid b s' \<and> name_of b s' = name_of b s"
    and again_intern: "inv s \<Longrightarrow> room (Suc k) s \<Longrightarrow> intern n s = (a, s') \<Longrightarrow> intern n s' = (a, s')"
begin

fun intern_all :: "string list \<Rightarrow> 's \<Rightarrow> atom list \<times> 's" where
  "intern_all [] s = ([], s)"
| "intern_all (n # ns) s =
     (case intern n s of (a, s1) \<Rightarrow> case intern_all ns s1 of (as, s2) \<Rightarrow> (a # as, s2))"

lemma intern_all_frame:
  "inv s \<Longrightarrow> room (length ns) s \<Longrightarrow> intern_all ns s = (as, s') \<Longrightarrow> valid b s
     \<Longrightarrow> inv s' \<and> valid b s' \<and> name_of b s' = name_of b s"
  by (induction ns arbitrary: s as)
     (auto split: prod.splits dest: inv_intern room_intern, (metis frame_intern inv_intern room_intern)+)

lemma intern_all_names:
  "inv s \<Longrightarrow> room (length ns) s \<Longrightarrow> \<forall>n \<in> set ns. nul_free n \<Longrightarrow> intern_all ns s = (as, s')
     \<Longrightarrow> map (\<lambda>a. name_of a s') as = map Some ns"
proof (induction ns arbitrary: s as)
  case (Cons n ns)
  obtain a s1 where a: "intern n s = (a, s1)" by fastforce
  obtain bs s2 where bs: "intern_all ns s1 = (bs, s2)" by fastforce
  have s1: "inv s1" "room (length ns) s1" "valid a s1" "name_of a s1 = Some n"
    using Cons.prems a inv_intern room_intern name_intern by auto
  then show ?case
    using Cons a bs intern_all_frame [OF s1(1,2) bs s1(3)] by auto
qed simp

lemma intern_injective:
  assumes "inv s" "room (Suc (Suc k)) s" "intern m s = (a, s1)" "intern n s1 = (b, s2)"
    and "nul_free m" "nul_free n" "m \<noteq> n"
  shows "a \<noteq> b"
  using assms by (metis frame_intern inv_intern name_intern option.inject room_intern)

end

abbreviation no_fail :: "atom_alloc \<Rightarrow> bool" where
  "no_fail \<equiv> \<lambda>_. True"

lemma MakeAtom_no_fail:
  assumes inv: "atoms_inv s" and room: "atoms_room (Suc k) s" and make: "MakeAtom no_fail name True s = (a, s')"
  shows "a \<noteq> BAD_RESOURCE" "a \<noteq> NoAtom"
proof -
  consider (found) "atom_search (atom_fp name) name (atomRoot s) = Some a"
    | (added) "a = lastAtom s + 1"
    using make by (auto simp: MakeAtom_def Let_def split: option.splits)
  then have "0 < unat a \<and> unat a < unat BAD_RESOURCE"
  proof cases
    case found
    then obtain n where "n \<in> anodes (atomRoot s)" "a_atom n = a" using atom_found_node [OF inv] by metis
    then have "0 < unat a" "unat a \<le> unat (lastAtom s)"
      using inv unfolding atoms_inv_def by blast+
    then show ?thesis using room by (simp add: atoms_room_def)
  qed (use atoms_room_unat [OF room] room in \<open>auto simp: atoms_room_def\<close>)
  then show "a \<noteq> BAD_RESOURCE" "a \<noteq> NoAtom" by (auto simp: NoAtom_def)
qed

interpretation atoms: atom_store "\<lambda>n. MakeAtom no_fail n True" NameForAtom ValidAtom atoms_inv atoms_room
proof unfold_locales
  fix s k n a s' assume "atoms_inv s" "atoms_room (Suc k) s" "nul_free n" "MakeAtom no_fail n True s = (a, s')"
  then show "ValidAtom a s' \<and> NameForAtom a s' = Some n"
    by (metis MakeAtom_name MakeAtom_no_fail c_string_id)
next
  fix s k n a s' assume "atoms_inv s" "atoms_room (Suc k) s" "MakeAtom no_fail n True s = (a, s')"
  then show "MakeAtom no_fail n True s' = (a, s')"
    by (metis MakeAtom_again MakeAtom_no_fail)
qed (blast intro: MakeAtom_inv MakeAtom_room dest: MakeAtom_frame)+

subsection \<open>Properties\<close>

text \<open>C36. Interning a NUL-free name and asking for the name of the resulting atom gives the name
  back, and interning it again, in whatever mode, returns the same atom and changes nothing.\<close>

theorem atom_roundtrip:
  assumes "atoms_inv s" "atoms_room 1 s" "nul_free name" "MakeAtom ok name True s = (a, s')"
    and "a \<noteq> BAD_RESOURCE"
  shows "ValidAtom a s' \<and> NameForAtom a s' = Some name \<and> (\<forall>ok' makeit. MakeAtom ok' name makeit s' = (a, s'))"
proof -
  have "a \<noteq> NoAtom"
    using assms(4)
  proof (cases rule: MakeAtom_cases)
    case found
    then show ?thesis
      by (metis assms(1) atom_found_node atoms_invD(1) ValidAtom_def)
  next
    case added
    then show ?thesis using atoms_room_unat [of 0 s] assms(2) by (auto simp: NoAtom_def)
  qed (use assms(5) in auto)
  then show ?thesis
    using assms MakeAtom_name [of s 0 ok name True a s'] MakeAtom_again [of s 0 ok name a s']
    by (simp add: c_string_id)
qed

definition atoms_start :: atoms where
  "atoms_start = \<lparr>atomRoot = ALeaf, lastAtom = NoAtom, tableLength = InitialTableSize,
                  nodeTable = replicate InitialTableSize None\<rparr>"

lemma atoms_start_inv: "atoms_inv atoms_start" "k < 3758096384 \<Longrightarrow> atoms_room k atoms_start"
  using atoms_inv_empty by (simp_all add: atoms_start_def atoms_room_def BAD_RESOURCE_def NoAtom_def)

lemma MakeAtom_start: "MakeAtom no_fail ''WM'' True atoms_start = (1, snd (MakeAtom no_fail ''WM'' True atoms_start))"
  by (simp add: MakeAtom_def atoms_start_def Let_def NoAtom_def table_full_def InitialTableSize_def)

theorem atom_roundtrip_witness:
  "let s' = snd (MakeAtom no_fail ''WM'' True atoms_start) in
     ValidAtom 1 s' \<and> NameForAtom 1 s' = Some ''WM''
     \<and> (\<forall>ok' makeit. MakeAtom ok' ''WM'' makeit s' = (1, s'))"
  unfolding Let_def
  by (rule atom_roundtrip [OF atoms_start_inv(1) atoms_start_inv(2) _ MakeAtom_start])
     (simp_all add: BAD_RESOURCE_def)

text \<open>The server never renames or invalidates an atom: whatever name is interned, in whatever
  mode and with whatever allocation failures, every valid atom stays valid and keeps its
  name, and the table invariant (search tree, tree and table describing the same nodes)
  is kept.\<close>

lemma atom_stable:
  assumes "atoms_inv s" "atoms_room 1 s" "MakeAtom ok name makeit s = (a, s')"
  shows "atoms_inv s' \<and> (\<forall>b. ValidAtom b s \<longrightarrow> ValidAtom b s' \<and> NameForAtom b s' = NameForAtom b s)"
  using assms MakeAtom_inv [of s 0] MakeAtom_frame [of s 0] by auto

text \<open>Interning a list of NUL-free names one after the other from any good table gives atoms
  that, in the final table, name exactly those strings; so two different names never share
  an atom.\<close>

lemma atom_injective:
  assumes "atoms_inv s" "atoms_room (length names) s" "\<forall>n \<in> set names. nul_free n"
    and "atoms.intern_all names s = (as, s')"
  shows "map (\<lambda>a. NameForAtom a s') as = map Some names
    \<and> (\<forall>i < length names. \<forall>j < length names. as ! i = as ! j \<longrightarrow> names ! i = names ! j)"
proof -
  have m: "map (\<lambda>a. NameForAtom a s') as = map Some names"
    by (rule atoms.intern_all_names [OF assms])
  then have "length as = length names" by (metis length_map)
  then have "NameForAtom (as ! i) s' = Some (names ! i)" if "i < length names" for i
    using m that by (metis nth_map)
  then show ?thesis using m by (metis option.inject)
qed

text \<open>A name with an embedded NUL is stored cut at the NUL, while the fingerprint is taken over
  all its bytes: interning \<open>A\<close> and the three bytes \<open>A\<close>, NUL, \<open>B\<close> creates two different atoms
  that report the same name, so the client cannot read its own name back.\<close>

lemma atom_embedded_nul:
  "let (a, s1) = MakeAtom no_fail ''A'' True atoms_start;
       (b, s2) = MakeAtom no_fail [CHR ''A'', CHR 0x00, CHR ''B''] True s1
   in a \<noteq> b \<and> NameForAtom a s2 = Some ''A'' \<and> NameForAtom b s2 = Some ''A''"
  by (simp add: MakeAtom_def atoms_start_def Let_def NoAtom_def table_full_def InitialTableSize_def
      atom_fp_def fp_step_def c_uint_def atom_dir_def NameForAtom_def upt_conv_Cons nth_list_update)

end
