(* ===== verification/RecordSet.thy ===== *)
theory RecordSet
  imports XPrelude
begin

text \<open>
  The set type of the RECORD extension (Xext/record/set.c): sets of 16-bit message codes
  kept either as a bit vector of 64-bit longs or as a sorted list of disjoint intervals,
  behind one interface (membership test and iteration by intervals). \<open>RecordCreateSet\<close>
  chooses the representation by its memory needs.
\<close>

record RecordSetInterval =
  iv_first :: card16
  iv_last :: card16

definition maxMemberInInterval :: "RecordSetInterval list \<Rightarrow> int" where
  "maxMemberInInterval pIntervals =
     fold (\<lambda>iv m. if m < uint (iv_last iv) then uint (iv_last iv) else m) pIntervals (-1)"

subsection \<open>Bit vector representation\<close>

record BitVectorSet =
  bv_maxMember :: int
  bv_bits :: "64 word list"

definition BITS_PER_LONG :: nat where
  "BITS_PER_LONG = 64"

definition BitVectorIsMemberOfSet :: "BitVectorSet \<Rightarrow> nat \<Rightarrow> 64 word" where
  "BitVectorIsMemberOfSet pbvs pm =
     (if int pm > bv_maxMember pbvs then 0
      else bv_bits pbvs ! (pm div BITS_PER_LONG) AND push_bit (pm mod BITS_PER_LONG) 1)"

text \<open>The loop that skips whole longs equal to \<open>skipval\<close>; the state is the index of the long
  (\<open>startbit\<close> is 64 times it).\<close>

function skip_longs :: "int \<Rightarrow> 64 word list \<Rightarrow> 64 word \<Rightarrow> nat \<Rightarrow> nat" where
  "skip_longs maxMember vec skipval k =
     (if int (k * BITS_PER_LONG) \<le> maxMember \<and> vec ! k = skipval
      then skip_longs maxMember vec skipval (Suc k) else k)"
  by pat_completeness auto
termination
  by (relation "measure (\<lambda>(m, vec, sv, k). nat (m + 1) - k * BITS_PER_LONG)")
     (auto simp: BITS_PER_LONG_def)

text \<open>The loop over the bits of one long.\<close>

function walk_bits :: "64 word \<Rightarrow> bool \<Rightarrow> nat \<Rightarrow> nat" where
  "walk_bits bits bitval walkbit =
     (if walkbit < BITS_PER_LONG \<and> (bits AND push_bit walkbit 1 = 0) = bitval
      then walk_bits bits bitval (Suc walkbit) else walkbit)"
  by pat_completeness auto
termination
  by (relation "measure (\<lambda>(b, v, w). BITS_PER_LONG - w)") auto

declare skip_longs.simps [simp del] walk_bits.simps [simp del]

definition BitVectorFindBit :: "BitVectorSet \<Rightarrow> nat \<Rightarrow> bool \<Rightarrow> int" where
  "BitVectorFindBit pbvs iterbit bitval =
     (let vec = bv_bits pbvs;
          startlong = iterbit div BITS_PER_LONG;
          startbit = startlong * BITS_PER_LONG;
          skipval = (if bitval then 0 else NOT 0) :: 64 word;
          maxMember = bv_maxMember pbvs
      in if int startbit > maxMember then -1
         else
           let bits = vec ! startlong;
               usefulbits = NOT (push_bit (iterbit - startbit) 1 - 1);
               k = (if bits AND usefulbits = skipval AND usefulbits
                    then skip_longs maxMember vec skipval (Suc startlong) else startlong);
               startbit' = k * BITS_PER_LONG
           in if bits AND usefulbits = skipval AND usefulbits \<and> int startbit' > maxMember then -1
              else
                let walkbit = (if startbit' < iterbit then iterbit - startbit' else 0)
                in int (startbit' + walk_bits (vec ! k) bitval walkbit))"

definition BitVectorIterateSet :: "BitVectorSet \<Rightarrow> nat \<Rightarrow> (nat \<times> RecordSetInterval) option" where
  "BitVectorIterateSet pSet iterbit =
     (let b = BitVectorFindBit pSet iterbit True in
      if b = -1 then None
      else
        let fst_member = word_of_int b;
            b' = BitVectorFindBit pSet (nat b) False;
            lst_member = (word_of_int (if b' < 0 then bv_maxMember pSet else b' - 1) :: card16)
        in Some (unat lst_member + 1, \<lparr>iv_first = fst_member, iv_last = lst_member\<rparr>))"

definition BitVectorSetMemoryRequirements :: "int \<Rightarrow> nat" where
  "BitVectorSetMemoryRequirements maxMember =
     16 + nat (maxMember + int BITS_PER_LONG) div BITS_PER_LONG * 8"

definition bv_set :: "nat \<Rightarrow> 64 word list \<Rightarrow> 64 word list" where
  "bv_set j vec =
     vec[j div BITS_PER_LONG := vec ! (j div BITS_PER_LONG) OR push_bit (j mod BITS_PER_LONG) 1]"

definition BitVectorCreateSet :: "RecordSetInterval list \<Rightarrow> nat \<Rightarrow> BitVectorSet" where
  "BitVectorCreateSet pIntervals memsize =
     \<lparr>bv_maxMember = maxMemberInInterval pIntervals,
      bv_bits = fold (\<lambda>iv. fold bv_set [unat (iv_first iv) ..< unat (iv_last iv) + 1]) pIntervals
                  (replicate ((memsize - 16) div 8) 0)\<rparr>"

subsection \<open>Interval list representation\<close>

record IntervalListSet =
  il_intervals :: "RecordSetInterval list"

function il_search :: "RecordSetInterval list \<Rightarrow> nat \<Rightarrow> int \<Rightarrow> int \<Rightarrow> bool" where
  "il_search iv pm lo hi =
     (if lo \<le> hi then
        let probe = (hi + lo) div 2 in
        if pm \<ge> unat (iv_first (iv ! nat probe)) \<and> pm \<le> unat (iv_last (iv ! nat probe)) then True
        else if pm < unat (iv_first (iv ! nat probe)) then il_search iv pm lo (probe - 1)
        else il_search iv pm (probe + 1) hi
      else False)"
  by pat_completeness auto
termination
  by (relation "measure (\<lambda>(iv, pm, lo, hi). nat (hi - lo + 1))") (auto simp: Let_def)

declare il_search.simps [simp del]

definition IntervalListIsMemberOfSet :: "IntervalListSet \<Rightarrow> nat \<Rightarrow> bool" where
  "IntervalListIsMemberOfSet prls pm =
     il_search (il_intervals prls) pm 0 (int (length (il_intervals prls)) - 1)"

text \<open>An iterator is a pointer into the interval array, NULL at the start.\<close>

definition IntervalListIterateSet ::
    "IntervalListSet \<Rightarrow> nat option \<Rightarrow> (nat option \<times> RecordSetInterval) option" where
  "IntervalListIterateSet prls pIter =
     (let pInterval = (case pIter of None \<Rightarrow> 0 | Some k \<Rightarrow> k) in
      if pInterval < length (il_intervals prls)
      then Some (Some (Suc pInterval), il_intervals prls ! pInterval)
      else None)"

definition IntervalListMemoryRequirements :: "nat \<Rightarrow> nat" where
  "IntervalListMemoryRequirements nIntervals = 16 + nIntervals * 4"

text \<open>One pass of the insertion sort: the new interval goes before the first one with a larger
  start.\<close>

fun insert_interval :: "RecordSetInterval \<Rightarrow> RecordSetInterval list \<Rightarrow> RecordSetInterval list" where
  "insert_interval x [] = [x]"
| "insert_interval x (y # ys) =
     (if iv_first x < iv_first y then x # y # ys else y # insert_interval x ys)"

text \<open>Merging abutting or overlapping neighbours, left to right.\<close>

fun merge_intervals :: "RecordSetInterval list \<Rightarrow> RecordSetInterval list" where
  "merge_intervals [] = []"
| "merge_intervals [x] = [x]"
| "merge_intervals (x # y # zs) =
     (if unat (iv_last x) + 1 < unat (iv_first y) then x # merge_intervals (y # zs)
      else merge_intervals (x\<lparr>iv_last := max (iv_last x) (iv_last y)\<rparr> # zs))"

definition IntervalListCreateSet :: "RecordSetInterval list \<Rightarrow> IntervalListSet" where
  "IntervalListCreateSet pIntervals =
     \<lparr>il_intervals = merge_intervals (fold insert_interval pIntervals [])\<rparr>"

subsection \<open>Choosing the representation\<close>

datatype RecordSet = BVSet BitVectorSet | ILSet IntervalListSet

datatype set_rep = UseBitVector | UseIntervalList

definition set_alignment :: nat where
  "set_alignment = 8"

definition RecordSetMemoryRequirements :: "RecordSetInterval list \<Rightarrow> nat \<times> set_rep" where
  "RecordSetMemoryRequirements pIntervals =
     (let maxMember = maxMemberInInterval pIntervals;
          bmsize = BitVectorSetMemoryRequirements maxMember;
          rlsize = IntervalListMemoryRequirements (length pIntervals)
      in if (length pIntervals > 1 \<and> maxMember \<le> 255) \<or> bmsize < rlsize
         then (bmsize, UseBitVector) else (rlsize, UseIntervalList))"

text \<open>\<open>pMem\<close> is the caller's memory, an address and a size, or none; \<open>alloc\<close> says whether the
  allocations of the creation routines succeed.\<close>

definition RecordCreateSet ::
    "bool \<Rightarrow> RecordSetInterval list \<Rightarrow> (nat \<times> nat) option \<Rightarrow> RecordSet option" where
  "RecordCreateSet alloc pIntervals pMem =
     (case RecordSetMemoryRequirements pIntervals of (sz, rep) \<Rightarrow>
       if (case pMem of None \<Rightarrow> False
             | Some (addr, memsize) \<Rightarrow> addr mod set_alignment \<noteq> 0 \<or> memsize < sz)
       then None
       else case rep of
         UseBitVector \<Rightarrow>
           if pMem = None \<and> \<not> alloc then None
           else Some (BVSet (BitVectorCreateSet pIntervals sz))
       | UseIntervalList \<Rightarrow>
           if (pIntervals \<noteq> [] \<or> pMem = None) \<and> \<not> alloc then None
           else Some (ILSet (IntervalListCreateSet pIntervals)))"

fun RecordIsMemberOfSet :: "RecordSet \<Rightarrow> nat \<Rightarrow> bool" where
  "RecordIsMemberOfSet (BVSet s) m = (BitVectorIsMemberOfSet s m \<noteq> 0)"
| "RecordIsMemberOfSet (ILSet s) m = IntervalListIsMemberOfSet s m"

text \<open>The iterator of the common interface is an opaque pointer: NULL at the start, then the bit
  index or the interval pointer of the representation.\<close>

fun RecordIterateSet :: "RecordSet \<Rightarrow> nat option \<Rightarrow> (nat option \<times> RecordSetInterval) option" where
  "RecordIterateSet (BVSet s) pIter =
     map_option (map_prod Some (\<lambda>iv. iv))
       (BitVectorIterateSet s (case pIter of None \<Rightarrow> 0 | Some k \<Rightarrow> k))"
| "RecordIterateSet (ILSet s) pIter = IntervalListIterateSet s pIter"

subsection \<open>What a list of intervals denotes\<close>

definition iv_members :: "RecordSetInterval \<Rightarrow> nat set" where
  "iv_members iv = {unat (iv_first iv) .. unat (iv_last iv)}"

definition ivs_members :: "RecordSetInterval list \<Rightarrow> nat set" where
  "ivs_members ivs = (\<Union>iv \<in> set ivs. iv_members iv)"

definition iv_wf :: "RecordSetInterval \<Rightarrow> bool" where
  "iv_wf iv \<longleftrightarrow> iv_first iv \<le> iv_last iv"

lemma ivs_members_simps [simp]:
  "ivs_members [] = {}" "ivs_members (x # xs) = iv_members x \<union> ivs_members xs"
  by (auto simp: ivs_members_def)

lemma iv_wf_unat: "iv_wf iv \<longleftrightarrow> unat (iv_first iv) \<le> unat (iv_last iv)"
  by (simp add: iv_wf_def word_le_nat_alt)

subsection \<open>The interval list is sorted and disjoint\<close>

definition iv_before :: "RecordSetInterval \<Rightarrow> RecordSetInterval \<Rightarrow> bool" where
  "iv_before x y \<longleftrightarrow> unat (iv_last x) + 1 < unat (iv_first y)"

definition il_inv :: "IntervalListSet \<Rightarrow> bool" where
  "il_inv s \<longleftrightarrow> (\<forall>iv \<in> set (il_intervals s). iv_wf iv) \<and> sorted_wrt iv_before (il_intervals s)"

abbreviation iv_sorted :: "RecordSetInterval list \<Rightarrow> bool" where
  "iv_sorted \<equiv> sorted_wrt (\<lambda>x y. iv_first x \<le> iv_first y)"

lemma set_insert_interval [simp]: "set (insert_interval x xs) = insert x (set xs)"
  by (induction xs) auto

lemma sorted_insert_interval: "iv_sorted xs \<Longrightarrow> iv_sorted (insert_interval x xs)"
  by (induction xs) auto

lemma fold_insert_interval:
  "set (fold insert_interval xs ys) = set xs \<union> set ys"
  "iv_sorted ys \<Longrightarrow> iv_sorted (fold insert_interval xs ys)"
  by (induction xs arbitrary: ys) (auto simp: sorted_insert_interval)

lemma merge_intervals_first:
  assumes "iv_sorted (x # xs)" "y \<in> set (merge_intervals (x # xs))"
  shows "iv_first x \<le> iv_first y"
  using assms
proof (induction "x # xs" arbitrary: x xs y rule: merge_intervals.induct)
  case (3 x y' zs)
  then show ?case by (fastforce split: if_splits)
qed auto

lemma merge_intervals_members:
  assumes "iv_sorted xs" "\<forall>iv \<in> set xs. iv_wf iv"
  shows "ivs_members (merge_intervals xs) = ivs_members xs \<and> (\<forall>iv \<in> set (merge_intervals xs). iv_wf iv)"
  using assms
proof (induction xs rule: merge_intervals.induct)
  case (3 x y zs)
  show ?case
  proof (cases "unat (iv_last x) + 1 < unat (iv_first y)")
    case False
    let ?m = "x\<lparr>iv_last := max (iv_last x) (iv_last y)\<rparr>"
    have "iv_members ?m = iv_members x \<union> iv_members y"
      using False "3.prems" by (auto simp: iv_members_def iv_wf_unat word_le_nat_alt max_def)
    moreover have "iv_wf ?m" using "3.prems" by (auto simp: iv_wf_unat word_le_nat_alt max_def)
    ultimately show ?thesis using False "3.IH"(2) "3.prems" by auto
  qed (use 3 in auto)
qed auto

lemma merge_intervals_separated:
  assumes "iv_sorted xs" "\<forall>iv \<in> set xs. iv_wf iv"
  shows "sorted_wrt iv_before (merge_intervals xs)"
  using assms
proof (induction xs rule: merge_intervals.induct)
  case (3 x y zs)
  show ?case
  proof (cases "unat (iv_last x) + 1 < unat (iv_first y)")
    case True
    have "iv_before x z" if "z \<in> set (merge_intervals (y # zs))" for z
      using merge_intervals_first [of y zs z] that "3.prems" True
      by (auto simp: iv_before_def word_le_nat_alt)
    with True 3 show ?thesis by auto
  next
    case False
    have "iv_wf (x\<lparr>iv_last := max (iv_last x) (iv_last y)\<rparr>)"
      using "3.prems" by (auto simp: iv_wf_def le_max_iff_disj)
    with False 3 show ?thesis by auto
  qed
qed auto

lemma IntervalListCreateSet_spec:
  assumes "\<forall>iv \<in> set ivs. iv_wf iv"
  shows "il_inv (IntervalListCreateSet ivs)"
    and "ivs_members (il_intervals (IntervalListCreateSet ivs)) = ivs_members ivs"
proof -
  let ?s = "fold insert_interval ivs []"
  have s: "set ?s = set ivs" "iv_sorted ?s" by (simp_all add: fold_insert_interval)
  then have "ivs_members ?s = ivs_members ivs" by (simp add: ivs_members_def)
  with s assms show "il_inv (IntervalListCreateSet ivs)"
    and "ivs_members (il_intervals (IntervalListCreateSet ivs)) = ivs_members ivs"
    using merge_intervals_members [of ?s] merge_intervals_separated [of ?s]
    by (simp_all add: il_inv_def IntervalListCreateSet_def)
qed

subsection \<open>Binary search\<close>

lemma il_order:
  assumes "il_inv s" "i < j" "j < length (il_intervals s)"
  shows "unat (iv_last (il_intervals s ! i)) < unat (iv_first (il_intervals s ! j))"
proof -
  have "iv_before (il_intervals s ! i) (il_intervals s ! j)"
    using assms by (auto simp: il_inv_def sorted_wrt_iff_nth_less)
  then show ?thesis by (simp add: iv_before_def)
qed

lemma il_wf_nth: "il_inv s \<Longrightarrow> k < length (il_intervals s) \<Longrightarrow>
    unat (iv_first (il_intervals s ! k)) \<le> unat (iv_last (il_intervals s ! k))"
  by (auto simp: il_inv_def iv_wf_unat)

lemma il_not_right:
  assumes "il_inv s" "p \<le> k" "k < length (il_intervals s)" "pm < unat (iv_first (il_intervals s ! p))"
  shows "pm \<notin> iv_members (il_intervals s ! k)"
  using assms il_order [of s p k] il_wf_nth [of s p] by (cases "k = p") (auto simp: iv_members_def)

lemma il_not_left:
  assumes "il_inv s" "k \<le> p" "p < length (il_intervals s)" "pm > unat (iv_last (il_intervals s ! p))"
  shows "pm \<notin> iv_members (il_intervals s ! k)"
  using assms il_order [of s k p] il_wf_nth [of s p] by (cases "k = p") (auto simp: iv_members_def)

abbreviation il_in_range :: "IntervalListSet \<Rightarrow> nat \<Rightarrow> int \<Rightarrow> int \<Rightarrow> bool" where
  "il_in_range s pm lo hi \<equiv> \<exists>k. lo \<le> int k \<and> int k \<le> hi \<and> pm \<in> iv_members (il_intervals s ! k)"

lemma il_range_left:
  assumes "il_inv s" "hi < int (length (il_intervals s))" "0 \<le> p" "p \<le> hi"
    and "pm < unat (iv_first (il_intervals s ! nat p))"
  shows "il_in_range s pm lo hi \<longleftrightarrow> il_in_range s pm lo (p - 1)"
  using assms il_not_right [of s "nat p" _ pm] by (smt (verit, best) nat_le_iff of_nat_less_iff)

lemma il_range_right:
  assumes "il_inv s" "hi < int (length (il_intervals s))" "lo \<le> p" "0 \<le> p" "p \<le> hi"
    and "pm > unat (iv_last (il_intervals s ! nat p))"
  shows "il_in_range s pm lo hi \<longleftrightarrow> il_in_range s pm (p + 1) hi"
  using assms il_not_left [of s _ "nat p" pm] by (smt (verit, best) le_nat_iff nat_less_iff)

lemma il_search_spec:
  assumes "il_inv s" "0 \<le> lo" "hi < int (length (il_intervals s))"
  shows "il_search (il_intervals s) pm lo hi \<longleftrightarrow> il_in_range s pm lo hi"
  using assms
proof (induction "il_intervals s" pm lo hi rule: il_search.induct)
  case (1 pm lo hi)
  let ?iv = "il_intervals s"
  show ?case
  proof (cases "lo \<le> hi")
    case True
    define p where "p = (hi + lo) div 2"
    have p: "lo \<le> p" "0 \<le> p" "p \<le> hi" using True "1.prems" by (auto simp: p_def)
    let ?f = "unat (iv_first (?iv ! nat p))" and ?l = "unat (iv_last (?iv ! nat p))"
    have step: "il_search ?iv pm lo hi =
      (if ?f \<le> pm \<and> pm \<le> ?l then True else if pm < ?f then il_search ?iv pm lo (p - 1)
       else il_search ?iv pm (p + 1) hi)"
      using True by (simp add: il_search.simps [of ?iv pm lo hi] Let_def p_def)
    consider (here) "?f \<le> pm" "pm \<le> ?l" | (left) "\<not> (?f \<le> pm \<and> pm \<le> ?l)" "pm < ?f"
      | (right) "\<not> (?f \<le> pm \<and> pm \<le> ?l)" "\<not> pm < ?f" by blast
    then show ?thesis
    proof cases
      case here
      then have "pm \<in> iv_members (?iv ! nat p)" by (simp add: iv_members_def)
      then have "il_in_range s pm lo hi" using p by (intro exI [of _ "nat p"]) simp
      with step here show ?thesis by simp
    next
      case left
      then show ?thesis
        using step "1.hyps"(1) [OF True p_def left] il_range_left [of s hi p pm lo] "1.prems" p by simp
    next
      case right
      then show ?thesis
        using step "1.hyps"(2) [OF True p_def right] il_range_right [of s hi lo p pm] "1.prems" p by simp
    qed
  qed (auto simp: il_search.simps [of ?iv pm lo hi])
qed

lemma IntervalListIsMemberOfSet_spec:
  "il_inv s \<Longrightarrow> IntervalListIsMemberOfSet s pm \<longleftrightarrow> pm \<in> ivs_members (il_intervals s)"
  unfolding IntervalListIsMemberOfSet_def
  by (subst il_search_spec) (auto simp: ivs_members_def in_set_conv_nth, force)

subsection \<open>The bit vector as a set of bits\<close>

definition bitat :: "64 word list \<Rightarrow> nat \<Rightarrow> bool" where
  "bitat vec j \<longleftrightarrow> bit (vec ! (j div BITS_PER_LONG)) (j mod BITS_PER_LONG)"

definition bv_inv :: "BitVectorSet \<Rightarrow> bool" where
  "bv_inv s \<longleftrightarrow> -1 \<le> bv_maxMember s \<and> bv_maxMember s < 65536 \<and>
     length (bv_bits s) = nat (bv_maxMember s + 64) div 64 \<and>
     (\<forall>j < 64 * length (bv_bits s). bitat (bv_bits s) j \<longrightarrow> int j \<le> bv_maxMember s)"

definition bv_members :: "BitVectorSet \<Rightarrow> nat set" where
  "bv_members s = {j. j < 64 * length (bv_bits s) \<and> bitat (bv_bits s) j}"

lemma and_push_bit_1: "n < 64 \<Longrightarrow> ((w::64 word) AND push_bit n 1 = 0) \<longleftrightarrow> \<not> bit w n"
  by (simp add: push_bit_eq_mult and_exp_eq_0_iff_not_bit)

lemma bv_long_in_range:
  assumes "bv_inv s"
  shows "int (k * BITS_PER_LONG) \<le> bv_maxMember s \<longleftrightarrow> k < length (bv_bits s)"
  using assms by (auto simp: bv_inv_def BITS_PER_LONG_def)

lemmas bv_long_in_range' = bv_long_in_range [unfolded of_nat_mult]

lemma bv_member_in_range:
  assumes "bv_inv s" "int j \<le> bv_maxMember s"
  shows "j < 64 * length (bv_bits s)"
  using assms by (auto simp: bv_inv_def)

lemma BitVectorIsMemberOfSet_spec:
  assumes "bv_inv s"
  shows "BitVectorIsMemberOfSet s pm \<noteq> 0 \<longleftrightarrow> pm \<in> bv_members s"
  using assms bv_member_in_range [of s pm]
  by (auto simp: BitVectorIsMemberOfSet_def bv_members_def bitat_def and_exp_eq_0_iff_not_bit BITS_PER_LONG_def bv_inv_def)

lemma bitat_bv_set:
  assumes "j < 64 * length vec" "k < 64 * length vec"
  shows "bitat (bv_set j vec) k \<longleftrightarrow> k = j \<or> bitat vec k"
proof (cases "j div 64 = k div 64")
  case True
  then have "(j mod 64 = k mod 64) \<longleftrightarrow> k = j" by (metis div_mult_mod_eq)
  moreover have "k div 64 < length vec" using assms by simp
  ultimately show ?thesis
    using True by (auto simp: bitat_def bv_set_def BITS_PER_LONG_def bit_simps)
next
  case False
  then show ?thesis by (auto simp: bitat_def bv_set_def BITS_PER_LONG_def)
qed

lemma length_bv_set [simp]: "length (bv_set j vec) = length vec"
  by (simp add: bv_set_def)

lemma fold_bv_set:
  assumes "\<forall>j \<in> set js. j < 64 * length vec"
  shows "length (fold bv_set js vec) = length vec"
    and "k < 64 * length vec \<Longrightarrow> bitat (fold bv_set js vec) k \<longleftrightarrow> k \<in> set js \<or> bitat vec k"
  using assms by (induction js arbitrary: vec) (auto simp: bitat_bv_set)

lemma fold_fold_bv_set:
  assumes "\<forall>iv \<in> set ivs. unat (iv_last iv) < 64 * length vec"
  shows "length (fold (\<lambda>iv. fold bv_set [unat (iv_first iv) ..< unat (iv_last iv) + 1]) ivs vec) = length vec \<and>
    (\<forall>k < 64 * length vec.
       bitat (fold (\<lambda>iv. fold bv_set [unat (iv_first iv) ..< unat (iv_last iv) + 1]) ivs vec) k
       \<longleftrightarrow> k \<in> ivs_members ivs \<or> bitat vec k)"
  using assms
proof (induction ivs arbitrary: vec)
  case (Cons iv ivs)
  let ?js = "[unat (iv_first iv) ..< unat (iv_last iv) + 1]"
  have "\<forall>j \<in> set ?js. j < 64 * length vec" using Cons.prems by auto
  note step = fold_bv_set [OF this]
  show ?case using Cons.IH [of "fold bv_set ?js vec"] Cons.prems step
    by (auto simp: iv_members_def simp del: upt_Suc)
qed simp

lemma maxMemberInInterval_ge:
  "int (unat (iv_last iv)) \<le> maxMemberInInterval ivs" if "iv \<in> set ivs"
proof -
  have "m \<le> fold (\<lambda>iv m. if m < uint (iv_last iv) then uint (iv_last iv) else m) ivs m \<and>
    (\<forall>iv \<in> set ivs. uint (iv_last iv) \<le>
      fold (\<lambda>iv m. if m < uint (iv_last iv) then uint (iv_last iv) else m) ivs m)" for m
    by (induction ivs arbitrary: m) (auto, (smt (verit))+)
  with that show ?thesis by (simp add: maxMemberInInterval_def)
qed

lemma maxMemberInInterval_bounds:
  "-1 \<le> maxMemberInInterval ivs" "maxMemberInInterval ivs < 65536"
proof -
  have "uint (w :: card16) < 65536" for w using uint_lt2p [of w] by simp
  then have "-1 \<le> m \<Longrightarrow> m < 65536 \<Longrightarrow>
    -1 \<le> fold (\<lambda>iv m. if m < uint (iv_last iv) then uint (iv_last iv) else m) ivs m \<and>
    fold (\<lambda>iv m. if m < uint (iv_last iv) then uint (iv_last iv) else m) ivs m < 65536" for m
    by (induction ivs arbitrary: m) (auto simp: order_trans [OF _ uint_ge_0])
  from this [of "-1"] show "-1 \<le> maxMemberInInterval ivs" "maxMemberInInterval ivs < 65536"
    by (auto simp: maxMemberInInterval_def)
qed

lemma BitVectorCreateSet_spec:
  fixes ivs
  defines "s \<equiv> BitVectorCreateSet ivs (BitVectorSetMemoryRequirements (maxMemberInInterval ivs))"
  shows "bv_inv s" and "bv_members s = ivs_members ivs"
proof -
  let ?n = "nat (maxMemberInInterval ivs + 64) div 64"
  let ?vec = "replicate ?n 0 :: 64 word list"
  note b = maxMemberInInterval_bounds [of ivs]
  have le: "k < 64 * ?n" if "int k \<le> maxMemberInInterval ivs" for k using that by linarith
  have last_le: "\<forall>iv \<in> set ivs. unat (iv_last iv) < 64 * length ?vec"
    using maxMemberInInterval_ge le by simp
  note f = fold_fold_bv_set [OF last_le]
  have zero: "\<not> bitat ?vec k" if "k < 64 * ?n" for k
    using that by (simp add: bitat_def BITS_PER_LONG_def)
  have mem_le: "int k \<le> maxMemberInInterval ivs" if k: "k \<in> ivs_members ivs" for k
  proof -
    obtain iv where "iv \<in> set ivs" "k \<le> unat (iv_last iv)"
      using k by (fastforce simp: ivs_members_def iv_members_def)
    then show ?thesis using maxMemberInInterval_ge [of iv ivs] by linarith
  qed
  have s: "length (bv_bits s) = ?n" "bv_maxMember s = maxMemberInInterval ivs"
    "\<forall>k < 64 * ?n. bitat (bv_bits s) k \<longleftrightarrow> k \<in> ivs_members ivs"
    using f zero by (simp_all add: s_def BitVectorCreateSet_def BitVectorSetMemoryRequirements_def
        BITS_PER_LONG_def del: upt_Suc)
  then show "bv_inv s" using b mem_le by (simp add: bv_inv_def)
  show "bv_members s = ivs_members ivs" using s mem_le le by (auto simp: bv_members_def)
qed

subsection \<open>Finding bits\<close>

definition find_result :: "BitVectorSet \<Rightarrow> nat \<Rightarrow> bool \<Rightarrow> int \<Rightarrow> bool" where
  "find_result s it v r \<longleftrightarrow>
     (if r = -1 then \<forall>j. it \<le> j \<and> j < 64 * length (bv_bits s) \<longrightarrow> bitat (bv_bits s) j \<noteq> v
      else int it \<le> r \<and> r < 64 * int (length (bv_bits s)) \<and> bitat (bv_bits s) (nat r) = v \<and>
           (\<forall>j. it \<le> j \<and> j < nat r \<longrightarrow> bitat (bv_bits s) j \<noteq> v))"

lemma walk_bits_spec:
  assumes "w \<le> 64"
  shows "w \<le> walk_bits b v w \<and> walk_bits b v w \<le> 64 \<and>
    (\<forall>i. w \<le> i \<and> i < walk_bits b v w \<longrightarrow> bit b i \<noteq> v) \<and>
    (walk_bits b v w < 64 \<longrightarrow> bit b (walk_bits b v w) = v)"
  using assms
proof (induction b v w rule: walk_bits.induct)
  case (1 b v w)
  show ?case
  proof (cases "w < 64 \<and> (b AND push_bit w 1 = 0) = v")
    case True
    then have "bit b w \<noteq> v" using and_push_bit_1 [of w b] by simp
    moreover have "walk_bits b v w = walk_bits b v (Suc w)"
      using True by (subst walk_bits.simps) (simp add: BITS_PER_LONG_def)
    moreover note "1.IH"
    ultimately show ?thesis using True by (simp add: BITS_PER_LONG_def) (metis Suc_leI Suc_leD le_eq_less_or_eq)
  next
    case False
    then have "walk_bits b v w = w" by (subst walk_bits.simps) (auto simp: BITS_PER_LONG_def)
    moreover have "w < 64 \<Longrightarrow> bit b w = v" using False and_push_bit_1 [of w b] by auto
    ultimately show ?thesis using "1.prems" by auto
  qed
qed

lemma skip_longs_spec:
  fixes sv k
  assumes "bv_inv s"
  defines "r \<equiv> skip_longs (bv_maxMember s) (bv_bits s) sv k"
  shows "k \<le> r \<and> (\<forall>i. k \<le> i \<and> i < r \<longrightarrow> bv_bits s ! i = sv) \<and>
    (r < length (bv_bits s) \<longrightarrow> bv_bits s ! r \<noteq> sv) \<and>
    (r \<le> length (bv_bits s) \<or> r = k)"
  unfolding r_def
proof (induction "bv_maxMember s" "bv_bits s" sv k rule: skip_longs.induct)
  case (1 sv k)
  show ?case
  proof (cases "k < length (bv_bits s) \<and> bv_bits s ! k = sv")
    case True
    then have "skip_longs (bv_maxMember s) (bv_bits s) sv k =
        skip_longs (bv_maxMember s) (bv_bits s) sv (Suc k)"
      by (subst skip_longs.simps) (simp add: bv_long_in_range' [OF assms(1)])
    moreover note 1
    ultimately show ?thesis
      using True by (simp add: bv_long_in_range' [OF assms(1)]) (metis Suc_leI Suc_leD le_eq_less_or_eq)
  next
    case False
    then have "skip_longs (bv_maxMember s) (bv_bits s) sv k = k"
      by (subst skip_longs.simps) (auto simp: bv_long_in_range' [OF assms(1)])
    with False show ?thesis by auto
  qed
qed

lemma useful_bits_eq:
  "(b AND NOT (push_bit n 1 - 1) = (if v then 0 else NOT 0) AND NOT (push_bit n 1 - 1)) \<longleftrightarrow>
   (\<forall>i. n \<le> i \<and> i < 64 \<longrightarrow> bit (b::64 word) i \<noteq> v)"
proof -
  have "bit (NOT (push_bit n 1 - 1 :: 64 word)) i \<longleftrightarrow> n \<le> i" if "i < 64" for i
    using that by (auto simp: bit_simps simp flip: mask_eq_exp_minus_1)
  then show ?thesis by (auto simp: bit_eq_iff bit_simps)
qed

lemma find_result_int:
  "find_result s it v (int b) \<longleftrightarrow> it \<le> b \<and> b < 64 * length (bv_bits s) \<and>
     bitat (bv_bits s) b = v \<and> (\<forall>j. it \<le> j \<and> j < b \<longrightarrow> bitat (bv_bits s) j \<noteq> v)"
proof -
  have "int b < 64 * int (length (bv_bits s)) \<longleftrightarrow> b < 64 * length (bv_bits s)" by linarith
  then show ?thesis by (simp add: find_result_def)
qed

lemma find_in_long:
  assumes k: "k < length (bv_bits s)" and w: "w < 64" and it: "it \<le> 64 * k + w"
    and before: "\<forall>j. it \<le> j \<and> j < 64 * k + w \<longrightarrow> bitat (bv_bits s) j \<noteq> v"
    and ex: "w \<le> i" "i < 64" "bit (bv_bits s ! k) i = v"
  shows "find_result s it v (int (64 * k + walk_bits (bv_bits s ! k) v w))"
proof -
  let ?r = "walk_bits (bv_bits s ! k) v w"
  have r: "w \<le> ?r" "?r < 64" "bit (bv_bits s ! k) ?r = v"
    "\<And>i. w \<le> i \<Longrightarrow> i < ?r \<Longrightarrow> bit (bv_bits s ! k) i \<noteq> v"
    using walk_bits_spec [of w "bv_bits s ! k" v] w ex by (auto simp: not_less le_eq_less_or_eq)
  have "bitat (bv_bits s) j \<noteq> v" if "it \<le> j" "j < 64 * k + ?r" for j
  proof (cases "j < 64 * k + w")
    case False
    define d where "d = j - 64 * k"
    have "j = 64 * k + d" "w \<le> d" "d < ?r" using False that by (auto simp: d_def)
    with r(2,4) show ?thesis by (simp add: bitat_def BITS_PER_LONG_def)
  qed (use before that in blast)
  moreover have "bitat (bv_bits s) (64 * k + ?r) = v"
    using r by (simp add: bitat_def BITS_PER_LONG_def)
  moreover have "it \<le> 64 * k + ?r" "64 * k + ?r < 64 * length (bv_bits s)" using it k r(1,2) by linarith+
  ultimately show ?thesis unfolding find_result_int by blast
qed

lemma skipval_bits:
  assumes "(w::64 word) \<noteq> (if v then 0 else NOT 0)"
  shows "\<exists>i < 64. bit w i = v"
  using assms by (auto simp: bit_eq_iff bit_simps split: if_splits)

text \<open>The search in terms of longs: whether the rest of the first long is skipped, and the next
  long that is not.\<close>

definition rest_skips :: "BitVectorSet \<Rightarrow> nat \<Rightarrow> bool \<Rightarrow> bool" where
  "rest_skips s it v \<longleftrightarrow>
     (\<forall>i. it mod 64 \<le> i \<and> i < 64 \<longrightarrow> bit (bv_bits s ! (it div 64)) i \<noteq> v)"

definition next_long :: "BitVectorSet \<Rightarrow> nat \<Rightarrow> bool \<Rightarrow> nat" where
  "next_long s it v =
     skip_longs (bv_maxMember s) (bv_bits s) (if v then 0 else NOT 0) (Suc (it div 64))"

lemma next_long_spec:
  assumes "bv_inv s"
  shows "it div 64 < next_long s it v"
    and "it div 64 < k \<Longrightarrow> k < next_long s it v \<Longrightarrow> i < 64 \<Longrightarrow> bit (bv_bits s ! k) i \<noteq> v"
    and "next_long s it v < length (bv_bits s) \<Longrightarrow> \<exists>i < 64. bit (bv_bits s ! next_long s it v) i = v"
proof -
  note k = skip_longs_spec [OF assms, of "Suc (it div 64)" "if v then 0 else NOT 0", folded next_long_def]
  show "it div 64 < next_long s it v" using k by simp
  show "bit (bv_bits s ! k) i \<noteq> v" if "it div 64 < k" "k < next_long s it v" "i < 64"
    using k that by simp
  show "\<exists>i < 64. bit (bv_bits s ! next_long s it v) i = v" if "next_long s it v < length (bv_bits s)"
    using k that by (intro skipval_bits) blast
qed

lemma BitVectorFindBit_eq:
  assumes "bv_inv s"
  shows "BitVectorFindBit s it v =
    (if length (bv_bits s) \<le> it div 64 then -1
     else if rest_skips s it v
       then if length (bv_bits s) \<le> next_long s it v then -1
            else int (64 * next_long s it v + walk_bits (bv_bits s ! next_long s it v) v 0)
     else int (64 * (it div 64) + walk_bits (bv_bits s ! (it div 64)) v (it mod 64)))"
proof -
  let ?sl = "it div 64" and ?k = "next_long s it v" and ?n = "length (bv_bits s)"
  have range: "bv_maxMember s < int (k * 64) \<longleftrightarrow> ?n \<le> k" for k
    using bv_long_in_range [OF assms, of k] by (simp add: BITS_PER_LONG_def) linarith
  have split: "?sl * 64 + it mod 64 = it" by (rule div_mult_mod_eq)
  have sub: "it - ?sl * 64 = it mod 64" using split by linarith
  have w: "(if ?sl * 64 < it then it mod 64 else 0) = it mod 64"
  proof (cases "?sl * 64 < it")
    case False
    then have "it mod 64 = 0" using split by linarith
    then show ?thesis by simp
  qed simp
  have k: "\<not> ?k * 64 < it" using next_long_spec(1) [OF assms, of it v] by linarith
  show ?thesis
    unfolding BitVectorFindBit_def Let_def BITS_PER_LONG_def range sub useful_bits_eq
      rest_skips_def [symmetric] next_long_def [symmetric]
    by (cases "?n \<le> ?sl"; cases "rest_skips s it v"; cases "?n \<le> ?k")
      (simp_all only: if_True if_False simp_thms sub w k mult.commute [of 64] refl)
qed

lemma bitat_skipped:
  assumes "bv_inv s" "rest_skips s it v" "it \<le> j" "j div 64 < next_long s it v"
  shows "bitat (bv_bits s) j \<noteq> v"
proof (cases "j div 64 = it div 64")
  case True
  have "it mod 64 \<le> j mod 64"
    using assms(3) True div_mult_mod_eq [of it 64] div_mult_mod_eq [of j 64] by linarith
  with True assms(2) show ?thesis by (simp add: bitat_def BITS_PER_LONG_def rest_skips_def)
next
  case False
  then have "it div 64 < j div 64" using assms(3) div_le_mono [of it j 64] by simp
  then show ?thesis
    using next_long_spec(2) [OF assms(1) _ assms(4), of "j mod 64"]
    by (simp add: bitat_def BITS_PER_LONG_def)
qed

lemma BitVectorFindBit_spec:
  assumes inv: "bv_inv s"
  shows "find_result s it v (BitVectorFindBit s it v)"
proof -
  let ?vec = "bv_bits s" and ?sl = "it div 64" and ?k = "next_long s it v"
  let ?n = "length ?vec"
  consider (off) "?n \<le> ?sl"
    | (here) "?sl < ?n" "\<not> rest_skips s it v"
    | (none) "?sl < ?n" "rest_skips s it v" "?n \<le> ?k"
    | (later) "?sl < ?n" "rest_skips s it v" "?k < ?n" by linarith
  then show ?thesis
  proof cases
    case off
    then have "\<not> (it \<le> j \<and> j < 64 * ?n)" for j by auto
    with off show ?thesis unfolding BitVectorFindBit_eq [OF inv] find_result_def by simp blast
  next
    case here
    then obtain i where i: "it mod 64 \<le> i" "i < 64" "bit (?vec ! ?sl) i = v"
      by (auto simp: rest_skips_def)
    have "find_result s it v (int (64 * ?sl + walk_bits (?vec ! ?sl) v (it mod 64)))"
      using here by (intro find_in_long [OF _ _ _ _ i]) auto
    with here show ?thesis by (simp add: BitVectorFindBit_eq [OF inv])
  next
    case none
    have "bitat ?vec j \<noteq> v" if "it \<le> j" "j < 64 * ?n" for j
      using bitat_skipped [OF inv none(2) that(1)] none(3) that(2) by auto
    with none show ?thesis by (simp add: BitVectorFindBit_eq [OF inv] find_result_def)
  next
    case later
    obtain i where i: "i < 64" "bit (?vec ! ?k) i = v" using next_long_spec(3) [OF inv later(3)] by blast
    have "find_result s it v (int (64 * ?k + walk_bits (?vec ! ?k) v 0))"
    proof (rule find_in_long [OF _ _ _ _ _ i])
      show "it \<le> 64 * ?k + 0" using next_long_spec(1) [OF inv, of it v] by linarith
      show "\<forall>j. it \<le> j \<and> j < 64 * ?k + 0 \<longrightarrow> bitat ?vec j \<noteq> v"
        using bitat_skipped [OF inv later(2)] by auto
    qed (use later in auto)
    with later show ?thesis by (simp add: BitVectorFindBit_eq [OF inv])
  qed
qed

subsection \<open>The set interface\<close>

text \<open>What users of a set rely on: the membership test answers for the set, and an iterator
  stands at a position below which everything was delivered; each step delivers the next
  maximal run of members.\<close>

locale record_set =
  fixes is_member :: "'s \<Rightarrow> nat \<Rightarrow> bool"
    and iterate :: "'s \<Rightarrow> 'i \<Rightarrow> ('i \<times> RecordSetInterval) option"
    and start :: 'i
    and pos :: "'s \<Rightarrow> 'i \<Rightarrow> nat"
    and members :: "'s \<Rightarrow> nat set"
    and inv :: "'s \<Rightarrow> bool"
  assumes member: "inv s \<Longrightarrow> is_member s m \<longleftrightarrow> m \<in> members s"
    and start_pos: "inv s \<Longrightarrow> pos s start = 0"
    and iter_end: "inv s \<Longrightarrow> iterate s i = None \<Longrightarrow> m \<in> members s \<Longrightarrow> m < pos s i"
    and iter_wf: "inv s \<Longrightarrow> iterate s i = Some (i', iv) \<Longrightarrow> iv_wf iv \<and> pos s i \<le> unat (iv_first iv)"
    and iter_pos: "inv s \<Longrightarrow> iterate s i = Some (i', iv) \<Longrightarrow> pos s i' = unat (iv_last iv) + 1"
    and iter_run: "inv s \<Longrightarrow> iterate s i = Some (i', iv) \<Longrightarrow> pos s i \<le> m \<Longrightarrow>
          m \<le> unat (iv_last iv) + 1 \<Longrightarrow> m \<in> members s \<longleftrightarrow> m \<in> iv_members iv"
begin

text \<open>The loop a client writes, calling \<open>iterate\<close> until it returns NULL (at most \<open>n\<close> calls).\<close>

fun collect :: "nat \<Rightarrow> 's \<Rightarrow> 'i \<Rightarrow> RecordSetInterval list option" where
  "collect 0 s i = None"
| "collect (Suc n) s i =
     (case iterate s i of None \<Rightarrow> Some []
      | Some (i', iv) \<Rightarrow> map_option (Cons iv) (collect n s i'))"

lemma collect_enumerates:
  assumes "inv s" "1 \<le> n" "n + pos s i > 65536"
  shows "\<exists>ivs. collect n s i = Some ivs \<and> (\<forall>iv \<in> set ivs. iv_wf iv) \<and>
    sorted_wrt iv_before ivs \<and> ivs_members ivs = {m \<in> members s. pos s i \<le> m}"
  using assms(2,3)
proof (induction n arbitrary: i)
  case (Suc n)
  show ?case
  proof (cases "iterate s i")
    case None
    then have "{m \<in> members s. pos s i \<le> m} = {}" using iter_end [OF assms(1) None] by force
    with None show ?thesis by simp
  next
    case (Some r)
    then obtain i' iv where it: "iterate s i = Some (i', iv)" by (cases r) auto
    note wf = iter_wf [OF assms(1) it] and pos' = iter_pos [OF assms(1) it]
      and run = iter_run [OF assms(1) it]
    have le: "unat (iv_first iv) \<le> unat (iv_last iv)" using wf by (simp add: iv_wf_unat)
    have "unat (iv_last iv) < 65536" by (rule unat_card16_less)
    then obtain ivs where ivs: "collect n s i' = Some ivs" "\<forall>iv \<in> set ivs. iv_wf iv"
      "sorted_wrt iv_before ivs" "ivs_members ivs = {m \<in> members s. pos s i' \<le> m}"
      using Suc.IH [of i'] Suc.prems pos' wf le by fastforce
    have gap: "unat (iv_last iv) + 1 \<notin> members s"
      using run [of "unat (iv_last iv) + 1"] wf le by (simp add: iv_members_def)
    have "iv_before iv y" if "y \<in> set ivs" for y
    proof -
      have "unat (iv_first y) \<in> ivs_members ivs"
        using that ivs(2) by (force simp: ivs_members_def iv_members_def iv_wf_unat)
      then have "unat (iv_first y) \<in> members s" "unat (iv_last iv) + 1 \<le> unat (iv_first y)"
        using ivs(4) pos' by auto
      moreover from this(1) gap have "unat (iv_first y) \<noteq> unat (iv_last iv) + 1" by metis
      ultimately show ?thesis by (simp add: iv_before_def)
    qed
    moreover have "ivs_members (iv # ivs) = {m \<in> members s. pos s i \<le> m}" (is "?l = ?r")
    proof (rule set_eqI)
      fix m
      show "m \<in> ?l \<longleftrightarrow> m \<in> ?r"
        using run [of m] pos' wf le ivs(4)
        by (cases "m \<le> unat (iv_last iv)") (simp_all add: iv_members_def, linarith?)
    qed
    ultimately show ?thesis using it ivs wf by auto
  qed
qed simp

lemma collect_all:
  assumes "inv s"
  shows "\<exists>ivs. collect 65537 s start = Some ivs \<and> (\<forall>iv \<in> set ivs. iv_wf iv) \<and>
    sorted_wrt iv_before ivs \<and> ivs_members ivs = members s"
  using collect_enumerates [of s 65537 start] assms start_pos by simp

end

subsection \<open>Both representations implement the interface\<close>

lemma bv_inv_range: "bv_inv s \<Longrightarrow> m \<in> bv_members s \<Longrightarrow> int m \<le> bv_maxMember s \<and> m < 65536"
  by (auto simp: bv_inv_def bv_members_def)

lemma bv_iterate_None:
  assumes "bv_inv s" "BitVectorIterateSet s i = None" "m \<in> bv_members s"
  shows "m < i"
  using BitVectorFindBit_spec [OF assms(1), of i True] assms(2,3)
  by (auto simp: BitVectorIterateSet_def Let_def find_result_def bv_members_def not_less split: if_splits)

text \<open>The run a step delivers, in natural numbers.\<close>

lemma bv_iterate_Some:
  assumes inv: "bv_inv s" and it: "BitVectorIterateSet s i = Some (i', iv)"
  shows "i' = unat (iv_last iv) + 1" "i \<le> unat (iv_first iv)" "unat (iv_first iv) \<le> unat (iv_last iv)"
    "\<And>m. i \<le> m \<Longrightarrow> m \<le> unat (iv_last iv) + 1 \<Longrightarrow>
       m \<in> bv_members s \<longleftrightarrow> unat (iv_first iv) \<le> m \<and> m \<le> unat (iv_last iv)"
proof -
  let ?n = "64 * length (bv_bits s)" and ?b = "BitVectorFindBit s i True"
  have ne: "?b \<noteq> -1" using it by (auto simp: BitVectorIterateSet_def Let_def)
  then have "0 \<le> ?b" using BitVectorFindBit_spec [OF inv, of i True] by (auto simp: find_result_def)
  then obtain b where b: "?b = int b" using nonneg_int_cases by blast
  note f = BitVectorFindBit_spec [OF inv, of i True, unfolded b find_result_int]
  have b_mem: "b \<in> bv_members s" using f by (simp add: bv_members_def)
  note b_le = bv_inv_range [OF inv b_mem]
  define e where "e = BitVectorFindBit s b False"
  define l where "l = (if e < 0 then nat (bv_maxMember s) else nat (e - 1))"
  have fe: "find_result s b False e" using BitVectorFindBit_spec [OF inv] by (simp add: e_def)
  have run: "b \<le> l \<and> int l \<le> bv_maxMember s \<and> l + 1 \<notin> bv_members s \<and>
      (\<forall>m. b \<le> m \<and> m \<le> l \<longrightarrow> m \<in> bv_members s)"
  proof (cases "e = -1")
    case True
    then have "l = nat (bv_maxMember s)" by (simp add: l_def)
    moreover have "m \<in> bv_members s" if "b \<le> m" "int m \<le> bv_maxMember s" for m
      using fe True that bv_member_in_range [OF inv] by (simp add: find_result_def bv_members_def)
    ultimately show ?thesis using b_le bv_inv_range [OF inv, of "l + 1"] by auto
  next
    case False
    then have "0 \<le> e" using fe by (auto simp: find_result_def)
    then obtain c where c: "e = int c" using nonneg_int_cases by blast
    note fc = fe [unfolded c find_result_int]
    then have "c \<noteq> b" using f by auto
    then have l: "l + 1 = c" using fc by (auto simp: l_def c)
    then have run: "\<forall>m. b \<le> m \<and> m \<le> l \<longrightarrow> m \<in> bv_members s" using fc by (auto simp: bv_members_def)
    have "b \<le> l" using l fc \<open>c \<noteq> b\<close> by linarith
    with run have "l \<in> bv_members s" by blast
    then show ?thesis using run fc l \<open>b \<le> l\<close> bv_inv_range [OF inv, of l] by (auto simp: bv_members_def)
  qed
  have l_lt: "l < 65536" using run inv by (auto simp: bv_inv_def)
  have il: "int l = (if e < 0 then bv_maxMember s else e - 1)"
    using b_le fe f by (auto simp: l_def find_result_def)
  have "(i', iv) = (unat (word_of_int (int l) :: card16) + 1,
      \<lparr>iv_first = word_of_int (int b), iv_last = word_of_int (int l)\<rparr>)"
    using it ne unfolding il e_def by (auto simp: BitVectorIterateSet_def Let_def b)
  then have iv: "unat (iv_first iv) = b" "unat (iv_last iv) = l" "i' = l + 1"
    using l_lt b_le by (auto simp: unat_of_nat)
  show "i' = unat (iv_last iv) + 1" "i \<le> unat (iv_first iv)" "unat (iv_first iv) \<le> unat (iv_last iv)"
    using iv f run by auto
  show "m \<in> bv_members s \<longleftrightarrow> unat (iv_first iv) \<le> m \<and> m \<le> unat (iv_last iv)"
    if "i \<le> m" "m \<le> unat (iv_last iv) + 1" for m
    using that run f by (auto simp: iv bv_members_def le_Suc_eq not_le)
qed

interpretation bv: record_set "\<lambda>s m. BitVectorIsMemberOfSet s m \<noteq> 0" BitVectorIterateSet 0
    "\<lambda>s i. i" bv_members bv_inv
proof unfold_locales
  fix s i i' iv m
  assume a: "bv_inv s" "BitVectorIterateSet s i = Some (i', iv)"
  note r = bv_iterate_Some [OF a]
  show "iv_wf iv \<and> i \<le> unat (iv_first iv)" "i' = unat (iv_last iv) + 1" using r by (auto simp: iv_wf_unat)
  assume "i \<le> m" "m \<le> unat (iv_last iv) + 1"
  with r(4) show "m \<in> bv_members s \<longleftrightarrow> m \<in> iv_members iv" by (simp add: iv_members_def)
qed (simp_all add: BitVectorIsMemberOfSet_spec bv_iterate_None)

definition il_pos :: "IntervalListSet \<Rightarrow> nat option \<Rightarrow> nat" where
  "il_pos s i = (case i of None \<Rightarrow> 0
     | Some k \<Rightarrow> if k = 0 then 0
               else if k \<le> length (il_intervals s) then unat (iv_last (il_intervals s ! (k - 1))) + 1
               else 65536)"

definition il_index :: "nat option \<Rightarrow> nat" where
  "il_index i = (case i of None \<Rightarrow> 0 | Some k \<Rightarrow> k)"

lemma il_pos_index: "il_pos s i = il_pos s (Some (il_index i))"
  by (simp add: il_pos_def il_index_def split: option.split)

lemma il_iterate_index:
  "IntervalListIterateSet s i =
     (if il_index i < length (il_intervals s)
      then Some (Some (Suc (il_index i)), il_intervals s ! il_index i) else None)"
  by (simp add: IntervalListIterateSet_def il_index_def Let_def split: option.split)

text \<open>Seen from position \<open>k\<close>, earlier intervals lie below and later ones beyond the gap.\<close>

lemma il_pos_below:
  assumes "il_inv s" "j < k" "j < length (il_intervals s)" "m \<in> iv_members (il_intervals s ! j)"
  shows "m < il_pos s (Some k)"
proof (cases "k \<le> length (il_intervals s)")
  case True
  have "m \<le> unat (iv_last (il_intervals s ! j))" using assms(4) by (simp add: iv_members_def)
  also have "\<dots> \<le> unat (iv_last (il_intervals s ! (k - 1)))"
  proof (cases "j = k - 1")
    case False
    then have "j < k - 1" "k - 1 < length (il_intervals s)" using assms(2) True by linarith+
    then show ?thesis
      using il_order [OF assms(1), of j "k - 1"] il_wf_nth [OF assms(1), of "k - 1"] by linarith
  qed simp
  finally show ?thesis using True assms(2) by (simp add: il_pos_def)
next
  case False
  have "m < 65536"
    using assms(4) unat_card16_less [of "iv_last (il_intervals s ! j)"]
    unfolding iv_members_def atLeastAtMost_iff by linarith
  then show ?thesis using False assms by (simp add: il_pos_def)
qed

lemma il_pos_le_first:
  "il_inv s \<Longrightarrow> k < length (il_intervals s) \<Longrightarrow> il_pos s (Some k) \<le> unat (iv_first (il_intervals s ! k))"
  using il_order [of s "k - 1" k] by (auto simp: il_pos_def)

lemma il_run:
  assumes "il_inv s" "k < length (il_intervals s)" "il_pos s (Some k) \<le> m"
    "m \<le> unat (iv_last (il_intervals s ! k)) + 1"
  shows "m \<in> ivs_members (il_intervals s) \<longleftrightarrow> m \<in> iv_members (il_intervals s ! k)"
proof
  assume "m \<in> ivs_members (il_intervals s)"
  then obtain j where j: "j < length (il_intervals s)" "m \<in> iv_members (il_intervals s ! j)"
    by (auto simp: ivs_members_def in_set_conv_nth)
  have "\<not> j < k" using il_pos_below [OF assms(1) _ j] assms(3) by force
  moreover have "\<not> k < j"
  proof
    assume "k < j"
    then have "iv_before (il_intervals s ! k) (il_intervals s ! j)"
      using assms(1) j(1) by (auto simp: il_inv_def sorted_wrt_iff_nth_less)
    then show False using assms(4) j(2) by (simp add: iv_before_def iv_members_def)
  qed
  ultimately show "m \<in> iv_members (il_intervals s ! k)" using j(2) by (simp add: linorder_not_less)
qed (use assms(2) in \<open>auto simp: ivs_members_def\<close>)

interpretation il: record_set IntervalListIsMemberOfSet IntervalListIterateSet None
    il_pos "\<lambda>s. ivs_members (il_intervals s)" il_inv
proof unfold_locales
  fix s i m
  assume a: "il_inv s" "IntervalListIterateSet s i = None" "m \<in> ivs_members (il_intervals s)"
  then obtain j where "j < length (il_intervals s)" "m \<in> iv_members (il_intervals s ! j)"
    by (auto simp: ivs_members_def in_set_conv_nth)
  with a show "m < il_pos s i"
    using il_pos_below [of s j "il_index i" m]
    by (simp add: il_pos_index [of s i] il_iterate_index split: if_splits)
next
  fix s i i' iv m
  assume a: "il_inv s" "IntervalListIterateSet s i = Some (i', iv)"
  then have k: "il_index i < length (il_intervals s)" "iv = il_intervals s ! il_index i"
    "i' = Some (Suc (il_index i))" by (auto simp: il_iterate_index split: if_splits)
  show "iv_wf iv \<and> il_pos s i \<le> unat (iv_first iv)"
    using a k il_pos_le_first [of s "il_index i"] by (auto simp: il_pos_index [of s i] il_inv_def)
  show "il_pos s i' = unat (iv_last iv) + 1" using k by (simp add: il_pos_def)
  assume "il_pos s i \<le> m" "m \<le> unat (iv_last iv) + 1"
  then show "m \<in> ivs_members (il_intervals s) \<longleftrightarrow> m \<in> iv_members iv"
    using il_run [OF a(1) k(1)] k(2) by (simp add: il_pos_index [of s i])
qed (simp_all add: IntervalListIsMemberOfSet_spec il_pos_def)

subsection \<open>Sets as their users see them\<close>

fun rs_inv :: "RecordSet \<Rightarrow> bool" where
  "rs_inv (BVSet s) = bv_inv s"
| "rs_inv (ILSet s) = il_inv s"

fun rs_members :: "RecordSet \<Rightarrow> nat set" where
  "rs_members (BVSet s) = bv_members s"
| "rs_members (ILSet s) = ivs_members (il_intervals s)"

fun rs_pos :: "RecordSet \<Rightarrow> nat option \<Rightarrow> nat" where
  "rs_pos (BVSet s) i = (case i of None \<Rightarrow> 0 | Some k \<Rightarrow> k)"
| "rs_pos (ILSet s) i = il_pos s i"

interpretation rs: record_set RecordIsMemberOfSet RecordIterateSet None rs_pos rs_members rs_inv
proof unfold_locales
  fix s i m
  show "rs_inv s \<Longrightarrow> RecordIsMemberOfSet s m \<longleftrightarrow> m \<in> rs_members s"
    by (cases s) (simp_all add: bv.member il.member)
  show "rs_inv s \<Longrightarrow> rs_pos s None = 0" by (cases s) (simp_all add: il.start_pos)
  show "rs_inv s \<Longrightarrow> RecordIterateSet s i = None \<Longrightarrow> m \<in> rs_members s \<Longrightarrow> m < rs_pos s i"
    by (cases s) (auto dest: bv.iter_end il.iter_end)
next
  fix s i i' iv m
  assume a: "rs_inv s" "RecordIterateSet s i = Some (i', iv)"
  show "iv_wf iv \<and> rs_pos s i \<le> unat (iv_first iv)"
    using a by (cases s) (auto dest: bv.iter_wf il.iter_wf)
  show "rs_pos s i' = unat (iv_last iv) + 1"
    using a by (cases s) (auto dest: bv.iter_pos il.iter_pos)
  show "m \<in> rs_members s \<longleftrightarrow> m \<in> iv_members iv" if "rs_pos s i \<le> m" "m \<le> unat (iv_last iv) + 1"
  proof (cases s)
    case (BVSet b)
    then show ?thesis using a that bv.iter_run [of b _ _ iv m] by auto
  next
    case (ILSet l)
    then show ?thesis using a that il.iter_run [of l i i' iv m] by auto
  qed
qed

lemma RecordCreateSet_rep:
  assumes "\<forall>iv \<in> set ivs. iv_wf iv" "RecordCreateSet alloc ivs pMem = Some s"
  shows "rs_inv s" "rs_members s = ivs_members ivs"
  using assms IntervalListCreateSet_spec [OF assms(1)] BitVectorCreateSet_spec [of ivs]
  by (auto simp: RecordCreateSet_def RecordSetMemoryRequirements_def Let_def
      split: if_splits set_rep.splits option.splits)

lemma RecordCreateSet_ok: "\<exists>s. RecordCreateSet True ivs None = Some s"
  by (simp add: RecordCreateSet_def split: prod.split set_rep.split)

text \<open>C37. Creating a set from intervals with \<open>first \<le> last\<close> succeeds when memory does, and
  whatever representation the memory heuristic picks and whoever provides the memory, the
  membership test of the created set answers exactly for the union of the given intervals
  (overlapping, abutting and unsorted ones included).\<close>

theorem RecordCreateSet_members:
  assumes "\<forall>iv \<in> set ivs. iv_wf iv"
  shows "(\<exists>s. RecordCreateSet True ivs None = Some s) \<and>
    (\<forall>alloc pMem s m. RecordCreateSet alloc ivs pMem = Some s \<longrightarrow>
       RecordIsMemberOfSet s m = (\<exists>iv \<in> set ivs. unat (iv_first iv) \<le> m \<and> m \<le> unat (iv_last iv)))"
proof -
  have "RecordIsMemberOfSet s m = (\<exists>iv \<in> set ivs. unat (iv_first iv) \<le> m \<and> m \<le> unat (iv_last iv))"
    if "RecordCreateSet alloc ivs pMem = Some s" for alloc pMem s m
    using RecordCreateSet_rep [OF assms that] rs.member by (auto simp: ivs_members_def iv_members_def)
  with RecordCreateSet_ok show ?thesis by blast
qed

theorem RecordCreateSet_members_witness:
  "\<exists>s. RecordCreateSet True [\<lparr>iv_first = 20, iv_last = 20\<rparr>, \<lparr>iv_first = 3, iv_last = 5\<rparr>,
          \<lparr>iv_first = 4, iv_last = 9\<rparr>] None = Some s \<and>
       RecordIsMemberOfSet s 7 \<and> \<not> RecordIsMemberOfSet s 10"
proof -
  let ?ivs = "[\<lparr>iv_first = 20, iv_last = 20\<rparr>, \<lparr>iv_first = 3, iv_last = 5\<rparr>,
          \<lparr>iv_first = 4, iv_last = 9\<rparr>] :: RecordSetInterval list"
  have "\<forall>iv \<in> set ?ivs. iv_wf iv" by (simp add: iv_wf_def)
  note t = RecordCreateSet_members [OF this]
  then obtain s where s: "RecordCreateSet True ?ivs None = Some s" by blast
  with t have "RecordIsMemberOfSet s m =
      (\<exists>iv \<in> set ?ivs. unat (iv_first iv) \<le> m \<and> m \<le> unat (iv_last iv))" for m by blast
  from this [of 7] this [of 10] s show ?thesis by auto
qed

text \<open>Iterating over a created set until the iterator returns NULL ends, and delivers
  well-formed intervals in increasing order, with a gap between any two neighbours, whose
  union is the union of the intervals the set was created from.\<close>

lemma RecordCreateSet_iterates:
  assumes "\<forall>iv \<in> set ivs. iv_wf iv" "RecordCreateSet alloc ivs pMem = Some s"
  shows "\<exists>out. rs.collect 65537 s None = Some out \<and> (\<forall>iv \<in> set out. iv_wf iv) \<and>
    sorted_wrt (\<lambda>x y. unat (iv_last x) + 1 < unat (iv_first y)) out \<and> ivs_members out = ivs_members ivs"
  using rs.collect_all [OF RecordCreateSet_rep(1) [OF assms]] RecordCreateSet_rep(2) [OF assms]
  by (simp add: iv_before_def [abs_def])

end
