(* ===== verification/Resources.thy ===== *)
theory Resources
  imports XPrelude
begin

text \<open>
  The resource database (dix/resource.c, dix/resource_priv.h): resource identifiers and their
  client field, the hash table every client has, adding, freeing, changing and looking up
  resources, the allocation of fresh identifiers, and the registry of resource types and
  classes. Function pointers of the C code (delete functions, state callbacks, the security
  hook) are arguments, bundled in \<open>res_hooks\<close>; they may change the whole database.
\<close>

subsection \<open>Resource identifiers\<close>

type_synonym restype = "32 word"

definition SERVER_BIT :: xid where "SERVER_BIT = 0x40000000"
definition SERVER_MINID :: xid where "SERVER_MINID = 32"
definition RESOURCE_AND_CLIENT_COUNT :: nat where "RESOURCE_AND_CLIENT_COUNT = 29"

function ilog2_loop :: "nat \<Rightarrow> nat" where
  "ilog2_loop v = (if v \<noteq> 0 then Suc (ilog2_loop (v div 2)) else 0)"
  by pat_completeness auto
termination by (relation "measure (\<lambda>v. v)") auto

declare ilog2_loop.simps [simp del]

definition ilog2 :: "int \<Rightarrow> nat" where
  "ilog2 v = (if v \<le> 0 then 0 else ilog2_loop (nat v) - 1)"

definition ResourceClientBits :: "nat \<Rightarrow> nat" where
  "ResourceClientBits lim = ilog2 (int lim)"

definition CLIENTOFFSET :: "nat \<Rightarrow> nat" where
  "CLIENTOFFSET lim = RESOURCE_AND_CLIENT_COUNT - ResourceClientBits lim"

definition RESOURCE_CLIENT_MASK :: "nat \<Rightarrow> mask" where
  "RESOURCE_CLIENT_MASK lim = push_bit (CLIENTOFFSET lim) (push_bit (ResourceClientBits lim) 1 - 1)"

definition RESOURCE_ID_MASK :: "nat \<Rightarrow> mask" where
  "RESOURCE_ID_MASK lim = push_bit (CLIENTOFFSET lim) 1 - 1"

definition CLIENT_BITS :: "nat \<Rightarrow> xid \<Rightarrow> xid" where
  "CLIENT_BITS lim i = i AND RESOURCE_CLIENT_MASK lim"

definition dixClientIdForXID :: "nat \<Rightarrow> xid \<Rightarrow> nat" where
  "dixClientIdForXID lim i =
     unat (ucast (drop_bit (CLIENTOFFSET lim) (CLIENT_BITS lim i)) :: 16 word)"

definition HashResourceID :: "nat \<Rightarrow> xid \<Rightarrow> nat \<Rightarrow> 32 word" where
  "HashResourceID lim i numBits =
     (let d = i AND RESOURCE_ID_MASK lim in
      if numBits < 9
      then (d XOR drop_bit numBits d XOR drop_bit (2 * numBits) d) AND NOT (push_bit numBits (NOT 0))
      else (d XOR drop_bit numBits d) AND NOT (push_bit numBits (NOT 0)))"

subsection \<open>The database\<close>

definition INITBUCKETS :: nat where "INITBUCKETS = 64"
definition INITHASHSIZE :: nat where "INITHASHSIZE = 6"
definition MAXHASHSIZE :: nat where "MAXHASHSIZE = 16"

definition RC_NEVERRETAIN :: restype where "RC_NEVERRETAIN = push_bit 29 1"
definition RC_LASTPREDEF :: restype where "RC_LASTPREDEF = RC_NEVERRETAIN"
definition RC_ANY :: restype where "RC_ANY = NOT 0"
definition X11_RESTYPE_LASTPREDEF :: restype where "X11_RESTYPE_LASTPREDEF = 9"

record 'v ResourceRec =
  res_id :: xid
  res_type :: restype
  res_value :: 'v

record 'v ClientResourceRec =
  cr_resources :: "'v ResourceRec list list"
  cr_elements :: int
  cr_buckets :: nat
  cr_hashsize :: nat
  cr_fakeID :: xid
  cr_endFakeID :: xid

text \<open>\<open>'f\<close> names the functions a type can be registered with.\<close>

record 'f ResourceType =
  rt_deleteFunc :: 'f
  rt_sizeFunc :: 'f
  rt_findSubResFunc :: 'f
  rt_errorValue :: status

text \<open>\<open>world\<close> is the rest of the server, which only the callbacks see; \<open>exceptions\<close> lists the
  clients marked by \<open>dixMarkClientException\<close>.\<close>

record ('v, 'f, 'w) resdb =
  clientTable :: "nat \<Rightarrow> 'v ClientResourceRec"
  resourceTypes :: "'f ResourceType list"
  lastResourceType :: restype
  lastResourceClass :: restype
  TypeMask :: restype
  LimitClients :: nat
  exceptions :: "nat list"
  world :: 'w

datatype ResourceState = ResourceStateAdding | ResourceStateFreeing

record ('v, 'f, 'w) res_hooks =
  call_delete :: "'f \<Rightarrow> 'v \<Rightarrow> xid \<Rightarrow> ('v, 'f, 'w) resdb \<Rightarrow> ('v, 'f, 'w) resdb"
  state_callback :: "ResourceState \<Rightarrow> 'v ResourceRec \<Rightarrow> ('v, 'f, 'w) resdb \<Rightarrow> ('v, 'f, 'w) resdb"
  HandleSaveSet_hook :: "nat \<Rightarrow> ('v, 'f, 'w) resdb \<Rightarrow> ('v, 'f, 'w) resdb"

datatype res_alloc = AllocTypes | AllocBuckets | AllocTails | AllocResource

definition upd_client ::
    "nat \<Rightarrow> ('v ClientResourceRec \<Rightarrow> 'v ClientResourceRec) \<Rightarrow> ('v, 'f, 'w) resdb \<Rightarrow> ('v, 'f, 'w) resdb" where
  "upd_client c f s = s\<lparr>clientTable := (clientTable s)(c := f (clientTable s c))\<rparr>"

definition hash_of :: "('v, 'f, 'w) resdb \<Rightarrow> nat \<Rightarrow> xid \<Rightarrow> nat" where
  "hash_of s c i = unat (HashResourceID (LimitClients s) i (cr_hashsize (clientTable s c)))"

definition bucket :: "('v, 'f, 'w) resdb \<Rightarrow> nat \<Rightarrow> nat \<Rightarrow> 'v ResourceRec list" where
  "bucket s c j = cr_resources (clientTable s c) ! j"

definition client_of :: "('v, 'f, 'w) resdb \<Rightarrow> xid \<Rightarrow> nat" where
  "client_of s i = dixClientIdForXID (LimitClients s) i"

definition type_entry :: "('v, 'f, 'w) resdb \<Rightarrow> restype \<Rightarrow> 'f ResourceType" where
  "type_entry s t = resourceTypes s ! unat (t AND TypeMask s)"

subsection \<open>Types and classes\<close>

definition CreateNewResourceType ::
    "bool \<Rightarrow> 'f \<Rightarrow> 'f \<Rightarrow> 'f \<Rightarrow> ('v, 'f, 'w) resdb \<Rightarrow> restype \<times> ('v, 'f, 'w) resdb" where
  "CreateNewResourceType alloc GetDefaultBytes DefaultFindSubRes deleteFunc s =
     (let nxt = lastResourceType s + 1 in
      if nxt AND lastResourceClass s \<noteq> 0 then (0, s)
      else if \<not> alloc then (0, s)
      else (nxt, s\<lparr>lastResourceType := nxt,
              resourceTypes := take (unat nxt) (resourceTypes s) @
                [\<lparr>rt_deleteFunc = deleteFunc, rt_sizeFunc = GetDefaultBytes,
                  rt_findSubResFunc = DefaultFindSubRes, rt_errorValue = BadValue\<rparr>]\<rparr>))"

definition CreateNewResourceClass :: "('v, 'f, 'w) resdb \<Rightarrow> restype \<times> ('v, 'f, 'w) resdb" where
  "CreateNewResourceClass s =
     (let nxt = drop_bit 1 (lastResourceClass s) in
      if nxt AND lastResourceType s \<noteq> 0 then (0, s)
      else (nxt, s\<lparr>lastResourceClass := nxt, TypeMask := nxt - 1\<rparr>))"

definition GetResourceTypeSizeFunc :: "restype \<Rightarrow> ('v, 'f, 'w) resdb \<Rightarrow> 'f" where
  "GetResourceTypeSizeFunc t s = rt_sizeFunc (type_entry s t)"

definition upd_type ::
    "restype \<Rightarrow> ('f ResourceType \<Rightarrow> 'f ResourceType) \<Rightarrow> ('v, 'f, 'w) resdb \<Rightarrow> ('v, 'f, 'w) resdb" where
  "upd_type t f s = s\<lparr>resourceTypes := (resourceTypes s)[unat (t AND TypeMask s) := f (type_entry s t)]\<rparr>"

definition SetResourceTypeSizeFunc :: "restype \<Rightarrow> 'f \<Rightarrow> ('v, 'f, 'w) resdb \<Rightarrow> ('v, 'f, 'w) resdb" where
  "SetResourceTypeSizeFunc t f = upd_type t (\<lambda>e. e\<lparr>rt_sizeFunc := f\<rparr>)"

definition SetResourceTypeFindSubResFunc :: "restype \<Rightarrow> 'f \<Rightarrow> ('v, 'f, 'w) resdb \<Rightarrow> ('v, 'f, 'w) resdb" where
  "SetResourceTypeFindSubResFunc t f = upd_type t (\<lambda>e. e\<lparr>rt_findSubResFunc := f\<rparr>)"

definition SetResourceTypeErrorValue :: "restype \<Rightarrow> status \<Rightarrow> ('v, 'f, 'w) resdb \<Rightarrow> ('v, 'f, 'w) resdb" where
  "SetResourceTypeErrorValue t v = upd_type t (\<lambda>e. e\<lparr>rt_errorValue := v\<rparr>)"

subsection \<open>Clients\<close>

text \<open>\<open>serverClient\<close> has index 0 and \<open>clientAsMask\<close> is the index shifted into the client field
  (dix/dispatch.c).\<close>

definition clientAsMask :: "nat \<Rightarrow> nat \<Rightarrow> mask" where
  "clientAsMask lim c = push_bit (CLIENTOFFSET lim) (of_nat c)"

definition InitClientResources ::
    "(res_alloc \<Rightarrow> bool) \<Rightarrow> 'f ResourceType list \<Rightarrow> nat \<Rightarrow> ('v, 'f, 'w) resdb \<Rightarrow> bool \<times> ('v, 'f, 'w) resdb" where
  "InitClientResources alloc predefTypes c s0 =
     (let s = (if c = 0 then
                 s0\<lparr>lastResourceType := X11_RESTYPE_LASTPREDEF, lastResourceClass := RC_LASTPREDEF,
                    TypeMask := RC_LASTPREDEF - 1,
                    resourceTypes := (if alloc AllocTypes then predefTypes else [])\<rparr>
               else s0);
          fake = clientAsMask (LimitClients s) c OR (if c \<noteq> 0 then SERVER_BIT else SERVER_MINID)
      in if c = 0 \<and> \<not> alloc AllocTypes then (False, s)
         else if \<not> alloc AllocBuckets then (False, upd_client c (\<lambda>r. r\<lparr>cr_resources := []\<rparr>) s)
         else (True, upd_client c (\<lambda>r. \<lparr>cr_resources = replicate INITBUCKETS [], cr_elements = 0,
                 cr_buckets = INITBUCKETS, cr_hashsize = INITHASHSIZE, cr_fakeID = fake,
                 cr_endFakeID = (fake OR RESOURCE_ID_MASK (LimitClients s)) + 1\<rparr>) s))"

subsection \<open>Adding and freeing\<close>

definition CallResourceStateCallback ::
    "('v, 'f, 'w) res_hooks \<Rightarrow> ResourceState \<Rightarrow> 'v ResourceRec \<Rightarrow> ('v, 'f, 'w) resdb \<Rightarrow> ('v, 'f, 'w) resdb" where
  "CallResourceStateCallback h st r = state_callback h st r"

text \<open>Moving every resource, bucket after bucket, to the tail of its new bucket.\<close>

definition rehash :: "nat \<Rightarrow> nat \<Rightarrow> 'v ResourceRec list \<Rightarrow> 'v ResourceRec list list \<Rightarrow> 'v ResourceRec list list" where
  "rehash lim hs rs bs =
     fold (\<lambda>r bs. let k = unat (HashResourceID lim (res_id r) hs) in bs[k := bs ! k @ [r]]) rs bs"

definition RebuildTable ::
    "(res_alloc \<Rightarrow> bool) \<Rightarrow> nat \<Rightarrow> ('v, 'f, 'w) resdb \<Rightarrow> ('v, 'f, 'w) resdb" where
  "RebuildTable alloc c s =
     (if \<not> alloc AllocTails then s
      else if \<not> alloc AllocBuckets then s
      else upd_client c (\<lambda>r.
             let hs = cr_hashsize r + 1 in
             r\<lparr>cr_hashsize := hs,
               cr_resources := rehash (LimitClients s) hs (concat (take (cr_buckets r) (cr_resources r)))
                                 (replicate (2 * cr_buckets r) []),
               cr_buckets := 2 * cr_buckets r\<rparr>) s)"

text \<open>\<open>None\<close> is the \<open>FatalError\<close> for a client without a table.\<close>

definition AddResource ::
    "('v, 'f, 'w) res_hooks \<Rightarrow> (res_alloc \<Rightarrow> bool) \<Rightarrow> xid \<Rightarrow> restype \<Rightarrow> 'v \<Rightarrow> ('v, 'f, 'w) resdb
      \<Rightarrow> (bool \<times> ('v, 'f, 'w) resdb) option" where
  "AddResource h alloc i t v s0 =
     (let c = client_of s0 i; rrec = clientTable s0 c in
      if cr_buckets rrec = 0 then None
      else
        let s = (if cr_elements rrec \<ge> 4 * int (cr_buckets rrec) \<and> cr_hashsize rrec < MAXHASHSIZE
                 then RebuildTable alloc c s0 else s0);
            hd' = hash_of s c i
        in if \<not> alloc AllocResource
           then Some (False, call_delete h (rt_deleteFunc (type_entry s t)) v i s)
           else
             let res = \<lparr>res_id = i, res_type = t, res_value = v\<rparr>;
                 s' = upd_client c (\<lambda>r. r\<lparr>cr_resources := (cr_resources r)[hd' := res # cr_resources r ! hd'],
                                         cr_elements := cr_elements r + 1\<rparr>) s
             in Some (True, CallResourceStateCallback h ResourceStateAdding res s'))"

definition doFreeResource ::
    "('v, 'f, 'w) res_hooks \<Rightarrow> 'v ResourceRec \<Rightarrow> bool \<Rightarrow> ('v, 'f, 'w) resdb \<Rightarrow> ('v, 'f, 'w) resdb" where
  "doFreeResource h res skip s =
     (let s' = CallResourceStateCallback h ResourceStateFreeing res s in
      if \<not> skip then call_delete h (rt_deleteFunc (type_entry s' (res_type res))) (res_value res) (res_id res) s'
      else s')"

text \<open>Unlinking the \<open>k\<close>-th resource of bucket \<open>j\<close>.\<close>

definition unlink_res :: "nat \<Rightarrow> nat \<Rightarrow> nat \<Rightarrow> ('v, 'f, 'w) resdb \<Rightarrow> ('v, 'f, 'w) resdb" where
  "unlink_res c j k =
     upd_client c (\<lambda>r. r\<lparr>cr_resources := (cr_resources r)[j := take k (cr_resources r ! j) @ drop (Suc k) (cr_resources r ! j)],
                        cr_elements := cr_elements r - 1\<rparr>)"

text \<open>The loops keep \<open>prev\<close> as the number \<open>k\<close> of resources before it in the bucket. The callbacks
  may change the database, so a loop may run forever: \<open>None\<close>.\<close>

partial_function (option) free_loop ::
    "('v, 'f, 'w) res_hooks \<Rightarrow> xid \<Rightarrow> restype \<Rightarrow> nat \<Rightarrow> nat \<Rightarrow> nat \<Rightarrow> ('v, 'f, 'w) resdb \<Rightarrow> ('v, 'f, 'w) resdb option" where
  "free_loop h i skip c j k s =
     (if k < length (bucket s c j) then
        let res = bucket s c j ! k in
        if res_id res = i then
          let s1 = unlink_res c j k s;
              s2 = doFreeResource h res (res_type res = skip) s1
          in if cr_elements (clientTable s2 c) \<noteq> cr_elements (clientTable s1 c)
             then free_loop h i skip c j 0 s2
             else free_loop h i skip c j k s2
        else free_loop h i skip c j (Suc k) s
      else Some s)"

definition FreeResource ::
    "('v, 'f, 'w) res_hooks \<Rightarrow> xid \<Rightarrow> restype \<Rightarrow> ('v, 'f, 'w) resdb \<Rightarrow> ('v, 'f, 'w) resdb option" where
  "FreeResource h i skipDeleteFuncType s =
     (let cid = client_of s i in
      if cid < LimitClients s \<and> cr_buckets (clientTable s cid) \<noteq> 0
      then free_loop h i skipDeleteFuncType cid (hash_of s cid i) 0 s
      else Some s)"

definition first_index :: "('a \<Rightarrow> bool) \<Rightarrow> 'a list \<Rightarrow> nat option" where
  "first_index P xs = List.find (\<lambda>k. P (xs ! k)) [0 ..< length xs]"

definition FreeResourceByType ::
    "('v, 'f, 'w) res_hooks \<Rightarrow> xid \<Rightarrow> restype \<Rightarrow> bool \<Rightarrow> ('v, 'f, 'w) resdb \<Rightarrow> ('v, 'f, 'w) resdb" where
  "FreeResourceByType h i t skipFree s =
     (let cid = client_of s i in
      if cid < LimitClients s \<and> cr_buckets (clientTable s cid) \<noteq> 0 then
        let j = hash_of s cid i in
        case first_index (\<lambda>r. res_id r = i \<and> res_type r = t) (bucket s cid j) of
          None \<Rightarrow> s
        | Some k \<Rightarrow> doFreeResource h (bucket s cid j ! k) skipFree (unlink_res cid j k s)
      else s)"

definition ChangeResourceValue ::
    "xid \<Rightarrow> restype \<Rightarrow> 'v \<Rightarrow> ('v, 'f, 'w) resdb \<Rightarrow> bool \<times> ('v, 'f, 'w) resdb" where
  "ChangeResourceValue i rtype v s =
     (let cid = client_of s i in
      if cid < LimitClients s \<and> cr_buckets (clientTable s cid) \<noteq> 0 then
        let j = hash_of s cid i in
        case first_index (\<lambda>r. res_id r = i \<and> res_type r = rtype) (bucket s cid j) of
          None \<Rightarrow> (False, s)
        | Some k \<Rightarrow>
            (True, upd_client cid (\<lambda>r. r\<lparr>cr_resources :=
               (cr_resources r)[j := (cr_resources r ! j)[k := (cr_resources r ! j ! k)\<lparr>res_value := v\<rparr>]]\<rparr>) s)
      else (False, s))"

subsection \<open>Walking over a client's resources\<close>

text \<open>\<open>FindClientResourcesByType\<close> calls \<open>func\<close> for the resources of a type (all for type 0) and
  starts the bucket over when the element count changed.\<close>

partial_function (option) find_res_loop ::
    "('v ResourceRec \<Rightarrow> ('v, 'f, 'w) resdb \<Rightarrow> ('v, 'f, 'w) resdb) \<Rightarrow> restype \<Rightarrow> nat \<Rightarrow> nat \<Rightarrow> nat \<Rightarrow> ('v, 'f, 'w) resdb
      \<Rightarrow> ('v, 'f, 'w) resdb option" where
  "find_res_loop func t c j k s =
     (if j < cr_buckets (clientTable s c) then
        if k < length (bucket s c j) then
          let this = bucket s c j ! k in
          if t = 0 \<or> res_type this = t then
            let s' = func this s in
            if cr_elements (clientTable s' c) \<noteq> cr_elements (clientTable s c)
            then find_res_loop func t c j 0 s'
            else find_res_loop func t c j (Suc k) s'
          else find_res_loop func t c j (Suc k) s
        else find_res_loop func t c (Suc j) 0 s
      else Some s)"

definition FindClientResourcesByType ::
    "nat option \<Rightarrow> restype \<Rightarrow> ('v \<Rightarrow> xid \<Rightarrow> ('v, 'f, 'w) resdb \<Rightarrow> ('v, 'f, 'w) resdb) \<Rightarrow> ('v, 'f, 'w) resdb
      \<Rightarrow> ('v, 'f, 'w) resdb option" where
  "FindClientResourcesByType client t func s =
     find_res_loop (\<lambda>r. func (res_value r) (res_id r)) t (case client of None \<Rightarrow> 0 | Some c \<Rightarrow> c) 0 0 s"

definition FindAllClientResources ::
    "nat option \<Rightarrow> ('v \<Rightarrow> xid \<Rightarrow> restype \<Rightarrow> ('v, 'f, 'w) resdb \<Rightarrow> ('v, 'f, 'w) resdb) \<Rightarrow> ('v, 'f, 'w) resdb
      \<Rightarrow> ('v, 'f, 'w) resdb option" where
  "FindAllClientResources client func s =
     find_res_loop (\<lambda>r. func (res_value r) (res_id r) (res_type r)) 0 (case client of None \<Rightarrow> 0 | Some c \<Rightarrow> c) 0 0 s"

definition LookupClientResourceComplex ::
    "nat option \<Rightarrow> restype \<Rightarrow> ('v \<Rightarrow> xid \<Rightarrow> bool) \<Rightarrow> ('v, 'f, 'w) resdb \<Rightarrow> 'v option" where
  "LookupClientResourceComplex client t func s =
     (let r = clientTable s (case client of None \<Rightarrow> 0 | Some c \<Rightarrow> c) in
      map_option res_value
        (List.find (\<lambda>this. (t = 0 \<or> res_type this = t) \<and> func (res_value this) (res_id this))
           (concat (take (cr_buckets r) (cr_resources r)))))"

partial_function (option) never_retain_loop ::
    "('v, 'f, 'w) res_hooks \<Rightarrow> nat \<Rightarrow> nat \<Rightarrow> nat \<Rightarrow> ('v, 'f, 'w) resdb \<Rightarrow> ('v, 'f, 'w) resdb option" where
  "never_retain_loop h c j k s =
     (if j < cr_buckets (clientTable s c) then
        if k < length (bucket s c j) then
          let this = bucket s c j ! k in
          if res_type this AND RC_NEVERRETAIN \<noteq> 0 then
            let s1 = unlink_res c j k s; s2 = doFreeResource h this False s1 in
            if cr_elements (clientTable s2 c) \<noteq> cr_elements (clientTable s1 c)
            then never_retain_loop h c j 0 s2
            else never_retain_loop h c j k s2
          else never_retain_loop h c j (Suc k) s
        else never_retain_loop h c (Suc j) 0 s
      else Some s)"

definition FreeClientNeverRetainResources ::
    "('v, 'f, 'w) res_hooks \<Rightarrow> nat option \<Rightarrow> ('v, 'f, 'w) resdb \<Rightarrow> ('v, 'f, 'w) resdb option" where
  "FreeClientNeverRetainResources h client s =
     (case client of None \<Rightarrow> Some s | Some c \<Rightarrow> never_retain_loop h c 0 0 s)"

partial_function (option) free_client_loop ::
    "('v, 'f, 'w) res_hooks \<Rightarrow> nat \<Rightarrow> nat \<Rightarrow> ('v, 'f, 'w) resdb \<Rightarrow> ('v, 'f, 'w) resdb option" where
  "free_client_loop h c j s =
     (if j < cr_buckets (clientTable s c) then
        (case bucket s c j of
           [] \<Rightarrow> free_client_loop h c (Suc j) s
         | this # _ \<Rightarrow> free_client_loop h c j (doFreeResource h this False (unlink_res c j 0 s)))
      else Some s)"

definition FreeClientResources ::
    "('v, 'f, 'w) res_hooks \<Rightarrow> nat option \<Rightarrow> ('v, 'f, 'w) resdb \<Rightarrow> ('v, 'f, 'w) resdb option" where
  "FreeClientResources h client s =
     (case client of None \<Rightarrow> Some s
      | Some c \<Rightarrow>
          map_option (upd_client c (\<lambda>r. r\<lparr>cr_resources := [], cr_buckets := 0\<rparr>))
            (free_client_loop h c 0 (HandleSaveSet_hook h c s)))"

primrec FreeAllResources ::
    "('v, 'f, 'w) res_hooks \<Rightarrow> nat \<Rightarrow> ('v, 'f, 'w) resdb \<Rightarrow> ('v, 'f, 'w) resdb option" where
  "FreeAllResources h 0 s = Some s"
| "FreeAllResources h (Suc i) s =
     (if cr_buckets (clientTable s i) \<noteq> 0
      then Option.bind (FreeClientResources h (Some i) s) (FreeAllResources h i)
      else FreeAllResources h i s)"

subsection \<open>Lookup\<close>

text \<open>\<open>xace\<close> is the decision of the security hook; a lookup gives its status, the value, and the
  error value it stored in the client.\<close>

type_synonym 'v xace_hook = "nat \<Rightarrow> xid \<Rightarrow> restype \<Rightarrow> 'v \<Rightarrow> mask \<Rightarrow> status"

definition search_res :: "('v, 'f, 'w) resdb \<Rightarrow> xid \<Rightarrow> ('v ResourceRec \<Rightarrow> bool) \<Rightarrow> 'v ResourceRec option" where
  "search_res s i P =
     (let cid = client_of s i in
      if cid < LimitClients s \<and> cr_buckets (clientTable s cid) \<noteq> 0
      then List.find (\<lambda>r. res_id r = i \<and> P r) (bucket s cid (hash_of s cid i))
      else None)"

definition dixLookupResourceByType ::
    "'v xace_hook \<Rightarrow> xid \<Rightarrow> restype \<Rightarrow> nat option \<Rightarrow> mask \<Rightarrow> ('v, 'f, 'w) resdb \<Rightarrow> status \<times> 'v option \<times> xid option" where
  "dixLookupResourceByType xace i rtype client mode s =
     (if rtype AND TypeMask s > lastResourceType s then (BadImplementation, None, None)
      else
        let err = map_option (\<lambda>_. i) client in
        case search_res s i (\<lambda>r. res_type r = rtype) of
          None \<Rightarrow> (rt_errorValue (type_entry s rtype), None, err)
        | Some res \<Rightarrow>
            (case client of
               None \<Rightarrow> (Success, Some (res_value res), err)
             | Some c \<Rightarrow>
                 let rc = xace c i (res_type res) (res_value res) mode in
                 if rc = BadValue then (rt_errorValue (type_entry s rtype), None, err)
                 else if rc \<noteq> Success then (rc, None, err)
                 else (Success, Some (res_value res), err)))"

definition dixLookupResourceByClass ::
    "'v xace_hook \<Rightarrow> xid \<Rightarrow> restype \<Rightarrow> nat option \<Rightarrow> mask \<Rightarrow> ('v, 'f, 'w) resdb \<Rightarrow> status \<times> 'v option \<times> xid option" where
  "dixLookupResourceByClass xace i rclass client mode s =
     (let err = map_option (\<lambda>_. i) client in
      case search_res s i (\<lambda>r. res_type r AND rclass \<noteq> 0) of
        None \<Rightarrow> (BadValue, None, err)
      | Some res \<Rightarrow>
          (case client of
             None \<Rightarrow> (Success, Some (res_value res), err)
           | Some c \<Rightarrow>
               let rc = xace c i (res_type res) (res_value res) mode in
               if rc \<noteq> Success then (rc, None, err)
               else (Success, Some (res_value res), err)))"

subsection \<open>Fresh identifiers\<close>

definition id_in_table :: "('v, 'f, 'w) resdb \<Rightarrow> nat \<Rightarrow> xid \<Rightarrow> bool" where
  "id_in_table s c i \<longleftrightarrow> (\<exists>r \<in> set (bucket s c (hash_of s c i)). res_id r = i)"

text \<open>The search for an unused identifier; with \<open>maxid\<close> at the top of the word range the loop
  test always holds, so it need not end.\<close>

partial_function (option) avail_loop :: "(xid \<Rightarrow> bool) \<Rightarrow> xid \<Rightarrow> xid \<Rightarrow> xid option" where
  "avail_loop used i maxid =
     (if i \<le> maxid then if \<not> used i then Some i else avail_loop used (i + 1) maxid
      else Some 0)"

definition AvailableID :: "(xid \<Rightarrow> bool) \<Rightarrow> xid \<Rightarrow> xid \<Rightarrow> xid \<Rightarrow> xid option" where
  "AvailableID used i maxid goodid =
     (if goodid \<ge> i \<and> goodid \<le> maxid then Some goodid else avail_loop used i maxid)"

text \<open>One resource narrows the candidate range \<open>[i, maxid]\<close>; \<open>goodid\<close> is an unused identifier
  found on the way.\<close>

definition xid_range_step :: "(xid \<Rightarrow> bool) \<Rightarrow> xid \<Rightarrow> xid \<times> xid \<times> xid \<Rightarrow> (xid \<times> xid \<times> xid) option" where
  "xid_range_step used r st =
     (case st of (i, maxid, goodid) \<Rightarrow>
        if r < i \<or> r > maxid then Some (i, maxid, goodid)
        else if r - i \<ge> maxid - r then
          Option.bind (AvailableID used i (r - 1) goodid)
            (\<lambda>g. Some (if g \<noteq> 0 then (i, r - 1, g) else (r + 1, maxid, g)))
        else
          Option.bind (AvailableID used (r + 1) maxid goodid)
            (\<lambda>g. Some (if g = 0 then (i, r - 1, g) else (r + 1, maxid, g))))"

primrec xid_range_loop :: "(xid \<Rightarrow> bool) \<Rightarrow> xid list \<Rightarrow> xid \<times> xid \<times> xid \<Rightarrow> (xid \<times> xid \<times> xid) option" where
  "xid_range_loop used [] st = Some st"
| "xid_range_loop used (r # rs) st = Option.bind (xid_range_step used r st) (xid_range_loop used rs)"

definition range_start :: "nat \<Rightarrow> nat \<Rightarrow> bool \<Rightarrow> xid" where
  "range_start lim c server =
     clientAsMask lim c OR (if server then if c \<noteq> 0 then SERVER_BIT else SERVER_MINID else 0)"

definition GetXIDRange :: "nat \<Rightarrow> bool \<Rightarrow> ('v, 'f, 'w) resdb \<Rightarrow> (xid \<times> xid) option" where
  "GetXIDRange c server s =
     (let i = range_start (LimitClients s) c server;
          r = clientTable s c
      in map_option (\<lambda>(i, maxid, _). if i > maxid then (0, 0) else (i, maxid))
           (xid_range_loop (id_in_table s c) (map res_id (concat (take (cr_buckets r) (cr_resources r))))
              (i, i OR RESOURCE_ID_MASK (LimitClients s), 0)))"

text \<open>\<open>GetXIDList\<close>; the loop ends at \<open>maxid\<close>, which is below the top of the word range.\<close>

partial_function (option) xid_list_loop :: "(xid \<Rightarrow> bool) \<Rightarrow> nat \<Rightarrow> xid \<Rightarrow> xid \<Rightarrow> xid list \<Rightarrow> xid list option" where
  "xid_list_loop free count i maxid pids =
     (if length pids < count \<and> i \<le> maxid
      then xid_list_loop free count (i + 1) maxid (if free i then pids @ [i] else pids)
      else Some pids)"

definition GetXIDList :: "'v xace_hook \<Rightarrow> nat \<Rightarrow> nat \<Rightarrow> ('v, 'f, 'w) resdb \<Rightarrow> xid list option" where
  "GetXIDList xace c count s =
     (let i = clientAsMask (LimitClients s) c in
      xid_list_loop
        (\<lambda>i. fst (dixLookupResourceByClass xace i RC_ANY (Some 0) DixGetAttrAccess s) = BadValue)
        count i (i OR RESOURCE_ID_MASK (LimitClients s)) [])"

text \<open>\<open>None\<close> as outcome: the recursion does not end; \<open>FakeFatal\<close>: the server's own identifiers are
  exhausted (\<open>FatalError\<close>).\<close>

datatype 's fake_id = FakeFatal | Fake xid 's

partial_function (option) FakeClientID :: "nat \<Rightarrow> ('v, 'f, 'w) resdb \<Rightarrow> ('v, 'f, 'w) resdb fake_id option" where
  "FakeClientID c s0 =
     (let i = cr_fakeID (clientTable s0 c);
          s = upd_client c (\<lambda>r. r\<lparr>cr_fakeID := cr_fakeID r + 1\<rparr>) s0
      in if i = 0 then FakeClientID c s
         else if i \<noteq> cr_endFakeID (clientTable s c) then Some (Fake i s)
         else Option.bind (GetXIDRange c True s) (\<lambda>(rmin, rmax).
           if rmin = 0 \<and> c = 0 then Some FakeFatal
           else
             let s1 = (if rmin = 0 then s\<lparr>exceptions := exceptions s @ [c]\<rparr> else s);
                 i' = (if rmin = 0 then clientAsMask (LimitClients s) c OR (SERVER_BIT * 3) else rmin);
                 maxid = (if rmin = 0 then i' OR RESOURCE_ID_MASK (LimitClients s) else rmax);
                 s2 = upd_client c (\<lambda>r. r\<lparr>cr_fakeID := i' + 1, cr_endFakeID := maxid + 1\<rparr>) s1
             in if i' = 0 then FakeClientID c s2 else Some (Fake i' s2)))"

definition dixAllocServerXID :: "('v, 'f, 'w) resdb \<Rightarrow> ('v, 'f, 'w) resdb fake_id option" where
  "dixAllocServerXID s = FakeClientID 0 s"

definition LegalNewID :: "'v xace_hook \<Rightarrow> bool \<Rightarrow> xid \<Rightarrow> nat \<Rightarrow> ('v, 'f, 'w) resdb \<Rightarrow> bool" where
  "LegalNewID xace noPanoramiXExtension i c s =
     (let minid = clientAsMask (LimitClients s) c OR (if c \<noteq> 0 then SERVER_BIT else SERVER_MINID);
          maxid = (cr_fakeID (clientTable s c) OR RESOURCE_ID_MASK (LimitClients s)) + 1
      in if \<not> noPanoramiXExtension \<and> i \<ge> minid \<and> i \<le> maxid then True
         else if clientAsMask (LimitClients s) c = i AND NOT (RESOURCE_ID_MASK (LimitClients s))
         then fst (dixLookupResourceByClass xace i RC_ANY (Some 0) DixGetAttrAccess s) = BadValue
         else False)"

end
