(* ===== verification/ResourceTable.thy ===== *)
theory ResourceTable
  imports Resources "HOL-Library.Sublist"
begin

text \<open>
  The hash tables of the resource database as a store: the invariant of a client's table, the
  stack of resources an identifier has (newest first) as its abstraction, and that adding,
  rebuilding, freeing, changing and looking up act on these stacks.
\<close>

subsection \<open>Identifiers\<close>

text \<open>The client limits the server accepts (os/utils.c).\<close>

definition lim_ok :: "nat \<Rightarrow> bool" where
  "lim_ok lim \<longleftrightarrow> (\<exists>b. 6 \<le> b \<and> b \<le> 11 \<and> lim = 2 ^ b)"

lemma ilog2_loop_exp: "ilog2_loop (2 ^ b) = Suc b"
proof (induction b)
  case 0
  then show ?case by (simp add: ilog2_loop.simps)
next
  case (Suc b)
  then show ?case by (subst ilog2_loop.simps) simp
qed

lemma ResourceClientBits_exp: "ResourceClientBits (2 ^ b) = b"
  by (simp add: ResourceClientBits_def ilog2_def nat_power_eq ilog2_loop_exp)

lemma HashResourceID_less:
  assumes "n < 32"
  shows "unat (HashResourceID lim i n) < 2 ^ n"
proof -
  have "unat (w AND NOT (push_bit n (NOT 0))) < 2 ^ n" for w :: "32 word"
  proof -
    have "w AND NOT (push_bit n (NOT 0)) = take_bit n w"
      by (rule bit_word_eqI) (auto simp: bit_simps)
    then show ?thesis by (simp add: unsigned_take_bit_eq)
  qed
  then show ?thesis by (simp add: HashResourceID_def Let_def)
qed

lemma dixClientIdForXID_less:
  assumes "lim_ok lim"
  shows "dixClientIdForXID lim i < lim"
proof -
  obtain b where b: "6 \<le> b" "b \<le> 11" "lim = 2 ^ b" using assms by (auto simp: lim_ok_def)
  let ?w = "ucast (drop_bit (29 - b) (CLIENT_BITS lim i)) :: 16 word"
  have "?w = take_bit b ?w"
    using b by (intro bit_word_eqI)
      (auto simp: bit_simps CLIENT_BITS_def RESOURCE_CLIENT_MASK_def CLIENTOFFSET_def
        RESOURCE_AND_CLIENT_COUNT_def ResourceClientBits_exp simp flip: mask_eq_exp_minus_1)
  then have "unat ?w = take_bit b (unat ?w)" by (metis unsigned_take_bit_eq)
  then have "unat ?w < 2 ^ b" by (metis take_bit_nat_less_exp)
  then show ?thesis
    using b by (simp add: dixClientIdForXID_def CLIENTOFFSET_def RESOURCE_AND_CLIENT_COUNT_def ResourceClientBits_exp)
qed

subsection \<open>The invariant\<close>

definition cr_inv :: "nat \<Rightarrow> nat \<Rightarrow> 'v ClientResourceRec \<Rightarrow> bool" where
  "cr_inv lim c r \<longleftrightarrow>
     length (cr_resources r) = cr_buckets r \<and>
     (cr_buckets r = 0 \<or> cr_buckets r = 2 ^ cr_hashsize r \<and> cr_hashsize r \<le> 16) \<and>
     cr_elements r = int (length (concat (cr_resources r))) \<and>
     (\<forall>j < cr_buckets r. \<forall>x \<in> set (cr_resources r ! j). res_id x \<noteq> 0 \<and>
        unat (HashResourceID lim (res_id x) (cr_hashsize r)) = j \<and> dixClientIdForXID lim (res_id x) = c)"

definition res_inv :: "('v, 'f, 'w) resdb \<Rightarrow> bool" where
  "res_inv s \<longleftrightarrow> lim_ok (LimitClients s) \<and> (\<forall>c. cr_inv (LimitClients s) c (clientTable s c))"

text \<open>The resources of an identifier, newest first.\<close>

definition res_stack :: "('v, 'f, 'w) resdb \<Rightarrow> xid \<Rightarrow> 'v ResourceRec list" where
  "res_stack s i = filter (\<lambda>r. res_id r = i) (concat (cr_resources (clientTable s (client_of s i))))"

lemma filter_concat_at:
  assumes "j < length bs" "\<And>k. k < length bs \<Longrightarrow> k \<noteq> j \<Longrightarrow> filter P (bs ! k) = []"
  shows "filter P (concat bs) = filter P (bs ! j)"
proof -
  have "bs = take j bs @ bs ! j # drop (Suc j) bs" using assms(1) by (rule id_take_nth_drop)
  moreover have "filter P (concat (take j bs)) = []" "filter P (concat (drop (Suc j) bs)) = []"
    using assms by (auto simp: filter_concat concat_eq_Nil_conv in_set_conv_nth)
  ultimately show ?thesis by (metis append_Nil append_Nil2 concat.simps(2) concat_append filter_append)
qed

lemma hash_of_less:
  assumes "res_inv s" "cr_buckets (clientTable s c) \<noteq> 0"
  shows "hash_of s c i < length (cr_resources (clientTable s c))"
  using assms HashResourceID_less [of "cr_hashsize (clientTable s c)" "LimitClients s" i]
  by (auto simp: res_inv_def cr_inv_def hash_of_def dest!: spec [of _ c])

lemma res_stack_bucket:
  assumes "res_inv s" "cr_buckets (clientTable s (client_of s i)) \<noteq> 0"
  shows "res_stack s i = filter (\<lambda>r. res_id r = i) (bucket s (client_of s i) (hash_of s (client_of s i) i))"
  unfolding res_stack_def bucket_def
  by (rule filter_concat_at [OF hash_of_less [OF assms]])
     (use assms in \<open>auto simp: res_inv_def cr_inv_def hash_of_def filter_empty_conv\<close>)

lemma res_stack_no_table:
  "res_inv s \<Longrightarrow> cr_buckets (clientTable s (client_of s i)) = 0 \<Longrightarrow> res_stack s i = []"
  by (auto simp: res_stack_def res_inv_def cr_inv_def dest!: spec [of _ "client_of s i"])

lemma client_of_less: "res_inv s \<Longrightarrow> client_of s i < LimitClients s"
  by (simp add: client_of_def dixClientIdForXID_less res_inv_def)

text \<open>A lookup searches the stack.\<close>

lemma search_res_stack:
  assumes "res_inv s"
  shows "search_res s i P = List.find P (res_stack s i)"
proof -
  have f: "List.find (\<lambda>r. res_id r = i \<and> P r) xs = List.find P (filter (\<lambda>r. res_id r = i) xs)" for xs :: "'a ResourceRec list"
    by (induction xs) auto
  show ?thesis
    using assms client_of_less [OF assms] by (simp add: search_res_def res_stack_bucket f res_stack_no_table Let_def)
qed

subsection \<open>Replacing one bucket\<close>

definition set_bucket :: "nat \<Rightarrow> nat \<Rightarrow> 'v ResourceRec list \<Rightarrow> int \<Rightarrow> ('v, 'f, 'w) resdb \<Rightarrow> ('v, 'f, 'w) resdb" where
  "set_bucket c j b d =
     upd_client c (\<lambda>r. r\<lparr>cr_resources := (cr_resources r)[j := b], cr_elements := cr_elements r + d\<rparr>)"

text \<open>What may be in bucket \<open>j\<close> of client \<open>c\<close>.\<close>

definition bucket_ok :: "('v, 'f, 'w) resdb \<Rightarrow> nat \<Rightarrow> nat \<Rightarrow> 'v ResourceRec list \<Rightarrow> bool" where
  "bucket_ok s c j b \<longleftrightarrow>
     (\<forall>x \<in> set b. res_id x \<noteq> 0 \<and> hash_of s c (res_id x) = j \<and> client_of s (res_id x) = c)"

lemma set_bucket_simps [simp]:
  "LimitClients (set_bucket c j b d s) = LimitClients s"
  "client_of (set_bucket c j b d s) = client_of s"
  "hash_of (set_bucket c j b d s) = hash_of s"
  "cr_buckets (clientTable (set_bucket c j b d s) c') = cr_buckets (clientTable s c')"
  "cr_hashsize (clientTable (set_bucket c j b d s) c') = cr_hashsize (clientTable s c')"
  by (auto simp: set_bucket_def upd_client_def client_of_def hash_of_def fun_eq_iff)

lemma length_concat_update:
  "j < length bs \<Longrightarrow> int (length (concat (bs[j := b]))) =
     int (length (concat bs)) + (int (length b) - int (length (bs ! j)))"
proof (induction bs arbitrary: j)
  case (Cons x bs)
  then show ?case by (cases j) auto
qed simp

lemma bucket_ok_bucket:
  "res_inv s \<Longrightarrow> j < cr_buckets (clientTable s c) \<Longrightarrow> bucket_ok s c j (bucket s c j)"
  by (auto simp: res_inv_def cr_inv_def bucket_ok_def bucket_def hash_of_def client_of_def)

lemma bucket_ok_subset: "bucket_ok s c j b \<Longrightarrow> set b' \<subseteq> set b \<Longrightarrow> bucket_ok s c j b'"
  by (auto simp: bucket_ok_def)

lemma set_bucket_inv:
  assumes "res_inv s" "j < cr_buckets (clientTable s c)" "bucket_ok s c j b"
    and "d = int (length b) - int (length (bucket s c j))"
  shows "res_inv (set_bucket c j b d s)"
proof -
  have l: "length (cr_resources (clientTable s c)) = cr_buckets (clientTable s c)"
    using assms(1) by (simp add: res_inv_def cr_inv_def)
  have "cr_inv (LimitClients s) c (clientTable s c)" using assms(1) by (simp add: res_inv_def)
  then have "cr_inv (LimitClients s) c (clientTable (set_bucket c j b d s) c)"
    using assms(2-4) l
    by (auto simp: cr_inv_def set_bucket_def upd_client_def length_concat_update
        bucket_def bucket_ok_def hash_of_def client_of_def nth_list_update)
  moreover have "clientTable (set_bucket c j b d s) c' = clientTable s c'" if "c' \<noteq> c" for c'
    using that by (simp add: set_bucket_def upd_client_def)
  ultimately show ?thesis using assms(1) by (simp add: res_inv_def) metis
qed

lemma set_bucket_stack:
  assumes "res_inv s" "j < cr_buckets (clientTable s c)" "bucket_ok s c j b"
    and "d = int (length b) - int (length (bucket s c j))"
  shows "res_stack (set_bucket c j b d s) i =
    (if client_of s i = c \<and> hash_of s c i = j then filter (\<lambda>r. res_id r = i) b else res_stack s i)"
proof -
  have l: "length (cr_resources (clientTable s c)) = cr_buckets (clientTable s c)"
    using assms(1) by (simp add: res_inv_def cr_inv_def)
  have bk: "bucket (set_bucket c j b d s) c' k = (if c' = c \<and> k = j then b else bucket s c' k)"
    if "c' = c \<Longrightarrow> k < cr_buckets (clientTable s c)" for c' k
    using assms(2) l that by (auto simp: bucket_def set_bucket_def upd_client_def nth_list_update)
  show ?thesis
  proof (cases "cr_buckets (clientTable s (client_of s i)) = 0")
    case True
    then show ?thesis
      using assms(2) res_stack_no_table [OF set_bucket_inv [OF assms], of i] res_stack_no_table [OF assms(1), of i]
      by auto
  next
    case False
    then have "hash_of s c i < cr_buckets (clientTable s c)" if "client_of s i = c"
      using hash_of_less [OF assms(1), of c i] that l by auto
    then show ?thesis
      using False bk [of "client_of s i" "hash_of s (client_of s i) i"]
        res_stack_bucket [OF set_bucket_inv [OF assms], of i] res_stack_bucket [OF assms(1), of i]
      by auto
  qed
qed

lemma bucket_set_bucket:
  assumes "res_inv s" "j < cr_buckets (clientTable s c)"
  shows "bucket (set_bucket c j b d s) c j = b"
  using assms by (auto simp: bucket_def set_bucket_def upd_client_def res_inv_def cr_inv_def)

lemma unlink_res_eq:
  assumes "k < length (bucket s c j)"
  shows "unlink_res c j k s =
    set_bucket c j (take k (bucket s c j) @ drop (Suc k) (bucket s c j))
      (int (length (take k (bucket s c j) @ drop (Suc k) (bucket s c j))) - int (length (bucket s c j))) s"
  using assms by (auto simp: unlink_res_def set_bucket_def upd_client_def bucket_def intro!: resdb.equality ext)

lemma set_take_drop_subset: "set (take k xs @ drop (Suc k) xs) \<subseteq> set xs"
  by (auto dest: in_set_takeD in_set_dropD)

subsection \<open>Growing a table\<close>

lemma rehash_nth:
  assumes "\<And>i. unat (HashResourceID lim i hs) < length bs" "k < length bs"
  shows "length (rehash lim hs rs bs) = length bs"
    and "rehash lim hs rs bs ! k = bs ! k @ filter (\<lambda>r. unat (HashResourceID lim (res_id r) hs) = k) rs"
    and "length (concat (rehash lim hs rs bs)) = length (concat bs) + length rs"
proof -
  show "length (rehash lim hs rs bs) = length bs"
    unfolding rehash_def by (induction rs arbitrary: bs) (simp_all add: Let_def)
  show "rehash lim hs rs bs ! k = bs ! k @ filter (\<lambda>r. unat (HashResourceID lim (res_id r) hs) = k) rs"
    using assms unfolding rehash_def
    by (induction rs arbitrary: bs) (simp_all add: Let_def nth_list_update)
  have "int (length (concat (rehash lim hs rs bs))) = int (length (concat bs)) + int (length rs)"
    using assms(1) unfolding rehash_def
    by (induction rs arbitrary: bs) (simp_all add: Let_def length_concat_update)
  then show "length (concat (rehash lim hs rs bs)) = length (concat bs) + length rs" by linarith
qed

text \<open>Growing keeps the invariant and the order of the resources of every identifier.\<close>

lemma RebuildTable_spec:
  fixes s :: "('v, 'f, 'w) resdb"
  assumes inv: "res_inv s" and hs: "cr_hashsize (clientTable s c) < MAXHASHSIZE"
    and ne: "cr_buckets (clientTable s c) \<noteq> 0"
  shows "res_inv (RebuildTable alloc c s)" "res_stack (RebuildTable alloc c s) = res_stack s"
    "client_of (RebuildTable alloc c s) = client_of s"
    "cr_buckets (clientTable (RebuildTable alloc c s) c) \<noteq> 0"
    "LimitClients (RebuildTable alloc c s) = LimitClients s"
proof -
  let ?t = "RebuildTable alloc c s" and ?r = "clientTable s c" and ?lim = "LimitClients s"
  let ?all = "concat (cr_resources ?r)"
  show co: "client_of ?t = client_of s" and "LimitClients ?t = LimitClients s"
    by (simp_all add: RebuildTable_def upd_client_def client_of_def fun_eq_iff)
  show "cr_buckets (clientTable ?t c) \<noteq> 0" using ne by (simp add: RebuildTable_def upd_client_def Let_def)
  have r: "cr_inv ?lim c ?r" and lim: "lim_ok ?lim" using inv by (simp_all add: res_inv_def)
  then have b: "length (cr_resources ?r) = cr_buckets ?r" "cr_buckets ?r = 2 ^ cr_hashsize ?r"
    "cr_elements ?r = int (length ?all)" "cr_hashsize ?r \<le> 15"
    using ne hs by (auto simp: cr_inv_def MAXHASHSIZE_def)
  let ?new = "replicate (2 * cr_buckets ?r) [] :: 'v ResourceRec list list"
  have hb: "unat (HashResourceID ?lim i (Suc (cr_hashsize ?r))) < length ?new" for i
    using HashResourceID_less [of "Suc (cr_hashsize ?r)" ?lim i] b by simp
  note re = rehash_nth [OF hb]
  have all_ok: "res_id x \<noteq> 0 \<and> dixClientIdForXID ?lim (res_id x) = c" if x: "x \<in> set ?all" for x
  proof -
    obtain j where "j < length (cr_resources ?r)" "x \<in> set (cr_resources ?r ! j)"
      using x by (metis in_set_conv_nth set_concat UN_E)
    then show ?thesis using r by (auto simp: cr_inv_def)
  qed
  have pos: "0 < length ?new" using ne by simp
  have nth: "rehash ?lim (Suc (cr_hashsize ?r)) ?all (replicate (2 * 2 ^ cr_hashsize ?r) []) ! k =
      filter (\<lambda>x. unat (HashResourceID ?lim (res_id x) (Suc (cr_hashsize ?r))) = k) ?all"
    if "k < 2 * 2 ^ cr_hashsize ?r" for k
    using re(2) [of k ?all] that b(2) by simp
  have new: "cr_inv ?lim c (clientTable ?t c)" if "alloc AllocTails" "alloc AllocBuckets"
    using that b re(1,3) [OF pos] all_ok nth
    by (auto simp: cr_inv_def RebuildTable_def upd_client_def Let_def)
  show inv': "res_inv ?t"
  proof (cases "alloc AllocTails \<and> alloc AllocBuckets")
    case True
    then show ?thesis using inv new by (auto simp: res_inv_def RebuildTable_def upd_client_def Let_def)
  qed (use inv in \<open>auto simp: RebuildTable_def\<close>)
  show "res_stack ?t = res_stack s"
  proof (cases "alloc AllocTails \<and> alloc AllocBuckets")
    case True
    have "res_stack ?t i = res_stack s i" for i
    proof (cases "client_of s i = c")
      case c: True
      let ?h = "unat (HashResourceID ?lim i (Suc (cr_hashsize ?r)))"
      have h: "?h < 2 * cr_buckets ?r" using HashResourceID_less [of "Suc (cr_hashsize ?r)" ?lim i] b by simp
      have "hash_of ?t c i = ?h" "bucket ?t c ?h = filter (\<lambda>r. unat (HashResourceID ?lim (res_id r) (Suc (cr_hashsize ?r))) = ?h) ?all"
        using True h b re(2) by (simp_all add: hash_of_def bucket_def RebuildTable_def upd_client_def Let_def)
      moreover have "res_stack ?t i = filter (\<lambda>r. res_id r = i) (bucket ?t c (hash_of ?t c i))"
        using res_stack_bucket [OF inv', of i] c co ne by (simp add: RebuildTable_def upd_client_def Let_def)
      moreover have "filter (\<lambda>r. res_id r = i) (filter (\<lambda>r. unat (HashResourceID ?lim (res_id r) (Suc (cr_hashsize ?r))) = ?h) ?all)
          = filter (\<lambda>r. res_id r = i) ?all" by (auto intro: filter_cong)
      ultimately show ?thesis using c by (simp add: res_stack_def)
    next
      case False
      then show ?thesis using co by (simp add: res_stack_def RebuildTable_def upd_client_def)
    qed
    then show ?thesis by (rule ext)
  qed (auto simp: RebuildTable_def)
qed

subsection \<open>Adding\<close>

lemma set_bucket_fields [simp]:
  "resourceTypes (set_bucket c j b d s) = resourceTypes s"
  "TypeMask (set_bucket c j b d s) = TypeMask s"
  "lastResourceType (set_bucket c j b d s) = lastResourceType s"
  by (simp_all add: set_bucket_def upd_client_def)

definition same_types :: "('v, 'f, 'w) resdb \<Rightarrow> ('v, 'f, 'w) resdb \<Rightarrow> bool" where
  "same_types s s' \<longleftrightarrow> TypeMask s' = TypeMask s \<and> lastResourceType s' = lastResourceType s \<and>
     resourceTypes s' = resourceTypes s"

lemma AddResource_spec:
  fixes s :: "('v, 'f, 'w) resdb"
  assumes inv: "res_inv s" and i: "i \<noteq> 0" and ne: "cr_buckets (clientTable s (client_of s i)) \<noteq> 0"
    and alloc: "alloc AllocResource"
  shows "\<exists>s1. AddResource h alloc i t v s =
      Some (True, CallResourceStateCallback h ResourceStateAdding \<lparr>res_id = i, res_type = t, res_value = v\<rparr> s1) \<and>
    res_inv s1 \<and> res_stack s1 = (res_stack s)(i := \<lparr>res_id = i, res_type = t, res_value = v\<rparr> # res_stack s i) \<and>
    same_types s s1"
proof -
  let ?c = "client_of s i" and ?r = "\<lparr>res_id = i, res_type = t, res_value = v\<rparr>"
  define u where "u = (if cr_elements (clientTable s ?c) \<ge> 4 * int (cr_buckets (clientTable s ?c)) \<and>
      cr_hashsize (clientTable s ?c) < MAXHASHSIZE then RebuildTable alloc ?c s else s)"
  have u: "res_inv u" "res_stack u = res_stack s" "client_of u = client_of s" "cr_buckets (clientTable u ?c) \<noteq> 0"
    using RebuildTable_spec [OF inv _ ne] inv ne by (auto simp: u_def)
  let ?j = "hash_of u ?c i" and ?b = "?r # bucket u ?c (hash_of u ?c i)"
  have j: "?j < cr_buckets (clientTable u ?c)"
    using hash_of_less [OF u(1,4), of i] u(1) by (simp add: res_inv_def cr_inv_def)
  have ok: "bucket_ok u ?c ?j ?b"
    using bucket_ok_bucket [OF u(1) j] i u(3) by (simp add: bucket_ok_def)
  let ?d = "int (length ?b) - int (length (bucket u ?c ?j))"
  let ?s1 = "set_bucket ?c ?j ?b ?d u"
  have "AddResource h alloc i t v s = Some (True, CallResourceStateCallback h ResourceStateAdding ?r ?s1)"
    using ne alloc by (simp add: AddResource_def Let_def u_def set_bucket_def upd_client_def bucket_def)
  moreover have "res_inv ?s1" by (rule set_bucket_inv [OF u(1) j ok refl])
  moreover have "res_stack ?s1 = (res_stack s)(i := ?r # res_stack s i)"
  proof
    fix i'
    have st: "res_stack s i' = filter (\<lambda>r. res_id r = i') (bucket u ?c ?j)" if "client_of s i' = ?c" "hash_of u ?c i' = ?j"
      using res_stack_bucket [OF u(1), of i'] u that by simp
    show "res_stack ?s1 i' = ((res_stack s)(i := ?r # res_stack s i)) i'"
      using set_bucket_stack [OF u(1) j ok refl, of i'] st u(2,3) by auto
  qed
  moreover have "same_types s ?s1"
    by (simp add: same_types_def u_def RebuildTable_def upd_client_def)
  ultimately show ?thesis by blast
qed

subsection \<open>Freeing\<close>

text \<open>A database shrank when every bucket lost resources and kept the order of the rest.\<close>

definition shrunk :: "('v, 'f, 'w) resdb \<Rightarrow> ('v, 'f, 'w) resdb \<Rightarrow> bool" where
  "shrunk s s' \<longleftrightarrow> LimitClients s' = LimitClients s \<and>
     (\<forall>c. cr_buckets (clientTable s' c) = cr_buckets (clientTable s c) \<and>
          cr_hashsize (clientTable s' c) = cr_hashsize (clientTable s c) \<and>
          (\<forall>j < cr_buckets (clientTable s c). subseq (bucket s' c j) (bucket s c j)))"

text \<open>The delete functions and callbacks of resources: they may free further resources
  (a window its subwindows, a colormap its entries) but add none.\<close>

definition hooks_shrink :: "('v, 'f, 'w) res_hooks \<Rightarrow> bool" where
  "hooks_shrink h \<longleftrightarrow>
     (\<forall>f v i s. res_inv s \<longrightarrow> res_inv (call_delete h f v i s) \<and> shrunk s (call_delete h f v i s)) \<and>
     (\<forall>st r s. res_inv s \<longrightarrow> res_inv (state_callback h st r s) \<and> shrunk s (state_callback h st r s))"


text \<open>The identifiers whose resources the delete functions and callbacks leave alone.\<close>

definition spares :: "('v, 'f, 'w) res_hooks \<Rightarrow> xid set \<Rightarrow> bool" where
  "spares h A \<longleftrightarrow>
     (\<forall>f v i s. res_inv s \<longrightarrow> (\<forall>a \<in> A. res_stack (call_delete h f v i s) a = res_stack s a)) \<and>
     (\<forall>st r s. res_inv s \<longrightarrow> (\<forall>a \<in> A. res_stack (state_callback h st r s) a = res_stack s a))"

lemma shrunk_refl: "shrunk s s"
  by (simp add: shrunk_def)

lemma shrunk_trans: "shrunk s t \<Longrightarrow> shrunk t u \<Longrightarrow> shrunk s u"
  unfolding shrunk_def by (metis subseq_order.order_trans)


lemma shrunk_same: "shrunk s s' \<Longrightarrow> client_of s' = client_of s \<and> hash_of s' = hash_of s"
  by (auto simp: shrunk_def client_of_def hash_of_def fun_eq_iff)

lemma world_simps [simp]:
  "res_inv (s\<lparr>world := w\<rparr>) = res_inv s" "res_stack (s\<lparr>world := w\<rparr>) = res_stack s"
  "bucket (s\<lparr>world := w\<rparr>) = bucket s" "client_of (s\<lparr>world := w\<rparr>) = client_of s"
  by (auto simp: res_inv_def res_stack_def bucket_def client_of_def fun_eq_iff)

lemma shrunk_world: "shrunk s (s\<lparr>world := w\<rparr>)"
  by (simp add: shrunk_def)

lemma doFreeResource_shrink:
  assumes "hooks_shrink h" "res_inv s"
  shows "res_inv (doFreeResource h r skip s)" "shrunk s (doFreeResource h r skip s)"
  using assms unfolding doFreeResource_def hooks_shrink_def CallResourceStateCallback_def Let_def
  by (auto, metis shrunk_trans)

lemma doFreeResource_spares:
  assumes "hooks_shrink h" "spares h A" "res_inv s" "a \<in> A"
  shows "res_stack (doFreeResource h r skip s) a = res_stack s a"
  using assms unfolding doFreeResource_def hooks_shrink_def spares_def CallResourceStateCallback_def Let_def by auto

lemma subseq_take_drop: "subseq (take k xs @ drop (Suc k) xs) xs"
proof (cases "k < length xs")
  case True
  have "subseq (take k xs @ drop (Suc k) xs) (take k xs @ xs ! k # drop (Suc k) xs)"
    by (intro list_emb_append_mono list_emb_Cons subseq_order.order_refl)
  then show ?thesis using id_take_nth_drop [OF True] by simp
qed simp

lemma unlink_res_spec:
  assumes "res_inv s" "j < cr_buckets (clientTable s c)" "k < length (bucket s c j)"
  shows "res_inv (unlink_res c j k s)" "shrunk s (unlink_res c j k s)"
    "bucket (unlink_res c j k s) c j = take k (bucket s c j) @ drop (Suc k) (bucket s c j)"
    "cr_elements (clientTable (unlink_res c j k s) c) = cr_elements (clientTable s c) - 1"
    "i \<noteq> res_id (bucket s c j ! k) \<Longrightarrow> res_stack (unlink_res c j k s) i = res_stack s i"
proof -
  let ?b = "take k (bucket s c j) @ drop (Suc k) (bucket s c j)"
  have ok: "bucket_ok s c j ?b"
    using bucket_ok_bucket [OF assms(1,2)] set_take_drop_subset by (rule bucket_ok_subset)
  note eq = unlink_res_eq [OF assms(3)]
  show "res_inv (unlink_res c j k s)" unfolding eq by (rule set_bucket_inv [OF assms(1,2) ok refl])
  show b: "bucket (unlink_res c j k s) c j = ?b" unfolding eq by (rule bucket_set_bucket [OF assms(1,2)])
  show "shrunk s (unlink_res c j k s)"
    using assms(1,2) subseq_take_drop [of k "bucket s c j"] b
    by (auto simp: shrunk_def eq bucket_def set_bucket_def upd_client_def res_inv_def cr_inv_def nth_list_update)
  show "cr_elements (clientTable (unlink_res c j k s) c) = cr_elements (clientTable s c) - 1"
    by (simp add: unlink_res_def upd_client_def)
  assume i: "i \<noteq> res_id (bucket s c j ! k)"
  have "filter (\<lambda>r. res_id r = i) ?b = filter (\<lambda>r. res_id r = i) (take k (bucket s c j) @ bucket s c j ! k # drop (Suc k) (bucket s c j))"
    using i by simp
  then have "filter (\<lambda>r. res_id r = i) ?b = filter (\<lambda>r. res_id r = i) (bucket s c j)"
    using id_take_nth_drop [OF assms(3)] by metis
  then show "res_stack (unlink_res c j k s) i = res_stack s i"
    unfolding eq using set_bucket_stack [OF assms(1,2) ok refl, of i] res_stack_bucket [OF assms(1), of i] assms(2)
    by auto
qed

lemma shrunk_elements:
  assumes "res_inv s" "res_inv s'" "shrunk s s'"
  shows "cr_elements (clientTable s' c) \<le> cr_elements (clientTable s c)"
    and "cr_elements (clientTable s' c) = cr_elements (clientTable s c) \<Longrightarrow> j < cr_buckets (clientTable s c) \<Longrightarrow>
      bucket s' c j = bucket s c j"
proof -
  let ?bs = "cr_resources (clientTable s c)" and ?bs' = "cr_resources (clientTable s' c)"
  have l: "length ?bs' = length ?bs" "length ?bs = cr_buckets (clientTable s c)"
    "cr_elements (clientTable s c) = int (length (concat ?bs))"
    "cr_elements (clientTable s' c) = int (length (concat ?bs'))"
    using assms by (auto simp: res_inv_def cr_inv_def shrunk_def)
  have sub: "list_all2 subseq ?bs' ?bs"
    using assms(3) l by (auto simp: list_all2_conv_all_nth shrunk_def bucket_def)
  have "length (concat xs) \<le> length (concat ys) \<and> (length (concat xs) = length (concat ys) \<longrightarrow> xs = ys)"
    if "list_all2 subseq xs ys" for xs ys :: "'a ResourceRec list list"
    using that
  proof (induction rule: list_all2_induct)
    case (Cons x xs y ys)
    then have "length x \<le> length y" "length x = length y \<Longrightarrow> x = y"
      using list_emb_length subseq_same_length by auto
    with Cons show ?case by auto
  qed simp
  note main = this [OF sub]
  show "cr_elements (clientTable s' c) \<le> cr_elements (clientTable s c)" using main l by simp
  show "bucket s' c j = bucket s c j"
    if "cr_elements (clientTable s' c) = cr_elements (clientTable s c)" "j < cr_buckets (clientTable s c)"
    using main l that by (simp add: bucket_def)
qed

text \<open>The freeing loop ends, with no resource of the identifier left in the bucket.\<close>

lemma free_loop_spec:
  fixes s :: "('v, 'f, 'w) resdb"
  assumes "hooks_shrink h" "res_inv s" "j < cr_buckets (clientTable s c)"
    and "\<forall>r \<in> set (take k (bucket s c j)). res_id r \<noteq> i"
  shows "\<exists>s'. free_loop h i skip c j k s = Some s' \<and> res_inv s' \<and> shrunk s s' \<and>
    (\<forall>r \<in> set (bucket s' c j). res_id r \<noteq> i) \<and>
    (spares h A \<longrightarrow> (\<forall>i' \<in> A. i' \<noteq> i \<longrightarrow> res_stack s' i' = res_stack s i'))"
  using assms(2-4)
proof (induction "(nat (cr_elements (clientTable s c)), length (bucket s c j) - k)" arbitrary: s k
    rule: wf_induct_rule [OF wf_lex_prod [OF wf_less_than wf_less_than]])
  case 1
  note IH = "1.hyps" and inv = "1.prems"(1) and j = "1.prems"(2) and before = "1.prems"(3)
  let ?P = "\<lambda>s0 s'. res_inv s' \<and> shrunk s0 s' \<and> (\<forall>r \<in> set (bucket s' c j). res_id r \<noteq> i) \<and>
    (spares h A \<longrightarrow> (\<forall>i' \<in> A. i' \<noteq> i \<longrightarrow> res_stack s' i' = res_stack s0 i'))"
  consider (at_end) "\<not> k < length (bucket s c j)"
    | (skip) "k < length (bucket s c j)" "res_id (bucket s c j ! k) \<noteq> i"
    | (del) "k < length (bucket s c j)" "res_id (bucket s c j ! k) = i" by blast
  then show ?case
  proof cases
    case at_end
    then show ?thesis
      using inv before shrunk_refl [of s] by (subst free_loop.simps) auto
  next
    case skip
    have "\<forall>r \<in> set (take (Suc k) (bucket s c j)). res_id r \<noteq> i"
      using before skip by (auto simp: take_Suc_conv_app_nth)
    moreover have "length (bucket s c j) - Suc k < length (bucket s c j) - k" using skip by simp
    ultimately obtain s' where "free_loop h i skip c j (Suc k) s = Some s'" "?P s s'"
      using IH [of s "Suc k"] inv j by (simp, blast)
    then show ?thesis using skip by (subst free_loop.simps) (simp add: Let_def)
  next
    case del
    let ?r = "bucket s c j ! k" and ?s1 = "unlink_res c j k s"
    let ?s2 = "doFreeResource h ?r (res_type ?r = skip) ?s1"
    note u = unlink_res_spec [OF inv j del(1)]
    note d = doFreeResource_shrink [OF assms(1) u(1), of ?r "res_type ?r = skip"]
    have sh: "shrunk s ?s2" by (rule shrunk_trans [OF u(2) d(2)])
    then have j2: "j < cr_buckets (clientTable ?s2 c)" using j by (simp add: shrunk_def)
    have "0 < cr_elements (clientTable s c)"
    proof -
      have "bucket s c j \<in> set (cr_resources (clientTable s c))" "bucket s c j \<noteq> []"
        using inv j del(1) by (auto simp: bucket_def res_inv_def cr_inv_def)
      then show ?thesis using inv by (auto simp: res_inv_def cr_inv_def)
    qed
    then have less: "nat (cr_elements (clientTable ?s2 c)) < nat (cr_elements (clientTable s c))"
      using shrunk_elements(1) [OF u(1) d, of c] u(4) by linarith
    have quiet: "res_stack ?s2 i' = res_stack s i'" if "spares h A" "i' \<in> A" "i' \<noteq> i" for i'
      using doFreeResource_spares [OF assms(1) that(1) u(1) that(2), of ?r "res_type ?r = skip"] u(5) [of i'] del(2) that(3) by auto
    have fin: "\<exists>s'. free_loop h i skip c j k s = Some s' \<and> ?P s s'"
      if eq: "free_loop h i skip c j k s = free_loop h i skip c j k' ?s2"
        and pre: "\<forall>r \<in> set (take k' (bucket ?s2 c j)). res_id r \<noteq> i" for k'
    proof -
      obtain s' where "free_loop h i skip c j k' ?s2 = Some s'" "?P ?s2 s'"
        using IH [of ?s2 k'] less d(1) j2 pre by auto
      then show ?thesis using eq quiet shrunk_trans [OF sh] by auto
    qed
    show ?thesis
    proof (cases "cr_elements (clientTable ?s2 c) = cr_elements (clientTable ?s1 c)")
      case True
      then have "bucket ?s2 c j = bucket ?s1 c j"
        using shrunk_elements(2) [OF u(1) d True] u(2) j by (simp add: shrunk_def)
      then have "take k (bucket ?s2 c j) = take k (bucket s c j)" using u(3) del(1) by simp
      then show ?thesis
        using before True del by (intro fin [of k]) (subst free_loop.simps, simp_all add: Let_def)
    next
      case False
      then show ?thesis
        using del by (intro fin [of 0]) (subst free_loop.simps, simp_all add: Let_def)
    qed
  qed
qed

lemma FreeResource_spec:
  assumes "hooks_shrink h" "res_inv s"
  shows "\<exists>s'. FreeResource h i skip s = Some s' \<and> res_inv s' \<and> shrunk s s' \<and> res_stack s' i = [] \<and>
    (spares h A \<longrightarrow> (\<forall>i' \<in> A. i' \<noteq> i \<longrightarrow> res_stack s' i' = res_stack s i'))"
proof (cases "cr_buckets (clientTable s (client_of s i)) = 0")
  case True
  then show ?thesis
    using assms res_stack_no_table [OF assms(2) True] shrunk_refl [of s] by (auto simp: FreeResource_def Let_def)
next
  case False
  let ?c = "client_of s i"
  have "hash_of s ?c i < cr_buckets (clientTable s ?c)"
    using hash_of_less [OF assms(2) False, of i] assms(2) by (simp add: res_inv_def cr_inv_def)
  from free_loop_spec [OF assms this, of 0 i skip] obtain s' where s': "free_loop h i skip ?c (hash_of s ?c i) 0 s = Some s'" "res_inv s'" "shrunk s s'"
    "\<forall>r \<in> set (bucket s' ?c (hash_of s ?c i)). res_id r \<noteq> i"
    "spares h A \<longrightarrow> (\<forall>i' \<in> A. i' \<noteq> i \<longrightarrow> res_stack s' i' = res_stack s i')"
    by (metis take_0 empty_iff list.set(1))
  have st: "res_stack s' i = []"
    using res_stack_bucket [OF s'(2), of i] shrunk_same [OF s'(3)] s'(3,4) False
    by (simp add: shrunk_def filter_empty_conv)
  then show ?thesis
    using s' st False client_of_less [OF assms(2), of i] by (auto simp: FreeResource_def Let_def)
qed

lemma shrunk_stack:
  assumes "res_inv s" "res_inv s'" "shrunk s s'"
  shows "subseq (res_stack s' i) (res_stack s i)"
proof (cases "cr_buckets (clientTable s (client_of s i)) = 0")
  case True
  then have "cr_buckets (clientTable s' (client_of s' i)) = 0"
    using assms(3) shrunk_same [OF assms(3)] by (simp add: shrunk_def)
  then show ?thesis using res_stack_no_table [OF assms(2)] by simp
next
  case False
  let ?c = "client_of s i"
  have "hash_of s ?c i < cr_buckets (clientTable s ?c)"
    using hash_of_less [OF assms(1) False, of i] assms(1) by (simp add: res_inv_def cr_inv_def)
  then have "subseq (bucket s' ?c (hash_of s ?c i)) (bucket s ?c (hash_of s ?c i))"
    using assms(3) by (simp add: shrunk_def)
  then show ?thesis
    using res_stack_bucket [OF assms(1) False] res_stack_bucket [OF assms(2), of i] False
      shrunk_same [OF assms(3)] assms(3) by (simp add: shrunk_def subseq_filter)
qed

subsection \<open>A client's resources go away\<close>



subsection \<open>Changing and freeing one resource\<close>

lemma first_index_None: "first_index P xs = None \<longleftrightarrow> (\<forall>x \<in> set xs. \<not> P x)"
  by (fastforce simp: first_index_def find_None_iff in_set_conv_nth)

lemma first_index_Some:
  assumes "first_index P xs = Some k"
  shows "k < length xs" "P (xs ! k)" "\<forall>x \<in> set (take k xs). \<not> P x"
proof -
  obtain m where m: "m < length [0 ..< length xs]" "P (xs ! ([0 ..< length xs] ! m))" "k = [0 ..< length xs] ! m"
    "\<forall>j < m. \<not> P (xs ! ([0 ..< length xs] ! j))"
    using assms unfolding first_index_def find_Some_iff by blast
  then show "k < length xs" "P (xs ! k)" "\<forall>x \<in> set (take k xs). \<not> P x"
    by (auto simp: in_set_conv_nth)
qed

lemma find_append_none: "\<forall>x \<in> set xs. \<not> P x \<Longrightarrow> List.find P (xs @ ys) = List.find P ys"
  by (induction xs) auto

lemma find_update:
  assumes "first_index P xs = Some k" "P y"
  shows "List.find P (xs[k := y]) = Some y"
  using first_index_Some [OF assms(1)] assms(2)
  by (simp add: upd_conv_take_nth_drop find_append_none)

lemma find_update_other: "\<not> P (xs ! k) \<Longrightarrow> \<not> P y \<Longrightarrow> List.find P (xs[k := y]) = List.find P xs"
proof (induction xs arbitrary: k)
  case (Cons x xs)
  then show ?case by (cases k) auto
qed simp

lemma search_res_set_bucket:
  assumes "res_inv s" "j < cr_buckets (clientTable s c)"
  shows "search_res (set_bucket c j b d s) i P =
    (if client_of s i = c \<and> hash_of s c i = j then List.find (\<lambda>r. res_id r = i \<and> P r) b else search_res s i P)"
proof -
  have "bucket (set_bucket c j b d s) c' k = (if c' = c \<and> k = j then b else bucket s c' k)"
    if "c' = c \<Longrightarrow> k < cr_buckets (clientTable s c)" for c' k
    using assms that by (auto simp: bucket_def set_bucket_def upd_client_def nth_list_update res_inv_def cr_inv_def)
  moreover have "hash_of s c i < cr_buckets (clientTable s c)"
    using hash_of_less [OF assms(1), of c i] assms by (simp add: res_inv_def cr_inv_def)
  ultimately show ?thesis
    using client_of_less [OF assms(1), of i] assms(2) by (auto simp: search_res_def Let_def)
qed

lemma ChangeResourceValue_spec:
  assumes inv: "res_inv s" and res: "ChangeResourceValue i t v s = (b, s')"
  shows "res_inv s'" "same_types s s'" "b \<longleftrightarrow> search_res s i (\<lambda>r. res_type r = t) \<noteq> None"
    "b \<Longrightarrow> map_option res_value (search_res s' i (\<lambda>r. res_type r = t)) = Some v"
    "(i', t') \<noteq> (i, t) \<Longrightarrow> search_res s' i' (\<lambda>r. res_type r = t') = search_res s i' (\<lambda>r. res_type r = t')"
proof -
  let ?c = "client_of s i" and ?Q = "\<lambda>r. res_id r = i \<and> res_type r = t"
  let ?j = "hash_of s ?c i"
  let ?f = "first_index ?Q (bucket s ?c ?j)"
  have sr: "search_res s i (\<lambda>r. res_type r = t) = (if cr_buckets (clientTable s ?c) = 0 then None else List.find ?Q (bucket s ?c ?j))"
    using client_of_less [OF inv, of i] by (simp add: search_res_def Let_def)
  consider (no) "b = False" "s' = s" "cr_buckets (clientTable s ?c) = 0 \<or> ?f = None"
    | (yes) k where "b = True" "cr_buckets (clientTable s ?c) \<noteq> 0" "?f = Some k"
        "s' = set_bucket ?c ?j ((bucket s ?c ?j)[k := (bucket s ?c ?j ! k)\<lparr>res_value := v\<rparr>]) 0 s"
    using res client_of_less [OF inv, of i]
    by (auto simp: ChangeResourceValue_def Let_def set_bucket_def upd_client_def bucket_def split: if_splits option.splits)
  then have "res_inv s' \<and> same_types s s' \<and> (b \<longleftrightarrow> search_res s i (\<lambda>r. res_type r = t) \<noteq> None) \<and>
    (b \<longrightarrow> map_option res_value (search_res s' i (\<lambda>r. res_type r = t)) = Some v) \<and>
    ((i', t') \<noteq> (i, t) \<longrightarrow> search_res s' i' (\<lambda>r. res_type r = t') = search_res s i' (\<lambda>r. res_type r = t'))"
  proof cases
    case no
    then show ?thesis using inv sr by (auto simp: same_types_def first_index_None find_None_iff)
  next
    case yes
    let ?y = "(bucket s ?c ?j ! k)\<lparr>res_value := v\<rparr>"
    note k = first_index_Some [OF yes(3)]
    have j: "?j < cr_buckets (clientTable s ?c)"
      using hash_of_less [OF inv yes(2), of i] inv by (simp add: res_inv_def cr_inv_def)
    have "bucket_ok s ?c ?j ((bucket s ?c ?j)[k := ?y])"
      using bucket_ok_bucket [OF inv j] k(1) unfolding bucket_ok_def
      by (metis (no_types, lifting) ResourceRec.select_convs(1) ResourceRec.surjective ResourceRec.update_convs(3) nth_mem set_update_subset_insert insert_iff subsetD)
    then have "res_inv s'" unfolding yes(4) by (rule set_bucket_inv [OF inv j]) simp
    moreover have "List.find ?Q (bucket s ?c ?j) \<noteq> None"
      using k(1,2) by (auto simp: find_None_iff)
    moreover note search_res_set_bucket [OF inv j] find_update [OF yes(3), of ?y]
      find_update_other [of "\<lambda>r. res_id r = i' \<and> res_type r = t'" "bucket s ?c ?j" k ?y]
    moreover have "search_res s i' P = List.find (\<lambda>r. res_id r = i' \<and> P r) (bucket s ?c ?j)"
      if "client_of s i' = ?c" "hash_of s ?c i' = ?j" for P
      using that yes(2) client_of_less [OF inv, of i'] by (simp add: search_res_def Let_def)
    ultimately show ?thesis using yes(1,2,4) k(2) sr by (auto simp: same_types_def)
  qed
  then show "res_inv s'" "same_types s s'" "b \<longleftrightarrow> search_res s i (\<lambda>r. res_type r = t) \<noteq> None"
    "b \<Longrightarrow> map_option res_value (search_res s' i (\<lambda>r. res_type r = t)) = Some v"
    "(i', t') \<noteq> (i, t) \<Longrightarrow> search_res s' i' (\<lambda>r. res_type r = t') = search_res s i' (\<lambda>r. res_type r = t')"
    by simp_all
qed

subsection \<open>Starting a client\<close>

lemma InitClientResources_spec:
  assumes inv: "res_inv s" and res: "InitClientResources alloc types c s = (True, s')"
  shows "res_inv s'" "cr_buckets (clientTable s' c) = 64" "client_of s i = c \<Longrightarrow> res_stack s' i = []"
    "LimitClients s' = LimitClients s" "c' \<noteq> c \<Longrightarrow> clientTable s' c' = clientTable s c'"
proof -
  have t: "clientTable s' c' = clientTable s c'" if "c' \<noteq> c" for c'
    using res that by (auto simp: InitClientResources_def Let_def upd_client_def split: if_splits)
  have l: "LimitClients s' = LimitClients s" "cr_resources (clientTable s' c) = replicate 64 []"
    "cr_buckets (clientTable s' c) = 64" "cr_hashsize (clientTable s' c) = 6" "cr_elements (clientTable s' c) = 0"
    using res by (auto simp: InitClientResources_def Let_def upd_client_def INITBUCKETS_def INITHASHSIZE_def split: if_splits)
  have "cr_inv (LimitClients s) c (clientTable s' c)" using l by (auto simp: cr_inv_def)
  then have "cr_inv (LimitClients s) c' (clientTable s' c')" for c'
    using inv t [of c'] by (cases "c' = c") (simp_all add: res_inv_def)
  then show "res_inv s'" using inv l by (simp add: res_inv_def)
  show "cr_buckets (clientTable s' c) = 64" "LimitClients s' = LimitClients s" using l by auto
  show "client_of s i = c \<Longrightarrow> res_stack s' i = []" using l by (auto simp: res_stack_def client_of_def)
  show "c' \<noteq> c \<Longrightarrow> clientTable s' c' = clientTable s c'" by (rule t)
qed

text \<open>A small database for examples: the server and client 1 of a server with 256 clients, no
  callbacks, delete functions that do nothing.\<close>

definition no_hooks :: "(nat, unit, unit) res_hooks" where
  "no_hooks = \<lparr>call_delete = \<lambda>f v i s. s, state_callback = \<lambda>st r s. s, HandleSaveSet_hook = \<lambda>c s. s\<rparr>"

definition empty_db :: "(nat, unit, unit) resdb" where
  "empty_db = \<lparr>clientTable = \<lambda>c. \<lparr>cr_resources = [], cr_elements = 0, cr_buckets = 0, cr_hashsize = 0,
      cr_fakeID = 0, cr_endFakeID = 0\<rparr>, resourceTypes = [], lastResourceType = 0, lastResourceClass = 0,
    TypeMask = 0, LimitClients = 256, exceptions = [], world = ()\<rparr>"

definition example_types :: "unit ResourceType list" where
  "example_types = replicate 10 \<lparr>rt_deleteFunc = (), rt_sizeFunc = (), rt_findSubResFunc = (), rt_errorValue = BadGC\<rparr>"

definition example_db :: "(nat, unit, unit) resdb" where
  "example_db = snd (InitClientResources (\<lambda>_. True) example_types 1
     (snd (InitClientResources (\<lambda>_. True) example_types 0 empty_db)))"

lemma empty_db_inv: "res_inv empty_db"
proof -
  have "lim_ok 256" unfolding lim_ok_def by (rule exI [of _ 8]) simp
  then show ?thesis by (simp add: res_inv_def empty_db_def cr_inv_def)
qed

lemma example_db_spec:
  "res_inv example_db" "cr_buckets (clientTable example_db 1) = 64" "LimitClients example_db = 256"
  "client_of example_db i = 1 \<Longrightarrow> res_stack example_db i = []"
proof -
  let ?i = "InitClientResources (\<lambda>_. True) example_types"
  have a: "?i 0 empty_db = (True, snd (?i 0 empty_db))" "?i 1 (snd (?i 0 empty_db)) = (True, example_db)"
    by (simp_all add: InitClientResources_def Let_def example_db_def)
  note b = InitClientResources_spec [OF empty_db_inv a(1)]
  note c = InitClientResources_spec [OF b(1) a(2)]
  show "res_inv example_db" "cr_buckets (clientTable example_db 1) = 64" by (rule c(1), rule c(2))
  show "LimitClients example_db = 256" using c(4) b(4) by (simp add: empty_db_def)
  show "client_of example_db i = 1 \<Longrightarrow> res_stack example_db i = []" using c(3) c(4) by (simp add: client_of_def)
qed


lemma client_of_example: "client_of example_db 0x200001 = 1"
proof -
  have "ResourceClientBits 256 = 8" using ResourceClientBits_exp [of 8] by simp
  then show ?thesis
    by (simp add: client_of_def example_db_spec(3) dixClientIdForXID_def CLIENT_BITS_def RESOURCE_CLIENT_MASK_def
        CLIENTOFFSET_def RESOURCE_AND_CLIENT_COUNT_def)
qed

lemma example_table: "cr_buckets (clientTable example_db (Suc 0)) = 64"
  using example_db_spec(2) by simp

lemma example_type_ok: "3 AND TypeMask example_db \<le> lastResourceType example_db"
  by (simp add: example_db_def InitClientResources_def Let_def empty_db_def upd_client_def
      RC_LASTPREDEF_def RC_NEVERRETAIN_def X11_RESTYPE_LASTPREDEF_def)

lemma example_added:
  "\<exists>s1. AddResource no_hooks (\<lambda>_. True) 0x200001 3 42 example_db = Some (True, s1) \<and> res_inv s1 \<and>
     res_stack s1 = (res_stack example_db)(0x200001 := \<lparr>res_id = 0x200001, res_type = 3, res_value = 42\<rparr> # res_stack example_db 0x200001) \<and>
     same_types example_db s1"
  using AddResource_spec [of example_db "0x200001" "\<lambda>_. True" no_hooks 3 42]
  by (auto simp: example_db_spec example_table client_of_example CallResourceStateCallback_def no_hooks_def)

subsection \<open>Properties\<close>

text \<open>A lookup by type without a client to check is the search of the stack.\<close>

lemma lookup_same:
  assumes "same_types s s'" "search_res s' i (\<lambda>r. res_type r = t) = search_res s i (\<lambda>r. res_type r = t)"
  shows "dixLookupResourceByType xace i t client mode s' = dixLookupResourceByType xace i t client mode s"
proof -
  have "type_entry s' t = type_entry s t" using assms(1) by (simp add: type_entry_def same_types_def)
  with assms show ?thesis
    by (simp add: dixLookupResourceByType_def same_types_def Let_def split: option.split)
qed

lemma lookup_found:
  assumes "t AND TypeMask s \<le> lastResourceType s"
    and "map_option res_value (search_res s i (\<lambda>r. res_type r = t)) = Some v"
  shows "dixLookupResourceByType xace i t None mode s = (Success, Some v, None)"
  using assms by (auto simp: dixLookupResourceByType_def)

text \<open>C3. Adding a resource (with memory available, for a client that has a table) succeeds,
  growing the table when it is due, and keeps the invariant; in the database the adding callback
  sees, looking the identifier up by its type finds the new value, and every lookup of another
  identifier or another type gives what it gave before.\<close>

theorem AddResource_lookup:
  assumes "res_inv s" "i \<noteq> 0" "cr_buckets (clientTable s (client_of s i)) \<noteq> 0" "alloc AllocResource"
    and "t AND TypeMask s \<le> lastResourceType s"
  shows "\<exists>s1. AddResource h alloc i t v s =
      Some (True, CallResourceStateCallback h ResourceStateAdding \<lparr>res_id = i, res_type = t, res_value = v\<rparr> s1) \<and>
    res_inv s1 \<and> dixLookupResourceByType xace i t None mode s1 = (Success, Some v, None) \<and>
    (\<forall>i' t' client mode'. (i', t') \<noteq> (i, t) \<longrightarrow>
       dixLookupResourceByType xace i' t' client mode' s1 = dixLookupResourceByType xace i' t' client mode' s)"
proof -
  obtain s1 where s1: "AddResource h alloc i t v s =
      Some (True, CallResourceStateCallback h ResourceStateAdding \<lparr>res_id = i, res_type = t, res_value = v\<rparr> s1)"
    "res_inv s1" "res_stack s1 = (res_stack s)(i := \<lparr>res_id = i, res_type = t, res_value = v\<rparr> # res_stack s i)"
    "same_types s s1"
    using AddResource_spec [where alloc = alloc, OF assms(1-4), of h t v] by blast
  have "search_res s1 i' (\<lambda>r. res_type r = t') = search_res s i' (\<lambda>r. res_type r = t')" if "(i', t') \<noteq> (i, t)" for i' t'
    using that by (auto simp: search_res_stack [OF s1(2)] search_res_stack [OF assms(1)] s1(3))
  moreover have "map_option res_value (search_res s1 i (\<lambda>r. res_type r = t)) = Some v"
    by (simp add: search_res_stack [OF s1(2)] s1(3))
  ultimately show ?thesis
    using s1 assms(5) lookup_same [OF s1(4)] lookup_found [of t s1 i v] by (auto simp: same_types_def)
qed

theorem AddResource_lookup_witness:
  "\<exists>s1. AddResource no_hooks (\<lambda>_. True) 0x200001 3 42 example_db = Some (True, s1) \<and>
     dixLookupResourceByType (\<lambda>_ _ _ _ _. Success) 0x200001 3 None DixReadAccess s1 = (Success, Some 42, None)"
proof -
  show ?thesis
    using AddResource_lookup [of example_db "0x200001" "\<lambda>_. True" 3 no_hooks 42 "\<lambda>_ _ _ _ _. Success" DixReadAccess]
    by (auto simp: example_db_spec example_table client_of_example example_type_ok CallResourceStateCallback_def no_hooks_def)
qed




text \<open>Freeing an identifier returns, for all delete functions and callbacks that themselves only
  free resources (however many, of whichever client): afterwards the identifier has no resource,
  whatever type is skipped, the invariant holds, no identifier gained a resource, and those which the
  delete functions and callbacks leave alone keep theirs.\<close>

lemma FreeResource_gone:
  assumes "hooks_shrink h" "res_inv s"
  shows "\<exists>s'. FreeResource h i skip s = Some s' \<and> res_inv s' \<and> res_stack s' i = [] \<and>
    (\<forall>i'. subseq (res_stack s' i') (res_stack s i')) \<and>
    (spares h A \<longrightarrow> (\<forall>i' \<in> A. i' \<noteq> i \<longrightarrow> res_stack s' i' = res_stack s i'))"
  using FreeResource_spec [OF assms] shrunk_stack [OF assms(2)] by blast



text \<open>Changing a resource's value reports whether the identifier has a resource of the type; when it
  does, looking it up afterwards finds the new value, and every other lookup is unaffected.\<close>

lemma ChangeResourceValue_lookup:
  assumes "res_inv s" "ChangeResourceValue i t v s = (b, s')" "t AND TypeMask s \<le> lastResourceType s"
  shows "res_inv s' \<and>
    (if b then dixLookupResourceByType xace i t None mode s' = (Success, Some v, None)
     else s' = s \<and> snd (dixLookupResourceByType xace i t None mode s) = (None, None)) \<and>
    (\<forall>i' t' client mode'. (i', t') \<noteq> (i, t) \<longrightarrow>
       dixLookupResourceByType xace i' t' client mode' s' = dixLookupResourceByType xace i' t' client mode' s)"
proof -
  note c = ChangeResourceValue_spec [OF assms(1,2)]
  have "\<not> b \<Longrightarrow> s' = s"
    using assms(2) by (auto simp: ChangeResourceValue_def Let_def split: if_splits option.splits)
  moreover have "\<not> b \<Longrightarrow> snd (dixLookupResourceByType xace i t None mode s) = (None, None)"
    using c(3) assms(3) by (auto simp: dixLookupResourceByType_def)
  ultimately show ?thesis
    using c assms(3) lookup_same [OF c(2)] lookup_found [of t s' i v] by (auto simp: same_types_def)
qed

end
