(* ===== verification/ResourceIds.thy ===== *)
theory ResourceIds
  imports ResourceTable
begin

text \<open>
  Fresh resource identifiers: the search for a range of unused identifiers, the identifiers the
  server makes up for a client, and the registry of types and classes.
\<close>

subsection \<open>Searching a range\<close>

lemma avail_loop_spec:
  assumes "unat maxid + 1 < 2 ^ 32" "0 < i"
  shows "\<exists>r. avail_loop used i maxid = Some r \<and>
    (if r = 0 then \<forall>x. i \<le> x \<and> x \<le> maxid \<longrightarrow> used x else i \<le> r \<and> r \<le> maxid \<and> \<not> used r)"
  using assms(2)
proof (induction "unat maxid + 1 - unat i" arbitrary: i rule: less_induct)
  case less
  show ?case
  proof (cases "i \<le> maxid \<and> used i")
    case True
    then have inc: "unat (i + 1) = unat i + 1" using assms(1) by (intro unat_inc) (simp add: word_le_nat_alt)
    have "unat i \<le> unat maxid" using True by (simp add: word_le_nat_alt)
    then have dec: "unat maxid + 1 - unat (i + 1) < unat maxid + 1 - unat i" using inc by linarith
    have "0 < i + 1" using inc by (simp add: word_less_nat_alt)
    with less.hyps [OF dec] obtain r where r: "avail_loop used (i + 1) maxid = Some r"
      "if r = 0 then \<forall>x. i + 1 \<le> x \<and> x \<le> maxid \<longrightarrow> used x else i + 1 \<le> r \<and> r \<le> maxid \<and> \<not> used r"
      by blast
    have le: "i + 1 \<le> x \<longleftrightarrow> i < x" for x using inc by (auto simp: word_le_nat_alt word_less_nat_alt)
    have "avail_loop used i maxid = Some r" using True r(1) by (subst avail_loop.simps) simp
    moreover have "if r = 0 then \<forall>x. i \<le> x \<and> x \<le> maxid \<longrightarrow> used x else i \<le> r \<and> r \<le> maxid \<and> \<not> used r"
      using r(2) True unfolding le by (auto split: if_splits) (metis le_less)
    ultimately show ?thesis by blast
  next
    case False
    then show ?thesis using less.prems by (subst avail_loop.simps) auto
  qed
qed

definition avail_result :: "(xid \<Rightarrow> bool) \<Rightarrow> xid \<Rightarrow> xid \<Rightarrow> xid \<Rightarrow> bool" where
  "avail_result used i maxid g \<longleftrightarrow>
     (if g = 0 then \<forall>x. i \<le> x \<and> x \<le> maxid \<longrightarrow> used x else i \<le> g \<and> g \<le> maxid \<and> \<not> used g)"

lemma AvailableID_spec:
  assumes "unat maxid + 1 < 2 ^ 32" "0 < i" "g = 0 \<or> \<not> used g"
  shows "\<exists>g'. AvailableID used i maxid g = Some g' \<and> avail_result used i maxid g'"
  using avail_loop_spec [OF assms(1,2), of used] assms(2,3)
  by (auto simp: AvailableID_def avail_result_def)

text \<open>While the resources are visited, the candidate range only shrinks, \<open>goodid\<close> is 0 or an unused
  identifier in it, and it contains an unused identifier as long as the first range does.\<close>

definition range_inv :: "(xid \<Rightarrow> bool) \<Rightarrow> xid \<Rightarrow> xid \<Rightarrow> xid \<times> xid \<times> xid \<Rightarrow> bool" where
  "range_inv used lo hi st \<longleftrightarrow>
     (case st of (i, m, g) \<Rightarrow> lo \<le> i \<and> m \<le> hi \<and> (g = 0 \<or> i \<le> g \<and> g \<le> m \<and> \<not> used g) \<and>
        ((\<exists>x. lo \<le> x \<and> x \<le> hi \<and> \<not> used x) \<longrightarrow> (\<exists>x. i \<le> x \<and> x \<le> m \<and> \<not> used x)))"

lemma word_step:
  fixes r :: xid
  assumes "0 < r" "unat r + 1 < 2 ^ 32"
  shows "x \<le> r - 1 \<longleftrightarrow> x < r" "r + 1 \<le> x \<longleftrightarrow> r < x" "0 < r + 1"
proof -
  have "r \<noteq> 0" using assms(1) by auto
  then have "unat (r - 1) = unat r - 1" "0 < unat r" by (simp_all add: unat_minus_one unat_gt_0)
  moreover have "unat (r + 1) = unat r + 1" using assms(2) by (intro unat_inc) simp
  ultimately show "x \<le> r - 1 \<longleftrightarrow> x < r" "r + 1 \<le> x \<longleftrightarrow> r < x" "0 < r + 1"
    by (auto simp: word_le_nat_alt word_less_nat_alt)
qed

lemma xid_range_step_spec:
  assumes lo: "0 < lo" and hi: "unat hi + 1 < 2 ^ 32" and inv: "range_inv used lo hi (i, m, g)" and r: "used r"
  shows "\<exists>i' m' g'. xid_range_step used r (i, m, g) = Some (i', m', g') \<and> range_inv used lo hi (i', m', g') \<and>
    i \<le> i' \<and> m' \<le> m \<and> \<not> (i' \<le> r \<and> r \<le> m')"
proof (cases "r < i \<or> r > m")
  case True
  then show ?thesis using inv by (auto simp: xid_range_step_def)
next
  case False
  then have ir: "i \<le> r" "r \<le> m" by auto
  have m: "m \<le> hi" "lo \<le> i" "g = 0 \<or> \<not> used g" using inv by (auto simp: range_inv_def)
  have "0 < i" using lo m(2) by (rule order_less_le_trans)
  have "0 < r" using \<open>0 < i\<close> ir(1) by (rule order_less_le_trans)
  have rr: "unat r + 1 < 2 ^ 32" "unat (r - 1) + 1 < 2 ^ 32" "unat m + 1 < 2 ^ 32"
    using hi m(1) ir(2) \<open>0 < r\<close> by (auto simp: word_le_nat_alt unat_minus_one)
  note ws = word_step [OF \<open>0 < r\<close> rr(1)]
  obtain g1 where g1: "AvailableID used i (r - 1) g = Some g1" "avail_result used i (r - 1) g1"
    using AvailableID_spec [where used = used, OF rr(2) \<open>0 < i\<close> m(3)] by blast
  obtain g2 where g2: "AvailableID used (r + 1) m g = Some g2" "avail_result used (r + 1) m g2"
    using AvailableID_spec [where used = used, OF rr(3) ws(3) m(3)] by blast
  have "r - 1 < r" "r < r + 1" using ws(1) [of "r - 1"] ws(2) [of "r + 1"] by auto
  then have sub: "r - 1 \<le> m" "i \<le> r + 1" "\<not> r \<le> r - 1" "\<not> r + 1 \<le> r" using ir by auto
  have E: "(\<exists>x. lo \<le> x \<and> x \<le> hi \<and> \<not> used x) \<longrightarrow> (\<exists>x. i \<le> x \<and> x \<le> m \<and> \<not> used x)"
    using inv by (simp add: range_inv_def)
  have low: "range_inv used lo hi (i, r - 1, g')"
    if "g' = 0 \<or> i \<le> g' \<and> g' < r \<and> \<not> used g'"
      "(\<exists>x. i \<le> x \<and> x \<le> m \<and> \<not> used x) \<longrightarrow> (\<exists>x. i \<le> x \<and> x < r \<and> \<not> used x)" for g'
    using that E m(2) order_trans [OF sub(1) m(1)] unfolding range_inv_def prod.case ws by blast
  have high: "range_inv used lo hi (r + 1, m, g')"
    if "g' = 0 \<or> r < g' \<and> g' \<le> m \<and> \<not> used g'"
      "(\<exists>x. i \<le> x \<and> x \<le> m \<and> \<not> used x) \<longrightarrow> (\<exists>x. r < x \<and> x \<le> m \<and> \<not> used x)" for g'
    using that E m(1) order_trans [OF m(2) sub(2)] unfolding range_inv_def prod.case ws by blast
  have split: "x < r \<or> x = r \<or> r < x" for x by auto
  show ?thesis
  proof (cases "r - i \<ge> m - r")
    case True
    then have e: "xid_range_step used r (i, m, g) = Some (if g1 \<noteq> 0 then (i, r - 1, g1) else (r + 1, m, g1))"
      using False g1(1) by (simp add: xid_range_step_def)
    show ?thesis
    proof (cases "g1 = 0")
      case True
      then have "(\<exists>x. i \<le> x \<and> x \<le> m \<and> \<not> used x) \<longrightarrow> (\<exists>x. r < x \<and> x \<le> m \<and> \<not> used x)"
        using g1(2) r split unfolding avail_result_def ws by metis
      then show ?thesis using e True high [of 0] sub by auto
    next
      case False
      then have "i \<le> g1 \<and> g1 < r \<and> \<not> used g1" using g1(2) by (simp add: avail_result_def ws)
      then show ?thesis using e False low [of g1] sub by auto
    qed
  next
    case ne: False
    then have e: "xid_range_step used r (i, m, g) = Some (if g2 = 0 then (i, r - 1, g2) else (r + 1, m, g2))"
      using False g2(1) by (simp add: xid_range_step_def)
    show ?thesis
    proof (cases "g2 = 0")
      case True
      then have "(\<exists>x. i \<le> x \<and> x \<le> m \<and> \<not> used x) \<longrightarrow> (\<exists>x. i \<le> x \<and> x < r \<and> \<not> used x)"
        using g2(2) r split unfolding avail_result_def ws by metis
      then show ?thesis using e True low [of 0] sub by auto
    next
      case False
      then have "r < g2 \<and> g2 \<le> m \<and> \<not> used g2" using g2(2) by (simp add: avail_result_def ws)
      then show ?thesis using e False high [of g2] sub by auto
    qed
  qed
qed

lemma xid_range_loop_spec:
  assumes "0 < lo" "unat hi + 1 < 2 ^ 32" "range_inv used lo hi (i, m, g)" "\<forall>r \<in> set rs. used r"
  shows "\<exists>i' m' g'. xid_range_loop used rs (i, m, g) = Some (i', m', g') \<and> range_inv used lo hi (i', m', g') \<and>
    i \<le> i' \<and> m' \<le> m \<and> (\<forall>r \<in> set rs. \<not> (i' \<le> r \<and> r \<le> m'))"
  using assms(3,4)
proof (induction rs arbitrary: i m g)
  case (Cons r rs)
  obtain i1 m1 g1 where 1: "xid_range_step used r (i, m, g) = Some (i1, m1, g1)" "range_inv used lo hi (i1, m1, g1)"
    "i \<le> i1" "m1 \<le> m" "\<not> (i1 \<le> r \<and> r \<le> m1)"
    using xid_range_step_spec [OF assms(1,2) Cons.prems(1)] Cons.prems(2) by force
  obtain i2 m2 g2 where 2: "xid_range_loop used rs (i1, m1, g1) = Some (i2, m2, g2)" "range_inv used lo hi (i2, m2, g2)"
    "i1 \<le> i2" "m2 \<le> m1" "\<forall>r \<in> set rs. \<not> (i2 \<le> r \<and> r \<le> m2)"
    using Cons.IH [OF 1(2)] Cons.prems(2) by auto
  then show ?case using 1 by (auto intro: order_trans)
qed simp

text \<open>The search works over any table of identifiers: \<open>used\<close> tests one, \<open>ids\<close> lists all of them.\<close>

locale id_table =
  fixes used :: "'s \<Rightarrow> nat \<Rightarrow> xid \<Rightarrow> bool"
    and ids :: "'s \<Rightarrow> nat \<Rightarrow> xid list"
    and inv :: "'s \<Rightarrow> nat \<Rightarrow> bool"
  assumes used_ids: "inv s c \<Longrightarrow> used s c x \<longleftrightarrow> x \<in> set (ids s c)"
begin

text \<open>The range found holds unused identifiers only, and is empty only if there are none.\<close>

lemma search_range:
  assumes "inv s c" "0 < lo" "unat hi + 1 < 2 ^ 32"
  shows "\<exists>i m g. xid_range_loop (used s c) (ids s c) (lo, hi, 0) = Some (i, m, g) \<and> lo \<le> i \<and> m \<le> hi \<and>
    (\<forall>x. i \<le> x \<and> x \<le> m \<longrightarrow> x \<notin> set (ids s c)) \<and>
    (i \<le> m \<longleftrightarrow> (\<exists>x. lo \<le> x \<and> x \<le> hi \<and> x \<notin> set (ids s c)))"
proof -
  have "range_inv (used s c) lo hi (lo, hi, 0)" by (auto simp: range_inv_def)
  then obtain i m g where r: "xid_range_loop (used s c) (ids s c) (lo, hi, 0) = Some (i, m, g)"
    "range_inv (used s c) lo hi (i, m, g)" "\<forall>r \<in> set (ids s c). \<not> (i \<le> r \<and> r \<le> m)"
    using xid_range_loop_spec [OF assms(2,3)] used_ids [OF assms(1)] by blast
  have "i \<le> m \<longleftrightarrow> (\<exists>x. lo \<le> x \<and> x \<le> hi \<and> x \<notin> set (ids s c))"
  proof
    assume "i \<le> m"
    then show "\<exists>x. lo \<le> x \<and> x \<le> hi \<and> x \<notin> set (ids s c)"
      using r(2,3) by (intro exI [of _ i]) (auto simp: range_inv_def intro: order_trans)
  next
    assume "\<exists>x. lo \<le> x \<and> x \<le> hi \<and> x \<notin> set (ids s c)"
    then show "i \<le> m" using r(2) used_ids [OF assms(1)] by (auto simp: range_inv_def intro: order_trans)
  qed
  then show ?thesis using r by (auto simp: range_inv_def)
qed

end

subsection \<open>The identifiers of a client\<close>

abbreviation client_ids :: "('v, 'f, 'w) resdb \<Rightarrow> nat \<Rightarrow> xid list" where
  "client_ids s c \<equiv> map res_id (concat (take (cr_buckets (clientTable s c)) (cr_resources (clientTable s c))))"

definition has_table :: "('v, 'f, 'w) resdb \<Rightarrow> nat \<Rightarrow> bool" where
  "has_table s c \<longleftrightarrow> res_inv s \<and> cr_buckets (clientTable s c) \<noteq> 0"

lemma id_in_table_iff:
  assumes "has_table s c"
  shows "id_in_table s c x \<longleftrightarrow> x \<in> set (client_ids s c)"
proof -
  let ?bs = "cr_resources (clientTable s c)"
  have l: "length ?bs = cr_buckets (clientTable s c)" and
    h: "\<And>j r. j < length ?bs \<Longrightarrow> r \<in> set (?bs ! j) \<Longrightarrow> hash_of s c (res_id r) = j"
    using assms by (auto simp: has_table_def res_inv_def cr_inv_def hash_of_def)
  have b: "hash_of s c x < length ?bs" using assms hash_of_less by (auto simp: has_table_def)
  have "(\<exists>r \<in> set (?bs ! hash_of s c x). res_id r = x) \<longleftrightarrow> (\<exists>b \<in> set ?bs. \<exists>r \<in> set b. res_id r = x)"
  proof
    assume "\<exists>b \<in> set ?bs. \<exists>r \<in> set b. res_id r = x"
    then obtain j r where "j < length ?bs" "r \<in> set (?bs ! j)" "res_id r = x" by (metis in_set_conv_nth)
    then show "\<exists>r \<in> set (?bs ! hash_of s c x). res_id r = x" using h by blast
  qed (use b in \<open>auto dest: nth_mem\<close>)
  moreover have "x \<in> set (client_ids s c) \<longleftrightarrow> (\<exists>b \<in> set ?bs. \<exists>r \<in> set b. res_id r = x)"
    using l by (simp add: image_iff) metis
  ultimately show ?thesis by (simp add: id_in_table_def bucket_def)
qed

interpretation res_ids: id_table id_in_table client_ids has_table
  by unfold_locales (rule id_in_table_iff)

lemma mem_client_ids:
  assumes "has_table s c" "client_of s x = c"
  shows "x \<in> set (client_ids s c) \<longleftrightarrow> res_stack s x \<noteq> []"
  using assms by (auto simp: res_stack_def has_table_def res_inv_def cr_inv_def filter_empty_conv)

text \<open>The bits of an identifier in a client's range.\<close>

lemma lim_fields:
  assumes "lim = 2 ^ b" "6 \<le> b" "b \<le> 11"
  shows "CLIENTOFFSET lim = 29 - b" "RESOURCE_ID_MASK lim = mask (29 - b)"
    "clientAsMask lim c = push_bit (29 - b) (of_nat c)"
    "dixClientIdForXID lim x = unat (take_bit b (drop_bit (29 - b) x))"
proof -
  show o: "CLIENTOFFSET lim = 29 - b"
    using assms by (simp add: CLIENTOFFSET_def RESOURCE_AND_CLIENT_COUNT_def ResourceClientBits_exp)
  show "RESOURCE_ID_MASK lim = mask (29 - b)" by (simp add: RESOURCE_ID_MASK_def o mask_eq_exp_minus_1)
  show "clientAsMask lim c = push_bit (29 - b) (of_nat c)" by (simp add: clientAsMask_def o)
  have m: "RESOURCE_CLIENT_MASK lim = push_bit (29 - b) (mask b)"
    unfolding RESOURCE_CLIENT_MASK_def o using assms by (simp add: ResourceClientBits_exp mask_eq_exp_minus_1)
  have "drop_bit (29 - b) (CLIENT_BITS lim x) = take_bit b (drop_bit (29 - b) x)"
    unfolding CLIENT_BITS_def m using assms(2,3) by (intro bit_word_eqI) (auto simp: bit_simps)
  moreover have "unat (ucast w :: 16 word) = unat w" if "w = take_bit b w" for w :: "32 word"
  proof -
    have "unat w < 2 ^ b" by (metis that unsigned_take_bit_eq take_bit_nat_less_exp)
    also have "\<dots> \<le> 2 ^ 16" using assms by (intro power_increasing) auto
    finally show ?thesis by (simp add: unsigned_ucast_eq take_bit_nat_eq_self)
  qed
  ultimately show "dixClientIdForXID lim x = unat (take_bit b (drop_bit (29 - b) x))"
    by (simp add: dixClientIdForXID_def o)
qed

lemma range_facts:
  assumes lim: "lim_ok lim" and c: "c < lim" "server \<or> c \<noteq> 0"
  defines "lo \<equiv> range_start lim c server"
  defines "hi \<equiv> lo OR RESOURCE_ID_MASK lim"
  shows "0 < lo" "unat hi + 1 < 2 ^ 32" "lo \<le> hi" "lo \<le> x \<Longrightarrow> x \<le> hi \<Longrightarrow> dixClientIdForXID lim x = c"
proof -
  obtain b where b: "lim = 2 ^ b" "6 \<le> b" "b \<le> 11" using lim by (auto simp: lim_ok_def)
  note f = lim_fields [OF b]
  have sb: "bit SERVER_BIT n \<longleftrightarrow> n = 30" "bit SERVER_MINID n \<longleftrightarrow> n = 5" if "n < 32" for n
  proof -
    have e: "SERVER_BIT = push_bit 30 1" "SERVER_MINID = push_bit 5 1" by (simp_all add: SERVER_BIT_def SERVER_MINID_def)
    show "bit SERVER_BIT n \<longleftrightarrow> n = 30" "bit SERVER_MINID n \<longleftrightarrow> n = 5"
      using that unfolding e bit_push_bit_iff bit_1_iff by auto
  qed
  have cb: "bit (of_nat c :: xid) n \<longleftrightarrow> bit c n" "bit c n \<Longrightarrow> n < b" if "n < 32" for n
  proof -
    show "bit (of_nat c :: xid) n \<longleftrightarrow> bit c n" using that by (simp add: bit_simps)
    have "take_bit b c = c" using c b by (simp add: take_bit_nat_eq_self)
    then show "bit c n \<Longrightarrow> n < b" by (metis bit_take_bit_iff)
  qed
  have lo: "bit lo n \<longleftrightarrow> (29 - b \<le> n \<and> bit c (n - (29 - b))) \<or>
      server \<and> (if c \<noteq> 0 then n = 30 else n = 5)" if "n < 32" for n
    using that cb(1) [of "n - (29 - b)"] sb [of n] by (auto simp: lo_def range_start_def f bit_simps)
  have hi: "bit hi n \<longleftrightarrow> bit lo n \<or> n < 29 - b" if "n < 32" for n
    using that by (auto simp: hi_def f bit_simps)
  show "0 < lo"
  proof (cases server)
    case True
    then have "bit lo (if c \<noteq> 0 then 30 else 5)" using lo [of "if c \<noteq> 0 then 30 else 5"] by auto
    then show ?thesis by (metis bit_0_eq bot_apply bot_bool_def word_gt_0)
  next
    case False
    then have "c \<noteq> 0" using c by simp
    then obtain n where n: "bit c n" by (metis bit_eq_iff bit_0_eq bot_apply bot_bool_def)
    have "take_bit b c = c" using c b by (simp add: take_bit_nat_eq_self)
    then have "n < b" using n by (metis bit_take_bit_iff)
    then have "bit lo (n + (29 - b))" using lo [of "n + (29 - b)"] n b by auto
    then show ?thesis by (metis bit_0_eq bot_apply bot_bool_def word_gt_0)
  qed
  have "\<not> bit hi 31" using hi [of 31] lo [of 31] cb(2) [of "31 - (29 - b)"] b by auto
  have "hi = take_bit 31 hi"
  proof (rule bit_word_eqI)
    fix n assume "n < LENGTH(32)"
    then show "bit hi n = bit (take_bit 31 hi) n" using \<open>\<not> bit hi 31\<close> by (cases "n = 31") (auto simp: bit_simps)
  qed
  then have "unat hi < 2 ^ 31" by (metis unsigned_take_bit_eq take_bit_nat_less_exp)
  then show "unat hi + 1 < 2 ^ 32" by simp
  show "lo \<le> hi" by (simp add: hi_def le_word_or2)
  assume x: "lo \<le> x" "x \<le> hi"
  have same: "drop_bit (29 - b) hi = drop_bit (29 - b) lo"
  proof (rule bit_word_eqI)
    fix n assume "n < LENGTH(32)"
    show "bit (drop_bit (29 - b) hi) n = bit (drop_bit (29 - b) lo) n"
      using hi [of "29 - b + n"] bit_imp_le_length [of hi "29 - b + n"] bit_imp_le_length [of lo "29 - b + n"]
      by (auto simp: bit_simps)
  qed
  have "unat lo div 2 ^ (29 - b) \<le> unat x div 2 ^ (29 - b)" "unat x div 2 ^ (29 - b) \<le> unat hi div 2 ^ (29 - b)"
    using x by (auto simp: word_le_nat_alt intro: div_le_mono)
  moreover have "unat (drop_bit (29 - b) w) = unat w div 2 ^ (29 - b)" for w :: xid
    unfolding unsigned_drop_bit_eq by (simp add: drop_bit_eq_div take_bit_nat_eq_self unat_card32_less)
  ultimately have "unat (drop_bit (29 - b) x) = unat (drop_bit (29 - b) lo)" using same by (metis le_antisym)
  then have "drop_bit (29 - b) x = drop_bit (29 - b) lo" by (simp add: unsigned_word_eqI)
  moreover have "take_bit b (drop_bit (29 - b) lo) = of_nat c"
  proof (rule bit_word_eqI)
    fix n assume n: "n < LENGTH(32)"
    show "bit (take_bit b (drop_bit (29 - b) lo)) n = bit (of_nat c :: xid) n"
    proof (cases "n < b")
      case True
      then have "bit lo (29 - b + n) = bit c n" using lo [of "29 - b + n"] b by (cases "c = 0") auto
      then show ?thesis using True n cb(1) [of n] by (simp add: bit_take_bit_iff bit_drop_bit_eq)
    next
      case False
      then show ?thesis using n cb(1,2) [of n] by (auto simp: bit_take_bit_iff)
    qed
  qed
  moreover have "unat (of_nat c :: xid) = c"
  proof -
    have "c < 2 ^ b" using c b by simp
    also have "\<dots> \<le> 2 ^ 32" using b by (intro power_increasing) auto
    finally show ?thesis by (simp add: unat_of_nat)
  qed
  ultimately show "dixClientIdForXID lim x = c" by (simp add: f)
qed

subsection \<open>Ranges and made-up identifiers\<close>

text \<open>Everything between the first and the last identifier of a client, visible or internal.\<close>

definition range_end :: "nat \<Rightarrow> nat \<Rightarrow> bool \<Rightarrow> xid" where
  "range_end lim c server = range_start lim c server OR RESOURCE_ID_MASK lim"

lemma GetXIDRange_spec:
  assumes "has_table s c" "c < LimitClients s" "server \<or> c \<noteq> 0"
  defines "lo \<equiv> range_start (LimitClients s) c server" and "hi \<equiv> range_end (LimitClients s) c server"
  shows "\<exists>rmin rmax. GetXIDRange c server s = Some (rmin, rmax) \<and>
    (if rmin = 0 then \<forall>x. lo \<le> x \<and> x \<le> hi \<longrightarrow> res_stack s x \<noteq> []
     else lo \<le> rmin \<and> rmin \<le> rmax \<and> rmax \<le> hi \<and> (\<forall>x. rmin \<le> x \<and> x \<le> rmax \<longrightarrow> res_stack s x = []))"
proof -
  have lim: "lim_ok (LimitClients s)" using assms(1) by (simp add: has_table_def res_inv_def)
  note f = range_facts [OF lim assms(2,3), folded lo_def range_end_def, folded hi_def]
  obtain i m g where r: "xid_range_loop (id_in_table s c) (client_ids s c) (lo, hi, 0) = Some (i, m, g)"
    "lo \<le> i" "m \<le> hi" "\<forall>x. i \<le> x \<and> x \<le> m \<longrightarrow> x \<notin> set (client_ids s c)"
    "i \<le> m \<longleftrightarrow> (\<exists>x. lo \<le> x \<and> x \<le> hi \<and> x \<notin> set (client_ids s c))"
    using res_ids.search_range [OF assms(1) f(1,2)] by blast
  have stack: "x \<in> set (client_ids s c) \<longleftrightarrow> res_stack s x \<noteq> []" if "lo \<le> x" "x \<le> hi" for x
    using mem_client_ids [OF assms(1), of x] f(4) [OF that] by (simp add: client_of_def)
  have "GetXIDRange c server s = Some (if i > m then (0, 0) else (i, m))"
    using r(1) by (simp add: GetXIDRange_def Let_def lo_def [symmetric] hi_def range_end_def)
  moreover have "i \<noteq> 0" using f(1) r(2) by auto
  moreover have "res_stack s x = []" if "i \<le> x" "x \<le> m" for x
    using r(2-4) stack [of x] that order_trans [of lo i x] order_trans [of x m hi] by blast
  moreover have "\<forall>x. lo \<le> x \<and> x \<le> hi \<longrightarrow> res_stack s x \<noteq> []" if "\<not> i \<le> m" using r(5) stack that by blast
  ultimately show ?thesis using r(2,3) by (cases "i \<le> m") auto
qed

text \<open>C4. For a client with a table, \<open>GetXIDRange\<close> returns, and gives either a non-empty range inside the
  client's identifiers no identifier of which is in use, or (0, 0) and then every identifier
  of the client is in use.\<close>

theorem GetXIDRange_unused:
  assumes "res_inv s" "cr_buckets (clientTable s c) \<noteq> 0" "c < LimitClients s" "server \<or> c \<noteq> 0"
  shows "\<exists>rmin rmax. GetXIDRange c server s = Some (rmin, rmax) \<and>
    (if rmin = 0 then \<forall>x. range_start (LimitClients s) c server \<le> x \<and> x \<le> range_end (LimitClients s) c server \<longrightarrow> res_stack s x \<noteq> []
     else range_start (LimitClients s) c server \<le> rmin \<and> rmin \<le> rmax \<and> rmax \<le> range_end (LimitClients s) c server \<and>
       (\<forall>x. rmin \<le> x \<and> x \<le> rmax \<longrightarrow> client_of s x = c \<and> res_stack s x = []))"
proof -
  have "has_table s c" "lim_ok (LimitClients s)" using assms(1,2) by (simp_all add: has_table_def res_inv_def)
  note c = range_facts(4) [OF this(2) assms(3,4), folded range_end_def]
  obtain rmin rmax where r: "GetXIDRange c server s = Some (rmin, rmax)"
    "if rmin = 0 then \<forall>x. range_start (LimitClients s) c server \<le> x \<and> x \<le> range_end (LimitClients s) c server \<longrightarrow> res_stack s x \<noteq> []
     else range_start (LimitClients s) c server \<le> rmin \<and> rmin \<le> rmax \<and> rmax \<le> range_end (LimitClients s) c server \<and>
       (\<forall>x. rmin \<le> x \<and> x \<le> rmax \<longrightarrow> res_stack s x = [])"
    using GetXIDRange_spec [OF \<open>has_table s c\<close> assms(3,4)] by blast
  have "client_of s x = c" if "rmin \<noteq> 0" "rmin \<le> x" "x \<le> rmax" for x
    using c [of x] r(2) that by (simp add: client_of_def) (meson order_trans)
  then show ?thesis using r by (intro exI [of _ rmin] exI [of _ rmax]) (simp split: if_splits)
qed

theorem GetXIDRange_unused_witness:
  "\<exists>rmin rmax. GetXIDRange 1 False example_db = Some (rmin, rmax) \<and> rmin \<noteq> 0 \<and> rmin \<le> rmax \<and>
     res_stack example_db rmin = [] \<and> client_of example_db rmin = 1"
proof -
  have "range_start 256 1 False \<le> range_end 256 1 False" by (simp add: range_end_def le_word_or2)
  moreover have lim: "lim_ok 256" using example_db_spec(1,3) by (metis res_inv_def)
  have "client_of example_db (range_start 256 1 False) = 1"
    using range_facts(3) [OF lim, of 1 False] range_facts(4) [OF lim, of 1 False "range_start 256 1 False"] by (simp add: client_of_def example_db_spec(3))
  then have "res_stack example_db (range_start 256 1 False) = []" by (rule example_db_spec(4))
  ultimately show ?thesis
    using GetXIDRange_unused [of example_db 1 False] by (auto simp: example_db_spec example_table split: if_splits)
qed

text \<open>What the server keeps for a client's internal identifiers: those from \<open>fakeID\<close> up to
  \<open>endFakeID\<close> are in the client's internal range and unused.\<close>

definition fake_inv :: "('v, 'f, 'w) resdb \<Rightarrow> nat \<Rightarrow> bool" where
  "fake_inv s c \<longleftrightarrow> has_table s c \<and> c < LimitClients s \<and>
     range_start (LimitClients s) c True \<le> cr_fakeID (clientTable s c) \<and>
     cr_fakeID (clientTable s c) \<le> cr_endFakeID (clientTable s c) \<and>
     cr_endFakeID (clientTable s c) \<le> range_end (LimitClients s) c True + 1 \<and>
     (\<forall>x. cr_fakeID (clientTable s c) \<le> x \<and> x < cr_endFakeID (clientTable s c) \<longrightarrow> res_stack s x = [])"

lemma upd_fake:
  fixes s :: "('v, 'f, 'w) resdb" and c a b
  defines "s' \<equiv> upd_client c (\<lambda>r. r\<lparr>cr_fakeID := a, cr_endFakeID := b\<rparr>) s"
  shows "has_table s' c = has_table s c" "LimitClients s' = LimitClients s" "res_stack s' = res_stack s"
    "cr_fakeID (clientTable s' c) = a" "cr_endFakeID (clientTable s' c) = b" "client_of s' = client_of s"
    "exceptions s' = exceptions s"
proof -
  show "LimitClients s' = LimitClients s" "cr_fakeID (clientTable s' c) = a" "cr_endFakeID (clientTable s' c) = b"
    "exceptions s' = exceptions s" by (simp_all add: s'_def upd_client_def)
  show co: "client_of s' = client_of s" by (simp add: s'_def upd_client_def client_of_def fun_eq_iff)
  show "res_stack s' = res_stack s" unfolding res_stack_def co by (auto simp: s'_def upd_client_def fun_eq_iff)
  have "cr_inv lim c' (clientTable s' c') = cr_inv lim c' (clientTable s c')" for lim c'
    by (simp add: s'_def upd_client_def cr_inv_def)
  then show "has_table s' c = has_table s c"
    by (simp add: has_table_def res_inv_def) (simp add: s'_def upd_client_def)
qed

lemma GetXIDRange_cong:
  assumes "LimitClients s' = LimitClients s" "\<And>x. hash_of s' c x = hash_of s c x"
    "cr_resources (clientTable s' c) = cr_resources (clientTable s c)" "cr_buckets (clientTable s' c) = cr_buckets (clientTable s c)"
  shows "GetXIDRange c server s' = GetXIDRange c server s"
proof -
  have "id_in_table s' c = id_in_table s c" using assms by (auto simp: id_in_table_def bucket_def fun_eq_iff)
  with assms show ?thesis by (simp add: GetXIDRange_def Let_def)
qed

text \<open>The first step of \<open>FakeClientID\<close>, with the incremented counter.\<close>

lemma FakeClientID_unfold:
  assumes "cr_fakeID (clientTable s c) \<noteq> 0"
  shows "FakeClientID c s =
    (if cr_fakeID (clientTable s c) \<noteq> cr_endFakeID (clientTable s c)
     then Some (Fake (cr_fakeID (clientTable s c))
            (upd_client c (\<lambda>r. r\<lparr>cr_fakeID := cr_fakeID r + 1\<rparr>) s))
     else Option.bind (GetXIDRange c True s) (\<lambda>(rmin, rmax).
       if rmin = 0 \<and> c = 0 then Some FakeFatal
       else if rmin = 0 then
         let i' = clientAsMask (LimitClients s) c OR (SERVER_BIT * 3);
             s2 = upd_client c (\<lambda>r. r\<lparr>cr_fakeID := i' + 1,
                    cr_endFakeID := (i' OR RESOURCE_ID_MASK (LimitClients s)) + 1\<rparr>) (s\<lparr>exceptions := exceptions s @ [c]\<rparr>)
         in if i' = 0 then FakeClientID c s2 else Some (Fake i' s2)
       else Some (Fake rmin (upd_client c (\<lambda>r. r\<lparr>cr_fakeID := rmin + 1, cr_endFakeID := rmax + 1\<rparr>) s))))"
proof -
  let ?s = "upd_client c (\<lambda>r. r\<lparr>cr_fakeID := cr_fakeID r + 1\<rparr>) s"
  have "GetXIDRange c True ?s = GetXIDRange c True s"
    by (rule GetXIDRange_cong) (simp_all add: upd_client_def hash_of_def)
  moreover have "LimitClients ?s = LimitClients s" "exceptions ?s = exceptions s"
    "cr_endFakeID (clientTable ?s c) = cr_endFakeID (clientTable s c)"
    "upd_client c (\<lambda>r. r\<lparr>cr_fakeID := a, cr_endFakeID := b\<rparr>) ?s = upd_client c (\<lambda>r. r\<lparr>cr_fakeID := a, cr_endFakeID := b\<rparr>) s"
    "upd_client c (\<lambda>r. r\<lparr>cr_fakeID := a, cr_endFakeID := b\<rparr>) (?s\<lparr>exceptions := e\<rparr>) =
       upd_client c (\<lambda>r. r\<lparr>cr_fakeID := a, cr_endFakeID := b\<rparr>) (s\<lparr>exceptions := e\<rparr>)" for a b e
    by (simp_all add: upd_client_def)
  ultimately show ?thesis
    using assms by (subst FakeClientID.simps) (cases "GetXIDRange c True s", auto simp: Let_def split: prod.split)
qed

definition exhausted :: "('v, 'f, 'w) resdb \<Rightarrow> nat \<Rightarrow> bool" where
  "exhausted s c \<longleftrightarrow> (\<forall>x. range_start (LimitClients s) c True \<le> x \<and> x \<le> range_end (LimitClients s) c True
     \<longrightarrow> res_stack s x \<noteq> [])"

text \<open>A new range keeps the invariant and leaves the identifier handed out behind.\<close>

lemma fake_inv_range:
  assumes "has_table s c" "c < LimitClients s" "range_start (LimitClients s) c True \<le> i" "i \<le> m"
    "m \<le> range_end (LimitClients s) c True" "\<forall>x. i \<le> x \<and> x \<le> m \<longrightarrow> res_stack s x = []"
  defines "s' \<equiv> upd_client c (\<lambda>r. r\<lparr>cr_fakeID := i + 1, cr_endFakeID := m + 1\<rparr>) s"
  shows "fake_inv s' c" "\<not> (cr_fakeID (clientTable s' c) \<le> i \<and> i < cr_endFakeID (clientTable s' c))"
proof -
  have "lim_ok (LimitClients s)" using assms(1) by (simp add: has_table_def res_inv_def)
  note f = range_facts [OF this assms(2), of True, folded range_end_def]
  have "0 < i" using f(1) assms(3) by auto
  have "0 < m" using \<open>0 < i\<close> assms(4) by auto
  have m: "unat m + 1 < 2 ^ 32" "unat i + 1 < 2 ^ 32" using f(2) assms(4,5) by (auto simp: word_le_nat_alt)
  note wi = word_step [OF \<open>0 < i\<close> m(2)] and wm = word_step [OF \<open>0 < m\<close> m(1)]
  have r: "0 < range_end (LimitClients s) c True" using \<open>0 < m\<close> assms(5) by auto
  have re: "unat (range_end (LimitClients s) c True) + 1 < 2 ^ 32" using f(2) by simp
  have "x < m + 1 \<longleftrightarrow> x \<le> m" for x using wm(2) [of x] by auto
  moreover have "i \<le> i + 1" "\<not> i + 1 \<le> i" using wi(2) [of "i + 1"] wi(2) [of i] by auto
  moreover have "i + 1 \<le> m + 1" "m + 1 \<le> range_end (LimitClients s) c True + 1"
    using wi(2) [of "m + 1"] wm(2) [of "range_end (LimitClients s) c True + 1"] wm(2) [of "m + 1"]
      word_step(2) [OF r re, of "range_end (LimitClients s) c True + 1"] assms(4,5) by auto
  ultimately show "fake_inv s' c" "\<not> (cr_fakeID (clientTable s' c) \<le> i \<and> i < cr_endFakeID (clientTable s' c))"
    using assms(1-6) wi(2) by (auto simp: fake_inv_def s'_def upd_fake)
qed

text \<open>The identifiers still cached are a closed interval inside the range of the client.\<close>

lemma fake_cached:
  assumes "fake_inv s c" "cr_fakeID (clientTable s c) \<noteq> cr_endFakeID (clientTable s c)"
  shows "\<exists>m. cr_endFakeID (clientTable s c) = m + 1 \<and> cr_fakeID (clientTable s c) \<le> m \<and> m \<le> range_end (LimitClients s) c True \<and>
    (\<forall>x. cr_fakeID (clientTable s c) \<le> x \<and> x \<le> m \<longrightarrow> res_stack s x = [])"
proof -
  let ?hi = "range_end (LimitClients s) c True" and ?f = "cr_fakeID (clientTable s c)" and ?e = "cr_endFakeID (clientTable s c)"
  have t: "has_table s c" "c < LimitClients s" "?f \<le> ?e" "?e \<le> ?hi + 1" "\<forall>x. ?f \<le> x \<and> x < ?e \<longrightarrow> res_stack s x = []"
    using assms(1) by (auto simp: fake_inv_def)
  have lim: "lim_ok (LimitClients s)" using t(1) by (simp add: has_table_def res_inv_def)
  have hi: "0 < ?hi" "unat ?hi + 1 < 2 ^ 32" using range_facts(1-3) [OF lim t(2), of True, folded range_end_def] by auto
  have fe: "?f < ?e" using t(3) assms(2) by simp
  have "0 < ?e" using fe by (metis word_gt_0 word_not_simps(1))
  then have "unat (?e - 1) = unat ?e - 1" "0 < unat ?e" by (simp_all add: unat_minus_one unat_gt_0 word_gt_0)
  then have em: "\<And>x. x \<le> ?e - 1 \<longleftrightarrow> x < ?e" by (auto simp: word_le_nat_alt word_less_nat_alt)
  have "?e - 1 < ?e" using em [of "?e - 1"] by blast
  then have "?e - 1 < ?hi + 1" using t(4) by (rule less_le_trans)
  then have "?e - 1 \<le> ?hi" using word_step(2) [OF hi, of "?e - 1"] by auto
  then show ?thesis using em fe t(5) by (intro exI [of _ "?e - 1"]) auto
qed

text \<open>C5. \<open>FakeClientID\<close> returns. Unless every internal identifier of the client is in use, it hands out
  a non-zero identifier of the client's internal range that no resource has, changes no resource, and keeps
  the promise that the identifiers it will hand out next, not counting this one, are unused; when
  they are exhausted the server stops for client 0, and marks any other client for closing.\<close>

theorem FakeClientID_fresh:
  assumes "fake_inv s c"
  shows "\<exists>r. FakeClientID c s = Some r \<and>
    (case r of
       FakeFatal \<Rightarrow> c = 0 \<and> exhausted s c
     | Fake i s' \<Rightarrow>
         if exhausted s c then exceptions s' = exceptions s @ [c]
         else i \<noteq> 0 \<and> client_of s i = c \<and> range_start (LimitClients s) c True \<le> i \<and>
           i \<le> range_end (LimitClients s) c True \<and> res_stack s i = [] \<and> res_stack s' = res_stack s \<and>
           exceptions s' = exceptions s \<and> fake_inv s' c \<and>
           \<not> (cr_fakeID (clientTable s' c) \<le> i \<and> i < cr_endFakeID (clientTable s' c)))"
proof -
  let ?lo = "range_start (LimitClients s) c True" and ?hi = "range_end (LimitClients s) c True"
  let ?f = "cr_fakeID (clientTable s c)" and ?e = "cr_endFakeID (clientTable s c)"
  have t: "has_table s c" "c < LimitClients s" "?lo \<le> ?f" using assms by (auto simp: fake_inv_def)
  have lim: "lim_ok (LimitClients s)" using t(1) by (simp add: has_table_def res_inv_def)
  note rf = range_facts [OF lim t(2), of True, folded range_end_def]
  have lo: "0 < ?lo" using rf(1-3) by auto
  have f0: "?f \<noteq> 0" using t(3) lo by auto
  note unf = FakeClientID_unfold [OF f0]
  show ?thesis
  proof (cases "?f = ?e")
    case False
    then obtain m where e: "?e = m + 1" and le: "?f \<le> m" and mh: "m \<le> ?hi" and un: "\<forall>x. ?f \<le> x \<and> x \<le> m \<longrightarrow> res_stack s x = []"
      using fake_cached [OF assms] by blast
    let ?s' = "upd_client c (\<lambda>r. r\<lparr>cr_fakeID := ?f + 1, cr_endFakeID := m + 1\<rparr>) s"
    have "upd_client c (\<lambda>r. r\<lparr>cr_fakeID := cr_fakeID r + 1\<rparr>) s = ?s'"
      by (simp add: upd_client_def e [symmetric])
    then have "FakeClientID c s = Some (Fake ?f ?s')" using False unf by simp
    moreover have "res_stack s ?f = []" using un le by simp
    moreover have "?f \<le> ?hi" using le mh by simp
    moreover have "\<not> exhausted s c" using calculation t(3) by (auto simp: exhausted_def)
    moreover note fake_inv_range [OF t(1-3) le mh un]
    ultimately show ?thesis using f0 t(3) rf(4) [of ?f] by (auto simp: upd_fake client_of_def)
  next
    case True
    obtain rmin rmax where g: "GetXIDRange c True s = Some (rmin, rmax)"
      "if rmin = 0 then \<forall>x. ?lo \<le> x \<and> x \<le> ?hi \<longrightarrow> res_stack s x \<noteq> []
       else ?lo \<le> rmin \<and> rmin \<le> rmax \<and> rmax \<le> ?hi \<and> (\<forall>x. rmin \<le> x \<and> x \<le> rmax \<longrightarrow> res_stack s x = [])"
      using GetXIDRange_spec [OF t(1,2), of True] by auto
    show ?thesis
    proof (cases "rmin = 0")
      case z: True
      then have ex: "exhausted s c" using g(2) by (simp add: exhausted_def)
      have "bit (SERVER_BIT * 3) 31" by (simp add: SERVER_BIT_def bit_numeral_simps)
      then have "clientAsMask (LimitClients s) c OR (SERVER_BIT * 3) \<noteq> 0" by (metis bit_or_iff bit_0_eq bot_apply bot_bool_def)
      then show ?thesis using unf True g(1) z ex by (auto simp: Let_def upd_client_def)
    next
      case nz: False
      then have r: "?lo \<le> rmin" "rmin \<le> rmax" "rmax \<le> ?hi" "\<forall>x. rmin \<le> x \<and> x \<le> rmax \<longrightarrow> res_stack s x = []"
        using g(2) by auto
      then have "\<not> exhausted s c" by (auto simp: exhausted_def intro: exI [of _ rmin])
      then show ?thesis
        using fake_inv_range [OF t(1,2) r] unf True g(1) nz r rf(4) [of rmin] by (auto simp: upd_fake client_of_def)
    qed
  qed
qed

text \<open>A client starts with all its internal identifiers unused.\<close>

lemma InitClientResources_fake:
  assumes "res_inv s" "InitClientResources alloc types c s = (True, s')" "c < LimitClients s"
  shows "fake_inv s' c"
proof -
  note i = InitClientResources_spec [OF assms(1,2)]
  have lim: "lim_ok (LimitClients s')" using i(1) by (simp add: res_inv_def)
  have c: "c < LimitClients s'" using assms(3) i(4) by simp
  note rf = range_facts [OF lim c, of True, folded range_end_def]
  have e: "cr_fakeID (clientTable s' c) = range_start (LimitClients s') c True"
    "cr_endFakeID (clientTable s' c) = range_end (LimitClients s') c True + 1"
    using assms(2) by (auto simp: InitClientResources_def Let_def upd_client_def range_start_def range_end_def split: if_splits)
  have hi: "0 < range_end (LimitClients s') c True" "unat (range_end (LimitClients s') c True) + 1 < 2 ^ 32"
    using rf(1-3) by auto
  note w = word_step [OF hi]
  have "res_stack s' x = []" if "range_start (LimitClients s') c True \<le> x" "x < range_end (LimitClients s') c True + 1" for x
  proof -
    have "dixClientIdForXID (LimitClients s') x = c" using rf(4) [of x] w(2) [of x] that by auto
    then show ?thesis using i(3) [of x] i(4) by (simp add: client_of_def)
  qed
  moreover have "range_start (LimitClients s') c True \<le> range_end (LimitClients s') c True + 1"
    using rf(3) w(2) [of "range_end (LimitClients s') c True + 1"] by auto
  ultimately show ?thesis using i(1,2) c e by (auto simp: fake_inv_def has_table_def)
qed

lemma example_fake: "fake_inv example_db 1"
proof -
  let ?i = "InitClientResources (\<lambda>_. True) example_types"
  have a: "?i 0 empty_db = (True, snd (?i 0 empty_db))" "?i 1 (snd (?i 0 empty_db)) = (True, example_db)"
    by (simp_all add: InitClientResources_def Let_def example_db_def)
  note b = InitClientResources_spec [OF empty_db_inv a(1)]
  show ?thesis by (rule InitClientResources_fake [OF b(1) a(2)]) (simp add: b(4), simp add: empty_db_def)
qed

theorem FakeClientID_fresh_witness:
  "\<exists>i s'. FakeClientID 1 example_db = Some (Fake i s') \<and> i \<noteq> 0 \<and> client_of example_db i = 1 \<and>
     res_stack example_db i = [] \<and> fake_inv s' 1"
proof -
  have lim: "lim_ok 256" using example_db_spec(1,3) by (metis res_inv_def)
  have "client_of example_db (range_start 256 1 True) = 1" "range_start 256 1 True \<le> range_end 256 1 True"
    using range_facts(3) [OF lim, of 1 True] range_facts(4) [OF lim, of 1 True "range_start 256 1 True"]
    by (simp_all add: client_of_def example_db_spec(3) range_end_def)
  then have "\<not> exhausted example_db 1" using example_db_spec(4) by (auto simp: exhausted_def example_db_spec(3))
  moreover obtain r where r: "FakeClientID 1 example_db = Some r"
    "case r of FakeFatal \<Rightarrow> 1 = (0::nat) \<and> exhausted example_db 1
     | Fake i s' \<Rightarrow> if exhausted example_db 1 then exceptions s' = exceptions example_db @ [1]
         else i \<noteq> 0 \<and> client_of example_db i = 1 \<and> range_start (LimitClients example_db) 1 True \<le> i \<and>
           i \<le> range_end (LimitClients example_db) 1 True \<and> res_stack example_db i = [] \<and>
           res_stack s' = res_stack example_db \<and> exceptions s' = exceptions example_db \<and> fake_inv s' 1 \<and>
           \<not> (cr_fakeID (clientTable s' 1) \<le> i \<and> i < cr_endFakeID (clientTable s' 1))"
    using FakeClientID_fresh [OF example_fake] by blast
  ultimately show ?thesis by (cases r) auto
qed

subsection \<open>Lists of unused identifiers\<close>

lemma xid_list_loop_spec:
  assumes "unat maxid + 1 < 2 ^ 32" "unat i \<le> unat maxid + 1"
  shows "xid_list_loop free count i maxid pids =
    Some (pids @ take (count - length pids) (filter free (map of_nat [unat i ..< unat maxid + 1])))"
  using assms(2)
proof (induction "unat maxid + 1 - unat i" arbitrary: i pids rule: less_induct)
  case less
  show ?case
  proof (cases "length pids < count \<and> i \<le> maxid")
    case True
    then have le: "unat i < unat maxid + 1" by (simp add: word_le_nat_alt)
    then have inc: "unat (i + 1) = unat i + 1" using assms(1) by (intro unat_inc) simp
    have up: "[unat i ..< unat maxid + 1] = unat i # [unat (i + 1) ..< unat maxid + 1]"
      using le inc by (simp add: upt_conv_Cons)
    have "xid_list_loop free count (i + 1) maxid (if free i then pids @ [i] else pids) =
      Some ((if free i then pids @ [i] else pids) @ take (count - length (if free i then pids @ [i] else pids))
         (filter free (map of_nat [unat (i + 1) ..< unat maxid + 1])))"
      by (rule less.hyps) (use le inc in auto)
    moreover have "count - length pids = Suc (count - Suc (length pids))" using True by linarith
    ultimately show ?thesis using True unfolding up by (subst xid_list_loop.simps) simp
  next
    case False
    then consider "count - length pids = 0" | "unat maxid < unat i" by (auto simp: word_le_nat_alt)
    then show ?thesis using False by cases (subst xid_list_loop.simps, auto)+
  qed
qed

definition unused_ids :: "('v, 'f, 'w) resdb \<Rightarrow> xid \<Rightarrow> xid \<Rightarrow> xid list" where
  "unused_ids s lo hi = filter (\<lambda>x. res_stack s x = []) (map of_nat [unat lo ..< unat hi + 1])"

lemma lookup_any:
  assumes "res_inv s" "\<And>x r. r \<in> set (res_stack s x) \<Longrightarrow> res_type r \<noteq> 0" "\<And>x t v mode. xace 0 x t v mode = Success"
  shows "fst (dixLookupResourceByClass xace x RC_ANY (Some 0) mode s) = BadValue \<longleftrightarrow> res_stack s x = []"
proof (cases "res_stack s x")
  case Nil
  then show ?thesis by (simp add: dixLookupResourceByClass_def search_res_stack [OF assms(1)])
next
  case (Cons r rs)
  then have "res_type r \<noteq> 0" using assms(2) [of r x] by simp
  then show ?thesis
    using Cons assms(3) by (simp add: dixLookupResourceByClass_def search_res_stack [OF assms(1)] RC_ANY_def Let_def)
qed

text \<open>\<open>GetXIDList\<close> returns the first \<open>count\<close> identifiers of the client's range, in increasing order, that
  no resource has (for resources of registered types, which are not 0, and a security hook that lets the
  server see everything).\<close>

lemma GetXIDList_unused:
  assumes "res_inv s" "\<And>x r. r \<in> set (res_stack s x) \<Longrightarrow> res_type r \<noteq> 0"
    "\<And>x t v mode. xace 0 x t v mode = Success" "c < LimitClients s" "c \<noteq> 0"
  shows "GetXIDList xace c count s =
    Some (take count (unused_ids s (range_start (LimitClients s) c False) (range_end (LimitClients s) c False)))"
proof -
  let ?lo = "range_start (LimitClients s) c False" and ?hi = "range_end (LimitClients s) c False"
  have lim: "lim_ok (LimitClients s)" using assms(1) by (simp add: res_inv_def)
  have "?lo = clientAsMask (LimitClients s) c" by (simp add: range_start_def)
  note rf = range_facts [OF lim assms(4), of False, folded range_end_def]
  have "unat ?lo \<le> unat ?hi + 1" using rf(3) assms(5) by (simp add: word_le_nat_alt)
  then show ?thesis
    using xid_list_loop_spec [of ?hi ?lo] rf(2) assms(5) lookup_any [of s xace, OF assms(1-3)]
    by (simp add: GetXIDList_def Let_def range_end_def unused_ids_def \<open>?lo = _\<close> [symmetric])
qed

subsection \<open>Types and classes\<close>

text \<open>Classes take bits from the top, types count up from the bottom, and they never meet.\<close>

definition reg_inv :: "('v, 'f, 'w) resdb \<Rightarrow> bool" where
  "reg_inv s \<longleftrightarrow> (\<exists>k \<le> 29. lastResourceClass s = 2 ^ k \<and> TypeMask s = 2 ^ k - 1 \<and>
     9 \<le> unat (lastResourceType s) \<and> unat (lastResourceType s) < 2 ^ k \<and>
     length (resourceTypes s) = unat (lastResourceType s) + 1)"

lemma unat_bit_below:
  fixes w :: restype
  assumes "unat w < 2 ^ k"
  shows "\<not> bit w k"
proof -
  have "take_bit k (unat w) = unat w" using assms by (rule take_bit_nat_eq_self)
  then have "\<not> bit (unat w) k" by (metis bit_take_bit_iff less_irrefl)
  then show ?thesis by (auto simp: bit_unsigned_iff dest: bit_imp_le_length)
qed

lemma and_mask_below:
  fixes w :: restype
  assumes "unat w < 2 ^ k"
  shows "w AND (2 ^ k - 1) = w"
proof -
  have "take_bit k w = w"
    using assms by (simp add: word_unat_eq_iff unsigned_take_bit_eq take_bit_nat_eq_self)
  then show ?thesis by (simp add: take_bit_eq_mask mask_eq_exp_minus_1)
qed

text \<open>Registering a type keeps types and classes apart: a new type is the next number, it shares no bit
  with any class, has its own entry with the given delete function, and leaves the entries of all
  earlier types as they were.\<close>

lemma CreateNewResourceType_registers:
  assumes "reg_inv s" "CreateNewResourceType alloc bytes sub del s = (t, s')"
  shows "reg_inv s' \<and>
    (if t = 0 then s' = s
     else t = lastResourceType s + 1 \<and> t AND lastResourceClass s' = 0 \<and> t AND TypeMask s' = t \<and>
       type_entry s' t = \<lparr>rt_deleteFunc = del, rt_sizeFunc = bytes, rt_findSubResFunc = sub, rt_errorValue = BadValue\<rparr> \<and>
       (\<forall>u. unat (u AND TypeMask s) \<le> unat (lastResourceType s) \<longrightarrow> type_entry s' u = type_entry s u))"
proof -
  obtain k where k: "k \<le> 29" "lastResourceClass s = 2 ^ k" "TypeMask s = 2 ^ k - 1" "9 \<le> unat (lastResourceType s)"
    "unat (lastResourceType s) < 2 ^ k" "length (resourceTypes s) = unat (lastResourceType s) + 1"
    using assms(1) by (auto simp: reg_inv_def)
  let ?n = "lastResourceType s + 1"
  have pw: "(2::nat) ^ k \<le> 2 ^ 29" using k(1) by (intro power_increasing) auto
  then have n: "unat ?n = unat (lastResourceType s) + 1" using k(5) by (intro unat_inc) simp
  show ?thesis
  proof (cases "?n AND lastResourceClass s \<noteq> 0 \<or> \<not> alloc")
    case True
    then have "t = 0" "s' = s" using assms(2) by (auto simp: CreateNewResourceType_def Let_def split: if_splits)
    then show ?thesis using assms(1) by simp
  next
    case False
    then have nb: "\<not> bit ?n k" "alloc" using k(2) by (auto simp: and_exp_eq_0_iff_not_bit)
    have "unat ?n \<noteq> 2 ^ k"
    proof
      assume "unat ?n = 2 ^ k"
      then have "bit (unat ?n) k" by (simp add: bit_exp_iff)
      then show False using nb(1) by (simp add: bit_unsigned_iff)
    qed
    then have lt: "unat ?n < 2 ^ k" using n k(5) by simp
    have nz: "?n \<noteq> 0" using n by auto
    have s': "t = ?n" "s' = s\<lparr>lastResourceType := ?n, resourceTypes := take (unat ?n) (resourceTypes s) @
        [\<lparr>rt_deleteFunc = del, rt_sizeFunc = bytes, rt_findSubResFunc = sub, rt_errorValue = BadValue\<rparr>]\<rparr>"
      using assms(2) False by (auto simp: CreateNewResourceType_def Let_def split: if_splits)
    have "reg_inv s'" unfolding reg_inv_def using k n lt s' by (intro exI [of _ k]) simp
    moreover have "t AND lastResourceClass s' = 0" using False s' k by auto
    moreover have "t AND TypeMask s' = t" using and_mask_below [OF lt] s' k by simp
    moreover have "type_entry s' t = \<lparr>rt_deleteFunc = del, rt_sizeFunc = bytes, rt_findSubResFunc = sub, rt_errorValue = BadValue\<rparr>"
      using calculation(3) s' n k(6) by (simp add: type_entry_def nth_append)
    moreover have "type_entry s' u = type_entry s u" if "unat (u AND TypeMask s) \<le> unat (lastResourceType s)" for u
      using that s' n k(6) by (simp add: type_entry_def nth_append)
    ultimately show ?thesis using s'(1) nz by simp
  qed
qed

lemma example_registry: "reg_inv example_db" "lastResourceType example_db = 9"
proof -
  show "lastResourceType example_db = 9"
    by (simp add: example_db_def InitClientResources_def Let_def upd_client_def X11_RESTYPE_LASTPREDEF_def)
  show "reg_inv example_db" unfolding reg_inv_def
    by (rule exI [of _ 29]) (simp add: example_db_def InitClientResources_def Let_def upd_client_def
        X11_RESTYPE_LASTPREDEF_def RC_LASTPREDEF_def RC_NEVERRETAIN_def example_types_def)
qed

text \<open>Creating a class halves the space of types only when no registered type needs the bit: the new
  class is a single bit no registered type has, and the entry of every registered type stays
  reachable.\<close>

lemma CreateNewResourceClass_disjoint:
  assumes "reg_inv s" "CreateNewResourceClass s = (c, s')"
  shows "reg_inv s' \<and>
    (if c = 0 then s' = s
     else c = drop_bit 1 (lastResourceClass s) \<and>
       (\<forall>t. unat t \<le> unat (lastResourceType s) \<longrightarrow> t AND c = 0 \<and> type_entry s' t = type_entry s t))"
proof -
  obtain k where k: "k \<le> 29" "lastResourceClass s = 2 ^ k" "TypeMask s = 2 ^ k - 1" "9 \<le> unat (lastResourceType s)"
    "unat (lastResourceType s) < 2 ^ k" "length (resourceTypes s) = unat (lastResourceType s) + 1"
    using assms(1) by (auto simp: reg_inv_def)
  have "k \<noteq> 0" using k(4,5) by (cases k) auto
  then obtain m where m: "k = Suc m" by (cases k) auto
  have "drop_bit 1 (push_bit k 1 :: restype) = push_bit m 1"
    using k(1) m by (intro bit_word_eqI) (auto simp: bit_simps)
  then have d: "drop_bit 1 (lastResourceClass s) = 2 ^ m" using k(2) by (simp add: push_bit_eq_mult)
  have nz: "(2 ^ m :: restype) \<noteq> 0" using k(1) m by auto
  show ?thesis
  proof (cases "bit (lastResourceType s) m")
    case True
    then have "c = 0 \<and> s' = s"
      using assms(2) d by (auto simp: CreateNewResourceClass_def Let_def and_exp_eq_0_iff_not_bit and.commute split: if_splits)
    then show ?thesis using assms(1) by simp
  next
    case False
    have s': "c = 2 ^ m" "s' = s\<lparr>lastResourceClass := 2 ^ m, TypeMask := 2 ^ m - 1\<rparr>"
      using assms(2) d False by (auto simp: CreateNewResourceClass_def Let_def and_exp_eq_0_iff_not_bit and.commute split: if_splits)
    have lt: "unat (lastResourceType s) < 2 ^ m"
    proof (rule ccontr)
      assume "\<not> unat (lastResourceType s) < 2 ^ m"
      then have "unat (lastResourceType s) div 2 ^ m = 1" using k(5) m by (simp add: div_nat_eqI)
      then have "bit (unat (lastResourceType s)) m" by (simp add: bit_iff_odd)
      then show False using False by (simp add: bit_unsigned_iff)
    qed
    have "reg_inv s'" unfolding reg_inv_def using k m lt s' by (intro exI [of _ m]) simp
    moreover have "t AND c = 0 \<and> type_entry s' t = type_entry s t" if "unat t \<le> unat (lastResourceType s)" for t
    proof -
      have "unat t < 2 ^ m" "unat t < 2 ^ k" using that lt k(5) by simp_all
      then show ?thesis
        using s' k(3) and_mask_below [of t] unat_bit_below [of t m]
        by (simp add: type_entry_def and_exp_eq_0_iff_not_bit)
    qed
    ultimately show ?thesis using s'(1) d nz by simp
  qed
qed

end
