(* ===== verification/Properties.thy ===== *)
theory Properties
  imports Atoms ServerTime
begin

text \<open>
  Window properties (dix/property.c): lookup, change (replace, append, prepend), delete, get with
  offset, length and deletion, list, rotate, and the events and variable-refresh notifications they
  send. The environment of the handlers is an argument: the security hook's decision on a
  property, the window lookup, the property filter callback, memory allocation, the clock, and the
  screens of the Xinerama extension. A pointer to a property is the property's name: a window has
  at most one property of a name.
\<close>

subsection \<open>State\<close>

record Property =
  propertyName :: atom
  p_type :: atom
  p_format :: nat
  p_size :: "32 word"
  p_data :: "8 word list"

datatype prop_state = PropertyNewValue | PropertyDelete

record PropertyEvent =
  ev_window :: xid
  ev_state :: prop_state
  ev_atom :: atom
  ev_time :: "32 word"

record pstate =
  wprops :: "xid \<Rightarrow> Property list"
  p_atoms :: atoms
  p_time :: TimeStamp
  p_events :: "PropertyEvent list"
  vrr_log :: "(xid \<times> 32 word) list"

record PropertyFilterParam =
  f_client :: nat
  f_window :: xid
  f_property :: atom
  f_type :: atom
  f_atoms :: "atom list"
  f_nPositions :: int
  f_skip :: bool
  f_status :: status
  f_access_mode :: mask
  f_format :: nat
  f_mode :: nat
  f_len :: nat
  f_value :: "8 word list"
  f_sendevent :: bool
  f_delete :: bool
  f_longOffset :: card32
  f_longLength :: card32

datatype prop_alloc = AllocOptional | AllocProperty | AllocData nat | AllocReply | AllocRotate

record prop_env =
  xprop :: "nat \<Rightarrow> xid \<Rightarrow> Property \<Rightarrow> mask \<Rightarrow> status"
  lookupWindow :: "xid \<Rightarrow> nat \<Rightarrow> mask \<Rightarrow> status"
  pfilter :: "PropertyFilterParam \<Rightarrow> PropertyFilterParam"
  palloc :: "prop_alloc \<Rightarrow> bool"
  tick :: "TimeStamp \<Rightarrow> TimeStamp"
  noPanoramiXExtension :: bool
  panoramiXWindow :: "xid \<Rightarrow> nat \<Rightarrow> xid list option"

definition PropModeReplace :: nat where "PropModeReplace = 0"
definition PropModePrepend :: nat where "PropModePrepend = 1"
definition PropModeAppend :: nat where "PropModeAppend = 2"
definition AnyPropertyType :: atom where "AnyPropertyType = 0"

definition get_prop :: "pstate \<Rightarrow> xid \<Rightarrow> atom \<Rightarrow> Property option" where
  "get_prop s w n = List.find (\<lambda>p. propertyName p = n) (wprops s w)"

fun upd_first :: "('a \<Rightarrow> bool) \<Rightarrow> ('a \<Rightarrow> 'a) \<Rightarrow> 'a list \<Rightarrow> 'a list" where
  "upd_first P f [] = []"
| "upd_first P f (x # xs) = (if P x then f x # xs else x # upd_first P f xs)"

fun del_first :: "('a \<Rightarrow> bool) \<Rightarrow> 'a list \<Rightarrow> 'a list" where
  "del_first P [] = []"
| "del_first P (x # xs) = (if P x then xs else x # del_first P xs)"

definition set_props :: "xid \<Rightarrow> Property list \<Rightarrow> pstate \<Rightarrow> pstate" where
  "set_props w ps s = s\<lparr>wprops := (wprops s)(w := ps)\<rparr>"

subsection \<open>Lookup and notification\<close>

definition dixLookupProperty :: "prop_env \<Rightarrow> xid \<Rightarrow> atom \<Rightarrow> nat \<Rightarrow> mask \<Rightarrow> pstate \<Rightarrow> status \<times> Property option" where
  "dixLookupProperty e w n client access_mode s =
     (case get_prop s w n of
        None \<Rightarrow> (BadMatch, None)
      | Some p \<Rightarrow> (xprop e client w p access_mode, Some p))"

definition setVRRMode :: "xid \<Rightarrow> 32 word \<Rightarrow> pstate \<Rightarrow> pstate" where
  "setVRRMode w mode s = s\<lparr>vrr_log := vrr_log s @ [(w, mode)]\<rparr>"

text \<open>The first 32-bit item of the data, in the byte order of a little-endian host.\<close>

definition card32_at :: "8 word list \<Rightarrow> 32 word" where
  "card32_at d = ucast (d ! 0) OR push_bit 8 (ucast (d ! 1)) OR push_bit 16 (ucast (d ! 2)) OR push_bit 24 (ucast (d ! 3))"

definition notifyVRRMode :: "prop_env \<Rightarrow> nat \<Rightarrow> xid \<Rightarrow> prop_state \<Rightarrow> Property \<Rightarrow> pstate \<Rightarrow> pstate" where
  "notifyVRRMode e client w st p s =
     (if NameForAtom (propertyName p) (p_atoms s) \<noteq> Some ''_VARIABLE_REFRESH'' \<or> p_format p \<noteq> 32 \<or> p_size p \<noteq> 1
      then s
      else
        let mode = (if st = PropertyNewValue then card32_at (p_data p) else 0) in
        if \<not> noPanoramiXExtension e then
          (case panoramiXWindow e w client of
             None \<Rightarrow> setVRRMode w mode s
           | Some ws \<Rightarrow>
               fold (\<lambda>v s. if lookupWindow e v client DixSetPropAccess = Success then setVRRMode v mode s else s)
                 (rev ws) s)
        else s)"

definition deliverPropertyNotifyEvent :: "prop_env \<Rightarrow> xid \<Rightarrow> prop_state \<Rightarrow> Property \<Rightarrow> pstate \<Rightarrow> pstate" where
  "deliverPropertyNotifyEvent e w st p s =
     (let t = tick e (p_time s) in
      s\<lparr>p_time := t,
        p_events := p_events s @ [\<lparr>ev_window = w, ev_state = st, ev_atom = propertyName p, ev_time = milliseconds t\<rparr>]\<rparr>)"

definition notify_prop :: "prop_env \<Rightarrow> nat \<Rightarrow> xid \<Rightarrow> prop_state \<Rightarrow> Property \<Rightarrow> pstate \<Rightarrow> pstate" where
  "notify_prop e client w st p s = notifyVRRMode e client w st p (deliverPropertyNotifyEvent e w st p s)"

definition UpdateCurrentTime :: "prop_env \<Rightarrow> pstate \<Rightarrow> pstate" where
  "UpdateCurrentTime e s = s\<lparr>p_time := tick e (p_time s)\<rparr>"

subsection \<open>Changing a property\<close>

definition memcpy :: "'a list \<Rightarrow> nat \<Rightarrow> 'a list \<Rightarrow> nat \<Rightarrow> 'a list" where
  "memcpy buf off src n = take off buf @ take n src @ drop (off + n) buf"

text \<open>\<open>totalSize\<close> is an \<open>int\<close>: the product of the number of units and their size, cut to 32 bits; as
  a size it is taken at 64 bits.\<close>

definition total_size :: "nat \<Rightarrow> nat \<Rightarrow> int" where
  "total_size len sizeInBytes = sint (of_nat (len * sizeInBytes) :: 32 word)"

definition size_t :: "int \<Rightarrow> nat" where
  "size_t x = nat (x mod 2 ^ 64)"

text \<open>The size in bytes of the old data, a product at 32 bits.\<close>

definition old_bytes :: "Property \<Rightarrow> nat \<Rightarrow> nat" where
  "old_bytes p sizeInBytes = unat (p_size p * of_nat sizeInBytes)"

definition new_data :: "int \<Rightarrow> 8 word list \<Rightarrow> 8 word list" where
  "new_data totalSize val = memcpy (replicate (size_t totalSize) 0) 0 val (size_t totalSize)"

text \<open>The new contents for each mode, and the allocation they need (none: nothing changes).\<close>

definition changed_prop ::
    "Property \<Rightarrow> atom \<Rightarrow> nat \<Rightarrow> nat \<Rightarrow> nat \<Rightarrow> 8 word list \<Rightarrow> Property \<times> nat option" where
  "changed_prop p type format mode len val =
     (let sizeInBytes = format div 8;
          totalSize = total_size len sizeInBytes;
          old = old_bytes p sizeInBytes;
          bufsize = (unat (p_size p) + len) * sizeInBytes
      in if mode = PropModeReplace then
           (p\<lparr>p_data := new_data totalSize val, p_size := of_nat len, p_type := type, p_format := format\<rparr>,
            if totalSize \<noteq> 0 then Some (size_t totalSize) else None)
         else if len = 0 then (p, None)
         else if mode = PropModeAppend then
           (p\<lparr>p_data := memcpy (memcpy (replicate bufsize 0) 0 (p_data p) old) old val (size_t totalSize),
              p_size := p_size p + of_nat len\<rparr>, Some bufsize)
         else if mode = PropModePrepend then
           (p\<lparr>p_data := memcpy (memcpy (replicate bufsize 0) (size_t totalSize) (p_data p) old) 0 val (size_t totalSize),
              p_size := p_size p + of_nat len\<rparr>, Some bufsize)
         else (p, None))"

definition dixChangeWindowProperty ::
    "prop_env \<Rightarrow> nat \<Rightarrow> xid \<Rightarrow> atom \<Rightarrow> atom \<Rightarrow> nat \<Rightarrow> nat \<Rightarrow> nat \<Rightarrow> 8 word list \<Rightarrow> bool \<Rightarrow> pstate \<Rightarrow> status \<times> pstate" where
  "dixChangeWindowProperty e client w property type format mode len val sendevent s =
     (let totalSize = total_size len (format div 8);
          access_mode = (if mode = PropModeReplace then DixWriteAccess else DixBlendAccess);
          notify = (\<lambda>p s. (Success, if sendevent then notify_prop e client w PropertyNewValue p s else s))
      in case dixLookupProperty e w property client access_mode s of
           (rc, found) \<Rightarrow>
             if rc = BadMatch then
               (if \<not> palloc e AllocOptional then (BadAlloc, s)
                else if \<not> palloc e AllocProperty then (BadAlloc, s)
                else if totalSize \<noteq> 0 \<and> \<not> palloc e (AllocData (size_t totalSize)) then (BadAlloc, s)
                else
                  let p = \<lparr>propertyName = property, p_type = type, p_format = format, p_size = of_nat len,
                           p_data = new_data totalSize val\<rparr>;
                      rc' = xprop e client w p (DixCreateAccess OR DixWriteAccess)
                  in if rc' \<noteq> Success then (rc', s)
                     else notify p (set_props w (p # wprops s w) s))
             else if rc = Success then
               (case found of
                  None \<Rightarrow> (rc, s)
                | Some p \<Rightarrow>
                    if format \<noteq> p_format p \<and> mode \<noteq> PropModeReplace then (BadMatch, s)
                    else if p_type p \<noteq> type \<and> mode \<noteq> PropModeReplace then (BadMatch, s)
                    else
                      case changed_prop p type format mode len val of
                        (p', need) \<Rightarrow>
                          if (case need of None \<Rightarrow> False | Some n \<Rightarrow> \<not> palloc e (AllocData n)) then (BadAlloc, s)
                          else
                            let rc' = xprop e client w p' (access_mode OR DixPostAccess) in
                            if rc' \<noteq> Success then (rc', s)
                            else notify p' (set_props w (upd_first (\<lambda>q. propertyName q = property) (\<lambda>_. p') (wprops s w)) s))
             else (rc, s))"

text \<open>The filter parameters a request starts with; fields the request does not use are 0.\<close>

definition empty_param :: "nat \<Rightarrow> xid \<Rightarrow> mask \<Rightarrow> PropertyFilterParam" where
  "empty_param client w access_mode =
     \<lparr>f_client = client, f_window = w, f_property = 0, f_type = 0, f_atoms = [], f_nPositions = 0,
      f_skip = False, f_status = Success, f_access_mode = access_mode, f_format = 0, f_mode = 0, f_len = 0,
      f_value = [], f_sendevent = False, f_delete = False, f_longOffset = 0, f_longLength = 0\<rparr>"

record xChangePropertyReq =
  cp_window :: xid
  cp_property :: atom
  cp_type :: atom
  cp_format :: card8
  cp_mode :: card8
  cp_nUnits :: card32
  cp_data :: "8 word list"

text \<open>A \<open>char\<close> stored as error value is sign-extended.\<close>

definition char_error :: "card8 \<Rightarrow> 32 word" where
  "char_error c = scast c"

definition sz_xChangePropertyReq :: nat where "sz_xChangePropertyReq = 24"
definition sz_xGetPropertyReq :: nat where "sz_xGetPropertyReq = 24"
definition sz_xRotatePropertiesReq :: nat where "sz_xRotatePropertiesReq = 12"
definition sz_xDeletePropertyReq :: nat where "sz_xDeletePropertyReq = 12"
definition sz_xResourceReq :: nat where "sz_xResourceReq = 8"

definition ProcChangeProperty ::
    "prop_env \<Rightarrow> nat \<Rightarrow> nat \<Rightarrow> xChangePropertyReq \<Rightarrow> pstate \<Rightarrow> unit response \<times> pstate" where
  "ProcChangeProperty e client req_len r s0 =
     (if \<not> REQUEST_AT_LEAST_SIZE sz_xChangePropertyReq req_len then (Err BadLength None, s0)
      else
        let s = UpdateCurrentTime e s0;
            format = unat (cp_format r); mode = unat (cp_mode r); len = unat (cp_nUnits r)
        in if mode \<noteq> PropModeReplace \<and> mode \<noteq> PropModeAppend \<and> mode \<noteq> PropModePrepend
           then (Err BadValue (Some (char_error (cp_mode r))), s)
           else if format \<noteq> 8 \<and> format \<noteq> 16 \<and> format \<noteq> 32 then (Err BadValue (Some (char_error (cp_format r))), s)
           else if len > bytes_to_int32 (0xffffffff - sz_xChangePropertyReq) then (Err BadLength None, s)
           else if \<not> REQUEST_FIXED_SIZE sz_xChangePropertyReq (len * (format div 8)) req_len then (Err BadLength None, s)
           else if \<not> ValidAtom (cp_property r) (p_atoms s) then (Err BadAtom (Some (cp_property r)), s)
           else if \<not> ValidAtom (cp_type r) (p_atoms s) then (Err BadAtom (Some (cp_type r)), s)
           else
             let p = pfilter e ((empty_param client (cp_window r) DixWriteAccess)
                       \<lparr>f_property := cp_property r, f_type := cp_type r, f_format := format, f_mode := mode,
                        f_len := len, f_value := cp_data r, f_sendevent := True\<rparr>)
             in if f_skip p then (status_response (f_status p) None, s)
                else
                  let err = lookupWindow e (f_window p) (f_client p) DixSetPropAccess in
                  if err \<noteq> Success then (Err err (Some (f_window p)), s)
                  else
                    case dixChangeWindowProperty e (f_client p) (f_window p) (f_property p) (f_type p) (f_format p)
                           (f_mode p) (f_len p) (f_value p) (f_sendevent p) s of
                      (rc, s') \<Rightarrow> (status_response rc (Some (f_property p)), s'))"

subsection \<open>Deleting\<close>

definition DeleteProperty :: "prop_env \<Rightarrow> nat \<Rightarrow> xid \<Rightarrow> atom \<Rightarrow> pstate \<Rightarrow> status \<times> pstate" where
  "DeleteProperty e client w n s =
     (case dixLookupProperty e w n client DixDestroyAccess s of
        (rc, found) \<Rightarrow>
          if rc = BadMatch then (Success, s)
          else if rc = Success then
            (case found of None \<Rightarrow> (rc, s)
             | Some p \<Rightarrow>
                 (rc, notify_prop e client w PropertyDelete p
                        (set_props w (del_first (\<lambda>q. propertyName q = n) (wprops s w)) s)))
          else (rc, s))"

definition DeleteAllWindowProperties :: "prop_env \<Rightarrow> xid \<Rightarrow> pstate \<Rightarrow> pstate" where
  "DeleteAllWindowProperties e w s =
     set_props w [] (fold (deliverPropertyNotifyEvent e w PropertyDelete) (wprops s w) s)"

definition ProcDeleteProperty :: "prop_env \<Rightarrow> nat \<Rightarrow> nat \<Rightarrow> xid \<Rightarrow> atom \<Rightarrow> pstate \<Rightarrow> unit response \<times> pstate" where
  "ProcDeleteProperty e client req_len w property s0 =
     (if \<not> REQUEST_SIZE_MATCH sz_xDeletePropertyReq req_len then (Err BadLength None, s0)
      else
        let s = UpdateCurrentTime e s0 in
        if \<not> ValidAtom property (p_atoms s) then (Err BadAtom (Some property), s)
        else
          let p = pfilter e ((empty_param client w DixRemoveAccess)\<lparr>f_property := property\<rparr>) in
          if f_skip p then (status_response (f_status p) None, s)
          else
            let rc = lookupWindow e (f_window p) (f_client p) DixSetPropAccess in
            if rc \<noteq> Success then (Err rc (Some (f_window p)), s)
            else
              case DeleteProperty e (f_client p) (f_window p) (f_property p) s of
                (rc', s') \<Rightarrow> (status_response rc' (Some (f_property p)), s'))"

subsection \<open>Reading\<close>

record xGetPropertyReq =
  gp_window :: xid
  gp_property :: atom
  gp_type :: atom
  gp_delete :: card8
  gp_longOffset :: card32
  gp_longLength :: card32

record xGetPropertyReply =
  r_bytesAfter :: "32 word"
  r_format :: nat
  r_nItems :: "32 word"
  r_propertyType :: atom
  r_data :: "8 word list"

text \<open>The byte range a request selects: \<open>longOffset << 2\<close> and \<open>4 * longLength\<close> are computed at 32
  bits, then widened.\<close>

definition prop_bytes :: "Property \<Rightarrow> nat" where
  "prop_bytes p = unat (of_nat (p_format p div 8) * p_size p :: 32 word)"

definition get_ind :: "card32 \<Rightarrow> nat" where
  "get_ind longOffset = unat (push_bit 2 longOffset)"

definition get_len :: "Property \<Rightarrow> nat \<Rightarrow> card32 \<Rightarrow> nat" where
  "get_len p ind longLength = min (prop_bytes p - ind) (unat (4 * longLength))"

text \<open>The data written to the reply: whole items of the property's format.\<close>

definition reply_data :: "Property \<Rightarrow> nat \<Rightarrow> nat \<Rightarrow> 8 word list" where
  "reply_data p ind len =
     (let item = (if p_format p = 32 then 4 else if p_format p = 16 then 2 else 1)
      in take (len div item * item) (drop ind (p_data p)))"

definition ProcGetProperty ::
    "prop_env \<Rightarrow> nat \<Rightarrow> nat \<Rightarrow> xGetPropertyReq \<Rightarrow> pstate \<Rightarrow> xGetPropertyReply response \<times> pstate" where
  "ProcGetProperty e client req_len r s =
     (if \<not> REQUEST_SIZE_MATCH sz_xGetPropertyReq req_len then (Err BadLength None, s)
      else if \<not> ValidAtom (gp_property r) (p_atoms s) then (Err BadAtom (Some (gp_property r)), s)
      else if gp_delete r \<noteq> 1 \<and> gp_delete r \<noteq> 0 then (Err BadValue (Some (ucast (gp_delete r))), s)
      else if gp_type r \<noteq> AnyPropertyType \<and> \<not> ValidAtom (gp_type r) (p_atoms s)
        then (Err BadAtom (Some (gp_type r)), s)
      else
        let p = pfilter e ((empty_param client (gp_window r) DixReadAccess)
                  \<lparr>f_property := gp_property r, f_type := gp_type r, f_delete := (gp_delete r \<noteq> 0),
                   f_longOffset := gp_longOffset r, f_longLength := gp_longLength r\<rparr>)
        in if f_skip p then (case f_status p of Success \<Rightarrow> (Done, s) | rc \<Rightarrow> (Err rc None, s))
           else
             let s1 = (if f_delete p then UpdateCurrentTime e s else s);
                 win_mode = (if f_delete p then DixGetPropAccess OR DixSetPropAccess else DixGetPropAccess);
                 prop_mode = (if f_delete p then DixReadAccess OR DixDestroyAccess else DixReadAccess);
                 w = f_window p;
                 rc = lookupWindow e w (f_client p) win_mode
             in if rc \<noteq> Success then (Err rc (Some w), s1)
                else
                  case dixLookupProperty e w (f_property p) (f_client p) prop_mode s1 of
                    (rc', found) \<Rightarrow>
                      if rc' = BadMatch then
                        (Reply \<lparr>r_bytesAfter = 0, r_format = 0, r_nItems = 0, r_propertyType = 0, r_data = []\<rparr>, s1)
                      else if rc' \<noteq> Success then (Err rc' (Some (f_property p)), s1)
                      else
                        case found of None \<Rightarrow> (Err BadMatch None, s1)
                        | Some prop \<Rightarrow>
                            if f_type p \<noteq> p_type prop \<and> f_type p \<noteq> AnyPropertyType then
                              (Reply \<lparr>r_bytesAfter = p_size prop, r_format = p_format prop, r_nItems = 0,
                                      r_propertyType = p_type prop, r_data = []\<rparr>, s1)
                            else
                              let n = prop_bytes prop;
                                  ind = get_ind (f_longOffset p)
                              in if n < ind then (Err BadValue (Some (f_longOffset p)), s1)
                                 else
                                   let len = get_len prop ind (f_longLength p);
                                       bytesAfter = of_nat (n - (ind + len)) :: 32 word;
                                       remove = f_delete p \<and> bytesAfter = 0;
                                       s2 = (if remove then notify_prop e client w PropertyDelete prop s1 else s1)
                                   in if \<not> palloc e AllocReply then (Err BadAlloc None, s2)
                                      else
                                        (Reply \<lparr>r_bytesAfter = bytesAfter, r_format = p_format prop,
                                                r_nItems = of_nat (len div (p_format prop div 8)),
                                                r_propertyType = p_type prop, r_data = reply_data prop ind len\<rparr>,
                                         if remove
                                         then set_props w (del_first (\<lambda>q. propertyName q = f_property p) (wprops s2 w)) s2
                                         else s2))"

definition ProcListProperties :: "prop_env \<Rightarrow> nat \<Rightarrow> nat \<Rightarrow> xid \<Rightarrow> pstate \<Rightarrow> atom list response" where
  "ProcListProperties e client req_len w s =
     (if \<not> REQUEST_SIZE_MATCH sz_xResourceReq req_len then Err BadLength None
      else
        let rc = lookupWindow e w client DixListPropAccess in
        if rc \<noteq> Success then Err rc (Some w)
        else Reply (map propertyName
               (filter (\<lambda>p. xprop e client w p DixGetAttrAccess = Success) (wprops s w))))"

subsection \<open>Rotating\<close>

text \<open>The checks of all atoms before anything moves; the properties found, in the order of the atoms.\<close>

fun rotate_collect :: "prop_env \<Rightarrow> nat \<Rightarrow> xid \<Rightarrow> atom list \<Rightarrow> pstate \<Rightarrow> (status \<times> 32 word option) + Property list" where
  "rotate_collect e client w [] s = Inr []"
| "rotate_collect e client w (a # as) s =
     (if \<not> ValidAtom a (p_atoms s) then Inl (BadAtom, Some a)
      else if a \<in> set as then Inl (BadMatch, None)
      else
        case dixLookupProperty e w a client (DixReadAccess OR DixWriteAccess) s of
          (rc, found) \<Rightarrow>
            if rc \<noteq> Success then Inl (rc, Some a)
            else
              case found of None \<Rightarrow> Inl (BadMatch, Some a)
              | Some p \<Rightarrow>
                  (case rotate_collect e client w as s of
                     Inl err \<Rightarrow> Inl err
                   | Inr ps \<Rightarrow> Inr (p # ps)))"

function norm_delta :: "nat \<Rightarrow> int \<Rightarrow> int" where
  "norm_delta n d = (if d < 0 \<and> 0 < n then norm_delta n (d + int n) else d)"
  by pat_completeness auto
termination by (relation "measure (\<lambda>(n, d). nat (- d))") auto

declare norm_delta.simps [simp del]

definition take_value :: "Property \<Rightarrow> Property \<Rightarrow> Property" where
  "take_value from to = to\<lparr>p_type := p_type from, p_format := p_format from, p_size := p_size from, p_data := p_data from\<rparr>"

definition rotate_step ::
    "prop_env \<Rightarrow> nat \<Rightarrow> xid \<Rightarrow> atom list \<Rightarrow> Property list \<Rightarrow> int \<Rightarrow> nat \<Rightarrow> pstate \<Rightarrow> pstate" where
  "rotate_step e client w atoms saved delta i s =
     (let j = nat ((int i + delta) mod int (length atoms));
          s1 = (case get_prop s w (atoms ! i) of None \<Rightarrow> s | Some p \<Rightarrow> notify_prop e client w PropertyNewValue p s)
      in set_props w (upd_first (\<lambda>q. propertyName q = atoms ! j) (take_value (saved ! i)) (wprops s1 w)) s1)"

text \<open>\<open>atoms\<close> are the atoms of the request, \<open>nPositions\<close> its signed 16-bit field.\<close>

definition ProcRotateProperties ::
    "prop_env \<Rightarrow> nat \<Rightarrow> nat \<Rightarrow> xid \<Rightarrow> atom list \<Rightarrow> int \<Rightarrow> pstate \<Rightarrow> unit response \<times> pstate" where
  "ProcRotateProperties e client req_len w atoms nPositions s0 =
     (if \<not> REQUEST_AT_LEAST_SIZE sz_xRotatePropertiesReq req_len then (Err BadLength None, s0)
      else if \<not> REQUEST_FIXED_SIZE sz_xRotatePropertiesReq (4 * length atoms) req_len then (Err BadLength None, s0)
      else
        let s = UpdateCurrentTime e s0;
            p = pfilter e ((empty_param client w DixWriteAccess)\<lparr>f_atoms := atoms, f_nPositions := nPositions\<rparr>)
        in if f_skip p then (status_response (f_status p) None, s)
           else
             let rc = lookupWindow e (f_window p) (f_client p) DixSetPropAccess in
             if rc \<noteq> Success \<or> length atoms = 0 then (status_response rc (Some (f_window p)), s)
             else if \<not> palloc e AllocRotate then (Err BadAlloc None, s)
             else
               case rotate_collect e (f_client p) (f_window p) (f_atoms p) s of
                 Inl (rc', err) \<Rightarrow> (Err rc' err, s)
               | Inr saved \<Rightarrow>
                   let n = length (f_atoms p); delta = f_nPositions p in
                   if \<bar>delta\<bar> mod int n \<noteq> 0 then
                     (Done, fold (rotate_step e client (f_window p) (f_atoms p) saved (norm_delta n delta)) [0 ..< n] s)
                   else (Done, s))"

end
