(* ===== verification/PropertyLaws.thy ===== *)
theory PropertyLaws
  imports Properties
begin

text \<open>
  Laws of window properties: the invariant of a window's property list, what every kind of change
  does to the value, partial reads, deletion and rotation.
\<close>

subsection \<open>Lists of properties\<close>

abbreviation named :: "atom \<Rightarrow> Property \<Rightarrow> bool" where
  "named n \<equiv> \<lambda>q. propertyName q = n"

lemma find_upd_first:
  assumes "\<And>x. propertyName (f x) = propertyName x"
  shows "List.find (named m) (upd_first (named n) f ps) =
    (if m = n then map_option f (List.find (named n) ps) else List.find (named m) ps)"
  by (induction ps) (auto simp: assms)

lemma names_upd_first:
  "(\<And>x. propertyName (f x) = propertyName x) \<Longrightarrow> map propertyName (upd_first (named n) f ps) = map propertyName ps"
  by (induction ps) auto

lemma set_upd_first: "set (upd_first P f ps) \<subseteq> set ps \<union> f ` {x \<in> set ps. P x}"
  by (induction ps) auto

lemma find_del_first:
  "distinct (map propertyName ps) \<Longrightarrow> List.find (named m) (del_first (named n) ps) =
    (if m = n then None else List.find (named m) ps)"
proof (induction ps)
  case (Cons p ps)
  then have "List.find (named (propertyName p)) ps = None" by (simp add: find_None_iff image_iff) metis
  with Cons show ?case by auto
qed simp

lemma set_del_first: "set (del_first P ps) \<subseteq> set ps"
  by (induction ps) auto

lemma distinct_del_first: "distinct (map propertyName ps) \<Longrightarrow> distinct (map propertyName (del_first P ps))"
proof (induction ps)
  case (Cons p ps)
  then have "propertyName p \<notin> propertyName ` set (del_first P ps)" using set_del_first [of P ps] by auto
  with Cons show ?case by auto
qed simp

lemma notify_simps [simp]:
  "wprops (notify_prop e c w st p s) = wprops s" "p_atoms (notify_prop e c w st p s) = p_atoms s"
  "get_prop (notify_prop e c w st p s) = get_prop s"
proof -
  have v: "wprops (notifyVRRMode e c w st p t) = wprops t \<and> p_atoms (notifyVRRMode e c w st p t) = p_atoms t" for t
  proof -
    have "wprops (fold (\<lambda>v s. if lookupWindow e v c DixSetPropAccess = Success then setVRRMode v mode s else s) ws u) = wprops u \<and>
      p_atoms (fold (\<lambda>v s. if lookupWindow e v c DixSetPropAccess = Success then setVRRMode v mode s else s) ws u) = p_atoms u"
      for ws mode u
      by (induction ws arbitrary: u) (auto simp: setVRRMode_def)
    then show ?thesis by (auto simp: notifyVRRMode_def Let_def setVRRMode_def split: option.split)
  qed
  show w: "wprops (notify_prop e c w st p s) = wprops s" "p_atoms (notify_prop e c w st p s) = p_atoms s"
    using v by (simp_all add: notify_prop_def deliverPropertyNotifyEvent_def Let_def)
  show "get_prop (notify_prop e c w st p s) = get_prop s" by (simp add: get_prop_def w fun_eq_iff)
qed

lemma set_props_simps [simp]:
  "wprops (set_props w ps s) w' = (if w' = w then ps else wprops s w')" "p_atoms (set_props w ps s) = p_atoms s"
  by (simp_all add: set_props_def)

lemma UpdateCurrentTime_simps [simp]:
  "wprops (UpdateCurrentTime e s) = wprops s" "p_atoms (UpdateCurrentTime e s) = p_atoms s"
  "get_prop (UpdateCurrentTime e s) = get_prop s"
  by (simp_all add: UpdateCurrentTime_def get_prop_def fun_eq_iff)

subsection \<open>The invariant\<close>

definition prop_ok :: "Property \<Rightarrow> bool" where
  "prop_ok p \<longleftrightarrow> p_format p \<in> {8, 16, 32} \<and> length (p_data p) = p_format p div 8 * unat (p_size p) \<and>
     length (p_data p) < 2 ^ 31"

definition props_inv :: "pstate \<Rightarrow> bool" where
  "props_inv s \<longleftrightarrow> (\<forall>w. distinct (map propertyName (wprops s w)) \<and> (\<forall>p \<in> set (wprops s w). prop_ok p))"

lemma get_prop_ok: "props_inv s \<Longrightarrow> get_prop s w n = Some p \<Longrightarrow> prop_ok p \<and> propertyName p = n"
  using find_Some_mem [of "named n" "wprops s w" p] by (auto simp: props_inv_def get_prop_def)

lemma size_t_total:
  assumes "len * sib < 2 ^ 31"
  shows "total_size len sib = int (len * sib)" "size_t (total_size len sib) = len * sib"
proof -
  have "total_size len sib = signed_take_bit 31 (int (len * sib))"
    by (simp add: total_size_def signed_of_nat del: of_nat_mult)
  also have "\<dots> = int (len * sib)"
    using assms by (intro signed_take_bit_int_eq_self) (simp_all del: of_nat_mult)
  finally show t: "total_size len sib = int (len * sib)" .
  have "int (len * sib) < 2 ^ 64" using assms by (simp del: of_nat_mult)
  then show "size_t (total_size len sib) = len * sib"
    unfolding t size_t_def by (simp del: of_nat_mult)
qed

lemma old_bytes_ok:
  assumes "prop_ok p" "p_format p = format"
  shows "old_bytes p (format div 8) = length (p_data p)"
proof -
  have l: "length (p_data p) = format div 8 * unat (p_size p)" "length (p_data p) < 2 ^ 31"
    using assms by (auto simp: prop_ok_def)
  have "old_bytes p (format div 8) = unat (of_nat (unat (p_size p) * (format div 8)) :: 32 word)"
    by (simp add: old_bytes_def)
  also have "\<dots> = unat (p_size p) * (format div 8)"
    using l by (simp add: unat_of_nat mult.commute del: of_nat_mult)
  finally show ?thesis using l by (simp add: mult.commute)
qed

lemma prop_bytes_ok: "prop_ok p \<Longrightarrow> prop_bytes p = length (p_data p)"
  using old_bytes_ok [of p "p_format p"] by (simp add: prop_bytes_def old_bytes_def mult.commute)

text \<open>The value after a change, as the protocol words it.\<close>

definition joined :: "nat \<Rightarrow> 8 word list \<Rightarrow> 8 word list \<Rightarrow> 8 word list" where
  "joined mode old val =
     (if mode = PropModeReplace then val else if mode = PropModeAppend then old @ val
      else if mode = PropModePrepend then val @ old else old)"

text \<open>A change request that fits: the value has the size it says, and the new value stays small.\<close>

definition change_fits :: "nat \<Rightarrow> nat \<Rightarrow> nat \<Rightarrow> nat \<Rightarrow> 8 word list \<Rightarrow> bool" where
  "change_fits mode format len oldlen val \<longleftrightarrow>
     format \<in> {8, 16, 32} \<and> length val = len * (format div 8) \<and>
     (if mode = PropModeReplace then 0 else oldlen) + length val < 2 ^ 31"

lemma new_data_fits:
  "length val = len * sib \<Longrightarrow> length val < 2 ^ 31 \<Longrightarrow> new_data (total_size len sib) val = val"
  using size_t_total [of len sib] by (simp add: new_data_def memcpy_def)

lemma memcpy_append:
  "memcpy (memcpy (replicate (length a + length b) z) 0 a (length a)) (length a) b (length b) = a @ b"
  by (simp add: memcpy_def)

lemma memcpy_prepend:
  "memcpy (memcpy (replicate (length a + length b) z) (length b) a (length a)) 0 b (length b) = b @ a"
  by (simp add: memcpy_def)

lemma changed_prop_spec:
  assumes ok: "prop_ok p" and fits: "change_fits mode format len (length (p_data p)) val"
    and m: "mode = PropModeReplace \<or> format = p_format p \<and> type = p_type p"
    and modes: "mode \<in> {PropModeReplace, PropModeAppend, PropModePrepend}"
  shows "fst (changed_prop p type format mode len val) =
    p\<lparr>p_type := type, p_format := format, p_size := (if mode = PropModeReplace then of_nat len else p_size p + of_nat len),
      p_data := joined mode (p_data p) val\<rparr>"
proof -
  let ?sib = "format div 8"
  have len: "length val = len * ?sib" "len * ?sib < 2 ^ 31" using fits by (auto simp: change_fits_def)
  have st: "size_t (total_size len ?sib) = length val" using size_t_total [OF len(2)] len(1) by simp
  show ?thesis
  proof (cases "mode = PropModeReplace")
    case True
    then show ?thesis using new_data_fits [OF len(1)] len by (simp add: changed_prop_def Let_def joined_def)
  next
    case False
    then have f: "format = p_format p" "type = p_type p" using m by auto
    have old: "old_bytes p ?sib = length (p_data p)" by (rule old_bytes_ok [OF ok]) (simp add: f)
    have buf: "(unat (p_size p) + len) * ?sib = length (p_data p) + length val"
      using ok f len(1) by (simp add: prop_ok_def algebra_simps)
    have zero: "len = 0 \<Longrightarrow> val = []" using len by simp
    note calc = changed_prop_def Let_def old buf st memcpy_append memcpy_prepend
    from False modes consider "mode = PropModeAppend" "mode \<noteq> PropModePrepend" | "mode = PropModePrepend" "mode \<noteq> PropModeAppend"
      by (auto simp: PropModeAppend_def PropModePrepend_def)
    then show ?thesis
    proof cases
      case 1
      then have "fst (changed_prop p type format mode len val) = (if len = 0 then p else p\<lparr>p_data := p_data p @ val, p_size := p_size p + of_nat len\<rparr>)"
        using False unfolding calc by simp
      then show ?thesis using 1 False f zero by (simp add: joined_def)
    next
      case 2
      then have "fst (changed_prop p type format mode len val) = (if len = 0 then p else p\<lparr>p_data := val @ p_data p, p_size := p_size p + of_nat len\<rparr>)"
        using False unfolding calc by simp
      then show ?thesis using 2 False f zero by (simp add: joined_def)
    qed
  qed
qed

subsection \<open>Changing\<close>

text \<open>The security hook says yes or no; \<open>BadMatch\<close> is what a missing property gives, so it never
  says that.\<close>

definition hook_ok :: "prop_env \<Rightarrow> bool" where
  "hook_ok e \<longleftrightarrow> (\<forall>c w p m. xprop e c w p m \<noteq> BadMatch)"

lemma lookup_cases:
  assumes "hook_ok e"
  obtains (missing) "dixLookupProperty e w n c m s = (BadMatch, None)" "get_prop s w n = None"
    | (present) p where "dixLookupProperty e w n c m s = (xprop e c w p m, Some p)" "get_prop s w n = Some p"
        "xprop e c w p m \<noteq> BadMatch"
  using assms by (cases "get_prop s w n") (auto simp: dixLookupProperty_def hook_ok_def)

lemma of_nat_unat_small: "n < 2 ^ 32 \<Longrightarrow> unat (of_nat n :: 32 word) = n"
  by (simp add: unat_of_nat)

lemma of_nat_zero_small: "n < 2 ^ 32 \<Longrightarrow> (of_nat n :: 32 word) = 0 \<longleftrightarrow> n = 0"
  using of_nat_unat_small [of n] by auto

lemma size_sum_ok:
  assumes "prop_ok p" "length (p_data p) + length val < 2 ^ 31" "length val = len * (p_format p div 8)"
  shows "unat (p_size p + of_nat len) = unat (p_size p) + len"
proof -
  have "1 \<le> p_format p div 8" using assms(1) by (auto simp: prop_ok_def)
  then have "unat (p_size p) \<le> length (p_data p)" "len \<le> length val"
    using assms by (auto simp: prop_ok_def)
  then have "unat (p_size p) + len < 2 ^ 32" using assms(2) by simp
  moreover have "p_size p + of_nat len = of_nat (unat (p_size p) + len)" by simp
  ultimately show ?thesis by (metis of_nat_unat_small)
qed

lemma len_small:
  assumes "format \<in> {8, 16, 32}" "length val = len * (format div 8)" "length val < 2 ^ 31"
  shows "len < 2 ^ 32" "len * (format div 8) < 2 ^ 31"
proof -
  have "1 \<le> format div 8" using assms(1) by auto
  then have "len \<le> length val" using assms(2) by auto
  then have "len < 2 ^ 31" using assms(3) by (rule order_le_less_trans)
  then show "len < 2 ^ 32" by simp
  show "len * (format div 8) < 2 ^ 31" using assms(2,3) by simp
qed

lemma joined_prop_ok:
  assumes ok: "prop_ok p" and fits: "change_fits mode format len (length (p_data p)) val"
    and m: "mode = PropModeReplace \<or> format = p_format p"
    and modes: "mode \<in> {PropModeReplace, PropModeAppend, PropModePrepend}"
  shows "prop_ok (p\<lparr>p_type := type, p_format := format,
      p_size := (if mode = PropModeReplace then of_nat len else p_size p + of_nat len),
      p_data := joined mode (p_data p) val\<rparr>)"
proof -
  have f: "format \<in> {8, 16, 32}" "length val = len * (format div 8)" "length val < 2 ^ 31"
    using fits by (auto simp: change_fits_def)
  have sm: "len < 2 ^ 32" using len_small(1) [OF f] .
  show ?thesis
  proof (cases "mode = PropModeReplace")
    case True
    then show ?thesis using f of_nat_unat_small [OF sm] by (auto simp: prop_ok_def joined_def)
  next
    case False
    then have "format = p_format p" using m by simp
    moreover have sum: "length (p_data p) + length val < 2 ^ 31" using fits False by (simp add: change_fits_def)
    ultimately have "unat (p_size p + of_nat len) = unat (p_size p) + len" using size_sum_ok [OF ok sum] f(2) by simp
    moreover have "length (joined mode (p_data p) val) = length (p_data p) + length val"
      using False modes by (auto simp: joined_def)
    ultimately show ?thesis
      using False f sum ok \<open>format = p_format p\<close> by (simp add: prop_ok_def algebra_simps)
  qed
qed

lemma set_props_inv:
  assumes "props_inv s" "distinct (map propertyName ps)" "\<forall>p \<in> set ps. prop_ok p"
  shows "props_inv (set_props w ps s)"
  using assms by (simp add: props_inv_def)

lemma props_inv_cong: "wprops s' = wprops s \<Longrightarrow> props_inv s' = props_inv s"
  by (simp add: props_inv_def)

lemma get_prop_set_props: "get_prop (set_props w ps s) v n = (if v = w then List.find (named n) ps else get_prop s v n)"
  by (simp add: get_prop_def)

lemma change_spec:
  assumes inv: "props_inv s" and hook: "hook_ok e"
    and modes: "mode \<in> {PropModeReplace, PropModeAppend, PropModePrepend}"
    and fits: "change_fits mode format len (case get_prop s w n of None \<Rightarrow> 0 | Some p \<Rightarrow> length (p_data p)) val"
    and res: "dixChangeWindowProperty e c w n type format mode len val ev s = (rc, s')"
  shows "props_inv s'"
    and "rc \<noteq> Success \<Longrightarrow> s' = s"
    and "rc = Success \<Longrightarrow> \<exists>q. get_prop s' w n = Some q \<and> p_type q = type \<and> p_format q = format \<and>
           p_data q = joined mode (case get_prop s w n of None \<Rightarrow> [] | Some p \<Rightarrow> p_data p) val \<and>
           unat (p_size q) * (format div 8) = length (p_data q)"
    and "(v, m) \<noteq> (w, n) \<Longrightarrow> get_prop s' v m = get_prop s v m"
proof -
  have *: "props_inv s' \<and> (rc \<noteq> Success \<longrightarrow> s' = s) \<and>
    (rc = Success \<longrightarrow> (\<exists>q. get_prop s' w n = Some q \<and> p_type q = type \<and> p_format q = format \<and>
       p_data q = joined mode (case get_prop s w n of None \<Rightarrow> [] | Some p \<Rightarrow> p_data p) val \<and> prop_ok q)) \<and>
    ((v, m) \<noteq> (w, n) \<longrightarrow> get_prop s' v m = get_prop s v m)"
    (is "?G rc s'")
  proof -
  let ?m = "if mode = PropModeReplace then DixWriteAccess else DixBlendAccess"
  from hook consider (missing) "dixLookupProperty e w n c ?m s = (BadMatch, None)" "get_prop s w n = None"
    | (present) p where "dixLookupProperty e w n c ?m s = (xprop e c w p ?m, Some p)" "get_prop s w n = Some p"
        "xprop e c w p ?m \<noteq> BadMatch" by (rule lookup_cases)
  then show ?thesis
  proof cases
    case missing
    let ?p = "\<lparr>propertyName = n, p_type = type, p_format = format, p_size = of_nat len,
                p_data = new_data (total_size len (format div 8)) val\<rparr>"
    have f: "format \<in> {8, 16, 32}" "length val = len * (format div 8)" "length val < 2 ^ 31"
      using fits missing(2) by (auto simp: change_fits_def)
    note sm = len_small [OF f]
    have ok: "prop_ok ?p"
      using f of_nat_unat_small [OF sm(1)] new_data_fits [OF f(2,3)] by (simp add: prop_ok_def)
    have j: "joined mode [] val = val" using modes by (auto simp: joined_def)
    have "n \<notin> set (map propertyName (wprops s w))" using missing(2) by (auto simp: get_prop_def find_None_iff)
    then have "props_inv (set_props w (?p # wprops s w) s)" using inv ok by (intro set_props_inv) (auto simp: props_inv_def)
    then have "?G Success (if ev then notify_prop e c w PropertyNewValue ?p (set_props w (?p # wprops s w) s) else set_props w (?p # wprops s w) s)"
      using missing(2) new_data_fits [OF f(2,3)] j ok
      by (auto simp: get_prop_set_props props_inv_cong [OF notify_simps(1)] get_prop_def)
    then show ?thesis
      using res missing inv by (auto simp: dixChangeWindowProperty_def Let_def split: if_splits)
  next
    case (present p)
    have ok: "prop_ok p" "propertyName p = n" using get_prop_ok [OF inv present(2)] by auto
    have fits': "change_fits mode format len (length (p_data p)) val" using fits present(2) by simp
    let ?q = "p\<lparr>p_type := type, p_format := format, p_size := (if mode = PropModeReplace then of_nat len else p_size p + of_nat len),
      p_data := joined mode (p_data p) val\<rparr>"
    let ?t = "set_props w (upd_first (named n) (\<lambda>_. ?q) (wprops s w)) s"
    have G: "?G Success (if ev then notify_prop e c w PropertyNewValue ?q ?t else ?t)"
      if m: "mode = PropModeReplace \<or> format = p_format p \<and> type = p_type p"
    proof -
      have "mode = PropModeReplace \<or> format = p_format p" using m by blast
      then have q: "prop_ok ?q" "propertyName ?q = n"
        using joined_prop_ok [OF ok(1) fits' _ modes] ok(2) by simp_all
      have names: "map propertyName (upd_first (named n) (\<lambda>_. ?q) ps) = map propertyName ps" for ps
        using q(2) by (induction ps) auto
      have find: "List.find (named m') (upd_first (named n) (\<lambda>_. ?q) ps) =
          (if m' = n \<and> List.find (named n) ps \<noteq> None then Some ?q else List.find (named m') ps)" for m' ps
        using q(2) by (induction ps) auto
      have "props_inv ?t"
        using inv q names set_upd_first [of "named n" "\<lambda>_. ?q" "wprops s w"]
        by (intro set_props_inv) (auto simp: props_inv_def)
      moreover have "get_prop ?t w n = Some ?q" using present(2) find by (simp add: get_prop_set_props get_prop_def)
      moreover have "(v, m) \<noteq> (w, n) \<Longrightarrow> get_prop ?t v m = get_prop s v m"
        using find by (auto simp: get_prop_set_props get_prop_def)
      ultimately show ?thesis using present(2) q by (simp add: props_inv_cong [OF notify_simps(1)])
    qed
    show ?thesis
    proof (cases "xprop e c w p (if mode = PropModeReplace then DixWriteAccess else DixBlendAccess) = Success \<and>
        (mode = PropModeReplace \<or> format = p_format p \<and> type = p_type p)")
      case True
      obtain q' need where cp: "changed_prop p type format mode len val = (q', need)" by fastforce
      then have "q' = ?q" using changed_prop_spec [OF ok(1) fits' _ modes, of type] True by simp
      then show ?thesis
        using res present True G cp inv
        by (auto simp: dixChangeWindowProperty_def Let_def split: if_splits option.splits)
    next
      case False
      then show ?thesis
        using res present inv by (auto simp: dixChangeWindowProperty_def Let_def split: if_splits)
    qed
  qed
  qed
  then show "props_inv s'" "rc \<noteq> Success \<Longrightarrow> s' = s" "(v, m) \<noteq> (w, n) \<Longrightarrow> get_prop s' v m = get_prop s v m"
    by blast+
  show "rc = Success \<Longrightarrow> \<exists>q. get_prop s' w n = Some q \<and> p_type q = type \<and> p_format q = format \<and>
           p_data q = joined mode (case get_prop s w n of None \<Rightarrow> [] | Some p \<Rightarrow> p_data p) val \<and>
           unat (p_size q) * (format div 8) = length (p_data q)"
    using * by (auto simp: prop_ok_def mult.commute)
qed

subsection \<open>Reading\<close>

lemma unat_times4: "unat (w :: card32) < 2 ^ 30 \<Longrightarrow> unat (4 * w) = 4 * unat w \<and> unat (push_bit 2 w) = 4 * unat w"
  by (simp add: unat_word_ariths push_bit_eq_mult)

lemma slice_items:
  assumes "prop_ok p" "ind mod 4 = 0" "ind \<le> length (p_data p)" "len = min (length (p_data p) - ind) (4 * l)"
  shows "reply_data p ind len = take len (drop ind (p_data p))"
proof -
  have d: "\<And>i. i dvd 4 \<Longrightarrow> i dvd ind" "\<And>i. i dvd 4 \<Longrightarrow> i dvd 4 * l"
    using assms(2) by (auto intro: dvd_trans dvd_mult2)
  have "i dvd len" if "i dvd 4" "i dvd length (p_data p)" for i
    using d [OF that(1)] that(2) assms(3,4) by (auto simp: min_def dvd_diff_nat)
  moreover have "(if p_format p = 32 then 4 else if p_format p = 16 then 2 else 1) dvd length (p_data p)"
    using assms(1) by (auto simp: prop_ok_def)
  ultimately show ?thesis by (auto simp: reply_data_def Let_def)
qed

text \<open>The environment that lets everything through.\<close>

definition permissive :: "prop_env \<Rightarrow> bool" where
  "permissive e \<longleftrightarrow> (\<forall>c w p m. xprop e c w p m = Success) \<and> (\<forall>w c m. lookupWindow e w c m = Success) \<and>
     (\<forall>p. pfilter e p = p) \<and> (\<forall>a. palloc e a)"

lemma get_len_ok:
  assumes "prop_ok p" "unat l < 2 ^ 30"
  shows "get_len p ind l = min (length (p_data p) - ind) (4 * unat l)"
  using unat_times4 [OF assms(2)] by (simp add: get_len_def prop_bytes_ok [OF assms(1)])

lemma get_reply:
  assumes e: "permissive e" and inv: "props_inv s" and p: "get_prop s w n = Some p"
    and v: "ValidAtom n (p_atoms s)" and t: "type = AnyPropertyType \<or> type = p_type p \<and> ValidAtom type (p_atoms s)"
    and del: "del = 0 \<or> del = 1"
    and off: "4 * unat off \<le> length (p_data p)" and l: "unat l < 2 ^ 30"
  defines "len \<equiv> min (length (p_data p) - 4 * unat off) (4 * unat l)"
  shows "\<exists>s'. ProcGetProperty e c 6 \<lparr>gp_window = w, gp_property = n, gp_type = type, gp_delete = del,
              gp_longOffset = off, gp_longLength = l\<rparr> s =
     (Reply \<lparr>r_bytesAfter = of_nat (length (p_data p) - (4 * unat off + len)), r_format = p_format p,
             r_nItems = of_nat (len div (p_format p div 8)), r_propertyType = p_type p,
             r_data = take len (drop (4 * unat off) (p_data p))\<rparr>, s') \<and>
     wprops s' = (if del = 1 \<and> 4 * unat off + len = length (p_data p)
                  then (wprops s)(w := del_first (named n) (wprops s w)) else wprops s)"
proof -
  have ok: "prop_ok p" using get_prop_ok [OF inv p] by simp
  have small: "length (p_data p) < 2 ^ 31" using ok by (simp add: prop_ok_def)
  then have "unat off < 2 ^ 30" using off by simp
  then have ind: "get_ind off = 4 * unat off" using unat_times4 by (simp add: get_ind_def)
  have le: "4 * unat off + len \<le> length (p_data p)" using off by (simp add: len_def)
  define rest where "rest = length (p_data p) - (4 * unat off + len)"
  have "rest < 2 ^ 32" using small by (simp add: rest_def)
  then have ba: "(of_nat rest :: 32 word) = 0 \<longleftrightarrow> 4 * unat off + len = length (p_data p)"
    unfolding of_nat_zero_small [OF \<open>rest < 2 ^ 32\<close>] using le by (auto simp: rest_def)
  have rd: "reply_data p (4 * unat off) len = take len (drop (4 * unat off) (p_data p))"
    by (rule slice_items [OF ok _ off]) (simp_all add: len_def)
  have gl: "get_len p (4 * unat off) l = len" using get_len_ok [OF ok l] by (simp add: len_def)
  have lk: "dixLookupProperty e w n c m (if b then UpdateCurrentTime e s else s) = (Success, Some p)" for m b
    using e p by (simp add: dixLookupProperty_def permissive_def)
  have d: "del \<noteq> 1 \<and> del \<noteq> 0 \<longleftrightarrow> False" "del \<noteq> 0 \<longleftrightarrow> del = 1" using del by auto
  have tt: "\<not> (type \<noteq> AnyPropertyType \<and> \<not> ValidAtom type (p_atoms s))" "\<not> (type \<noteq> p_type p \<and> type \<noteq> AnyPropertyType)"
    using t by auto
  show ?thesis
    using e v off
    by (simp add: ProcGetProperty_def REQUEST_SIZE_MATCH_def sz_xGetPropertyReq_def d tt permissive_def empty_param_def
        Let_def lk prop_bytes_ok [OF ok] ind gl ba rd not_less rest_def [symmetric])
      (simp add: set_props_def fun_eq_iff)
qed

subsection \<open>Deleting\<close>

lemma delete_spec:
  assumes inv: "props_inv s" and hook: "hook_ok e" and res: "DeleteProperty e c w n s = (rc, s')"
  shows "props_inv s'" "rc = Success \<Longrightarrow> get_prop s' w n = None" "rc \<noteq> Success \<Longrightarrow> s' = s"
    "(v, m) \<noteq> (w, n) \<Longrightarrow> get_prop s' v m = get_prop s v m"
proof -
  let ?t = "set_props w (del_first (named n) (wprops s w)) s"
  have d: "distinct (map propertyName (wprops s w))" "\<forall>p \<in> set (wprops s w). prop_ok p"
    using inv by (auto simp: props_inv_def)
  have t: "props_inv ?t"
    using distinct_del_first [OF d(1)] d(2) set_del_first [of "named n" "wprops s w"] inv
    by (intro set_props_inv) auto
  have g: "get_prop ?t v m = (if (v, m) = (w, n) then None else get_prop s v m)" for v m
    using find_del_first [OF d(1), of m n] by (auto simp: get_prop_set_props get_prop_def)
  have "props_inv s' \<and> (rc = Success \<longrightarrow> get_prop s' w n = None) \<and> (rc \<noteq> Success \<longrightarrow> s' = s) \<and>
    ((v, m) \<noteq> (w, n) \<longrightarrow> get_prop s' v m = get_prop s v m)"
  proof (cases "get_prop s w n")
    case None
    then show ?thesis using res inv by (simp add: DeleteProperty_def dixLookupProperty_def)
  next
    case (Some p)
    then show ?thesis
      using res inv hook t g
      by (auto simp: DeleteProperty_def dixLookupProperty_def hook_ok_def props_inv_cong [OF notify_simps(1)] split: if_splits)
  qed
  then show "props_inv s'" "rc = Success \<Longrightarrow> get_prop s' w n = None" "rc \<noteq> Success \<Longrightarrow> s' = s"
    "(v, m) \<noteq> (w, n) \<Longrightarrow> get_prop s' v m = get_prop s v m" by blast+
qed

subsection \<open>Rotating\<close>

lemma rotate_collect_spec:
  assumes "rotate_collect e c w as s = Inr ps"
  shows "distinct as" "map (\<lambda>a. get_prop s w a) as = map Some ps"
  using assms
  by (induction as arbitrary: ps)
     (auto simp: dixLookupProperty_def split: if_splits option.splits sum.splits)

text \<open>After \<open>k\<close> steps the first \<open>k\<close> values have moved.\<close>

lemma rotate_fold:
  fixes e c
  assumes inj: "inj_on (\<lambda>i. nat ((int i + delta) mod int (length as))) {..< length as}"
    and as: "distinct as" "map (get_prop s w) as = map Some ps" and k: "k \<le> length as"
  defines "s' \<equiv> fold (rotate_step e c w as ps delta) [0 ..< k] s"
    and "target \<equiv> \<lambda>i. nat ((int i + delta) mod int (length as))"
  shows "map propertyName (wprops s' w) = map propertyName (wprops s w) \<and>
    (\<forall>v \<noteq> w. wprops s' v = wprops s v) \<and> p_atoms s' = p_atoms s \<and>
    (\<forall>i < k. get_prop s' w (as ! target i) = map_option (take_value (ps ! i)) (get_prop s w (as ! target i))) \<and>
    (\<forall>n. (\<forall>i < k. n \<noteq> as ! target i) \<longrightarrow> get_prop s' w n = get_prop s w n)"
  using k unfolding s'_def
proof (induction k)
  case (Suc k)
  define u where "u = fold (rotate_step e c w as ps delta) [0 ..< k] s"
  have IH: "map propertyName (wprops u w) = map propertyName (wprops s w)" "\<forall>v \<noteq> w. wprops u v = wprops s v"
    "p_atoms u = p_atoms s"
    "\<forall>i < k. get_prop u w (as ! target i) = map_option (take_value (ps ! i)) (get_prop s w (as ! target i))"
    "\<forall>n. (\<forall>i < k. n \<noteq> as ! target i) \<longrightarrow> get_prop u w n = get_prop s w n"
    using Suc by (auto simp: u_def)
  let ?n = "as ! target k" and ?f = "take_value (ps ! k)"
  have tv: "propertyName (?f q) = propertyName q" for q by (simp add: take_value_def)
  have len: "target i < length as" if "i < length as" for i
  proof -
    have "0 < int (length as)" using that by linarith
    then have "0 \<le> (int i + delta) mod int (length as)" "(int i + delta) mod int (length as) < int (length as)"
      by (rule pos_mod_sign, rule pos_mod_bound)
    then show ?thesis unfolding target_def by linarith
  qed
  have ne: "as ! target i \<noteq> ?n" if "i < k" for i
  proof -
    have "i \<in> {..< length as}" "k \<in> {..< length as}" using that Suc.prems by auto
    then have "target i \<noteq> target k" using inj_onD [OF inj, of i k] that unfolding target_def by blast
    then show ?thesis using len [of i] len [of k] that Suc.prems as(1) by (simp add: nth_eq_iff_index_eq)
  qed
  have step: "fold (rotate_step e c w as ps delta) [0 ..< Suc k] s = rotate_step e c w as ps delta k u"
    by (simp add: u_def)
  have w: "wprops (rotate_step e c w as ps delta k u) =
      (wprops u)(w := upd_first (named ?n) ?f (wprops u w))" "p_atoms (rotate_step e c w as ps delta k u) = p_atoms u"
    by (auto simp: rotate_step_def Let_def set_props_def target_def split: option.split)
  have g: "get_prop (rotate_step e c w as ps delta k u) w n =
      (if n = ?n then map_option ?f (get_prop u w ?n) else get_prop u w n)" for n
    using find_upd_first [where f = ?f, OF tv] by (simp add: get_prop_def w)
  have "get_prop u w ?n = get_prop s w ?n" using IH(5) ne by metis
  then show ?case unfolding step
    using IH w g ne names_upd_first [where f = ?f, OF tv] by (auto simp: less_Suc_eq)
qed auto

lemma norm_delta_mod:
  assumes "0 < n"
  shows "norm_delta n d mod int n = d mod int n" "0 \<le> norm_delta n d"
  using assms by (induction n d rule: norm_delta.induct) (subst norm_delta.simps, auto)+

lemma rotation_inj: "0 < n \<Longrightarrow> inj_on (\<lambda>i. nat ((int i + d) mod int n)) {..< n}"
proof (rule inj_onI)
  fix i j assume n: "0 < n" and ij: "i \<in> {..< n}" "j \<in> {..< n}" and eq: "nat ((int i + d) mod int n) = nat ((int j + d) mod int n)"
  have "(int i + d) mod int n = (int j + d) mod int n"
    using eq n by (simp add: nat_eq_iff)
  then have "int i mod int n = int j mod int n" by (metis add_diff_cancel_right' mod_diff_left_eq)
  then show "i = j" using ij by simp
qed

subsection \<open>Properties\<close>

text \<open>C14. Changing a window property. If the change is refused (bad match of type or format, no memory,
  or a veto of the security hook before or after the change) nothing changes. Otherwise the property
  has the given type and format, and its data is the new data, or the new data appended
  or prepended to the old, according to the mode; its size counts its items exactly. All other
  properties of all windows are untouched, and property names stay unique in a window.\<close>

theorem dixChangeWindowProperty_value:
  assumes "props_inv s" "hook_ok e" "mode \<in> {PropModeReplace, PropModeAppend, PropModePrepend}"
    and "change_fits mode format len (case get_prop s w n of None \<Rightarrow> 0 | Some p \<Rightarrow> length (p_data p)) val"
    and "dixChangeWindowProperty e c w n type format mode len val ev s = (rc, s')"
  shows "props_inv s' \<and>
    (if rc = Success
     then \<exists>q. get_prop s' w n = Some q \<and> p_type q = type \<and> p_format q = format \<and>
           p_data q = joined mode (case get_prop s w n of None \<Rightarrow> [] | Some p \<Rightarrow> p_data p) val \<and>
           unat (p_size q) * (format div 8) = length (p_data q)
     else s' = s) \<and>
    (\<forall>v m. (v, m) \<noteq> (w, n) \<longrightarrow> get_prop s' v m = get_prop s v m)"
  using change_spec [OF assms] by auto

definition open_env :: prop_env where
  "open_env = \<lparr>xprop = \<lambda>_ _ _ _. Success, lookupWindow = \<lambda>_ _ _. Success, pfilter = \<lambda>p. p, palloc = \<lambda>_. True,
     tick = \<lambda>t. t, noPanoramiXExtension = True, panoramiXWindow = \<lambda>_ _. None\<rparr>"

definition prop_example :: pstate where
  "prop_example = \<lparr>wprops = \<lambda>w. if w = 7 then [\<lparr>propertyName = 5, p_type = 31, p_format = 16, p_size = 2, p_data = [1, 2, 3, 4]\<rparr>,
       \<lparr>propertyName = 6, p_type = 31, p_format = 8, p_size = 1, p_data = [9]\<rparr>] else [],
     p_atoms = atoms_start\<lparr>lastAtom := 68\<rparr>, p_time = \<lparr>months = 0, milliseconds = 0\<rparr>, p_events = [], vrr_log = []\<rparr>"

lemma prop_example_inv: "props_inv prop_example" "hook_ok open_env" "permissive open_env"
  by (auto simp: props_inv_def prop_example_def prop_ok_def hook_ok_def permissive_def open_env_def)

theorem dixChangeWindowProperty_value_witness:
  "\<exists>s' q. dixChangeWindowProperty open_env 1 7 5 31 16 PropModeAppend 1 [8, 8] True prop_example = (Success, s') \<and>
     get_prop s' 7 5 = Some q \<and> p_data q = [1, 2, 3, 4, 8, 8]"
proof -
  obtain rc s' where r: "dixChangeWindowProperty open_env 1 7 5 31 16 PropModeAppend 1 [8, 8] True prop_example = (rc, s')"
    by fastforce
  have g: "get_prop prop_example 7 5 = Some \<lparr>propertyName = 5, p_type = 31, p_format = 16, p_size = 2, p_data = [1, 2, 3, 4]\<rparr>"
    by (simp add: get_prop_def prop_example_def)
  have "rc = Success"
    using r by (auto simp: dixChangeWindowProperty_def Let_def dixLookupProperty_def g open_env_def changed_prop_def
        PropModeAppend_def PropModeReplace_def)
  moreover have "change_fits PropModeAppend 16 1 (case get_prop prop_example 7 5 of None \<Rightarrow> 0 | Some p \<Rightarrow> length (p_data p)) [8, 8]"
    by (simp add: g change_fits_def)
  ultimately show ?thesis
    using dixChangeWindowProperty_value [OF prop_example_inv(1,2) _ _ r] r g
    by (auto simp: joined_def PropModeAppend_def PropModeReplace_def)
qed

lemma replace_fits:
  assumes "format \<in> {8, 16, 32}" "length val = unat nUnits * (format div 8)" "length val \<le> 1073741818"
  shows "REQUEST_AT_LEAST_SIZE 24 ((24 + length val + 3) div 4)"
    "REQUEST_FIXED_SIZE 24 (unat (nUnits :: card32) * (format div 8)) ((24 + length val + 3) div 4)"
    "\<not> unat nUnits > bytes_to_int32 (0xffffffff - 24)"
proof -
  have "1 \<le> format div 8" using assms(1) by auto
  then have "unat nUnits \<le> length val" using assms(2) by auto
  then have "unat nUnits \<le> 1073741818" using assms(3) by (rule order_trans)
  then show "\<not> unat nUnits > bytes_to_int32 (0xffffffff - 24)" by (simp add: bytes_to_int32_def)
  show "REQUEST_AT_LEAST_SIZE 24 ((24 + length val + 3) div 4)"
    by (simp add: REQUEST_AT_LEAST_SIZE_def)
  have "length val div 4 < (24 + length val + 3) div 4" by linarith
  then show "REQUEST_FIXED_SIZE 24 (unat (nUnits :: card32) * (format div 8)) ((24 + length val + 3) div 4)"
    using assms(2) by (simp add: REQUEST_FIXED_SIZE_def)
qed

text \<open>C11. What a client stores it gets back: a ChangeProperty request in mode Replace (that nobody vetoes)
  followed by a GetProperty request of any type from offset 0 that asks for enough returns exactly the type, format,
  number of items and bytes that were stored, with nothing left over.\<close>

theorem ChangeProperty_GetProperty:
  assumes "permissive e" "props_inv s" "ValidAtom n (p_atoms s)" "ValidAtom type (p_atoms s)"
    and "unat format \<in> {8, 16, 32}" "length val = unat nUnits * (unat format div 8)" "length val \<le> 1073741818"
    and "unat l < 2 ^ 30" "length val \<le> 4 * unat l"
  shows "\<exists>s1 s2. ProcChangeProperty e c ((24 + length val + 3) div 4) \<lparr>cp_window = w, cp_property = n, cp_type = type,
       cp_format = format, cp_mode = 0, cp_nUnits = nUnits, cp_data = val\<rparr> s = (Done, s1) \<and>
     ProcGetProperty e c 6 \<lparr>gp_window = w, gp_property = n, gp_type = AnyPropertyType, gp_delete = 0,
       gp_longOffset = 0, gp_longLength = l\<rparr> s1 =
       (Reply \<lparr>r_bytesAfter = 0, r_format = unat format, r_nItems = nUnits, r_propertyType = type, r_data = val\<rparr>, s2)"
proof -
  let ?s = "UpdateCurrentTime e s"
  obtain rc s1 where ch: "dixChangeWindowProperty e c w n type (unat format) PropModeReplace (unat nUnits) val True ?s = (rc, s1)"
    by fastforce
  have hook: "hook_ok e" using assms(1) by (simp add: hook_ok_def permissive_def)
  have inv: "props_inv ?s" using assms(2) by (simp add: UpdateCurrentTime_def props_inv_def)
  have fits: "change_fits PropModeReplace (unat format) (unat nUnits)
      (case get_prop ?s w n of None \<Rightarrow> 0 | Some p \<Rightarrow> length (p_data p)) val"
    using assms(5-7) by (simp add: change_fits_def)
  have rcS: "rc = Success" "p_atoms s1 = p_atoms s"
    using ch assms(1) by (auto simp: dixChangeWindowProperty_def Let_def dixLookupProperty_def permissive_def
        changed_prop_def split: option.splits if_splits)
  note cs = change_spec [OF inv hook _ fits ch]
  obtain q where q: "get_prop s1 w n = Some q" "p_type q = type" "p_format q = unat format" "p_data q = val"
    "unat (p_size q) * (unat format div 8) = length val"
    using cs(3) rcS(1) by (auto simp: joined_def)
  note rf = replace_fits [OF assms(5-7)]
  have "ProcChangeProperty e c ((24 + length val + 3) div 4) \<lparr>cp_window = w, cp_property = n, cp_type = type,
       cp_format = format, cp_mode = 0, cp_nUnits = nUnits, cp_data = val\<rparr> s = (Done, s1)"
    using assms(1,3-5) ch rf rcS(1)
    by (simp add: ProcChangeProperty_def Let_def sz_xChangePropertyReq_def permissive_def empty_param_def
        PropModeReplace_def status_response_def)
  moreover have "unat nUnits * (unat format div 8) div (unat format div 8) = unat nUnits" using assms(5) by auto
  then have "(of_nat (length val div (unat format div 8)) :: card32) = nUnits" using assms(6) by simp
  then have "\<exists>s2. ProcGetProperty e c 6 \<lparr>gp_window = w, gp_property = n, gp_type = AnyPropertyType, gp_delete = 0,
       gp_longOffset = 0, gp_longLength = l\<rparr> s1 =
       (Reply \<lparr>r_bytesAfter = 0, r_format = unat format, r_nItems = nUnits, r_propertyType = type, r_data = val\<rparr>, s2)"
    using get_reply [OF assms(1) cs(1) q(1), of AnyPropertyType 0 0 l c] assms(3,8,9) q rcS(2) by auto
  ultimately show ?thesis by blast
qed

theorem ChangeProperty_GetProperty_witness:
  "\<exists>s1 s2. ProcChangeProperty open_env 1 7 \<lparr>cp_window = 7, cp_property = 5, cp_type = 31,
       cp_format = 8, cp_mode = 0, cp_nUnits = 3, cp_data = [1, 2, 3]\<rparr> prop_example = (Done, s1) \<and>
     ProcGetProperty open_env 1 6 \<lparr>gp_window = 7, gp_property = 5, gp_type = AnyPropertyType, gp_delete = 0,
       gp_longOffset = 0, gp_longLength = 100\<rparr> s1 =
       (Reply \<lparr>r_bytesAfter = 0, r_format = 8, r_nItems = 3, r_propertyType = 31, r_data = [1, 2, 3]\<rparr>, s2)"
  using ChangeProperty_GetProperty [OF prop_example_inv(3,1), of 5 31 8 "[1, 2, 3]" 3 100 1 7]
  by (simp add: prop_example_def ValidAtom_def NoAtom_def)

text \<open>C12. Reading part of a property: a GetProperty request (that nobody vetoes, with an offset inside the
  property and a length that does not overflow) returns exactly the bytes from the offset, as many as asked for
  or left, counts the items returned and the bytes after them, and removes the property if and only if the
  request says so and nothing is left unread; it changes nothing else.\<close>

theorem ProcGetProperty_slice:
  assumes "permissive e" "props_inv s" "get_prop s w n = Some p" "ValidAtom n (p_atoms s)"
    and "type = AnyPropertyType \<or> type = p_type p \<and> ValidAtom type (p_atoms s)" "del = 0 \<or> del = 1"
    and "4 * unat off \<le> length (p_data p)" "unat l < 2 ^ 30"
  shows "\<exists>s'. let len = min (length (p_data p) - 4 * unat off) (4 * unat l) in
     ProcGetProperty e c 6 \<lparr>gp_window = w, gp_property = n, gp_type = type, gp_delete = del,
              gp_longOffset = off, gp_longLength = l\<rparr> s =
       (Reply \<lparr>r_bytesAfter = of_nat (length (p_data p) - (4 * unat off + len)), r_format = p_format p,
               r_nItems = of_nat (len div (p_format p div 8)), r_propertyType = p_type p,
               r_data = take len (drop (4 * unat off) (p_data p))\<rparr>, s') \<and>
     get_prop s' w n = (if del = 1 \<and> 4 * unat off + len = length (p_data p) then None else Some p) \<and>
     (\<forall>v m. (v, m) \<noteq> (w, n) \<longrightarrow> get_prop s' v m = get_prop s v m)"
proof -
  have d: "distinct (map propertyName (wprops s w))" using assms(2) by (simp add: props_inv_def)
  have g: "get_prop s' v m = (if b \<and> (v, m) = (w, n) then None else get_prop s v m)"
    if "wprops s' = (if b then (wprops s)(w := del_first (named n) (wprops s w)) else wprops s)" for s' v m b
    using that find_del_first [OF d, of m n] by (auto simp: get_prop_def)
  obtain s' where "ProcGetProperty e c 6 \<lparr>gp_window = w, gp_property = n, gp_type = type, gp_delete = del,
              gp_longOffset = off, gp_longLength = l\<rparr> s = (Reply \<lparr>r_bytesAfter =
                of_nat (length (p_data p) - (4 * unat off + min (length (p_data p) - 4 * unat off) (4 * unat l))),
               r_format = p_format p,
               r_nItems = of_nat (min (length (p_data p) - 4 * unat off) (4 * unat l) div (p_format p div 8)),
               r_propertyType = p_type p,
               r_data = take (min (length (p_data p) - 4 * unat off) (4 * unat l)) (drop (4 * unat off) (p_data p))\<rparr>, s')"
    and w: "wprops s' = (if del = 1 \<and>
        4 * unat off + min (length (p_data p) - 4 * unat off) (4 * unat l) = length (p_data p)
        then (wprops s)(w := del_first (named n) (wprops s w)) else wprops s)"
    using get_reply [OF assms, of c] by blast
  then show ?thesis using g [OF w] assms(3) unfolding Let_def by (intro exI [of _ s'] conjI) simp_all
qed

theorem ProcGetProperty_slice_witness:
  "\<exists>s'. ProcGetProperty open_env 1 6 \<lparr>gp_window = 7, gp_property = 5, gp_type = 31, gp_delete = 1,
              gp_longOffset = 0, gp_longLength = 10\<rparr> prop_example =
       (Reply \<lparr>r_bytesAfter = 0, r_format = 16, r_nItems = 2, r_propertyType = 31, r_data = [1, 2, 3, 4]\<rparr>, s') \<and>
     get_prop s' 7 5 = None \<and> get_prop s' 7 6 = get_prop prop_example 7 6"
proof -
  have g: "get_prop prop_example 7 5 = Some \<lparr>propertyName = 5, p_type = 31, p_format = 16, p_size = 2, p_data = [1, 2, 3, 4]\<rparr>"
    by (simp add: get_prop_def prop_example_def)
  have v: "ValidAtom 5 (p_atoms prop_example)" "ValidAtom 31 (p_atoms prop_example)"
    by (simp_all add: prop_example_def ValidAtom_def NoAtom_def)
  show ?thesis
    using ProcGetProperty_slice [OF prop_example_inv(3,1) g v(1), of 31 1 0 10 1] v by (auto simp: Let_def)
qed

text \<open>The length of a GetProperty request is multiplied by 4 at 32 bits: a request for 0x40000000 units
  (more than any property has) returns no data and counts the whole property as unread.\<close>

lemma GetProperty_length_wraps:
  "\<exists>s'. ProcGetProperty open_env 1 6 \<lparr>gp_window = 7, gp_property = 5, gp_type = AnyPropertyType, gp_delete = 0,
              gp_longOffset = 0, gp_longLength = 0x40000000\<rparr> prop_example =
       (Reply \<lparr>r_bytesAfter = 4, r_format = 16, r_nItems = 0, r_propertyType = 31, r_data = []\<rparr>, s')"
  by (simp add: ProcGetProperty_def REQUEST_SIZE_MATCH_def sz_xGetPropertyReq_def open_env_def empty_param_def Let_def
      dixLookupProperty_def get_prop_def prop_example_def ValidAtom_def NoAtom_def AnyPropertyType_def
      prop_bytes_def get_ind_def get_len_def reply_data_def)

text \<open>Deleting a property succeeds also when there is none; afterwards the window has no property of
  the name, every other property is untouched, and the invariant holds; when the security hook vetoes the
  deletion nothing changes.\<close>

lemma DeleteProperty_removes:
  assumes "props_inv s" "hook_ok e" "DeleteProperty e c w n s = (rc, s')"
  shows "props_inv s' \<and> (if rc = Success then get_prop s' w n = None else s' = s) \<and>
    (\<forall>v m. (v, m) \<noteq> (w, n) \<longrightarrow> get_prop s' v m = get_prop s v m)"
  using delete_spec [OF assms] by auto

lemma rotate_all:
  fixes delta c'
  assumes "rotate_collect e c w as s = Inr ps" "as \<noteq> []"
  defines "s' \<equiv> fold (rotate_step e c' w as ps (norm_delta (length as) delta)) [0 ..< length as] s"
  shows "map propertyName (wprops s' w) = map propertyName (wprops s w) \<and>
    (\<forall>i < length as. get_prop s' w (as ! nat ((int i + delta) mod int (length as))) =
       map_option (take_value (ps ! i)) (get_prop s w (as ! nat ((int i + delta) mod int (length as))))) \<and>
    (\<forall>m. m \<notin> set as \<longrightarrow> get_prop s' w m = get_prop s w m)"
proof -
  have pos: "0 < length as" using assms(2) by simp
  let ?d = "norm_delta (length as) delta"
  have eq: "(int i + ?d) mod int (length as) = (int i + delta) mod int (length as)" for i
    using norm_delta_mod(1) [OF pos, of delta] by (metis mod_add_right_eq)
  have tgt: "nat ((int i + delta) mod int (length as)) < length as" for i
    using pos pos_mod_bound [of "int (length as)" "int i + delta"] pos_mod_sign [of "int (length as)" "int i + delta"]
    by linarith
  note r = rotate_fold [where e = e and c = c' and delta = ?d and k = "length as",
      OF rotation_inj [OF pos] rotate_collect_spec [OF assms(1)] order_refl, unfolded eq]
  have "get_prop s' w m = get_prop s w m" if "m \<notin> set as" for m
    using r that nth_mem [OF tgt] unfolding s'_def by metis
  then show ?thesis using r unfolding s'_def by blast
qed

lemma take_value_self: "take_value p p = p"
  by (simp add: take_value_def)

text \<open>C13. Rotating properties: when a RotateProperties request succeeds (nobody having changed or vetoed it), the
  value (type, format, size and data) of the property at position \<open>i\<close> of the request has moved to the property at
  position \<open>(i + delta) mod n\<close>, for every \<open>i\<close> and for negative \<open>delta\<close> too; no property appeared, disappeared or changed its
  name, and properties not in the request keep their values.\<close>

theorem RotateProperties_rotates:
  assumes "permissive e" "as \<noteq> []" "ProcRotateProperties e c req_len w as delta s = (Done, s')"
  shows "map propertyName (wprops s' w) = map propertyName (wprops s w) \<and>
    (\<forall>i < length as. \<exists>p. get_prop s w (as ! i) = Some p \<and>
       get_prop s' w (as ! nat ((int i + delta) mod int (length as))) =
         map_option (take_value p) (get_prop s w (as ! nat ((int i + delta) mod int (length as))))) \<and>
    (\<forall>m. m \<notin> set as \<longrightarrow> get_prop s' w m = get_prop s w m)"
proof -
  let ?s = "UpdateCurrentTime e s"
  obtain ps where ps: "rotate_collect e c w as ?s = Inr ps" and
    s': "s' = (if \<bar>delta\<bar> mod int (length as) \<noteq> 0
      then fold (rotate_step e c w as ps (norm_delta (length as) delta)) [0 ..< length as] ?s else ?s)"
    using assms by (auto simp: ProcRotateProperties_def Let_def permissive_def empty_param_def status_response_def
        split: if_splits sum.splits prod.splits)
  have all: "get_prop s w (as ! i) = Some (ps ! i)" if "i < length as" for i
    using rotate_collect_spec(2) [OF ps] that by (simp add: list_eq_iff_nth_eq)
  show ?thesis
  proof (cases "\<bar>delta\<bar> mod int (length as) = 0")
    case True
    then have "int (length as) dvd delta" by (simp add: dvd_eq_mod_eq_0 [symmetric])
    then have "nat ((int i + delta) mod int (length as)) = i" if "i < length as" for i
      using that by (metis add.right_neutral dvd_imp_mod_0 mod_add_right_eq mod_less nat_int zmod_int)
    then show ?thesis using True s' all by (simp add: take_value_self)
  next
    case False
    then show ?thesis using s' rotate_all [OF ps assms(2), of c delta] all by auto
  qed
qed

theorem RotateProperties_rotates_witness:
  "\<exists>s'. ProcRotateProperties open_env 1 5 7 [5, 6] 1 prop_example = (Done, s') \<and>
     map_option p_data (get_prop s' 7 6) = Some [1, 2, 3, 4] \<and> map_option p_data (get_prop s' 7 5) = Some [9]"
proof -
  have g: "get_prop prop_example 7 5 = Some \<lparr>propertyName = 5, p_type = 31, p_format = 16, p_size = 2, p_data = [1, 2, 3, 4]\<rparr>"
    "get_prop prop_example 7 6 = Some \<lparr>propertyName = 6, p_type = 31, p_format = 8, p_size = 1, p_data = [9]\<rparr>"
    by (simp_all add: get_prop_def prop_example_def)
  have v: "ValidAtom 5 (p_atoms prop_example)" "ValidAtom 6 (p_atoms prop_example)"
    by (simp_all add: prop_example_def ValidAtom_def NoAtom_def)
  obtain s' where r: "ProcRotateProperties open_env 1 5 7 [5, 6] 1 prop_example = (Done, s')"
    using g v prop_example_inv(3)
    by (simp add: ProcRotateProperties_def REQUEST_AT_LEAST_SIZE_def REQUEST_FIXED_SIZE_def permissive_def
        sz_xRotatePropertiesReq_def Let_def empty_param_def dixLookupProperty_def)
  note t = RotateProperties_rotates [OF prop_example_inv(3) _ r]
  have "get_prop s' 7 6 = map_option (take_value (the (get_prop prop_example 7 5))) (get_prop prop_example 7 6)"
    "get_prop s' 7 5 = map_option (take_value (the (get_prop prop_example 7 6))) (get_prop prop_example 7 5)"
    using t g by (auto dest: spec [of _ 0] spec [of _ 1])
  then show ?thesis using r g by (simp add: take_value_def)
qed

end
