(* ===== verification/Selections.thy ===== *)
theory Selections
  imports Atoms ServerTime
begin

text \<open>
  Selections (dix/selection.c): the list of selections with their owners, and the requests that set,
  read and convert them. A window pointer is the window's identifier, a client pointer the client's
  index (0 is the server's own client). The security hook's decision, the window lookup, the
  filter callback that extensions install, memory allocation and the clock are arguments; events
  written to clients and the notifications to the selection callbacks are logged in the order the
  code makes them.
\<close>

subsection \<open>State\<close>

record Selection =
  selection :: atom
  lastTimeChanged :: TimeStamp
  s_window :: xid
  pWin :: "xid option"
  s_client :: "nat option"

datatype SelectionCallbackKind = SelectionSetOwner | SelectionWindowDestroy | SelectionClientClose

record SelectionInfoRec =
  si_selection :: Selection
  si_client :: "nat option"
  si_kind :: SelectionCallbackKind

datatype selection_op =
    SELECTION_FILTER_GETOWNER | SELECTION_FILTER_SETOWNER | SELECTION_FILTER_CONVERT
  | SELECTION_FILTER_LISTEN | SELECTION_FILTER_EV_REQUEST | SELECTION_FILTER_EV_CLEAR | SELECTION_FILTER_NOTIFY

record SelectionFilterParamRec =
  sp_op :: selection_op
  sp_skip :: bool
  sp_status :: status
  sp_selection :: atom
  sp_client :: nat
  sp_recvClient :: "nat option"
  sp_time :: card32
  sp_requestor :: xid
  sp_owner :: xid
  sp_property :: atom
  sp_target :: atom

datatype selection_event =
    SelectionClear card32 xid atom
  | SelectionRequest xid card32 xid atom atom atom
  | SelectionNotify card32 xid atom atom atom

text \<open>The server's selections, its clock and atoms, the events written (newest last, with the client
  that receives each) and the calls of the selection callbacks (newest last).\<close>

record sel_state =
  CurrentSelections :: "Selection list"
  sel_time :: TimeStamp
  sel_atoms :: atoms
  sel_events :: "(nat option \<times> selection_event) list"
  sel_calls :: "SelectionInfoRec list"

record sel_env =
  xsel :: "nat \<Rightarrow> Selection \<Rightarrow> mask \<Rightarrow> status"
  sel_window :: "xid \<Rightarrow> nat \<Rightarrow> mask \<Rightarrow> status"
  sfilter :: "SelectionFilterParamRec \<Rightarrow> SelectionFilterParamRec"
  sel_alloc :: bool
  sel_tick :: "TimeStamp \<Rightarrow> TimeStamp"
  clientGone :: "nat \<Rightarrow> bool"

definition sel_param :: "selection_op \<Rightarrow> nat \<Rightarrow> atom \<Rightarrow> SelectionFilterParamRec" where
  "sel_param op client sel =
     \<lparr>sp_op = op, sp_skip = False, sp_status = Success, sp_selection = sel, sp_client = client,
      sp_recvClient = None, sp_time = 0, sp_requestor = 0, sp_owner = 0, sp_property = 0, sp_target = 0\<rparr>"

definition sel_update_time :: "sel_env \<Rightarrow> sel_state \<Rightarrow> sel_state" where
  "sel_update_time e s = s\<lparr>sel_time := sel_tick e (sel_time s)\<rparr>"

definition WriteEventsToClient :: "nat option \<Rightarrow> selection_event \<Rightarrow> sel_state \<Rightarrow> sel_state" where
  "WriteEventsToClient client ev s = s\<lparr>sel_events := sel_events s @ [(client, ev)]\<rparr>"

definition CallSelectionCallback :: "Selection \<Rightarrow> nat option \<Rightarrow> SelectionCallbackKind \<Rightarrow> sel_state \<Rightarrow> sel_state" where
  "CallSelectionCallback p client kind s =
     s\<lparr>sel_calls := sel_calls s @ [\<lparr>si_selection = p, si_client = client, si_kind = kind\<rparr>]\<rparr>"

subsection \<open>The list of selections\<close>

definition new_selection :: "atom \<Rightarrow> Selection" where
  "new_selection a =
     \<lparr>selection = a, lastTimeChanged = \<lparr>months = 0, milliseconds = 0\<rparr>, s_window = 0, pWin = None, s_client = None\<rparr>"

definition find_selection :: "sel_state \<Rightarrow> atom \<Rightarrow> Selection option" where
  "find_selection s a = List.find (\<lambda>p. selection p = a) (CurrentSelections s)"

text \<open>A selection that is not in the list is created, before the security check.\<close>

definition dixLookupSelection :: "sel_env \<Rightarrow> atom \<Rightarrow> nat \<Rightarrow> mask \<Rightarrow> sel_state \<Rightarrow> (status + Selection) \<times> sel_state" where
  "dixLookupSelection e a client access_mode s =
     (let check = (\<lambda>p s. let rc = xsel e client p (access_mode OR DixCreateAccess) in
                         if rc \<noteq> Success then (Inl rc, s) else (Inr p, s))
      in case find_selection s a of
           Some p \<Rightarrow> check p s
         | None \<Rightarrow>
             if \<not> sel_alloc e then (Inl BadAlloc, s)
             else check (new_selection a) (s\<lparr>CurrentSelections := new_selection a # CurrentSelections s\<rparr>))"

definition InitSelections :: "sel_state \<Rightarrow> sel_state" where
  "InitSelections s = s\<lparr>CurrentSelections := []\<rparr>"

text \<open>The update of the selection a pointer refers to: a selection of a name is unique in the list.\<close>

definition set_selection :: "atom \<Rightarrow> (Selection \<Rightarrow> Selection) \<Rightarrow> sel_state \<Rightarrow> sel_state" where
  "set_selection a f s = s\<lparr>CurrentSelections := map (\<lambda>p. if selection p = a then f p else p) (CurrentSelections s)\<rparr>"

definition disown :: "Selection \<Rightarrow> Selection" where
  "disown p = p\<lparr>pWin := None, s_window := 0, s_client := None\<rparr>"

text \<open>The two walks over the list; the callback sees the selection before it loses its owner.\<close>

fun disown_walk :: "(Selection \<Rightarrow> bool) \<Rightarrow> SelectionCallbackKind \<Rightarrow> Selection list \<Rightarrow> Selection list \<times> SelectionInfoRec list" where
  "disown_walk P kind [] = ([], [])"
| "disown_walk P kind (p # ps) =
     (case disown_walk P kind ps of (qs, calls) \<Rightarrow>
        if P p then (disown p # qs, \<lparr>si_selection = p, si_client = None, si_kind = kind\<rparr> # calls)
        else (p # qs, calls))"

definition DeleteWindowFromAnySelections :: "xid \<Rightarrow> sel_state \<Rightarrow> sel_state" where
  "DeleteWindowFromAnySelections w s =
     (case disown_walk (\<lambda>p. pWin p = Some w) SelectionWindowDestroy (CurrentSelections s) of
        (ps, calls) \<Rightarrow> s\<lparr>CurrentSelections := ps, sel_calls := sel_calls s @ calls\<rparr>)"

definition DeleteClientFromAnySelections :: "nat \<Rightarrow> sel_state \<Rightarrow> sel_state" where
  "DeleteClientFromAnySelections client s =
     (case disown_walk (\<lambda>p. s_client p = Some client) SelectionClientClose (CurrentSelections s) of
        (ps, calls) \<Rightarrow> s\<lparr>CurrentSelections := ps, sel_calls := sel_calls s @ calls\<rparr>)"

subsection \<open>SetSelectionOwner\<close>

definition sz_xSetSelectionOwnerReq :: nat where "sz_xSetSelectionOwnerReq = 16"
definition sz_xGetSelectionOwnerReq :: nat where "sz_xGetSelectionOwnerReq = 8"
definition sz_xConvertSelectionReq :: nat where "sz_xConvertSelectionReq = 24"

text \<open>The SelectionClear event to the owner that loses the selection. The code tests \<open>skip\<close> of the
  request's parameters (already known to be false), not of the event's.\<close>

definition selection_clear :: "sel_env \<Rightarrow> nat \<Rightarrow> SelectionFilterParamRec \<Rightarrow> Selection \<Rightarrow> atom \<Rightarrow> TimeStamp \<Rightarrow> sel_state \<Rightarrow> sel_state" where
  "selection_clear e client param p sel time s =
     (let eventParam = sfilter e ((sel_param SELECTION_FILTER_EV_CLEAR client sel)
            \<lparr>sp_recvClient := s_client p, sp_owner := s_window p\<rparr>)
      in if \<not> sp_skip param
         then WriteEventsToClient (sp_recvClient eventParam)
                (SelectionClear (milliseconds time) (sp_owner eventParam) (sp_selection eventParam)) s
         else s)"

text \<open>The end of the request, once it is known to be timely: the old owner is told, the selection changes
  hands and the callbacks are called.\<close>

definition take_ownership ::
    "sel_env \<Rightarrow> nat \<Rightarrow> SelectionFilterParamRec \<Rightarrow> atom \<Rightarrow> TimeStamp \<Rightarrow> xid option \<Rightarrow> Selection \<Rightarrow> sel_state \<Rightarrow> sel_state" where
  "take_ownership e client param sel time win p s1 =
     (let s2 = (if s_client p \<noteq> None \<and> (win = None \<or> s_client p \<noteq> Some client)
                then selection_clear e client param p sel time s1 else s1);
          q = p\<lparr>lastTimeChanged := time, s_window := sp_owner param, pWin := win,
                s_client := (if win \<noteq> None then Some client else None)\<rparr>
      in CallSelectionCallback q (Some client) SelectionSetOwner
           (set_selection (sp_selection param) (\<lambda>_. q) s2))"

definition ProcSetSelectionOwner ::
    "sel_env \<Rightarrow> nat \<Rightarrow> nat \<Rightarrow> xid \<Rightarrow> atom \<Rightarrow> card32 \<Rightarrow> sel_state \<Rightarrow> unit response \<times> sel_state" where
  "ProcSetSelectionOwner e client req_len window sel reqtime s0 =
     (if \<not> REQUEST_SIZE_MATCH sz_xSetSelectionOwnerReq req_len then (Err BadLength None, s0)
      else
        let s = sel_update_time e s0;
            time = ClientTimeToServerTime (sel_time s) reqtime
        in if CompareTimeStamps time (sel_time s) = LATER then (Done, s)
           else
             let param = sfilter e ((sel_param SELECTION_FILTER_SETOWNER client sel)\<lparr>sp_owner := window\<rparr>) in
             if sp_skip param then (status_response (sp_status param) (Some sel), s)
             else
               let rc = (if sp_owner param \<noteq> 0 then sel_window e (sp_owner param) client DixSetAttrAccess else Success);
                   win = (if sp_owner param \<noteq> 0 then Some (sp_owner param) else None)
               in if rc \<noteq> Success then (Err rc (Some (sp_owner param)), s)
                  else if \<not> ValidAtom (sp_selection param) (sel_atoms s) then (Err BadAtom (Some sel), s)
                  else
                    case dixLookupSelection e (sp_selection param) client DixSetAttrAccess s of
                      (Inl rc', s1) \<Rightarrow> (Err rc' (Some sel), s1)
                    | (Inr p, s1) \<Rightarrow>
                        if CompareTimeStamps time (lastTimeChanged p) = EARLIER then (Done, s1)
                        else
                          (Done, take_ownership e client param sel time win p s1))"

subsection \<open>GetSelectionOwner\<close>

definition ProcGetSelectionOwner :: "sel_env \<Rightarrow> nat \<Rightarrow> nat \<Rightarrow> atom \<Rightarrow> sel_state \<Rightarrow> xid response \<times> sel_state" where
  "ProcGetSelectionOwner e client req_len sel s =
     (if \<not> REQUEST_SIZE_MATCH sz_xGetSelectionOwnerReq req_len then (Err BadLength None, s)
      else
        let param = sfilter e (sel_param SELECTION_FILTER_GETOWNER client sel) in
        if sp_skip param then (status_response (sp_status param) (Some sel), s)
        else if \<not> ValidAtom (sp_selection param) (sel_atoms s) then (Err BadAtom (Some sel), s)
        else
          case dixLookupSelection e (sp_selection param) (sp_client param) DixGetAttrAccess s of
            (Inr p, s1) \<Rightarrow> (Reply (s_window p), s1)
          | (Inl rc, s1) \<Rightarrow> if rc = BadMatch then (Reply 0, s1) else (Err rc (Some sel), s1))"

subsection \<open>ConvertSelection\<close>

record xConvertSelectionReq =
  cs_requestor :: xid
  cs_selection :: atom
  cs_target :: atom
  cs_property :: atom
  cs_time :: card32

text \<open>The answer when the selection has no owner that can answer: the filter is called once more,
  with the property set to None.\<close>

definition selection_refused :: "sel_env \<Rightarrow> nat \<Rightarrow> SelectionFilterParamRec \<Rightarrow> atom \<Rightarrow> sel_state \<Rightarrow> unit response \<times> sel_state" where
  "selection_refused e client param0 sel s =
     (let param = sfilter e (param0\<lparr>sp_property := 0\<rparr>) in
      if sp_skip param then (status_response (sp_status param) (Some sel), s)
      else (Done, WriteEventsToClient (Some client)
             (SelectionNotify (sp_time param) (sp_requestor param) (sp_selection param) (sp_target param) (sp_property param)) s))"

definition selection_request :: "sel_env \<Rightarrow> nat \<Rightarrow> xConvertSelectionReq \<Rightarrow> Selection \<Rightarrow> sel_state \<Rightarrow> unit response \<times> sel_state" where
  "selection_request e client stuff p s =
     (let evParam = sfilter e ((sel_param SELECTION_FILTER_EV_REQUEST client (cs_selection stuff))
            \<lparr>sp_owner := s_window p, sp_requestor := cs_requestor stuff, sp_property := cs_property stuff,
             sp_target := cs_target stuff, sp_time := cs_time stuff, sp_recvClient := s_client p\<rparr>)
      in if sp_skip evParam then (status_response (sp_status evParam) (Some (cs_selection stuff)), s)
         else (Done, WriteEventsToClient (sp_recvClient evParam)
                (SelectionRequest (sp_owner evParam) (sp_time evParam) (sp_requestor evParam) (sp_selection evParam)
                   (sp_target evParam) (sp_property evParam)) s))"

text \<open>An owner that can answer: not the server's own client and not gone.\<close>

definition live_owner :: "sel_env \<Rightarrow> Selection \<Rightarrow> bool" where
  "live_owner e p \<longleftrightarrow> s_window p \<noteq> 0 \<and>
     (case s_client p of None \<Rightarrow> False | Some c \<Rightarrow> c \<noteq> 0 \<and> \<not> clientGone e c)"

definition ProcConvertSelection ::
    "sel_env \<Rightarrow> nat \<Rightarrow> nat \<Rightarrow> xConvertSelectionReq \<Rightarrow> sel_state \<Rightarrow> unit response \<times> sel_state" where
  "ProcConvertSelection e client req_len stuff s0 =
     (if \<not> REQUEST_SIZE_MATCH sz_xConvertSelectionReq req_len then (Err BadLength None, s0)
      else
        let param = sfilter e ((sel_param SELECTION_FILTER_CONVERT client (cs_selection stuff))
              \<lparr>sp_requestor := cs_requestor stuff, sp_property := cs_property stuff,
               sp_target := cs_target stuff, sp_time := cs_time stuff\<rparr>)
        in if sp_skip param then (status_response (sp_status param) (Some (cs_selection stuff)), s0)
           else
             let rc = sel_window e (sp_requestor param) client DixSetAttrAccess in
             if rc \<noteq> Success then (Err rc (Some (sp_requestor param)), s0)
             else if \<not> (ValidAtom (sp_selection param) (sel_atoms s0) \<and> ValidAtom (sp_target param) (sel_atoms s0)
                        \<and> (sp_property param = 0 \<or> ValidAtom (sp_property param) (sel_atoms s0)))
             then (Err BadAtom (Some (cs_property stuff)), s0)
             else
               let s = (if cs_time stuff = CurrentTime then sel_update_time e s0 else s0) in
               case dixLookupSelection e (sp_selection param) client DixReadAccess s of
                 (Inl rc', s1) \<Rightarrow>
                   if rc' \<noteq> BadMatch then (Err rc' (Some (sp_selection param)), s1)
                   else selection_refused e client param (cs_selection stuff) s1
               | (Inr p, s1) \<Rightarrow>
                   if live_owner e p then selection_request e client stuff p s1
                   else selection_refused e client param (cs_selection stuff) s1)"

end
