(* ===== verification/SelectionLaws.thy ===== *)
theory SelectionLaws
  imports Selections
begin

text \<open>
  What the selection requests guarantee: a window owns a selection exactly when a client does, the time
  of the last change never goes back, the owner read is the owner set by the latest timely request, the
  losing owner is told, and a conversion produces exactly one event.
\<close>

subsection \<open>The abstract view: every atom has a selection\<close>

text \<open>A selection that is not in the list behaves like a fresh one without owner.\<close>

definition owner_of :: "sel_state \<Rightarrow> atom \<Rightarrow> Selection" where
  "owner_of s a = (case find_selection s a of None \<Rightarrow> new_selection a | Some p \<Rightarrow> p)"

definition owner_ok :: "Selection \<Rightarrow> bool" where
  "owner_ok p \<longleftrightarrow> pWin p = (if s_window p = 0 then None else Some (s_window p)) \<and> (s_client p = None \<longleftrightarrow> pWin p = None)"

definition sel_inv :: "sel_state \<Rightarrow> bool" where
  "sel_inv s \<longleftrightarrow> distinct (map selection (CurrentSelections s)) \<and>
     (\<forall>p \<in> set (CurrentSelections s). owner_ok p \<and> stamp_pos (lastTimeChanged p) \<le> stamp_pos (sel_time s))"

text \<open>A clock that does not go back, and an environment in which nobody vetoes or rewrites.\<close>

definition clock_ok :: "sel_env \<Rightarrow> bool" where
  "clock_ok e \<longleftrightarrow> (\<forall>t. stamp_pos t \<le> stamp_pos (sel_tick e t))"

definition sel_open :: "sel_env \<Rightarrow> bool" where
  "sel_open e \<longleftrightarrow> sfilter e = (\<lambda>p. p) \<and> (\<forall>c p m. xsel e c p m = Success) \<and>
     (\<forall>w c m. sel_window e w c m = Success) \<and> sel_alloc e"

lemma find_selection_name: "find_selection s a = Some p \<Longrightarrow> p \<in> set (CurrentSelections s) \<and> selection p = a"
  unfolding find_selection_def by (rule find_Some_mem)

lemma selection_owner_of [simp]: "selection (owner_of s a) = a"
  by (auto simp: owner_of_def new_selection_def dest: find_selection_name split: option.splits)

lemma find_map_name:
  assumes "\<And>p. selection (g p) = selection p"
  shows "List.find (\<lambda>p. selection p = a) (map g ps) = map_option g (List.find (\<lambda>p. selection p = a) ps)"
  by (induction ps) (simp_all add: assms)

lemma find_set_selection:
  assumes "\<And>p. selection p = a \<Longrightarrow> selection (f p) = a"
  shows "find_selection (set_selection a f s) b =
    (if b = a then map_option f (find_selection s a) else find_selection s b)"
proof -
  let ?g = "\<lambda>p. if selection p = a then f p else p"
  have "find_selection (set_selection a f s) b = map_option ?g (find_selection s b)"
    using assms by (simp add: find_selection_def set_selection_def find_map_name)
  also have "\<dots> = (if b = a then map_option f (find_selection s a) else find_selection s b)"
    using find_selection_name [of s b] by (cases "find_selection s b") auto
  finally show ?thesis .
qed

lemma owner_of_cong: "CurrentSelections s' = CurrentSelections s \<Longrightarrow> owner_of s' a = owner_of s a"
  by (simp add: owner_of_def find_selection_def)

lemma new_selection_ok: "owner_ok (new_selection a)" "stamp_pos (lastTimeChanged (new_selection a)) = 0"
  by (simp_all add: owner_ok_def new_selection_def stamp_pos_def)

lemma stamp_pos_nonneg: "0 \<le> stamp_pos t"
  by (simp add: stamp_pos_def)

lemma owner_of_ok:
  "sel_inv s \<Longrightarrow> owner_ok (owner_of s a) \<and> stamp_pos (lastTimeChanged (owner_of s a)) \<le> stamp_pos (sel_time s)"
  using new_selection_ok [of a] stamp_pos_nonneg
  by (auto simp: owner_of_def sel_inv_def dest: find_selection_name split: option.splits)

subsection \<open>The operations on the abstract view\<close>

text \<open>A lookup changes nothing of the abstract view, and finds the selection of the name.\<close>

lemma lookup_selection:
  assumes "dixLookupSelection e a c m s = (r, s')"
  shows "owner_of s' b = owner_of s b" "r = Inr p \<Longrightarrow> p = owner_of s a \<and> find_selection s' a = Some p"
    "sel_time s' = sel_time s" "sel_events s' = sel_events s" "sel_calls s' = sel_calls s" "sel_atoms s' = sel_atoms s"
    "sel_inv s \<Longrightarrow> sel_inv s'"
proof -
  have new: "selection (new_selection a) = a" "find_selection (s\<lparr>CurrentSelections := new_selection a # CurrentSelections s\<rparr>) b =
    (if b = a then Some (new_selection a) else find_selection s b)" for b
    by (simp_all add: new_selection_def find_selection_def)
  show "owner_of s' b = owner_of s b" "r = Inr p \<Longrightarrow> p = owner_of s a \<and> find_selection s' a = Some p"
    "sel_time s' = sel_time s" "sel_events s' = sel_events s" "sel_calls s' = sel_calls s" "sel_atoms s' = sel_atoms s"
    using assms new by (auto simp: dixLookupSelection_def Let_def owner_of_def split: option.splits if_splits)
  have "sel_inv (s\<lparr>CurrentSelections := new_selection a # CurrentSelections s\<rparr>)" if "sel_inv s" "find_selection s a = None"
    using that new_selection_ok [of a] new(1) stamp_pos_nonneg
    by (auto simp: sel_inv_def find_selection_def find_None_iff)
  then show "sel_inv s \<Longrightarrow> sel_inv s'"
    using assms by (auto simp: dixLookupSelection_def Let_def split: option.splits if_splits)
qed

lemma lookup_open:
  "sel_open e \<Longrightarrow> \<exists>s'. dixLookupSelection e a c m s = (Inr (owner_of s a), s')"
  by (simp add: dixLookupSelection_def Let_def sel_open_def owner_of_def split: option.split)

lemma disown_walk_eq:
  "disown_walk P kind ps =
     (map (\<lambda>p. if P p then disown p else p) ps,
      map (\<lambda>p. \<lparr>si_selection = p, si_client = None, si_kind = kind\<rparr>) (filter P ps))"
  by (induction ps) auto

lemma disown_simps [simp]: "selection (disown p) = selection p" "owner_ok (disown p)"
  "lastTimeChanged (disown p) = lastTimeChanged p" "s_client (disown p) = None" "s_window (disown p) = 0"
  by (simp_all add: disown_def owner_ok_def)

lemma disown_new [simp]: "disown (new_selection a) = new_selection a"
  by (simp add: disown_def new_selection_def)

lemma owner_of_map:
  assumes "\<And>p. selection (g p) = selection p" "\<And>a. g (new_selection a) = new_selection a"
    "CurrentSelections s' = map g (CurrentSelections s)"
  shows "owner_of s' a = g (owner_of s a)"
  using find_map_name [of g a "CurrentSelections s", OF assms(1)] assms(2,3)
  by (simp add: owner_of_def find_selection_def split: option.split)

lemma distinct_names_map:
  "(\<And>p. selection (g p) = selection p) \<Longrightarrow> distinct (map selection (map g ps)) = distinct (map selection ps)"
  by (simp add: comp_def)

lemma map_disown_inv:
  assumes "sel_inv s" "CurrentSelections s' = map (\<lambda>p. if P p then disown p else p) (CurrentSelections s)"
    "stamp_pos (sel_time s) \<le> stamp_pos (sel_time s')"
  shows "sel_inv s'"
  using assms distinct_names_map [of "\<lambda>p. if P p then disown p else p" "CurrentSelections s"]
  by (auto simp: sel_inv_def intro: order_trans)

subsection \<open>Requests\<close>

lemma notLATER: "CompareTimeStamps t n \<noteq> LATER \<longleftrightarrow> stamp_pos t \<le> stamp_pos n"
  by (auto simp: CompareTimeStamps_LATER)

lemma notEARLIER: "CompareTimeStamps t n \<noteq> EARLIER \<longleftrightarrow> stamp_pos n \<le> stamp_pos t"
  by (auto simp: CompareTimeStamps_EARLIER)

lemma selection_clear_frame [simp]:
  "CurrentSelections (selection_clear e c param p sel t s) = CurrentSelections s"
  "sel_time (selection_clear e c param p sel t s) = sel_time s"
  "sel_calls (selection_clear e c param p sel t s) = sel_calls s"
  by (simp_all add: selection_clear_def WriteEventsToClient_def Let_def)

lemma callback_frame [simp]:
  "CurrentSelections (CallSelectionCallback p c k s) = CurrentSelections s"
  "sel_time (CallSelectionCallback p c k s) = sel_time s"
  "sel_events (CallSelectionCallback p c k s) = sel_events s"
  by (simp_all add: CallSelectionCallback_def)

lemma set_selection_frame [simp]:
  "sel_time (set_selection a f s) = sel_time s" "sel_events (set_selection a f s) = sel_events s"
  by (simp_all add: set_selection_def)

lemma find_selection_cong:
  "CurrentSelections s' = CurrentSelections s \<Longrightarrow> find_selection s' a = find_selection s a"
  by (simp add: find_selection_def)

lemma set_selection_inv:
  assumes "sel_inv s" "selection q = a" "owner_ok q" "stamp_pos (lastTimeChanged q) \<le> stamp_pos (sel_time s)"
  shows "sel_inv (set_selection a (\<lambda>_. q) s)"
  using assms distinct_names_map [of "\<lambda>p. if selection p = a then q else p" "CurrentSelections s"]
  by (auto simp: sel_inv_def set_selection_def)

lemma sel_inv_cong:
  "CurrentSelections s' = CurrentSelections s \<Longrightarrow> stamp_pos (sel_time s) \<le> stamp_pos (sel_time s') \<Longrightarrow> sel_inv s \<Longrightarrow> sel_inv s'"
  by (auto simp: sel_inv_def intro: order_trans)

lemma update_time_frame [simp]:
  "CurrentSelections (sel_update_time e s) = CurrentSelections s" "sel_events (sel_update_time e s) = sel_events s"
  "sel_calls (sel_update_time e s) = sel_calls s" "sel_atoms (sel_update_time e s) = sel_atoms s"
  "sel_time (sel_update_time e s) = sel_tick e (sel_time s)"
  by (simp_all add: sel_update_time_def)

lemma update_time_inv: "clock_ok e \<Longrightarrow> sel_inv s \<Longrightarrow> sel_inv (sel_update_time e s)"
  by (rule sel_inv_cong) (simp_all add: clock_ok_def)

text \<open>The change of hands: exactly the selection named changes, and it gets the owner and the time of the request.\<close>

lemma take_ownership_spec:
  fixes e c sel t win
  assumes "find_selection s (sp_selection param) = Some p"
  defines "s' \<equiv> take_ownership e c param sel t win p s"
  defines "q \<equiv> p\<lparr>lastTimeChanged := t, s_window := sp_owner param, pWin := win,
              s_client := (if win \<noteq> None then Some c else None)\<rparr>"
  shows "find_selection s' b = (if b = sp_selection param then Some q else find_selection s b)"
    "sel_time s' = sel_time s"
    "sel_inv s \<Longrightarrow> owner_ok q \<Longrightarrow> stamp_pos t \<le> stamp_pos (sel_time s) \<Longrightarrow> sel_inv s'"
proof -
  define s2 where "s2 = (if s_client p \<noteq> None \<and> (win = None \<or> s_client p \<noteq> Some c)
    then selection_clear e c param p sel t s else s)"
  have s2: "CurrentSelections s2 = CurrentSelections s" "sel_time s2 = sel_time s"
    "s' = CallSelectionCallback q (Some c) SelectionSetOwner (set_selection (sp_selection param) (\<lambda>_. q) s2)"
    unfolding s'_def q_def take_ownership_def Let_def s2_def by simp_all
  have name: "selection q = sp_selection param" using find_selection_name [OF assms(1)] by (simp add: q_def)
  let ?u = "set_selection (sp_selection param) (\<lambda>_. q) s2"
  show "find_selection s' b = (if b = sp_selection param then Some q else find_selection s b)"
    using find_set_selection [of "sp_selection param" "\<lambda>_. q" s2 b] name assms(1)
      find_selection_cong [OF s2(1)] find_selection_cong [of s' ?u] s2(3) by simp
  show "sel_time s' = sel_time s" using s2 by simp
  assume inv: "sel_inv s" "owner_ok q" "stamp_pos t \<le> stamp_pos (sel_time s)"
  have "sel_inv s2" using sel_inv_cong [of s2 s] s2(1,2) inv(1) by simp
  then have "sel_inv ?u" using set_selection_inv [OF _ name inv(2)] inv(3) s2(2) by (simp add: q_def)
  then show "sel_inv s'" using sel_inv_cong [of s' ?u] s2(3) by simp
qed

text \<open>Every path of a SetSelectionOwner request.\<close>

lemma set_owner_paths:
  assumes "ProcSetSelectionOwner e c len w sel t s = (r, s')"
  defines "u \<equiv> sel_update_time e s" and "time \<equiv> ClientTimeToServerTime (sel_tick e (sel_time s)) t"
    and "param \<equiv> sfilter e ((sel_param SELECTION_FILTER_SETOWNER c sel)\<lparr>sp_owner := w\<rparr>)"
  obtains (bad) "s' = s" | (kept) "s' = u"
    | (looked) rr where "dixLookupSelection e (sp_selection param) c DixSetAttrAccess u = (rr, s')"
    | (taken) p s1 where "dixLookupSelection e (sp_selection param) c DixSetAttrAccess u = (Inr p, s1)"
        "stamp_pos time \<le> stamp_pos (sel_time u)" "stamp_pos (lastTimeChanged p) \<le> stamp_pos time"
        "s' = take_ownership e c param sel time (if sp_owner param \<noteq> 0 then Some (sp_owner param) else None) p s1"
proof -
  obtain rr s1 where l: "dixLookupSelection e (sp_selection param) c DixSetAttrAccess u = (rr, s1)" by fastforce
  let ?go = "REQUEST_SIZE_MATCH sz_xSetSelectionOwnerReq len \<and> CompareTimeStamps time (sel_tick e (sel_time s)) \<noteq> LATER \<and> \<not> sp_skip param \<and>
    (if sp_owner param \<noteq> 0 then sel_window e (sp_owner param) c DixSetAttrAccess else Success) = Success \<and>
    ValidAtom (sp_selection param) (sel_atoms u)"
  note d = assms(1) [unfolded ProcSetSelectionOwner_def Let_def, folded u_def, unfolded u_def update_time_frame(5),
      folded time_def param_def, folded u_def]
  show ?thesis
  proof (cases ?go)
    case go: True
    show ?thesis
    proof (cases rr)
      case (Inl x)
      then show ?thesis using d go l that(3) by auto
    next
      case (Inr p)
      show ?thesis
      proof (cases "CompareTimeStamps time (lastTimeChanged p) = EARLIER")
        case True
        then show ?thesis using d go l Inr that(3) by auto
      next
        case False
        moreover have "s' = take_ownership e c param sel time (if sp_owner param \<noteq> 0 then Some (sp_owner param) else None) p s1"
          using d go l Inr False by simp
        ultimately show ?thesis
          using go l Inr by (intro that(4) [of p s1]) (simp_all add: notLATER notEARLIER u_def)
      qed
    qed
  next
    case False
    then have "s' = s \<or> s' = u" using d by (auto split: if_splits)
    then show ?thesis using that(1,2) by blast
  qed
qed

lemma taken_step:
  fixes e c sel
  assumes "dixLookupSelection e (sp_selection param) c m u = (Inr p, s1)" "sel_inv u" "stamp_pos t \<le> stamp_pos (sel_time u)"
  defines "win \<equiv> if sp_owner param \<noteq> 0 then Some (sp_owner param) else None"
  defines "s' \<equiv> take_ownership e c param sel t win p s1"
  shows "sel_inv s'" "sel_time s' = sel_time u" "p = owner_of u (sp_selection param)"
    "owner_of s' = (owner_of u)(sp_selection param := (owner_of u (sp_selection param))\<lparr>lastTimeChanged := t,
        s_window := sp_owner param, pWin := win, s_client := (if sp_owner param \<noteq> 0 then Some c else None)\<rparr>)"
proof -
  note l = lookup_selection [OF assms(1)]
  show p: "p = owner_of u (sp_selection param)" using l(2) by simp
  have f: "find_selection s1 (sp_selection param) = Some p" using l(2) by simp
  note q = take_ownership_spec [where e = e and c = c and sel = sel and t = t and win = win, OF f, folded s'_def]
  show "sel_inv s'" "sel_time s' = sel_time u"
    using q(2,3) l(3,7) assms(2,3) by (simp_all add: win_def owner_ok_def)
  show "owner_of s' = (owner_of u)(sp_selection param := (owner_of u (sp_selection param))\<lparr>lastTimeChanged := t,
        s_window := sp_owner param, pWin := win, s_client := (if sp_owner param \<noteq> 0 then Some c else None)\<rparr>)"
  proof
    fix b
    show "owner_of s' b = ((owner_of u)(sp_selection param := (owner_of u (sp_selection param))\<lparr>lastTimeChanged := t,
        s_window := sp_owner param, pWin := win, s_client := (if sp_owner param \<noteq> 0 then Some c else None)\<rparr>)) b"
      using q(1) [of b] l(1) [of b] p by (simp add: owner_of_def [of s'] win_def) (simp add: owner_of_def)
  qed
qed

lemma set_owner_step:
  assumes "ProcSetSelectionOwner e c len w sel t s = (r, s')" "sel_inv s" "clock_ok e"
  shows "sel_inv s' \<and> stamp_pos (sel_time s) \<le> stamp_pos (sel_time s') \<and>
    (\<forall>a. stamp_pos (lastTimeChanged (owner_of s a)) \<le> stamp_pos (lastTimeChanged (owner_of s' a)))"
proof -
  let ?s = "sel_update_time e s"
  have mono: "stamp_pos (sel_time s) \<le> stamp_pos (sel_tick e (sel_time s))" using assms(3) by (simp add: clock_ok_def)
  have inv: "sel_inv ?s" using update_time_inv assms(2,3) by blast
  have own: "owner_of ?s a = owner_of s a" for a by (rule owner_of_cong) simp
  show ?thesis
    using assms(1)
  proof (cases rule: set_owner_paths)
    case bad then show ?thesis using assms(2) by simp
  next
    case kept then show ?thesis using inv mono own by simp
  next
    case looked
    then show ?thesis using lookup_selection(1,3,7) [OF looked] inv own mono by simp
  next
    case (taken p s1)
    note l = taken_step(1,2,4) [where sel = sel, OF taken(1) inv taken(2), folded taken(4)]
    show ?thesis using l taken_step(3) [OF taken(1) inv taken(2)] taken(2,3) mono own by simp
  qed
qed

text \<open>The other requests leave the abstract view alone.\<close>

lemma get_owner_step:
  assumes "ProcGetSelectionOwner e c len sel s = (r, s')"
  shows "owner_of s' = owner_of s \<and> sel_time s' = sel_time s \<and> sel_events s' = sel_events s \<and> (sel_inv s \<longrightarrow> sel_inv s')"
proof -
  let ?a = "sp_selection (sfilter e (sel_param SELECTION_FILTER_GETOWNER c sel))"
  let ?c = "sp_client (sfilter e (sel_param SELECTION_FILTER_GETOWNER c sel))"
  obtain rr s1 where l: "dixLookupSelection e ?a ?c DixGetAttrAccess s = (rr, s1)" by fastforce
  have "s' = s \<or> s' = s1"
    using assms l by (auto simp: ProcGetSelectionOwner_def Let_def split: if_splits sum.splits)
  then show ?thesis using lookup_selection(1,3,4,7) [OF l] by (auto simp: fun_eq_iff)
qed

lemma answer_frame:
  assumes "selection_refused e c param sel s = (r, s') \<or> selection_request e c stuff p s = (r, s')"
  shows "CurrentSelections s' = CurrentSelections s" "sel_time s' = sel_time s"
  using assms by (auto simp: selection_refused_def selection_request_def WriteEventsToClient_def Let_def split: if_splits)

lemma convert_step:
  assumes "ProcConvertSelection e c len stuff s = (r, s')" "sel_inv s" "clock_ok e"
  shows "owner_of s' = owner_of s \<and> stamp_pos (sel_time s) \<le> stamp_pos (sel_time s') \<and> sel_inv s'"
proof -
  let ?p = "sfilter e ((sel_param SELECTION_FILTER_CONVERT c (cs_selection stuff))
      \<lparr>sp_requestor := cs_requestor stuff, sp_property := cs_property stuff, sp_target := cs_target stuff, sp_time := cs_time stuff\<rparr>)"
  let ?u = "if cs_time stuff = CurrentTime then sel_update_time e s else s"
  have u: "sel_inv ?u" "stamp_pos (sel_time s) \<le> stamp_pos (sel_time ?u)" "owner_of ?u = owner_of s"
    using update_time_inv [OF assms(3,2)] assms(2,3) owner_of_cong [of "sel_update_time e s" s]
    by (auto simp: clock_ok_def)
  obtain rr s1 where l: "dixLookupSelection e (sp_selection ?p) c DixReadAccess ?u = (rr, s1)" by fastforce
  note k = lookup_selection(1,3,7) [OF l]
  have s1: "sel_inv s1" "stamp_pos (sel_time s) \<le> stamp_pos (sel_time s1)" "owner_of s1 = owner_of s"
    using k u by (simp_all add: fun_eq_iff)
  consider "s' = s" | "s' = s1" | "selection_refused e c ?p (cs_selection stuff) s1 = (r, s')"
    | p where "selection_request e c stuff p s1 = (r, s')"
    using assms(1) l by (simp add: ProcConvertSelection_def Let_def split: if_splits sum.splits)
  then show ?thesis
  proof cases
    case 1 then show ?thesis using assms(2) by simp
  next
    case 2 then show ?thesis using s1 by simp
  next
    case 3
    have f: "CurrentSelections s' = CurrentSelections s1" "sel_time s' = sel_time s1"
      using answer_frame 3 by metis+
    then show ?thesis using s1 sel_inv_cong [OF f(1)] owner_of_cong [OF f(1)] by (simp add: fun_eq_iff)
  next
    case (4 p)
    have f: "CurrentSelections s' = CurrentSelections s1" "sel_time s' = sel_time s1"
      using answer_frame 4 by metis+
    then show ?thesis using s1 sel_inv_cong [OF f(1)] owner_of_cong [OF f(1)] by (simp add: fun_eq_iff)
  qed
qed

lemma delete_window_owner:
  "owner_of (DeleteWindowFromAnySelections w s) a =
     (if pWin (owner_of s a) = Some w then disown (owner_of s a) else owner_of s a)"
  by (rule owner_of_map) (simp_all add: DeleteWindowFromAnySelections_def disown_walk_eq)

lemma delete_client_owner:
  "owner_of (DeleteClientFromAnySelections c s) a =
     (if s_client (owner_of s a) = Some c then disown (owner_of s a) else owner_of s a)"
  by (rule owner_of_map) (simp_all add: DeleteClientFromAnySelections_def disown_walk_eq)

lemma delete_inv:
  "sel_inv s \<Longrightarrow> sel_inv (DeleteWindowFromAnySelections w s)" "sel_inv s \<Longrightarrow> sel_inv (DeleteClientFromAnySelections c s)"
  by (erule map_disown_inv [where P = "\<lambda>p. pWin p = Some w"], simp_all add: DeleteWindowFromAnySelections_def disown_walk_eq)
     (erule map_disown_inv [where P = "\<lambda>p. s_client p = Some c"], simp_all add: DeleteClientFromAnySelections_def disown_walk_eq)

lemma delete_time [simp]:
  "sel_time (DeleteWindowFromAnySelections w s) = sel_time s" "sel_time (DeleteClientFromAnySelections c s) = sel_time s"
  by (simp_all add: DeleteWindowFromAnySelections_def DeleteClientFromAnySelections_def disown_walk_eq)

subsection \<open>Runs of the server\<close>

text \<open>The steps of the component between two server resets.\<close>

inductive sel_step :: "sel_env \<Rightarrow> sel_state \<Rightarrow> sel_state \<Rightarrow> bool" for e where
  set_owner: "ProcSetSelectionOwner e c len w sel t s = (r, s') \<Longrightarrow> sel_step e s s'"
| get_owner: "ProcGetSelectionOwner e c len sel s = (r', s') \<Longrightarrow> sel_step e s s'"
| convert: "ProcConvertSelection e c len stuff s = (r, s') \<Longrightarrow> sel_step e s s'"
| window_gone: "sel_step e s (DeleteWindowFromAnySelections w s)"
| client_gone: "sel_step e s (DeleteClientFromAnySelections c s)"

lemma sel_step_mono:
  assumes "sel_step e s s'" "sel_inv s" "clock_ok e"
  shows "sel_inv s' \<and> (\<forall>a. stamp_pos (lastTimeChanged (owner_of s a)) \<le> stamp_pos (lastTimeChanged (owner_of s' a)))"
  using assms
proof cases
  case set_owner then show ?thesis using set_owner_step assms by blast
next
  case get_owner then show ?thesis using get_owner_step assms by fastforce
next
  case convert then show ?thesis using convert_step assms by fastforce
next
  case window_gone then show ?thesis using assms by (simp add: delete_inv delete_window_owner)
next
  case client_gone then show ?thesis using assms by (simp add: delete_inv delete_client_owner)
qed

text \<open>C22. In every run of the server from a reset, whatever the security hooks and filter callbacks decide: no
  selection is in the list twice, a selection has an owner window exactly when it has an owning client, its time of
  last change is not in the future, and that time never goes back.\<close>

theorem selections_invariant:
  assumes "clock_ok e" "(sel_step e)\<^sup>*\<^sup>* (InitSelections s0) s" "(sel_step e)\<^sup>*\<^sup>* s s'"
  shows "sel_inv s \<and> (\<forall>a. stamp_pos (lastTimeChanged (owner_of s a)) \<le> stamp_pos (lastTimeChanged (owner_of s' a)))"
proof -
  have run: "sel_inv u' \<and> (\<forall>a. stamp_pos (lastTimeChanged (owner_of u a)) \<le> stamp_pos (lastTimeChanged (owner_of u' a)))"
    if "(sel_step e)\<^sup>*\<^sup>* u u'" "sel_inv u" for u u'
    using that
  proof (induction rule: rtranclp_induct)
    case (step y z)
    then show ?case using sel_step_mono [OF step(2) _ assms(1)] by (meson order_trans)
  qed simp
  have "sel_inv (InitSelections s0)" by (simp add: InitSelections_def sel_inv_def)
  then show ?thesis using run assms(2,3) by blast
qed

subsection \<open>Setting, reading and converting\<close>

text \<open>Examples: a server with one selection, owned by client 2 with window 9 since time 5; nobody vetoes.\<close>

definition sel_example_env :: sel_env where
  "sel_example_env = \<lparr>xsel = (\<lambda>_ _ _. Success), sel_window = (\<lambda>_ _ _. Success), sfilter = (\<lambda>p. p), sel_alloc = True,
     sel_tick = (\<lambda>t. t), clientGone = (\<lambda>_. False)\<rparr>"

definition sel_example :: sel_state where
  "sel_example = \<lparr>CurrentSelections = [\<lparr>selection = 1, lastTimeChanged = \<lparr>months = 0, milliseconds = 5\<rparr>,
       s_window = 9, pWin = Some 9, s_client = Some 2\<rparr>],
     sel_time = \<lparr>months = 0, milliseconds = 100\<rparr>,
     sel_atoms = \<lparr>atomRoot = ALeaf, lastAtom = 68, tableLength = 0, nodeTable = []\<rparr>, sel_events = [], sel_calls = []\<rparr>"

lemma sel_example_simps:
  "sel_inv sel_example" "sel_open sel_example_env" "clock_ok sel_example_env"
  "ValidAtom 1 (sel_atoms sel_example)"
  "owner_of sel_example 1 = \<lparr>selection = 1, lastTimeChanged = \<lparr>months = 0, milliseconds = 5\<rparr>, s_window = 9,
     pWin = Some 9, s_client = Some 2\<rparr>"
  by (simp_all add: sel_inv_def sel_example_def owner_ok_def stamp_pos_def sel_open_def sel_example_env_def clock_ok_def
      ValidAtom_def NoAtom_def owner_of_def find_selection_def)

theorem selections_invariant_witness:
  "\<exists>s'. ProcSetSelectionOwner sel_example_env 3 4 8 1 50 (InitSelections sel_example) = (Done, s') \<and> sel_inv s'"
proof -
  obtain r s' where r: "ProcSetSelectionOwner sel_example_env 3 4 8 1 50 (InitSelections sel_example) = (r, s')" by fastforce
  then have "(sel_step sel_example_env)\<^sup>*\<^sup>* (InitSelections sel_example) s'"
    using set_owner by blast
  then have "sel_inv s'" using selections_invariant [OF sel_example_simps(3) _ rtranclp.rtrancl_refl] by blast
  moreover have "r = Done"
    using r by (simp add: ProcSetSelectionOwner_def Let_def sel_example_env_def REQUEST_SIZE_MATCH_def sz_xSetSelectionOwnerReq_def
        sel_param_def sel_example_def InitSelections_def ValidAtom_def NoAtom_def dixLookupSelection_def find_selection_def
        sel_update_time_def split: if_splits)
  ultimately show ?thesis using r by blast
qed

text \<open>Whether a request of time \<open>t\<close> is timely: not in the server's future, not before the last change.\<close>

definition timely :: "sel_env \<Rightarrow> sel_state \<Rightarrow> atom \<Rightarrow> card32 \<Rightarrow> bool" where
  "timely e s sel t \<longleftrightarrow>
     (let now = sel_tick e (sel_time s); ts = ClientTimeToServerTime now t
      in stamp_pos ts \<le> stamp_pos now \<and> stamp_pos (lastTimeChanged (owner_of s sel)) \<le> stamp_pos ts)"

text \<open>The events of a change of hands with nobody filtering.\<close>

lemma take_ownership_events:
  assumes "sel_open e" "\<not> sp_skip param"
  shows "sel_events (take_ownership e c param sel t win p s) = sel_events s @
    (if s_client p \<noteq> None \<and> (win = None \<or> s_client p \<noteq> Some c)
     then [(s_client p, SelectionClear (milliseconds t) (s_window p) sel)] else [])"
  using assms
  by (simp add: take_ownership_def Let_def selection_clear_def sel_open_def sel_param_def WriteEventsToClient_def)

lemma set_owner_open:
  fixes c w t
  assumes "sel_open e" "ValidAtom sel (sel_atoms s)"
  defines "u \<equiv> sel_update_time e s" and "param \<equiv> (sel_param SELECTION_FILTER_SETOWNER c sel)\<lparr>sp_owner := w\<rparr>"
    and "ts \<equiv> ClientTimeToServerTime (sel_tick e (sel_time s)) t"
  obtains s1 where "dixLookupSelection e sel c DixSetAttrAccess u = (Inr (owner_of s sel), s1)"
    "timely e s sel t \<Longrightarrow> ProcSetSelectionOwner e c 4 w sel t s =
       (Done, take_ownership e c param sel ts (if w \<noteq> 0 then Some w else None) (owner_of s sel) s1)"
    "\<not> timely e s sel t \<Longrightarrow> ProcSetSelectionOwner e c 4 w sel t s = (Done, u) \<or>
       ProcSetSelectionOwner e c 4 w sel t s = (Done, s1)"
proof -
  obtain s1 where l: "dixLookupSelection e sel c DixSetAttrAccess u = (Inr (owner_of s sel), s1)"
    using lookup_open [OF assms(1), of sel c DixSetAttrAccess u] owner_of_cong [of u s sel] by (auto simp: u_def)
  have p: "sp_selection param = sel" "sp_owner param = w" "\<not> sp_skip param" by (simp_all add: param_def sel_param_def)
  have w: "sel_window e w c DixSetAttrAccess = Success" using assms(1) by (simp add: sel_open_def)
  have f: "sfilter e ((sel_param SELECTION_FILTER_SETOWNER c sel)\<lparr>sp_owner := w\<rparr>) = param"
    using assms(1) by (simp add: sel_open_def param_def)
  have d: "ProcSetSelectionOwner e c 4 w sel t s =
    (if CompareTimeStamps ts (sel_tick e (sel_time s)) = LATER then (Done, u)
     else if CompareTimeStamps ts (lastTimeChanged (owner_of s sel)) = EARLIER then (Done, s1)
     else (Done, take_ownership e c param sel ts (if w \<noteq> 0 then Some w else None) (owner_of s sel) s1))"
    using p w l assms(2)
    by (simp add: ProcSetSelectionOwner_def Let_def f REQUEST_SIZE_MATCH_def sz_xSetSelectionOwnerReq_def ts_def u_def)
  show ?thesis
    using l d by (intro that [of s1]) (auto simp: timely_def Let_def ts_def CompareTimeStamps_EARLIER CompareTimeStamps_LATER)
qed

text \<open>Reading the owner with nobody filtering.\<close>

lemma get_owner_open:
  assumes "sel_open e" "ValidAtom sel (sel_atoms s)"
  shows "\<exists>s'. ProcGetSelectionOwner e c 2 sel s = (Reply (s_window (owner_of s sel)), s')"
  using assms lookup_open [OF assms(1), of sel c DixGetAttrAccess s]
  by (auto simp: ProcGetSelectionOwner_def Let_def REQUEST_SIZE_MATCH_def sz_xGetSelectionOwnerReq_def sel_open_def sel_param_def)

lemma take_ownership_atoms: "sel_atoms (take_ownership e c param sel t win p s) = sel_atoms s"
  by (simp add: take_ownership_def Let_def selection_clear_def WriteEventsToClient_def CallSelectionCallback_def set_selection_def)

text \<open>C21. A SetSelectionOwner request that nobody vetoes takes effect exactly when it is timely, that is, neither later than
  the server's clock nor earlier than the last change of the selection. Then the selection it names has the new owner
  window, client and time, every other selection is as before, and the previous owner gets exactly one SelectionClear if it is
  another client or the selection is given up. Otherwise no selection changes and no event is sent. A
  GetSelectionOwner request of any client that follows replies the owner window of that moment.\<close>

theorem SetSelectionOwner_effect:
  fixes t
  assumes "sel_open e" "clock_ok e" "sel_inv s" "ValidAtom sel (sel_atoms s)"
  defines "old \<equiv> owner_of s sel" and "ts \<equiv> ClientTimeToServerTime (sel_tick e (sel_time s)) t"
  shows "\<exists>s'. ProcSetSelectionOwner e c 4 w sel t s = (Done, s') \<and>
    (if timely e s sel t
     then owner_of s' = (owner_of s)(sel := old\<lparr>lastTimeChanged := ts, s_window := w,
            pWin := (if w \<noteq> 0 then Some w else None), s_client := (if w \<noteq> 0 then Some c else None)\<rparr>) \<and>
          sel_events s' = sel_events s @
            (if s_client old \<noteq> None \<and> (w = 0 \<or> s_client old \<noteq> Some c)
             then [(s_client old, SelectionClear (milliseconds ts) (s_window old) sel)] else [])
     else owner_of s' = owner_of s \<and> sel_events s' = sel_events s) \<and>
    (\<exists>s''. ProcGetSelectionOwner e c' 2 sel s' = (Reply (s_window (owner_of s' sel)), s''))"
proof -
  let ?u = "sel_update_time e s"
  let ?param = "(sel_param SELECTION_FILTER_SETOWNER c sel)\<lparr>sp_owner := w\<rparr>"
  have u: "owner_of ?u = owner_of s" using owner_of_cong [of ?u s] by (simp add: fun_eq_iff)
  obtain s1 where l: "dixLookupSelection e sel c DixSetAttrAccess ?u = (Inr (owner_of s sel), s1)"
    and yes: "timely e s sel t \<Longrightarrow> ProcSetSelectionOwner e c 4 w sel t s =
       (Done, take_ownership e c ?param sel ts (if w \<noteq> 0 then Some w else None) (owner_of s sel) s1)"
    and no: "\<not> timely e s sel t \<Longrightarrow> ProcSetSelectionOwner e c 4 w sel t s = (Done, ?u) \<or>
       ProcSetSelectionOwner e c 4 w sel t s = (Done, s1)"
    using set_owner_open [OF assms(1,4)] unfolding ts_def by metis
  have p: "sp_selection ?param = sel" "sp_owner ?param = w" "\<not> sp_skip ?param" by (simp_all add: sel_param_def)
  have s1: "owner_of s1 = owner_of s" "sel_events s1 = sel_events s" "sel_atoms s1 = sel_atoms s"
    using lookup_selection(1,4,6) [OF l] u by (auto simp: fun_eq_iff)
  have get: "\<exists>s''. ProcGetSelectionOwner e c' 2 sel s' = (Reply (s_window (owner_of s' sel)), s'')" if "sel_atoms s' = sel_atoms s" for s'
    using get_owner_open [OF assms(1)] assms(4) that by metis
  show ?thesis
  proof (cases "timely e s sel t")
    case True
    have "stamp_pos ts \<le> stamp_pos (sel_time ?u)" using True by (simp add: timely_def Let_def ts_def)
    then show ?thesis
      using yes [OF True] True u taken_step(4) [where param = ?param and sel = sel, unfolded p, OF l update_time_inv [OF assms(2,3)]]
        take_ownership_events [OF assms(1) p(3)] s1(2) get [of "take_ownership e c ?param sel ts (if w \<noteq> 0 then Some w else None) (owner_of s sel) s1"]
        s1(3) take_ownership_atoms
      by (simp add: old_def)
  next
    case False
    then show ?thesis using no [OF False] s1 u get [of ?u] get [of s1] by auto
  qed
qed

theorem SetSelectionOwner_effect_witness:
  "\<exists>s'. ProcSetSelectionOwner sel_example_env 3 4 8 1 50 sel_example = (Done, s') \<and> s_window (owner_of s' 1) = 8 \<and>
     s_client (owner_of s' 1) = Some 3 \<and> sel_events s' = [(Some 2, SelectionClear 50 9 1)]"
proof -
  have "timely sel_example_env sel_example 1 50"
    using sel_example_simps(5)
    by (simp add: timely_def Let_def sel_example_env_def sel_example_def ClientTimeToServerTime_def CurrentTime_def
        stamp_pos_def HALFMONTH_def)
  moreover have "sel_events sel_example = []" "milliseconds (ClientTimeToServerTime (sel_tick sel_example_env (sel_time sel_example)) 50) = 50"
    by (simp_all add: sel_example_def sel_example_env_def ClientTimeToServerTime_def CurrentTime_def Let_def HALFMONTH_def)
  ultimately show ?thesis
    using SetSelectionOwner_effect [OF sel_example_simps(2,3,1,4), where c = 3 and c' = 4 and w = 8 and t = 50] sel_example_simps(5) by auto
qed

text \<open>C40. A ConvertSelection request with valid atoms that nobody vetoes sends exactly one event and changes no owner: a
  SelectionRequest to the owner if there is one that can answer, and otherwise a SelectionNotify with property None to the
  requestor.\<close>

theorem ConvertSelection_one_event:
  assumes "sel_open e" "ValidAtom sel (sel_atoms s)" "ValidAtom target (sel_atoms s)"
    "prop = 0 \<or> ValidAtom prop (sel_atoms s)"
  shows "\<exists>s'. ProcConvertSelection e c 6 \<lparr>cs_requestor = rq, cs_selection = sel, cs_target = target, cs_property = prop,
       cs_time = t\<rparr> s = (Done, s') \<and> owner_of s' = owner_of s \<and>
     sel_events s' = sel_events s @
       [if live_owner e (owner_of s sel)
        then (s_client (owner_of s sel), SelectionRequest (s_window (owner_of s sel)) t rq sel target prop)
        else (Some c, SelectionNotify t rq sel target 0)]"
proof -
  let ?u = "if t = CurrentTime then sel_update_time e s else s"
  have u: "owner_of ?u = owner_of s" "sel_events ?u = sel_events s"
    using owner_of_cong [of ?u s] by (auto simp: fun_eq_iff)
  obtain s1 where l: "dixLookupSelection e sel c DixReadAccess ?u = (Inr (owner_of s sel), s1)"
    using lookup_open [OF assms(1), of sel c DixReadAccess ?u] u(1) by metis
  have s1: "owner_of s1 = owner_of s" "sel_events s1 = sel_events s"
    using lookup_selection(1,4) [OF l] u by (auto simp: fun_eq_iff)
  have w: "owner_of (WriteEventsToClient k ev s1) = owner_of s" for k ev
    using owner_of_cong [of "WriteEventsToClient k ev s1" s1] s1(1) by (simp add: fun_eq_iff WriteEventsToClient_def)
  show ?thesis
    using assms l s1 w
    by (simp add: ProcConvertSelection_def REQUEST_SIZE_MATCH_def sz_xConvertSelectionReq_def sel_open_def sel_param_def
        selection_request_def selection_refused_def Let_def WriteEventsToClient_def)
qed

theorem ConvertSelection_one_event_witness:
  "\<exists>s'. ProcConvertSelection sel_example_env 3 6 \<lparr>cs_requestor = 8, cs_selection = 1, cs_target = 31, cs_property = 0,
       cs_time = 60\<rparr> sel_example = (Done, s') \<and> sel_events s' = [(Some 2, SelectionRequest 9 60 8 1 31 0)]"
proof -
  have "ValidAtom 31 (sel_atoms sel_example)" "sel_events sel_example = []" "live_owner sel_example_env (owner_of sel_example 1)"
    using sel_example_simps(5)
    by (simp_all add: sel_example_def ValidAtom_def NoAtom_def live_owner_def sel_example_env_def)
  then show ?thesis
    using ConvertSelection_one_event [OF sel_example_simps(2,4), of 31 0 3 8 60] sel_example_simps(5) by auto
qed

text \<open>When a client goes away, exactly the selections it owned lose their owner (their time of last change stays), and the
  selection callbacks are called once for each of them, with the selection as it was.\<close>

lemma DeleteClientFromAnySelections_disowns:
  "owner_of (DeleteClientFromAnySelections c s) a =
     (if s_client (owner_of s a) = Some c then disown (owner_of s a) else owner_of s a) \<and>
   sel_calls (DeleteClientFromAnySelections c s) = sel_calls s @
     map (\<lambda>p. \<lparr>si_selection = p, si_client = None, si_kind = SelectionClientClose\<rparr>)
       (filter (\<lambda>p. s_client p = Some c) (CurrentSelections s)) \<and>
   sel_events (DeleteClientFromAnySelections c s) = sel_events s"
  using delete_client_owner [of c s a]
  by (simp add: DeleteClientFromAnySelections_def disown_walk_eq)

text \<open>A filter callback that asks to skip every SelectionClear event is not heard: the event is written all the same.\<close>

lemma SelectionClear_skip_ignored:
  "sel_events (snd (ProcSetSelectionOwner
     (sel_example_env\<lparr>sfilter := \<lambda>p. if sp_op p = SELECTION_FILTER_EV_CLEAR then p\<lparr>sp_skip := True\<rparr> else p\<rparr>)
     3 4 8 1 50 sel_example)) = [(Some 2, SelectionClear 50 9 1)]"
  by (simp add: ProcSetSelectionOwner_def Let_def sel_example_env_def REQUEST_SIZE_MATCH_def sz_xSetSelectionOwnerReq_def
      sel_param_def sel_example_def ValidAtom_def NoAtom_def dixLookupSelection_def find_selection_def
      sel_update_time_def ClientTimeToServerTime_def CurrentTime_def HALFMONTH_def CompareTimeStamps_def
      take_ownership_def selection_clear_def WriteEventsToClient_def CallSelectionCallback_def set_selection_def)

end
