(* ===== verification/EventQueue.thy ===== *)
theory EventQueue
  imports XPrelude
begin

text \<open>
  The input event queue (mi/mieq.c): a ring buffer that the input side fills (merging consecutive motion
  events of a device and growing when full) and the main loop drains, handing each event to a
  custom handler or to the device, and a copy of it to the device's master. A device pointer is an
  index, an event list of a slot is an event, or None once it has been freed. What the called code
  (handlers, device procedures, screen saver) does is an argument that acts on the whole state, so it may
  enqueue further events or detach devices; the calls are logged in order.
\<close>

subsection \<open>Events, devices and the queue\<close>

datatype EventType =
    ET_KeyPress | ET_KeyRelease | ET_ButtonPress | ET_ButtonRelease | ET_Motion | ET_TouchBegin | ET_TouchUpdate
  | ET_TouchEnd | ET_TouchOwnership | ET_Enter | ET_Leave | ET_FocusIn | ET_FocusOut | ET_ProximityIn | ET_ProximityOut
  | ET_DeviceChanged | ET_Hierarchy | ET_DGAEvent | ET_RawKeyPress | ET_RawKeyRelease | ET_RawButtonPress
  | ET_RawButtonRelease | ET_RawMotion | ET_RawTouchBegin | ET_RawTouchUpdate | ET_RawTouchEnd | ET_XQuartz
  | ET_BarrierHit | ET_BarrierLeave | ET_GesturePinchBegin | ET_GesturePinchUpdate | ET_GesturePinchEnd
  | ET_GestureSwipeBegin | ET_GestureSwipeUpdate | ET_GestureSwipeEnd

text \<open>The fields of an internal event that this code reads or writes; \<open>ev_rest\<close> stands for the others.\<close>

record InternalEvent =
  ev_type :: EventType
  ev_time :: card32
  ev_deviceid :: nat
  ev_button :: nat
  ev_flags :: "32 word"
  ev_root_x :: int
  ev_root_y :: int
  ev_subtype :: EventType
  ev_rest :: "8 word list"

definition TOUCH_POINTER_EMULATED :: "32 word" where "TOUCH_POINTER_EMULATED = push_bit 5 1"

datatype dev_type = MASTER_POINTER | MASTER_KEYBOARD | SLAVE | MASTER_ATTACHED | KEYBOARD_OR_FLOAT | POINTER_OR_FLOAT

record DeviceInt =
  d_id :: nat
  d_enabled :: bool
  d_type :: dev_type
  d_master :: "nat option"
  d_paired :: "nat option"
  pEnqueueScreen :: "nat option"
  pDequeueScreen :: "nat option"
  lastSlave :: "nat option"
  button_map :: "(nat \<Rightarrow> nat) option"

record EventRec =
  er_event :: "InternalEvent option"
  er_screen :: "nat option"
  er_dev :: "nat option"

record eventq =
  q_head :: nat
  q_tail :: nat
  lastEventTime :: card32
  lastMotion :: nat
  q_events :: "EventRec list"
  nevents :: nat
  dropped :: nat

definition QUEUE_INITIAL_SIZE :: nat where "QUEUE_INITIAL_SIZE = 512"

subsection \<open>Size and growth\<close>

text \<open>\<open>head\<close> and \<open>tail\<close> are ints, the sum is a 64-bit \<open>size_t\<close>.\<close>

definition mieqNumEnqueued :: "eventq \<Rightarrow> nat" where
  "mieqNumEnqueued q =
     (if nevents q \<noteq> 0 then
        let n = nat ((int (q_tail q) - int (q_head q) + int (nevents q)) mod 2 ^ 64)
        in if n \<ge> nevents q then n - nevents q else n
      else 0)"

text \<open>Memory: \<open>qcalloc n\<close> says whether an array of \<open>n\<close> slots can be had, \<open>InitEventList i\<close> whether the event
  list of slot \<open>i\<close> can. A fresh slot's event is cleared memory.\<close>

record mieq_alloc =
  qcalloc :: "nat \<Rightarrow> bool"
  InitEventList :: "nat \<Rightarrow> bool"

definition blank_event :: InternalEvent where
  "blank_event = \<lparr>ev_type = ET_KeyPress, ev_time = 0, ev_deviceid = 0, ev_button = 0, ev_flags = 0, ev_root_x = 0,
     ev_root_y = 0, ev_subtype = ET_KeyPress, ev_rest = []\<rparr>"

definition blank_slot :: EventRec where
  "blank_slot = \<lparr>er_event = Some blank_event, er_screen = None, er_dev = None\<rparr>"

text \<open>The queue's contents moved to the front: the two hunks.\<close>

definition unwound :: "eventq \<Rightarrow> EventRec list" where
  "unwound q = drop (q_head q) (q_events q) @ take (q_head q) (q_events q)"

text \<open>When the event list of a new slot cannot be allocated, the event lists of all earlier slots are freed: those
  of the old queue too, which stays in use.\<close>

definition mieqGrowQueue :: "mieq_alloc \<Rightarrow> nat \<Rightarrow> eventq \<Rightarrow> bool \<times> eventq" where
  "mieqGrowQueue al new_nevents q =
     (if new_nevents \<le> nevents q then (False, q)
      else if \<not> qcalloc al new_nevents then (False, q)
      else if \<not> (\<forall>i \<in> set [nevents q ..< new_nevents]. InitEventList al i)
      then (False, q\<lparr>q_events := map (\<lambda>r. r\<lparr>er_event := None\<rparr>) (q_events q)\<rparr>)
      else (True, q\<lparr>q_tail := mieqNumEnqueued q, q_head := 0, nevents := new_nevents,
              q_events := unwound q @ replicate (new_nevents - nevents q) blank_slot\<rparr>))"

text \<open>\<open>None\<close>: the server gives up with a fatal error.\<close>

definition mieqInit :: "mieq_alloc \<Rightarrow> card32 \<Rightarrow> eventq option" where
  "mieqInit al now =
     (case mieqGrowQueue al QUEUE_INITIAL_SIZE
        \<lparr>q_head = 0, q_tail = 0, lastEventTime = now, lastMotion = 0, q_events = [], nevents = 0, dropped = 0\<rparr> of
        (ok, q) \<Rightarrow> if ok then Some q else None)"

definition mieqFini :: "eventq \<Rightarrow> eventq" where
  "mieqFini q = q\<lparr>q_events := map (\<lambda>r. r\<lparr>er_event := None\<rparr>) (q_events q)\<rparr>"

subsection \<open>Enqueue\<close>

text \<open>The slot the event goes to, once the queue is known to have room: merging decrements a 32-bit unsigned
  copy of the tail.\<close>

definition merges :: "nat \<Rightarrow> eventq \<Rightarrow> bool" where
  "merges isMotion q \<longleftrightarrow> isMotion \<noteq> 0 \<and> isMotion = lastMotion q \<and> q_tail q \<noteq> q_head q"

definition merge_slot :: "eventq \<Rightarrow> nat" where
  "merge_slot q = unat ((of_nat (q_tail q) :: 32 word) - 1) mod nevents q"

text \<open>Storing the event. The event is copied first; the correction of a time that runs backwards is then made
  to the caller's event, which is returned. \<open>None\<close>: the slot's event list has been freed.\<close>

definition store_event :: "nat \<Rightarrow> nat option \<Rightarrow> nat option \<Rightarrow> nat \<Rightarrow> InternalEvent \<Rightarrow> eventq \<Rightarrow> (eventq \<times> InternalEvent) option" where
  "store_event slot pDev screen isMotion ev q =
     (if \<not> slot < length (q_events q) \<or> er_event (q_events q ! slot) = None then None
      else
        let e' = (if ev_time ev < lastEventTime q \<and> lastEventTime q - ev_time ev < 10000
                  then ev\<lparr>ev_time := lastEventTime q\<rparr> else ev)
        in Some (q\<lparr>lastEventTime := ev_time ev,
                   q_events := (q_events q)[slot := \<lparr>er_event = Some ev, er_screen = screen, er_dev = pDev\<rparr>],
                   lastMotion := isMotion, q_tail := (slot + 1) mod nevents q\<rparr>, e'))"

text \<open>\<open>devs\<close> are the devices of the server. A motion event must have a device: the code reads its identifier (\<open>None\<close>).\<close>

definition is_motion :: "(nat \<Rightarrow> DeviceInt) \<Rightarrow> nat option \<Rightarrow> InternalEvent \<Rightarrow> nat" where
  "is_motion devs pDev ev =
     (if ev_type ev = ET_Motion then (case pDev of None \<Rightarrow> 0 | Some d \<Rightarrow> d_id (devs d)) else 0)"

definition mieqEnqueue ::
    "mieq_alloc \<Rightarrow> (nat \<Rightarrow> DeviceInt) \<Rightarrow> nat option \<Rightarrow> InternalEvent \<Rightarrow> eventq \<Rightarrow> (eventq \<times> InternalEvent) option" where
  "mieqEnqueue al devs pDev ev q =
     (let isMotion = is_motion devs pDev ev;
          screen = (case pDev of None \<Rightarrow> None | Some d \<Rightarrow> pEnqueueScreen (devs d))
      in if ev_type ev = ET_Motion \<and> pDev = None then None
         else if merges isMotion q then store_event (merge_slot q) pDev screen isMotion ev q
         else if mieqNumEnqueued q + 1 = nevents q then
           (case mieqGrowQueue al (nevents q * 2) q of
              (False, q') \<Rightarrow> Some (q'\<lparr>dropped := dropped q' + 1\<rparr>, ev)
            | (True, q') \<Rightarrow> store_event (q_tail q') pDev screen isMotion ev q')
         else store_event (q_tail q) pDev screen isMotion ev q)"

subsection \<open>Devices and their masters\<close>

definition InputDevIsMaster :: "DeviceInt \<Rightarrow> bool" where
  "InputDevIsMaster d \<longleftrightarrow> d_type d = MASTER_POINTER \<or> d_type d = MASTER_KEYBOARD"

text \<open>\<open>GetPairedDevice\<close> is called here on a master device only, whose paired device it reads from the sprite.\<close>

definition GetMaster :: "(nat \<Rightarrow> DeviceInt) \<Rightarrow> nat \<Rightarrow> dev_type \<Rightarrow> nat option" where
  "GetMaster devs dev which =
     (let master = (if InputDevIsMaster (devs dev) then Some dev else d_master (devs dev)) in
      if \<not> InputDevIsMaster (devs dev) \<and> master = None \<and> (which = POINTER_OR_FLOAT \<or> which = KEYBOARD_OR_FLOAT)
      then Some dev
      else case master of
             None \<Rightarrow> None
           | Some m \<Rightarrow>
               if which = MASTER_ATTACHED then Some m
               else if which = MASTER_KEYBOARD \<or> which = KEYBOARD_OR_FLOAT then
                 (if d_type (devs m) \<noteq> MASTER_KEYBOARD then d_paired (devs m) else Some m)
               else (if d_type (devs m) \<noteq> MASTER_POINTER then d_paired (devs m) else Some m))"

definition InputDevIsFloating :: "(nat \<Rightarrow> DeviceInt) \<Rightarrow> nat \<Rightarrow> bool" where
  "InputDevIsFloating devs dev \<longleftrightarrow> \<not> InputDevIsMaster (devs dev) \<and> GetMaster devs dev MASTER_KEYBOARD = None"

definition mieqSwitchScreen :: "nat \<Rightarrow> nat option \<Rightarrow> bool \<Rightarrow> (nat \<Rightarrow> DeviceInt) \<Rightarrow> nat \<Rightarrow> DeviceInt" where
  "mieqSwitchScreen dev screen set_dequeue_screen devs =
     (let d = (devs dev)\<lparr>pEnqueueScreen := screen\<rparr>
      in devs(dev := if set_dequeue_screen then d\<lparr>pDequeueScreen := screen\<rparr> else d))"

definition ChangeDeviceID :: "DeviceInt \<Rightarrow> InternalEvent \<Rightarrow> InternalEvent" where
  "ChangeDeviceID dev ev =
     (if ev_type ev \<in> {ET_Motion, ET_KeyPress, ET_KeyRelease, ET_ButtonPress, ET_ButtonRelease, ET_ProximityIn,
          ET_ProximityOut, ET_Hierarchy, ET_DeviceChanged, ET_TouchBegin, ET_TouchUpdate, ET_TouchEnd}
      then ev\<lparr>ev_deviceid := d_id dev\<rparr>
      else if ev_type ev = ET_TouchOwnership then ev\<lparr>ev_deviceid := d_id dev\<rparr>
      else if ev_type ev = ET_DGAEvent then ev
      else if ev_type ev \<in> {ET_RawKeyPress, ET_RawKeyRelease, ET_RawButtonPress, ET_RawButtonRelease, ET_RawMotion,
          ET_RawTouchBegin, ET_RawTouchEnd, ET_RawTouchUpdate} then ev\<lparr>ev_deviceid := d_id dev\<rparr>
      else if ev_type ev \<in> {ET_BarrierHit, ET_BarrierLeave} then ev\<lparr>ev_deviceid := d_id dev\<rparr>
      else if ev_type ev \<in> {ET_GesturePinchBegin, ET_GesturePinchUpdate, ET_GesturePinchEnd, ET_GestureSwipeBegin,
          ET_GestureSwipeUpdate, ET_GestureSwipeEnd} then ev\<lparr>ev_deviceid := d_id dev\<rparr>
      else ev)"

definition FixUpEventForMaster :: "DeviceInt \<Rightarrow> InternalEvent \<Rightarrow> InternalEvent \<Rightarrow> InternalEvent" where
  "FixUpEventForMaster sdev original master =
     (if ev_type original = ET_ButtonPress \<or> ev_type original = ET_ButtonRelease then
        (case button_map sdev of None \<Rightarrow> master | Some f \<Rightarrow> master\<lparr>ev_button := f (ev_button original)\<rparr>)
      else master)"

definition master_type :: "EventType \<Rightarrow> dev_type" where
  "master_type t =
     (if t \<in> {ET_KeyPress, ET_KeyRelease} then MASTER_KEYBOARD
      else if t \<in> {ET_ButtonPress, ET_ButtonRelease, ET_Motion, ET_ProximityIn, ET_ProximityOut} then MASTER_POINTER
      else MASTER_ATTACHED)"

text \<open>Whether changing the device identifier of an event reads the device.\<close>

definition has_deviceid :: "InternalEvent \<Rightarrow> bool" where
  "has_deviceid ev \<longleftrightarrow> ev_type ev \<notin> {ET_DGAEvent, ET_Enter, ET_Leave, ET_FocusIn, ET_FocusOut, ET_XQuartz}"

text \<open>The master that gets a copy of the event, and the copy, if there is one. The outer \<open>None\<close>: a slave that is not
  floating has no master of the kind, and the code dereferences it.\<close>

definition CopyGetMasterEvent :: "(nat \<Rightarrow> DeviceInt) \<Rightarrow> nat option \<Rightarrow> InternalEvent \<Rightarrow> (nat \<times> InternalEvent) option option" where
  "CopyGetMasterEvent devs sdev original =
     (case sdev of
        None \<Rightarrow> Some None
      | Some d \<Rightarrow>
          if InputDevIsMaster (devs d) \<or> InputDevIsFloating devs d then Some None
          else
            let t = (if ev_type original = ET_DGAEvent then ev_subtype original else ev_type original) in
            case GetMaster devs d (master_type t) of
              None \<Rightarrow> if has_deviceid original then None else Some None
            | Some m \<Rightarrow> Some (Some (m, FixUpEventForMaster (devs d) original (ChangeDeviceID (devs m) original))))"

subsection \<open>Processing\<close>

datatype mcall =
    ProcessInput nat InternalEvent
  | Handler nat nat InternalEvent "nat option"
  | NewCurrentScreen nat nat int int
  | SaveScreensOff | SetScreenSaverTimer | DPMSSetOn
  | UpdateSprite nat
  | Drained

record mstate =
  mq :: eventq
  devs :: "nat \<Rightarrow> DeviceInt"
  handlers :: "EventType \<Rightarrow> nat option"
  screenIsSaved :: bool
  dpmsOn :: bool
  mcalls :: "mcall list"

type_synonym effects = "mcall \<Rightarrow> mstate \<Rightarrow> mstate"

definition do_call :: "effects \<Rightarrow> mcall \<Rightarrow> mstate \<Rightarrow> mstate" where
  "do_call eff c s = eff c (s\<lparr>mcalls := mcalls s @ [c]\<rparr>)"

definition mieqSetHandler :: "EventType \<Rightarrow> nat option \<Rightarrow> mstate \<Rightarrow> mstate" where
  "mieqSetHandler t h s = s\<lparr>handlers := (handlers s)(t := h)\<rparr>"

definition mieqMoveToNewScreen :: "effects \<Rightarrow> nat option \<Rightarrow> nat option \<Rightarrow> InternalEvent \<Rightarrow> mstate \<Rightarrow> mstate" where
  "mieqMoveToNewScreen eff dev screen ev s =
     (case (dev, screen) of
        (Some d, Some sc) \<Rightarrow>
          if Some sc \<noteq> pDequeueScreen (devs s d)
          then do_call eff (NewCurrentScreen d sc (ev_root_x ev) (ev_root_y ev))
                 (s\<lparr>devs := (devs s)(d := (devs s d)\<lparr>pDequeueScreen := Some sc\<rparr>)\<rparr>)
          else s
      | _ \<Rightarrow> s)"

definition touch_emulates :: "InternalEvent \<Rightarrow> bool" where
  "touch_emulates ev \<longleftrightarrow> ev_flags ev AND TOUCH_POINTER_EMULATED \<noteq> 0"

definition move_screen :: "effects \<Rightarrow> nat option \<Rightarrow> InternalEvent \<Rightarrow> nat option \<Rightarrow> mstate \<Rightarrow> mstate" where
  "move_screen eff dev ev screen s =
     (if ev_type ev \<in> {ET_Motion, ET_KeyPress, ET_KeyRelease, ET_ButtonPress, ET_ButtonRelease} \<or>
         ev_type ev \<in> {ET_TouchBegin, ET_TouchUpdate, ET_TouchEnd} \<and> touch_emulates ev
      then mieqMoveToNewScreen eff dev screen ev s else s)"

definition set_last_slave :: "nat option \<Rightarrow> nat option \<Rightarrow> mstate \<Rightarrow> mstate" where
  "set_last_slave master dev s =
     (case master of None \<Rightarrow> s | Some m \<Rightarrow> s\<lparr>devs := (devs s)(m := (devs s m)\<lparr>lastSlave := dev\<rparr>)\<rparr>)"

text \<open>Handing the event to the handler or the device, and then the master's copy to the master if the device has not
  been detached meanwhile. \<open>None\<close>: the event has no device and no handler, and the code dereferences the missing device.\<close>

definition hand_over ::
    "effects \<Rightarrow> nat option \<Rightarrow> nat option \<Rightarrow> InternalEvent \<Rightarrow> nat option \<Rightarrow> (nat \<times> InternalEvent) option \<Rightarrow> mstate \<Rightarrow> mstate option" where
  "hand_over eff handler dev ev screen master s =
     (let screenNum = (case Option.bind dev (\<lambda>d. pDequeueScreen (devs s d)) of
                         Some sc \<Rightarrow> sc | None \<Rightarrow> (case screen of Some sc \<Rightarrow> sc | None \<Rightarrow> 0));
          attached = (\<lambda>s. case dev of None \<Rightarrow> False | Some d \<Rightarrow> \<not> InputDevIsFloating (devs s) d);
          then_master = (\<lambda>mk s. case master of
              Some (m, mevent) \<Rightarrow> if attached s then do_call eff (mk m mevent) s else s
            | None \<Rightarrow> s)
      in case handler of
           Some h \<Rightarrow> Some (then_master (\<lambda>m mev. Handler h screenNum mev (Some m)) (do_call eff (Handler h screenNum ev dev) s))
         | None \<Rightarrow>
             (case dev of
                None \<Rightarrow> None
              | Some d \<Rightarrow> Some (then_master ProcessInput (do_call eff (ProcessInput d ev) s))))"

definition mieqProcessDeviceEvent ::
    "effects \<Rightarrow> nat option \<Rightarrow> InternalEvent \<Rightarrow> nat option \<Rightarrow> mstate \<Rightarrow> mstate option" where
  "mieqProcessDeviceEvent eff dev ev screen s0 =
     (if (case dev of None \<Rightarrow> False | Some d \<Rightarrow> \<not> d_enabled (devs s0 d)) then Some s0
      else
        let handler = handlers s0 (ev_type ev);
            s1 = (if handler = None then move_screen eff dev ev screen s0 else s0)
        in case CopyGetMasterEvent (devs s1) dev ev of
             None \<Rightarrow> None
           | Some master \<Rightarrow>
               hand_over eff handler dev ev screen master (set_last_slave (map_option fst master) dev s1))"

text \<open>Waking the screens up before an event is processed.\<close>

definition wake_screens :: "effects \<Rightarrow> mstate \<Rightarrow> mstate" where
  "wake_screens eff s =
     (let s1 = (if screenIsSaved s then do_call eff SaveScreensOff s
                else if \<not> dpmsOn s then do_call eff SetScreenSaverTimer s else s)
      in if \<not> dpmsOn s1 then do_call eff DPMSSetOn s1 else s1)"

text \<open>What one round of the loop does with the event it took out.\<close>

definition deliver :: "effects \<Rightarrow> EventRec \<Rightarrow> InternalEvent \<Rightarrow> mstate \<Rightarrow> mstate option" where
  "deliver eff r ev s =
     (let master = (case er_dev r of None \<Rightarrow> None | Some d \<Rightarrow> GetMaster (devs s) d MASTER_ATTACHED)
      in case mieqProcessDeviceEvent eff (er_dev r) ev (er_screen r) (wake_screens eff s) of
           None \<Rightarrow> None
         | Some s' \<Rightarrow>
             Some (case (master, er_dev r) of
                     (Some m, Some d) \<Rightarrow>
                       if ev_type ev = ET_Motion \<or> ev_type ev \<in> {ET_TouchBegin, ET_TouchUpdate} \<and> touch_emulates ev
                       then do_call eff (UpdateSprite d) s' else s'
                   | _ \<Rightarrow> s'))"

definition pop_event :: "eventq \<Rightarrow> eventq" where
  "pop_event q = q\<lparr>q_head := (q_head q + 1) mod nevents q\<rparr>"

text \<open>One round of the loop; \<open>None\<close> when the slot's event list has been freed.\<close>

definition mieq_round :: "effects \<Rightarrow> mstate \<Rightarrow> mstate option" where
  "mieq_round eff s =
     (let r = q_events (mq s) ! q_head (mq s) in
      case er_event r of None \<Rightarrow> None | Some ev \<Rightarrow> deliver eff r ev (s\<lparr>mq := pop_event (mq s)\<rparr>))"

text \<open>The loop may run forever when the called code keeps enqueueing.\<close>

partial_function (option) mieq_loop :: "effects \<Rightarrow> mstate \<Rightarrow> mstate option" where
  "mieq_loop eff s =
     (if q_head (mq s) = q_tail (mq s) then Some s
      else Option.bind (mieq_round eff s) (\<lambda>s'. mieq_loop eff s'))"

definition mieqProcessInputEvents :: "effects \<Rightarrow> mstate \<Rightarrow> mstate option" where
  "mieqProcessInputEvents eff s =
     map_option (do_call eff Drained) (mieq_loop eff (s\<lparr>mq := (mq s)\<lparr>dropped := 0\<rparr>\<rparr>))"

end
