(* ===== verification/EventQueueLaws.thy ===== *)
theory EventQueueLaws
  imports EventQueue
begin

text \<open>
  The event queue is a first-in first-out queue: an interface for ring buffers that grow, its interpretation
  on the queue of mi/mieq.c, and what follows for enqueueing and processing.
\<close>

subsection \<open>The interface of a queue that grows\<close>

locale growing_fifo =
  fixes invar :: "'q \<Rightarrow> bool" and contents :: "'q \<Rightarrow> 'a list"
    and put :: "'a \<Rightarrow> 'q \<Rightarrow> 'q" and full :: "'q \<Rightarrow> bool" and grow :: "'q \<Rightarrow> 'q" and may_grow :: "'q \<Rightarrow> bool"
    and replace_newest :: "'a \<Rightarrow> 'q \<Rightarrow> 'q" and ok :: "'a \<Rightarrow> bool"
    and is_empty :: "'q \<Rightarrow> bool" and front :: "'q \<Rightarrow> 'a" and pop :: "'q \<Rightarrow> 'q"
  assumes put: "invar q \<Longrightarrow> \<not> full q \<Longrightarrow> ok x \<Longrightarrow> invar (put x q) \<and> contents (put x q) = contents q @ [x]"
    and grow: "invar q \<Longrightarrow> may_grow q \<Longrightarrow> invar (grow q) \<and> contents (grow q) = contents q \<and> \<not> full (grow q)"
    and replace: "invar q \<Longrightarrow> contents q \<noteq> [] \<Longrightarrow> ok x \<Longrightarrow>
      invar (replace_newest x q) \<and> contents (replace_newest x q) = butlast (contents q) @ [x]"
    and empty: "invar q \<Longrightarrow> is_empty q \<longleftrightarrow> contents q = []"
    and front: "invar q \<Longrightarrow> contents q \<noteq> [] \<Longrightarrow> front q = hd (contents q)"
    and pop: "invar q \<Longrightarrow> contents q \<noteq> [] \<Longrightarrow> invar (pop q) \<and> contents (pop q) = tl (contents q)"
begin

lemma put_or_grow:
  assumes "invar q" "full q \<Longrightarrow> may_grow q" "ok x"
  defines "q' \<equiv> if full q then grow q else q"
  shows "invar (put x q')" "contents (put x q') = contents q @ [x]"
  using assms grow [of q] put [of q' x] by (auto simp: q'_def)

lemma front_pop:
  assumes "invar q" "contents q = x # xs"
  shows "\<not> is_empty q" "front q = x" "invar (pop q)" "contents (pop q) = xs"
  using assms empty [of q] front [of q] pop [of q] by auto

end

subsection \<open>The ring buffer\<close>

definition queue_inv :: "eventq \<Rightarrow> bool" where
  "queue_inv q \<longleftrightarrow> (\<exists>k \<le> 31. nevents q = 2 ^ k) \<and> 1 < nevents q \<and> length (q_events q) = nevents q \<and>
     q_head q < nevents q \<and> q_tail q < nevents q \<and> (\<forall>r \<in> set (q_events q). er_event r \<noteq> None)"

definition queued :: "eventq \<Rightarrow> EventRec list" where
  "queued q = take (mieqNumEnqueued q) (unwound q)"

lemma num_enqueued:
  assumes "q_head q < nevents q" "q_tail q < nevents q" "nevents q \<le> 2 ^ 31"
  shows "mieqNumEnqueued q = (if q_head q \<le> q_tail q then q_tail q - q_head q else q_tail q + nevents q - q_head q)"
proof -
  let ?n = "int (q_tail q) - int (q_head q) + int (nevents q)"
  have "0 \<le> ?n" "?n < 2 ^ 64" using assms by auto
  then have "?n mod 2 ^ 64 = ?n" by (rule mod_pos_pos_trivial)
  moreover have "nat ?n = q_tail q + nevents q - q_head q" using assms by linarith
  ultimately show ?thesis using assms by (auto simp: mieqNumEnqueued_def Let_def)
qed

lemma queue_inv_size: "queue_inv q \<Longrightarrow> nevents q \<le> 2 ^ 31"
  using power_increasing [of _ 31 "2 :: nat"] by (auto simp: queue_inv_def)

lemma num_facts:
  assumes "queue_inv q"
  shows "mieqNumEnqueued q < nevents q" "q_tail q = (q_head q + mieqNumEnqueued q) mod nevents q"
    "mieqNumEnqueued q = 0 \<longleftrightarrow> q_head q = q_tail q"
  using assms num_enqueued [of q] queue_inv_size [OF assms] by (auto simp: queue_inv_def)

lemma num_unique:
  assumes "q_head q < nevents q" "nevents q \<le> 2 ^ 31" "q_tail q = (q_head q + m) mod nevents q" "m < nevents q"
  shows "mieqNumEnqueued q = m"
proof (cases "q_head q + m < nevents q")
  case True
  then have "q_tail q = q_head q + m" using assms(3) by simp
  then show ?thesis using num_enqueued [OF assms(1) _ assms(2)] True by simp
next
  case False
  then have "q_tail q = q_head q + m - nevents q" using assms by (simp add: mod_if)
  then show ?thesis using num_enqueued [OF assms(1) _ assms(2)] assms False by auto
qed

lemma unwound_rotate: "q_head q < length (q_events q) \<Longrightarrow> unwound q = rotate (q_head q) (q_events q)"
  by (simp add: unwound_def rotate_drop_take)

lemma queued_nth:
  assumes "queue_inv q" "i < mieqNumEnqueued q"
  shows "queued q ! i = q_events q ! ((q_head q + i) mod nevents q)"
  using assms num_facts(1) [OF assms(1)]
  by (simp add: queued_def unwound_rotate queue_inv_def nth_rotate)

lemma length_unwound [simp]: "length (unwound q) = length (q_events q)"
  by (simp add: unwound_def)

lemma length_queued: "queue_inv q \<Longrightarrow> length (queued q) = mieqNumEnqueued q"
  using num_facts(1) [of q] by (simp add: queued_def queue_inv_def)

text \<open>Different offsets from the head are different slots.\<close>

lemma slot_inj:
  fixes h i j n :: nat
  assumes "i < n" "j < n" "(h + i) mod n = (h + j) mod n"
  shows "i = j"
proof -
  have "(int h + int i) mod int n = (int h + int j) mod int n" using assms(3) by (metis of_nat_add zmod_int)
  then have "int i mod int n = int j mod int n" by (metis add_diff_cancel_left' mod_diff_left_eq)
  then show ?thesis using assms by simp
qed

text \<open>Storing a record in a free slot, replacing the newest one, taking the oldest one out, growing.\<close>

lemma put_ring:
  assumes inv: "queue_inv q" and room: "mieqNumEnqueued q + 1 \<noteq> nevents q"
    and q': "nevents q' = nevents q" "q_head q' = q_head q" "q_events q' = (q_events q)[q_tail q := r]"
      "q_tail q' = (q_tail q + 1) mod nevents q"
    and r: "er_event r \<noteq> None"
  shows "queue_inv q'" "queued q' = queued q @ [r]"
proof -
  let ?n = "nevents q" and ?h = "q_head q" and ?m = "mieqNumEnqueued q"
  have n: "?h < ?n" "length (q_events q) = ?n" "0 < ?n" "q_tail q < ?n" "?n \<le> 2 ^ 31"
    using inv queue_inv_size [OF inv] by (auto simp: queue_inv_def)
  have m: "Suc ?m < ?n" using num_facts(1) [OF inv] room by simp
  have t: "q_tail q = (?h + ?m) mod ?n" by (rule num_facts(2) [OF inv])
  have t': "q_tail q' = (?h + (?m + 1)) mod ?n" unfolding q'(4) t by (simp add: mod_Suc_eq)
  show i': "queue_inv q'" using inv q' r n by (auto simp: queue_inv_def dest: set_update_subset_insert [THEN subsetD])
  have m': "mieqNumEnqueued q' = ?m + 1" using num_unique [of q' "?m + 1"] q' n m t' by simp
  show "queued q' = queued q @ [r]"
  proof (rule nth_equalityI)
    show "length (queued q') = length (queued q @ [r])"
      using length_queued [OF i'] length_queued [OF inv] m' by simp
  next
    fix i assume "i < length (queued q')"
    then have i: "i \<le> ?m" using length_queued [OF i'] m' by simp
    have "queued q' ! i = (q_events q)[q_tail q := r] ! ((?h + i) mod ?n)"
      using queued_nth [OF i', of i] i m' q' by simp
    also have "\<dots> = (if i = ?m then r else q_events q ! ((?h + i) mod ?n))"
      using slot_inj [of i ?n ?m ?h] i m n t by (auto simp: nth_list_update)
    finally show "queued q' ! i = (queued q @ [r]) ! i"
      using i queued_nth [OF inv, of i] length_queued [OF inv] by (auto simp: nth_append)
  qed
qed

lemma exp_minus_one_mod:
  assumes "k \<le> n"
  shows "((2 :: nat) ^ n - 1) mod 2 ^ k = 2 ^ k - 1"
proof -
  have "(2 :: nat) ^ n = 2 ^ k * 2 ^ (n - k)" using assms by (simp flip: power_add)
  then have "(2 :: nat) ^ n - 1 = (2 ^ k - 1) + 2 ^ k * (2 ^ (n - k) - 1)" by (simp add: diff_mult_distrib2)
  then have "(2 ^ n - 1) mod 2 ^ k = ((2 :: nat) ^ k - 1) mod 2 ^ k" by (simp only: mod_mult_self2)
  then show ?thesis by simp
qed

lemma merge_slot_eq:
  assumes inv: "queue_inv q" and ne: "q_head q \<noteq> q_tail q"
  shows "merge_slot q = (q_head q + (mieqNumEnqueued q - 1)) mod nevents q"
    "(merge_slot q + 1) mod nevents q = q_tail q"
proof -
  let ?n = "nevents q" and ?h = "q_head q" and ?m = "mieqNumEnqueued q"
  obtain k where k: "?n = 2 ^ k" "k \<le> 31" using inv by (auto simp: queue_inv_def)
  have n: "?h < ?n" "0 < ?n" "q_tail q < ?n" "?n \<le> 2 ^ 31"
    using inv queue_inv_size [OF inv] by (auto simp: queue_inv_def)
  have m: "0 < ?m" "?m < ?n" using num_facts [OF inv] ne by auto
  have t: "q_tail q = (?h + ?m) mod ?n" by (rule num_facts(2) [OF inv])
  have s: "merge_slot q = (if q_tail q = 0 then ?n - 1 else q_tail q - 1)"
  proof (cases "q_tail q = 0")
    case True
    have "((2 :: nat) ^ 32 - 1) mod 2 ^ k = 2 ^ k - 1" using k(2) by (intro exp_minus_one_mod) simp
    moreover have "unat ((of_nat 0 :: 32 word) - 1) = 2 ^ 32 - 1" by (simp add: unsigned_minus_1_eq_mask mask_eq_exp_minus_1)
    ultimately show ?thesis using True k(1) by (simp only: merge_slot_def if_True simp_thms)
  next
    case False
    have "unat (of_nat (q_tail q) :: 32 word) = q_tail q" using n by (simp add: unat_of_nat)
    then have "unat ((of_nat (q_tail q) :: 32 word) - 1) = q_tail q - 1"
      using False unat_minus_one [of "of_nat (q_tail q) :: 32 word"] by (metis unat_0)
    then show ?thesis using False n by (simp add: merge_slot_def)
  qed
  show "(merge_slot q + 1) mod ?n = q_tail q" using s n by auto
  then have "(merge_slot q + 1) mod ?n = ((?h + (?m - 1)) mod ?n + 1) mod ?n"
    using t m by (simp add: mod_Suc_eq)
  then show "merge_slot q = (?h + (?m - 1)) mod ?n"
    using slot_inj [of "merge_slot q" ?n "(?h + (?m - 1)) mod ?n" 1] s n by (simp add: add.commute split: if_splits)
qed

lemma replace_ring:
  assumes inv: "queue_inv q" and ne: "q_head q \<noteq> q_tail q"
    and q': "nevents q' = nevents q" "q_head q' = q_head q" "q_events q' = (q_events q)[merge_slot q := r]"
      "q_tail q' = (merge_slot q + 1) mod nevents q"
    and r: "er_event r \<noteq> None"
  shows "queue_inv q'" "queued q' = butlast (queued q) @ [r]"
proof -
  let ?n = "nevents q" and ?h = "q_head q" and ?m = "mieqNumEnqueued q"
  note sl = merge_slot_eq [OF inv ne]
  have n: "?h < ?n" "length (q_events q) = ?n" "0 < ?n" "q_tail q < ?n" using inv by (auto simp: queue_inv_def)
  have m: "0 < ?m" "?m < ?n" using num_facts [OF inv] ne by auto
  have t': "q_tail q' = q_tail q" using q'(4) sl(2) by simp
  show i': "queue_inv q'"
    using inv q' r n t' by (auto simp: queue_inv_def dest: set_update_subset_insert [THEN subsetD])
  have m': "mieqNumEnqueued q' = ?m" unfolding mieqNumEnqueued_def q'(1,2) t' ..
  show "queued q' = butlast (queued q) @ [r]"
  proof (rule nth_equalityI)
    show "length (queued q') = length (butlast (queued q) @ [r])"
      using length_queued [OF i'] length_queued [OF inv] m' m by simp
  next
    fix i assume "i < length (queued q')"
    then have i: "i < ?m" using length_queued [OF i'] m' by simp
    have "queued q' ! i = (q_events q)[merge_slot q := r] ! ((?h + i) mod ?n)"
      using queued_nth [OF i', of i] i m' q' by simp
    also have "\<dots> = (if i = ?m - 1 then r else q_events q ! ((?h + i) mod ?n))"
      using slot_inj [of i ?n "?m - 1" ?h] i m n sl(1) by (auto simp: nth_list_update)
    finally show "queued q' ! i = (butlast (queued q) @ [r]) ! i"
      using i queued_nth [OF inv, of i] length_queued [OF inv] by (auto simp: nth_append nth_butlast)
  qed
qed

lemma pop_ring:
  assumes inv: "queue_inv q" and ne: "q_head q \<noteq> q_tail q"
  shows "queue_inv (pop_event q)" "queued q = q_events q ! q_head q # queued (pop_event q)"
proof -
  let ?n = "nevents q" and ?h = "q_head q" and ?m = "mieqNumEnqueued q" and ?q = "pop_event q"
  have n: "?h < ?n" "length (q_events q) = ?n" "0 < ?n" "?n \<le> 2 ^ 31"
    using inv queue_inv_size [OF inv] by (auto simp: queue_inv_def)
  have m: "0 < ?m" "?m < ?n" using num_facts [OF inv] ne by auto
  show i': "queue_inv ?q" using inv n by (auto simp: queue_inv_def pop_event_def)
  have shift: "((?h + 1) mod ?n + i) mod ?n = (?h + Suc i) mod ?n" for i by (simp add: mod_simps)
  have m': "mieqNumEnqueued ?q = ?m - 1"
    using num_unique [of ?q "?m - 1"] n m num_facts(2) [OF inv] shift [of "?m - 1"] by (simp add: pop_event_def)
  show "queued q = q_events q ! ?h # queued ?q"
  proof (rule nth_equalityI)
    show "length (queued q) = length (q_events q ! ?h # queued ?q)"
      using length_queued [OF i'] length_queued [OF inv] m' m by simp
  next
    fix i assume "i < length (queued q)"
    then have i: "i < ?m" using length_queued [OF inv] by simp
    show "queued q ! i = (q_events q ! ?h # queued ?q) ! i"
    proof (cases i)
      case 0
      then show ?thesis using queued_nth [OF inv, of 0] m n by simp
    next
      case (Suc j)
      then show ?thesis
        using queued_nth [OF inv i] queued_nth [OF i', of j] i m' shift [of j] by (simp add: pop_event_def)
    qed
  qed
qed

lemma grow_ring:
  assumes inv: "queue_inv q" and g: "mieqGrowQueue al (nevents q * 2) q = (True, q')" and "nevents q * 2 \<le> 2 ^ 31"
  shows "queue_inv q'" "queued q' = queued q" "mieqNumEnqueued q' + 1 \<noteq> nevents q'"
proof -
  let ?n = "nevents q" and ?m = "mieqNumEnqueued q"
  have q': "q' = q\<lparr>q_tail := ?m, q_head := 0, nevents := ?n * 2, q_events := unwound q @ replicate ?n blank_slot\<rparr>"
    using g by (auto simp: mieqGrowQueue_def split: if_splits)
  obtain k where k: "?n = 2 ^ k" "1 < ?n" "length (q_events q) = ?n" using inv by (auto simp: queue_inv_def)
  have "(2 :: nat) ^ Suc k \<le> 2 ^ 31" using assms(3) k(1) by simp
  then have "Suc k \<le> 31" by (rule power_le_imp_le_exp [rotated]) simp
  then have "\<exists>j \<le> 31. ?n * 2 = 2 ^ j" using k(1) by (intro exI [of _ "Suc k"]) simp
  moreover have "set (unwound q) = set (q_events q)"
    by (metis append_take_drop_id set_append sup_commute unwound_def)
  ultimately show i': "queue_inv q'"
    using inv q' num_facts(1) [OF inv] k by (auto simp: queue_inv_def blank_slot_def)
  have m': "mieqNumEnqueued q' = ?m"
    using num_unique [of q' ?m] q' num_facts(1) [OF inv] assms(3) k(2) by simp
  then show "queued q' = queued q"
    using q' num_facts(1) [OF inv] k(3) unfolding queued_def m' by (simp add: unwound_def [of "q_update q" for q_update q])
  show "mieqNumEnqueued q' + 1 \<noteq> nevents q'" using m' q' num_facts(1) [OF inv] by simp
qed

text \<open>The operations as the interface has them.\<close>

definition ring_put :: "nat \<Rightarrow> nat \<Rightarrow> EventRec \<Rightarrow> eventq \<Rightarrow> eventq" where
  "ring_put slot isMotion r q =
     q\<lparr>lastEventTime := ev_time (the (er_event r)), q_events := (q_events q)[slot := r], lastMotion := isMotion,
       q_tail := (slot + 1) mod nevents q\<rparr>"

lemma store_event_ring:
  assumes "queue_inv q" "slot < nevents q"
  shows "\<exists>e'. store_event slot dev sc mo ev q =
    Some (ring_put slot mo \<lparr>er_event = Some ev, er_screen = sc, er_dev = dev\<rparr> q, e')"
  using assms by (auto simp: store_event_def ring_put_def queue_inv_def Let_def dest: nth_mem)

text \<open>The queue as the interface sees it: storing with motion marker \<open>mo\<close>, doubling, merging.\<close>

interpretation mieq: growing_fifo queue_inv queued "\<lambda>r q. ring_put (q_tail q) mo r q"
    "\<lambda>q. mieqNumEnqueued q + 1 = nevents q" "\<lambda>q. snd (mieqGrowQueue al (nevents q * 2) q)"
    "\<lambda>q. fst (mieqGrowQueue al (nevents q * 2) q) \<and> nevents q * 2 \<le> 2 ^ 31"
    "\<lambda>r q. ring_put (merge_slot q) mo r q" "\<lambda>r. er_event r \<noteq> None"
    "\<lambda>q. q_head q = q_tail q" "\<lambda>q. q_events q ! q_head q" pop_event for al :: mieq_alloc and mo :: nat
proof
  fix q x
  assume inv: "queue_inv q"
  have e: "q_head q = q_tail q \<longleftrightarrow> queued q = []"
    using num_facts(3) [OF inv] length_queued [OF inv] by auto
  then show "(q_head q = q_tail q) = (queued q = [])" .
  show "queue_inv (ring_put (q_tail q) mo x q) \<and> queued (ring_put (q_tail q) mo x q) = queued q @ [x]"
    if "\<not> mieqNumEnqueued q + 1 = nevents q" "er_event x \<noteq> None"
    using put_ring [OF inv that(1) _ _ _ _ that(2), of "ring_put (q_tail q) mo x q"] by (simp add: ring_put_def)
  show "queue_inv (snd (mieqGrowQueue al (nevents q * 2) q)) \<and>
     queued (snd (mieqGrowQueue al (nevents q * 2) q)) = queued q \<and>
     \<not> mieqNumEnqueued (snd (mieqGrowQueue al (nevents q * 2) q)) + 1 = nevents (snd (mieqGrowQueue al (nevents q * 2) q))"
    if "fst (mieqGrowQueue al (nevents q * 2) q) \<and> nevents q * 2 \<le> 2 ^ 31"
    using grow_ring [OF inv, of al "snd (mieqGrowQueue al (nevents q * 2) q)"] that
    by (cases "mieqGrowQueue al (nevents q * 2) q") auto
  assume ne: "queued q \<noteq> []"
  then have ht: "q_head q \<noteq> q_tail q" using e by simp
  show "queue_inv (ring_put (merge_slot q) mo x q) \<and> queued (ring_put (merge_slot q) mo x q) = butlast (queued q) @ [x]"
    if "er_event x \<noteq> None"
    using replace_ring [OF inv ht _ _ _ _ that, of "ring_put (merge_slot q) mo x q"] by (simp add: ring_put_def)
  show "q_events q ! q_head q = hd (queued q)" "queue_inv (pop_event q) \<and> queued (pop_event q) = tl (queued q)"
    using pop_ring [OF inv ht] by simp_all
qed

subsection \<open>Enqueueing\<close>

text \<open>The motion marker tells the truth about the newest event that is still queued.\<close>

definition motion_inv :: "(nat \<Rightarrow> DeviceInt) \<Rightarrow> eventq \<Rightarrow> bool" where
  "motion_inv ds q \<longleftrightarrow> (lastMotion q \<noteq> 0 \<and> queued q \<noteq> [] \<longrightarrow>
     (\<exists>ev d. er_event (last (queued q)) = Some ev \<and> ev_type ev = ET_Motion \<and>
        er_dev (last (queued q)) = Some d \<and> d_id (ds d) = lastMotion q))"

text \<open>Arrays beyond \<open>2 ^ 31\<close> slots, which the int indices could not address, are not to be had.\<close>

definition alloc_bounded :: "mieq_alloc \<Rightarrow> bool" where
  "alloc_bounded al \<longleftrightarrow> (\<forall>n. qcalloc al n \<longrightarrow> n \<le> 2 ^ 31) \<and> (\<forall>i. InitEventList al i)"

definition new_record :: "(nat \<Rightarrow> DeviceInt) \<Rightarrow> nat option \<Rightarrow> InternalEvent \<Rightarrow> EventRec" where
  "new_record ds pDev ev = \<lparr>er_event = Some ev,
     er_screen = (case pDev of None \<Rightarrow> None | Some d \<Rightarrow> pEnqueueScreen (ds d)), er_dev = pDev\<rparr>"

lemma stored:
  assumes "queue_inv q'" "queued q' = xs @ [new_record ds pDev ev]" "lastMotion q' = is_motion ds pDev ev"
  shows "motion_inv ds q'"
  using assms by (auto simp: motion_inv_def new_record_def is_motion_def split: if_splits option.splits)

lemma ring_put_fields [simp]:
  "lastMotion (ring_put slot mo r q) = mo" "dropped (ring_put slot mo r q) = dropped q"
  by (simp_all add: ring_put_def)

lemma store_new_record:
  assumes "queue_inv q" "slot < nevents q"
  shows "\<exists>e'. store_event slot pDev (case pDev of None \<Rightarrow> None | Some d \<Rightarrow> pEnqueueScreen (ds d)) mo ev q =
    Some (ring_put slot mo (new_record ds pDev ev) q, e')"
  using store_event_ring [OF assms] by (simp add: new_record_def)

text \<open>The three ways an event enters the queue, and the one in which it is dropped.\<close>

lemma enqueue_merge:
  assumes inv: "queue_inv q" and m: "merges (is_motion ds pDev ev) q"
  shows "\<exists>q' e'. mieqEnqueue al ds pDev ev q = Some (q', e') \<and> queue_inv q' \<and> dropped q' = dropped q \<and>
    lastMotion q' = is_motion ds pDev ev \<and> queued q \<noteq> [] \<and> queued q' = butlast (queued q) @ [new_record ds pDev ev]"
proof -
  let ?r = "new_record ds pDev ev" and ?mo = "is_motion ds pDev ev"
  have ht: "q_head q \<noteq> q_tail q" and mot: "\<not> (ev_type ev = ET_Motion \<and> pDev = None)"
    using m by (auto simp: merges_def is_motion_def split: option.splits)
  have ne: "queued q \<noteq> []" using mieq.empty [OF inv] ht by simp
  have "merge_slot q < nevents q" using inv by (simp add: merge_slot_def queue_inv_def)
  then obtain e' where "store_event (merge_slot q) pDev (case pDev of None \<Rightarrow> None | Some d \<Rightarrow> pEnqueueScreen (ds d)) ?mo ev q =
      Some (ring_put (merge_slot q) ?mo ?r q, e')"
    using store_new_record [OF inv] by blast
  then have "mieqEnqueue al ds pDev ev q = Some (ring_put (merge_slot q) ?mo ?r q, e')"
    using m mot by (auto simp: mieqEnqueue_def Let_def)
  then show ?thesis using mieq.replace [OF inv ne, of ?r ?mo] ne by (simp add: new_record_def)
qed

lemma enqueue_append:
  assumes inv: "queue_inv q" and m: "\<not> merges (is_motion ds pDev ev) q" and mot: "ev_type ev = ET_Motion \<longrightarrow> pDev \<noteq> None"
    and al: "alloc_bounded al" and g: "mieqNumEnqueued q + 1 = nevents q \<Longrightarrow> qcalloc al (nevents q * 2)"
  shows "\<exists>q' e'. mieqEnqueue al ds pDev ev q = Some (q', e') \<and> queue_inv q' \<and> dropped q' = dropped q \<and>
    lastMotion q' = is_motion ds pDev ev \<and> queued q' = queued q @ [new_record ds pDev ev]"
proof -
  let ?r = "new_record ds pDev ev" and ?mo = "is_motion ds pDev ev"
  let ?f = "mieqNumEnqueued q + 1 = nevents q" and ?g = "mieqGrowQueue al (nevents q * 2) q"
  let ?q = "if ?f then snd ?g else q"
  have mot': "\<not> (ev_type ev = ET_Motion \<and> pDev = None)" using mot by blast
  have grows: "?f \<Longrightarrow> fst ?g \<and> nevents q * 2 \<le> 2 ^ 31"
    using g al inv by (auto simp: mieqGrowQueue_def alloc_bounded_def queue_inv_def)
  have ok: "er_event ?r \<noteq> None" by (simp add: new_record_def)
  note put = mieq.put_or_grow [where mo = ?mo and al = al, OF inv grows ok]
  have inv': "queue_inv ?q" using mieq.grow [OF inv grows] inv by auto
  then have sl: "q_tail ?q < nevents ?q" by (simp only: queue_inv_def)
  obtain e' where e': "store_event (q_tail ?q) pDev (case pDev of None \<Rightarrow> None | Some d \<Rightarrow> pEnqueueScreen (ds d)) ?mo ev ?q =
      Some (ring_put (q_tail ?q) ?mo ?r ?q, e')"
    using store_new_record [OF inv' sl] by blast
  have "mieqEnqueue al ds pDev ev q = store_event (q_tail ?q) pDev (case pDev of None \<Rightarrow> None | Some d \<Rightarrow> pEnqueueScreen (ds d)) ?mo ev ?q"
    using m mot' grows by (cases ?g) (auto simp: mieqEnqueue_def Let_def split: bool.split)
  moreover have "dropped ?q = dropped q" by (simp add: mieqGrowQueue_def)
  ultimately show ?thesis using e' put by simp
qed

lemma enqueue_drop:
  assumes "queue_inv q" "\<not> merges (is_motion ds pDev ev) q" "ev_type ev = ET_Motion \<longrightarrow> pDev \<noteq> None"
    and "mieqNumEnqueued q + 1 = nevents q" "\<not> qcalloc al (nevents q * 2)"
  shows "mieqEnqueue al ds pDev ev q = Some (q\<lparr>dropped := dropped q + 1\<rparr>, ev)"
  using assms by (auto simp: mieqEnqueue_def Let_def mieqGrowQueue_def queue_inv_def)

lemma num_frame [simp]: "mieqNumEnqueued (q\<lparr>dropped := n\<rparr>) = mieqNumEnqueued q"
  by (simp add: mieqNumEnqueued_def Let_def)

lemma queued_frame [simp]: "queued (q\<lparr>dropped := n\<rparr>) = queued q" "queue_inv (q\<lparr>dropped := n\<rparr>) = queue_inv q"
  by (simp_all add: queued_def unwound_def queue_inv_def)

text \<open>C23. Enqueueing an event never fails and keeps the queue well formed: the event becomes the newest one in the queue,
  after all events already queued, whether or not the ring has wrapped around or has to grow; only when the newest queued event
  is a motion event of the same device and the new one is a motion event too does it replace that one; and only when the ring is
  full and cannot grow is it dropped and counted, the queue being untouched.\<close>

theorem mieqEnqueue_fifo:
  fixes pDev ev
  assumes "queue_inv q" "motion_inv ds q" "alloc_bounded al" "ev_type ev = ET_Motion \<longrightarrow> pDev \<noteq> None"
  defines "mo \<equiv> is_motion ds pDev ev" and "r \<equiv> new_record ds pDev ev"
  shows "\<exists>q' e'. mieqEnqueue al ds pDev ev q = Some (q', e') \<and> queue_inv q' \<and> motion_inv ds q' \<and>
    (if merges mo q then
       queued q' = butlast (queued q) @ [r] \<and> dropped q' = dropped q \<and>
       (\<exists>old d. er_event (last (queued q)) = Some old \<and> ev_type old = ET_Motion \<and> ev_type ev = ET_Motion \<and>
          er_dev (last (queued q)) = Some d \<and> d_id (ds d) = mo)
     else if mieqNumEnqueued q + 1 = nevents q \<and> \<not> qcalloc al (nevents q * 2) then
       queued q' = queued q \<and> dropped q' = dropped q + 1
     else queued q' = queued q @ [r] \<and> dropped q' = dropped q)"
proof (cases "merges mo q")
  case True
  then obtain q' e' where q': "mieqEnqueue al ds pDev ev q = Some (q', e')" "queue_inv q'" "dropped q' = dropped q"
      "lastMotion q' = mo" "queued q \<noteq> []" "queued q' = butlast (queued q) @ [r]"
    using enqueue_merge [OF assms(1)] unfolding mo_def r_def by blast
  have "motion_inv ds q'" using stored q'(2,4,6) unfolding mo_def r_def by blast
  moreover have "ev_type ev = ET_Motion" "lastMotion q = mo" "mo \<noteq> 0"
    using True by (auto simp: merges_def mo_def is_motion_def split: if_splits)
  ultimately show ?thesis using q' True assms(2) by (auto simp: motion_inv_def [of ds q])
next
  case False
  show ?thesis
  proof (cases "mieqNumEnqueued q + 1 = nevents q \<and> \<not> qcalloc al (nevents q * 2)")
    case True
    then show ?thesis
      using enqueue_drop [OF assms(1) False [unfolded mo_def] assms(4)] False assms(1,2) by (simp add: motion_inv_def)
  next
    case room: False
    then obtain q' e' where q': "mieqEnqueue al ds pDev ev q = Some (q', e')" "queue_inv q'" "dropped q' = dropped q"
        "lastMotion q' = mo" "queued q' = queued q @ [r]"
      using enqueue_append [OF assms(1) False [unfolded mo_def] assms(4,3)] unfolding mo_def r_def by blast
    have "motion_inv ds q'" using stored q'(2,4,5) unfolding mo_def r_def by blast
    then show ?thesis using q' False room by auto
  qed
qed

text \<open>An example: a ring of four slots, wrapped around, with two events queued, the newest a motion event of device 5.\<close>

definition slave_dev :: DeviceInt where
  "slave_dev = \<lparr>d_id = 5, d_enabled = True, d_type = SLAVE, d_master = None, d_paired = None, pEnqueueScreen = Some 0,
     pDequeueScreen = Some 0, lastSlave = None, button_map = None\<rparr>"

definition key_event :: InternalEvent where
  "key_event = blank_event\<lparr>ev_time := 100, ev_deviceid := 5\<rparr>"

definition motion_event :: InternalEvent where
  "motion_event = blank_event\<lparr>ev_type := ET_Motion, ev_time := 200, ev_deviceid := 5\<rparr>"

definition ring_example :: eventq where
  "ring_example = \<lparr>q_head = 3, q_tail = 1, lastEventTime = 200, lastMotion = 5,
     q_events = [\<lparr>er_event = Some motion_event, er_screen = Some 0, er_dev = Some 1\<rparr>, blank_slot, blank_slot,
                 \<lparr>er_event = Some key_event, er_screen = Some 0, er_dev = Some 1\<rparr>],
     nevents = 4, dropped = 0\<rparr>"

lemma ring_example_simps:
  "queue_inv ring_example" "mieqNumEnqueued ring_example = 2"
  "queued ring_example = [\<lparr>er_event = Some key_event, er_screen = Some 0, er_dev = Some 1\<rparr>,
     \<lparr>er_event = Some motion_event, er_screen = Some 0, er_dev = Some 1\<rparr>]"
  "nevents ring_example = 4"
proof -
  show n: "mieqNumEnqueued ring_example = 2" by (simp add: mieqNumEnqueued_def Let_def ring_example_def)
  have "\<exists>k \<le> 31. (4 :: nat) = 2 ^ k" by (intro exI [of _ 2]) simp
  then show "queue_inv ring_example" by (simp add: queue_inv_def ring_example_def blank_slot_def)
  show "queued ring_example = [\<lparr>er_event = Some key_event, er_screen = Some 0, er_dev = Some 1\<rparr>,
     \<lparr>er_event = Some motion_event, er_screen = Some 0, er_dev = Some 1\<rparr>]"
    unfolding queued_def n by (simp add: unwound_def ring_example_def numeral_2_eq_2)
qed (simp add: ring_example_def)

lemma ring_example_motion: "motion_inv (\<lambda>_. slave_dev) ring_example"
  by (simp add: motion_inv_def ring_example_simps, simp add: motion_event_def slave_dev_def ring_example_def)

theorem mieqEnqueue_fifo_witness:
  "\<exists>q' e'. mieqEnqueue \<lparr>qcalloc = (\<lambda>n. n \<le> 4096), InitEventList = (\<lambda>_. True)\<rparr> (\<lambda>_. slave_dev) (Some 1) key_event ring_example =
     Some (q', e') \<and> map er_event (queued q') = [Some key_event, Some motion_event, Some key_event]"
proof -
  have "\<not> merges (is_motion (\<lambda>_. slave_dev) (Some 1) key_event) ring_example"
    by (simp add: merges_def is_motion_def key_event_def blank_event_def)
  moreover have "alloc_bounded \<lparr>qcalloc = (\<lambda>n. n \<le> 4096), InitEventList = (\<lambda>_. True)\<rparr>" by (simp add: alloc_bounded_def)
  ultimately show ?thesis
    using mieqEnqueue_fifo [OF ring_example_simps(1) ring_example_motion, of _ key_event "Some 1"] ring_example_simps
    by (fastforce simp: new_record_def)
qed

subsection \<open>Processing\<close>

text \<open>Called code that leaves the queue alone.\<close>

definition quiet :: "effects \<Rightarrow> bool" where
  "quiet eff \<longleftrightarrow> (\<forall>c s. mq (eff c s) = mq s)"

text \<open>The specification of the loop: take the queued records one after the other.\<close>

fun process_list :: "effects \<Rightarrow> EventRec list \<Rightarrow> mstate \<Rightarrow> mstate option" where
  "process_list eff [] s = Some s"
| "process_list eff (r # rs) s =
     (case er_event r of
        None \<Rightarrow> None
      | Some ev \<Rightarrow> Option.bind (deliver eff r ev (s\<lparr>mq := pop_event (mq s)\<rparr>)) (process_list eff rs))"

lemma do_call_mq: "quiet eff \<Longrightarrow> mq (do_call eff c s) = mq s"
  by (simp add: do_call_def quiet_def)

lemma wake_mq: "quiet eff \<Longrightarrow> mq (wake_screens eff s) = mq s"
  by (simp add: wake_screens_def Let_def do_call_mq)

lemma move_screen_mq: "quiet eff \<Longrightarrow> mq (move_screen eff d ev sc s) = mq s"
  by (simp add: move_screen_def mieqMoveToNewScreen_def do_call_mq split: option.split)

lemma hand_over_mq: "quiet eff \<Longrightarrow> hand_over eff h dev ev sc m s = Some s' \<Longrightarrow> mq s' = mq s"
  by (auto simp: hand_over_def Let_def do_call_mq split: option.splits if_splits)

lemma set_last_slave_mq [simp]: "mq (set_last_slave m d s) = mq s"
  by (simp add: set_last_slave_def split: option.split)

lemma process_device_mq:
  assumes "quiet eff" "mieqProcessDeviceEvent eff dev ev sc s = Some s'"
  shows "mq s' = mq s"
  using assms(2)
  by (auto simp: mieqProcessDeviceEvent_def Let_def move_screen_mq [OF assms(1)] dest!: hand_over_mq [OF assms(1)]
      split: if_splits option.splits)

lemma deliver_mq:
  assumes "quiet eff" "deliver eff r ev s = Some s'"
  shows "mq s' = mq s"
  using assms(2)
  by (auto simp: deliver_def Let_def do_call_mq [OF assms(1)] wake_mq [OF assms(1)] dest!: process_device_mq [OF assms(1)]
      split: option.splits if_splits)

lemma loop_process_list:
  assumes "quiet eff" "queue_inv (mq s)"
  shows "mieq_loop eff s = process_list eff (queued (mq s)) s \<and>
    (\<forall>s'. mieq_loop eff s = Some s' \<longrightarrow> queued (mq s') = [] \<and> queue_inv (mq s'))"
  using assms(2)
proof (induction "queued (mq s)" arbitrary: s)
  case Nil
  then show ?case using mieq.empty [of "mq s"] by (auto simp: mieq_loop.simps)
next
  case (Cons r rs)
  note f = mieq.front_pop [OF Cons(3) Cons(2) [symmetric]]
  let ?s = "s\<lparr>mq := pop_event (mq s)\<rparr>"
  have loop: "mieq_loop eff s = (case er_event r of None \<Rightarrow> None | Some ev \<Rightarrow> Option.bind (deliver eff r ev ?s) (mieq_loop eff))"
    using f(1,2) by (simp add: mieq_loop.simps [of eff s] mieq_round_def Let_def split: option.split)
  have next_step: "mieq_loop eff s1 = process_list eff rs s1 \<and>
      (\<forall>s'. mieq_loop eff s1 = Some s' \<longrightarrow> queued (mq s') = [] \<and> queue_inv (mq s'))"
    if "deliver eff r ev ?s = Some s1" for ev s1
    using deliver_mq [OF assms(1) that] Cons(1) [of s1] f(3,4) by simp
  show ?case
  proof (cases "er_event r")
    case None
    then show ?thesis using loop Cons(2) [symmetric] by simp
  next
    case (Some ev)
    then show ?thesis
      using loop next_step [of ev] Cons(2) [symmetric] by (cases "deliver eff r ev ?s") auto
  qed
qed

subsection \<open>Who gets which events\<close>

text \<open>The parts of a device that processing does not change, and a device table in which every slave that is not floating
  has a master of each kind.\<close>

definition same_topology :: "(nat \<Rightarrow> DeviceInt) \<Rightarrow> (nat \<Rightarrow> DeviceInt) \<Rightarrow> bool" where
  "same_topology ds ds' \<longleftrightarrow> (\<forall>d. d_id (ds' d) = d_id (ds d) \<and> d_enabled (ds' d) = d_enabled (ds d) \<and>
     d_type (ds' d) = d_type (ds d) \<and> d_master (ds' d) = d_master (ds d) \<and> d_paired (ds' d) = d_paired (ds d) \<and>
     button_map (ds' d) = button_map (ds d))"

definition devs_ok :: "(nat \<Rightarrow> DeviceInt) \<Rightarrow> bool" where
  "devs_ok ds \<longleftrightarrow> (\<forall>d. InputDevIsMaster (ds d) \<or> InputDevIsFloating ds d \<or> (\<forall>t. GetMaster ds d t \<noteq> None))"

text \<open>Called code that enqueues nothing and leaves the masters in order. It may wake the screens up, install and remove handlers, and
  enable, disable, attach and detach devices. Called code of which some leaves the devices and handlers as they are.\<close>

definition tame :: "effects \<Rightarrow> bool" where
  "tame eff \<longleftrightarrow> (\<forall>c s. mq (eff c s) = mq s \<and> mcalls (eff c s) = mcalls s \<and> (devs_ok (devs s) \<longrightarrow> devs_ok (devs (eff c s))))"

definition steady :: "effects \<Rightarrow> bool" where
  "steady eff \<longleftrightarrow> (\<forall>c s. same_topology (devs s) (devs (eff c s)) \<and> handlers (eff c s) = handlers s)"

text \<open>The calls that hand an event over, to a device or to a custom handler.\<close>

definition given :: "mcall list \<Rightarrow> mcall list" where
  "given = filter (\<lambda>c. case c of ProcessInput _ _ \<Rightarrow> True | Handler _ _ _ _ \<Rightarrow> True | _ \<Rightarrow> False)"

definition give :: "nat option \<Rightarrow> nat \<Rightarrow> nat \<times> InternalEvent \<Rightarrow> mcall" where
  "give h sn x = (case h of None \<Rightarrow> ProcessInput (fst x) (snd x) | Some f \<Rightarrow> Handler f sn (snd x) (Some (fst x)))"

text \<open>What a queued record stands for, given the handler for its type and the devices at three moments (\<open>ds0\<close> when the event's turn
  comes, \<open>ds1\<close> when it is about to be delivered, \<open>ds2\<close> when its device has had it): nothing for a device that is disabled;
  otherwise the event for the device, and then a copy for its master, unless the device was floating or has been detached.\<close>

definition deliveries ::
    "nat option \<Rightarrow> (nat \<Rightarrow> DeviceInt) \<Rightarrow> (nat \<Rightarrow> DeviceInt) \<Rightarrow> (nat \<Rightarrow> DeviceInt) \<Rightarrow> EventRec \<Rightarrow> mcall list" where
  "deliveries h ds0 ds1 ds2 r =
     (case (er_dev r, er_event r) of
        (Some d, Some ev) \<Rightarrow>
          let sn = (case pDequeueScreen (ds1 d) of Some sc \<Rightarrow> sc | None \<Rightarrow> (case er_screen r of Some sc \<Rightarrow> sc | None \<Rightarrow> 0)) in
          if \<not> d_enabled (ds0 d) then []
          else give h sn (d, ev) #
            (case CopyGetMasterEvent ds1 (Some d) ev of
               Some (Some m) \<Rightarrow> if InputDevIsFloating ds2 d then [] else [give h sn m]
             | _ \<Rightarrow> [])
      | _ \<Rightarrow> [])"

text \<open>The states at the three moments.\<close>

definition at_delivery :: "effects \<Rightarrow> EventRec \<Rightarrow> InternalEvent \<Rightarrow> mstate \<Rightarrow> mstate" where
  "at_delivery eff r ev s =
     (let s0 = wake_screens eff s in
      if handlers s0 (ev_type ev) = None then move_screen eff (er_dev r) ev (er_screen r) s0 else s0)"

definition after_device :: "effects \<Rightarrow> EventRec \<Rightarrow> InternalEvent \<Rightarrow> mstate \<Rightarrow> mstate" where
  "after_device eff r ev s =
     (let s0 = wake_screens eff s; s1 = at_delivery eff r ev s; h = handlers s0 (ev_type ev);
          master = Option.bind (CopyGetMasterEvent (devs s1) (er_dev r) ev) id
      in case deliveries h (devs s0) (devs s1) (devs s1) r of
           [] \<Rightarrow> s0
         | c # _ \<Rightarrow> do_call eff c (set_last_slave (map_option fst master) (er_dev r) s1))"

definition round_deliveries :: "effects \<Rightarrow> EventRec \<Rightarrow> InternalEvent \<Rightarrow> mstate \<Rightarrow> mcall list" where
  "round_deliveries eff r ev s =
     deliveries (handlers (wake_screens eff s) (ev_type ev)) (devs (wake_screens eff s)) (devs (at_delivery eff r ev s))
       (devs (after_device eff r ev s)) r"

text \<open>What the records of a list stand for, one after the other.\<close>

fun expected :: "effects \<Rightarrow> EventRec list \<Rightarrow> mstate \<Rightarrow> mcall list" where
  "expected eff [] s = []"
| "expected eff (r # rs) s =
     (let s0 = s\<lparr>mq := pop_event (mq s)\<rparr>; ev = the (er_event r) in
      round_deliveries eff r ev s0 @ expected eff rs (the (deliver eff r ev s0)))"

lemma tame_quiet: "tame eff \<Longrightarrow> quiet eff"
  by (simp add: tame_def quiet_def)

lemma given_simps [simp]:
  "given (cs @ cs') = given cs @ given cs'" "given [] = []"
  "given (c # cs) = (case c of ProcessInput _ _ \<Rightarrow> [c] | Handler _ _ _ _ \<Rightarrow> [c] | _ \<Rightarrow> []) @ given cs"
  by (auto simp: given_def split: mcall.split)

lemma given_give [simp]: "given [give h sn x] = [give h sn x]"
  by (simp add: give_def split: option.split)

lemma topology_refl [simp]: "same_topology ds ds"
  by (simp add: same_topology_def)

lemma topology_trans: "same_topology a b \<Longrightarrow> same_topology b c \<Longrightarrow> same_topology a c"
  by (simp add: same_topology_def)

lemma topology_GetMaster:
  assumes "same_topology ds ds'"
  shows "GetMaster ds' d t = GetMaster ds d t" "InputDevIsMaster (ds' d) = InputDevIsMaster (ds d)"
    "InputDevIsFloating ds' d = InputDevIsFloating ds d"
proof -
  show m: "InputDevIsMaster (ds' d) = InputDevIsMaster (ds d)" for d
    using assms by (simp add: same_topology_def InputDevIsMaster_def)
  show g: "GetMaster ds' d t = GetMaster ds d t" for d t
    using assms m by (simp add: same_topology_def GetMaster_def Let_def split: option.split)
  show "InputDevIsFloating ds' d = InputDevIsFloating ds d" by (simp add: InputDevIsFloating_def m g)
qed

lemma ChangeDeviceID_cong: "d_id d' = d_id d \<Longrightarrow> ChangeDeviceID d' = ChangeDeviceID d"
  by (simp add: fun_eq_iff ChangeDeviceID_def)

lemma topology_master_event:
  assumes "same_topology ds ds'"
  shows "CopyGetMasterEvent ds' sd ev = CopyGetMasterEvent ds sd ev"
proof -
  have "FixUpEventForMaster (ds' d) = FixUpEventForMaster (ds d)" "ChangeDeviceID (ds' d) = ChangeDeviceID (ds d)" for d
    using assms ChangeDeviceID_cong [of "ds' d" "ds d"] by (simp_all add: fun_eq_iff FixUpEventForMaster_def same_topology_def)
  then show ?thesis
    by (simp add: CopyGetMasterEvent_def topology_GetMaster [OF assms] Let_def split: option.split)
qed

lemma topology_devs_ok: "same_topology ds ds' \<Longrightarrow> devs_ok ds' = devs_ok ds"
  by (simp add: devs_ok_def topology_GetMaster)

lemma move_topology: "same_topology ds (ds(d := (ds d)\<lparr>pDequeueScreen := sc\<rparr>))"
  by (simp add: same_topology_def)

lemma slave_topology: "same_topology (devs s) (devs (set_last_slave m d s))"
  by (simp add: set_last_slave_def same_topology_def split: option.split)

text \<open>A state after calls that handed over the events \<open>cs\<close>.\<close>

definition progressed :: "mcall list \<Rightarrow> mstate \<Rightarrow> mstate \<Rightarrow> bool" where
  "progressed cs s s' \<longleftrightarrow> (devs_ok (devs s) \<longrightarrow> devs_ok (devs s')) \<and> given (mcalls s') = given (mcalls s) @ cs"

lemma progressed_trans: "progressed a s s' \<Longrightarrow> progressed b s' s'' \<Longrightarrow> progressed (a @ b) s s''"
  by (simp add: progressed_def)

lemma call_progressed: "tame eff \<Longrightarrow> progressed (given [c]) s (do_call eff c s)"
  by (simp add: progressed_def do_call_def tame_def del: given_simps(3))

lemma wake_progressed: "tame eff \<Longrightarrow> progressed [] s (wake_screens eff s)"
  by (simp add: progressed_def wake_screens_def Let_def do_call_def tame_def)

lemma move_progressed:
  assumes "tame eff"
  shows "progressed [] s (move_screen eff d ev sc s)"
proof -
  have "devs_ok ((devs s)(x := (devs s x)\<lparr>pDequeueScreen := y\<rparr>)) = devs_ok (devs s)" for x y
    by (rule topology_devs_ok [OF move_topology])
  then show ?thesis
    using assms by (simp add: progressed_def move_screen_def mieqMoveToNewScreen_def do_call_def tame_def split: option.split)
qed

lemma slave_progressed: "progressed [] s (set_last_slave m d s)"
  using topology_devs_ok [OF slave_topology] by (simp add: progressed_def) (simp add: set_last_slave_def split: option.split)

lemma delivery_progressed: "tame eff \<Longrightarrow> progressed [] s (at_delivery eff r ev s)"
  using progressed_trans [OF wake_progressed move_progressed] wake_progressed by (fastforce simp: at_delivery_def Let_def)

lemma slave_screen: "pDequeueScreen (devs (set_last_slave m d s) x) = pDequeueScreen (devs s x)"
  by (simp add: set_last_slave_def split: option.split)

lemma master_event_exists: "devs_ok ds \<Longrightarrow> CopyGetMasterEvent ds (Some d) ev \<noteq> None"
  unfolding devs_ok_def CopyGetMasterEvent_def Let_def by (auto split: option.splits) (metis option.distinct(1))+

text \<open>Handing over: the device has the event, then its master the copy if it is still attached.\<close>

lemma hand_over_gives:
  fixes s :: mstate and d :: nat
  defines "sn sc \<equiv> (case pDequeueScreen (devs s d) of Some x \<Rightarrow> x | None \<Rightarrow> (case sc of Some x \<Rightarrow> x | None \<Rightarrow> 0))"
  shows "hand_over eff h (Some d) ev sc master s =
    (let s2 = do_call eff (give h (sn sc) (d, ev)) s in
     Some (case master of None \<Rightarrow> s2 | Some m \<Rightarrow> if InputDevIsFloating (devs s2) d then s2 else do_call eff (give h (sn sc) m) s2))"
  unfolding sn_def by (simp add: hand_over_def Let_def give_def split: option.split prod.split)

lemma process_device_progressed:
  assumes t: "tame eff" and ok: "devs_ok (devs s)" and r: "er_dev r = Some d" "er_event r = Some ev"
  shows "\<exists>s'. mieqProcessDeviceEvent eff (Some d) ev (er_screen r) (wake_screens eff s) = Some s' \<and>
    progressed (round_deliveries eff r ev s) s s'"
proof -
  let ?s0 = "wake_screens eff s"
  let ?s1 = "at_delivery eff r ev s" and ?h = "handlers ?s0 (ev_type ev)"
  show ?thesis
  proof (cases "d_enabled (devs ?s0 d)")
    case False
    then show ?thesis using r wake_progressed [OF t]
      by (simp add: mieqProcessDeviceEvent_def round_deliveries_def deliveries_def)
  next
    case True
    have p1: "progressed [] s ?s1" by (rule delivery_progressed [OF t])
    then obtain master where m: "CopyGetMasterEvent (devs ?s1) (Some d) ev = Some master"
      using ok master_event_exists [of "devs ?s1" d ev] by (auto simp: progressed_def)
    define sn where "sn = (case pDequeueScreen (devs ?s1 d) of Some x \<Rightarrow> x | None \<Rightarrow> (case er_screen r of Some x \<Rightarrow> x | None \<Rightarrow> 0))"
    define s2 where "s2 = set_last_slave (map_option fst master) (Some d) ?s1"
    define s3 where "s3 = do_call eff (give ?h sn (d, ev)) s2"
    define s' where "s' = (case master of None \<Rightarrow> s3 | Some x \<Rightarrow> if InputDevIsFloating (devs s3) d then s3 else do_call eff (give ?h sn x) s3)"
    have screen: "pDequeueScreen (devs s2 d) = pDequeueScreen (devs ?s1 d)" by (simp add: s2_def slave_screen)
    have s1: "?s1 = (if ?h = None then move_screen eff (Some d) ev (er_screen r) ?s0 else ?s0)" by (simp add: at_delivery_def Let_def r(1))
    have "mieqProcessDeviceEvent eff (Some d) ev (er_screen r) ?s0 = hand_over eff ?h (Some d) ev (er_screen r) master s2"
      unfolding mieqProcessDeviceEvent_def Let_def s1 [symmetric] using True m by (simp add: s2_def)
    also have "\<dots> = Some s'"
      unfolding hand_over_gives Let_def s'_def s3_def sn_def screen by (rule refl)
    finally have e: "mieqProcessDeviceEvent eff (Some d) ev (er_screen r) ?s0 = Some s'" .
    have a: "after_device eff r ev s = s3"
      using True r m by (simp add: after_device_def Let_def deliveries_def s3_def s2_def sn_def)
    have p2: "progressed [] s s2" using progressed_trans [OF p1 slave_progressed] by (simp add: s2_def)
    have p3: "progressed [give ?h sn (d, ev)] s s3"
      using progressed_trans [OF p2 call_progressed [OF t, of "give ?h sn (d, ev)" s2]] by (simp add: s3_def del: given_simps(3))
    have "progressed (round_deliveries eff r ev s) s s'"
    proof (cases master)
      case None
      then show ?thesis using True r m p3 by (simp add: round_deliveries_def deliveries_def a s'_def sn_def Let_def)
    next
      case (Some x)
      have "progressed ([give ?h sn (d, ev)] @ [give ?h sn x]) s (do_call eff (give ?h sn x) s3)"
        using progressed_trans [OF p3 call_progressed [OF t, of "give ?h sn x" s3]] by (simp del: given_simps(3))
      then show ?thesis using Some True r m p3 by (simp add: round_deliveries_def deliveries_def a s'_def sn_def Let_def)
    qed
    then show ?thesis using e by blast
  qed
qed

lemma deliver_progressed:
  assumes "tame eff" "devs_ok (devs s)" "er_dev r = Some d" "er_event r = Some ev"
  shows "\<exists>s'. deliver eff r ev s = Some s' \<and> progressed (round_deliveries eff r ev s) s s'"
proof -
  obtain s1 where s1: "mieqProcessDeviceEvent eff (Some d) ev (er_screen r) (wake_screens eff s) = Some s1"
    "progressed (round_deliveries eff r ev s) s s1"
    using process_device_progressed [OF assms] by blast
  have "progressed (round_deliveries eff r ev s) s (do_call eff (UpdateSprite d) s1)"
    using progressed_trans [OF s1(2) call_progressed [OF assms(1), of "UpdateSprite d"]] by simp
  then show ?thesis using s1 assms(3) by (simp add: deliver_def Let_def split: option.split)
qed

lemma process_list_progressed:
  assumes "tame eff" "devs_ok (devs s)" "\<forall>r \<in> set rs. er_dev r \<noteq> None \<and> er_event r \<noteq> None"
  shows "\<exists>s'. process_list eff rs s = Some s' \<and> progressed (expected eff rs s) s s'"
  using assms(2,3)
proof (induction rs arbitrary: s)
  case Nil
  then show ?case by (simp add: progressed_def)
next
  case (Cons r rs)
  let ?s = "s\<lparr>mq := pop_event (mq s)\<rparr>"
  obtain d ev where r: "er_dev r = Some d" "er_event r = Some ev" using Cons(3) by auto
  obtain s1 where s1: "deliver eff r ev ?s = Some s1" "progressed (round_deliveries eff r ev ?s) ?s s1"
    using deliver_progressed [OF assms(1), of ?s r d ev] Cons(2) r by auto
  then obtain s' where s': "process_list eff rs s1 = Some s'" "progressed (expected eff rs s1) s1 s'"
    using Cons(1) [of s1] Cons(2,3) by (auto simp: progressed_def)
  have "progressed (round_deliveries eff r ev ?s) s s1" using s1(2) by (simp add: progressed_def)
  then show ?case using s1(1) s' r progressed_trans by fastforce
qed

text \<open>Code that leaves devices and handlers alone, and devices without handlers: what a record stands for does not depend on the moment.\<close>

definition kept :: "mstate \<Rightarrow> mstate \<Rightarrow> bool" where
  "kept s s' \<longleftrightarrow> same_topology (devs s) (devs s') \<and> handlers s' = handlers s"

lemma kept_refl: "kept s s" and kept_trans: "kept s s' \<Longrightarrow> kept s' s'' \<Longrightarrow> kept s s''"
  by (auto simp: kept_def intro: topology_trans)

lemma kept_call: "steady eff \<Longrightarrow> kept s (do_call eff c s)"
  using steady_def [of eff] by (simp add: kept_def do_call_def) (metis mstate.select_convs(2,3) mstate.surjective mstate.update_convs(6))

lemma kept_slave: "kept s (set_last_slave m d s)"
  using slave_topology by (simp add: kept_def) (simp add: set_last_slave_def split: option.split)

lemma kept_wake: "steady eff \<Longrightarrow> kept s (wake_screens eff s)"
  unfolding wake_screens_def Let_def by (auto intro: kept_refl kept_call kept_trans)

lemma kept_move: "steady eff \<Longrightarrow> kept s (move_screen eff d ev sc s)"
proof -
  assume st: "steady eff"
  have "kept s (do_call eff c (s\<lparr>devs := (devs s)(x := (devs s x)\<lparr>pDequeueScreen := y\<rparr>)\<rparr>))" for c x y
    by (rule kept_trans [OF _ kept_call [OF st]]) (simp add: kept_def move_topology)
  then show ?thesis by (simp add: move_screen_def mieqMoveToNewScreen_def kept_refl split: option.split)
qed

lemma kept_delivery: "steady eff \<Longrightarrow> kept s (at_delivery eff r ev s)"
  unfolding at_delivery_def Let_def by (auto intro: kept_trans [OF kept_wake kept_move] kept_wake)

lemma kept_after: "steady eff \<Longrightarrow> kept s (after_device eff r ev s)"
  unfolding after_device_def Let_def
  by (auto split: list.split intro: kept_wake kept_trans [OF kept_trans [OF kept_delivery kept_slave] kept_call])

lemma kept_hand_over:
  assumes "steady eff" "hand_over eff h dev ev sc m s = Some s'"
  shows "kept s s'"
  using assms(2)
  by (auto simp: hand_over_def Let_def split: option.splits if_splits
      intro: kept_call [OF assms(1)] kept_trans [OF kept_call [OF assms(1)] kept_call [OF assms(1)]])

lemma kept_deliver:
  assumes st: "steady eff" and "deliver eff r ev s = Some s'"
  shows "kept s s'"
proof -
  have "kept s0 s1" if "mieqProcessDeviceEvent eff (er_dev r) ev (er_screen r) s0 = Some s1" for s0 s1
    using that kept_trans [OF kept_trans [OF kept_move [OF st] kept_slave] kept_hand_over [OF st]]
      kept_trans [OF kept_slave kept_hand_over [OF st]]
    by (auto simp: mieqProcessDeviceEvent_def Let_def kept_refl split: if_splits option.splits)
  then have "kept s s1" if "mieqProcessDeviceEvent eff (er_dev r) ev (er_screen r) (wake_screens eff s) = Some s1" for s1
    using that kept_trans [OF kept_wake [OF st]] by blast
  then show ?thesis
    using assms(2) kept_trans [OF _ kept_call [OF st]] by (auto simp: deliver_def Let_def split: option.splits if_splits)
qed

lemma deliveries_topology:
  assumes "same_topology ds a" "same_topology ds b" "same_topology ds c"
  shows "deliveries None a b c r = deliveries None ds ds ds r"
proof -
  have "d_enabled (a d) = d_enabled (ds d)" for d using assms(1) by (simp add: same_topology_def)
  then show ?thesis
    by (simp add: deliveries_def give_def topology_master_event [OF assms(2)] topology_GetMaster(3) [OF assms(3)] split: option.split)
qed

lemma expected_steady:
  assumes "steady eff" "tame eff" "handlers s = (\<lambda>_. None)" "devs_ok (devs s)" "same_topology ds (devs s)"
    and "\<forall>r \<in> set rs. er_dev r \<noteq> None \<and> er_event r \<noteq> None"
  shows "expected eff rs s = concat (map (deliveries None ds ds ds) rs)"
  using assms(3-6)
proof (induction rs arbitrary: s)
  case (Cons r rs)
  let ?s = "s\<lparr>mq := pop_event (mq s)\<rparr>"
  obtain d ev where r: "er_dev r = Some d" "er_event r = Some ev" using Cons(5) by auto
  obtain s1 where s1: "deliver eff r ev ?s = Some s1" "progressed (round_deliveries eff r ev ?s) ?s s1"
    using deliver_progressed [OF assms(2), of ?s r d ev] Cons(3) r by auto
  have k: "kept ?s s1" by (rule kept_deliver [OF assms(1) s1(1)])
  then have "handlers s1 = (\<lambda>_. None)" "devs_ok (devs s1)" "same_topology ds (devs s1)"
    using Cons(2-4) s1(2) topology_trans by (auto simp: kept_def progressed_def)
  then have "expected eff rs s1 = concat (map (deliveries None ds ds ds) rs)" using Cons(1,5) by simp
  moreover have "round_deliveries eff r ev ?s = deliveries None ds ds ds r"
  proof -
    have "handlers (wake_screens eff ?s) = handlers s" using kept_wake [OF assms(1), of ?s] by (simp add: kept_def)
    moreover have "same_topology ds (devs s2)" if "kept ?s s2" for s2
      using that topology_trans [OF Cons(4)] by (simp add: kept_def)
    ultimately show ?thesis
      unfolding round_deliveries_def using Cons(2) kept_wake [OF assms(1)] kept_delivery [OF assms(1)] kept_after [OF assms(1)]
      by (simp add: deliveries_topology)
  qed
  ultimately show ?case using s1(1) r(2) by simp
qed simp

lemma queued_slots: "queue_inv q \<Longrightarrow> r \<in> set (queued q) \<Longrightarrow> er_event r \<noteq> None"
  by (auto simp: queued_def unwound_def queue_inv_def dest!: in_set_takeD in_set_dropD)

lemma process_list_dropped: "quiet eff \<Longrightarrow> process_list eff rs s = Some s' \<Longrightarrow> dropped (mq s') = dropped (mq s)"
  by (induction rs arbitrary: s) (auto simp: Option.bind_eq_Some_conv pop_event_def dest!: deliver_mq split: option.splits)

text \<open>C24. Processing the queue with called code that enqueues nothing (and leaves every slave that is not floating with its masters)
  returns, empties the queue, and hands every queued event, in the order in which the events were enqueued, exactly once to its device
  or to the custom handler for its type, unless the device is disabled when the event's turn comes, followed by the copy for the
  device's master, unless the device is floating or has been detached while it had the event. So the screen saver, DPMS, the
  devices and the handlers may change the state in between. When they leave the devices as they are, what is handed over
  depends only on the devices at the start.\<close>

theorem mieqProcessInputEvents_delivers:
  assumes "tame eff" "queue_inv (mq s)" "devs_ok (devs s)" "\<forall>r \<in> set (queued (mq s)). er_dev r \<noteq> None"
  shows "\<exists>s'. mieqProcessInputEvents eff s = Some s' \<and> queued (mq s') = [] \<and> dropped (mq s') = 0 \<and>
    given (mcalls s') = given (mcalls s) @ expected eff (queued (mq s)) (s\<lparr>mq := (mq s)\<lparr>dropped := 0\<rparr>\<rparr>) \<and>
    (steady eff \<and> handlers s = (\<lambda>_. None) \<longrightarrow>
       given (mcalls s') = given (mcalls s) @ concat (map (deliveries None (devs s) (devs s) (devs s)) (queued (mq s))))"
proof -
  let ?s = "s\<lparr>mq := (mq s)\<lparr>dropped := 0\<rparr>\<rparr>"
  have inv: "queue_inv (mq ?s)" "queued (mq ?s) = queued (mq s)" using assms(2) by simp_all
  have ev: "\<forall>r \<in> set (queued (mq s)). er_dev r \<noteq> None \<and> er_event r \<noteq> None"
    using assms(2,4) queued_slots by blast
  obtain s' where s': "process_list eff (queued (mq s)) ?s = Some s'" "progressed (expected eff (queued (mq s)) ?s) ?s s'"
    using process_list_progressed [OF assms(1), of ?s "queued (mq s)"] assms(3) ev by auto
  note q = tame_quiet [OF assms(1)]
  have l: "mieq_loop eff ?s = Some s'" "queued (mq s') = []"
    using loop_process_list [OF q inv(1)] s'(1) inv(2) by auto
  have d: "dropped (mq s') = 0" using process_list_dropped [OF q s'(1)] by simp
  have e: "mieqProcessInputEvents eff s = Some (do_call eff Drained s')"
    using l(1) by (simp add: mieqProcessInputEvents_def)
  have g: "given (mcalls (do_call eff Drained s')) = given (mcalls s')" using assms(1) by (simp add: do_call_def tame_def)
  have "expected eff (queued (mq s)) ?s = concat (map (deliveries None (devs s) (devs s) (devs s)) (queued (mq s)))"
    if "steady eff" "handlers s = (\<lambda>_. None)"
    using expected_steady [OF that(1) assms(1), of ?s "devs s" "queued (mq s)"] that(2) assms(3) ev by simp
  then show ?thesis using e g d l(2) s'(2) do_call_mq [OF q, of Drained s'] by (auto simp: progressed_def)
qed

text \<open>In the example device 1 has a master, the screen saver is on, and the device is detached while it has its motion event: the
  master gets a copy of the key event only.\<close>

definition detaching :: effects where
  "detaching c s =
     (case c of
        SaveScreensOff \<Rightarrow> s\<lparr>screenIsSaved := False\<rparr>
      | DPMSSetOn \<Rightarrow> s\<lparr>dpmsOn := True\<rparr>
      | ProcessInput d ev \<Rightarrow>
          if ev_type ev = ET_Motion then s\<lparr>devs := (devs s)(1 := (devs s 1)\<lparr>d_master := None\<rparr>)\<rparr> else s
      | _ \<Rightarrow> s)"

definition attached_dev :: "nat \<Rightarrow> DeviceInt" where
  "attached_dev d =
     (if d = 2 then slave_dev\<lparr>d_id := 2, d_type := MASTER_KEYBOARD, d_paired := Some 3\<rparr>
      else if d = 3 then slave_dev\<lparr>d_id := 3, d_type := MASTER_POINTER, d_paired := Some 2\<rparr>
      else slave_dev\<lparr>d_master := Some 2\<rparr>)"

definition attached_start :: mstate where
  "attached_start = \<lparr>mq = ring_example, devs = attached_dev, handlers = (\<lambda>_. None), screenIsSaved = True, dpmsOn = False, mcalls = []\<rparr>"

lemma detaching_tame: "tame detaching"
proof -
  have "devs_ok (ds(1 := (ds 1)\<lparr>d_master := None\<rparr>))" if ok: "devs_ok ds" for ds
  proof -
    let ?ds = "ds(1 := (ds 1)\<lparr>d_master := None\<rparr>)"
    have m: "InputDevIsMaster (?ds d) = InputDevIsMaster (ds d)" for d by (simp add: InputDevIsMaster_def)
    have o: "GetMaster ?ds d t = GetMaster ds d t" if "d \<noteq> 1" for d t
      using that m by (auto simp: GetMaster_def Let_def split: option.split)
    have "InputDevIsMaster (?ds 1) \<or> InputDevIsFloating ?ds 1"
      by (simp add: InputDevIsFloating_def GetMaster_def Let_def)
    then show ?thesis using ok m o by (simp add: devs_ok_def InputDevIsFloating_def) (metis One_nat_def)
  qed
  then show ?thesis by (simp add: tame_def detaching_def split: mcall.split)
qed

theorem mieqProcessInputEvents_delivers_witness:
  "\<exists>s'. mieqProcessInputEvents detaching attached_start = Some s' \<and> queued (mq s') = [] \<and>
     given (mcalls s') = [ProcessInput 1 key_event, ProcessInput 2 (key_event\<lparr>ev_deviceid := 2\<rparr>), ProcessInput 1 motion_event]"
proof -
  have ok: "devs_ok attached_dev"
    by (auto simp: devs_ok_def InputDevIsMaster_def InputDevIsFloating_def GetMaster_def attached_dev_def slave_dev_def Let_def)
  have q: "queue_inv (mq attached_start)" "\<forall>r \<in> set (queued (mq attached_start)). er_dev r \<noteq> None"
    by (simp_all add: attached_start_def ring_example_simps)
  have "expected detaching (queued (mq attached_start)) (attached_start\<lparr>mq := (mq attached_start)\<lparr>dropped := 0\<rparr>\<rparr>) =
      [ProcessInput 1 key_event, ProcessInput 2 (key_event\<lparr>ev_deviceid := 2\<rparr>), ProcessInput 1 motion_event]"
    by code_simp
  then show ?thesis
    using mieqProcessInputEvents_delivers [OF detaching_tame q(1) _ q(2)] ok by (auto simp: attached_start_def)
qed

text \<open>Whatever the called code does to devices, handlers and screens, as long as it leaves the queue alone: the processing loop
  on the ring does what the same steps do on the plain list of queued events, oldest first; if it returns the queue is empty.\<close>

lemma mieq_loop_refines_list:
  assumes "quiet eff" "queue_inv (mq s)"
  shows "mieq_loop eff s = process_list eff (queued (mq s)) s \<and> 
    (case mieq_loop eff s of None \<Rightarrow> True | Some s' \<Rightarrow> queued (mq s') = [] \<and> queue_inv (mq s'))"
  using loop_process_list [OF assms] by (auto split: option.split)

text \<open>The correction of a time that runs backwards comes too late: an event 50 ms older than its predecessor is
  stored with its own time, and the time to compare the next event with goes back; only the caller's copy is corrected.\<close>

lemma mieqEnqueue_time_runs_back:
  "\<exists>q' e'. mieqEnqueue \<lparr>qcalloc = (\<lambda>_. False), InitEventList = (\<lambda>_. False)\<rparr> (\<lambda>_. slave_dev) (Some 1)
       (key_event\<lparr>ev_time := 150\<rparr>) ring_example = Some (q', e') \<and>
     lastEventTime ring_example = 200 \<and> lastEventTime q' = 150 \<and> ev_time e' = 200 \<and>
     map (map_option ev_time \<circ> er_event) (queued q') = [Some 100, Some 200, Some 150]"
  by (simp add: mieqEnqueue_def Let_def is_motion_def merges_def key_event_def motion_event_def blank_event_def ring_example_def
      mieqNumEnqueued_def store_event_def blank_slot_def queued_def unwound_def)

text \<open>When a full queue cannot get the event list of a new slot, growing fails and frees the event lists of the old queue,
  which stays in use: processing then reads a freed list.\<close>

lemma mieqGrowQueue_failure_dangles:
  "\<exists>q'. mieqGrowQueue \<lparr>qcalloc = (\<lambda>_. True), InitEventList = (\<lambda>i. i < 6)\<rparr> 8 ring_example = (False, q') \<and>
     queued q' \<noteq> [] \<and> list_all (\<lambda>r. er_event r = None) (queued q') \<and>
     mieq_round eff \<lparr>mq = q', devs = ds, handlers = hs, screenIsSaved = b, dpmsOn = b', mcalls = cs\<rparr> = None"
  by (simp add: mieqGrowQueue_def ring_example_def queued_def mieqNumEnqueued_def Let_def unwound_def mieq_round_def
      blank_slot_def upt_rec numeral_2_eq_2)

end
