(* ===== verification/Timers.thy ===== *)
theory Timers
  imports XPrelude
begin

text \<open>
  Timers (os/WaitFor.c): a list of pending timers ordered by the wrapping 32-bit millisecond clock, the
  operations that set, run, force and cancel them, the check made before the server waits, and the
  screen saver's timer. A timer pointer is an index into the allocated timers; a callback is an index
  into the functions of the environment, and acts on the whole state. The clock is an arbitrary sequence of readings.
  \<open>None\<close> as a result means that the code uses a timer that has been freed, or never returns.
\<close>

subsection \<open>State\<close>

record OsTimerRec =
  expires :: card32
  delta :: card32
  t_callback :: nat
  t_arg :: nat

datatype DPMSMode = DPMSModeOn | DPMSModeStandby | DPMSModeSuspend | DPMSModeOff

fun dpms_level :: "DPMSMode \<Rightarrow> nat" where
  "dpms_level DPMSModeOn = 0"
| "dpms_level DPMSModeStandby = 1"
| "dpms_level DPMSModeSuspend = 2"
| "dpms_level DPMSModeOff = 3"

text \<open>The screen saver's variables; times are in milliseconds.\<close>

record saver =
  DPMSEnabled :: bool
  DPMSPowerLevel :: DPMSMode
  DPMSStandbyTime :: card32
  DPMSSuspendTime :: card32
  DPMSOffTime :: card32
  ScreenSaverTime :: card32
  ScreenSaverInterval :: card32
  screenSaverSuspended :: bool
  LastEventMillis :: card32
  ScreenSaverTimer :: "nat option"
  saver_on :: bool

record tstate =
  timers :: "nat list"
  tinfo :: "nat \<rightharpoonup> OsTimerRec"
  t_next :: nat
  t_reads :: nat
  t_fired :: "(nat \<times> card32) list"
  sv :: saver

record tenv =
  clock :: "nat \<Rightarrow> card32"
  t_calloc :: "nat \<Rightarrow> bool"
  callback :: "nat \<Rightarrow> nat \<Rightarrow> card32 \<Rightarrow> nat \<Rightarrow> tstate \<Rightarrow> card32 \<times> tstate"

definition TimerAbsolute :: "32 word" where "TimerAbsolute = 1"
definition TimerForceOld :: "32 word" where "TimerForceOld = 2"

definition GetTimeInMillis :: "tenv \<Rightarrow> tstate \<Rightarrow> card32 \<times> tstate" where
  "GetTimeInMillis e s = (clock e (t_reads s), s\<lparr>t_reads := t_reads s + 1\<rparr>)"

subsection \<open>The list\<close>

definition first_timer :: "tstate \<Rightarrow> nat option" where
  "first_timer s = (case timers s of [] \<Rightarrow> None | t # _ \<Rightarrow> Some t)"

definition timer_pending :: "nat \<Rightarrow> tstate \<Rightarrow> bool" where
  "timer_pending t s \<longleftrightarrow> t \<in> set (timers s)"

definition timer_del :: "nat \<Rightarrow> tstate \<Rightarrow> tstate" where
  "timer_del t s = s\<lparr>timers := remove1 t (timers s)\<rparr>"

text \<open>\<open>(int) (a - b) > 0\<close>: \<open>a\<close> is later than \<open>b\<close> on the wrapping clock.\<close>

definition later :: "card32 \<Rightarrow> card32 \<Rightarrow> bool" where
  "later a b \<longleftrightarrow> sint (a - b) > 0"

definition expires_of :: "tstate \<Rightarrow> nat \<Rightarrow> card32" where
  "expires_of s t = (case tinfo s t of Some r \<Rightarrow> expires r | None \<Rightarrow> 0)"

fun insert_timer :: "(nat \<Rightarrow> card32) \<Rightarrow> card32 \<Rightarrow> nat \<Rightarrow> nat list \<Rightarrow> nat list" where
  "insert_timer ex millis t [] = [t]"
| "insert_timer ex millis t (x # xs) =
     (if later (ex x) millis then t # x # xs else x # insert_timer ex millis t xs)"

subsection \<open>TimerSet\<close>

text \<open>Calling a timer's function.\<close>

definition run_callback :: "tenv \<Rightarrow> nat \<Rightarrow> card32 \<Rightarrow> tstate \<Rightarrow> (card32 \<times> tstate) option" where
  "run_callback e t now s =
     (case tinfo s t of
        None \<Rightarrow> None
      | Some r \<Rightarrow> Some (callback e (t_callback r) t now (t_arg r) (s\<lparr>t_fired := t_fired s @ [(t, now)]\<rparr>)))"

text \<open>The first part of \<open>TimerSet\<close>: the timer (a new one, or the given one taken out of the list, its callback
  forced if asked for), and the time read at the start.\<close>

definition timer_take :: "tenv \<Rightarrow> nat option \<Rightarrow> 32 word \<Rightarrow> tstate \<Rightarrow> (nat option \<times> card32 \<times> tstate) option" where
  "timer_take e timer flags s0 =
     (case GetTimeInMillis e s0 of (now, s) \<Rightarrow>
        case timer of
          None \<Rightarrow>
            if \<not> t_calloc e (t_next s) then Some (None, now, s)
            else Some (Some (t_next s), now,
                   s\<lparr>tinfo := (tinfo s)(t_next s \<mapsto> \<lparr>expires = 0, delta = 0, t_callback = 0, t_arg = 0\<rparr>), t_next := t_next s + 1\<rparr>)
        | Some t \<Rightarrow>
            if tinfo s t = None then None
            else if timer_pending t s then
              let s1 = timer_del t s in
              if flags AND TimerForceOld \<noteq> 0
              then map_option (\<lambda>r. (Some t, now, snd r)) (run_callback e t now s1)
              else Some (Some t, now, s1)
            else Some (Some t, now, s))"

text \<open>The second part: the new expiry, function and place in the list; the result says whether the timer is due.\<close>

definition timer_arm :: "nat \<Rightarrow> 32 word \<Rightarrow> card32 \<Rightarrow> nat \<Rightarrow> nat \<Rightarrow> card32 \<Rightarrow> tstate \<Rightarrow> bool \<times> tstate" where
  "timer_arm t flags millis func arg now s =
     (let d = (if flags AND TimerAbsolute \<noteq> 0 then millis - now else millis);
          ex = (if flags AND TimerAbsolute \<noteq> 0 then millis else millis + now);
          s1 = s\<lparr>tinfo := (tinfo s)(t \<mapsto> \<lparr>expires = ex, delta = d, t_callback = func, t_arg = arg\<rparr>)\<rparr>
      in (\<not> later ex now, s1\<lparr>timers := insert_timer (expires_of s1) ex t (timers s1)\<rparr>))"

text \<open>A timer that is due at once runs; its function may ask for another round.\<close>

partial_function (option) TimerSet ::
    "tenv \<Rightarrow> nat option \<Rightarrow> 32 word \<Rightarrow> card32 \<Rightarrow> nat \<Rightarrow> nat \<Rightarrow> tstate \<Rightarrow> (nat option \<times> tstate) option" where
  "TimerSet e timer flags millis func arg s0 =
     (case timer_take e timer flags s0 of
        None \<Rightarrow> None
      | Some (None, now, s) \<Rightarrow> Some (None, s)
      | Some (Some t, now, s) \<Rightarrow>
          if millis = 0 then Some (Some t, s)
          else if tinfo s t = None then None
          else case timer_arm t flags millis func arg now s of
                 (due, s1) \<Rightarrow>
                   if \<not> due then Some (Some t, s1)
                   else case run_callback e t now (timer_del t s1) of
                          None \<Rightarrow> None
                        | Some (newTime, s2) \<Rightarrow>
                            if newTime = 0 then Some (Some t, s2)
                            else case tinfo s2 t of
                                   None \<Rightarrow> None
                                 | Some r \<Rightarrow>
                                     Option.bind (TimerSet e (Some t) 0 newTime (t_callback r) (t_arg r) s2)
                                       (\<lambda>res. Some (Some t, snd res)))"

definition DoTimer :: "tenv \<Rightarrow> nat \<Rightarrow> card32 \<Rightarrow> tstate \<Rightarrow> tstate option" where
  "DoTimer e t now s =
     (case run_callback e t now (timer_del t s) of
        None \<Rightarrow> None
      | Some (newTime, s2) \<Rightarrow>
          if newTime = 0 then Some s2
          else case tinfo s2 t of
                 None \<Rightarrow> None
               | Some r \<Rightarrow> map_option snd (TimerSet e (Some t) 0 newTime (t_callback r) (t_arg r) s2))"

subsection \<open>Running timers\<close>

partial_function (option) DoTimers :: "tenv \<Rightarrow> card32 \<Rightarrow> tstate \<Rightarrow> tstate option" where
  "DoTimers e now s =
     (case first_timer s of
        None \<Rightarrow> Some s
      | Some t \<Rightarrow>
          if later (expires_of s t) now then Some s
          else Option.bind (DoTimer e t now s) (\<lambda>s'. DoTimers e now s'))"

definition delta_of :: "tstate \<Rightarrow> nat \<Rightarrow> card32" where
  "delta_of s t = (case tinfo s t of Some r \<Rightarrow> delta r | None \<Rightarrow> 0)"

text \<open>A timer further away than it was set to: the clock has been turned back.\<close>

definition rewound :: "tstate \<Rightarrow> card32 \<Rightarrow> nat \<Rightarrow> bool" where
  "rewound s now t \<longleftrightarrow> expires_of s t - now > delta_of s t + 250"

partial_function (option) CheckAllTimers :: "tenv \<Rightarrow> tstate \<Rightarrow> tstate option" where
  "CheckAllTimers e s0 =
     (case GetTimeInMillis e s0 of (now, s) \<Rightarrow>
        case List.find (rewound s now) (timers s) of
          None \<Rightarrow> Some s
        | Some t \<Rightarrow> Option.bind (DoTimer e t now s) (\<lambda>s'. CheckAllTimers e s'))"

definition check_timers :: "tenv \<Rightarrow> tstate \<Rightarrow> (int \<times> tstate) option" where
  "check_timers e s0 =
     (case first_timer s0 of
        None \<Rightarrow> Some (-1, s0)
      | Some t \<Rightarrow>
          (case GetTimeInMillis e s0 of (now, s) \<Rightarrow>
             let timeout = sint (expires_of s t - now) in
             if timeout \<le> 0 then map_option (\<lambda>s'. (0, s')) (DoTimers e now s)
             else if word_of_int timeout < delta_of s t + 250 then Some (timeout, s)
             else map_option (\<lambda>s'. (0, s')) (CheckAllTimers e s)))"

definition AdjustWaitForDelay :: "int \<Rightarrow> int \<Rightarrow> int" where
  "AdjustWaitForDelay timeout newdelay = (if timeout < 0 \<or> newdelay < timeout then newdelay else timeout)"

definition TimerForce :: "tenv \<Rightarrow> nat \<Rightarrow> tstate \<Rightarrow> (bool \<times> tstate) option" where
  "TimerForce e t s0 =
     (if timer_pending t s0 then
        (case GetTimeInMillis e s0 of (now, s) \<Rightarrow> map_option (\<lambda>s'. (True, s')) (DoTimer e t now s))
      else Some (False, s0))"

definition TimerCancel :: "nat option \<Rightarrow> tstate \<Rightarrow> tstate" where
  "TimerCancel timer s = (case timer of None \<Rightarrow> s | Some t \<Rightarrow> timer_del t s)"

definition TimerFree :: "nat option \<Rightarrow> tstate \<Rightarrow> tstate" where
  "TimerFree timer s =
     (case timer of
        None \<Rightarrow> s
      | Some t \<Rightarrow> let s1 = TimerCancel timer s in s1\<lparr>tinfo := (tinfo s1)(t := None)\<rparr>)"

definition TimerInit :: "tstate \<Rightarrow> tstate" where
  "TimerInit s = s\<lparr>timers := [], tinfo := tinfo s |` (- set (timers s))\<rparr>"

subsection \<open>The screen saver\<close>

text \<open>The times are unsigned and \<open>timeout\<close> is an \<open>INT32\<close>, which C converts to unsigned in both macros; so \<open>timeout\<close> is a
  32-bit word here. \<open>DPMSSet\<close> (another component) is an argument.\<close>

definition DPMS_CHECK_MODE :: "(DPMSMode \<Rightarrow> saver \<Rightarrow> saver) \<Rightarrow> DPMSMode \<Rightarrow> card32 \<Rightarrow> card32 \<Rightarrow> saver \<Rightarrow> saver" where
  "DPMS_CHECK_MODE dpmsset mode time timeout v =
     (if time > 0 \<and> dpms_level (DPMSPowerLevel v) < dpms_level mode \<and> timeout \<ge> time then dpmsset mode v else v)"

definition DPMS_CHECK_TIMEOUT :: "card32 \<Rightarrow> card32 \<Rightarrow> bool" where
  "DPMS_CHECK_TIMEOUT time timeout \<longleftrightarrow> time > 0 \<and> time - timeout > 0"

definition NextDPMSTimeout :: "card32 \<Rightarrow> saver \<Rightarrow> card32" where
  "NextDPMSTimeout timeout v =
     (let lvl = dpms_level (DPMSPowerLevel v) in
      if lvl \<le> 0 \<and> DPMS_CHECK_TIMEOUT (DPMSStandbyTime v) timeout then DPMSStandbyTime v - timeout
      else if lvl \<le> 1 \<and> DPMS_CHECK_TIMEOUT (DPMSSuspendTime v) timeout then DPMSSuspendTime v - timeout
      else if lvl \<le> 2 \<and> DPMS_CHECK_TIMEOUT (DPMSOffTime v) timeout then DPMSOffTime v - timeout
      else 0)"

text \<open>The callback of the screen saver's timer; \<open>dixSaveScreens\<close> turns the saver on.\<close>

definition saver_checks :: "card32 \<Rightarrow> card32 \<Rightarrow> saver \<Rightarrow> card32 \<times> saver" where
  "saver_checks timeout nextTimeout v =
     (if ScreenSaverTime v = 0 then (nextTimeout, v)
      else if timeout < ScreenSaverTime v then
        (if nextTimeout > 0 then min (ScreenSaverTime v - timeout) nextTimeout else ScreenSaverTime v - timeout, v)
      else
        let v1 = v\<lparr>saver_on := True\<rparr> in
        (if ScreenSaverInterval v1 > 0
         then (if nextTimeout > 0 then min (ScreenSaverInterval v1) nextTimeout else ScreenSaverInterval v1)
         else nextTimeout, v1))"

definition ScreenSaverTimeoutExpire :: "(DPMSMode \<Rightarrow> saver \<Rightarrow> saver) \<Rightarrow> card32 \<Rightarrow> saver \<Rightarrow> card32 \<times> saver" where
  "ScreenSaverTimeoutExpire dpmsset now v0 =
     (let timeout = now - LastEventMillis v0;
          v = (if DPMSEnabled v0
               then (let v1 = DPMS_CHECK_MODE dpmsset DPMSModeOff (DPMSOffTime v0) timeout v0;
                         v2 = DPMS_CHECK_MODE dpmsset DPMSModeSuspend (DPMSSuspendTime v1) timeout v1
                     in DPMS_CHECK_MODE dpmsset DPMSModeStandby (DPMSStandbyTime v2) timeout v2)
               else v0);
          nextTimeout = (if DPMSEnabled v0 then NextDPMSTimeout timeout v else 0)
      in if DPMSPowerLevel v \<noteq> DPMSModeOn then (nextTimeout, v)
         else saver_checks timeout nextTimeout v)"

definition FreeScreenSaverTimer :: "tstate \<Rightarrow> tstate" where
  "FreeScreenSaverTimer s =
     (case ScreenSaverTimer (sv s) of
        None \<Rightarrow> s
      | Some t \<Rightarrow> let s1 = TimerFree (Some t) s in s1\<lparr>sv := (sv s1)\<lparr>ScreenSaverTimer := None\<rparr>\<rparr>)"

text \<open>The time until the first of the enabled events.\<close>

definition saver_timeout :: "saver \<Rightarrow> card32" where
  "saver_timeout v =
     (let timeout = (if DPMSEnabled v
                     then (if DPMSStandbyTime v > 0 then DPMSStandbyTime v
                           else if DPMSSuspendTime v > 0 then DPMSSuspendTime v
                           else if DPMSOffTime v > 0 then DPMSOffTime v else 0)
                     else 0)
      in if ScreenSaverTime v > 0 then (if timeout > 0 then min (ScreenSaverTime v) timeout else ScreenSaverTime v)
         else timeout)"

text \<open>\<open>func\<close> is the index of the screen saver's callback.\<close>

definition SetScreenSaverTimer :: "tenv \<Rightarrow> nat \<Rightarrow> tstate \<Rightarrow> tstate option" where
  "SetScreenSaverTimer e func s =
     (let timeout = saver_timeout (sv s) in
      if timeout \<noteq> 0 \<and> \<not> screenSaverSuspended (sv s)
      then map_option (\<lambda>(t, s'). s'\<lparr>sv := (sv s')\<lparr>ScreenSaverTimer := t\<rparr>\<rparr>)
             (TimerSet e (ScreenSaverTimer (sv s)) 0 timeout func 0 s)
      else Some (FreeScreenSaverTimer s))"

end
