(* ===== verification/TimerLaws.thy ===== *)
theory TimerLaws
  imports Timers "HOL-Library.Multiset"
begin

text \<open>
  What the timer code guarantees: the pending list is ordered on the wrapping clock and holds each timer
  once; running the timers at some time runs exactly the due ones, in order, once each, and returns.
\<close>

subsection \<open>The interface of a list kept in order\<close>

text \<open>A list kept in order of a key that a window of the clock gives; insertion goes behind equal keys.\<close>

locale ordered_queue =
  fixes key :: "'k \<Rightarrow> int" and window :: "'k \<Rightarrow> bool" and after :: "'k \<Rightarrow> 'k \<Rightarrow> bool"
    and ins :: "('t \<Rightarrow> 'k) \<Rightarrow> 'k \<Rightarrow> 't \<Rightarrow> 't list \<Rightarrow> 't list"
  assumes after_key: "window a \<Longrightarrow> window b \<Longrightarrow> after a b \<longleftrightarrow> key b < key a"
    and ins_Nil: "ins ex k t [] = [t]"
    and ins_Cons: "ins ex k t (x # xs) = (if after (ex x) k then t # x # xs else x # ins ex k t xs)"
begin

definition in_order :: "('t \<Rightarrow> 'k) \<Rightarrow> 't list \<Rightarrow> bool" where
  "in_order ex = sorted_wrt (\<lambda>x y. key (ex x) \<le> key (ex y))"

lemma ins_mset: "mset (ins ex k t xs) = add_mset t (mset xs)"
  by (induction xs) (auto simp: ins_Nil ins_Cons)

lemma ins_set: "set (ins ex k t xs) = insert t (set xs)"
  using ins_mset [of ex k t xs] by (metis set_mset_add_mset_insert set_mset_mset)

lemma ins_distinct: "distinct (ins ex k t xs) \<longleftrightarrow> distinct xs \<and> t \<notin> set xs"
  by (induction xs) (auto simp: ins_Nil ins_Cons ins_set)

lemma ins_filter: "\<not> P t \<Longrightarrow> filter P (ins ex k t xs) = filter P xs"
  by (induction xs) (auto simp: ins_Nil ins_Cons)

lemma ins_remove: "t \<notin> set xs \<Longrightarrow> remove1 t (ins ex k t xs) = xs"
  by (induction xs) (auto simp: ins_Nil ins_Cons)

lemma ins_in_order:
  assumes "in_order ex xs" "\<forall>x \<in> insert t (set xs). window (ex x)"
  shows "in_order ex (ins ex (ex t) t xs)"
  using assms
proof (induction xs)
  case Nil
  then show ?case by (simp add: ins_Nil in_order_def)
next
  case (Cons x xs)
  then show ?case using after_key [of "ex x" "ex t"] by (fastforce simp: ins_set ins_Cons in_order_def)
qed

text \<open>In an ordered list the elements not after a moment are a prefix.\<close>

lemma not_after_prefix:
  assumes "in_order ex (x # xs)" "\<forall>y \<in> set (x # xs). window (ex y)" "window m" "after (ex x) m"
  shows "\<forall>y \<in> set (x # xs). after (ex y) m"
  using assms after_key by (fastforce simp: in_order_def)

end

subsection \<open>The wrapping clock\<close>

definition clock_pos :: "card32 \<Rightarrow> card32 \<Rightarrow> int" where
  "clock_pos base a = uint (a - base)"

text \<open>A half of the clock's range that starts at \<open>base\<close>.\<close>

definition in_window :: "card32 \<Rightarrow> card32 \<Rightarrow> bool" where
  "in_window base a \<longleftrightarrow> clock_pos base a < 2 ^ 31"

lemma sint_diff:
  fixes u v :: card32
  assumes "uint u < 2 ^ 31" "uint v < 2 ^ 31"
  shows "sint (u - v) = uint u - uint v"
proof -
  have "u - v = word_of_int (uint u - uint v)" by (rule word_sub_wi)
  moreover have "signed_take_bit 31 (uint u - uint v) = uint u - uint v"
  proof (rule signed_take_bit_int_eq_self)
    have "0 \<le> uint u" "0 \<le> uint v" by simp_all
    then show "- (2 ^ 31) \<le> uint u - uint v" "uint u - uint v < 2 ^ 31" using assms by linarith+
  qed
  moreover have "sint (word_of_int k :: card32) = signed_take_bit 31 k" for k by (simp add: signed_of_int)
  ultimately show ?thesis by (simp only:)
qed

lemma later_clock_pos:
  assumes "in_window base a" "in_window base b"
  shows "later a b \<longleftrightarrow> clock_pos base b < clock_pos base a"
proof -
  have "a - b = (a - base) - (b - base)" by simp
  then have "sint (a - b) = clock_pos base a - clock_pos base b"
    using sint_diff [of "a - base" "b - base"] assms by (simp add: in_window_def clock_pos_def)
  then show ?thesis by (simp add: later_def)
qed

interpretation tl: ordered_queue "clock_pos base" "in_window base" later insert_timer for base
  by unfold_locales (simp_all add: later_clock_pos)

definition timers_inv :: "card32 \<Rightarrow> tstate \<Rightarrow> bool" where
  "timers_inv base s \<longleftrightarrow> distinct (timers s) \<and> tl.in_order base (expires_of s) (timers s) \<and>
     (\<forall>t \<in> set (timers s). tinfo s t \<noteq> None \<and> in_window base (expires_of s t)) \<and>
     (\<forall>t \<ge> t_next s. tinfo s t = None)"

subsection \<open>Setting a timer\<close>

lemma later_relative: "0 < millis \<Longrightarrow> uint millis < 2 ^ 31 \<Longrightarrow> later (millis + now) now"
proof -
  assume m: "0 < millis" "uint millis < 2 ^ 31"
  have "sint (millis - 0) = uint millis - uint (0 :: card32)" using m by (intro sint_diff) simp_all
  then show ?thesis using m(1) by (simp add: later_def word_less_def)
qed

lemma expires_of_upd: "expires_of (s\<lparr>tinfo := (tinfo s)(t \<mapsto> r)\<rparr>) x = (if x = t then expires r else expires_of s x)"
  by (simp add: expires_of_def)

lemma expires_frame [simp]:
  "expires_of (s\<lparr>timers := ts\<rparr>) = expires_of s" "expires_of (s\<lparr>t_reads := n\<rparr>) = expires_of s"
  "expires_of (s\<lparr>t_fired := l\<rparr>) = expires_of s" "expires_of (s\<lparr>t_next := n\<rparr>) = expires_of s"
  by (simp_all add: expires_of_def fun_eq_iff)

lemma in_order_cong: "(\<And>x. x \<in> set xs \<Longrightarrow> f x = g x) \<Longrightarrow> tl.in_order base f xs = tl.in_order base g xs"
  by (induction xs) (auto simp: tl.in_order_def)

text \<open>Arming a timer that is not in the list puts it there, in order, and touches no other timer.\<close>

lemma timer_arm_spec:
  fixes f a
  assumes inv: "timers_inv base s" and t: "t \<notin> set (timers s)" "t < t_next s"
    and w: "0 < millis" "uint millis < 2 ^ 31" "in_window base (millis + now)"
  defines "s' \<equiv> snd (timer_arm t 0 millis f a now s)"
  shows "timer_arm t 0 millis f a now s = (False, s')" "timers_inv base s'"
    "tinfo s' = (tinfo s)(t \<mapsto> \<lparr>expires = millis + now, delta = millis, t_callback = f, t_arg = a\<rparr>)"
    "timers s' = insert_timer (expires_of s') (millis + now) t (timers s)" "t_fired s' = t_fired s"
    "t_next s' = t_next s" "t_reads s' = t_reads s" "sv s' = sv s"
proof -
  let ?r = "\<lparr>expires = millis + now, delta = millis, t_callback = f, t_arg = a\<rparr>"
  let ?s1 = "s\<lparr>tinfo := (tinfo s)(t \<mapsto> ?r)\<rparr>"
  have s': "s' = ?s1\<lparr>timers := insert_timer (expires_of ?s1) (millis + now) t (timers s)\<rparr>"
    by (simp add: s'_def timer_arm_def Let_def)
  show "timer_arm t 0 millis f a now s = (False, s')"
    using later_relative [OF w(1,2)] by (simp add: s'_def timer_arm_def Let_def)
  have ex: "expires_of s' x = (if x = t then millis + now else expires_of s x)" for x
    by (simp add: s' expires_of_upd)
  have "tl.in_order base (expires_of s') (timers s) = tl.in_order base (expires_of s) (timers s)"
    using t(1) by (intro in_order_cong) (auto simp: ex)
  then have "tl.in_order base (expires_of s') (timers s)" using inv by (simp add: timers_inv_def)
  then have "tl.in_order base (expires_of s') (insert_timer (expires_of s') (expires_of s' t) t (timers s))"
    using inv w(3) by (intro tl.ins_in_order) (auto simp: timers_inv_def ex)
  then show "timers_inv base s'"
    using inv t w(3) ex by (auto simp: timers_inv_def s' tl.ins_set tl.ins_distinct)
  show "tinfo s' = (tinfo s)(t \<mapsto> ?r)" "timers s' = insert_timer (expires_of s') (millis + now) t (timers s)"
    "t_fired s' = t_fired s" "t_next s' = t_next s" "t_reads s' = t_reads s" "sv s' = sv s"
    by (simp_all add: s')
qed

lemma timer_del_inv:
  assumes "timers_inv base s"
  shows "timers_inv base (timer_del t s)" "t \<notin> set (timers (timer_del t s))"
  using assms by (auto simp: timers_inv_def timer_del_def tl.in_order_def distinct_remove1 intro: sorted_wrt_filter
      simp: distinct_remove1_removeAll removeAll_filter_not_eq)

lemma timers_inv_frame [simp]:
  "timers_inv base (s\<lparr>t_reads := n\<rparr>) = timers_inv base s" "timers_inv base (s\<lparr>t_fired := l\<rparr>) = timers_inv base s"
  by (simp_all add: timers_inv_def)

text \<open>Taking the timer to set, without forcing its callback.\<close>

lemma timer_take_spec:
  fixes e
  assumes inv: "timers_inv base s" and t: "case timer of None \<Rightarrow> t_calloc e (t_next s) | Some t \<Rightarrow> tinfo s t \<noteq> None"
  defines "t \<equiv> case timer of None \<Rightarrow> t_next s | Some t \<Rightarrow> t"
  shows "\<exists>s1. timer_take e timer 0 s = Some (Some t, clock e (t_reads s), s1) \<and> timers_inv base s1 \<and> t \<notin> set (timers s1) \<and>
    t < t_next s1 \<and> timers s1 = remove1 t (timers s) \<and> (\<forall>x. x \<noteq> t \<longrightarrow> tinfo s1 x = tinfo s x) \<and> tinfo s1 t \<noteq> None \<and>
    t_fired s1 = t_fired s \<and> t_reads s1 = t_reads s + 1 \<and> sv s1 = sv s \<and> t_next s \<le> t_next s1"
proof (cases timer)
  case None
  let ?s1 = "s\<lparr>t_reads := t_reads s + 1, tinfo := (tinfo s)(t_next s \<mapsto> \<lparr>expires = 0, delta = 0, t_callback = 0, t_arg = 0\<rparr>),
    t_next := t_next s + 1\<rparr>"
  have new: "t_next s \<notin> set (timers s)" using inv by (auto simp: timers_inv_def)
  have "timers_inv base ?s1"
    using inv new in_order_cong [of "timers s" "expires_of ?s1" "expires_of s" base]
    by (auto simp: timers_inv_def expires_of_def)
  then show ?thesis
    using None t new by (intro exI [of _ ?s1]) (simp add: timer_take_def GetTimeInMillis_def t_def remove1_idem)
next
  case (Some u)
  let ?s = "s\<lparr>t_reads := t_reads s + 1\<rparr>"
  have "\<not> t_next s \<le> u" using inv t Some by (auto simp: timers_inv_def)
  moreover have "timers_inv base (timer_del u ?s)" "u \<notin> set (timers (timer_del u ?s))"
    using timer_del_inv [of base ?s u] inv by simp_all
  ultimately show ?thesis
    using Some t inv
    by (cases "u \<in> set (timers s)")
       (auto simp: timer_take_def GetTimeInMillis_def t_def timer_pending_def timer_del_def TimerForceOld_def remove1_idem)
qed

lemma timer_set_spec:
  fixes e func arg
  assumes "timers_inv base s" "case timer of None \<Rightarrow> t_calloc e (t_next s) | Some t \<Rightarrow> tinfo s t \<noteq> None"
    and "0 < millis" "uint millis < 2 ^ 31" "in_window base (millis + clock e (t_reads s))"
  defines "t \<equiv> case timer of None \<Rightarrow> t_next s | Some t \<Rightarrow> t"
  shows "\<exists>s'. TimerSet e timer 0 millis func arg s = Some (Some t, s') \<and> timers_inv base s' \<and>
    tinfo s' t = Some \<lparr>expires = millis + clock e (t_reads s), delta = millis, t_callback = func, t_arg = arg\<rparr> \<and>
    timers s' = insert_timer (expires_of s') (millis + clock e (t_reads s)) t (remove1 t (timers s)) \<and>
    mset (timers s') = add_mset t (mset (remove1 t (timers s))) \<and>
    (\<forall>x. x \<noteq> t \<longrightarrow> tinfo s' x = tinfo s x) \<and> t_fired s' = t_fired s \<and> remove1 t (timers s') = remove1 t (timers s)"
proof -
  let ?now = "clock e (t_reads s)"
  obtain s1 where s1: "timer_take e timer 0 s = Some (Some t, ?now, s1)" "timers_inv base s1" "t \<notin> set (timers s1)"
    "t < t_next s1" "timers s1 = remove1 t (timers s)" "\<forall>x. x \<noteq> t \<longrightarrow> tinfo s1 x = tinfo s x" "tinfo s1 t \<noteq> None"
    "t_fired s1 = t_fired s"
    using timer_take_spec [OF assms(1,2)] unfolding t_def by blast
  obtain s2 where s2: "timer_arm t 0 millis func arg ?now s1 = (False, s2)" "timers_inv base s2"
    "tinfo s2 = (tinfo s1)(t \<mapsto> \<lparr>expires = millis + ?now, delta = millis, t_callback = func, t_arg = arg\<rparr>)"
    "timers s2 = insert_timer (expires_of s2) (millis + ?now) t (timers s1)" "t_fired s2 = t_fired s1"
    using timer_arm_spec(1-5) [OF s1(2-4) assms(3-5), of func arg] by blast
  have "TimerSet e timer 0 millis func arg s = Some (Some t, s2)"
    using s1(1,7) s2(1) assms(3) by (auto simp: TimerSet.simps)
  then show ?thesis using s1 s2 tl.ins_mset tl.ins_remove by (intro exI [of _ s2]) simp
qed

text \<open>Setting a timer to a relative time in the future (under half of the clock's range) puts it, new or not, pending or not, exactly
  once into the list, to expire that many milliseconds after the time read; the list stays ordered by expiry on the wrapping
  clock, behind timers of the same expiry; the other timers keep their order and settings, and no callback runs.\<close>

lemma TimerSet_schedules:
  fixes e func arg
  assumes "timers_inv base s" "case timer of None \<Rightarrow> t_calloc e (t_next s) | Some t \<Rightarrow> tinfo s t \<noteq> None"
    and "0 < millis" "uint millis < 2 ^ 31" "in_window base (millis + clock e (t_reads s))"
  defines "t \<equiv> case timer of None \<Rightarrow> t_next s | Some t \<Rightarrow> t"
  shows "\<exists>s'. TimerSet e timer 0 millis func arg s = Some (Some t, s') \<and> timers_inv base s' \<and>
    tinfo s' t = Some \<lparr>expires = millis + clock e (t_reads s), delta = millis, t_callback = func, t_arg = arg\<rparr> \<and>
    timers s' = insert_timer (expires_of s') (millis + clock e (t_reads s)) t (remove1 t (timers s)) \<and>
    mset (timers s') = add_mset t (mset (remove1 t (timers s))) \<and>
    (\<forall>x. x \<noteq> t \<longrightarrow> tinfo s' x = tinfo s x) \<and> t_fired s' = t_fired s"
  using timer_set_spec [OF assms(1-5)] unfolding t_def by blast

definition timer_example :: tstate where
  "timer_example = \<lparr>timers = [1], tinfo = [1 \<mapsto> \<lparr>expires = 5, delta = 10, t_callback = 0, t_arg = 0\<rparr>], t_next = 2, t_reads = 0,
     t_fired = [], sv = \<lparr>DPMSEnabled = False, DPMSPowerLevel = DPMSModeOn, DPMSStandbyTime = 0, DPMSSuspendTime = 0,
       DPMSOffTime = 0, ScreenSaverTime = 600000, ScreenSaverInterval = 0, screenSaverSuspended = False, LastEventMillis = 0,
       ScreenSaverTimer = None, saver_on = False\<rparr>\<rparr>"

definition timer_example_env :: tenv where
  "timer_example_env = \<lparr>clock = (\<lambda>_. 0xfffffffd), t_calloc = (\<lambda>_. True), callback = (\<lambda>f t now a s. (of_nat f, s))\<rparr>"

text \<open>The clock is about to wrap: now is \<open>2 ^ 32 - 3\<close>, the pending timer expires at 5.\<close>

lemma timer_example_inv: "timers_inv 0xffffff00 timer_example"
  by (simp add: timers_inv_def timer_example_def tl.in_order_def expires_of_def in_window_def clock_pos_def)

subsection \<open>Running timers\<close>

text \<open>Callbacks that return the time until the next round, at most \<open>limit\<close>, and leave the timers alone; a clock that is not before
  \<open>now\<close> and leaves room for that.\<close>

definition calm :: "tenv \<Rightarrow> card32 \<Rightarrow> card32 \<Rightarrow> int \<Rightarrow> bool" where
  "calm e base now limit \<longleftrightarrow> limit < 2 ^ 31 \<and> in_window base now \<and>
     (\<forall>i. clock_pos base now \<le> clock_pos base (clock e i) \<and> clock_pos base (clock e i) + limit < 2 ^ 31) \<and>
     (\<forall>f t n a s. uint (fst (callback e f t n a s)) \<le> limit \<and>
        (let s' = snd (callback e f t n a s) in timers s' = timers s \<and> tinfo s' = tinfo s \<and> t_next s' = t_next s \<and>
           t_fired s' = t_fired s))"

lemma calm_callback:
  assumes "calm e base now limit"
  shows "uint (fst (callback e f t n a s)) \<le> limit" "timers (snd (callback e f t n a s)) = timers s"
    "tinfo (snd (callback e f t n a s)) = tinfo s" "t_next (snd (callback e f t n a s)) = t_next s"
    "t_fired (snd (callback e f t n a s)) = t_fired s"
  using assms unfolding calm_def Let_def by blast+

definition due :: "tstate \<Rightarrow> card32 \<Rightarrow> nat \<Rightarrow> bool" where
  "due s now t \<longleftrightarrow> \<not> later (expires_of s t) now"

lemma clock_pos_add:
  assumes "clock_pos base c + uint d < 2 ^ 32"
  shows "clock_pos base (d + c) = clock_pos base c + uint d"
proof -
  have "d + c - base = (c - base) + d" by simp
  moreover have "uint ((c - base) + d) = (uint (c - base) + uint d) mod 2 ^ 32" by (subst uint_word_ariths(1)) simp
  ultimately have "clock_pos base (d + c) = (clock_pos base c + uint d) mod 2 ^ 32"
    by (simp only: clock_pos_def)
  moreover have "0 \<le> clock_pos base c + uint d" by (simp add: clock_pos_def)
  ultimately show ?thesis using assms by (simp add: mod_pos_pos_trivial)
qed

lemma timers_inv_cong:
  assumes "timers s' = timers s" "tinfo s' = tinfo s" "t_next s' = t_next s"
  shows "timers_inv base s' = timers_inv base s" "expires_of s' = expires_of s"
proof -
  show e: "expires_of s' = expires_of s" using assms by (simp add: expires_of_def fun_eq_iff)
  show "timers_inv base s' = timers_inv base s" unfolding timers_inv_def e assms ..
qed

lemma rearmed_later:
  assumes "calm e base now limit" "0 < n" "uint n \<le> limit"
  shows "uint n < 2 ^ 31" "in_window base (n + clock e i)" "later (n + clock e i) now"
proof -
  have c: "clock_pos base now \<le> clock_pos base (clock e i)" "clock_pos base (clock e i) + limit < 2 ^ 31" "limit < 2 ^ 31"
    "in_window base now"
    using assms(1) by (simp_all add: calm_def)
  show "uint n < 2 ^ 31" using assms(3) c(3) by linarith
  have p: "clock_pos base (n + clock e i) = clock_pos base (clock e i) + uint n"
    using c(2) assms(3) by (intro clock_pos_add) simp
  show w: "in_window base (n + clock e i)" using p c(2) assms(3) by (simp add: in_window_def)
  have "0 < uint n" using assms(2) by (simp add: word_less_def)
  then show "later (n + clock e i) now" using later_clock_pos [OF w c(4)] p c(1) by simp
qed

text \<open>One timer's round: it leaves the list, or comes back to it later than \<open>now\<close>.\<close>

lemma DoTimer_step:
  assumes inv: "timers_inv base s" and calm: "calm e base now limit" and t: "timers s = t # ts"
  shows "\<exists>s'. DoTimer e t now s = Some s' \<and> timers_inv base s' \<and> t_fired s' = t_fired s @ [(t, now)] \<and>
    (\<forall>x. x \<noteq> t \<longrightarrow> tinfo s' x = tinfo s x) \<and> remove1 t (timers s') = ts \<and>
    (t \<in> set (timers s') \<longrightarrow> \<not> due s' now t)"
proof -
  obtain r where r: "tinfo s t = Some r" using inv t by (auto simp: timers_inv_def)
  let ?s1 = "(timer_del t s)\<lparr>t_fired := t_fired s @ [(t, now)]\<rparr>"
  obtain n s2 where cb: "callback e (t_callback r) t now (t_arg r) ?s1 = (n, s2)" by fastforce
  have q: "uint n \<le> limit" "timers s2 = ts" "tinfo s2 = tinfo s" "t_next s2 = t_next s" "t_fired s2 = t_fired s @ [(t, now)]"
    using calm_callback [OF calm, of "t_callback r" t now "t_arg r" ?s1] cb t by (simp_all add: timer_del_def)
  have inv2: "timers_inv base s2" and nt: "t \<notin> set ts"
    using timer_del_inv [OF inv, of t] timers_inv_cong(1) [of s2 "timer_del t s" base] q t inv
    by (auto simp: timer_del_def timers_inv_def)
  have run: "run_callback e t now (timer_del t s) = Some (n, s2)"
    using r cb by (simp add: run_callback_def timer_del_def)
  show ?thesis
  proof (cases "n = 0")
    case True
    then show ?thesis using run q inv2 nt by (simp add: DoTimer_def remove1_idem)
  next
    case False
    then have n: "0 < n" by (simp add: word_neq_0_conv)
    note later = rearmed_later(1) [OF calm n q(1)] rearmed_later(2,3) [OF calm n q(1), of "t_reads s2"]
    obtain s3 where s3: "TimerSet e (Some t) 0 n (t_callback r) (t_arg r) s2 = Some (Some t, s3)" "timers_inv base s3"
      "tinfo s3 t = Some \<lparr>expires = n + clock e (t_reads s2), delta = n, t_callback = t_callback r, t_arg = t_arg r\<rparr>"
      "\<forall>x. x \<noteq> t \<longrightarrow> tinfo s3 x = tinfo s2 x" "t_fired s3 = t_fired s2" "remove1 t (timers s3) = remove1 t (timers s2)"
      using timer_set_spec [OF inv2, where timer = "Some t" and e = e and millis = n and func = "t_callback r" and arg = "t_arg r"] q(3) r n later(1,2) by auto
    have "DoTimer e t now s = Some s3" using run q(3) r s3(1) False by (simp add: DoTimer_def)
    moreover have "\<not> due s3 now t" using s3(3) later(3) by (simp add: due_def expires_of_def)
    ultimately show ?thesis using s3 q nt by (simp add: remove1_idem)
  qed
qed

lemma filter_remove1_skip: "x \<in> set xs \<longrightarrow> \<not> P x \<Longrightarrow> filter P (remove1 x xs) = filter P xs"
  by (simp add: filter_remove1 remove1_idem)

lemma DoTimers_runs:
  assumes "timers_inv base s" and calm: "calm e base now limit"
  shows "\<exists>s'. DoTimers e now s = Some s' \<and> timers_inv base s' \<and>
    t_fired s' = t_fired s @ map (\<lambda>t. (t, now)) (filter (due s now) (timers s)) \<and>
    (\<forall>t \<in> set (timers s'). \<not> due s' now t) \<and>
    filter (\<lambda>t. t \<notin> set (filter (due s now) (timers s))) (timers s') = filter (\<lambda>t. \<not> due s now t) (timers s) \<and>
    (\<forall>t. t \<notin> set (filter (due s now) (timers s)) \<longrightarrow> tinfo s' t = tinfo s t)"
  using assms(1)
proof (induction "length (filter (due s now) (timers s))" arbitrary: s rule: less_induct)
  case less
  have nw: "in_window base now" using calm by (simp add: calm_def)
  show ?case
  proof (cases "timers s")
    case Nil
    then show ?thesis using less(2) by (simp add: DoTimers.simps first_timer_def)
  next
    case (Cons t ts)
    show ?thesis
    proof (cases "due s now t")
      case False
      have ord: "tl.in_order base (expires_of s) (t # ts)" "\<forall>y \<in> set (t # ts). in_window base (expires_of s y)"
        using less(2) Cons by (auto simp: timers_inv_def)
      then have none: "\<forall>x \<in> set (timers s). \<not> due s now x"
        using tl.not_after_prefix [OF ord nw] False Cons by (auto simp: due_def)
      moreover have "DoTimers e now s = Some s"
        using False Cons by (simp add: DoTimers.simps first_timer_def due_def)
      moreover have "filter (due s now) (timers s) = []" "filter (\<lambda>t. \<not> due s now t) (timers s) = timers s"
        using none by (simp_all add: filter_empty_conv)
      ultimately show ?thesis using less(2) by (intro exI [of _ s]) (simp only: list.map append_Nil2 list.set, simp)
    next
      case True
      obtain s1 where s1: "DoTimer e t now s = Some s1" "timers_inv base s1" "t_fired s1 = t_fired s @ [(t, now)]"
        "\<forall>x. x \<noteq> t \<longrightarrow> tinfo s1 x = tinfo s x" "remove1 t (timers s1) = ts" "t \<in> set (timers s1) \<longrightarrow> \<not> due s1 now t"
        using DoTimer_step [OF less(2) calm Cons] by blast
      have nt: "t \<notin> set ts" using less(2) Cons by (simp add: timers_inv_def)
      have same: "due s1 now x = due s now x" if "x \<noteq> t" for x using s1(4) that by (simp add: due_def expires_of_def)
      have c: "filter (due s1 now) ts = filter (due s now) ts"
        "filter (\<lambda>x. \<not> due s1 now x \<and> x \<noteq> t) ts = filter (\<lambda>x. \<not> due s now x) ts"
        using nt same by (intro filter_cong; metis)+
      have f1: "filter (due s1 now) (timers s1) = filter (due s now) ts"
        using filter_remove1_skip [where P = "due s1 now", OF s1(6)] s1(5) c(1) by simp
      have n1: "filter (\<lambda>x. \<not> due s1 now x \<and> x \<noteq> t) (timers s1) = filter (\<lambda>x. \<not> due s now x) ts"
        using filter_remove1_skip [of t "timers s1" "\<lambda>x. \<not> due s1 now x \<and> x \<noteq> t"] s1(5) c(2) by simp
      have d: "filter (due s now) (timers s) = t # filter (due s now) ts" using True Cons by simp
      obtain s' where s': "DoTimers e now s1 = Some s'" "timers_inv base s'"
        "t_fired s' = t_fired s1 @ map (\<lambda>t. (t, now)) (filter (due s now) ts)" "\<forall>t \<in> set (timers s'). \<not> due s' now t"
        "filter (\<lambda>x. x \<notin> set (filter (due s now) ts)) (timers s') = filter (\<lambda>x. \<not> due s1 now x) (timers s1)"
        "\<forall>x. x \<notin> set (filter (due s now) ts) \<longrightarrow> tinfo s' x = tinfo s1 x"
        using less(1) [of s1] s1(2) unfolding f1 d by auto
      have "DoTimers e now s = Some s'"
        using True Cons s1(1) s'(1) by (simp add: DoTimers.simps [of e now s] first_timer_def due_def)
      moreover have "filter (\<lambda>x. x \<notin> set (filter (due s now) (timers s))) (timers s') =
          filter (\<lambda>x. x \<noteq> t) (filter (\<lambda>x. x \<notin> set (filter (due s now) ts)) (timers s'))"
        unfolding d filter_filter by (rule filter_cong) auto
      moreover have "\<dots> = filter (\<lambda>x. \<not> due s now x) (timers s)"
        unfolding s'(5) filter_filter using n1 True Cons by (simp add: conj_commute)
      ultimately show ?thesis using s' s1(3,4) unfolding d by auto
    qed
  qed
qed

text \<open>C29. Running the timers at a time \<open>now\<close> always returns (for callbacks that leave the timers alone and ask for at most half of the
  clock's range): exactly the timers due at \<open>now\<close> run, once each, in the order of the list; afterwards no pending timer is due, those that
  asked for another round among them, and the timers that were not due keep their order and settings; all this across a
  wrap-around of the clock.\<close>

theorem DoTimers_runs_due:
  assumes "timers_inv base s" "calm e base now limit"
  shows "\<exists>s'. DoTimers e now s = Some s' \<and> timers_inv base s' \<and>
    t_fired s' = t_fired s @ map (\<lambda>t. (t, now)) (filter (due s now) (timers s)) \<and>
    list_all (\<lambda>t. later (expires_of s' t) now) (timers s') \<and>
    filter (\<lambda>t. t \<notin> set (filter (due s now) (timers s))) (timers s') = filter (\<lambda>t. \<not> due s now t) (timers s)"
  using DoTimers_runs [OF assms] by (auto simp: list_all_iff due_def)

theorem DoTimers_runs_due_witness:
  "\<exists>s'. DoTimers (timer_example_env\<lparr>clock := \<lambda>_. 20, callback := \<lambda>f t now a s. (1000, s)\<rparr>) 20 timer_example = Some s' \<and>
     t_fired s' = [(1, 20)]"
proof -
  have "calm (timer_example_env\<lparr>clock := \<lambda>_. 20, callback := \<lambda>f t now a s. (1000, s)\<rparr>) 0xffffff00 20 1000"
    by (simp add: calm_def in_window_def clock_pos_def)
  moreover have "filter (due timer_example 20) (timers timer_example) = [1]" "t_fired timer_example = []"
    by (simp_all add: timer_example_def due_def later_def expires_of_def)
  ultimately show ?thesis using DoTimers_runs_due [OF timer_example_inv] by fastforce
qed

subsection \<open>The screen saver's timer\<close>

text \<open>An event stamped one millisecond after the time handed to the callback counts as \<open>2 ^ 32 - 1\<close> milliseconds of idleness: the
  screen saver goes on at once.\<close>

lemma saver_future_event:
  "saver_on (snd (ScreenSaverTimeoutExpire (\<lambda>_ v. v) 1000 ((sv timer_example)\<lparr>LastEventMillis := 1001\<rparr>)))"
  by (simp add: ScreenSaverTimeoutExpire_def timer_example_def saver_checks_def Let_def)

text \<open>With the last event not after \<open>now\<close> and power saving off, the saver goes on exactly when the idle time has reached the
  limit; before that the timer is asked for again after exactly the time that is left.\<close>

lemma saver_idle:
  assumes "\<not> DPMSEnabled v" "DPMSPowerLevel v = DPMSModeOn" "\<not> saver_on v" "0 < ScreenSaverTime v"
    and "LastEventMillis v \<le> now"
  shows "saver_on (snd (ScreenSaverTimeoutExpire f now v)) \<longleftrightarrow> unat (ScreenSaverTime v) \<le> unat now - unat (LastEventMillis v)"
    "unat now - unat (LastEventMillis v) < unat (ScreenSaverTime v) \<Longrightarrow>
       unat (fst (ScreenSaverTimeoutExpire f now v)) = unat (ScreenSaverTime v) - (unat now - unat (LastEventMillis v))"
proof -
  have d: "unat (now - LastEventMillis v) = unat now - unat (LastEventMillis v)" using assms(5) by (rule unat_sub)
  show "saver_on (snd (ScreenSaverTimeoutExpire f now v)) \<longleftrightarrow> unat (ScreenSaverTime v) \<le> unat now - unat (LastEventMillis v)"
    using assms(1-4) by (auto simp: ScreenSaverTimeoutExpire_def saver_checks_def Let_def word_less_nat_alt d)
  assume l: "unat now - unat (LastEventMillis v) < unat (ScreenSaverTime v)"
  then have "now - LastEventMillis v < ScreenSaverTime v" by (simp add: word_less_nat_alt d)
  then show "unat (fst (ScreenSaverTimeoutExpire f now v)) = unat (ScreenSaverTime v) - (unat now - unat (LastEventMillis v))"
    using assms(1-4) d unat_sub [of "now - LastEventMillis v" "ScreenSaverTime v"]
    by (auto simp: ScreenSaverTimeoutExpire_def saver_checks_def Let_def)
qed

end
