(* ===== verification/Grabs.thy ===== *)
theory Grabs
  imports Resources
begin

text \<open>
  Passive grabs (dix/grabs.c): the details of a grab with their exception masks, the matching of two grabs, adding a grab to
  the list of its window and taking the keys and modifiers of one grab out of the others of its client; the masks of
  XInput 2 events (dix/inpututils.c).

  No result (\<open>None\<close>) stands for an access outside an array or through a null pointer. Memory is an oracle in the state: every allocation takes the
  next answer. The resource database appears as the map from the identifiers of registered grabs to their windows;
  its own behaviour is the subject of other theories. A grab is identified by its resource identifier where the C code compares pointers.
\<close>

subsection \<open>Event masks of XInput 2\<close>

type_synonym XI2Mask = "card8 list list"

definition EMASKSIZE :: nat where "EMASKSIZE = 256 + 2"
definition XI2MASKSIZE :: nat where "XI2MASKSIZE = 32 div 8 + 1"

definition xi2mask_new_with_size :: "nat \<Rightarrow> nat \<Rightarrow> XI2Mask" where
  "xi2mask_new_with_size nmasks sz = replicate nmasks (replicate sz 0)"

definition xi2mask_new :: XI2Mask where
  "xi2mask_new = xi2mask_new_with_size EMASKSIZE XI2MASKSIZE"

definition xi2mask_isset_for_device :: "XI2Mask \<Rightarrow> nat \<Rightarrow> nat \<Rightarrow> bool option" where
  "xi2mask_isset_for_device m d ev =
     (if d < length m \<and> ev div 8 < length (m ! d) then Some (bit (m ! d ! (ev div 8)) (ev mod 8)) else None)"

definition xi2mask_isset :: "(nat \<Rightarrow> bool) \<Rightarrow> XI2Mask \<Rightarrow> nat \<Rightarrow> nat \<Rightarrow> bool option" where
  "xi2mask_isset is_master m d ev =
     Option.bind (xi2mask_isset_for_device m 0 ev) (\<lambda>b0. if b0 then Some True else
     Option.bind (xi2mask_isset_for_device m d ev) (\<lambda>b1. if b1 then Some True else
     if is_master d then xi2mask_isset_for_device m 1 ev else Some False))"

definition xi2mask_set :: "XI2Mask \<Rightarrow> nat \<Rightarrow> nat \<Rightarrow> XI2Mask option" where
  "xi2mask_set m d ev =
     (if d < length m \<and> ev div 8 < length (m ! d)
      then Some (m[d := (m ! d)[ev div 8 := set_bit (ev mod 8) (m ! d ! (ev div 8))]]) else None)"

definition xi2mask_zero :: "XI2Mask \<Rightarrow> int \<Rightarrow> XI2Mask option" where
  "xi2mask_zero m d =
     (if d \<ge> 0 then if nat d < length m then Some (m[nat d := replicate (length (m ! nat d)) 0]) else None
      else Some (List.map (\<lambda>r. replicate (length r) 0) m))"

text \<open>Only the part that both masks have is merged.\<close>

fun merge_bytes :: "card8 list \<Rightarrow> card8 list \<Rightarrow> card8 list" where
  "merge_bytes (x # xs) (y # ys) = (x OR y) # merge_bytes xs ys"
| "merge_bytes xs _ = xs"

fun xi2mask_merge :: "XI2Mask \<Rightarrow> XI2Mask \<Rightarrow> XI2Mask" where
  "xi2mask_merge (d # ds) (s # ss) = merge_bytes d s # xi2mask_merge ds ss"
| "xi2mask_merge ds _ = ds"

text \<open>Copying \<open>mask_size\<close> bytes out of the bytes that are there (\<open>src\<close>).\<close>

definition xi2mask_set_one_mask :: "XI2Mask \<Rightarrow> nat \<Rightarrow> card8 list \<Rightarrow> nat \<Rightarrow> XI2Mask option" where
  "xi2mask_set_one_mask m d src mask_size =
     (if d < length m \<and> min (length (m ! d)) mask_size \<le> length src
      then let n = min (length (m ! d)) mask_size in Some (m[d := take n src @ drop n (m ! d)]) else None)"

subsection \<open>Grabs\<close>

datatype InputLevel = CORE | XI | XI2

definition AnyModifier :: card32 where "AnyModifier = push_bit 15 1"
definition XIAnyModifier :: card32 where "XIAnyModifier = push_bit 31 1"
definition AnyKey :: card32 where "AnyKey = 0"
definition XIAnyKeycode :: card32 where "XIAnyKeycode = 0"
definition GrabModeSync :: card32 where "GrabModeSync = 0"
definition GrabModeAsync :: card32 where "GrabModeAsync = 1"
definition XIGrabModeTouch :: card32 where "XIGrabModeTouch = 2"
definition DixGrabAccess :: mask where "DixGrabAccess = push_bit 17 1"
definition DixFreezeAccess :: mask where "DixFreezeAccess = push_bit 18 1"
definition DixForceAccess :: mask where "DixForceAccess = push_bit 19 1"
definition MasksPerDetailMask :: nat where "MasksPerDetailMask = 8"

record DetailRec =
  exact :: card32
  pMask :: "card32 list option"

record GrabRec =
  resource :: xid
  device :: nat
  window :: xid
  ownerEvents :: "1 word"
  keyboardMode :: "1 word"
  pointerMode :: "1 word"
  grabtype :: InputLevel
  type :: card8
  modifiersDetail :: DetailRec
  modifierDevice :: nat
  detail :: DetailRec
  confineTo :: "xid option"
  cursor :: "xid option"
  eventMask :: mask
  deviceMask :: mask
  xi2mask :: XI2Mask

record GrabMask =
  gm_core :: mask
  gm_xi2mask :: "XI2Mask option"

record GrabParameters =
  gp_ownerEvents :: card32
  this_device_mode :: card32
  other_devices_mode :: card32
  grabWindow :: xid
  gp_confineTo :: xid
  gp_cursor :: xid
  modifiers :: card32

text \<open>What the grabs take from the rest of the server: the client limit, the kinds of devices, the access hook, and the identifiers
  \<open>FakeClientID\<close> hands out one after the other. \<open>optional_needed\<close> says whether a window has other reasons for its optional
  part.\<close>

record grab_env =
  g_lim :: nat
  all_devices :: nat
  all_master_devices :: nat
  InputDevIsMaster :: "nat \<Rightarrow> bool"
  dixCallDeviceAccessCallback :: "nat \<Rightarrow> nat \<Rightarrow> mask \<Rightarrow> status"
  fake_id :: "nat \<Rightarrow> nat \<Rightarrow> xid"
  optional_needed :: "xid \<Rightarrow> bool"

record grab_state =
  passiveGrabs :: "xid \<Rightarrow> GrabRec list"
  grab_resources :: "xid \<Rightarrow> xid option"
  optional :: "xid \<Rightarrow> bool"
  cursor_refs :: "xid \<Rightarrow> int"
  ids_used :: nat
  memory :: "bool list"

text \<open>An allocation: the next answer of the oracle, success when it has no more.\<close>

definition galloc :: "grab_state \<Rightarrow> bool \<times> grab_state" where
  "galloc s = (case memory s of [] \<Rightarrow> (True, s) | b # bs \<Rightarrow> (b, s\<lparr>memory := bs\<rparr>))"

definition RefCursor :: "xid option \<Rightarrow> grab_state \<Rightarrow> grab_state" where
  "RefCursor c s = (case c of None \<Rightarrow> s | Some x \<Rightarrow> s\<lparr>cursor_refs := (cursor_refs s)(x := cursor_refs s x + 1)\<rparr>)"

definition FreeCursor :: "xid option \<Rightarrow> grab_state \<Rightarrow> grab_state" where
  "FreeCursor c s = (case c of None \<Rightarrow> s | Some x \<Rightarrow> s\<lparr>cursor_refs := (cursor_refs s)(x := cursor_refs s x - 1)\<rparr>)"

text \<open>\<open>AllocGrab\<close> without a source: a zeroed grab with a fresh mask, two allocations.\<close>

definition zero_grab :: GrabRec where
  "zero_grab = \<lparr>resource = 0, device = 0, window = 0, ownerEvents = 0, keyboardMode = 0, pointerMode = 0, grabtype = CORE, type = 0,
     modifiersDetail = \<lparr>exact = 0, pMask = None\<rparr>, modifierDevice = 0, detail = \<lparr>exact = 0, pMask = None\<rparr>,
     confineTo = None, cursor = None, eventMask = 0, deviceMask = 0, xi2mask = xi2mask_new\<rparr>"

definition AllocGrab :: "grab_state \<Rightarrow> GrabRec option \<times> grab_state" where
  "AllocGrab s =
     (case galloc s of
        (False, s1) \<Rightarrow> (None, s1)
      | (True, s1) \<Rightarrow> (case galloc s1 of (False, s2) \<Rightarrow> (None, s2) | (True, s2) \<Rightarrow> (Some zero_grab, s2)))"

definition CreateGrab ::
    "grab_env \<Rightarrow> nat \<Rightarrow> nat \<Rightarrow> nat \<Rightarrow> xid \<Rightarrow> InputLevel \<Rightarrow> GrabMask \<Rightarrow> GrabParameters \<Rightarrow> card8 \<Rightarrow> card8 \<Rightarrow> xid option \<Rightarrow> xid option
      \<Rightarrow> grab_state \<Rightarrow> (GrabRec option \<times> grab_state) option" where
  "CreateGrab e client dev modDevice win gt gmask param eventType keybut conf cur s =
     (case AllocGrab s of
        (None, s1) \<Rightarrow> Some (None, s1)
      | (Some g, s1) \<Rightarrow>
          let g1 = g\<lparr>resource := fake_id e client (ids_used s1), device := dev, window := win,
                eventMask := (if gt = CORE \<or> gt = XI then gm_core gmask else 0), deviceMask := 0,
                ownerEvents := ucast (gp_ownerEvents param), keyboardMode := ucast (this_device_mode param),
                pointerMode := ucast (other_devices_mode param),
                modifiersDetail := \<lparr>exact = modifiers param, pMask = None\<rparr>, modifierDevice := modDevice,
                type := eventType, grabtype := gt, detail := \<lparr>exact = ucast keybut, pMask = None\<rparr>,
                confineTo := conf, cursor := cur\<rparr>;
              s2 = RefCursor cur (s1\<lparr>ids_used := ids_used s1 + 1\<rparr>)
          in if gt = XI2 then map_option (\<lambda>m. (Some (g1\<lparr>xi2mask := xi2mask_merge (xi2mask g1) m\<rparr>), s2)) (gm_xi2mask gmask)
             else Some (Some g1, s2))"

definition FreeGrab :: "GrabRec \<Rightarrow> grab_state \<Rightarrow> grab_state" where
  "FreeGrab g = FreeCursor (cursor g)"

text \<open>Copying a grab into one that has its own mask (\<open>AllocGrab\<close> with a source).\<close>

definition CopyGrab :: "GrabRec \<Rightarrow> GrabRec \<Rightarrow> grab_state \<Rightarrow> (GrabRec option \<times> grab_state) option" where
  "CopyGrab dst src s =
     (let (ok1, s1) = (if pMask (modifiersDetail src) \<noteq> None then galloc s else (True, s)) in
      if \<not> ok1 then Some (None, s1)
      else let (ok2, s2) = (if pMask (detail src) \<noteq> None then galloc s1 else (True, s1)) in
      if \<not> ok2 then Some (None, s2)
      else map_option (\<lambda>z. (Some (src\<lparr>xi2mask := xi2mask_merge z (xi2mask src)\<rparr>), RefCursor (cursor src) s2))
             (xi2mask_zero (xi2mask dst) (- 1)))"

definition AllocGrab_from :: "GrabRec \<Rightarrow> grab_state \<Rightarrow> (GrabRec option \<times> grab_state) option" where
  "AllocGrab_from src s =
     (case AllocGrab s of (None, s1) \<Rightarrow> Some (None, s1) | (Some g, s1) \<Rightarrow> CopyGrab g src s1)"

text \<open>Unlinking a grab from the list of its window; the optional part goes with the last grab if nothing else needs it.\<close>

fun unlink_grab :: "xid \<Rightarrow> GrabRec list \<Rightarrow> GrabRec list" where
  "unlink_grab i [] = []"
| "unlink_grab i (g # gs) = (if resource g = i then gs else g # unlink_grab i gs)"

definition DeletePassiveGrab :: "grab_env \<Rightarrow> GrabRec \<Rightarrow> grab_state \<Rightarrow> grab_state" where
  "DeletePassiveGrab e g s =
     (let gs = unlink_grab (resource g) (passiveGrabs s (window g));
          found = resource g \<in> resource ` set (passiveGrabs s (window g));
          s1 = s\<lparr>passiveGrabs := (passiveGrabs s)(window g := gs),
                 optional := (if found \<and> gs = [] then (optional s)(window g := optional_needed e (window g)) else optional s)\<rparr>
      in FreeGrab g s1)"

subsection \<open>Matching\<close>

text \<open>The bit of a detail in an array of words.\<close>

definition GETBIT :: "card32 list \<Rightarrow> card32 \<Rightarrow> bool option" where
  "GETBIT buf i = (if unat i div 32 < length buf then Some (bit (buf ! (unat i div 32)) (unat i mod 32)) else None)"

definition BITCLEAR :: "card32 list \<Rightarrow> card32 \<Rightarrow> card32 list option" where
  "BITCLEAR buf i =
     (if unat i div 32 < length buf
      then Some (buf[unat i div 32 := unset_bit (unat i mod 32) (buf ! (unat i div 32))]) else None)"

definition DeleteDetailFromMask :: "card32 list option \<Rightarrow> card32 \<Rightarrow> grab_state \<Rightarrow> (card32 list option \<times> grab_state) option" where
  "DeleteDetailFromMask pDetailMask d s =
     (case galloc s of
        (False, s1) \<Rightarrow> Some (None, s1)
      | (True, s1) \<Rightarrow>
          map_option (\<lambda>m. (Some m, s1))
            (BITCLEAR (case pDetailMask of Some m \<Rightarrow> take MasksPerDetailMask m | None \<Rightarrow> replicate MasksPerDetailMask (- 1)) d))"

definition IsInGrabMask :: "DetailRec \<Rightarrow> DetailRec \<Rightarrow> card32 \<Rightarrow> bool option" where
  "IsInGrabMask firstDetail secondDetail exception =
     (if exact firstDetail = exception then
        case pMask firstDetail of
          None \<Rightarrow> Some True
        | Some m \<Rightarrow> if exact secondDetail = exception then Some False else GETBIT m (exact secondDetail)
      else Some False)"

definition IdenticalExactDetails :: "card32 \<Rightarrow> card32 \<Rightarrow> card32 \<Rightarrow> bool" where
  "IdenticalExactDetails firstExact secondExact exception \<longleftrightarrow>
     \<not> (firstExact = exception \<or> secondExact = exception) \<and> firstExact = secondExact"

definition DetailSupersedesSecond :: "DetailRec \<Rightarrow> DetailRec \<Rightarrow> card32 \<Rightarrow> bool option" where
  "DetailSupersedesSecond firstDetail secondDetail exception =
     Option.bind (IsInGrabMask firstDetail secondDetail exception) (\<lambda>b.
       Some (b \<or> IdenticalExactDetails (exact firstDetail) (exact secondDetail) exception))"

text \<open>Conjunction and disjunction as in C: the second operand is looked at only when it matters.\<close>

definition and_then :: "bool option \<Rightarrow> bool option \<Rightarrow> bool option" where
  "and_then a b = Option.bind a (\<lambda>x. if x then b else Some False)"

definition or_else :: "bool option \<Rightarrow> bool option \<Rightarrow> bool option" where
  "or_else a b = Option.bind a (\<lambda>x. if x then Some True else b)"

definition any_modifier :: "GrabRec \<Rightarrow> card32" where
  "any_modifier g = (if grabtype g = XI2 then XIAnyModifier else AnyModifier)"

definition any_key :: "GrabRec \<Rightarrow> card32" where
  "any_key g = (if grabtype g = XI2 then XIAnyKeycode else AnyKey)"

definition GrabSupersedesSecond :: "GrabRec \<Rightarrow> GrabRec \<Rightarrow> bool option" where
  "GrabSupersedesSecond a b =
     and_then (DetailSupersedesSecond (modifiersDetail a) (modifiersDetail b) (any_modifier a))
       (DetailSupersedesSecond (detail a) (detail b) AnyKey)"

definition devices_match :: "grab_env \<Rightarrow> GrabRec \<Rightarrow> GrabRec \<Rightarrow> bool \<Rightarrow> bool" where
  "devices_match e a b ignoreDevice =
     (if grabtype a = XI2 then
        if device a = all_devices e \<or> device b = all_devices e then True
        else if device a = all_master_devices e then device b = all_master_devices e \<or> InputDevIsMaster e (device b)
        else if device b = all_master_devices e then device a = all_master_devices e \<or> InputDevIsMaster e (device a)
        else device b = device a
      else ignoreDevice \<or> device a = device b \<and> modifierDevice a = modifierDevice b)"

definition GrabMatchesSecond :: "grab_env \<Rightarrow> GrabRec \<Rightarrow> GrabRec \<Rightarrow> bool \<Rightarrow> bool option" where
  "GrabMatchesSecond e a b ignoreDevice =
     (if grabtype a \<noteq> grabtype b then Some False
      else if \<not> devices_match e a b ignoreDevice then Some False
      else if type a \<noteq> type b then Some False
      else
        or_else (or_else (GrabSupersedesSecond a b) (GrabSupersedesSecond b a))
        (or_else
          (and_then (DetailSupersedesSecond (detail b) (detail a) AnyKey)
             (DetailSupersedesSecond (modifiersDetail a) (modifiersDetail b) (any_modifier a)))
          (and_then (DetailSupersedesSecond (detail a) (detail b) AnyKey)
             (DetailSupersedesSecond (modifiersDetail b) (modifiersDetail a) (any_modifier a)))))"

definition GrabsAreIdentical :: "GrabRec \<Rightarrow> GrabRec \<Rightarrow> bool option" where
  "GrabsAreIdentical a b =
     (if grabtype a \<noteq> grabtype b then Some False
      else if device a \<noteq> device b \<or> modifierDevice a \<noteq> modifierDevice b \<or> type a \<noteq> type b then Some False
      else
        and_then
          (and_then (DetailSupersedesSecond (detail a) (detail b) AnyKey) (DetailSupersedesSecond (detail b) (detail a) AnyKey))
          (and_then (DetailSupersedesSecond (modifiersDetail a) (modifiersDetail b) (any_modifier a))
             (DetailSupersedesSecond (modifiersDetail b) (modifiersDetail a) (any_modifier a))))"

subsection \<open>Taking a grab out of the list\<close>

datatype mask_field = DetailMask | ModifiersMask

fun set_mask :: "mask_field \<Rightarrow> card32 list \<Rightarrow> GrabRec \<Rightarrow> GrabRec" where
  "set_mask DetailMask m g = g\<lparr>detail := (detail g)\<lparr>pMask := Some m\<rparr>\<rparr>"
| "set_mask ModifiersMask m g = g\<lparr>modifiersDetail := (modifiersDetail g)\<lparr>pMask := Some m\<rparr>\<rparr>"

text \<open>What the first pass collects: grabs to delete, grabs to add, masks to replace; \<open>go\<close> is the variable \<open>ok\<close>.\<close>

record grab_plan =
  go :: bool
  deletes :: "xid list"
  adds :: "GrabRec list"
  updates :: "(xid \<times> mask_field \<times> card32 list) list"

text \<open>The macro \<open>UPDATE\<close>.\<close>

definition UPDATE ::
    "GrabRec \<Rightarrow> mask_field \<Rightarrow> card32 list option \<Rightarrow> card32 \<Rightarrow> grab_plan \<times> grab_state \<Rightarrow> (grab_plan \<times> grab_state) option" where
  "UPDATE g fld m ex = (\<lambda>(p, s).
     map_option (\<lambda>(d, s1). (case d of None \<Rightarrow> p\<lparr>go := False\<rparr> | Some m' \<Rightarrow> p\<lparr>updates := updates p @ [(resource g, fld, m')]\<rparr>, s1))
       (DeleteDetailFromMask m ex s))"

text \<open>\<open>(GrabMask *) &grab->eventMask\<close>: the address of the event mask read as a union. Its core member is the event mask; its pointer member is
  made of the bytes of the two masks, which no mask of XInput 2 has for an address.\<close>

definition eventMask_as_GrabMask :: "GrabRec \<Rightarrow> GrabMask" where
  "eventMask_as_GrabMask g = \<lparr>gm_core = eventMask g, gm_xi2mask = None\<rparr>"

text \<open>Registering in the resource database; when that fails the database runs the delete function.\<close>

definition AddGrabResource :: "grab_env \<Rightarrow> GrabRec \<Rightarrow> grab_state \<Rightarrow> bool \<times> grab_state" where
  "AddGrabResource e g s =
     (case galloc s of
        (True, s1) \<Rightarrow> (True, s1\<lparr>grab_resources := (grab_resources s1)(resource g \<mapsto> window g)\<rparr>)
      | (False, s1) \<Rightarrow> (False, DeletePassiveGrab e g s1))"

text \<open>The new grab for the one key that is taken out of a grab of every key and modifier.\<close>

definition split_grab :: "grab_env \<Rightarrow> GrabRec \<Rightarrow> GrabRec \<Rightarrow> grab_plan \<times> grab_state \<Rightarrow> (grab_plan \<times> grab_state) option" where
  "split_grab e m g = (\<lambda>(p, s).
     Option.bind (CreateGrab e (dixClientIdForXID (g_lim e) (resource g)) (device g) (modifierDevice g) (window g) (grabtype g)
         (eventMask_as_GrabMask g)
         \<lparr>gp_ownerEvents = ucast (ownerEvents g), this_device_mode = ucast (keyboardMode g),
           other_devices_mode = ucast (pointerMode g), grabWindow = 0, gp_confineTo = 0, gp_cursor = 0, modifiers = any_modifier m\<rparr>
         (type g) (ucast (exact (detail m))) (confineTo g) (cursor g) s)
       (\<lambda>(ng, s1). case ng of
          None \<Rightarrow> Some (p\<lparr>go := False\<rparr>, s1)
        | Some n \<Rightarrow>
            map_option (\<lambda>(d, s2). case d of
                None \<Rightarrow> (p\<lparr>go := False\<rparr>, FreeGrab n s2)
              | Some m' \<Rightarrow>
                  let n' = set_mask ModifiersMask m' n; (ok, s3) = AddGrabResource e n' s2 in
                  (if ok then p\<lparr>adds := adds p @ [n']\<rparr> else p\<lparr>go := False\<rparr>, s3))
              (DeleteDetailFromMask (pMask (modifiersDetail g)) (exact (modifiersDetail m)) s1)))"

definition plan_step :: "grab_env \<Rightarrow> GrabRec \<Rightarrow> GrabRec \<Rightarrow> grab_plan \<times> grab_state \<Rightarrow> (grab_plan \<times> grab_state) option" where
  "plan_step e m g ps =
     (if dixClientIdForXID (g_lim e) (resource g) \<noteq> dixClientIdForXID (g_lim e) (resource m) then Some ps
      else Option.bind (GrabMatchesSecond e g m (grabtype g = CORE)) (\<lambda>match.
      if \<not> match then Some ps
      else Option.bind (GrabSupersedesSecond m g) (\<lambda>sup.
      if sup then Some (map_prod (\<lambda>p. p\<lparr>deletes := deletes p @ [resource g]\<rparr>) (\<lambda>s. s) ps)
      else if exact (detail g) = any_key m \<and> exact (modifiersDetail g) \<noteq> any_modifier m
        then UPDATE g DetailMask (pMask (detail g)) (exact (detail m)) ps
      else if exact (modifiersDetail g) = any_modifier m \<and> exact (detail g) \<noteq> any_key m
        then UPDATE g ModifiersMask (pMask (modifiersDetail g)) (exact (modifiersDetail m)) ps
      else if exact (detail m) \<noteq> any_key m \<and> exact (modifiersDetail m) \<noteq> any_modifier m
        then Option.bind (UPDATE g DetailMask (pMask (detail g)) (exact (detail m)) ps) (split_grab e m g)
      else if exact (detail m) = any_key m
        then UPDATE g ModifiersMask (pMask (modifiersDetail g)) (exact (modifiersDetail m)) ps
      else UPDATE g DetailMask (pMask (detail g)) (exact (detail m)) ps)))"

fun plan_loop :: "grab_env \<Rightarrow> GrabRec \<Rightarrow> GrabRec list \<Rightarrow> grab_plan \<times> grab_state \<Rightarrow> (grab_plan \<times> grab_state) option" where
  "plan_loop e m [] ps = Some ps"
| "plan_loop e m (g # gs) ps = (if go (fst ps) then Option.bind (plan_step e m g ps) (plan_loop e m gs) else Some ps)"

text \<open>\<open>FreeResource\<close> of a registered grab: the entry goes and the delete function runs on the grab.\<close>

definition FreeGrabResource :: "grab_env \<Rightarrow> GrabRec \<Rightarrow> grab_state \<Rightarrow> grab_state" where
  "FreeGrabResource e g s = DeletePassiveGrab e g (s\<lparr>grab_resources := (grab_resources s)(resource g := None)\<rparr>)"

definition push_grab :: "GrabRec \<Rightarrow> grab_state \<Rightarrow> grab_state" where
  "push_grab g s = s\<lparr>passiveGrabs := (passiveGrabs s)(window g := g # passiveGrabs s (window g))\<rparr>"

definition apply_update :: "xid \<Rightarrow> xid \<times> mask_field \<times> card32 list \<Rightarrow> grab_state \<Rightarrow> grab_state" where
  "apply_update w = (\<lambda>(i, fld, m) s.
     s\<lparr>passiveGrabs := (passiveGrabs s)(w := List.map (\<lambda>g. if resource g = i then set_mask fld m g else g) (passiveGrabs s w))\<rparr>)"

definition finish_plan :: "grab_env \<Rightarrow> xid \<Rightarrow> GrabRec list \<Rightarrow> grab_plan \<Rightarrow> grab_state \<Rightarrow> grab_state" where
  "finish_plan e w gs p s =
     (if \<not> go p then fold (FreeGrabResource e) (adds p) s
      else fold (apply_update w) (updates p)
             (fold push_grab (adds p)
               (fold (FreeGrabResource e) (filter (\<lambda>g. resource g \<in> set (deletes p)) gs) s)))"

definition DeletePassiveGrabFromList :: "grab_env \<Rightarrow> GrabRec \<Rightarrow> grab_state \<Rightarrow> (bool \<times> grab_state) option" where
  "DeletePassiveGrabFromList e m s =
     (let w = window m; gs = passiveGrabs s w in
      if gs = [] then Some (True, s)
      else let (a1, s1) = galloc s; (a2, s2) = galloc s1; (a3, s3) = galloc s2; (a4, s4) = galloc s3 in
      if \<not> (a1 \<and> a2 \<and> a3 \<and> a4) then Some (False, s4)
      else map_option (\<lambda>(p, s5). (go p, finish_plan e w gs p s5))
             (plan_loop e m gs (\<lparr>go = True, deletes = [], adds = [], updates = []\<rparr>, s4)))"

subsection \<open>Adding a grab\<close>

text \<open>Whether another client's grab is in the way.\<close>

fun grab_conflict :: "grab_env \<Rightarrow> GrabRec \<Rightarrow> GrabRec list \<Rightarrow> bool option" where
  "grab_conflict e g [] = Some False"
| "grab_conflict e g (h # hs) =
     Option.bind (GrabMatchesSecond e g h (grabtype g = CORE)) (\<lambda>match.
       if match \<and> dixClientIdForXID (g_lim e) (resource g) \<noteq> dixClientIdForXID (g_lim e) (resource h) then Some True
       else grab_conflict e g hs)"

fun identical_grab :: "GrabRec \<Rightarrow> GrabRec list \<Rightarrow> GrabRec option option" where
  "identical_grab g [] = Some None"
| "identical_grab g (h # hs) = Option.bind (GrabsAreIdentical g h) (\<lambda>b. if b then Some (Some h) else identical_grab g hs)"

definition MakeWindowOptional :: "xid \<Rightarrow> grab_state \<Rightarrow> bool \<times> grab_state" where
  "MakeWindowOptional w s =
     (if optional s w then (True, s)
      else case galloc s of (False, s1) \<Rightarrow> (False, s1) | (True, s1) \<Rightarrow> (True, s1\<lparr>optional := (optional s1)(w := True)\<rparr>))"

definition AddPassiveGrabToList :: "grab_env \<Rightarrow> nat \<Rightarrow> GrabRec \<Rightarrow> grab_state \<Rightarrow> (status \<times> grab_state) option" where
  "AddPassiveGrabToList e client g s =
     Option.bind (grab_conflict e g (passiveGrabs s (window g))) (\<lambda>conflict.
     if conflict then Some (BadAccess, FreeGrab g s)
     else
       let access_mode = (if ucast (keyboardMode g) = GrabModeSync \<or> ucast (pointerMode g) = GrabModeSync
                          then DixGrabAccess OR DixFreezeAccess else DixGrabAccess);
           rc = dixCallDeviceAccessCallback e client (device g) access_mode
       in if rc \<noteq> Success then Some (rc, s)
          else Option.bind (identical_grab g (passiveGrabs s (window g))) (\<lambda>old.
               Option.bind (case old of None \<Rightarrow> Some s | Some h \<Rightarrow> map_option snd (DeletePassiveGrabFromList e h s)) (\<lambda>s1.
               case MakeWindowOptional (window g) s1 of
                 (False, s2) \<Rightarrow> Some (BadAlloc, FreeGrab g s2)
               | (True, s2) \<Rightarrow>
                   (case AddGrabResource e g (push_grab g s2) of
                      (ok, s3) \<Rightarrow> Some (if ok then Success else BadAlloc, s3)))))"

end
