(* ===== verification/GrabLaws.thy ===== *)
theory GrabLaws
  imports Grabs
begin

text \<open>
  What the list of passive grabs of a window means (dix/grabs.c): every grab stands for the set of its keys (or buttons) and
  modifiers. Taking a grab out of the list removes exactly its combinations from the grabs of its client, or changes nothing when
  memory runs out, and a new grab is refused exactly when it shares a combination with another client's grab.
\<close>

subsection \<open>Event masks\<close>

text \<open>Setting a bit of a mask shows for that device and event only; merging is the union of two masks of the same shape.\<close>

lemma xi2mask_set_isset:
  assumes "xi2mask_set m d ev = Some m'"
  shows "xi2mask_isset_for_device m' d' ev' = (if d' = d \<and> ev' = ev then Some True else xi2mask_isset_for_device m d' ev')"
proof -
  have d: "d < length m" "ev div 8 < length (m ! d)" and m': "m' = m[d := (m ! d)[ev div 8 := set_bit (ev mod 8) (m ! d ! (ev div 8))]]"
    using assms by (auto simp: xi2mask_set_def split: if_splits)
  have e: "ev' = ev" if "ev' div 8 = ev div 8" "ev' mod 8 = ev mod 8" using that by (metis div_mult_mod_eq)
  show ?thesis
  proof (cases "d' = d \<and> ev' div 8 = ev div 8")
    case True
    then show ?thesis using d e by (cases "ev' mod 8 = ev mod 8") (auto simp: m' xi2mask_isset_for_device_def bit_set_bit_iff)
  next
    case False
    then show ?thesis using d by (auto simp: m' xi2mask_isset_for_device_def nth_list_update)
  qed
qed

lemma merge_bytes_nth: "length xs = length ys \<Longrightarrow> length (merge_bytes xs ys) = length xs \<and> (\<forall>i < length xs. merge_bytes xs ys ! i = xs ! i OR ys ! i)"
proof (induction xs ys rule: merge_bytes.induct)
  case (1 x xs y ys)
  then show ?case by (auto simp: nth_Cons split: nat.splits)
qed auto

lemma xi2mask_merge_nth:
  "length a = length b \<Longrightarrow> length (xi2mask_merge a b) = length a \<and> (\<forall>d < length a. xi2mask_merge a b ! d = merge_bytes (a ! d) (b ! d))"
proof (induction a b rule: xi2mask_merge.induct)
  case (1 d ds s ss)
  then show ?case by (auto simp: nth_Cons split: nat.splits)
qed auto

lemma xi2mask_merge_isset:
  assumes "length a = length b" "\<forall>d < length a. length (a ! d) = length (b ! d)" "d < length a" "ev div 8 < length (a ! d)"
  shows "xi2mask_isset_for_device (xi2mask_merge a b) d ev =
    Some (xi2mask_isset_for_device a d ev = Some True \<or> xi2mask_isset_for_device b d ev = Some True)"
  using assms xi2mask_merge_nth [OF assms(1)] merge_bytes_nth [of "a ! d" "b ! d"]
  by (simp add: xi2mask_isset_for_device_def bit_or_iff)

subsection \<open>Bits of a detail mask\<close>

lemma BITCLEAR_bits:
  assumes "length m = 8" "i < 256"
  shows "\<exists>m'. BITCLEAR m i = Some m' \<and> length m' = 8 \<and> (\<forall>v < 256. GETBIT m' v = Some True \<longleftrightarrow> GETBIT m v = Some True \<and> v \<noteq> i)"
proof -
  have bound: "unat v div 32 < 8" if "v < 256" for v :: card32
    using that by (simp add: word_less_nat_alt)
  have same: "v = i" if "unat v div 32 = unat i div 32" "unat v mod 32 = unat i mod 32" for v
    using that by (metis div_mult_mod_eq word_unat_eq_iff)
  let ?m = "m[unat i div 32 := unset_bit (unat i mod 32) (m ! (unat i div 32))]"
  have "GETBIT ?m v = Some True \<longleftrightarrow> GETBIT m v = Some True \<and> v \<noteq> i" if "v < 256" for v
    using bound [OF that] bound [OF assms(2)] assms(1) same [of v]
    by (auto simp: GETBIT_def nth_list_update bit_unset_bit_iff)
  then show ?thesis using bound [OF assms(2)] assms(1) by (simp add: BITCLEAR_def)
qed

lemma full_mask_bits: "v < 256 \<Longrightarrow> GETBIT (replicate 8 (- 1)) v = Some True"
proof -
  assume "v < 256"
  then have "unat v div 32 < 8" by (simp add: word_less_nat_alt)
  then show ?thesis by (simp add: GETBIT_def)
qed

subsection \<open>The values a detail stands for\<close>

definition detail_ok :: "card32 \<Rightarrow> DetailRec \<Rightarrow> bool" where
  "detail_ok any d \<longleftrightarrow> (if exact d = any then \<forall>m. pMask d = Some m \<longrightarrow> length m = 8 else exact d < 256 \<and> pMask d = None)"

definition vals :: "card32 \<Rightarrow> DetailRec \<Rightarrow> card32 set" where
  "vals any d = {v. v < 256 \<and> v \<noteq> any \<and>
     (if exact d = any then (case pMask d of None \<Rightarrow> True | Some m \<Rightarrow> GETBIT m v = Some True) else v = exact d)}"

definition supersedes :: "card32 \<Rightarrow> DetailRec \<Rightarrow> DetailRec \<Rightarrow> bool" where
  "supersedes any d1 d2 \<longleftrightarrow> (if exact d1 = any \<and> pMask d1 = None then True else exact d2 \<noteq> any \<and> exact d2 \<in> vals any d1)"

lemma DetailSupersedesSecond_ok:
  assumes "detail_ok any d1" "detail_ok any d2"
  shows "DetailSupersedesSecond d1 d2 any = Some (supersedes any d1 d2)"
proof (cases "exact d1 = any")
  case False
  then show ?thesis
    using assms by (auto simp: DetailSupersedesSecond_def IsInGrabMask_def IdenticalExactDetails_def supersedes_def vals_def detail_ok_def)
next
  case any: True
  show ?thesis
  proof (cases "pMask d1")
    case None
    then show ?thesis using any by (simp add: DetailSupersedesSecond_def IsInGrabMask_def supersedes_def)
  next
    case (Some m)
    show ?thesis
    proof (cases "exact d2 = any")
      case True
      then show ?thesis using any Some
        by (simp add: DetailSupersedesSecond_def IsInGrabMask_def IdenticalExactDetails_def supersedes_def)
    next
      case False
      then have "exact d2 < 256" using assms(2) by (simp add: detail_ok_def)
      moreover from this have "GETBIT m (exact d2) \<noteq> None"
        using assms(1) any Some by (simp add: detail_ok_def GETBIT_def word_less_nat_alt)
      ultimately show ?thesis using any Some False
        by (auto simp: DetailSupersedesSecond_def IsInGrabMask_def IdenticalExactDetails_def supersedes_def vals_def)
    qed
  qed
qed

definition compatible :: "card32 \<Rightarrow> DetailRec \<Rightarrow> DetailRec \<Rightarrow> bool" where
  "compatible any d1 d2 \<longleftrightarrow> supersedes any d1 d2 \<or> supersedes any d2 d1"

text \<open>A detail without a mask and another one are compatible exactly when they share a value, provided the other one has a value at all.\<close>

lemma vals_whole: "exact d = any \<Longrightarrow> pMask d = None \<Longrightarrow> vals any d = {v. v < 256 \<and> v \<noteq> any}"
  by (simp add: vals_def)

lemma vals_exact: "detail_ok any d \<Longrightarrow> exact d \<noteq> any \<Longrightarrow> vals any d = {exact d}"
  by (auto simp: vals_def detail_ok_def)

lemma overlap_compatible:
  assumes "detail_ok any p" "pMask p = None" "detail_ok any d" "vals any p \<inter> vals any d \<noteq> {}"
  shows "compatible any p d"
  using assms vals_exact [OF assms(1)]
  by (cases "exact p = any") (auto simp: compatible_def supersedes_def)

lemma compatible_overlap:
  assumes "detail_ok any p" "pMask p = None" "detail_ok any d" "vals any d \<noteq> {}" "compatible any p d"
  shows "vals any p \<inter> vals any d \<noteq> {}"
proof (cases "exact p = any")
  case True
  then show ?thesis using assms(2,4) vals_whole [OF True assms(2)] by (auto simp: vals_def)
next
  case False
  have v: "vals any p = {exact p}" "exact p < 256" using vals_exact [OF assms(1) False] assms(1) False by (simp_all add: detail_ok_def)
  have "exact p \<in> vals any d"
  proof (cases "exact d = any")
    case True
    then have "supersedes any d p" using assms(5) False v by (simp add: compatible_def supersedes_def)
    then show ?thesis using True v False by (auto simp: supersedes_def vals_whole split: if_splits)
  next
    case d: False
    then show ?thesis using assms(5) False v vals_exact [OF assms(3) d] by (auto simp: compatible_def supersedes_def)
  qed
  then show ?thesis using vals_exact [OF assms(1) False] by simp
qed

subsection \<open>Matching as overlap\<close>

definition grab_ok :: "GrabRec \<Rightarrow> bool" where
  "grab_ok g \<longleftrightarrow> detail_ok (any_modifier g) (modifiersDetail g) \<and> detail_ok AnyKey (detail g) \<and> deviceMask g = 0"

definition plain :: "GrabRec \<Rightarrow> bool" where
  "plain g \<longleftrightarrow> pMask (detail g) = None \<and> pMask (modifiersDetail g) = None"

definition same_class :: "grab_env \<Rightarrow> GrabRec \<Rightarrow> GrabRec \<Rightarrow> bool" where
  "same_class e a b \<longleftrightarrow> grabtype a = grabtype b \<and> devices_match e a b (grabtype a = CORE) \<and> type a = type b"

definition combos :: "GrabRec \<Rightarrow> (card32 \<times> card32) set" where
  "combos g = vals AnyKey (detail g) \<times> vals (any_modifier g) (modifiersDetail g)"

lemma same_class_any: "grabtype a = grabtype b \<Longrightarrow> any_modifier a = any_modifier b \<and> any_key a = any_key b"
  by (simp add: any_modifier_def any_key_def)

lemma any_key_zero [simp]: "any_key g = AnyKey"
  by (simp add: any_key_def XIAnyKeycode_def AnyKey_def)

lemma GrabSupersedesSecond_ok:
  assumes "grab_ok a" "grab_ok b" "grabtype a = grabtype b"
  shows "GrabSupersedesSecond a b =
    Some (supersedes (any_modifier a) (modifiersDetail a) (modifiersDetail b) \<and> supersedes AnyKey (detail a) (detail b))"
  using assms same_class_any [OF assms(3)]
  by (simp add: GrabSupersedesSecond_def and_then_def DetailSupersedesSecond_ok grab_ok_def)

lemma GrabMatchesSecond_ok:
  assumes "grab_ok a" "grab_ok b"
  shows "GrabMatchesSecond e a b (grabtype a = CORE) =
    Some (same_class e a b \<and> compatible (any_modifier a) (modifiersDetail a) (modifiersDetail b) \<and> compatible AnyKey (detail a) (detail b))"
proof (cases "grabtype a = grabtype b")
  case True
  have "GrabSupersedesSecond a b =
      Some (supersedes (any_modifier a) (modifiersDetail a) (modifiersDetail b) \<and> supersedes AnyKey (detail a) (detail b))"
    "GrabSupersedesSecond b a =
      Some (supersedes (any_modifier a) (modifiersDetail b) (modifiersDetail a) \<and> supersedes AnyKey (detail b) (detail a))"
    using GrabSupersedesSecond_ok assms True same_class_any [OF True] by simp_all
  then show ?thesis
    using assms True same_class_any [OF True]
    by (auto simp: GrabMatchesSecond_def same_class_def or_else_def and_then_def DetailSupersedesSecond_ok grab_ok_def compatible_def)
qed (simp add: GrabMatchesSecond_def same_class_def)

lemma matches_overlap:
  assumes "grab_ok a" "plain a" "grab_ok b" "combos b \<noteq> {}"
  shows "GrabMatchesSecond e a b (grabtype a = CORE) = Some (same_class e a b \<and> combos a \<inter> combos b \<noteq> {})"
proof (cases "same_class e a b")
  case True
  then have gt: "any_modifier a = any_modifier b" using same_class_any [of a b] by (simp add: same_class_def)
  have ov: "compatible any p d \<longleftrightarrow> vals any p \<inter> vals any d \<noteq> {}"
    if "detail_ok any p" "pMask p = None" "detail_ok any d" "vals any d \<noteq> {}" for any p d
    using overlap_compatible [OF that(1-3)] compatible_overlap [OF that] by blast
  have ne: "vals AnyKey (detail b) \<noteq> {}" "vals (any_modifier b) (modifiersDetail b) \<noteq> {}" using assms(4) by (auto simp: combos_def)
  have ok: "detail_ok AnyKey (detail a)" "detail_ok AnyKey (detail b)" "detail_ok (any_modifier b) (modifiersDetail a)"
    "detail_ok (any_modifier b) (modifiersDetail b)" "pMask (detail a) = None" "pMask (modifiersDetail a) = None"
    using assms(1-3) gt by (simp_all add: grab_ok_def plain_def)
  have "compatible AnyKey (detail a) (detail b) \<longleftrightarrow> vals AnyKey (detail a) \<inter> vals AnyKey (detail b) \<noteq> {}"
    by (rule ov [OF ok(1,5,2) ne(1)])
  moreover have "compatible (any_modifier b) (modifiersDetail a) (modifiersDetail b) \<longleftrightarrow>
      vals (any_modifier b) (modifiersDetail a) \<inter> vals (any_modifier b) (modifiersDetail b) \<noteq> {}"
    by (rule ov [OF ok(3,6,4) ne(2)])
  ultimately show ?thesis
    unfolding GrabMatchesSecond_ok [OF assms(1,3)] combos_def gt Times_Int_Times using True by auto
qed (simp add: GrabMatchesSecond_ok [OF assms(1,3)])

subsection \<open>Steps that only use memory and identifiers\<close>

definition n_refs :: "xid \<Rightarrow> GrabRec list \<Rightarrow> int" where
  "n_refs x gs = int (length (filter (\<lambda>g. cursor g = Some x) gs))"

lemma n_refs_simps [simp]:
  "n_refs x [] = 0" "n_refs x (g # gs) = (if cursor g = Some x then 1 else 0) + n_refs x gs"
  "n_refs x (gs @ hs) = n_refs x gs + n_refs x hs"
  by (simp_all add: n_refs_def)

text \<open>The state after registering the grabs \<open>A\<close> of client \<open>c\<close> on window \<open>w\<close> that are not yet in a list, with at most \<open>k\<close> identifiers
  used up.\<close>

definition grown :: "grab_env \<Rightarrow> nat \<Rightarrow> xid \<Rightarrow> nat \<Rightarrow> GrabRec list \<Rightarrow> grab_state \<Rightarrow> grab_state \<Rightarrow> bool" where
  "grown e c w k A s s' \<longleftrightarrow> passiveGrabs s' = passiveGrabs s \<and> optional s' = optional s
     \<and> ids_used s \<le> ids_used s' \<and> ids_used s' \<le> ids_used s + k
     \<and> (\<forall>i. grab_resources s' i = (if i \<in> resource ` set A then Some w else grab_resources s i))
     \<and> (\<forall>x. cursor_refs s' x = cursor_refs s x + n_refs x A) \<and> (memory s = [] \<longrightarrow> memory s' = [])
     \<and> resource ` set A \<subseteq> fake_id e c ` {ids_used s ..< ids_used s'} \<and> distinct (List.map resource A) \<and> (\<forall>n \<in> set A. window n = w)"

text \<open>The next \<open>k\<close> identifiers are different and unused identifiers of the client.\<close>

definition fresh_ids :: "grab_env \<Rightarrow> nat \<Rightarrow> nat \<Rightarrow> grab_state \<Rightarrow> bool" where
  "fresh_ids e c k s \<longleftrightarrow> inj_on (fake_id e c) {ids_used s ..< ids_used s + k}
     \<and> (\<forall>n \<in> {ids_used s ..< ids_used s + k}. grab_resources s (fake_id e c n) = None \<and> dixClientIdForXID (g_lim e) (fake_id e c n) = c)"

lemma grown_refl [simp]: "grown e c w k [] s s"
  by (simp add: grown_def)

lemma grown_mono: "grown e c w k A s s' \<Longrightarrow> k \<le> k' \<Longrightarrow> grown e c w k' A s s'"
  by (auto simp: grown_def)

lemma grown_trans:
  assumes fresh: "fresh_ids e c (k + j) s" and 1: "grown e c w k A s s1" and 2: "grown e c w j B s1 s2"
  shows "grown e c w (k + j) (A @ B) s s2"
proof -
  have sub: "resource ` set A \<subseteq> fake_id e c ` {ids_used s ..< ids_used s1}" "resource ` set B \<subseteq> fake_id e c ` {ids_used s1 ..< ids_used s2}"
    using 1 2 by (simp_all add: grown_def)
  have le: "ids_used s \<le> ids_used s1" "ids_used s1 \<le> ids_used s2" "ids_used s2 \<le> ids_used s + (k + j)" using 1 2 by (simp_all add: grown_def)
  have "inj_on (fake_id e c) {ids_used s ..< ids_used s2}"
    using fresh le(3) by (auto simp: fresh_ids_def intro: inj_on_subset)
  then have "fake_id e c ` {ids_used s ..< ids_used s1} \<inter> fake_id e c ` {ids_used s1 ..< ids_used s2}
      = fake_id e c ` ({ids_used s ..< ids_used s1} \<inter> {ids_used s1 ..< ids_used s2})"
    by (rule inj_on_image_Int [symmetric]) (use le in auto)
  then have "fake_id e c ` {ids_used s ..< ids_used s1} \<inter> fake_id e c ` {ids_used s1 ..< ids_used s2} = {}" by simp
  then have disj: "resource ` set A \<inter> resource ` set B = {}" using sub by blast
  have "fake_id e c ` {ids_used s ..< ids_used s1} \<union> fake_id e c ` {ids_used s1 ..< ids_used s2} \<subseteq> fake_id e c ` {ids_used s ..< ids_used s2}"
    using le by auto
  then have ids: "resource ` set (A @ B) \<subseteq> fake_id e c ` {ids_used s ..< ids_used s2}"
    unfolding set_append image_Un by (rule subset_trans [OF Un_mono [OF sub]])
  have dist: "distinct (List.map resource (A @ B))" using 1 2 disj by (simp add: grown_def)
  show ?thesis unfolding grown_def
  proof (intro conjI)
    show "\<forall>i. grab_resources s2 i = (if i \<in> resource ` set (A @ B) then Some w else grab_resources s i)"
      using 1 2 by (simp add: grown_def image_Un)
  qed (use 1 2 le ids dist in \<open>auto simp: grown_def\<close>)
qed

lemma fresh_grown:
  assumes g: "grown e c w k A s s1" and f: "fresh_ids e c (k + j) s"
  shows "fresh_ids e c j s1"
proof -
  have le: "ids_used s \<le> ids_used s1" "ids_used s1 \<le> ids_used s + k" using g by (simp_all add: grown_def)
  have inj: "inj_on (fake_id e c) {ids_used s ..< ids_used s + (k + j)}" using f by (simp add: fresh_ids_def)
  have "fake_id e c n \<notin> resource ` set A" if "n \<in> {ids_used s1 ..< ids_used s1 + j}" for n
  proof
    assume "fake_id e c n \<in> resource ` set A"
    then obtain n' where "fake_id e c n = fake_id e c n'" "n' \<in> {ids_used s ..< ids_used s1}" using g by (auto simp: grown_def)
    then show False using that le inj_onD [OF inj, of n n'] by auto
  qed
  moreover have "{ids_used s1 ..< ids_used s1 + j} \<subseteq> {ids_used s ..< ids_used s + (k + j)}" using le by auto
  ultimately show ?thesis using g f by (auto simp: grown_def fresh_ids_def subset_iff intro: inj_on_subset)
qed

lemma fresh_less: "fresh_ids e c k s \<Longrightarrow> j \<le> k \<Longrightarrow> fresh_ids e c j s"
  by (auto simp: fresh_ids_def intro: inj_on_subset)

lemma galloc_grown: "galloc s = (b, s1) \<Longrightarrow> grown e c w 0 [] s s1 \<and> (memory s = [] \<longrightarrow> b)"
  by (auto simp: galloc_def grown_def split: list.splits)

text \<open>The list of a window and the table of grabs agree.\<close>

definition grab_inv :: "grab_state \<Rightarrow> bool" where
  "grab_inv s \<longleftrightarrow> (\<forall>w. distinct (List.map resource (passiveGrabs s w))
     \<and> (\<forall>g \<in> set (passiveGrabs s w). window g = w \<and> grab_resources s (resource g) = Some w \<and> grab_ok g))"

lemma delete_detail:
  assumes "detail_ok any d" "exact d = any" "v < 256"
  shows "\<exists>r s1. DeleteDetailFromMask (pMask d) v s = Some (r, s1) \<and> grown e c w 0 [] s s1 \<and> (memory s = [] \<longrightarrow> r \<noteq> None)
    \<and> (\<forall>m. r = Some m \<longrightarrow> detail_ok any (d\<lparr>pMask := Some m\<rparr>) \<and> vals any (d\<lparr>pMask := Some m\<rparr>) = vals any d - {v})"
proof -
  obtain b s1 where a: "galloc s = (b, s1)" by fastforce
  note g = galloc_grown [OF a, of e c w]
  let ?m = "case pMask d of Some m \<Rightarrow> take MasksPerDetailMask m | None \<Rightarrow> replicate MasksPerDetailMask (- 1)"
  have len: "length ?m = 8" using assms(1,2) by (auto simp: detail_ok_def MasksPerDetailMask_def split: option.splits)
  obtain m' where m': "BITCLEAR ?m v = Some m'" "length m' = 8" "\<forall>u < 256. GETBIT m' u = Some True \<longleftrightarrow> GETBIT ?m u = Some True \<and> u \<noteq> v"
    using BITCLEAR_bits [OF len assms(3)] by blast
  have "vals any d = {u. u < 256 \<and> u \<noteq> any \<and> GETBIT ?m u = Some True}"
    using assms(1,2) full_mask_bits by (auto simp: vals_def detail_ok_def MasksPerDetailMask_def split: option.splits)
  then have "vals any (d\<lparr>pMask := Some m'\<rparr>) = vals any d - {v}" using m'(3) assms(2) by (auto simp: vals_def)
  moreover have "detail_ok any (d\<lparr>pMask := Some m'\<rparr>)" using m'(2) assms(2) by (simp add: detail_ok_def)
  ultimately show ?thesis using a g m'(1) by (cases b) (simp_all add: DeleteDetailFromMask_def)
qed

subsection \<open>What a list of grabs grants\<close>

definition kind :: "GrabRec \<Rightarrow> GrabRec" where
  "kind g = g\<lparr>resource := 0, modifiersDetail := \<lparr>exact = 0, pMask = None\<rparr>, detail := \<lparr>exact = 0, pMask = None\<rparr>, xi2mask := []\<rparr>"

definition grab_client :: "grab_env \<Rightarrow> GrabRec \<Rightarrow> nat" where
  "grab_client e g = dixClientIdForXID (g_lim e) (resource g)"

definition grants :: "grab_env \<Rightarrow> GrabRec list \<Rightarrow> (nat \<times> GrabRec \<times> card32 \<times> card32) set" where
  "grants e gs = (\<Union>g \<in> set gs. {grab_client e g} \<times> {kind g} \<times> combos g)"

text \<open>What taking out a grab removes: its combinations, from the grabs of the client with the same device and event type.\<close>

definition taken :: "grab_env \<Rightarrow> GrabRec \<Rightarrow> (nat \<times> GrabRec \<times> card32 \<times> card32) set" where
  "taken e m = {(c, k, x). c = grab_client e m \<and> same_class e k m \<and> x \<in> combos m}"

lemma same_class_kind [simp]: "same_class e (kind g) m = same_class e g m"
  by (simp add: same_class_def devices_match_def kind_def)

lemma grants_append [simp]: "grants e [] = {}" "grants e (gs @ hs) = grants e gs \<union> grants e hs"
  "grants e (g # gs) = {grab_client e g} \<times> {kind g} \<times> combos g \<union> grants e gs"
  by (auto simp: grants_def)

lemma set_mask_fields [simp]:
  "resource (set_mask f m g) = resource g" "kind (set_mask f m g) = kind g" "grab_client e (set_mask f m g) = grab_client e g"
  "cursor (set_mask f m g) = cursor g" "window (set_mask f m g) = window g" "grabtype (set_mask f m g) = grabtype g"
  "any_modifier (set_mask f m g) = any_modifier g"
  by (cases f; simp add: kind_def grab_client_def any_modifier_def)+

lemma any_modifier_details [simp]:
  "any_modifier (g\<lparr>detail := d\<rparr>) = any_modifier g" "any_modifier (g\<lparr>modifiersDetail := d\<rparr>) = any_modifier g"
  by (simp_all add: any_modifier_def)

subsection \<open>One step of the plan\<close>

fun grab_field :: "mask_field \<Rightarrow> GrabRec \<Rightarrow> DetailRec" where
  "grab_field DetailMask g = detail g"
| "grab_field ModifiersMask g = modifiersDetail g"

fun any_of :: "mask_field \<Rightarrow> GrabRec \<Rightarrow> card32" where
  "any_of DetailMask g = AnyKey"
| "any_of ModifiersMask g = any_modifier g"

lemma sup_subset:
  assumes "detail_ok any m" "pMask m = None" "detail_ok any d" "supersedes any m d"
  shows "vals any d \<subseteq> vals any m"
proof (cases "exact m = any")
  case True
  then show ?thesis using vals_whole [OF True assms(2)] by (auto simp: vals_def)
next
  case False
  then show ?thesis using assms vals_exact [OF assms(3)] by (auto simp: supersedes_def)
qed

lemma not_sup:
  assumes "detail_ok any m" "pMask m = None" "detail_ok any d" "compatible any d m" "\<not> supersedes any m d"
  shows "exact m \<noteq> any" "exact m < 256" "exact d = any" "vals any m = {exact m}" "exact m \<in> vals any d"
proof -
  show m: "exact m \<noteq> any" using assms(2,5) by (auto simp: supersedes_def)
  then show "exact m < 256" "vals any m = {exact m}" using assms(1) vals_exact [OF assms(1) m] by (simp_all add: detail_ok_def)
  then show d: "exact d = any"
    using assms(4,5) m vals_exact [OF assms(3)] by (auto simp: compatible_def supersedes_def)
  show "exact m \<in> vals any d"
    using assms(4,5) m \<open>exact m < 256\<close> d by (auto simp: compatible_def supersedes_def vals_def split: if_splits)
qed

lemma UPDATE_ok:
  assumes "detail_ok (any_of fld g) (grab_field fld g)" "exact (grab_field fld g) = any_of fld g" "v < 256"
  shows "\<exists>p' s1. UPDATE g fld (pMask (grab_field fld g)) v (p, s) = Some (p', s1) \<and> grown e c w 0 [] s s1
    \<and> (memory s = [] \<longrightarrow> go p' = go p)
    \<and> (p' = p\<lparr>go := False\<rparr> \<or> (\<exists>m. p' = p\<lparr>updates := updates p @ [(resource g, fld, m)]\<rparr>
          \<and> detail_ok (any_of fld g) ((grab_field fld g)\<lparr>pMask := Some m\<rparr>)
          \<and> vals (any_of fld g) ((grab_field fld g)\<lparr>pMask := Some m\<rparr>) = vals (any_of fld g) (grab_field fld g) - {v}))"
proof -
  obtain r s1 where r: "DeleteDetailFromMask (pMask (grab_field fld g)) v s = Some (r, s1)" "grown e c w 0 [] s s1" "memory s = [] \<longrightarrow> r \<noteq> None"
    "\<forall>m. r = Some m \<longrightarrow> detail_ok (any_of fld g) ((grab_field fld g)\<lparr>pMask := Some m\<rparr>)
      \<and> vals (any_of fld g) ((grab_field fld g)\<lparr>pMask := Some m\<rparr>) = vals (any_of fld g) (grab_field fld g) - {v}"
    using delete_detail [OF assms] by blast
  then show ?thesis by (cases r) (auto simp: UPDATE_def)
qed

lemma fake_id_unlisted:
  assumes "grab_inv s" "fresh_ids e c k s" "n \<in> {ids_used s ..< ids_used s + k}"
  shows "fake_id e c n \<notin> resource ` set (passiveGrabs s w)"
proof
  assume "fake_id e c n \<in> resource ` set (passiveGrabs s w)"
  then have "grab_resources s (fake_id e c n) \<noteq> None" using assms(1) by (auto simp: grab_inv_def)
  then show False using assms(2,3) by (simp add: fresh_ids_def)
qed

lemma unlink_absent: "i \<notin> resource ` set gs \<Longrightarrow> unlink_grab i gs = gs"
  by (induction gs) auto

lemma refs_update: "cursor_refs (RefCursor c s) x = cursor_refs s x + (if c = Some x then 1 else 0)"
  "cursor_refs (FreeCursor c s) x = cursor_refs s x - (if c = Some x then 1 else 0)"
  by (auto simp: RefCursor_def FreeCursor_def split: option.splits)

lemma ref_fields [simp]:
  "passiveGrabs (RefCursor c s) = passiveGrabs s" "optional (RefCursor c s) = optional s" "ids_used (RefCursor c s) = ids_used s"
  "grab_resources (RefCursor c s) = grab_resources s" "memory (RefCursor c s) = memory s"
  "passiveGrabs (FreeCursor c s) = passiveGrabs s" "optional (FreeCursor c s) = optional s" "ids_used (FreeCursor c s) = ids_used s"
  "grab_resources (FreeCursor c s) = grab_resources s" "memory (FreeCursor c s) = memory s"
  by (simp_all add: RefCursor_def FreeCursor_def split: option.splits)

lemma delete_absent:
  assumes "resource g \<notin> resource ` set (passiveGrabs s (window g))"
  shows "DeletePassiveGrab e g s = FreeGrab g s"
  using assms by (simp add: DeletePassiveGrab_def unlink_absent)

lemma AllocGrab_grown:
  "AllocGrab s = (r, s1) \<Longrightarrow> grown e c w 0 [] s s1 \<and> (memory s = [] \<longrightarrow> r \<noteq> None) \<and> (r = None \<or> r = Some zero_grab)"
  by (auto simp: AllocGrab_def galloc_def grown_def split: list.splits bool.splits prod.splits)

text \<open>A grab made from another one for one key, with the modifiers reduced: either memory ran out and nothing is left of it,
  or the new grab is registered and planned to be added.\<close>

definition split_failed :: "grab_env \<Rightarrow> nat \<Rightarrow> xid \<Rightarrow> grab_plan \<times> grab_state \<Rightarrow> grab_plan \<times> grab_state \<Rightarrow> bool" where
  "split_failed e c w ps ps' \<longleftrightarrow> fst ps' = (fst ps)\<lparr>go := False\<rparr> \<and> grown e c w 1 [] (snd ps) (snd ps') \<and> memory (snd ps) \<noteq> []"

definition split_made ::
    "grab_env \<Rightarrow> nat \<Rightarrow> xid \<Rightarrow> GrabRec \<Rightarrow> GrabRec \<Rightarrow> grab_plan \<times> grab_state \<Rightarrow> grab_plan \<times> grab_state \<Rightarrow> bool" where
  "split_made e c w m g ps ps' \<longleftrightarrow> (\<exists>n. fst ps' = (fst ps)\<lparr>adds := adds (fst ps) @ [n]\<rparr> \<and> grown e c w 1 [n] (snd ps) (snd ps')
     \<and> grab_ok n \<and> kind n = kind g \<and> grab_client e n = c
     \<and> combos n = {exact (detail m)} \<times> (vals (any_modifier g) (modifiersDetail g) - {exact (modifiersDetail m)}))"

definition new_grab :: "grab_env \<Rightarrow> nat \<Rightarrow> GrabRec \<Rightarrow> GrabRec \<Rightarrow> xid \<Rightarrow> GrabRec" where
  "new_grab e c m g i = g\<lparr>resource := i, modifiersDetail := \<lparr>exact = any_modifier g, pMask = None\<rparr>,
     detail := \<lparr>exact = exact (detail m), pMask = None\<rparr>, xi2mask := xi2mask_new\<rparr>"

lemma new_grab_made:
  assumes gt: "grabtype g \<noteq> XI2" "any_modifier m = any_modifier g" and g: "grab_ok g" and m: "exact (detail m) < 256"
  shows "CreateGrab e c (device g) (modifierDevice g) (window g) (grabtype g) (eventMask_as_GrabMask g)
      \<lparr>gp_ownerEvents = ucast (ownerEvents g), this_device_mode = ucast (keyboardMode g), other_devices_mode = ucast (pointerMode g),
        grabWindow = 0, gp_confineTo = 0, gp_cursor = 0, modifiers = any_modifier m\<rparr>
      (type g) (ucast (exact (detail m))) (confineTo g) (cursor g) s =
    (case AllocGrab s of
       (None, s1) \<Rightarrow> Some (None, s1)
     | (Some _, s1) \<Rightarrow> Some (Some (new_grab e c m g (fake_id e c (ids_used s1))), RefCursor (cursor g) (s1\<lparr>ids_used := ids_used s1 + 1\<rparr>)))"
proof -
  have "unat (take_bit 8 (exact (detail m))) = unat (exact (detail m))"
    using m by (simp add: unsigned_take_bit_eq take_bit_nat_eq_self word_less_nat_alt)
  then have "take_bit 8 (exact (detail m)) = exact (detail m)" by (simp only: word_unat_eq_iff)
  then have byte: "ucast (ucast (exact (detail m)) :: card8) = exact (detail m)" by (simp add: unsigned_ucast_eq)
  have flag: "ucast (ucast b :: card32) = b" for b :: "1 word"
    by (rule bit_word_eqI) (auto simp: bit_ucast_iff)
  obtain r s1 where a: "AllocGrab s = (r, s1)" by fastforce
  then have "r = None \<or> r = Some zero_grab" using AllocGrab_grown by blast
  then show ?thesis
    using a gt g byte
    by (cases "grabtype g"; cases g) (auto simp: flag CreateGrab_def new_grab_def Let_def zero_grab_def eventMask_as_GrabMask_def grab_ok_def)
qed

lemma new_grab_registered:
  assumes inv: "grab_inv s" and fresh: "fresh_ids e c 1 s" and g: "grown e c w 0 [] s s1" and n: "resource n = fake_id e c (ids_used s1)" "window n = w"
    and s2: "grown e c w 0 [] (RefCursor (cursor n) (s1\<lparr>ids_used := ids_used s1 + 1\<rparr>)) s2"
    and n': "n' = set_mask ModifiersMask m' n"
  shows "grown e c w 1 [] s (FreeGrab n s2)"
    and "case AddGrabResource e n' s2 of (ok, s3) \<Rightarrow> if ok then grown e c w 1 [n'] s s3 else grown e c w 1 [] s s3 \<and> memory s \<noteq> []"
proof -
  have st: "passiveGrabs s2 = passiveGrabs s" "optional s2 = optional s" "grab_resources s2 = grab_resources s" "ids_used s2 = ids_used s + 1"
    "ids_used s1 = ids_used s" "memory s = [] \<longrightarrow> memory s2 = []" "cursor_refs s2 x = cursor_refs s x + (if cursor n = Some x then 1 else 0)" for x
    using g s2 by (auto simp: grown_def refs_update)
  show "grown e c w 1 [] s (FreeGrab n s2)"
    using st by (simp add: grown_def FreeGrab_def refs_update)
  have unlisted: "resource n' \<notin> resource ` set (passiveGrabs s2 (window n'))"
    using fake_id_unlisted [OF inv fresh, of "ids_used s1"] n n' st(1,5) by simp
  obtain b s3 where b: "galloc s2 = (b, s3)" by fastforce
  note gb = galloc_grown [OF b, of e c w]
  have st3: "passiveGrabs s3 = passiveGrabs s" "optional s3 = optional s" "grab_resources s3 = grab_resources s" "ids_used s3 = ids_used s + 1"
    "memory s = [] \<longrightarrow> memory s3 = [] \<and> b" "cursor_refs s3 x = cursor_refs s x + (if cursor n = Some x then 1 else 0)" for x
    using gb st by (auto simp: grown_def)
  show "case AddGrabResource e n' s2 of (ok, s3) \<Rightarrow> if ok then grown e c w 1 [n'] s s3 else grown e c w 1 [] s s3 \<and> memory s \<noteq> []"
  proof (cases b)
    case True
    then show ?thesis using b st3 st(5) n n' by (auto simp: AddGrabResource_def grown_def)
  next
    case False
    have "DeletePassiveGrab e n' s3 = FreeGrab n' s3" using unlisted st(1) st3(1) by (intro delete_absent) simp
    then show ?thesis using False b st3 st(5) n' by (simp add: AddGrabResource_def grown_def FreeGrab_def refs_update)
  qed
qed

lemma split_grab_ok:
  assumes inv: "grab_inv s" and fresh: "fresh_ids e c 1 s" and c: "c = grab_client e g" and g: "grab_ok g" "window g = w"
    and gt: "grabtype g \<noteq> XI2" "any_modifier m = any_modifier g" and any: "exact (modifiersDetail g) = any_modifier g"
    and m: "exact (detail m) < 256" "exact (detail m) \<noteq> AnyKey" "exact (modifiersDetail m) < 256"
  shows "\<exists>ps'. split_grab e m g (p, s) = Some ps' \<and> (split_failed e c w (p, s) ps' \<or> split_made e c w m g (p, s) ps')"
proof -
  note step = split_grab_def new_grab_made [OF gt g(1) m(1)]
  obtain r s1 where a: "AllocGrab s = (r, s1)" by fastforce
  note ag = AllocGrab_grown [OF a, of e c w]
  show ?thesis
  proof (cases r)
    case None
    then show ?thesis using a ag c grown_mono [of e c w 0] by (simp add: step split_failed_def grab_client_def)
  next
    case (Some z)
    define n where "n = new_grab e c m g (fake_id e c (ids_used s1))"
    define s2 where "s2 = RefCursor (cursor g) (s1\<lparr>ids_used := ids_used s1 + 1\<rparr>)"
    obtain q s3 where q: "DeleteDetailFromMask (pMask (modifiersDetail g)) (exact (modifiersDetail m)) s2 = Some (q, s3)" "grown e c w 0 [] s2 s3"
      "memory s2 = [] \<longrightarrow> q \<noteq> None"
      "\<forall>m'. q = Some m' \<longrightarrow> detail_ok (any_modifier g) ((modifiersDetail g)\<lparr>pMask := Some m'\<rparr>)
        \<and> vals (any_modifier g) ((modifiersDetail g)\<lparr>pMask := Some m'\<rparr>) = vals (any_modifier g) (modifiersDetail g) - {exact (modifiersDetail m)}"
      using delete_detail [OF _ any m(3), of s2 e c w] g(1) by (auto simp: grab_ok_def)
    have n: "cursor n = cursor g" "window n = w" "resource n = fake_id e c (ids_used s1)" by (simp_all add: n_def new_grab_def g)
    have reg: "grown e c w 1 [] s (FreeGrab n s3)"
      "case AddGrabResource e (set_mask ModifiersMask m' n) s3 of (ok, s4) \<Rightarrow>
        if ok then grown e c w 1 [set_mask ModifiersMask m' n] s s4 else grown e c w 1 [] s s4 \<and> memory s \<noteq> []" for m'
      using new_grab_registered [OF inv fresh conjunct1 [OF ag] n(3,2) _ refl] q(2) by (simp_all add: s2_def n(1))
    have split: "split_grab e m g (p, s) = Some (case q of None \<Rightarrow> (p\<lparr>go := False\<rparr>, FreeGrab n s3)
        | Some m' \<Rightarrow> let n' = set_mask ModifiersMask m' n; (ok, s4) = AddGrabResource e n' s3 in
            (if ok then p\<lparr>adds := adds p @ [n']\<rparr> else p\<lparr>go := False\<rparr>, s4))"
      using a Some q(1) c by (cases q) (simp_all add: step s2_def n_def grab_client_def)
    show ?thesis
    proof (cases q)
      case None
      then have "memory s \<noteq> []" using q(3) ag by (auto simp: s2_def grown_def)
      then show ?thesis using split None reg(1) by (simp add: split_failed_def)
    next
      case q': (Some m')
      define n' where "n' = set_mask ModifiersMask m' n"
      obtain ok s4 where ok: "AddGrabResource e n' s3 = (ok, s4)" by fastforce
      have "ids_used s1 = ids_used s" using ag by (auto simp: grown_def)
      then have "dixClientIdForXID (g_lim e) (resource n) = c" using fresh n(3) by (simp add: fresh_ids_def)
      moreover have "detail_ok (any_modifier g) ((modifiersDetail g)\<lparr>pMask := Some m'\<rparr>)"
        "vals (any_modifier g) ((modifiersDetail g)\<lparr>pMask := Some m'\<rparr>) = vals (any_modifier g) (modifiersDetail g) - {exact (modifiersDetail m)}"
        using q(4) q' by simp_all
      moreover have "vals AnyKey \<lparr>exact = exact (detail m), pMask = None\<rparr> = {exact (detail m)}" using m by (auto simp: vals_def)
      moreover have n': "detail n' = \<lparr>exact = exact (detail m), pMask = None\<rparr>" "modifiersDetail n' = (modifiersDetail g)\<lparr>pMask := Some m'\<rparr>"
        "any_modifier n' = any_modifier g" "deviceMask n' = 0" "resource n' = resource n"
        using any g(1) by (simp_all add: n'_def n_def new_grab_def any_modifier_def grab_ok_def)
      ultimately have "grab_ok n'" "grab_client e n' = c"
        "combos n' = {exact (detail m)} \<times> (vals (any_modifier g) (modifiersDetail g) - {exact (modifiersDetail m)})"
        using m(1,2) by (simp_all add: grab_ok_def grab_client_def combos_def) (simp add: detail_ok_def)
      moreover have "kind n' = kind g" by (simp add: n'_def n_def new_grab_def kind_def)
      ultimately have n'_ok: "grab_ok n'" "kind n' = kind g" "grab_client e n' = c"
        "combos n' = {exact (detail m)} \<times> (vals (any_modifier g) (modifiersDetail g) - {exact (modifiersDetail m)})" by simp_all
      have "if ok then split_made e c w m g (p, s) (p\<lparr>adds := adds p @ [n']\<rparr>, s4) else split_failed e c w (p, s) (p\<lparr>go := False\<rparr>, s4)"
      proof (cases ok)
        case True
        then have "grown e c w 1 [n'] s s4" using reg(2) [of m', folded n'_def] ok by simp
        then have "split_made e c w m g (p, s) (p\<lparr>adds := adds p @ [n']\<rparr>, s4)"
          unfolding split_made_def fst_conv snd_conv using n'_ok by (intro exI [of _ n'] conjI refl)
        then show ?thesis using True by simp
      next
        case False
        then show ?thesis using reg(2) [of m', folded n'_def] ok by (simp add: split_failed_def)
      qed
      then show ?thesis using split q' ok by (auto simp: n'_def split: if_splits)
    qed
  qed
qed

subsection \<open>The plan\<close>

definition updated :: "(xid \<times> mask_field \<times> card32 list) list \<Rightarrow> GrabRec \<Rightarrow> GrabRec" where
  "updated U g = (case map_of U (resource g) of None \<Rightarrow> g | Some (fld, m) \<Rightarrow> set_mask fld m g)"

lemma updated_fields [simp]:
  "resource (updated U g) = resource g" "kind (updated U g) = kind g" "grab_client e (updated U g) = grab_client e g"
  "cursor (updated U g) = cursor g" "window (updated U g) = window g"
  by (simp_all add: updated_def split: option.splits)

text \<open>What a step adds to the plan for the grab \<open>g\<close>: deletions \<open>D\<close>, updates \<open>U\<close> and additions \<open>A\<close> that together leave of the
  combinations of \<open>g\<close> exactly those that are not taken.\<close>

definition step_result ::
    "grab_env \<Rightarrow> GrabRec \<Rightarrow> GrabRec \<Rightarrow> xid list \<Rightarrow> (xid \<times> mask_field \<times> card32 list) list \<Rightarrow> GrabRec list \<Rightarrow> bool" where
  "step_result e m g D U A \<longleftrightarrow> set D \<subseteq> {resource g} \<and> (U = [] \<or> (\<exists>f k. U = [(resource g, f, k)])) \<and> grab_ok (updated U g) \<and> (\<forall>n \<in> set A. grab_ok n)
     \<and> grants e A \<union> (if D = [] then grants e [updated U g] else {}) = grants e [g] - taken e m"

lemma grants_taken:
  assumes "grab_client e g = grab_client e m" "same_class e g m"
  shows "grants e [g] - taken e m = {grab_client e g} \<times> {kind g} \<times> (combos g - combos m)"
  using assms by (auto simp: taken_def)

lemma step_untouched:
  assumes "grab_ok g" "grab_client e g \<noteq> grab_client e m \<or> \<not> same_class e g m \<or> combos g \<inter> combos m = {}"
  shows "step_result e m g [] [] []"
  using assms by (auto simp: step_result_def updated_def taken_def)

lemma step_update:
  assumes g: "grab_ok g" "grab_client e g = grab_client e m" "same_class e g m"
    and d: "detail_ok (any_of fld g) ((grab_field fld g)\<lparr>pMask := Some k\<rparr>)"
    and c: "combos (set_mask fld k g) = combos g - combos m"
  shows "step_result e m g [] [(resource g, fld, k)] []"
proof -
  have "grab_ok (set_mask fld k g)" using g(1) d by (cases fld) (simp_all add: grab_ok_def any_modifier_def)
  then show ?thesis unfolding step_result_def grants_taken [OF g(2,3)] using c by (simp add: updated_def)
qed

lemma class_mods:
  assumes "same_class e g m" "grab_ok g" "grab_ok m" "plain m"
  shows "any_modifier m = any_modifier g"
    "detail_ok (any_modifier g) (modifiersDetail m)" "detail_ok (any_modifier g) (modifiersDetail g)"
    "detail_ok AnyKey (detail m)" "detail_ok AnyKey (detail g)" "pMask (detail m) = None" "pMask (modifiersDetail m) = None"
  using assms same_class_any [of g m] by (simp_all add: same_class_def grab_ok_def plain_def)

lemma times_diff:
  "A \<subseteq> A' \<Longrightarrow> A \<times> B - A' \<times> {b} = A \<times> (B - {b})" "B \<subseteq> B' \<Longrightarrow> A \<times> B - {a} \<times> B' = (A - {a}) \<times> B"
  "a \<in> A \<Longrightarrow> b \<in> B \<Longrightarrow> {a} \<times> (B - {b}) \<union> (A - {a}) \<times> B = A \<times> B - {a} \<times> {b}"
  by auto

text \<open>A step that reduces one of the two details of a grab.\<close>

lemma reduce_step:
  assumes go: "go p" and g: "grab_ok g" "grab_client e g = grab_client e m" "same_class e g m" and m: "grab_ok m" "plain m"
    and fld: "compatible (any_of fld g) (grab_field fld g) (grab_field fld m)" "\<not> supersedes (any_of fld g) (grab_field fld m) (grab_field fld g)"
    and oth: "oth \<noteq> fld" "supersedes (any_of oth g) (grab_field oth m) (grab_field oth g)"
  shows "\<exists>p' s'. UPDATE g fld (pMask (grab_field fld g)) (exact (grab_field fld m)) (p, s) = Some (p', s') \<and> grown e c w 0 [] s s'
    \<and> (p' = p\<lparr>go := False\<rparr> \<and> memory s \<noteq> [] \<or>
        (\<exists>U. p' = p\<lparr>updates := updates p @ U\<rparr> \<and> step_result e m g [] U []))"
proof -
  note cm = class_mods [OF g(3,1) m]
  have ok: "detail_ok (any_of f g) (grab_field f m)" "detail_ok (any_of f g) (grab_field f g)" "pMask (grab_field f m) = None" for f
    using cm by (cases f; simp)+
  note ns = not_sup [OF ok(1,3,2) fld]
  obtain p' s' where u: "UPDATE g fld (pMask (grab_field fld g)) (exact (grab_field fld m)) (p, s) = Some (p', s')" "grown e c w 0 [] s s'"
    "memory s = [] \<longrightarrow> go p' = go p"
    "p' = p\<lparr>go := False\<rparr> \<or> (\<exists>k. p' = p\<lparr>updates := updates p @ [(resource g, fld, k)]\<rparr>
          \<and> detail_ok (any_of fld g) ((grab_field fld g)\<lparr>pMask := Some k\<rparr>)
          \<and> vals (any_of fld g) ((grab_field fld g)\<lparr>pMask := Some k\<rparr>) = vals (any_of fld g) (grab_field fld g) - {exact (grab_field fld m)})"
    using UPDATE_ok [OF ok(2) ns(3,2), of p s e c w] by blast
  have sub: "vals (any_of oth g) (grab_field oth g) \<subseteq> vals (any_of oth g) (grab_field oth m)"
    by (rule sup_subset [OF ok(1,3,2) oth(2)])
  have red: "combos (set_mask fld k g) = combos g - combos m"
    if "vals (any_of fld g) ((grab_field fld g)\<lparr>pMask := Some k\<rparr>) = vals (any_of fld g) (grab_field fld g) - {exact (grab_field fld m)}" for k
  proof (cases fld)
    case DetailMask
    then have "oth = ModifiersMask" using oth(1) by (cases oth) auto
    then show ?thesis using that sub ns(4) DetailMask cm(1) by (simp add: combos_def times_diff(2))
  next
    case ModifiersMask
    then have "oth = DetailMask" using oth(1) by (cases oth) auto
    then show ?thesis using that sub ns(4) ModifiersMask cm(1) by (simp add: combos_def times_diff(1))
  qed
  have "p' = p\<lparr>go := False\<rparr> \<or> (\<exists>U. p' = p\<lparr>updates := updates p @ U\<rparr> \<and> step_result e m g [] U [])"
    using u(4)
  proof (elim disjE exE conjE)
    fix k assume k: "p' = p\<lparr>updates := updates p @ [(resource g, fld, k)]\<rparr>" "detail_ok (any_of fld g) ((grab_field fld g)\<lparr>pMask := Some k\<rparr>)"
      "vals (any_of fld g) ((grab_field fld g)\<lparr>pMask := Some k\<rparr>) = vals (any_of fld g) (grab_field fld g) - {exact (grab_field fld m)}"
    show ?thesis using k(1) step_update [OF g k(2) red [OF k(3)]] by (intro disjI2 exI [of _ "[(resource g, fld, k)]"]) simp
  qed simp
  moreover have "memory s \<noteq> []" if "p' = p\<lparr>go := False\<rparr>" using u(3) go that by auto
  ultimately show ?thesis using u(1,2) by blast
qed

definition step_extends ::
    "grab_env \<Rightarrow> nat \<Rightarrow> xid \<Rightarrow> GrabRec \<Rightarrow> GrabRec \<Rightarrow> grab_plan \<times> grab_state \<Rightarrow> grab_plan \<times> grab_state \<Rightarrow> bool" where
  "step_extends e c w m g ps ps' \<longleftrightarrow> (\<exists>A. grown e c w 1 A (snd ps) (snd ps') \<and> adds (fst ps') = adds (fst ps) @ A
     \<and> (memory (snd ps) = [] \<longrightarrow> go (fst ps'))
     \<and> (go (fst ps') \<longrightarrow> (\<exists>D U. deletes (fst ps') = deletes (fst ps) @ D \<and> updates (fst ps') = updates (fst ps) @ U
          \<and> step_result e m g D U A)))"

lemma step_extendsI:
  assumes "grown e c w 1 A s s'" "adds p' = adds p @ A" "go p'" "deletes p' = deletes p @ D" "updates p' = updates p @ U" "step_result e m g D U A"
  shows "step_extends e c w m g (p, s) (p', s')"
  unfolding step_extends_def using assms by (intro exI [of _ A]) auto

lemma step_extends_failed:
  "grown e c w 1 A s s' \<Longrightarrow> adds p' = adds p @ A \<Longrightarrow> \<not> go p' \<Longrightarrow> memory s \<noteq> [] \<Longrightarrow> step_extends e c w m g (p, s) (p', s')"
  unfolding step_extends_def by (intro exI [of _ A]) simp

lemma reduce_extends:
  assumes "go p" and g: "grab_ok g" "grab_client e g = grab_client e m" "same_class e g m" and m: "grab_ok m" "plain m"
    and fld: "compatible (any_of fld g) (grab_field fld g) (grab_field fld m)" "\<not> supersedes (any_of fld g) (grab_field fld m) (grab_field fld g)"
    and oth: "oth \<noteq> fld" "supersedes (any_of oth g) (grab_field oth m) (grab_field oth g)"
  shows "\<exists>ps'. UPDATE g fld (pMask (grab_field fld g)) (exact (grab_field fld m)) (p, s) = Some ps' \<and> step_extends e c w m g (p, s) ps'"
proof -
  obtain p' s' where u: "UPDATE g fld (pMask (grab_field fld g)) (exact (grab_field fld m)) (p, s) = Some (p', s')" "grown e c w 0 [] s s'"
    "p' = p\<lparr>go := False\<rparr> \<and> memory s \<noteq> [] \<or> (\<exists>U. p' = p\<lparr>updates := updates p @ U\<rparr> \<and> step_result e m g [] U [])"
    using reduce_step [OF assms, of s c w] by blast
  have u': "grown e c w 1 [] s s'" using grown_mono [OF u(2)] by simp
  have "step_extends e c w m g (p, s) (p', s')"
    using u(3)
  proof (elim disjE exE conjE)
    fix U assume U: "p' = p\<lparr>updates := updates p @ U\<rparr>" "step_result e m g [] U []"
    show ?thesis by (rule step_extendsI [OF u' _ _ _ _ U(2)]) (use U(1) assms(1) in simp_all)
  qed (auto intro: step_extends_failed [OF u'])
  then show ?thesis using u(1) by blast
qed

text \<open>A grab of all keys and modifiers, reduced by one combination: the key goes from the old grab and comes back with the other modifiers in a new
  one.\<close>

lemma split_extends:
  assumes go: "go p" and inv: "grab_inv s" and fresh: "fresh_ids e c 1 s" and c: "c = grab_client e g" "grab_client e g = grab_client e m"
    and g: "grab_ok g" "window g = w" "grabtype g \<noteq> XI2" "same_class e g m" and m: "grab_ok m" "plain m"
    and d: "compatible AnyKey (detail g) (detail m)" "\<not> supersedes AnyKey (detail m) (detail g)"
    and mo: "compatible (any_modifier g) (modifiersDetail g) (modifiersDetail m)"
      "\<not> supersedes (any_modifier g) (modifiersDetail m) (modifiersDetail g)"
  shows "\<exists>ps'. Option.bind (UPDATE g DetailMask (pMask (detail g)) (exact (detail m)) (p, s)) (split_grab e m g) = Some ps'
    \<and> step_extends e c w m g (p, s) ps'"
proof -
  note cm = class_mods [OF g(4,1) m]
  note nd = not_sup [OF cm(4,6,5) d] and nm = not_sup [OF cm(2,7,3) mo]
  obtain p1 s1 where u: "UPDATE g DetailMask (pMask (detail g)) (exact (detail m)) (p, s) = Some (p1, s1)" "grown e c w 0 [] s s1"
    "memory s = [] \<longrightarrow> go p1 = go p"
    "p1 = p\<lparr>go := False\<rparr> \<or> (\<exists>k. p1 = p\<lparr>updates := updates p @ [(resource g, DetailMask, k)]\<rparr>
          \<and> detail_ok AnyKey ((detail g)\<lparr>pMask := Some k\<rparr>) \<and> vals AnyKey ((detail g)\<lparr>pMask := Some k\<rparr>) = vals AnyKey (detail g) - {exact (detail m)})"
    using UPDATE_ok [of DetailMask g "exact (detail m)" p s e c w] cm nd(2,3) by auto
  have inv1: "grab_inv s1" using inv u(2) by (simp add: grab_inv_def grown_def)
  obtain p2 s2 where sp: "split_grab e m g (p1, s1) = Some (p2, s2)" "split_failed e c w (p1, s1) (p2, s2) \<or> split_made e c w m g (p1, s1) (p2, s2)"
    using split_grab_ok [OF inv1 fresh_grown [OF u(2), of 1] c(1) g(1,2,3) cm(1) nm(3) nd(2,1) nm(2), of p1] fresh by (metis add_0 surj_pair)
  have mem: "memory s1 \<noteq> [] \<Longrightarrow> memory s \<noteq> []" using u(2) by (auto simp: grown_def)
  have fresh': "fresh_ids e c (0 + 1) s" using fresh by simp
  have "step_extends e c w m g (p, s) (p2, s2)"
    using sp(2)
  proof
    assume f: "split_failed e c w (p1, s1) (p2, s2)"
    have "grown e c w 1 [] s s2" using grown_trans [OF fresh' u(2), of "[]" s2] f by (simp add: split_failed_def)
    moreover have "adds p1 = adds p" using u(4) by (elim disjE exE conjE) simp_all
    ultimately show ?thesis using f mem by (intro step_extends_failed) (simp_all add: split_failed_def)
  next
    assume "split_made e c w m g (p1, s1) (p2, s2)"
    then obtain n where n: "p2 = p1\<lparr>adds := adds p1 @ [n]\<rparr>" "grown e c w 1 [n] s1 s2" "grab_ok n" "kind n = kind g" "grab_client e n = c"
      "combos n = {exact (detail m)} \<times> (vals (any_modifier g) (modifiersDetail g) - {exact (modifiersDetail m)})"
      by (auto simp: split_made_def)
    have gr: "grown e c w 1 [n] s s2" using grown_trans [OF fresh' u(2) n(2)] by simp
    show ?thesis using u(4)
    proof (elim disjE exE conjE)
      assume f: "p1 = p\<lparr>go := False\<rparr>"
      show ?thesis by (rule step_extends_failed [OF gr]) (use f n(1) u(3) go in auto)
    next
      fix k assume k: "p1 = p\<lparr>updates := updates p @ [(resource g, DetailMask, k)]\<rparr>" "detail_ok AnyKey ((detail g)\<lparr>pMask := Some k\<rparr>)"
        "vals AnyKey ((detail g)\<lparr>pMask := Some k\<rparr>) = vals AnyKey (detail g) - {exact (detail m)}"
      have "combos n \<union> combos (set_mask DetailMask k g) = combos g - combos m"
        unfolding n(6) using k(3) nd(4) nm(4) cm(1) by (simp add: combos_def times_diff(3) [OF nd(5) nm(5)])
      moreover have "grab_ok (set_mask DetailMask k g)" using g(1) k(2) by (simp add: grab_ok_def)
      ultimately have res: "step_result e m g [] [(resource g, DetailMask, k)] [n]"
        unfolding step_result_def grants_taken [OF c(2) g(4)]
        using n(3-5) c(1) by (simp add: updated_def Sigma_Un_distrib2 [symmetric] del: set_mask.simps)
      show ?thesis by (rule step_extendsI [OF gr _ _ _ _ res]) (use k(1) n(1) go in simp_all)
    qed
  qed
  then show ?thesis using u(1) sp(1) by simp
qed

lemma plan_step_ok:
  assumes go: "go p" and inv: "grab_inv s" and fresh: "fresh_ids e c 1 s" and c: "c = grab_client e m"
    and g: "grab_ok g" "window g = w" and m: "grab_ok m" "plain m"
    and xi2: "grabtype m = XI2 \<longrightarrow> exact (detail m) = AnyKey \<or> exact (modifiersDetail m) = any_modifier m"
  shows "\<exists>ps'. plan_step e m g (p, s) = Some ps' \<and> step_extends e c w m g (p, s) ps'"
proof (cases "grab_client e g = grab_client e m \<and> same_class e g m
    \<and> compatible (any_modifier g) (modifiersDetail g) (modifiersDetail m) \<and> compatible AnyKey (detail g) (detail m)")
  case False
  have "combos g \<inter> combos m = {}" if "same_class e g m"
    "\<not> (compatible (any_modifier g) (modifiersDetail g) (modifiersDetail m) \<and> compatible AnyKey (detail g) (detail m))"
  proof -
    note cm = class_mods [OF that(1) g(1) m]
    have "vals AnyKey (detail m) \<inter> vals AnyKey (detail g) = {} \<or>
        vals (any_modifier g) (modifiersDetail m) \<inter> vals (any_modifier g) (modifiersDetail g) = {}"
      using that(2) overlap_compatible [OF cm(4,6,5)] overlap_compatible [OF cm(2,7,3)] by (auto simp: compatible_def)
    then show ?thesis using cm(1) by (auto simp: combos_def)
  qed
  then have "step_result e m g [] [] []" using step_untouched [OF g(1)] False by blast
  then have "step_extends e c w m g (p, s) (p, s)" using go by (intro step_extendsI [of _ _ _ "[]"]) simp_all
  moreover have "plan_step e m g (p, s) = Some (p, s)"
    using False GrabMatchesSecond_ok [OF g(1) m(1), of e] by (auto simp: plan_step_def grab_client_def)
  ultimately show ?thesis by blast
next
  case True
  then have cl: "grab_client e g = grab_client e m" and sc: "same_class e g m"
    and mo: "compatible (any_modifier g) (modifiersDetail g) (modifiersDetail m)" and d: "compatible AnyKey (detail g) (detail m)" by auto
  note cm = class_mods [OF sc g(1) m]
  have gt: "grabtype g = grabtype m" using sc by (simp add: same_class_def)
  let ?sm = "supersedes (any_modifier g) (modifiersDetail m) (modifiersDetail g)" and ?sd = "supersedes AnyKey (detail m) (detail g)"
  have pre: "plan_step e m g (p, s) = (if ?sm \<and> ?sd then Some (p\<lparr>deletes := deletes p @ [resource g]\<rparr>, s)
      else if exact (detail g) = AnyKey \<and> exact (modifiersDetail g) \<noteq> any_modifier g
        then UPDATE g DetailMask (pMask (detail g)) (exact (detail m)) (p, s)
      else if exact (modifiersDetail g) = any_modifier g \<and> exact (detail g) \<noteq> AnyKey
        then UPDATE g ModifiersMask (pMask (modifiersDetail g)) (exact (modifiersDetail m)) (p, s)
      else if exact (detail m) \<noteq> AnyKey \<and> exact (modifiersDetail m) \<noteq> any_modifier g
        then Option.bind (UPDATE g DetailMask (pMask (detail g)) (exact (detail m)) (p, s)) (split_grab e m g)
      else if exact (detail m) = AnyKey then UPDATE g ModifiersMask (pMask (modifiersDetail g)) (exact (modifiersDetail m)) (p, s)
      else UPDATE g DetailMask (pMask (detail g)) (exact (detail m)) (p, s))"
    using True GrabMatchesSecond_ok [OF g(1) m(1), of e] GrabSupersedesSecond_ok [OF m(1) g(1) gt [symmetric]] cm(1)
    by (simp add: plan_step_def grab_client_def)
  consider (both) "?sm" "?sd" | (key) "?sm" "\<not> ?sd" | (mods) "\<not> ?sm" "?sd" | (none) "\<not> ?sm" "\<not> ?sd" by blast
  then show ?thesis
  proof cases
    case both
    have "combos g \<subseteq> combos m"
      using sup_subset [OF cm(4,6,5) both(2)] sup_subset [OF cm(2,7,3) both(1)] cm(1) by (auto simp: combos_def)
    then have "step_result e m g [resource g] [] []" unfolding step_result_def grants_taken [OF cl sc] using g(1) by (auto simp: updated_def)
    then have "step_extends e c w m g (p, s) (p\<lparr>deletes := deletes p @ [resource g]\<rparr>, s)" using go by (intro step_extendsI [of _ _ _ "[]"]) simp_all
    then show ?thesis using pre both by simp
  next
    case key
    note nd = not_sup [OF cm(4,6,5) d key(2)]
    have "plan_step e m g (p, s) = UPDATE g DetailMask (pMask (detail g)) (exact (detail m)) (p, s)"
      using pre key nd(1,3) cm(7) by (auto simp: supersedes_def split: if_splits)
    then show ?thesis using reduce_extends [OF go g(1) cl sc m, of DetailMask ModifiersMask s c w] d key by simp
  next
    case mods
    note nm = not_sup [OF cm(2,7,3) mo mods(1)]
    have "plan_step e m g (p, s) = UPDATE g ModifiersMask (pMask (modifiersDetail g)) (exact (modifiersDetail m)) (p, s)"
      using pre mods nm(1,3) cm(6) by (auto simp: supersedes_def split: if_splits)
    then show ?thesis using reduce_extends [OF go g(1) cl sc m, of ModifiersMask DetailMask s c w] mo mods by simp
  next
    case none
    note nd = not_sup [OF cm(4,6,5) d none(2)] and nm = not_sup [OF cm(2,7,3) mo none(1)]
    have "grabtype g \<noteq> XI2" using xi2 nd(1) nm(1) cm(1) gt by auto
    from split_extends [OF go inv fresh _ cl g this sc m d none(2) mo none(1)] show ?thesis
      using pre none nd(1,3) nm(1,3) c cl by simp
  qed
qed

subsection \<open>The loop\<close>

definition plan_inv ::
    "grab_env \<Rightarrow> nat \<Rightarrow> xid \<Rightarrow> GrabRec \<Rightarrow> GrabRec list \<Rightarrow> grab_state \<Rightarrow> grab_plan \<times> grab_state \<Rightarrow> bool" where
  "plan_inv e c w m xs s0 ps \<longleftrightarrow> grown e c w (length xs) (adds (fst ps)) s0 (snd ps) \<and> (memory s0 = [] \<longrightarrow> go (fst ps))
     \<and> (go (fst ps) \<longrightarrow> set (deletes (fst ps)) \<subseteq> resource ` set xs \<and> fst ` set (updates (fst ps)) \<subseteq> resource ` set xs
          \<and> distinct (List.map fst (updates (fst ps))) \<and> (\<forall>n \<in> set (adds (fst ps)). grab_ok n)
          \<and> (\<forall>g \<in> set xs. grab_ok (updated (updates (fst ps)) g))
          \<and> grants e (adds (fst ps)) \<union> grants e (List.map (updated (updates (fst ps))) (filter (\<lambda>g. resource g \<notin> set (deletes (fst ps))) xs))
            = grants e xs - taken e m)"

lemma updated_append:
  "U = [] \<or> (\<exists>f k. U = [(i, f, k)]) \<Longrightarrow> resource h \<noteq> i \<Longrightarrow> updated (V @ U) h = updated V h"
  "resource g \<notin> fst ` set V \<Longrightarrow> updated (V @ U) g = updated U g"
  by (auto simp: updated_def map_add_def split: option.splits dest: map_of_SomeD) (force dest: map_of_SomeD)+

lemma plan_inv_step:
  assumes pi: "plan_inv e c w m xs s0 (p, s)" "go p" and st: "step_extends e c w m g (p, s) (p', s')"
    and g: "resource g \<notin> resource ` set xs" and fresh: "fresh_ids e c (length xs + 1) s0"
  shows "plan_inv e c w m (xs @ [g]) s0 (p', s')"
proof -
  obtain A where A: "grown e c w 1 A s s'" "adds p' = adds p @ A" "memory s = [] \<longrightarrow> go p'"
    "go p' \<longrightarrow> (\<exists>D U. deletes p' = deletes p @ D \<and> updates p' = updates p @ U \<and> step_result e m g D U A)"
    using st by (auto simp: step_extends_def)
  have gr: "grown e c w (length (xs @ [g])) (adds p') s0 s'" using grown_trans [OF fresh _ A(1)] pi(1) A(2) by (simp add: plan_inv_def)
  have mem: "memory s0 = [] \<longrightarrow> go p'" using A(3) pi(1) by (auto simp: plan_inv_def grown_def)
  have old: "set (deletes p) \<subseteq> resource ` set xs" "fst ` set (updates p) \<subseteq> resource ` set xs" "distinct (List.map fst (updates p))"
    "\<forall>n \<in> set (adds p). grab_ok n" "\<forall>g \<in> set xs. grab_ok (updated (updates p) g)"
    "grants e (adds p) \<union> grants e (List.map (updated (updates p)) (filter (\<lambda>g. resource g \<notin> set (deletes p)) xs)) = grants e xs - taken e m"
    using pi by (simp_all add: plan_inv_def)
  show ?thesis
  proof (cases "go p'")
    case False
    then show ?thesis using gr mem by (simp add: plan_inv_def)
  next
    case True
    then obtain D U where DU: "deletes p' = deletes p @ D" "updates p' = updates p @ U" "step_result e m g D U A" using A(4) by blast
    then have D: "set D \<subseteq> {resource g}" and U: "U = [] \<or> (\<exists>f k. U = [(resource g, f, k)])" and ok: "grab_ok (updated U g)" "\<forall>n \<in> set A. grab_ok n"
      and gr_g: "grants e A \<union> (if D = [] then grants e [updated U g] else {}) = grants e [g] - taken e m"
      by (simp_all add: step_result_def)
    have g_new: "resource g \<notin> fst ` set (updates p)" "resource g \<notin> set (deletes p)" using old(1,2) g by auto
    have upd_g: "updated (updates p') g = updated U g" unfolding DU(2) by (rule updated_append(2) [OF g_new(1)])
    have upd_x: "updated (updates p') h = updated (updates p) h" if "h \<in> set xs" for h
      unfolding DU(2) by (rule updated_append(1) [OF U]) (use that g in \<open>metis imageI\<close>)
    have kept: "List.map (updated (updates p')) (filter (\<lambda>h. resource h \<notin> set (deletes p')) xs)
        = List.map (updated (updates p)) (filter (\<lambda>h. resource h \<notin> set (deletes p)) xs)"
    proof -
      have "filter (\<lambda>h. resource h \<notin> set (deletes p')) xs = filter (\<lambda>h. resource h \<notin> set (deletes p)) xs"
        by (rule filter_cong [OF refl]) (use D DU(1) g in \<open>force simp: image_iff\<close>)
      then show ?thesis using upd_x by simp
    qed
    have last: "List.map (updated (updates p')) (filter (\<lambda>h. resource h \<notin> set (deletes p')) [g]) = (if D = [] then [updated U g] else [])"
      using D DU(1) g_new(2) upd_g by (cases D) auto
    have "grants e (adds p') \<union> grants e (List.map (updated (updates p')) (filter (\<lambda>h. resource h \<notin> set (deletes p')) (xs @ [g])))
        = (grants e (adds p) \<union> grants e (List.map (updated (updates p)) (filter (\<lambda>g. resource g \<notin> set (deletes p)) xs)))
          \<union> (grants e A \<union> (if D = [] then grants e [updated U g] else {}))"
      unfolding filter_append map_append kept last A(2) by (simp only: grants_append(2)) (auto simp del: grants_append(3))
    then have "grants e (adds p') \<union> grants e (List.map (updated (updates p')) (filter (\<lambda>h. resource h \<notin> set (deletes p')) (xs @ [g])))
        = (grants e xs - taken e m) \<union> (grants e [g] - taken e m)" unfolding old(6) gr_g .
    then have grants: "grants e (adds p') \<union> grants e (List.map (updated (updates p')) (filter (\<lambda>h. resource h \<notin> set (deletes p')) (xs @ [g])))
        = grants e (xs @ [g]) - taken e m" by auto
    have "distinct (List.map fst (updates p'))" using old(3) g_new(1) U DU(2) by (force simp: image_iff)
    moreover have "set (deletes p') \<subseteq> resource ` set (xs @ [g])" using old(1) D DU(1) by auto
    moreover have "fst ` set (updates p') \<subseteq> resource ` set (xs @ [g])" using old(2) U DU(2) by auto
    moreover have "\<forall>n \<in> set (adds p'). grab_ok n" using old(4) ok(2) A(2) by auto
    moreover have "\<forall>h \<in> set (xs @ [g]). grab_ok (updated (updates p') h)" using old(5) ok(1) upd_g upd_x by simp
    ultimately show ?thesis using gr mem grants by (simp add: plan_inv_def)
  qed
qed

lemma plan_loop_ok:
  assumes "plan_inv e c w m xs s0 (p, s)" "distinct (List.map resource (xs @ ys))" "\<forall>g \<in> set ys. grab_ok g \<and> window g = w"
    and inv: "grab_inv s0" and fresh: "fresh_ids e c (length (xs @ ys)) s0" and m: "c = grab_client e m" "grab_ok m" "plain m"
      "grabtype m = XI2 \<longrightarrow> exact (detail m) = AnyKey \<or> exact (modifiersDetail m) = any_modifier m"
  shows "\<exists>ps'. plan_loop e m ys (p, s) = Some ps' \<and> plan_inv e c w m (xs @ ys) s0 ps'"
  using assms(1-3) fresh
proof (induction ys arbitrary: xs p s)
  case (Cons g ys)
  show ?case
  proof (cases "go p")
    case False
    then show ?thesis using Cons.prems(1) grown_mono [of e c w "length xs"] by (simp add: plan_inv_def)
  next
    case True
    have gr: "grown e c w (length xs) (adds p) s0 s" using Cons.prems(1) by (simp add: plan_inv_def)
    have fresh1: "fresh_ids e c (length xs + 1) s0" using fresh_less [OF Cons.prems(4)] by simp
    have ids: "resource ` set (adds p) \<subseteq> fake_id e c ` {ids_used s0 ..< ids_used s0 + length xs}" using gr by (fastforce simp: grown_def)
    have inv': "grab_inv s" unfolding grab_inv_def
    proof (intro allI conjI ballI)
      fix v g assume "g \<in> set (passiveGrabs s v)"
      then have "window g = v \<and> grab_resources s0 (resource g) = Some v \<and> grab_ok g" using inv gr by (simp add: grab_inv_def grown_def)
      moreover have "resource g \<notin> resource ` set (adds p)"
        using calculation ids fresh1 by (fastforce simp: fresh_ids_def)
      ultimately show "window g = v" "grab_resources s (resource g) = Some v" "grab_ok g" using gr by (simp_all add: grown_def)
    qed (use inv gr in \<open>simp add: grab_inv_def grown_def\<close>)
    obtain p1 s1 where st: "plan_step e m g (p, s) = Some (p1, s1)" "step_extends e c w m g (p, s) (p1, s1)"
      using plan_step_ok [OF True inv' fresh_grown [OF gr fresh1] m(1) _ _ m(2-4), of g w] Cons.prems(3) by auto
    have "plan_inv e c w m (xs @ [g]) s0 (p1, s1)"
      by (rule plan_inv_step [OF Cons.prems(1) True st(2) _ fresh1]) (use Cons.prems(2) in auto)
    from Cons.IH [OF this] Cons.prems(2-4) show ?thesis using True st(1) by simp
  qed
qed simp

end
