(* ===== verification/PassiveGrabs.thy ===== *)
theory PassiveGrabs
  imports GrabLaws
begin

text \<open>
  The two operations on the list of passive grabs of a window as a whole (dix/grabs.c): \<open>DeletePassiveGrabFromList\<close> and
  \<open>AddPassiveGrabToList\<close>.
\<close>

subsection \<open>Carrying out the plan\<close>

lemma unlink_filter: "distinct (List.map resource gs) \<Longrightarrow> unlink_grab i gs = filter (\<lambda>g. resource g \<noteq> i) gs"
proof (induction gs)
  case (Cons g gs)
  then show ?case by (auto simp: image_iff intro!: filter_True [symmetric])
qed simp

lemma distinct_filter_map: "distinct (List.map f xs) \<Longrightarrow> distinct (List.map f (filter P xs))"
  by (induction xs) auto

lemma free_fold:
  assumes "\<forall>g \<in> set L. window g = w" "distinct (List.map resource (passiveGrabs s w))"
  shows "passiveGrabs (fold (FreeGrabResource e) L s) =
      (passiveGrabs s)(w := filter (\<lambda>g. resource g \<notin> resource ` set L) (passiveGrabs s w))"
    and "grab_resources (fold (FreeGrabResource e) L s) = (\<lambda>i. if i \<in> resource ` set L then None else grab_resources s i)"
    and "cursor_refs (fold (FreeGrabResource e) L s) x = cursor_refs s x - n_refs x L"
    and "memory (fold (FreeGrabResource e) L s) = memory s" "ids_used (fold (FreeGrabResource e) L s) = ids_used s"
proof -
  have "passiveGrabs (fold (FreeGrabResource e) L s) =
      (passiveGrabs s)(w := filter (\<lambda>g. resource g \<notin> resource ` set L) (passiveGrabs s w))
    \<and> grab_resources (fold (FreeGrabResource e) L s) = (\<lambda>i. if i \<in> resource ` set L then None else grab_resources s i)
    \<and> cursor_refs (fold (FreeGrabResource e) L s) x = cursor_refs s x - n_refs x L
    \<and> memory (fold (FreeGrabResource e) L s) = memory s \<and> ids_used (fold (FreeGrabResource e) L s) = ids_used s"
    using assms
  proof (induction L arbitrary: s)
    case (Cons g L)
    let ?s = "FreeGrabResource e g s"
    have s1: "passiveGrabs ?s = (passiveGrabs s)(w := filter (\<lambda>h. resource h \<noteq> resource g) (passiveGrabs s w))"
      "grab_resources ?s = (grab_resources s)(resource g := None)"
      "cursor_refs ?s x = cursor_refs s x - (if cursor g = Some x then 1 else 0)" "memory ?s = memory s" "ids_used ?s = ids_used s"
      using Cons.prems by (simp_all add: FreeGrabResource_def DeletePassiveGrab_def Let_def FreeGrab_def refs_update unlink_filter)
    have "distinct (List.map resource (passiveGrabs ?s w))" using Cons.prems(2) by (simp add: s1 distinct_filter_map)
    note IH = Cons.IH [OF _ this]
    have "filter (\<lambda>h. resource h \<notin> resource ` set L) (filter (\<lambda>h. resource h \<noteq> resource g) (passiveGrabs s w)) =
        filter (\<lambda>h. resource h \<notin> resource ` set (g # L)) (passiveGrabs s w)" by (auto simp: filter_filter intro: filter_cong)
    then show ?case using IH Cons.prems(1) by (auto simp: s1 fun_eq_iff)
  qed simp
  then show "passiveGrabs (fold (FreeGrabResource e) L s) =
      (passiveGrabs s)(w := filter (\<lambda>g. resource g \<notin> resource ` set L) (passiveGrabs s w))"
    "grab_resources (fold (FreeGrabResource e) L s) = (\<lambda>i. if i \<in> resource ` set L then None else grab_resources s i)"
    "cursor_refs (fold (FreeGrabResource e) L s) x = cursor_refs s x - n_refs x L"
    "memory (fold (FreeGrabResource e) L s) = memory s" "ids_used (fold (FreeGrabResource e) L s) = ids_used s" by simp_all
qed

lemma push_fold:
  "\<forall>g \<in> set A. window g = w \<Longrightarrow> fold push_grab A s = s\<lparr>passiveGrabs := (passiveGrabs s)(w := rev A @ passiveGrabs s w)\<rparr>"
proof (induction A arbitrary: s)
  case (Cons g A)
  let ?s = "s\<lparr>passiveGrabs := (passiveGrabs s)(w := g # passiveGrabs s w)\<rparr>"
  have "fold push_grab (g # A) s = fold push_grab A ?s" using Cons.prems by (simp add: push_grab_def)
  also have "\<dots> = ?s\<lparr>passiveGrabs := (passiveGrabs ?s)(w := rev A @ passiveGrabs ?s w)\<rparr>"
    by (rule Cons.IH) (use Cons.prems in simp)
  finally show ?case by (simp del: fun_upd_apply add: fun_upd_same)
qed simp

lemma update_fold:
  assumes "distinct (List.map fst U)"
  shows "fold (apply_update w) U s = s\<lparr>passiveGrabs := (passiveGrabs s)(w := List.map (updated U) (passiveGrabs s w))\<rparr>"
  using assms
proof (induction U arbitrary: s)
  case (Cons u U)
  obtain i fld k where u: "u = (i, fld, k)" by (cases u)
  have "updated U (if resource g = i then set_mask fld k g else g) = updated (u # U) g" for g
    using Cons.prems u by (auto simp: updated_def map_of_eq_None_iff [THEN iffD2] split: option.splits dest: map_of_SomeD)
  then have "updated U \<circ> (\<lambda>g. if resource g = i then set_mask fld k g else g) = updated (u # U)" by auto
  then have step: "List.map (updated U) (List.map (\<lambda>g. if resource g = i then set_mask fld k g else g) gs) = List.map (updated (u # U)) gs" for gs
    by simp
  let ?s = "s\<lparr>passiveGrabs := (passiveGrabs s)(w := List.map (\<lambda>g. if resource g = i then set_mask fld k g else g) (passiveGrabs s w))\<rparr>"
  have "fold (apply_update w) (u # U) s = fold (apply_update w) U ?s" by (simp add: apply_update_def u)
  also have "\<dots> = ?s\<lparr>passiveGrabs := (passiveGrabs ?s)(w := List.map (updated U) (passiveGrabs ?s w))\<rparr>"
    by (rule Cons.IH) (use Cons.prems in simp)
  finally show ?case by (simp add: step fun_upd_same del: fun_upd_apply map_map)
next
  case Nil
  have "updated [] = (\<lambda>g. g)" by (auto simp: updated_def)
  then show ?case by simp
qed

lemma finish_failed:
  assumes "grab_inv s0" "fresh_ids e c (length gs) s0" "plan_inv e c w m gs s0 (p, s)" "\<not> go p"
  shows "passiveGrabs (finish_plan e w gs p s) = passiveGrabs s0" "grab_resources (finish_plan e w gs p s) = grab_resources s0"
    "cursor_refs (finish_plan e w gs p s) x = cursor_refs s0 x"
proof -
  have gr: "grown e c w (length gs) (adds p) s0 s" using assms(3) by (simp add: plan_inv_def)
  then have A: "\<forall>g \<in> set (adds p). window g = w" and pg: "passiveGrabs s = passiveGrabs s0"
    and ids: "resource ` set (adds p) \<subseteq> fake_id e c ` {ids_used s0 ..< ids_used s}" "ids_used s \<le> ids_used s0 + length gs"
    and res: "grab_resources s i = (if i \<in> resource ` set (adds p) then Some w else grab_resources s0 i)"
    and refs: "cursor_refs s x = cursor_refs s0 x + n_refs x (adds p)" for i
    by (simp_all add: grown_def)
  have fresh: "grab_resources s0 i = None" if "i \<in> resource ` set (adds p)" for i
  proof -
    obtain n where "i = fake_id e c n" "n \<in> {ids_used s0 ..< ids_used s0 + length gs}" using ids \<open>i \<in> _\<close> by fastforce
    then show ?thesis using assms(2) by (simp add: fresh_ids_def)
  qed
  have dist: "distinct (List.map resource (passiveGrabs s w))" using assms(1) pg by (simp add: grab_inv_def)
  note f = free_fold [OF A dist, of e]
  have "resource g \<notin> resource ` set (adds p)" if "g \<in> set (passiveGrabs s0 w)" for g
    using fresh [of "resource g"] that assms(1) by (auto simp: grab_inv_def)
  then have "filter (\<lambda>g. resource g \<notin> resource ` set (adds p)) (passiveGrabs s0 w) = passiveGrabs s0 w" by simp
  then show "passiveGrabs (finish_plan e w gs p s) = passiveGrabs s0" using assms(4) by (simp add: finish_plan_def f pg)
  show "grab_resources (finish_plan e w gs p s) = grab_resources s0"
    using assms(4) fresh by (auto simp: finish_plan_def f res fun_eq_iff)
  show "cursor_refs (finish_plan e w gs p s) x = cursor_refs s0 x"
    using assms(4) by (simp add: finish_plan_def f refs)
qed

lemma finish_done:
  assumes inv: "grab_inv s0" and fresh: "fresh_ids e c (length (passiveGrabs s0 w)) s0" and pi: "plan_inv e c w m (passiveGrabs s0 w) s0 (p, s)" and go: "go p"
  defines "s' \<equiv> finish_plan e w (passiveGrabs s0 w) p s" and "L \<equiv> filter (\<lambda>g. resource g \<in> set (deletes p)) (passiveGrabs s0 w)"
  shows "passiveGrabs s' = (passiveGrabs s0)(w := rev (adds p) @
      List.map (updated (updates p)) (filter (\<lambda>g. resource g \<notin> set (deletes p)) (passiveGrabs s0 w)))"
    and "grab_resources s' i = (if i \<in> resource ` set L then None else if i \<in> resource ` set (adds p) then Some w else grab_resources s0 i)"
    and "cursor_refs s' x = cursor_refs s0 x + n_refs x (adds p) - n_refs x L"
    and "memory s0 = [] \<longrightarrow> memory s' = []"
proof -
  have gr: "grown e c w (length (passiveGrabs s0 w)) (adds p) s0 s" using pi by (simp add: plan_inv_def)
  then have A: "\<forall>g \<in> set (adds p). window g = w" and pg: "passiveGrabs s = passiveGrabs s0" by (simp_all add: grown_def)
  have U: "distinct (List.map fst (updates p))" "fst ` set (updates p) \<subseteq> resource ` set (passiveGrabs s0 w)"
    using pi go by (simp_all add: plan_inv_def)
  have L: "\<forall>g \<in> set L. window g = w" using inv by (auto simp: L_def grab_inv_def)
  have dist: "distinct (List.map resource (passiveGrabs s w))" using inv pg by (simp add: grab_inv_def)
  note f = free_fold [OF L dist, of e]
  have s': "s' = (fold (FreeGrabResource e) L s)\<lparr>passiveGrabs := (passiveGrabs s0)(w := List.map (updated (updates p))
      (rev (adds p) @ filter (\<lambda>g. resource g \<notin> resource ` set L) (passiveGrabs s0 w)))\<rparr>"
    unfolding s'_def finish_plan_def using go
    by (simp add: push_fold [OF A] update_fold [OF U(1)] f(1) pg L_def [symmetric] fun_upd_same del: fun_upd_apply)
  have "resource n \<notin> fst ` set (updates p)" if "n \<in> set (adds p)" for n
  proof
    assume "resource n \<in> fst ` set (updates p)"
    then have "grab_resources s0 (resource n) = Some w" using U(2) inv by (auto simp: grab_inv_def)
    moreover have "resource n \<in> fake_id e c ` {ids_used s0 ..< ids_used s0 + length (passiveGrabs s0 w)}" using gr that by (fastforce simp: grown_def)
    ultimately show False using fresh by (auto simp: fresh_ids_def)
  qed
  then have "updated (updates p) n = n" if "n \<in> set (adds p)" for n
    using that by (auto simp: updated_def split: option.splits dest: map_of_SomeD) (metis fst_conv image_eqI map_of_SomeD)
  then have A': "List.map (updated (updates p)) (rev (adds p)) = rev (adds p)" by (intro map_idI) simp
  have keep: "filter (\<lambda>g. resource g \<notin> resource ` set L) (passiveGrabs s0 w) = filter (\<lambda>g. resource g \<notin> set (deletes p)) (passiveGrabs s0 w)"
    by (rule filter_cong [OF refl]) (auto simp: L_def image_iff)
  show "passiveGrabs s' = (passiveGrabs s0)(w := rev (adds p) @
      List.map (updated (updates p)) (filter (\<lambda>g. resource g \<notin> set (deletes p)) (passiveGrabs s0 w)))"
    unfolding s' keep by (simp add: A')
  show "grab_resources s' i = (if i \<in> resource ` set L then None else if i \<in> resource ` set (adds p) then Some w else grab_resources s0 i)"
    using gr by (simp add: s' f(2) grown_def)
  show "cursor_refs s' x = cursor_refs s0 x + n_refs x (adds p) - n_refs x L"
    using gr by (simp add: s' f(3) grown_def)
  show "memory s0 = [] \<longrightarrow> memory s' = []" using gr by (simp add: s' f(4) grown_def)
qed

subsection \<open>Taking out a grab\<close>

lemma n_refs_split: "n_refs x gs = n_refs x (filter P gs) + n_refs x (filter (\<lambda>g. \<not> P g) gs)"
  by (induction gs) auto

lemma grab_inv_grown_nil: "grown e c w 0 [] s s' \<Longrightarrow> grab_inv s \<Longrightarrow> grab_inv s'"
  by (simp add: grown_def grab_inv_def)

lemma grab_inv_done:
  assumes inv: "grab_inv s0" and fresh: "fresh_ids e c (length (passiveGrabs s0 w)) s0" and pi: "plan_inv e c w m (passiveGrabs s0 w) s0 (p, s)" and go: "go p"
  shows "grab_inv (finish_plan e w (passiveGrabs s0 w) p s)"
proof -
  define L where "L = filter (\<lambda>g. resource g \<in> set (deletes p)) (passiveGrabs s0 w)"
  define K where "K = filter (\<lambda>g. resource g \<notin> set (deletes p)) (passiveGrabs s0 w)"
  let ?s = "finish_plan e w (passiveGrabs s0 w) p s"
  note fd = finish_done [OF inv fresh pi go, folded L_def K_def]
  have gr: "grown e c w (length (passiveGrabs s0 w)) (adds p) s0 s" using pi by (simp add: plan_inv_def)
  then have A: "\<forall>n \<in> set (adds p). window n = w" "distinct (List.map resource (adds p))" by (simp_all add: grown_def)
  have ids: "resource ` set (adds p) \<subseteq> fake_id e c ` {ids_used s0 ..< ids_used s0 + length (passiveGrabs s0 w)}"
    using gr by (fastforce simp: grown_def)
  have unlisted: "resource n \<notin> resource ` set (passiveGrabs s0 v)" if "n \<in> set (adds p)" for n v
  proof -
    obtain k where "resource n = fake_id e c k" "k \<in> {ids_used s0 ..< ids_used s0 + length (passiveGrabs s0 w)}"
      using \<open>n \<in> set (adds p)\<close> ids by (fastforce simp: image_subset_iff)
    then show ?thesis using fake_id_unlisted [OF inv fresh] by simp
  qed
  have listed: "window g = v" "grab_resources s0 (resource g) = Some v" "grab_ok g" if "g \<in> set (passiveGrabs s0 v)" for g v
    using inv that by (auto simp: grab_inv_def)
  have dist: "distinct (List.map resource (passiveGrabs s0 v))" for v using inv by (simp add: grab_inv_def)
  have res: "grab_resources ?s (resource g) = Some v" if "g \<in> set (passiveGrabs s0 v)" "v \<noteq> w \<or> resource g \<notin> set (deletes p)" for g v
  proof -
    have "resource g \<notin> resource ` set L"
    proof
      assume "resource g \<in> resource ` set L"
      then obtain x where "x \<in> set (passiveGrabs s0 w)" "resource x = resource g" "resource g \<in> set (deletes p)" by (auto simp: L_def)
      then show False using that listed(2) [of x w] listed(2) [of g v] by simp
    qed
    moreover have "resource g \<notin> resource ` set (adds p)" using unlisted that(1) by (metis imageE imageI)
    ultimately show ?thesis using fd(2) listed(2) [OF that(1)] by simp
  qed
  show ?thesis unfolding grab_inv_def
  proof (intro allI conjI ballI)
    fix v
    show "distinct (List.map resource (passiveGrabs ?s v))"
    proof (cases "v = w")
      case True
      have "resource ` set (adds p) \<inter> resource ` set K = {}" using unlisted by (force simp: K_def)
      moreover have "distinct (List.map resource K)" unfolding K_def by (rule distinct_filter_map [OF dist])
      ultimately show ?thesis using True A(2) by (simp add: fd(1) rev_map [symmetric] comp_def)
    qed (simp add: fd(1) dist)
    fix g assume g: "g \<in> set (passiveGrabs ?s v)"
    consider (other) "v \<noteq> w" "g \<in> set (passiveGrabs s0 v)" | (new) "v = w" "g \<in> set (adds p)"
      | (kept) h where "v = w" "h \<in> set K" "g = updated (updates p) h"
      using g by (cases "v = w") (auto simp: fd(1))
    then show "window g = v" "grab_resources ?s (resource g) = Some v" "grab_ok g"
    proof (atomize(full), cases)
      case other
      then show "window g = v \<and> grab_resources ?s (resource g) = Some v \<and> grab_ok g" using listed res by simp
    next
      case new
      have "resource g \<notin> resource ` set L" using unlisted [OF new(2), of w] by (auto simp: L_def)
      moreover have "grab_ok g" using pi go new(2) by (simp add: plan_inv_def)
      ultimately show "window g = v \<and> grab_resources ?s (resource g) = Some v \<and> grab_ok g" using new A(1) fd(2) by simp
    next
      case kept
      then have h: "h \<in> set (passiveGrabs s0 w)" "resource h \<notin> set (deletes p)" by (auto simp: K_def)
      have "grab_ok g" using pi go h(1) kept(3) by (simp add: plan_inv_def)
      then show "window g = v \<and> grab_resources ?s (resource g) = Some v \<and> grab_ok g" using res [OF h(1)] h kept listed(1) [OF h(1)] by simp
    qed
  qed
qed

lemma delete_effect:
  assumes inv: "grab_inv s" and fresh: "fresh_ids e (grab_client e m) (length (passiveGrabs s (window m))) s" and m: "grab_ok m" "plain m"
    "grabtype m = XI2 \<longrightarrow> exact (detail m) = AnyKey \<or> exact (modifiersDetail m) = any_modifier m"
  shows "\<exists>ok s'. DeletePassiveGrabFromList e m s = Some (ok, s') \<and> grab_inv s' \<and> (memory s = [] \<longrightarrow> ok)
    \<and> (if ok then grants e (passiveGrabs s' (window m)) = grants e (passiveGrabs s (window m)) - taken e m
         \<and> (\<forall>v. v \<noteq> window m \<longrightarrow> passiveGrabs s' v = passiveGrabs s v)
       else passiveGrabs s' = passiveGrabs s \<and> grab_resources s' = grab_resources s)
    \<and> (\<forall>x. cursor_refs s' x - n_refs x (passiveGrabs s' (window m)) = cursor_refs s x - n_refs x (passiveGrabs s (window m)))
    \<and> (\<forall>i. grab_resources s' i \<noteq> None \<longrightarrow> grab_resources s i \<noteq> None \<or> i \<in> fake_id e (grab_client e m) ` {ids_used s ..< ids_used s + length (passiveGrabs s (window m))})
    \<and> (memory s = [] \<longrightarrow> memory s' = [])"
proof -
  let ?c = "grab_client e m" and ?w = "window m" and ?gs = "passiveGrabs s (window m)"
  obtain a1 s1 a2 s2 a3 s3 a4 s4 where a: "galloc s = (a1, s1)" "galloc s1 = (a2, s2)" "galloc s2 = (a3, s3)" "galloc s3 = (a4, s4)"
    by (metis surj_pair)
  have gr: "grown e ?c ?w 0 [] s s4" "memory s = [] \<longrightarrow> a1 \<and> a2 \<and> a3 \<and> a4"
    using galloc_grown [OF a(1), of e ?c ?w] galloc_grown [OF a(2), of e ?c ?w] galloc_grown [OF a(3), of e ?c ?w] galloc_grown [OF a(4), of e ?c ?w]
    by (auto simp: grown_def)
  show ?thesis
  proof (cases "?gs = []")
    case True
    then show ?thesis using inv by (intro exI [of _ True] exI [of _ s]) (simp add: DeletePassiveGrabFromList_def)
  next
    case ne: False
    show ?thesis
    proof (cases "a1 \<and> a2 \<and> a3 \<and> a4")
      case False
      then have "DeletePassiveGrabFromList e m s = Some (False, s4)" using ne a by (auto simp: DeletePassiveGrabFromList_def Let_def)
      then show ?thesis using grab_inv_grown_nil [OF gr(1) inv] gr False by (auto simp: grown_def)
    next
      case True
      have inv4: "grab_inv s4" and gs: "passiveGrabs s4 = passiveGrabs s" and fresh4: "fresh_ids e ?c (length ?gs) s4"
        using grab_inv_grown_nil [OF gr(1) inv] gr(1) fresh_grown [OF gr(1), of "length ?gs"] fresh by (simp_all add: grown_def)
      note fresh4' = fresh4 [folded gs]
      have st: "plan_inv e ?c ?w m [] s4 (\<lparr>go = True, deletes = [], adds = [], updates = []\<rparr>, s4)" by (simp add: plan_inv_def)
      have ok: "distinct (List.map resource ([] @ ?gs))" "\<forall>g \<in> set ?gs. grab_ok g \<and> window g = ?w" using inv by (auto simp: grab_inv_def)
      obtain p s5 where p: "plan_loop e m ?gs (\<lparr>go = True, deletes = [], adds = [], updates = []\<rparr>, s4) = Some (p, s5)"
        "plan_inv e ?c ?w m (passiveGrabs s4 ?w) s4 (p, s5)"
        using plan_loop_ok [OF st ok inv4 _ refl m] fresh4 gs by (metis append_Nil surj_pair)
      let ?s' = "finish_plan e ?w ?gs p s5"
      have run: "DeletePassiveGrabFromList e m s = Some (go p, ?s')" using ne True a p(1) by (simp add: DeletePassiveGrabFromList_def Let_def)
      have base: "grab_resources s4 = grab_resources s" "cursor_refs s4 = cursor_refs s" "memory s = [] \<longrightarrow> memory s4 = []"
        using gr(1) by (auto simp: grown_def fun_eq_iff)
      show ?thesis
      proof (cases "go p")
        case False
        note ff = finish_failed [OF inv4 fresh4' p(2) False, unfolded gs base]
        have "grab_inv ?s'" using inv ff by (simp add: grab_inv_def)
        moreover have "memory s \<noteq> []" using p(2) False base(3) by (auto simp: plan_inv_def)
        ultimately show ?thesis using run False ff by (intro exI [of _ False] exI [of _ ?s']) simp
      next
        case go: True
        note fd = finish_done [OF inv4 fresh4' p(2) go, unfolded gs base]
        define L where "L = filter (\<lambda>g. resource g \<in> set (deletes p)) ?gs"
        define K where "K = filter (\<lambda>g. resource g \<notin> set (deletes p)) ?gs"
        have lists: "passiveGrabs ?s' ?w = rev (adds p) @ List.map (updated (updates p)) K" "\<forall>v. v \<noteq> ?w \<longrightarrow> passiveGrabs ?s' v = passiveGrabs s v"
          using fd(1) by (simp_all add: K_def)
        have "grants e (rev xs) = grants e xs" for xs by (simp add: grants_def)
        then have "grants e (passiveGrabs ?s' ?w) = grants e ?gs - taken e m"
          using p(2) go gs by (simp add: lists plan_inv_def K_def)
        moreover have "cursor_refs ?s' x - n_refs x (passiveGrabs ?s' ?w) = cursor_refs s x - n_refs x ?gs" for x
        proof -
          have "n_refs x (rev xs) = n_refs x xs" "n_refs x (List.map (updated U) xs) = n_refs x xs" for xs U
            by (simp_all add: n_refs_def rev_filter [symmetric] filter_map comp_def)
          then show ?thesis using fd(3) n_refs_split [of x ?gs "\<lambda>g. resource g \<in> set (deletes p)"] by (simp add: lists K_def)
        qed
        moreover have "grab_inv ?s'" using grab_inv_done [OF inv4 fresh4' p(2) go] gs by simp
        moreover have "grab_resources s i \<noteq> None \<or> i \<in> fake_id e ?c ` {ids_used s ..< ids_used s + length ?gs}" if "grab_resources ?s' i \<noteq> None" for i
        proof (cases "i \<in> resource ` set (adds p)")
          case True
          have "resource ` set (adds p) \<subseteq> fake_id e ?c ` {ids_used s4 ..< ids_used s5}" "ids_used s = ids_used s4"
            "ids_used s5 \<le> ids_used s4 + length ?gs"
            using p(2) gr(1) gs by (auto simp: plan_inv_def grown_def)
          then show ?thesis using True by fastforce
        qed (use that fd(2) [of i] in \<open>auto split: if_splits\<close>)
        moreover have "memory s = [] \<longrightarrow> memory ?s' = []" using fd(4) base(3) by simp
        ultimately show ?thesis using run go lists(2) by (intro exI [of _ True] exI [of _ ?s']) simp
      qed
    qed
  qed
qed

text \<open>C6. Taking a grab out of the list of its window (an ungrab request, or a new grab that replaces an equal one) returns. When it
  succeeds, the grabs of the client lose exactly the combinations of key (or button) and modifiers of that grab, for the same device and event
  type, and keep all others with the same terms, also where a grab of every key and modifier has to be split in two; when memory runs out it fails and
  nothing has changed. Lists and resource table still agree, and the cursors' reference counts follow the list. The arguments have no
  exception masks and details below 256, as those of requests; for XInput 2 the grab is not one of a single key and single modifiers.\<close>

theorem DeletePassiveGrabFromList_removes:
  assumes inv: "grab_inv s" and fresh: "fresh_ids e (grab_client e m) (length (passiveGrabs s (window m))) s" and m: "grab_ok m" "plain m"
    "grabtype m = XI2 \<longrightarrow> exact (detail m) = AnyKey \<or> exact (modifiersDetail m) = any_modifier m"
  shows "\<exists>ok s'. DeletePassiveGrabFromList e m s = Some (ok, s') \<and> grab_inv s' \<and> (memory s = [] \<longrightarrow> ok)
    \<and> (if ok then grants e (passiveGrabs s' (window m)) = grants e (passiveGrabs s (window m)) - taken e m
         \<and> (\<forall>v. v \<noteq> window m \<longrightarrow> passiveGrabs s' v = passiveGrabs s v)
       else passiveGrabs s' = passiveGrabs s \<and> grab_resources s' = grab_resources s)
    \<and> (\<forall>x. cursor_refs s' x - n_refs x (passiveGrabs s' (window m)) = cursor_refs s x - n_refs x (passiveGrabs s (window m)))"
  using delete_effect [OF assms] by blast

text \<open>A client with a grab of every key and every modifier.\<close>

definition env0 :: grab_env where
  "env0 = \<lparr>g_lim = 256, all_devices = 0, all_master_devices = 1, InputDevIsMaster = (\<lambda>d. d = 2 \<or> d = 3),
     dixCallDeviceAccessCallback = (\<lambda>_ _ _. Success), fake_id = (\<lambda>c n. 0x40000000 + of_nat c * 0x200000 + of_nat n), optional_needed = (\<lambda>_. False)\<rparr>"

definition key_grab :: "xid \<Rightarrow> card32 \<Rightarrow> card32 \<Rightarrow> GrabRec" where
  "key_grab i k mo = zero_grab\<lparr>resource := i, device := 3, window := 0x400001, keyboardMode := 1, pointerMode := 1, type := 2,
     modifiersDetail := \<lparr>exact = mo, pMask = None\<rparr>, modifierDevice := 3, detail := \<lparr>exact = k, pMask = None\<rparr>, eventMask := 3\<rparr>"

definition grabs0 :: grab_state where
  "grabs0 = \<lparr>passiveGrabs = (\<lambda>w. if w = 0x400001 then [key_grab 0x40200001 AnyKey AnyModifier] else []),
     grab_resources = [0x40200001 \<mapsto> 0x400001], optional = (\<lambda>w. w = 0x400001), cursor_refs = (\<lambda>_. 0),
     ids_used = 2, memory = []\<rparr>"

lemma clients0:
  "dixClientIdForXID 256 0x40200001 = 1" "dixClientIdForXID 256 0x40200002 = 1" "dixClientIdForXID 256 0x200000 = 1"
  "dixClientIdForXID 256 0x40400001 = 2" "dixClientIdForXID 256 0x40400002 = 2"
  by code_simp+

lemma key_grab_ok:
  assumes "k < 256" "mo < 256 \<or> mo = AnyModifier"
  shows "grab_ok (key_grab i k mo)" "plain (key_grab i k mo)" "grabtype (key_grab i k mo) = CORE" "window (key_grab i k mo) = 0x400001"
  using assms by (auto simp: key_grab_def zero_grab_def grab_ok_def plain_def detail_ok_def any_modifier_def)

lemma grabs0_ok: "grab_inv grabs0" "fresh_ids env0 1 1 grabs0"
proof -
  show "grab_inv grabs0"
    using key_grab_ok [of AnyKey AnyModifier "0x40200001"] by (simp add: grab_inv_def grabs0_def AnyKey_def key_grab_def)
  have "{2 ..< 3 :: nat} = {2}" by auto
  then show "fresh_ids env0 1 1 grabs0" using clients0(2) by (simp add: fresh_ids_def grabs0_def env0_def)
qed

theorem DeletePassiveGrabFromList_removes_witness:
  "\<exists>s'. DeletePassiveGrabFromList env0 (key_grab 0x200000 38 4) grabs0 = Some (True, s') \<and> grab_inv s'
    \<and> grants env0 (passiveGrabs s' 0x400001) = grants env0 (passiveGrabs grabs0 0x400001) - taken env0 (key_grab 0x200000 38 4)"
proof -
  let ?m = "key_grab 0x200000 38 4"
  have m: "grab_ok ?m" "plain ?m" "grabtype ?m = XI2 \<longrightarrow> exact (detail ?m) = AnyKey \<or> exact (modifiersDetail ?m) = any_modifier ?m" "window ?m = 0x400001"
    using key_grab_ok [of 38 4 "0x200000"] by simp_all
  have "fresh_ids env0 (grab_client env0 ?m) (length (passiveGrabs grabs0 (window ?m))) grabs0"
    using grabs0_ok(2) m(4) by (simp add: grab_client_def env0_def [THEN arg_cong [of _ _ g_lim]] key_grab_def zero_grab_def clients0 grabs0_def)
  moreover have "memory grabs0 = []" by (simp add: grabs0_def)
  ultimately show ?thesis
    using DeletePassiveGrabFromList_removes [OF grabs0_ok(1) _ m(1-3), of env0] m(4) by (auto split: if_splits)
qed

text \<open>What goes wrong for XInput 2: the copy of a grab that is to be split takes the address of the core event mask for that of the
  mask pointer, which is null.\<close>

lemma xi2_split_faults:
  "\<exists>g m. grabtype m = XI2 \<and> grab_ok g \<and> grab_ok m \<and> plain m \<and>
     DeletePassiveGrabFromList env0 m (grabs0\<lparr>passiveGrabs := (\<lambda>w. if w = 0x400001 then [g] else [])\<rparr>) = None"
proof -
  let ?g = "(key_grab 0x40200001 XIAnyKeycode XIAnyModifier)\<lparr>grabtype := XI2, eventMask := 0\<rparr>" and ?m = "(key_grab 0x200000 38 4)\<lparr>grabtype := XI2\<rparr>"
  have "DeletePassiveGrabFromList env0 ?m (grabs0\<lparr>passiveGrabs := (\<lambda>w. if w = 0x400001 then [?g] else [])\<rparr>) = None"
    by code_simp
  moreover have "grabtype ?m = XI2 \<and> grab_ok ?g \<and> grab_ok ?m \<and> plain ?m"
    by (simp add: key_grab_def zero_grab_def grab_ok_def plain_def detail_ok_def any_modifier_def XIAnyKeycode_def AnyKey_def XIAnyModifier_def)
  ultimately show ?thesis by (intro exI [of _ ?g] exI [of _ ?m]) simp
qed

text \<open>Modifiers that are no combination of the eight modifier keys lead out of the mask.\<close>

lemma wide_modifiers_fault:
  "DeletePassiveGrabFromList env0 ((key_grab 0x200000 38 0x100)\<lparr>grabtype := XI2\<rparr>)
     (grabs0\<lparr>passiveGrabs := (\<lambda>w. if w = 0x400001 then [(key_grab 0x40200001 38 XIAnyModifier)\<lparr>grabtype := XI2, eventMask := 0\<rparr>] else [])\<rparr>) = None"
  by code_simp

subsection \<open>Adding a grab\<close>

definition conflicting :: "grab_env \<Rightarrow> GrabRec \<Rightarrow> GrabRec \<Rightarrow> bool" where
  "conflicting e g h \<longleftrightarrow> grab_client e g \<noteq> grab_client e h \<and> same_class e g h \<and> combos g \<inter> combos h \<noteq> {}"

lemma grab_conflict_ok:
  assumes "grab_ok g" "plain g" "\<forall>h \<in> set hs. grab_ok h \<and> combos h \<noteq> {}"
  shows "grab_conflict e g hs = Some (\<exists>h \<in> set hs. conflicting e g h)"
  using assms(3)
proof (induction hs)
  case (Cons h hs)
  have "GrabMatchesSecond e g h (grabtype g = CORE) = Some (same_class e g h \<and> combos g \<inter> combos h \<noteq> {})"
    by (rule matches_overlap) (use assms Cons.prems in auto)
  then show ?case using Cons by (auto simp: conflicting_def grab_client_def)
qed simp

definition identical :: "GrabRec \<Rightarrow> GrabRec \<Rightarrow> bool" where
  "identical a b \<longleftrightarrow> grabtype a = grabtype b \<and> device a = device b \<and> modifierDevice a = modifierDevice b \<and> type a = type b
     \<and> supersedes AnyKey (detail a) (detail b) \<and> supersedes AnyKey (detail b) (detail a)
     \<and> supersedes (any_modifier a) (modifiersDetail a) (modifiersDetail b) \<and> supersedes (any_modifier a) (modifiersDetail b) (modifiersDetail a)"

lemma GrabsAreIdentical_ok:
  assumes "grab_ok a" "grab_ok b"
  shows "GrabsAreIdentical a b = Some (identical a b)"
proof (cases "grabtype a = grabtype b")
  case True
  then have "detail_ok (any_modifier a) (modifiersDetail b)" "detail_ok (any_modifier a) (modifiersDetail a)"
    "detail_ok AnyKey (detail a)" "detail_ok AnyKey (detail b)"
    using assms same_class_any [OF True] by (simp_all add: grab_ok_def)
  then show ?thesis by (auto simp: GrabsAreIdentical_def identical_def and_then_def DetailSupersedesSecond_ok True)
qed (simp add: GrabsAreIdentical_def identical_def)

lemma identical_grab_ok:
  assumes "grab_ok g" "\<forall>h \<in> set hs. grab_ok h"
  shows "identical_grab g hs = Some (List.find (identical g) hs)"
  using assms by (induction hs) (simp_all add: GrabsAreIdentical_ok)

text \<open>An identical grab in the list has no exception masks either, so it covers the same combinations.\<close>

lemma mutual_supersedes:
  assumes "detail_ok any p" "pMask p = None" "detail_ok any d" "supersedes any p d" "supersedes any d p"
  shows "d = p"
proof -
  have "exact d = exact p \<and> pMask d = None"
  proof (cases "exact p = any")
    case True
    then have d: "exact d = any" "pMask d = None" using assms(5) by (auto simp: supersedes_def split: if_splits)
    then show ?thesis using True by simp
  next
    case False
    then have "exact d = exact p" using assms vals_exact [OF assms(1) False] by (auto simp: supersedes_def)
    then show ?thesis using False assms(3) by (simp add: detail_ok_def)
  qed
  then show ?thesis using assms(2) by simp
qed

lemma identical_same:
  assumes "grab_ok g" "plain g" "grab_ok h" "identical g h"
  shows "detail h = detail g" "modifiersDetail h = modifiersDetail g" "combos h = combos g" "plain h"
    "same_class e k h = same_class e k g" "same_class e g h"
proof -
  have gt: "grabtype g = grabtype h" using assms(4) by (simp add: identical_def)
  show d: "detail h = detail g" by (rule mutual_supersedes [of AnyKey]) (use assms in \<open>auto simp: grab_ok_def plain_def identical_def\<close>)
  show m: "modifiersDetail h = modifiersDetail g"
    by (rule mutual_supersedes [of "any_modifier g"]) (use assms same_class_any [OF gt] in \<open>auto simp: grab_ok_def plain_def identical_def\<close>)
  show "combos h = combos g" "plain h" using d m same_class_any [OF gt] assms(2) by (simp_all add: combos_def plain_def)
  show "same_class e k h = same_class e k g" "same_class e g h"
    using assms(4) by (auto simp: same_class_def devices_match_def identical_def)
qed

text \<open>Putting the new grab at the head of the list and registering it.\<close>

lemma install_grab:
  assumes inv: "grab_inv s" and g: "grab_ok g" and id: "grab_resources s (resource g) = None"
    and opt: "MakeWindowOptional (window g) s = (b, s1)" and add: "AddGrabResource e g (push_grab g s1) = (ok, s2)"
  shows "passiveGrabs s1 = passiveGrabs s" "grab_resources s1 = grab_resources s" "memory s = [] \<longrightarrow> b \<and> ok"
    and "grab_inv s2" "ok \<Longrightarrow> passiveGrabs s2 = (passiveGrabs s)(window g := g # passiveGrabs s (window g))"
proof -
  show s1: "passiveGrabs s1 = passiveGrabs s" "grab_resources s1 = grab_resources s"
    using opt by (auto simp: MakeWindowOptional_def galloc_def split: if_splits list.splits bool.splits)
  have mem: "memory s = [] \<longrightarrow> memory s1 = [] \<and> b"
    using opt by (auto simp: MakeWindowOptional_def galloc_def split: if_splits list.splits bool.splits)
  show "memory s = [] \<longrightarrow> b \<and> ok" using mem add by (auto simp: AddGrabResource_def galloc_def push_grab_def)
  have new: "resource g \<notin> resource ` set (passiveGrabs s v)" for v using inv id by (auto simp: grab_inv_def)
  obtain c s3 where c: "galloc (push_grab g s1) = (c, s3)" by fastforce
  then have s3: "passiveGrabs s3 = (passiveGrabs s)(window g := g # passiveGrabs s (window g))" "grab_resources s3 = grab_resources s"
    using s1 by (auto simp: galloc_def push_grab_def split: list.splits)
  have ok: "ok = c" "c \<Longrightarrow> s2 = s3\<lparr>grab_resources := (grab_resources s3)(resource g \<mapsto> window g)\<rparr>" "\<not> c \<Longrightarrow> s2 = DeletePassiveGrab e g s3"
    using add c by (auto simp: AddGrabResource_def split: bool.splits)
  show "ok \<Longrightarrow> passiveGrabs s2 = (passiveGrabs s)(window g := g # passiveGrabs s (window g))" using ok s3 by simp
  show "grab_inv s2"
  proof (cases c)
    case True
    have "resource h \<noteq> resource g" if "h \<in> set (passiveGrabs s v)" for h v using new [of v] that by (metis imageI)
    then show ?thesis using ok(2) [OF True] s3 inv g new by (auto simp: grab_inv_def)
  next
    case False
    have "passiveGrabs s2 = passiveGrabs s" "grab_resources s2 = grab_resources s"
      using ok(3) [OF False] s3 by (simp_all add: DeletePassiveGrab_def FreeGrab_def Let_def fun_eq_iff)
    then show ?thesis using inv by (simp add: grab_inv_def)
  qed
qed

lemma replace_identical:
  assumes inv: "grab_inv s" and g: "grab_ok g" "plain g" "grabtype g \<noteq> XI2"
    and fresh: "fresh_ids e (grab_client e g) (length (passiveGrabs s (window g))) s"
    and full: "\<forall>h \<in> set (passiveGrabs s (window g)). combos h \<noteq> {}" and free: "\<not> (\<exists>h \<in> set (passiveGrabs s (window g)). conflicting e g h)"
    and id: "grab_resources s (resource g) = None"
      "resource g \<notin> fake_id e (grab_client e g) ` {ids_used s ..< ids_used s + length (passiveGrabs s (window g))}"
  shows "\<exists>s1. Option.bind (identical_grab g (passiveGrabs s (window g)))
      (\<lambda>old. case old of None \<Rightarrow> Some s | Some h \<Rightarrow> map_option snd (DeletePassiveGrabFromList e h s)) = Some s1
    \<and> grab_inv s1 \<and> grab_resources s1 (resource g) = None \<and> (memory s = [] \<longrightarrow> memory s1 = []
      \<and> grants e (passiveGrabs s1 (window g)) = grants e (passiveGrabs s (window g)) -
          (if \<exists>h \<in> set (passiveGrabs s (window g)). identical g h then taken e g else {})
      \<and> (\<forall>v. v \<noteq> window g \<longrightarrow> passiveGrabs s1 v = passiveGrabs s v))"
proof -
  let ?hs = "passiveGrabs s (window g)"
  have hs: "\<forall>h \<in> set ?hs. grab_ok h" using inv by (simp add: grab_inv_def)
  show ?thesis
  proof (cases "List.find (identical g) ?hs")
    case None
    then have "\<not> (\<exists>h \<in> set ?hs. identical g h)" by (auto simp: find_None_iff)
    then show ?thesis using None inv id(1) by (simp add: identical_grab_ok [OF g(1) hs])
  next
    case (Some h)
    then have h: "h \<in> set ?hs" "identical g h" using find_Some_mem by fastforce+
    have ok: "grab_ok h" "window h = window g" using inv h(1) by (auto simp: grab_inv_def)
    note same = identical_same [OF g(1,2) ok(1) h(2)]
    have "combos h \<noteq> {}" using full h(1) by blast
    then have cl: "grab_client e h = grab_client e g" using free h(1) same(3,6) by (auto simp: conflicting_def)
    have gt: "grabtype h = XI2 \<longrightarrow> exact (detail h) = AnyKey \<or> exact (modifiersDetail h) = any_modifier h"
      using h(2) g(3) by (simp add: identical_def)
    have tk: "taken e h = taken e g" using cl same(3,5) by (simp add: taken_def)
    have fr: "fresh_ids e (grab_client e h) (length (passiveGrabs s (window h))) s" using fresh cl ok(2) by simp
    obtain b s1 where s1: "DeletePassiveGrabFromList e h s = Some (b, s1)" "grab_inv s1" "memory s = [] \<longrightarrow> b"
      "if b then grants e (passiveGrabs s1 (window h)) = grants e (passiveGrabs s (window h)) - taken e h
         \<and> (\<forall>v. v \<noteq> window h \<longrightarrow> passiveGrabs s1 v = passiveGrabs s v)
       else passiveGrabs s1 = passiveGrabs s \<and> grab_resources s1 = grab_resources s"
      "\<forall>i. grab_resources s1 i \<noteq> None \<longrightarrow> grab_resources s i \<noteq> None \<or> i \<in> fake_id e (grab_client e h) ` {ids_used s ..< ids_used s + length (passiveGrabs s (window h))}"
      "memory s = [] \<longrightarrow> memory s1 = []"
      using delete_effect [OF inv fr ok(1) same(4) gt] by blast
    have "grab_resources s1 (resource g) = None" using s1(5) id cl ok(2) by auto
    moreover have "\<exists>h \<in> set ?hs. identical g h" using h by blast
    ultimately show ?thesis using Some s1 tk ok(2) by (simp add: identical_grab_ok [OF g(1) hs] split: if_splits)
  qed
qed

text \<open>C25. A new grab of the core protocol or of XInput 1 is refused with \<open>BadAccess\<close>, and nothing changes, exactly when another client has a grab on the
  window for the same device and event type that shares a combination of key (or button) and modifiers with it. Otherwise, with the access hook's
  consent and memory, it succeeds: the list grants what it granted before, less what an identical earlier grab of the client granted, and the
  combinations of the new grab on its terms. Lists and resource table stay in agreement in every case. Grabs in the list still cover something.\<close>

theorem AddPassiveGrabToList_conflicts:
  assumes inv: "grab_inv s" and g: "grab_ok g" "plain g" "grabtype g \<noteq> XI2"
    and fresh: "fresh_ids e (grab_client e g) (length (passiveGrabs s (window g))) s"
    and full: "\<forall>h \<in> set (passiveGrabs s (window g)). combos h \<noteq> {}"
    and id: "grab_resources s (resource g) = None"
      "resource g \<notin> fake_id e (grab_client e g) ` {ids_used s ..< ids_used s + length (passiveGrabs s (window g))}"
  shows "\<exists>rc s'. AddPassiveGrabToList e client g s = Some (rc, s') \<and> grab_inv s'
    \<and> ((\<exists>h \<in> set (passiveGrabs s (window g)). conflicting e g h) \<longrightarrow> rc = BadAccess \<and> passiveGrabs s' = passiveGrabs s)
    \<and> (\<not> (\<exists>h \<in> set (passiveGrabs s (window g)). conflicting e g h) \<and> memory s = []
        \<and> (\<forall>mode. dixCallDeviceAccessCallback e client (device g) mode = Success) \<longrightarrow>
        rc = Success \<and> grants e (passiveGrabs s' (window g)) = (grants e (passiveGrabs s (window g)) -
          (if \<exists>h \<in> set (passiveGrabs s (window g)). identical g h then taken e g else {})) \<union> grants e [g]
        \<and> (\<forall>v. v \<noteq> window g \<longrightarrow> passiveGrabs s' v = passiveGrabs s v))"
proof -
  let ?hs = "passiveGrabs s (window g)"
  have hs: "\<forall>h \<in> set ?hs. grab_ok h \<and> combos h \<noteq> {}" using inv full by (simp add: grab_inv_def)
  note conf = grab_conflict_ok [OF g(1,2) hs, of e]
  show ?thesis
  proof (cases "\<exists>h \<in> set ?hs. conflicting e g h")
    case True
    have "grab_inv (FreeGrab g s)" using inv by (simp add: grab_inv_def FreeGrab_def)
    then show ?thesis using conf True by (simp add: AddPassiveGrabToList_def FreeGrab_def)
  next
    case False
    define mode where "mode = (if ucast (keyboardMode g) = GrabModeSync \<or> ucast (pointerMode g) = GrabModeSync then DixGrabAccess OR DixFreezeAccess else DixGrabAccess)"
    define rc where "rc = dixCallDeviceAccessCallback e client (device g) mode"
    obtain s1 where s1: "Option.bind (identical_grab g ?hs)
      (\<lambda>old. case old of None \<Rightarrow> Some s | Some h \<Rightarrow> map_option snd (DeletePassiveGrabFromList e h s)) = Some s1"
      "grab_inv s1" "grab_resources s1 (resource g) = None" "memory s = [] \<longrightarrow> memory s1 = []
      \<and> grants e (passiveGrabs s1 (window g)) = grants e ?hs - (if \<exists>h \<in> set ?hs. identical g h then taken e g else {})
      \<and> (\<forall>v. v \<noteq> window g \<longrightarrow> passiveGrabs s1 v = passiveGrabs s v)"
      using replace_identical [OF inv g fresh full False id] by blast
    obtain b s2 ok s3 where st: "MakeWindowOptional (window g) s1 = (b, s2)" "AddGrabResource e g (push_grab g s2) = (ok, s3)" by (metis surj_pair)
    note ins = install_grab [OF s1(2) g(1) s1(3) st]
    have run: "AddPassiveGrabToList e client g s = (if rc \<noteq> Success then Some (rc, s)
        else if b then Some (if ok then Success else BadAlloc, s3) else Some (BadAlloc, FreeGrab g s2))"
      using conf False s1(1) st by (cases b; cases "identical_grab g ?hs")
        (simp_all add: AddPassiveGrabToList_def mode_def rc_def Let_def split: option.splits)
    have "grab_inv (FreeGrab g s2)" using s1(2) ins(1,2) by (simp add: grab_inv_def FreeGrab_def)
    then have "\<exists>rc' s'. AddPassiveGrabToList e client g s = Some (rc', s') \<and> grab_inv s' \<and> (memory s = [] \<and> rc = Success \<longrightarrow> rc' = Success
        \<and> passiveGrabs s' = (passiveGrabs s1)(window g := g # passiveGrabs s1 (window g)))"
      using run inv ins(3-5) s1(4) by (cases "rc = Success"; cases b; cases ok) simp_all
    then obtain rc' s' where r: "AddPassiveGrabToList e client g s = Some (rc', s')" "grab_inv s'" "memory s = [] \<and> rc = Success \<longrightarrow> rc' = Success
        \<and> passiveGrabs s' = (passiveGrabs s1)(window g := g # passiveGrabs s1 (window g))" by blast
    show ?thesis
      by (rule exI [of _ rc'], rule exI [of _ s']) (use r False s1(4) in \<open>auto simp: rc_def\<close>)
  qed
qed

text \<open>A key of the first client, asked for by a second one.\<close>

theorem AddPassiveGrabToList_conflicts_witness:
  "\<exists>s'. AddPassiveGrabToList env0 2 (key_grab 0x40400001 38 4) grabs0 = Some (BadAccess, s') \<and> passiveGrabs s' = passiveGrabs grabs0"
proof -
  let ?g = "key_grab 0x40400001 38 4" and ?h = "key_grab 0x40200001 AnyKey AnyModifier"
  have g: "grab_ok ?g" "plain ?g" "grabtype ?g \<noteq> XI2" "window ?g = 0x400001" using key_grab_ok [of 38 4 "0x40400001"] by simp_all
  have hs: "passiveGrabs grabs0 0x400001 = [?h]" "grab_resources grabs0 0x40400001 = None" "ids_used grabs0 = 2" by (simp_all add: grabs0_def)
  have cl: "grab_client env0 ?g = 2" "grab_client env0 ?h = 1" by (simp_all add: grab_client_def env0_def key_grab_def zero_grab_def clients0)
  have two: "{2 ..< 3 :: nat} = {2}" by auto
  have fresh: "fresh_ids env0 2 1 grabs0" using clients0(5) by (simp add: fresh_ids_def grabs0_def env0_def two)
  have c: "(38, 4) \<in> combos ?h" "(38, 4) \<in> combos ?g"
    by (simp_all add: combos_def vals_def key_grab_def zero_grab_def AnyKey_def AnyModifier_def any_modifier_def)
  have "same_class env0 ?g ?h" by (simp add: same_class_def devices_match_def key_grab_def zero_grab_def)
  then have "conflicting env0 ?g ?h" using c cl by (auto simp: conflicting_def)
  moreover have "resource ?g = 0x40400001" by (simp add: key_grab_def)
  ultimately show ?thesis
    using AddPassiveGrabToList_conflicts [OF grabs0_ok(1) g(1-3), of env0 2] fresh hs cl c g(4)
    by (auto simp: two) (auto simp: env0_def)
qed

text \<open>A refusal by the access hook forgets the grab: it is in no list, and its reference to the cursor stays.\<close>

lemma refused_grab_keeps_cursor:
  assumes "grab_conflict e g (passiveGrabs s (window g)) = Some False" "\<forall>mode. dixCallDeviceAccessCallback e client (device g) mode = BadAccess"
  shows "AddPassiveGrabToList e client g (RefCursor (cursor g) s) = Some (BadAccess, RefCursor (cursor g) s)"
  using assms by (simp add: AddPassiveGrabToList_def)

end
