(* ===== verification/GrabRequests.thy ===== *)
theory GrabRequests
  imports PassiveGrabs ResourceTable
begin

text \<open>
  The requests for passive grabs: those of the core protocol (dix/events.c), the checks and the four kinds of passive grabs of
  the input extension (Xext/xinput/exevents.c), the ungrab requests of XInput 1 (Xext/xinput/ungrdevk.c, ungrdevb.c) and the requests of
  XInput 2 (Xext/xinput/xipassivegrab.c).
\<close>

subsection \<open>What the handlers ask the rest of the server\<close>

record grab_host =
  lookup_window :: "nat \<Rightarrow> xid \<Rightarrow> mask \<Rightarrow> status"
  lookup_cursor :: "nat \<Rightarrow> xid \<Rightarrow> mask \<Rightarrow> status"
  lookup_device :: "nat \<Rightarrow> nat \<Rightarrow> mask \<Rightarrow> status"
  PickKeyboard :: "nat \<Rightarrow> nat"
  PickPointer :: "nat \<Rightarrow> nat"
  master_keyboard :: "nat \<Rightarrow> nat"
  InputDevIsFloating :: "nat \<Rightarrow> bool"
  IsKeyboardDevice :: "nat \<Rightarrow> bool"
  has_buttons :: "nat \<Rightarrow> bool"
  key_codes :: "nat \<Rightarrow> (card8 \<times> card8) option"
  DeviceKeyPress :: card8
  DeviceButtonPress :: card8

definition KeyPress :: card8 where "KeyPress = 2"
definition ButtonPress :: card8 where "ButtonPress = 4"
definition XI_KeyPress :: card8 where "XI_KeyPress = 2"
definition XI_ButtonPress :: card8 where "XI_ButtonPress = 4"
definition XI_Enter :: card8 where "XI_Enter = 7"
definition XI_FocusIn :: card8 where "XI_FocusIn = 9"
definition XI_TouchBegin :: card8 where "XI_TouchBegin = 18"
definition XI_GesturePinchBegin :: card8 where "XI_GesturePinchBegin = 27"
definition XI_GestureSwipeBegin :: card8 where "XI_GestureSwipeBegin = 30"

definition AllModifiersMask :: mask where "AllModifiersMask = 0xff"

text \<open>Button press and release, enter and leave window, pointer motion, motion hints, motion with one or any button, keymap state.\<close>

definition PointerGrabMask :: mask where
  "PointerGrabMask = 0x4 OR 0x8 OR 0x10 OR 0x20 OR 0x80 OR 0x4000 OR (0x40 OR 0x100 OR 0x200 OR 0x400 OR 0x800 OR 0x1000 OR 0x2000)"

text \<open>The result of a handler: the status with the error value stored in the client, and the state.\<close>

type_synonym grab_result = "((status \<times> card32 option) \<times> grab_state) option"

definition bad_modifiers :: "card32 \<Rightarrow> bool" where
  "bad_modifiers mo \<longleftrightarrow> mo \<noteq> AnyModifier \<and> mo AND NOT AllModifiersMask \<noteq> 0"

definition bad_key :: "grab_host \<Rightarrow> nat \<Rightarrow> card8 \<Rightarrow> bool option" where
  "bad_key h dev key = map_option (\<lambda>(lo, hi). (key > hi \<or> key < lo) \<and> ucast key \<noteq> AnyKey) (key_codes h dev)"

definition CheckGrabValues :: "GrabParameters \<Rightarrow> status \<times> card32 option" where
  "CheckGrabValues param =
     (if this_device_mode param \<notin> {GrabModeSync, GrabModeAsync, XIGrabModeTouch} then (BadValue, Some (this_device_mode param))
      else if other_devices_mode param \<notin> {GrabModeSync, GrabModeAsync, XIGrabModeTouch} then (BadValue, Some (other_devices_mode param))
      else if modifiers param \<noteq> AnyModifier \<and> modifiers param \<noteq> XIAnyModifier \<and> modifiers param AND NOT AllModifiersMask \<noteq> 0
        then (BadValue, Some (modifiers param))
      else if gp_ownerEvents param \<noteq> 0 \<and> gp_ownerEvents param \<noteq> 1 then (BadValue, Some (gp_ownerEvents param))
      else (Success, None))"

text \<open>The grab made and put on the list.\<close>

definition install ::
    "grab_env \<Rightarrow> nat \<Rightarrow> nat \<Rightarrow> nat \<Rightarrow> xid \<Rightarrow> InputLevel \<Rightarrow> GrabMask \<Rightarrow> GrabParameters \<Rightarrow> card8 \<Rightarrow> card8 \<Rightarrow> xid option \<Rightarrow> xid option
      \<Rightarrow> grab_state \<Rightarrow> grab_result" where
  "install e client dev mdev win gt gmask param ty keybut conf cur s =
     Option.bind (CreateGrab e client dev mdev win gt gmask param ty keybut conf cur s) (\<lambda>(g, s1).
       case g of
         None \<Rightarrow> Some ((BadAlloc, None), s1)
       | Some g \<Rightarrow> map_option (\<lambda>(rc, s2). ((rc, None), s2)) (AddPassiveGrabToList e client g s1))"

text \<open>The temporary grab of an ungrab request, taken out of the list.\<close>

definition take_out ::
    "grab_env \<Rightarrow> nat \<Rightarrow> nat \<Rightarrow> nat \<Rightarrow> xid \<Rightarrow> InputLevel \<Rightarrow> card8 \<Rightarrow> card32 \<Rightarrow> card32 \<Rightarrow> grab_state \<Rightarrow> (bool option \<times> grab_state) option" where
  "take_out e client dev mdev win gt ty key mo s =
     (case AllocGrab s of
        (None, s1) \<Rightarrow> Some (None, s1)
      | (Some g, s1) \<Rightarrow>
          let t = g\<lparr>resource := clientAsMask (g_lim e) client, device := dev, window := win, modifiersDetail := \<lparr>exact = mo, pMask = None\<rparr>,
                modifierDevice := mdev, type := ty, grabtype := gt, detail := \<lparr>exact = key, pMask = None\<rparr>\<rparr>
          in map_option (\<lambda>(ok, s2). (Some ok, FreeGrab t s2)) (DeletePassiveGrabFromList e t s1))"

subsection \<open>The core protocol\<close>

definition ProcUngrabKey :: "grab_env \<Rightarrow> grab_host \<Rightarrow> nat \<Rightarrow> nat \<Rightarrow> xid \<Rightarrow> card8 \<Rightarrow> card16 \<Rightarrow> grab_state \<Rightarrow> grab_result" where
  "ProcUngrabKey e h client req_len gw key mo s =
     (let keybd = PickKeyboard h client in
      if \<not> REQUEST_SIZE_MATCH 12 req_len then Some ((BadLength, None), s)
      else let rc = lookup_window h client gw DixGetAttrAccess in
      if rc \<noteq> Success then Some ((rc, None), s)
      else Option.bind (bad_key h keybd key) (\<lambda>bad.
      if bad then Some ((BadValue, Some (ucast key)), s)
      else if bad_modifiers (ucast mo) then Some ((BadValue, Some (ucast mo)), s)
      else map_option (\<lambda>(r, s1). ((case r of None \<Rightarrow> BadAlloc | Some ok \<Rightarrow> if ok then Success else BadAlloc, None), s1))
             (take_out e client keybd keybd gw CORE KeyPress (ucast key) (ucast mo) s)))"

definition ProcGrabKey ::
    "grab_env \<Rightarrow> grab_host \<Rightarrow> nat \<Rightarrow> nat \<Rightarrow> card8 \<Rightarrow> xid \<Rightarrow> card16 \<Rightarrow> card8 \<Rightarrow> card8 \<Rightarrow> card8 \<Rightarrow> grab_state \<Rightarrow> grab_result" where
  "ProcGrabKey e h client req_len owner gw mo key pmode kmode s =
     (let keybd = PickKeyboard h client in
      if \<not> REQUEST_SIZE_MATCH 16 req_len then Some ((BadLength, None), s)
      else let param = \<lparr>gp_ownerEvents = ucast owner, this_device_mode = ucast kmode, other_devices_mode = ucast pmode,
                grabWindow = 0, gp_confineTo = 0, gp_cursor = 0, modifiers = ucast mo\<rparr>;
               chk = CheckGrabValues param in
      if fst chk \<noteq> Success then Some (chk, s)
      else Option.bind (bad_key h keybd key) (\<lambda>bad.
      if bad then Some ((BadValue, Some (ucast key)), s)
      else let rc = lookup_window h client gw DixSetAttrAccess in
      if rc \<noteq> Success then Some ((rc, None), s)
      else install e client keybd keybd gw CORE \<lparr>gm_core = 3, gm_xi2mask = None\<rparr> param KeyPress key None None s))"

text \<open>The order of the checks of a cursor, and the access mode it needs.\<close>

definition ProcGrabButton ::
    "grab_env \<Rightarrow> grab_host \<Rightarrow> nat \<Rightarrow> nat \<Rightarrow> card8 \<Rightarrow> xid \<Rightarrow> card16 \<Rightarrow> card8 \<Rightarrow> card8 \<Rightarrow> xid \<Rightarrow> xid \<Rightarrow> card8 \<Rightarrow> card16 \<Rightarrow> grab_state \<Rightarrow> grab_result" where
  "ProcGrabButton e h client req_len owner gw emask pmode kmode conf cur button mo s =
     (if \<not> REQUEST_SIZE_MATCH 24 req_len then Some ((BadLength, None), s)
      else if ucast pmode \<noteq> GrabModeSync \<and> ucast pmode \<noteq> GrabModeAsync then Some ((BadValue, Some (ucast pmode)), s)
      else if ucast kmode \<noteq> GrabModeSync \<and> ucast kmode \<noteq> GrabModeAsync then Some ((BadValue, Some (ucast kmode)), s)
      else if bad_modifiers (ucast mo) then Some ((BadValue, Some (ucast mo)), s)
      else if owner \<noteq> 0 \<and> owner \<noteq> 1 then Some ((BadValue, Some (ucast owner)), s)
      else if (ucast emask :: mask) AND NOT PointerGrabMask \<noteq> 0 then Some ((BadValue, Some (ucast emask)), s)
      else let rc = lookup_window h client gw DixSetAttrAccess in
      if rc \<noteq> Success then Some ((rc, None), s)
      else let rc = (if conf = 0 then Success else lookup_window h client conf DixSetAttrAccess) in
      if rc \<noteq> Success then Some ((rc, None), s)
      else let rc = (if cur = 0 then Success else lookup_cursor h client cur DixUseAccess) in
      if rc \<noteq> Success then Some ((rc, Some cur), s)
      else let ptr = PickPointer h client;
               mode = DixGrabAccess OR (if cur = 0 then 0 else DixForceAccess)
                 OR (if ucast pmode = GrabModeSync \<or> ucast kmode = GrabModeSync then DixFreezeAccess else 0);
               rc = dixCallDeviceAccessCallback e client ptr mode in
      if rc \<noteq> Success then Some ((rc, None), s)
      else install e client ptr (master_keyboard h ptr) gw CORE \<lparr>gm_core = ucast emask, gm_xi2mask = None\<rparr>
             \<lparr>gp_ownerEvents = ucast owner, this_device_mode = ucast kmode, other_devices_mode = ucast pmode,
               grabWindow = 0, gp_confineTo = 0, gp_cursor = 0, modifiers = ucast mo\<rparr>
             ButtonPress button (if conf = 0 then None else Some conf) (if cur = 0 then None else Some cur) s)"

definition ProcUngrabButton :: "grab_env \<Rightarrow> grab_host \<Rightarrow> nat \<Rightarrow> nat \<Rightarrow> xid \<Rightarrow> card8 \<Rightarrow> card16 \<Rightarrow> grab_state \<Rightarrow> grab_result" where
  "ProcUngrabButton e h client req_len gw button mo s =
     (if \<not> REQUEST_SIZE_MATCH 12 req_len then Some ((BadLength, None), s)
      else if bad_modifiers (ucast mo) then Some ((BadValue, Some (ucast mo)), s)
      else let rc = lookup_window h client gw DixReadAccess in
      if rc \<noteq> Success then Some ((rc, None), s)
      else let ptr = PickPointer h client in
      map_option (\<lambda>(r, s1). ((case r of None \<Rightarrow> BadAlloc | Some ok \<Rightarrow> if ok then Success else BadAlloc, None), s1))
        (take_out e client ptr (master_keyboard h ptr) gw CORE ButtonPress (ucast button) (ucast mo) s))"

subsection \<open>Grabs of the input extension\<close>

definition cursor_check :: "grab_host \<Rightarrow> nat \<Rightarrow> xid \<Rightarrow> status" where
  "cursor_check h client cur = (if cur = 0 then Success else lookup_cursor h client cur DixUseAccess)"

definition grab_mode :: "bool \<Rightarrow> GrabParameters \<Rightarrow> mask" where
  "grab_mode with_cursor param = DixGrabAccess OR (if with_cursor then DixForceAccess else 0)
     OR (if this_device_mode param = GrabModeSync \<or> other_devices_mode param = GrabModeSync then DixFreezeAccess else 0)"

definition null_or :: "xid \<Rightarrow> xid option" where
  "null_or x = (if x = 0 then None else Some x)"

definition GrabButton :: "grab_env \<Rightarrow> grab_host \<Rightarrow> nat \<Rightarrow> nat \<Rightarrow> nat \<Rightarrow> card8 \<Rightarrow> GrabParameters \<Rightarrow> InputLevel \<Rightarrow> GrabMask \<Rightarrow> grab_state \<Rightarrow> grab_result" where
  "GrabButton e h client dev mdev button param gt gmask s =
     (let chk = CheckGrabValues param in
      if fst chk \<noteq> Success then Some (chk, s)
      else let rc = (if gp_confineTo param = 0 then Success else lookup_window h client (gp_confineTo param) DixSetAttrAccess) in
      if rc \<noteq> Success then Some ((rc, None), s)
      else let rc = cursor_check h client (gp_cursor param) in
      if rc \<noteq> Success then Some ((rc, Some (gp_cursor param)), s)
      else let rc = dixCallDeviceAccessCallback e client dev (grab_mode (gp_cursor param \<noteq> 0) param) in
      if rc \<noteq> Success then Some ((rc, None), s)
      else let rc = lookup_window h client (grabWindow param) DixSetAttrAccess in
      if rc \<noteq> Success then Some ((rc, None), s)
      else install e client dev mdev (grabWindow param) gt gmask param
             (case gt of CORE \<Rightarrow> - 1 | XI \<Rightarrow> DeviceButtonPress h | XI2 \<Rightarrow> XI_ButtonPress) button
             (null_or (gp_confineTo param)) (null_or (gp_cursor param)) s)"

definition GrabKey :: "grab_env \<Rightarrow> grab_host \<Rightarrow> nat \<Rightarrow> nat \<Rightarrow> nat \<Rightarrow> card8 \<Rightarrow> GrabParameters \<Rightarrow> InputLevel \<Rightarrow> GrabMask \<Rightarrow> grab_state \<Rightarrow> grab_result" where
  "GrabKey e h client dev mdev key param gt gmask s =
     (let chk = CheckGrabValues param in
      if fst chk \<noteq> Success then Some (chk, s)
      else if dev \<noteq> all_devices e \<and> dev \<noteq> all_master_devices e \<and> key_codes h dev = None then Some ((BadMatch, None), s)
      else Option.bind (if gt = XI then bad_key h dev key else Some False) (\<lambda>bad.
      if bad then Some ((BadValue, Some (ucast key)), s)
      else let rc = lookup_window h client (grabWindow param) DixSetAttrAccess in
      if rc \<noteq> Success then Some ((rc, None), s)
      else let rc = dixCallDeviceAccessCallback e client dev (grab_mode False param) in
      if rc \<noteq> Success then Some ((rc, None), s)
      else install e client dev mdev (grabWindow param) gt gmask param
             (case gt of CORE \<Rightarrow> - 1 | XI \<Rightarrow> DeviceKeyPress h | XI2 \<Rightarrow> XI_KeyPress) key None None s))"

definition GrabWindow :: "grab_env \<Rightarrow> grab_host \<Rightarrow> nat \<Rightarrow> nat \<Rightarrow> bool \<Rightarrow> GrabParameters \<Rightarrow> GrabMask \<Rightarrow> grab_state \<Rightarrow> grab_result" where
  "GrabWindow e h client dev enter param gmask s =
     (let chk = CheckGrabValues param in
      if fst chk \<noteq> Success then Some (chk, s)
      else let rc = lookup_window h client (grabWindow param) DixSetAttrAccess in
      if rc \<noteq> Success then Some ((rc, None), s)
      else let rc = cursor_check h client (gp_cursor param) in
      if rc \<noteq> Success then Some ((rc, Some (gp_cursor param)), s)
      else let rc = dixCallDeviceAccessCallback e client dev (grab_mode (gp_cursor param \<noteq> 0) param) in
      if rc \<noteq> Success then Some ((rc, None), s)
      else install e client dev dev (grabWindow param) XI2 gmask param (if enter then XI_Enter else XI_FocusIn) 0 None (null_or (gp_cursor param)) s)"

definition GrabTouchOrGesture :: "grab_env \<Rightarrow> grab_host \<Rightarrow> nat \<Rightarrow> nat \<Rightarrow> nat \<Rightarrow> card8 \<Rightarrow> GrabParameters \<Rightarrow> GrabMask \<Rightarrow> grab_state \<Rightarrow> grab_result" where
  "GrabTouchOrGesture e h client dev mdev ty param gmask s =
     (let chk = CheckGrabValues param in
      if fst chk \<noteq> Success then Some (chk, s)
      else let rc = lookup_window h client (grabWindow param) DixSetAttrAccess in
      if rc \<noteq> Success then Some ((rc, None), s)
      else let rc = dixCallDeviceAccessCallback e client dev DixGrabAccess in
      if rc \<noteq> Success then Some ((rc, None), s)
      else install e client dev mdev (grabWindow param) XI2 gmask param ty 0 None None s)"

text \<open>The ungrab requests of XInput 1; \<open>UseXKeyboard\<close> is 255. They succeed whatever the list operation says.\<close>

definition modifier_device :: "grab_host \<Rightarrow> nat \<Rightarrow> nat \<Rightarrow> status \<Rightarrow> status + nat" where
  "modifier_device h client md bad_device =
     (if md = 255 then Inr (PickKeyboard h client)
      else if lookup_device h client md DixReadAccess \<noteq> Success then Inl bad_device
      else if key_codes h md = None then Inl BadMatch else Inr md)"

definition ProcXUngrabDeviceKey ::
    "grab_env \<Rightarrow> grab_host \<Rightarrow> status \<Rightarrow> nat \<Rightarrow> nat \<Rightarrow> nat \<Rightarrow> xid \<Rightarrow> card8 \<Rightarrow> card16 \<Rightarrow> grab_state \<Rightarrow> grab_result" where
  "ProcXUngrabDeviceKey e h BadDevice client dev md gw key mo s =
     (let rc = lookup_device h client dev DixGrabAccess in
      if rc \<noteq> Success then Some ((rc, None), s)
      else if key_codes h dev = None then Some ((BadMatch, None), s)
      else case modifier_device h client md BadDevice of
        Inl err \<Rightarrow> Some ((err, None), s)
      | Inr mdev \<Rightarrow>
          let rc = lookup_window h client gw DixSetAttrAccess in
          if rc \<noteq> Success then Some ((rc, None), s)
          else Option.bind (bad_key h dev key) (\<lambda>bad.
          if bad \<or> bad_modifiers (ucast mo) then Some ((BadValue, None), s)
          else map_option (\<lambda>(r, s1). ((if r = None then BadAlloc else Success, None), s1))
                 (take_out e client dev mdev gw XI (DeviceKeyPress h) (ucast key) (ucast mo) s)))"

definition ProcXUngrabDeviceButton ::
    "grab_env \<Rightarrow> grab_host \<Rightarrow> status \<Rightarrow> nat \<Rightarrow> nat \<Rightarrow> nat \<Rightarrow> xid \<Rightarrow> card8 \<Rightarrow> card16 \<Rightarrow> grab_state \<Rightarrow> grab_result" where
  "ProcXUngrabDeviceButton e h BadDevice client dev md gw button mo s =
     (let rc = lookup_device h client dev DixGrabAccess in
      if rc \<noteq> Success then Some ((rc, None), s)
      else if \<not> has_buttons h dev then Some ((BadMatch, None), s)
      else case modifier_device h client md BadDevice of
        Inl err \<Rightarrow> Some ((err, None), s)
      | Inr mdev \<Rightarrow>
          let rc = lookup_window h client gw DixSetAttrAccess in
          if rc \<noteq> Success then Some ((rc, None), s)
          else if bad_modifiers (ucast mo) then Some ((BadValue, None), s)
          else map_option (\<lambda>(r, s1). ((if r = None then BadAlloc else Success, None), s1))
                 (take_out e client dev mdev gw XI (DeviceButtonPress h) (ucast button) (ucast mo) s))"

subsection \<open>XInput 2\<close>

definition XIGrabtypeButton :: card8 where "XIGrabtypeButton = 0"
definition XIGrabtypeKeycode :: card8 where "XIGrabtypeKeycode = 1"
definition XIGrabtypeEnter :: card8 where "XIGrabtypeEnter = 2"
definition XIGrabtypeFocusIn :: card8 where "XIGrabtypeFocusIn = 3"
definition XIGrabtypeTouchBegin :: card8 where "XIGrabtypeTouchBegin = 4"
definition XIGrabtypeGesturePinchBegin :: card8 where "XIGrabtypeGesturePinchBegin = 5"
definition XIGrabtypeGestureSwipeBegin :: card8 where "XIGrabtypeGestureSwipeBegin = 6"

definition known_grab_type :: "card8 \<Rightarrow> bool" where
  "known_grab_type gt \<longleftrightarrow> gt \<in> {XIGrabtypeButton, XIGrabtypeKeycode, XIGrabtypeEnter, XIGrabtypeFocusIn, XIGrabtypeTouchBegin,
     XIGrabtypeGesturePinchBegin, XIGrabtypeGestureSwipeBegin}"

definition needs_no_detail :: "card8 \<Rightarrow> bool" where
  "needs_no_detail gt \<longleftrightarrow> gt \<in> {XIGrabtypeEnter, XIGrabtypeFocusIn, XIGrabtypeTouchBegin, XIGrabtypeGesturePinchBegin, XIGrabtypeGestureSwipeBegin}"

definition xi2_device :: "grab_env \<Rightarrow> grab_host \<Rightarrow> nat \<Rightarrow> nat \<Rightarrow> status" where
  "xi2_device e h client d = (if d = 0 \<or> d = 1 then Success else lookup_device h client d DixGrabAccess)"

definition xi2_mod_device :: "grab_host \<Rightarrow> nat \<Rightarrow> nat" where
  "xi2_mod_device h d = (if InputDevIsFloating h d then d else master_keyboard h d)"

definition grab_event_type :: "card8 \<Rightarrow> card8" where
  "grab_event_type gt =
     (if gt = XIGrabtypeButton then XI_ButtonPress else if gt = XIGrabtypeKeycode then XI_KeyPress
      else if gt = XIGrabtypeEnter then XI_Enter else if gt = XIGrabtypeFocusIn then XI_FocusIn
      else if gt = XIGrabtypeTouchBegin then XI_TouchBegin else if gt = XIGrabtypeGesturePinchBegin then XI_GesturePinchBegin
      else XI_GestureSwipeBegin)"

text \<open>One temporary grab is used for all modifiers; what the list operation says is not looked at.\<close>

fun ungrab_each :: "grab_env \<Rightarrow> GrabRec \<Rightarrow> card32 list \<Rightarrow> grab_state \<Rightarrow> grab_state option" where
  "ungrab_each e t [] s = Some s"
| "ungrab_each e t (mo # mos) s =
     Option.bind (DeletePassiveGrabFromList e (t\<lparr>modifiersDetail := \<lparr>exact = mo, pMask = None\<rparr>\<rparr>) s) (\<lambda>(_, s1). ungrab_each e t mos s1)"

definition ProcXIPassiveUngrabDevice ::
    "grab_env \<Rightarrow> grab_host \<Rightarrow> nat \<Rightarrow> nat \<Rightarrow> card8 \<Rightarrow> card32 \<Rightarrow> xid \<Rightarrow> card32 list \<Rightarrow> grab_state \<Rightarrow> grab_result" where
  "ProcXIPassiveUngrabDevice e h client d gt det gw mos s =
     (let rc = xi2_device e h client d in
      if rc \<noteq> Success then Some ((rc, None), s)
      else if \<not> known_grab_type gt then Some ((BadValue, Some (ucast gt)), s)
      else if needs_no_detail gt \<and> det \<noteq> 0 then Some ((BadValue, Some det), s)
      else if det > 255 then Some ((BadValue, Some det), s)
      else let rc = lookup_window h client gw DixSetAttrAccess in
      if rc \<noteq> Success then Some ((rc, None), s)
      else case AllocGrab s of
        (None, s1) \<Rightarrow> Some ((BadAlloc, None), s1)
      | (Some g, s1) \<Rightarrow>
          let t = g\<lparr>resource := clientAsMask (g_lim e) client, device := d, window := gw, type := grab_event_type gt, grabtype := XI2,
                modifierDevice := xi2_mod_device h d, detail := \<lparr>exact = det, pMask = None\<rparr>\<rparr>
          in map_option (\<lambda>s2. ((Success, None), FreeGrab t s2)) (ungrab_each e t mos s1))"

text \<open>The first bit above the last event that is set, in a mask long enough to have such bits.\<close>

definition XICheckInvalidMaskBits :: "card8 list \<Rightarrow> nat option" where
  "XICheckInvalidMaskBits bits =
     (if length bits \<ge> XI2MASKSIZE then List.find (\<lambda>i. bit (bits ! (i div 8)) (i mod 8)) [33 ..< length bits * 8] else None)"

text \<open>The bytes of a modifier as the client sent them, least significant first.\<close>

definition card32_bytes :: "card32 \<Rightarrow> card8 list" where
  "card32_bytes x = [ucast x, ucast (drop_bit 8 x), ucast (drop_bit 16 x), ucast (drop_bit 24 x)]"

text \<open>The mask of the request copied into a mask of the server: the length handed over is four times the number of bytes. Behind
  the mask in the request come the modifiers.\<close>

definition request_xi2mask :: "nat \<Rightarrow> card8 list \<Rightarrow> card32 list \<Rightarrow> XI2Mask option" where
  "request_xi2mask d bits mos =
     (let mask_len = min XI2MASKSIZE (length bits) in
      xi2mask_set_one_mask xi2mask_new d (bits @ concat (List.map card32_bytes mos)) (mask_len * 4))"

definition grab_one ::
    "grab_env \<Rightarrow> grab_host \<Rightarrow> nat \<Rightarrow> nat \<Rightarrow> card8 \<Rightarrow> card32 \<Rightarrow> GrabParameters \<Rightarrow> GrabMask \<Rightarrow> grab_state \<Rightarrow> grab_result" where
  "grab_one e h client d gt det param gmask s =
     (let mdev = xi2_mod_device h d in
      if gt = XIGrabtypeButton then GrabButton e h client d mdev (ucast det) param XI2 gmask s
      else if gt = XIGrabtypeKeycode then GrabKey e h client d mdev (ucast det) param XI2 gmask s
      else if gt = XIGrabtypeEnter \<or> gt = XIGrabtypeFocusIn then GrabWindow e h client d (gt = XIGrabtypeEnter) param gmask s
      else GrabTouchOrGesture e h client d mdev (grab_event_type gt) param gmask s)"

text \<open>The loop over the modifiers: an invalid modifier ends the request with an error, a refused grab is reported with its
  modifier. Details above 255 count as grabbed by somebody else.\<close>

datatype grab_status = AlreadyGrabbed | Refused status

fun grab_each ::
    "grab_env \<Rightarrow> grab_host \<Rightarrow> nat \<Rightarrow> nat \<Rightarrow> card8 \<Rightarrow> card32 \<Rightarrow> GrabParameters \<Rightarrow> GrabMask \<Rightarrow> card32 list \<Rightarrow> (card32 \<times> grab_status) list \<Rightarrow> grab_state
      \<Rightarrow> (((status \<times> card32 option) + (card32 \<times> grab_status) list) \<times> grab_state) option" where
  "grab_each e h client d gt det param gmask [] acc s = Some (Inr acc, s)"
| "grab_each e h client d gt det param gmask (mo # mos) acc s =
     (if det > 255 then grab_each e h client d gt det param gmask mos (acc @ [(mo, AlreadyGrabbed)]) s
      else let p = param\<lparr>modifiers := mo\<rparr>; chk = CheckGrabValues p in
           if fst chk \<noteq> Success then Some (Inl chk, s)
           else Option.bind (grab_one e h client d gt det p gmask s) (\<lambda>((rc, _), s1).
             grab_each e h client d gt det param gmask mos (if rc = Success then acc else acc @ [(mo, Refused rc)]) s1))"

definition ProcXIPassiveGrabDevice ::
    "grab_env \<Rightarrow> grab_host \<Rightarrow> nat \<Rightarrow> nat \<Rightarrow> card8 \<Rightarrow> card32 \<Rightarrow> xid \<Rightarrow> xid \<Rightarrow> card8 \<Rightarrow> card8 \<Rightarrow> card8 \<Rightarrow> card8 list \<Rightarrow> card32 list \<Rightarrow> grab_state
      \<Rightarrow> (((status \<times> card32 option) + (card32 \<times> grab_status) list) \<times> grab_state) option" where
  "ProcXIPassiveGrabDevice e h client d gt det gw cur mode paired owner bits mos s =
     (let rc = xi2_device e h client d in
      if rc \<noteq> Success then Some (Inl (rc, Some (of_nat d)), s)
      else if \<not> known_grab_type gt then Some (Inl (BadValue, Some (ucast gt)), s)
      else if needs_no_detail gt \<and> det \<noteq> 0 then Some (Inl (BadValue, Some det), s)
      else if gt = XIGrabtypeTouchBegin \<and> (ucast mode \<noteq> XIGrabModeTouch \<or> ucast paired \<noteq> GrabModeAsync)
        then Some (Inl (BadValue, Some (ucast mode)), s)
      else case XICheckInvalidMaskBits bits of
        Some i \<Rightarrow> Some (Inl (BadValue, Some (of_nat i)), s)
      | None \<Rightarrow>
        (case galloc s of
           (False, s1) \<Rightarrow> Some (Inl (BadAlloc, None), s1)
         | (True, s1) \<Rightarrow>
             Option.bind (request_xi2mask d bits mos) (\<lambda>xm.
             let param = \<lparr>gp_ownerEvents = ucast owner,
                   this_device_mode = (if IsKeyboardDevice h d then ucast mode else ucast paired),
                   other_devices_mode = (if IsKeyboardDevice h d then ucast paired else ucast mode),
                   grabWindow = gw, gp_confineTo = 0, gp_cursor = cur, modifiers = 0\<rparr>;
                 rc = cursor_check h client cur in
             if rc \<noteq> Success then Some (Inl (rc, Some cur), s1)
             else let rc = lookup_window h client gw DixSetAttrAccess in
             if rc \<noteq> Success then Some (Inl (rc, None), s1)
             else let chk = CheckGrabValues param in
             if fst chk \<noteq> Success then Some (Inl chk, s1)
             else grab_each e h client d gt det param \<lparr>gm_core = 0, gm_xi2mask = Some xm\<rparr> mos [] s1)))"

subsection \<open>Kinds of grabs\<close>

definition GrabIsPointerGrab :: "grab_host \<Rightarrow> GrabRec \<Rightarrow> bool" where
  "GrabIsPointerGrab h g \<longleftrightarrow> type g = ButtonPress \<or> type g = DeviceButtonPress h \<or> type g = XI_ButtonPress"

definition GrabIsKeyboardGrab :: "grab_host \<Rightarrow> GrabRec \<Rightarrow> bool" where
  "GrabIsKeyboardGrab h g \<longleftrightarrow> type g = KeyPress \<or> type g = DeviceKeyPress h \<or> type g = XI_KeyPress"

definition GrabIsGestureGrab :: "GrabRec \<Rightarrow> bool" where
  "GrabIsGestureGrab g \<longleftrightarrow> type g = XI_GesturePinchBegin \<or> type g = XI_GestureSwipeBegin"

subsection \<open>Releasing keys\<close>

definition keys_of :: "card8 \<Rightarrow> card32 set" where
  "keys_of k = {v. v < 256 \<and> v \<noteq> AnyKey \<and> (ucast k = AnyKey \<or> v = ucast k)}"

definition mods_of :: "card16 \<Rightarrow> card32 set" where
  "mods_of mo = {v. v < 256 \<and> (ucast mo = AnyModifier \<or> v = ucast mo)}"

lemma client_of_clientAsMask:
  assumes "lim_ok lim" "c < lim"
  shows "dixClientIdForXID lim (clientAsMask lim c) = c"
proof -
  obtain b where b: "6 \<le> b" "b \<le> 11" "lim = 2 ^ b" using assms(1) by (auto simp: lim_ok_def)
  have c: "n < b" if "bit c n" for n
    using assms(2) b(3) that by (metis bit_take_bit_iff take_bit_nat_eq_self)
  have "ucast (drop_bit (29 - b) (CLIENT_BITS lim (clientAsMask lim c))) = (of_nat c :: 16 word)"
    using b by (intro bit_word_eqI)
      (auto dest: c simp: bit_simps CLIENT_BITS_def RESOURCE_CLIENT_MASK_def CLIENTOFFSET_def clientAsMask_def
        RESOURCE_AND_CLIENT_COUNT_def ResourceClientBits_exp simp flip: mask_eq_exp_minus_1)
  moreover have "c < 2 ^ 16" using assms(2) b(2,3) power_increasing [of b 16 "2 :: nat"] by simp
  ultimately show ?thesis
    using b by (simp add: dixClientIdForXID_def CLIENTOFFSET_def RESOURCE_AND_CLIENT_COUNT_def ResourceClientBits_exp take_bit_nat_eq_self unat_of_nat)
qed

lemma ucast8_less: "(ucast (k :: card8) :: card32) < 256"
proof -
  have "unat k < 256" by (rule order_less_le_trans [OF unsigned_less]) simp
  then show ?thesis by (simp add: word_less_nat_alt unsigned_ucast_eq take_bit_nat_eq_self)
qed

lemma small_modifiers:
  assumes "\<not> bad_modifiers mo" "mo \<noteq> AnyModifier"
  shows "mo < 256"
proof -
  have "mo AND NOT (mask 8) = 0" using assms by (simp add: bad_modifiers_def AllModifiersMask_def mask_eq_exp_minus_1)
  then have high: "bit mo n \<Longrightarrow> n < 8" for n by (metis bit_and_iff bit_mask_iff bit_not_iff bit_0_eq bot_apply bot_bool_def bit_imp_le_length impossible_bit)
  have "mo = take_bit 8 mo" by (rule bit_word_eqI) (auto simp: bit_take_bit_iff dest: high)
  then have "unat mo = take_bit 8 (unat mo)" by (metis unsigned_take_bit_eq)
  then have "unat mo < 2 ^ 8" by (metis take_bit_nat_less_exp)
  then show ?thesis by (simp add: word_less_nat_alt)
qed

lemma take_out_effect:
  assumes inv: "grab_inv s" and lim: "lim_ok (g_lim e)" "client < g_lim e" and mem: "memory s = []"
    and fresh: "fresh_ids e client (length (passiveGrabs s gw)) s" and gt: "gt \<noteq> XI2"
    and key: "key < 256" and mo: "mo < 256 \<or> mo = AnyModifier"
  shows "\<exists>s'. take_out e client dev mdev gw gt ty key mo s = Some (Some True, s') \<and> grab_inv s'
    \<and> grants e (passiveGrabs s' gw) = grants e (passiveGrabs s gw) -
        {(c, k, x, y). c = client \<and> same_class e k (zero_grab\<lparr>device := dev, modifierDevice := mdev, grabtype := gt, type := ty\<rparr>)
           \<and> x \<in> vals AnyKey \<lparr>exact = key, pMask = None\<rparr> \<and> y \<in> vals AnyModifier \<lparr>exact = mo, pMask = None\<rparr>}
    \<and> (\<forall>v. v \<noteq> gw \<longrightarrow> passiveGrabs s' v = passiveGrabs s v)"
proof -
  define t where "t = zero_grab\<lparr>resource := clientAsMask (g_lim e) client, device := dev, window := gw, modifiersDetail := \<lparr>exact = mo, pMask = None\<rparr>,
     modifierDevice := mdev, type := ty, grabtype := gt, detail := \<lparr>exact = key, pMask = None\<rparr>\<rparr>"
  have am: "any_modifier t = AnyModifier" using gt by (simp add: any_modifier_def t_def)
  have t: "grab_ok t" "plain t" "grabtype t = XI2 \<longrightarrow> exact (detail t) = AnyKey \<or> exact (modifiersDetail t) = any_modifier t"
    using key mo gt am by (auto simp: grab_ok_def plain_def detail_ok_def t_def zero_grab_def)
  have cl: "grab_client e t = client" using client_of_clientAsMask [OF lim] by (simp add: grab_client_def t_def)
  have w: "window t = gw" "cursor t = None" by (simp_all add: t_def zero_grab_def)
  have fr: "fresh_ids e (grab_client e t) (length (passiveGrabs s (window t))) s" using fresh cl w by simp
  obtain ok s1 where s1: "DeletePassiveGrabFromList e t s = Some (ok, s1)" "grab_inv s1" "ok"
    "grants e (passiveGrabs s1 gw) = grants e (passiveGrabs s gw) - taken e t" "\<forall>v. v \<noteq> gw \<longrightarrow> passiveGrabs s1 v = passiveGrabs s v"
    using delete_effect [OF inv fr t] mem w by (auto split: if_splits)
  have "AllocGrab s = (Some zero_grab, s)" using mem by (simp add: AllocGrab_def galloc_def)
  then have "take_out e client dev mdev gw gt ty key mo s = Some (Some True, s1)"
    using s1(1,3) w by (simp add: take_out_def t_def [symmetric] FreeGrab_def FreeCursor_def)
  moreover have "taken e t = {(c, k, x, y). c = client \<and> same_class e k (zero_grab\<lparr>device := dev, modifierDevice := mdev, grabtype := gt, type := ty\<rparr>)
           \<and> x \<in> vals AnyKey \<lparr>exact = key, pMask = None\<rparr> \<and> y \<in> vals AnyModifier \<lparr>exact = mo, pMask = None\<rparr>}"
    unfolding taken_def cl combos_def am by (auto simp: same_class_def devices_match_def t_def)
  ultimately show ?thesis using s1 by simp
qed

text \<open>C26. An UngrabKey request with a valid key and valid modifiers, on a window the client may look at, succeeds when there is memory: the
  client's core grabs of keys on that window lose exactly the combinations the request names (all keys for \<open>AnyKey\<close>, all modifiers for
  \<open>AnyModifier\<close>), every other combination, client, event type and window keeps its grabs.\<close>

theorem ProcUngrabKey_releases:
  assumes inv: "grab_inv s" and lim: "lim_ok (g_lim e)" "client < g_lim e" and mem: "memory s = []"
    and fresh: "fresh_ids e client (length (passiveGrabs s gw)) s" and win: "lookup_window h client gw DixGetAttrAccess = Success"
    and key: "bad_key h (PickKeyboard h client) key = Some False" and mo: "\<not> bad_modifiers (ucast mo)"
  shows "\<exists>s'. ProcUngrabKey e h client 3 gw key mo s = Some ((Success, None), s') \<and> grab_inv s'
    \<and> grants e (passiveGrabs s' gw) = grants e (passiveGrabs s gw) -
        {(c, k, x, y). c = client \<and> grabtype k = CORE \<and> type k = KeyPress \<and> x \<in> keys_of key \<and> y \<in> mods_of mo}
    \<and> (\<forall>v. v \<noteq> gw \<longrightarrow> passiveGrabs s' v = passiveGrabs s v)"
proof -
  let ?k = "PickKeyboard h client"
  have mo': "(ucast mo :: card32) < 256 \<or> (ucast mo :: card32) = AnyModifier" using small_modifiers [OF mo] by blast
  obtain s' where s': "take_out e client ?k ?k gw CORE KeyPress (ucast key) (ucast mo) s = Some (Some True, s')" "grab_inv s'"
    "grants e (passiveGrabs s' gw) = grants e (passiveGrabs s gw) -
        {(c, k, x, y). c = client \<and> same_class e k (zero_grab\<lparr>device := ?k, modifierDevice := ?k, grabtype := CORE, type := KeyPress\<rparr>)
           \<and> x \<in> vals AnyKey \<lparr>exact = ucast key, pMask = None\<rparr> \<and> y \<in> vals AnyModifier \<lparr>exact = ucast mo, pMask = None\<rparr>}"
    "\<forall>v. v \<noteq> gw \<longrightarrow> passiveGrabs s' v = passiveGrabs s v"
    using take_out_effect [OF inv lim mem fresh, of CORE "ucast key" "ucast mo" ?k ?k KeyPress] mo' ucast8_less by auto
  have "vals AnyKey \<lparr>exact = ucast key, pMask = None\<rparr> = keys_of key" by (auto simp: vals_def keys_of_def)
  moreover have "vals AnyModifier \<lparr>exact = ucast mo, pMask = None\<rparr> = mods_of mo"
    by (auto simp: vals_def mods_of_def AnyModifier_def)
  moreover have "same_class e k (zero_grab\<lparr>device := ?k, modifierDevice := ?k, grabtype := CORE, type := KeyPress\<rparr>) \<longleftrightarrow>
      grabtype k = CORE \<and> type k = KeyPress" for k by (auto simp: same_class_def devices_match_def)
  moreover have "ProcUngrabKey e h client 3 gw key mo s = Some ((Success, None), s')"
    using s'(1) win key mo by (simp add: ProcUngrabKey_def REQUEST_SIZE_MATCH_def)
  ultimately show ?thesis using s'(2-4) by simp
qed

definition host0 :: grab_host where
  "host0 = \<lparr>lookup_window = (\<lambda>_ w _. if w = 0x400001 then Success else BadWindow), lookup_cursor = (\<lambda>_ _ _. BadCursor), lookup_device = (\<lambda>_ _ _. Success),
     PickKeyboard = (\<lambda>_. 3), PickPointer = (\<lambda>_. 2), master_keyboard = (\<lambda>_. 3), InputDevIsFloating = (\<lambda>_. False), IsKeyboardDevice = (\<lambda>d. d = 3),
     has_buttons = (\<lambda>d. d = 2), key_codes = [3 \<mapsto> (8, 255)], DeviceKeyPress = 67, DeviceButtonPress = 69\<rparr>"

theorem ProcUngrabKey_releases_witness:
  "\<exists>s'. ProcUngrabKey env0 host0 1 3 0x400001 38 4 grabs0 = Some ((Success, None), s') \<and> grab_inv s'
    \<and> grants env0 (passiveGrabs s' 0x400001) = grants env0 (passiveGrabs grabs0 0x400001) -
        {(c, k, x, y). c = 1 \<and> grabtype k = CORE \<and> type k = KeyPress \<and> x \<in> keys_of 38 \<and> y \<in> mods_of 4}"
proof -
  have "lim_ok (g_lim env0)" by (auto simp: env0_def lim_ok_def intro!: exI [of _ 8])
  moreover have "1 < g_lim env0" "memory grabs0 = []" "length (passiveGrabs grabs0 0x400001) = 1" by (simp_all add: env0_def grabs0_def)
  moreover have "lookup_window host0 1 0x400001 DixGetAttrAccess = Success" "bad_key host0 (PickKeyboard host0 1) 38 = Some False"
    by (simp_all add: host0_def bad_key_def)
  moreover have "\<not> bad_modifiers (ucast (4 :: card16))" by (simp add: bad_modifiers_def AllModifiersMask_def)
  ultimately show ?thesis using ProcUngrabKey_releases [OF grabs0_ok(1), of env0 1 "0x400001" host0 38 4] grabs0_ok(2) by auto
qed

subsection \<open>Where the handlers differ from the protocol\<close>

text \<open>GrabKey takes the touch mode of XInput 2 for a mode; the grab's field of one bit holds it as \<open>GrabModeSync\<close>.\<close>

lemma grab_key_touch_mode:
  "map_option (\<lambda>(r, s). (r, List.map (\<lambda>g. ucast (keyboardMode g)) (passiveGrabs s 0x400001)))
     (ProcGrabKey env0 host0 2 4 0 0x400001 4 38 2 2 (grabs0\<lparr>passiveGrabs := \<lambda>_. []\<rparr>)) = Some ((Success, None), [GrabModeSync])"
  by code_simp

text \<open>A mask of one word is copied with a byte of the first modifier behind it.\<close>

lemma mask_takes_modifier_byte: "map_option (\<lambda>m. m ! 2) (request_xi2mask 2 [0, 0, 0, 0] [4]) = Some [0, 0, 0, 0, 4]"
  by (simp add: request_xi2mask_def xi2mask_set_one_mask_def xi2mask_new_def xi2mask_new_with_size_def EMASKSIZE_def XI2MASKSIZE_def card32_bytes_def)

end
