(* ===== verification/Region.thy ===== *)
theory Region
  imports XPrelude "HOL-Library.Multiset"
begin

text \<open>
  Regions (dix/region.c): sets of pixels kept as arrays of rectangles in y-x bands, with an extent rectangle. The code that
  is the server's own is modelled: allocation, the band sweep \<open>RegionOp\<close> with the union of two bands, \<open>RegionAppend\<close>,
  the sorting of rectangles, \<open>RegionValidate\<close> and \<open>RegionFromRects\<close>. Coordinates are the values of the C shorts as integers.
  Memory is a sequence of answers: \<open>mem k\<close> says whether the \<open>k\<close>-th allocation succeeds, and the number of allocations made so far is threaded
  through the operations. \<open>None\<close> as a result means that the code reads outside an array or uses memory that has been freed.
\<close>

subsection \<open>Rectangles and regions\<close>

record BoxRec =
  x1 :: int
  y1 :: int
  x2 :: int
  y2 :: int

abbreviation Box :: "int \<Rightarrow> int \<Rightarrow> int \<Rightarrow> int \<Rightarrow> BoxRec" where
  "Box l t r b \<equiv> \<lparr>x1 = l, y1 = t, x2 = r, y2 = b\<rparr>"

text \<open>The data pointer: null for a single rectangle, one of the two static records, or an array with its capacity and its rectangles.\<close>

datatype RegDataRec = NoData | RegionEmptyData | RegionBrokenData | RegData nat "BoxRec list"

record RegionRec =
  extents :: BoxRec
  rgn_data :: RegDataRec

type_synonym rstate = "RegionRec \<times> nat"

definition RegionEmptyBox :: BoxRec where
  "RegionEmptyBox = Box 0 0 0 0"

fun data_boxes :: "RegDataRec \<Rightarrow> BoxRec list" where
  "data_boxes (RegData sz bs) = bs"
| "data_boxes _ = []"

fun data_size :: "RegDataRec \<Rightarrow> nat" where
  "data_size (RegData sz bs) = sz"
| "data_size _ = 0"

definition RegionRects :: "RegionRec \<Rightarrow> BoxRec list" where
  "RegionRects reg = (if rgn_data reg = NoData then [extents reg] else data_boxes (rgn_data reg))"

definition RegionNumRects :: "RegionRec \<Rightarrow> nat" where
  "RegionNumRects reg = length (RegionRects reg)"

definition RegionNar :: "RegionRec \<Rightarrow> bool" where
  "RegionNar reg \<longleftrightarrow> rgn_data reg = RegionBrokenData"

text \<open>\<open>RegionIsValid\<close>, the check of debugging builds. The loop carries the extent box it builds.\<close>

fun valid_pairs :: "BoxRec \<Rightarrow> BoxRec list \<Rightarrow> BoxRec \<Rightarrow> BoxRec option" where
  "valid_pairs P [] box = Some box"
| "valid_pairs P (N # bs) box =
     (if x1 N \<ge> x2 N \<or> y1 N \<ge> y2 N then None
      else if y1 N < y1 P \<or> (y1 N = y1 P \<and> (x1 N < x2 P \<or> y2 N \<noteq> y2 P)) then None
      else valid_pairs N bs (box\<lparr>x1 := min (x1 box) (x1 N), x2 := max (x2 box) (x2 N)\<rparr>))"

definition RegionIsValid :: "RegionRec \<Rightarrow> bool" where
  "RegionIsValid reg \<longleftrightarrow>
     (let e = extents reg; bs = RegionRects reg
      in if x1 e > x2 e \<or> y1 e > y2 e then False
         else if bs = [] then x1 e = x2 e \<and> y1 e = y2 e \<and> (data_size (rgn_data reg) \<noteq> 0 \<or> rgn_data reg = RegionEmptyData)
         else if tl bs = [] then rgn_data reg = NoData
         else valid_pairs (hd bs) (tl bs) ((hd bs)\<lparr>y2 := y2 (last bs)\<rparr>) = Some e)"

definition RegionBreak :: "RegionRec \<Rightarrow> RegionRec" where
  "RegionBreak reg = \<lparr>extents = RegionEmptyBox, rgn_data = RegionBrokenData\<rparr>"

text \<open>\<open>RegionSizeof\<close>: the bytes of an array of \<open>n\<close> rectangles (8 each, after a header of 16), 0 when they would not fit an int.\<close>

definition RegionSizeof :: "nat \<Rightarrow> int" where
  "RegionSizeof n = (if int n < (2147483647 - 16) div 8 then 16 + int n * 8 else 0)"

definition rect_mem :: "(nat \<Rightarrow> bool) \<Rightarrow> nat \<Rightarrow> nat \<Rightarrow> bool" where
  "rect_mem mem k n \<longleftrightarrow> RegionSizeof n > 0 \<and> mem k"

subsection \<open>Allocation\<close>

text \<open>The capacity \<open>RegionRectAlloc\<close> asks for and the rectangles it keeps.\<close>

fun alloc_size :: "RegDataRec \<Rightarrow> nat \<Rightarrow> nat" where
  "alloc_size NoData n = n + 1"
| "alloc_size (RegData sz bs) n =
     (if sz = 0 then n else (if n = 1 then if length bs > 500 then 250 else length bs else n) + length bs)"
| "alloc_size _ n = n"

fun alloc_keeps :: "RegionRec \<Rightarrow> BoxRec list" where
  "alloc_keeps reg = (case rgn_data reg of NoData \<Rightarrow> [extents reg] | RegData sz bs \<Rightarrow> (if sz = 0 then [] else bs) | _ \<Rightarrow> [])"

definition RegionRectAlloc :: "(nat \<Rightarrow> bool) \<Rightarrow> nat \<Rightarrow> rstate \<Rightarrow> bool \<times> rstate" where
  "RegionRectAlloc mem n = (\<lambda>(reg, k).
     let n' = alloc_size (rgn_data reg) n
     in if rect_mem mem k n' then (True, reg\<lparr>rgn_data := RegData n' (alloc_keeps reg)\<rparr>, Suc k)
        else (False, RegionBreak reg, Suc k))"

definition RECTALLOC :: "(nat \<Rightarrow> bool) \<Rightarrow> nat \<Rightarrow> rstate \<Rightarrow> bool \<times> rstate" where
  "RECTALLOC mem n st =
     (let d = rgn_data (fst st)
      in if d = NoData \<or> length (data_boxes d) + n > data_size d then RegionRectAlloc mem n st else (True, st))"

definition add_boxes :: "BoxRec list \<Rightarrow> rstate \<Rightarrow> rstate" where
  "add_boxes bs = (\<lambda>(reg, k). (reg\<lparr>rgn_data := (case rgn_data reg of RegData sz xs \<Rightarrow> RegData sz (xs @ bs) | d \<Rightarrow> d)\<rparr>, k))"

definition NEWRECT :: "(nat \<Rightarrow> bool) \<Rightarrow> BoxRec \<Rightarrow> rstate \<Rightarrow> bool \<times> rstate" where
  "NEWRECT mem b st = (case RECTALLOC mem 1 st of (ok, st') \<Rightarrow> (ok, if ok then add_boxes [b] st' else st'))"

definition DOWNSIZE :: "(nat \<Rightarrow> bool) \<Rightarrow> rstate \<Rightarrow> rstate" where
  "DOWNSIZE mem = (\<lambda>(reg, k).
     case rgn_data reg of
       RegData sz bs \<Rightarrow>
         if length bs < sz div 2 \<and> sz > 50
         then (if rect_mem mem k (length bs) then reg\<lparr>rgn_data := RegData (length bs) bs\<rparr> else reg, Suc k)
         else (reg, k)
     | _ \<Rightarrow> (reg, k))"

subsection \<open>Bands\<close>

fun same_spans :: "BoxRec list \<Rightarrow> BoxRec list \<Rightarrow> bool" where
  "same_spans (p # ps) (c # cs) \<longleftrightarrow> x1 p = x1 c \<and> x2 p = x2 c \<and> same_spans ps cs"
| "same_spans _ _ \<longleftrightarrow> True"

definition RegionCoalesce :: "nat \<Rightarrow> nat \<Rightarrow> BoxRec list \<Rightarrow> nat \<times> BoxRec list" where
  "RegionCoalesce prevStart curStart bs =
     (let numRects = curStart - prevStart;
          prev = take numRects (drop prevStart bs);
          cur = take numRects (drop curStart bs)
      in if numRects = 0 then (curStart, bs)
         else if y2 (bs ! prevStart) \<noteq> y1 (bs ! curStart) then (curStart, bs)
         else if \<not> same_spans prev cur then (curStart, bs)
         else (prevStart,
               take (length bs - numRects)
                 (take prevStart bs @ List.map (\<lambda>p. p\<lparr>y2 := y2 (bs ! curStart)\<rparr>) prev @ drop curStart bs)))"

text \<open>The macro \<open>Coalesce\<close>; the indices are C ints.\<close>

definition Coalesce :: "nat \<Rightarrow> nat \<Rightarrow> BoxRec list \<Rightarrow> nat \<times> BoxRec list" where
  "Coalesce prevBand curBand bs =
     (if int curBand - int prevBand = int (length bs) - int curBand then RegionCoalesce prevBand curBand bs else (curBand, bs))"

definition coalesce_reg :: "nat \<Rightarrow> nat \<Rightarrow> RegionRec \<Rightarrow> nat \<times> RegionRec" where
  "coalesce_reg prevBand curBand reg =
     (case Coalesce prevBand curBand (data_boxes (rgn_data reg)) of (p, bs) \<Rightarrow>
        (p, reg\<lparr>rgn_data := (case rgn_data reg of RegData sz _ \<Rightarrow> RegData sz bs | d \<Rightarrow> d)\<rparr>))"

definition RegionAppendNonO :: "(nat \<Rightarrow> bool) \<Rightarrow> BoxRec list \<Rightarrow> int \<Rightarrow> int \<Rightarrow> rstate \<Rightarrow> bool \<times> rstate" where
  "RegionAppendNonO mem r t b st =
     (case RECTALLOC mem (length r) st of (ok, st') \<Rightarrow>
        (ok, if ok then add_boxes (List.map (\<lambda>p. Box (x1 p) t (x2 p) b) r) st' else st'))"

definition FindBand :: "BoxRec \<Rightarrow> BoxRec list \<Rightarrow> BoxRec list \<times> BoxRec list" where
  "FindBand r rs = (r # takeWhile (\<lambda>b. y1 b = y1 r) rs, dropWhile (\<lambda>b. y1 b = y1 r) rs)"

subsection \<open>The sweep over two regions\<close>

type_synonym overlap_proc = "BoxRec list \<Rightarrow> BoxRec list \<Rightarrow> int \<Rightarrow> int \<Rightarrow> bool \<Rightarrow> rstate \<Rightarrow> (bool \<times> rstate) option"

text \<open>One band is added by \<open>RegionAppendNonO\<close>, whose result the code ignores, and coalesced with the band before it.\<close>

definition non_overlap :: "(nat \<Rightarrow> bool) \<Rightarrow> BoxRec list \<Rightarrow> int \<Rightarrow> int \<Rightarrow> nat \<Rightarrow> rstate \<Rightarrow> nat \<times> rstate" where
  "non_overlap mem r t b prevBand st =
     (let curBand = length (data_boxes (rgn_data (fst st)));
          st' = snd (RegionAppendNonO mem r t b st)
      in case coalesce_reg prevBand curBand (fst st') of (p, reg) \<Rightarrow> (p, reg, snd st'))"

definition overlap :: "overlap_proc \<Rightarrow> BoxRec list \<Rightarrow> BoxRec list \<Rightarrow> int \<Rightarrow> int \<Rightarrow> nat \<Rightarrow> bool \<Rightarrow> rstate \<Rightarrow> (nat \<times> bool \<times> rstate) option" where
  "overlap f r1 r2 t b prevBand ovl st =
     (let curBand = length (data_boxes (rgn_data (fst st)))
      in Option.bind (f r1 r2 t b ovl st) (\<lambda>(ovl', st').
         case coalesce_reg prevBand curBand (fst st') of (p, reg) \<Rightarrow> Some (p, ovl', reg, snd st')))"

text \<open>The band that does not intersect, if any; \<open>c\<close> and \<open>d\<close> are the first rectangles of the two current bands.\<close>

definition op_single :: "(nat \<Rightarrow> bool) \<Rightarrow> bool \<Rightarrow> bool \<Rightarrow> BoxRec \<Rightarrow> BoxRec \<Rightarrow> BoxRec list \<Rightarrow> BoxRec list \<Rightarrow> int \<Rightarrow> nat \<Rightarrow> rstate \<Rightarrow> nat \<times> rstate" where
  "op_single mem appendNon1 appendNon2 c d band1 band2 ybot prevBand st =
     (if y1 c < y1 d then
        let top = max (y1 c) ybot; bot = min (y2 c) (y1 d)
        in if appendNon1 \<and> top \<noteq> bot then non_overlap mem band1 top bot prevBand st else (prevBand, st)
      else if y1 d < y1 c then
        let top = max (y1 d) ybot; bot = min (y2 d) (y1 c)
        in if appendNon2 \<and> top \<noteq> bot then non_overlap mem band2 top bot prevBand st else (prevBand, st)
      else (prevBand, st))"

text \<open>The main loop: both regions have rectangles left.\<close>

function op_loop :: "(nat \<Rightarrow> bool) \<Rightarrow> overlap_proc \<Rightarrow> bool \<Rightarrow> bool \<Rightarrow> BoxRec list \<Rightarrow> BoxRec list \<Rightarrow> int \<Rightarrow> nat \<Rightarrow> bool \<Rightarrow> rstate \<Rightarrow>
    (BoxRec list \<times> BoxRec list \<times> int \<times> nat \<times> bool \<times> rstate) option" where
  "op_loop mem f appendNon1 appendNon2 (c # r1) (d # r2) ybot prevBand ovl st =
     (let (band1, rest1) = FindBand c r1;
          (band2, rest2) = FindBand d r2;
          (prev1, st1) = op_single mem appendNon1 appendNon2 c d band1 band2 ybot prevBand st;
          ytop = max (y1 c) (y1 d);
          ybot' = min (y2 c) (y2 d);
          r1' = (if y2 c = ybot' then rest1 else c # r1);
          r2' = (if y2 d = ybot' then rest2 else d # r2)
      in if ybot' > ytop
         then Option.bind (overlap f band1 band2 ytop ybot' prev1 ovl st1) (\<lambda>(prev2, ovl', st2).
                op_loop mem f appendNon1 appendNon2 r1' r2' ybot' prev2 ovl' st2)
         else op_loop mem f appendNon1 appendNon2 r1' r2' ybot' prev1 ovl st1)"
| "op_loop mem f appendNon1 appendNon2 [] r2 ybot prevBand ovl st = Some ([], r2, ybot, prevBand, ovl, st)"
| "op_loop mem f appendNon1 appendNon2 r1 [] ybot prevBand ovl st = Some (r1, [], ybot, prevBand, ovl, st)"
  by pat_completeness auto
termination
proof (relation "measure (\<lambda>(mem, f, a1, a2, r1, r2, _). length r1 + length r2)", goal_cases)
  case 1
  then show ?case by simp
next
  case (2 mem f a1 a2 c r1 d r2)
  then show ?case
    using length_dropWhile_le [of "\<lambda>b. y1 b = y1 c" r1] length_dropWhile_le [of "\<lambda>b. y1 b = y1 d" r2]
    by (auto simp: FindBand_def min_def split: if_splits)
next
  case (3 mem f a1 a2 c r1 d r2)
  then show ?case
    using length_dropWhile_le [of "\<lambda>b. y1 b = y1 c" r1] length_dropWhile_le [of "\<lambda>b. y1 b = y1 d" r2]
    by (auto simp: FindBand_def min_def split: if_splits)
qed

text \<open>The rectangles left in one region: the first band may coalesce, the others are copied.\<close>

definition op_tail :: "(nat \<Rightarrow> bool) \<Rightarrow> BoxRec \<Rightarrow> BoxRec list \<Rightarrow> int \<Rightarrow> nat \<Rightarrow> rstate \<Rightarrow> bool \<times> rstate" where
  "op_tail mem c rs ybot prevBand st =
     (let (band, rest) = FindBand c rs;
          (p, st1) = non_overlap mem band (max (y1 c) ybot) (y2 c) prevBand st
      in if rest = [] then (True, st1)
         else case RECTALLOC mem (length rest) st1 of (ok, st2) \<Rightarrow> (ok, if ok then add_boxes rest st2 else st2))"

definition op_rest :: "(nat \<Rightarrow> bool) \<Rightarrow> bool \<Rightarrow> bool \<Rightarrow> BoxRec list \<Rightarrow> BoxRec list \<Rightarrow> int \<Rightarrow> nat \<Rightarrow> rstate \<Rightarrow> bool \<times> rstate" where
  "op_rest mem appendNon1 appendNon2 r1 r2 ybot prevBand st =
     (if r1 \<noteq> [] \<and> appendNon1 then op_tail mem (hd r1) (tl r1) ybot prevBand st
      else if r2 \<noteq> [] \<and> appendNon2 then op_tail mem (hd r2) (tl r2) ybot prevBand st
      else (True, st))"

definition op_end :: "(nat \<Rightarrow> bool) \<Rightarrow> rstate \<Rightarrow> rstate" where
  "op_end mem = (\<lambda>(reg, k).
     case data_boxes (rgn_data reg) of
       [] \<Rightarrow> (reg\<lparr>rgn_data := RegionEmptyData\<rparr>, k)
     | [b] \<Rightarrow> (reg\<lparr>extents := b, rgn_data := NoData\<rparr>, k)
     | _ \<Rightarrow> DOWNSIZE mem (reg, k))"

text \<open>The array the result starts with. \<open>same1\<close> and \<open>same2\<close> say that the destination is the first or the second operand.\<close>

definition start_data :: "bool \<Rightarrow> bool \<Rightarrow> RegionRec \<Rightarrow> RegionRec \<Rightarrow> RegionRec \<Rightarrow> RegDataRec" where
  "start_data same1 same2 newReg reg1 reg2 =
     (if same1 \<and> RegionNumRects reg1 > 1 \<or> same2 \<and> RegionNumRects reg2 > 1 then RegionEmptyData
      else case rgn_data newReg of
             NoData \<Rightarrow> RegionEmptyData
           | RegData sz bs \<Rightarrow> RegData sz (if sz \<noteq> 0 then [] else bs)
           | d \<Rightarrow> d)"

text \<open>A destination that is an operand of one rectangle must keep it in its extents: in an array it would be overwritten while it is read.\<close>

definition clobbers :: "bool \<Rightarrow> RegionRec \<Rightarrow> bool" where
  "clobbers same reg \<longleftrightarrow> same \<and> RegionNumRects reg = 1 \<and> rgn_data reg \<noteq> NoData"

definition RegionOp :: "(nat \<Rightarrow> bool) \<Rightarrow> bool \<Rightarrow> bool \<Rightarrow> RegionRec \<Rightarrow> RegionRec \<Rightarrow> RegionRec \<Rightarrow> overlap_proc \<Rightarrow> bool \<Rightarrow> bool \<Rightarrow> bool \<Rightarrow> nat \<Rightarrow>
    (bool \<times> bool \<times> rstate) option" where
  "RegionOp mem same1 same2 newReg reg1 reg2 f appendNon1 appendNon2 ovl k =
     (if RegionNar reg1 \<or> RegionNar reg2 then Some (False, ovl, RegionBreak newReg, k)
      else if clobbers same1 reg1 \<or> clobbers same2 reg2 then None
      else case (RegionRects reg1, RegionRects reg2) of
        (c # r1, d # r2) \<Rightarrow>
          let newSize = 2 * max (RegionNumRects reg1) (RegionNumRects reg2);
              d0 = start_data same1 same2 newReg reg1 reg2;
              (ok, st) = (if newSize > data_size d0 then RegionRectAlloc mem newSize (newReg\<lparr>rgn_data := d0\<rparr>, k)
                          else (True, newReg\<lparr>rgn_data := d0\<rparr>, k))
          in if \<not> ok then Some (False, ovl, st)
             else Option.bind (op_loop mem f appendNon1 appendNon2 (c # r1) (d # r2) (min (y1 c) (y1 d)) 0 ovl st)
               (\<lambda>(r1', r2', ybot, prevBand, ovl', st1).
                let (ok', st2) = op_rest mem appendNon1 appendNon2 r1' r2' ybot prevBand st1
                in Some (if ok' then (True, ovl', op_end mem st2) else (False, ovl', st2)))
      | _ \<Rightarrow> None)"

subsection \<open>The union of two bands\<close>

text \<open>\<open>MERGERECT\<close>: the current rectangle runs from \<open>l\<close> to \<open>r\<close>.\<close>

definition MERGERECT :: "(nat \<Rightarrow> bool) \<Rightarrow> int \<Rightarrow> int \<Rightarrow> BoxRec \<Rightarrow> int \<times> int \<times> bool \<times> rstate \<Rightarrow> bool \<times> int \<times> int \<times> bool \<times> rstate" where
  "MERGERECT mem t b c = (\<lambda>(l, r, ovl, st).
     if x1 c \<le> r then (True, l, (if r < x2 c then x2 c else r), ovl \<or> x1 c < r, st)
     else case NEWRECT mem (Box l t r b) st of (ok, st') \<Rightarrow> (ok, x1 c, x2 c, ovl, st'))"

fun union_loop :: "(nat \<Rightarrow> bool) \<Rightarrow> int \<Rightarrow> int \<Rightarrow> BoxRec list \<Rightarrow> BoxRec list \<Rightarrow> int \<times> int \<times> bool \<times> rstate \<Rightarrow> bool \<times> rstate" where
  "union_loop mem t b [] [] (l, r, ovl, st) = (ovl, snd (NEWRECT mem (Box l t r b) st))"
| "union_loop mem t b (c # r1) [] s =
     (case MERGERECT mem t b c s of (ok, s') \<Rightarrow> if ok then union_loop mem t b r1 [] s' else snd (snd s'))"
| "union_loop mem t b [] (d # r2) s =
     (case MERGERECT mem t b d s of (ok, s') \<Rightarrow> if ok then union_loop mem t b [] r2 s' else snd (snd s'))"
| "union_loop mem t b (c # r1) (d # r2) s =
     (if x1 c < x1 d
      then case MERGERECT mem t b c s of (ok, s') \<Rightarrow> if ok then union_loop mem t b r1 (d # r2) s' else snd (snd s')
      else case MERGERECT mem t b d s of (ok, s') \<Rightarrow> if ok then union_loop mem t b (c # r1) r2 s' else snd (snd s'))"

fun RegionUnionO :: "(nat \<Rightarrow> bool) \<Rightarrow> overlap_proc" where
  "RegionUnionO mem (c # r1) (d # r2) t b ovl st =
     Some (if x1 c < x1 d then union_loop mem t b r1 (d # r2) (x1 c, x2 c, ovl, st)
           else union_loop mem t b (c # r1) r2 (x1 d, x2 d, ovl, st))"
| "RegionUnionO mem _ _ t b ovl st = None"

end
