(* ===== verification/RegionBands.thy ===== *)
theory RegionBands
  imports Region
begin

text \<open>
  What an array of rectangles means. A region is viewed as a list of bands, each with its top, its bottom and the spans of its rectangles;
  the line at \<open>y\<close> is the set of the covered x coordinates. Coalescing, finding a band and the loop of \<open>RegionUnionO\<close>
  are described on bands and spans.
\<close>

subsection \<open>Spans, bands, points\<close>

type_synonym span = "int \<times> int"

datatype band = Band (btop: int) (bbot: int) (spans: "span list")

definition points :: "BoxRec list \<Rightarrow> (int \<times> int) set" where
  "points xs = {(x, y). \<exists>b \<in> set xs. x1 b \<le> x \<and> x < x2 b \<and> y1 b \<le> y \<and> y < y2 b}"

definition xs_of :: "span list \<Rightarrow> int set" where
  "xs_of ss = (\<Union>(l, r) \<in> set ss. {l..<r})"

fun spans_ok :: "span list \<Rightarrow> bool" where
  "spans_ok [] \<longleftrightarrow> True"
| "spans_ok [(l, r)] \<longleftrightarrow> l < r"
| "spans_ok ((l, r) # (l', r') # ss) \<longleftrightarrow> l < r \<and> r < l' \<and> spans_ok ((l', r') # ss)"

definition band_ok :: "band \<Rightarrow> bool" where
  "band_ok B \<longleftrightarrow> btop B < bbot B \<and> spans B \<noteq> [] \<and> spans_ok (spans B)"

definition boxes_of :: "band \<Rightarrow> BoxRec list" where
  "boxes_of B = List.map (\<lambda>s. Box (fst s) (btop B) (snd s) (bbot B)) (spans B)"

definition flat :: "band list \<Rightarrow> BoxRec list" where
  "flat bs = concat (List.map boxes_of bs)"

text \<open>Bands follow each other downwards; in a coalesced list no two bands that touch have the same spans.\<close>

fun banded :: "band list \<Rightarrow> bool" where
  "banded [] \<longleftrightarrow> True"
| "banded (B # bs) \<longleftrightarrow> band_ok B \<and> (\<forall>C \<in> set bs. bbot B \<le> btop C) \<and> banded bs"

fun coalesced :: "band list \<Rightarrow> bool" where
  "coalesced (B # C # bs) \<longleftrightarrow> \<not> (bbot B = btop C \<and> spans B = spans C) \<and> coalesced (C # bs)"
| "coalesced _ \<longleftrightarrow> True"

definition line :: "band list \<Rightarrow> int \<Rightarrow> int set" where
  "line bs y = (\<Union>B \<in> {B \<in> set bs. btop B \<le> y \<and> y < bbot B}. xs_of (spans B))"

definition inside :: "int set \<Rightarrow> int set \<Rightarrow> band list \<Rightarrow> bool" where
  "inside Y X bs \<longleftrightarrow> (\<forall>B \<in> set bs. btop B \<in> Y \<and> bbot B \<in> Y \<and> fst ` set (spans B) \<subseteq> X)"

lemma flat_simps [simp]: "flat [] = []" "flat (B # bs) = boxes_of B @ flat bs" "flat (as @ bs) = flat as @ flat bs"
  by (auto simp: flat_def)

lemma length_boxes_of [simp]: "length (boxes_of B) = length (spans B)"
  by (simp add: boxes_of_def)

lemma xs_of_simps [simp]: "xs_of [] = {}" "xs_of (s # ss) = {fst s..<snd s} \<union> xs_of ss" "xs_of (as @ bs) = xs_of as \<union> xs_of bs"
  by (auto simp: xs_of_def)

lemma line_simps [simp]: "line [] y = {}" "line (as @ bs) y = line as y \<union> line bs y"
  "line (B # bs) y = (if btop B \<le> y \<and> y < bbot B then xs_of (spans B) else {}) \<union> line bs y"
  by (auto simp: line_def)

lemma inside_simps [simp]: "inside Y X []" "inside Y X (as @ bs) \<longleftrightarrow> inside Y X as \<and> inside Y X bs"
  "inside Y X (B # bs) \<longleftrightarrow> btop B \<in> Y \<and> bbot B \<in> Y \<and> fst ` set (spans B) \<subseteq> X \<and> inside Y X bs"
  by (auto simp: inside_def)

lemma points_append [simp]: "points (as @ bs) = points as \<union> points bs" "points [] = {}"
  by (auto simp: points_def)

lemma in_xs_of: "x \<in> xs_of ss \<longleftrightarrow> (\<exists>s \<in> set ss. fst s \<le> x \<and> x < snd s)"
  by (force simp: xs_of_def)

lemma points_boxes_of: "points (boxes_of B) = {(x, y). x \<in> xs_of (spans B) \<and> btop B \<le> y \<and> y < bbot B}"
  by (auto simp: points_def boxes_of_def in_xs_of)

lemma points_flat: "(x, y) \<in> points (flat bs) \<longleftrightarrow> x \<in> line bs y"
  by (induction bs) (auto simp: points_boxes_of)

lemma banded_append [simp]:
  "banded (as @ bs) \<longleftrightarrow> banded as \<and> banded bs \<and> (\<forall>A \<in> set as. \<forall>B \<in> set bs. bbot A \<le> btop B)"
  by (induction as) auto

lemma banded_mem: "banded bs \<Longrightarrow> B \<in> set bs \<Longrightarrow> band_ok B"
  by (induction bs) auto

lemma line_above: "(\<forall>B \<in> set bs. y < btop B) \<Longrightarrow> line bs y = {}"
  by (force simp: line_def)

lemma line_below: "(\<forall>B \<in> set bs. bbot B \<le> y) \<Longrightarrow> line bs y = {}"
  by (force simp: line_def)

lemma line_head:
  assumes "banded (B # bs)"
  shows "line (B # bs) y = (if btop B \<le> y \<and> y < bbot B then xs_of (spans B) else line bs y)"
proof -
  have "line bs y = {}" if "y < bbot B" using assms that by (intro line_above) fastforce
  then show ?thesis by auto
qed

subsection \<open>The number of rectangles\<close>

lemma spans_ok_tail: "spans_ok (s # ss) \<Longrightarrow> spans_ok ss \<and> fst s < snd s \<and> (\<forall>s' \<in> set ss. snd s < fst s')"
proof (induction ss arbitrary: s)
  case Nil
  then show ?case by (cases s) auto
next
  case (Cons s' ss)
  then show ?case by (cases s; cases s') fastforce
qed

lemma spans_ok_distinct: "spans_ok ss \<Longrightarrow> distinct (List.map fst ss)"
proof (induction ss)
  case (Cons s ss)
  then show ?case using spans_ok_tail [of s ss] by fastforce
qed simp

lemma flat_coords: "b \<in> set (flat bs) \<Longrightarrow> \<exists>B \<in> set bs. y1 b = btop B \<and> y2 b = bbot B \<and> (x1 b, x2 b) \<in> set (spans B)"
  by (auto simp: flat_def boxes_of_def)

lemma flat_distinct: "banded bs \<Longrightarrow> distinct (List.map (\<lambda>b. (y1 b, x1 b)) (flat bs))"
proof (induction bs)
  case (Cons B bs)
  have "distinct (List.map (\<lambda>b. (y1 b, x1 b)) (boxes_of B))"
    using Cons.prems spans_ok_distinct [of "spans B"]
    by (auto simp: boxes_of_def band_ok_def distinct_map inj_on_def comp_def)
  moreover have "y1 b \<noteq> btop B" if "b \<in> set (flat bs)" for b
    using flat_coords [OF that] Cons.prems by (fastforce simp: band_ok_def)
  ultimately show ?case using Cons by (force simp: boxes_of_def)
qed simp

lemma flat_bound:
  assumes "banded bs" "inside Y X bs" "finite Y" "finite X"
  shows "length (flat bs) \<le> card Y * card X"
proof -
  let ?f = "\<lambda>b. (y1 b, x1 b)"
  have "set (List.map ?f (flat bs)) \<subseteq> Y \<times> X"
    using assms(2) by (force dest!: flat_coords simp: inside_def)
  then have "card (set (List.map ?f (flat bs))) \<le> card (Y \<times> X)"
    using assms(3,4) by (intro card_mono) auto
  then show ?thesis
    using distinct_card [OF flat_distinct [OF assms(1)]] by (simp add: card_cartesian_product)
qed

subsection \<open>Adding a band\<close>

definition add_band :: "band list \<Rightarrow> band \<Rightarrow> band list" where
  "add_band out B =
     (if out \<noteq> [] \<and> bbot (last out) = btop B \<and> spans (last out) = spans B
      then butlast out @ [Band (btop (last out)) (bbot B) (spans B)] else out @ [B])"

definition band_start :: "band list \<Rightarrow> nat" where
  "band_start out = length (flat (butlast out))"

lemma same_spans_iff: "length ss = length ss' \<Longrightarrow> same_spans (boxes_of (Band t b ss)) (boxes_of (Band t' b' ss')) \<longleftrightarrow> ss = ss'"
  by (induction ss ss' rule: list_induct2) (auto simp: boxes_of_def split: prod.splits)

lemma boxes_stretch: "List.map (\<lambda>p. p\<lparr>y2 := b'\<rparr>) (boxes_of (Band t b ss)) = boxes_of (Band t b' ss)"
  by (auto simp: boxes_of_def)

lemma RegionCoalesce_append:
  assumes "length P = length C" "P \<noteq> []"
  shows "RegionCoalesce (length A) (length A + length P) (A @ P @ C) =
    (if y2 (hd P) = y1 (hd C) \<and> same_spans P C then (length A, A @ List.map (\<lambda>p. p\<lparr>y2 := y2 (hd C)\<rparr>) P)
     else (length A + length P, A @ P @ C))"
proof -
  have "(A @ P @ C) ! length A = hd P" "(A @ P @ C) ! (length A + length P) = hd C"
    using assms by (cases P; cases C; simp add: nth_append)+
  then show ?thesis using assms by (cases "C = []") (simp_all add: RegionCoalesce_def Let_def)
qed

text \<open>\<open>Coalesce\<close> on the array of a band list with one more band adds that band.\<close>

lemma Coalesce_flat:
  assumes "spans B \<noteq> []" "\<forall>C \<in> set out. spans C \<noteq> []"
  shows "Coalesce (band_start out) (length (flat out)) (flat out @ boxes_of B) = (band_start (add_band out B), flat (add_band out B))"
proof (cases out rule: rev_cases)
  case Nil
  then show ?thesis using assms by (simp add: Coalesce_def band_start_def add_band_def)
next
  case (snoc out' P)
  obtain t b ss where B: "B = Band t b ss" by (cases B)
  obtain t' b' ss' where P: "P = Band t' b' ss'" by (cases P)
  have ne: "ss \<noteq> []" "ss' \<noteq> []" using assms by (auto simp: B P snoc)
  show ?thesis
  proof (cases "length ss = length ss'")
    case False
    then show ?thesis using assms by (auto simp: Coalesce_def band_start_def add_band_def snoc B P butlast_append)
  next
    case True
    have hds: "hd (boxes_of P) = Box (fst (hd ss')) t' (snd (hd ss')) b'" "hd (boxes_of B) = Box (fst (hd ss)) t (snd (hd ss)) b"
      using ne by (simp_all add: B P boxes_of_def hd_map)
    have "Coalesce (band_start out) (length (flat out)) (flat out @ boxes_of B) =
      RegionCoalesce (length (flat out')) (length (flat out') + length (boxes_of P)) (flat out' @ boxes_of P @ boxes_of B)"
      using True by (simp add: Coalesce_def band_start_def snoc B P)
    also have "\<dots> = (if b' = t \<and> ss' = ss then (length (flat out'), flat out' @ boxes_of (Band t' b ss'))
        else (length (flat out') + length (boxes_of P), flat out' @ boxes_of P @ boxes_of B))"
    proof -
      have "same_spans (boxes_of P) (boxes_of B) \<longleftrightarrow> ss' = ss" using True same_spans_iff [of ss' ss] by (simp add: B P)
      moreover have "boxes_of P \<noteq> []" "length (boxes_of P) = length (boxes_of B)" using True ne by (simp_all add: B P boxes_of_def)
      moreover have "List.map (\<lambda>p. p\<lparr>y2 := b\<rparr>) (boxes_of P) = boxes_of (Band t' b ss')" by (simp add: P boxes_stretch)
      ultimately show ?thesis using RegionCoalesce_append [of "boxes_of P" "boxes_of B" "flat out'"] by (simp add: hds)
    qed
    also have "\<dots> = (band_start (add_band out B), flat (add_band out B))"
      by (auto simp: band_start_def add_band_def snoc B P butlast_append)
    finally show ?thesis .
  qed
qed

lemma add_band_last: "last (add_band out B) = (if out \<noteq> [] \<and> bbot (last out) = btop B \<and> spans (last out) = spans B
    then Band (btop (last out)) (bbot B) (spans B) else B)" "add_band out B \<noteq> []"
  by (auto simp: add_band_def)

lemma coalesced_snoc: "coalesced (bs @ [B]) \<longleftrightarrow> coalesced bs \<and> (bs \<noteq> [] \<longrightarrow> \<not> (bbot (last bs) = btop B \<and> spans (last bs) = spans B))"
  by (induction bs rule: coalesced.induct) auto

lemma coalesced_join:
  "coalesced (as @ bs) \<longleftrightarrow> coalesced as \<and> coalesced bs \<and>
     (as \<noteq> [] \<longrightarrow> bs \<noteq> [] \<longrightarrow> \<not> (bbot (last as) = btop (hd bs) \<and> spans (last as) = spans (hd bs)))"
proof (induction as)
  case (Cons B as)
  then show ?case by (cases as; cases bs) auto
qed simp

lemma add_band_spec:
  assumes "banded out" "coalesced out" "\<forall>C \<in> set out. bbot C \<le> btop B" "band_ok B"
  shows "banded (add_band out B)" "coalesced (add_band out B)" "\<forall>C \<in> set (add_band out B). bbot C \<le> bbot B"
    "line (add_band out B) y = line out y \<union> (if btop B \<le> y \<and> y < bbot B then xs_of (spans B) else {})"
proof -
  have "banded (add_band out B) \<and> coalesced (add_band out B) \<and> (\<forall>C \<in> set (add_band out B). bbot C \<le> bbot B) \<and>
    line (add_band out B) y = line out y \<union> (if btop B \<le> y \<and> y < bbot B then xs_of (spans B) else {})"
  proof (cases out rule: rev_cases)
    case Nil
    then show ?thesis using assms by (simp add: add_band_def)
  next
    case (snoc out' P)
    show ?thesis
    proof (cases "bbot P = btop B \<and> spans P = spans B")
      case True
      have "\<forall>C \<in> set out'. bbot C \<le> bbot B" using assms(3,4) by (auto simp: snoc band_ok_def)
      then show ?thesis using assms True by (auto simp: add_band_def snoc coalesced_snoc band_ok_def)
    next
      case False
      have "\<forall>C \<in> set out. bbot C \<le> bbot B" using assms(3,4) by (auto simp: band_ok_def)
      moreover have "add_band out B = out @ [B]" "\<not> (bbot (last out) = btop B \<and> spans (last out) = spans B)"
        using False by (auto simp: add_band_def snoc)
      ultimately show ?thesis using assms coalesced_snoc [of out B] by auto
    qed
  qed
  then show "banded (add_band out B)" "coalesced (add_band out B)" "\<forall>C \<in> set (add_band out B). bbot C \<le> bbot B"
    "line (add_band out B) y = line out y \<union> (if btop B \<le> y \<and> y < bbot B then xs_of (spans B) else {})" by auto
qed

lemma add_band_inside: "inside Y X out \<Longrightarrow> inside Y X [B] \<Longrightarrow> inside Y X (add_band out B)"
  by (cases out rule: rev_cases) (auto simp: add_band_def)

lemma FindBand_flat:
  assumes "banded (B # bs)" "boxes_of B = c # r"
  shows "FindBand c (r @ flat bs) = (boxes_of B, flat bs)"
proof -
  have y: "y1 b = btop B" if "b \<in> set (boxes_of B)" for b using that by (auto simp: boxes_of_def)
  have c: "y1 c = btop B" and r: "\<forall>b \<in> set r. y1 b = btop B" using y assms(2) by auto
  have "\<forall>b \<in> set (flat bs). y1 b \<noteq> btop B"
    using assms(1) by (fastforce dest!: flat_coords simp: band_ok_def)
  then have "flat bs = [] \<or> y1 (hd (flat bs)) \<noteq> btop B" by (cases "flat bs") auto
  then have "takeWhile (\<lambda>b. y1 b = y1 c) (flat bs) = [] \<and> dropWhile (\<lambda>b. y1 b = y1 c) (flat bs) = flat bs"
    by (cases "flat bs") (auto simp: c)
  then show ?thesis using r by (simp add: FindBand_def assms(2) c)
qed

end
