(* ===== verification/RegionSweep.thy ===== *)
theory RegionSweep
  imports RegionBands
begin

text \<open>
  The sweep of \<open>RegionOp\<close>. Its contract with the function for overlapping bands is a locale: the function combines the spans of two bands,
  the two flags say what happens where only one region has points, and then the sweep computes the combination of the two regions line by line,
  as a list of bands in which no two can be merged. \<open>RegionUnionO\<close> meets the contract for the union.
\<close>

subsection \<open>Enough memory\<close>

text \<open>All allocations succeed, and arrays of twice \<open>L\<close> rectangles are within the limit of \<open>RegionSizeof\<close>.\<close>

definition ample :: "(nat \<Rightarrow> bool) \<Rightarrow> nat \<Rightarrow> bool" where
  "ample mem L \<longleftrightarrow> (\<forall>k. mem k) \<and> 2 * L + 500 < 268435453"

abbreviation array_of :: "BoxRec \<Rightarrow> nat \<Rightarrow> BoxRec list \<Rightarrow> RegionRec" where
  "array_of e sz bs \<equiv> \<lparr>extents = e, rgn_data = RegData sz bs\<rparr>"

lemma rect_mem_ok: "ample mem L \<Longrightarrow> n \<le> 2 * L + 500 \<Longrightarrow> rect_mem mem k n"
  by (simp add: ample_def rect_mem_def RegionSizeof_def)

lemma RECTALLOC_ok:
  assumes "ample mem L" "length bs \<le> sz" "sz \<noteq> 0" "length bs + n \<le> L"
  shows "\<exists>sz' k'. RECTALLOC mem n (array_of e sz bs, k) = (True, array_of e sz' bs, k') \<and> length bs + n \<le> sz' \<and> sz' \<noteq> 0"
proof (cases "length bs + n > sz")
  case True
  let ?n = "alloc_size (RegData sz bs) n"
  have "length bs + n \<le> ?n \<and> ?n \<le> 2 * L + 500" using assms True by auto
  then have "RECTALLOC mem n (array_of e sz bs, k) = (True, array_of e ?n bs, Suc k) \<and> length bs + n \<le> ?n \<and> ?n \<noteq> 0"
    using assms True rect_mem_ok [OF assms(1), of ?n k] by (auto simp: RECTALLOC_def RegionRectAlloc_def Let_def simp del: alloc_size.simps)
  then show ?thesis by blast
next
  case False
  then show ?thesis using assms by (auto simp: RECTALLOC_def)
qed

lemma NEWRECT_ok:
  assumes "ample mem L" "length bs \<le> sz" "sz \<noteq> 0" "length bs + 1 \<le> L"
  shows "\<exists>sz' k'. NEWRECT mem b (array_of e sz bs, k) = (True, array_of e sz' (bs @ [b]), k') \<and> length (bs @ [b]) \<le> sz' \<and> sz' \<noteq> 0"
  using RECTALLOC_ok [OF assms, of e k] by (auto simp: NEWRECT_def add_boxes_def)

lemma RegionAppendNonO_ok:
  assumes "ample mem L" "length bs \<le> sz" "sz \<noteq> 0" "length bs + length (spans B) \<le> L"
  shows "\<exists>sz' k'. RegionAppendNonO mem (boxes_of B) t b (array_of e sz bs, k) =
      (True, array_of e sz' (bs @ boxes_of (Band t b (spans B))), k') \<and> length bs + length (spans B) \<le> sz' \<and> sz' \<noteq> 0"
  using RECTALLOC_ok [OF assms, of e k] by (auto simp: RegionAppendNonO_def add_boxes_def boxes_of_def comp_def)

text \<open>Coalescing never makes the array longer.\<close>

lemma add_band_length: "length (flat (add_band out B)) \<le> length (flat out) + length (spans B)"
  by (cases out rule: rev_cases) (auto simp: add_band_def)

lemma coalesce_reg_flat:
  assumes "spans B \<noteq> []" "banded out"
  shows "coalesce_reg (band_start out) (length (flat out)) (array_of e sz (flat out @ boxes_of B)) =
    (band_start (add_band out B), array_of e sz (flat (add_band out B)))"
proof -
  have "\<forall>C \<in> set out. spans C \<noteq> []" using banded_mem [OF assms(2)] by (auto simp: band_ok_def)
  then show ?thesis using Coalesce_flat [OF assms(1)] by (simp add: coalesce_reg_def)
qed

text \<open>A region that holds the rectangles of a band list: a single one stands in the extents, and more leave the extents \<open>e\<close> alone.\<close>

definition holds_bands :: "BoxRec \<Rightarrow> band list \<Rightarrow> RegionRec \<Rightarrow> bool" where
  "holds_bands e bs reg \<longleftrightarrow> RegionRects reg = flat bs \<and> (if length (flat bs) = 1 then rgn_data reg = NoData else extents reg = e)"

lemma op_end_holds:
  "\<exists>reg k'. op_end mem (array_of e sz (flat bs), k) = (reg, k') \<and> holds_bands e bs reg"
proof (cases "flat bs")
  case Nil
  then show ?thesis by (simp add: op_end_def holds_bands_def RegionRects_def)
next
  case (Cons b rest)
  then show ?thesis
    by (cases rest) (auto simp: op_end_def holds_bands_def RegionRects_def DOWNSIZE_def)
qed

subsection \<open>One step of the sweep\<close>

definition sweep_single :: "bool \<Rightarrow> bool \<Rightarrow> band \<Rightarrow> band \<Rightarrow> int \<Rightarrow> band list \<Rightarrow> band list" where
  "sweep_single a1 a2 B C ybot out =
     (if btop B < btop C then
        (if a1 \<and> max (btop B) ybot \<noteq> min (bbot B) (btop C)
         then add_band out (Band (max (btop B) ybot) (min (bbot B) (btop C)) (spans B)) else out)
      else if btop C < btop B then
        (if a2 \<and> max (btop C) ybot \<noteq> min (bbot C) (btop B)
         then add_band out (Band (max (btop C) ybot) (min (bbot C) (btop B)) (spans C)) else out)
      else out)"

definition sweep_both :: "(span list \<Rightarrow> span list \<Rightarrow> span list) \<Rightarrow> band \<Rightarrow> band \<Rightarrow> band list \<Rightarrow> band list" where
  "sweep_both g B C out =
     (if min (bbot B) (bbot C) > max (btop B) (btop C)
      then add_band out (Band (max (btop B) (btop C)) (min (bbot B) (bbot C)) (g (spans B) (spans C))) else out)"

definition left_over :: "int \<Rightarrow> band \<Rightarrow> band list \<Rightarrow> band list" where
  "left_over ybot B bs = (if bbot B = ybot then bs else B # bs)"

text \<open>Between two steps: the bands written end above \<open>ybot\<close>, and the current bands end below it; one of them has not been entered.\<close>

definition out_ok :: "int \<Rightarrow> band list \<Rightarrow> bool" where
  "out_ok ybot out \<longleftrightarrow> banded out \<and> coalesced out \<and> (\<forall>B \<in> set out. bbot B \<le> ybot)"

definition rest_ok :: "int \<Rightarrow> band list \<Rightarrow> bool" where
  "rest_ok ybot bs \<longleftrightarrow> banded bs \<and> coalesced bs \<and> (\<forall>B \<in> set bs. ybot < bbot B)"

definition sweep_inv :: "int set \<Rightarrow> int set \<Rightarrow> int \<Rightarrow> band list \<Rightarrow> band list \<Rightarrow> band list \<Rightarrow> bool" where
  "sweep_inv Y X ybot bs cs out \<longleftrightarrow>
     out_ok ybot out \<and> rest_ok ybot bs \<and> rest_ok ybot cs \<and> ybot \<in> Y \<and> inside Y X (out @ bs @ cs) \<and>
     (bs \<noteq> [] \<longrightarrow> cs \<noteq> [] \<longrightarrow> ybot \<le> max (btop (hd bs)) (btop (hd cs)))"

text \<open>What the sweep will have covered of the line at \<open>y\<close> when it ends.\<close>

definition covered :: "(int set \<Rightarrow> int set \<Rightarrow> int set) \<Rightarrow> int \<Rightarrow> band list \<Rightarrow> band list \<Rightarrow> band list \<Rightarrow> int \<Rightarrow> int set" where
  "covered f ybot bs cs out y = line out y \<union> (if ybot \<le> y then f (line bs y) (line cs y) else {})"

lemma left_over_ok:
  assumes "rest_ok ybot (B # bs)" "z \<le> bbot B"
  shows "rest_ok z (left_over z B bs)" "z \<le> y \<Longrightarrow> line (left_over z B bs) y = line (B # bs) y"
    "inside Y X (B # bs) \<Longrightarrow> inside Y X (left_over z B bs)"
    "left_over z B bs \<noteq> [] \<Longrightarrow> btop B \<le> btop (hd (left_over z B bs)) \<and> (bbot B = z \<longrightarrow> z \<le> btop (hd (left_over z B bs)))"
proof -
  have bs: "bbot B \<le> btop C" "btop C < bbot C" if "C \<in> set bs" for C
    using assms(1) that banded_mem [of bs C] by (auto simp: rest_ok_def band_ok_def)
  have B: "banded (B # bs)" "btop B < bbot B" "coalesced bs" using assms(1) by (cases bs; auto simp: rest_ok_def band_ok_def)+
  show "rest_ok z (left_over z B bs)"
    using assms B bs by (force simp: rest_ok_def left_over_def)
  show "line (left_over z B bs) y = line (B # bs) y" if "z \<le> y"
    using that assms(2) line_head [OF B(1), of y] by (auto simp: left_over_def)
  show "inside Y X (left_over z B bs)" if "inside Y X (B # bs)" using that by (auto simp: left_over_def)
  show "btop B \<le> btop (hd (left_over z B bs)) \<and> (bbot B = z \<longrightarrow> z \<le> btop (hd (left_over z B bs)))" if "left_over z B bs \<noteq> []"
    using that bs [of "hd bs"] B(2) by (auto simp: left_over_def)
qed

lemma add_band_out_ok:
  assumes "out_ok z out" "z \<le> btop B" "band_ok B"
  shows "out_ok (bbot B) (add_band out B)"
    "line (add_band out B) y = line out y \<union> (if btop B \<le> y \<and> y < bbot B then xs_of (spans B) else {})"
proof -
  have "\<forall>C \<in> set out. bbot C \<le> btop B" using assms by (auto simp: out_ok_def)
  then show "out_ok (bbot B) (add_band out B)"
    "line (add_band out B) y = line out y \<union> (if btop B \<le> y \<and> y < bbot B then xs_of (spans B) else {})"
    using assms add_band_spec [of out B] by (auto simp: out_ok_def)
qed

lemma out_ok_mono: "out_ok z out \<Longrightarrow> z \<le> z' \<Longrightarrow> out_ok z' out"
  by (force simp: out_ok_def)

text \<open>The part of the step where one region has no points: a band is clipped at \<open>ybot\<close> and at the top \<open>t\<close> of the other region's band.\<close>

definition add_single :: "bool \<Rightarrow> band \<Rightarrow> int \<Rightarrow> int \<Rightarrow> band list \<Rightarrow> band list" where
  "add_single a B t ybot out =
     (if a \<and> max (btop B) ybot \<noteq> min (bbot B) t then add_band out (Band (max (btop B) ybot) (min (bbot B) t) (spans B)) else out)"

lemma sweep_single_alt:
  "sweep_single a1 a2 B C ybot out =
     (if btop B < btop C then add_single a1 B (btop C) ybot out
      else if btop C < btop B then add_single a2 C (btop B) ybot out else out)"
  by (simp add: sweep_single_def add_single_def)

lemma add_single_ok:
  assumes out: "out_ok ybot out" and B: "band_ok B" "ybot < bbot B" "btop B < t" "ybot \<le> t"
    and ins: "inside Y X out" "inside Y X [B]" "ybot \<in> Y" "t \<in> Y"
  shows "out_ok (max ybot (min t (bbot B))) (add_single a B t ybot out)" (is ?ok)
    and "inside Y X (add_single a B t ybot out)" (is ?ins)
    and "line (add_single a B t ybot out) y = line out y \<union>
      (if a \<and> ybot \<le> y \<and> btop B \<le> y \<and> y < bbot B \<and> y < t then xs_of (spans B) else {})" (is ?line)
proof -
  let ?N = "Band (max (btop B) ybot) (min (bbot B) t) (spans B)"
  have t: "btop B < bbot B" using B(1) by (simp add: band_ok_def)
  have "?ok \<and> ?ins \<and> ?line"
  proof (cases "a \<and> max (btop B) ybot \<noteq> min (bbot B) t")
    case True
    then have e: "add_single a B t ybot out = add_band out ?N" by (simp add: add_single_def)
    have N: "band_ok ?N" using True t B by (auto simp: band_ok_def max_def min_def)
    note ok = add_band_out_ok [OF out _ N]
    have "out_ok (bbot ?N) (add_band out ?N)" by (rule ok(1)) simp
    then have "?ok" unfolding e by (rule out_ok_mono) simp
    moreover have ?ins unfolding e using ins by (intro add_band_inside) (auto simp: max_def min_def)
    moreover have ?line unfolding e using ok(2) [of y] True by auto
    ultimately show ?thesis by blast
  next
    case False
    then have e: "add_single a B t ybot out = out" by (auto simp: add_single_def)
    have "?ok" unfolding e using out by (rule out_ok_mono) simp
    moreover have ?line unfolding e using False t B by auto
    ultimately show ?thesis using ins(1) e by simp
  qed
  then show ?ok ?ins ?line by blast+
qed

lemma sweep_inv_heads:
  assumes "sweep_inv Y X ybot (B # bs) (C # cs) out"
  shows "out_ok ybot out" "ybot < bbot B" "ybot < bbot C" "ybot \<le> max (btop B) (btop C)" "band_ok B" "band_ok C"
    "btop B < bbot B" "btop C < bbot C" "inside Y X out" "inside Y X [B]" "inside Y X [C]" "ybot \<in> Y" "btop B \<in> Y" "btop C \<in> Y"
  using assms by (auto simp: sweep_inv_def rest_ok_def band_ok_def)

lemma sweep_single_ok:
  assumes inv: "sweep_inv Y X ybot (B # bs) (C # cs) out"
  shows "out_ok (max ybot (min (max (btop B) (btop C)) (min (bbot B) (bbot C)))) (sweep_single a1 a2 B C ybot out)" (is ?ok)
    and "inside Y X (sweep_single a1 a2 B C ybot out)" (is ?ins)
    and "line (sweep_single a1 a2 B C ybot out) y = line out y \<union>
       (if a1 \<and> ybot \<le> y \<and> btop B \<le> y \<and> y < bbot B \<and> y < btop C then xs_of (spans B) else {}) \<union>
       (if a2 \<and> ybot \<le> y \<and> btop C \<le> y \<and> y < bbot C \<and> y < btop B then xs_of (spans C) else {})" (is ?line)
proof -
  note h = sweep_inv_heads [OF inv]
  consider "btop B < btop C" | "btop C < btop B" | "btop B = btop C" by linarith
  then have "?ok \<and> ?ins \<and> ?line"
  proof cases
    case 1
    then have z: "max ybot (min (max (btop B) (btop C)) (min (bbot B) (bbot C))) = max ybot (min (btop C) (bbot B))" using h by auto
    show ?thesis
      using 1 add_single_ok [OF h(1) h(5) h(2) 1 _ h(9,10,12,14), of a1] h(4) unfolding z sweep_single_alt by auto
  next
    case 2
    then have z: "max ybot (min (max (btop B) (btop C)) (min (bbot B) (bbot C))) = max ybot (min (btop B) (bbot C))" using h by auto
    show ?thesis
      using 2 add_single_ok [OF h(1) h(6) h(3) 2 _ h(9,11,12,13), of a2] h(4) unfolding z sweep_single_alt by auto
  next
    case 3
    then show ?thesis using h out_ok_mono [OF h(1)] by (auto simp: sweep_single_alt)
  qed
  then show ?ok ?ins ?line by blast+
qed

subsection \<open>The contract of an overlap function\<close>

locale band_overlap =
  fixes mem :: "nat \<Rightarrow> bool"
    and f :: overlap_proc
    and g :: "span list \<Rightarrow> span list \<Rightarrow> span list"
    and comb :: "int set \<Rightarrow> int set \<Rightarrow> int set"
    and a1 a2 :: bool
    and L :: nat
  assumes memory: "ample mem L"
    and overlap_adds: "\<lbrakk>s1 \<noteq> []; s2 \<noteq> []; spans_ok s1; spans_ok s2; length bs \<le> sz; sz \<noteq> 0; length bs + length (g s1 s2) \<le> L\<rbrakk> \<Longrightarrow>
      \<exists>ovl' sz' k'. f (boxes_of (Band t1 b1 s1)) (boxes_of (Band t2 b2 s2)) t b ovl (array_of e sz bs, k) =
          Some (ovl', array_of e sz' (bs @ boxes_of (Band t b (g s1 s2))), k') \<and> length bs + length (g s1 s2) \<le> sz' \<and> sz' \<noteq> 0"
    and combined_ok: "\<lbrakk>s1 \<noteq> []; s2 \<noteq> []; spans_ok s1; spans_ok s2\<rbrakk> \<Longrightarrow> spans_ok (g s1 s2) \<and> g s1 s2 \<noteq> []"
    and combined_xs: "\<lbrakk>s1 \<noteq> []; s2 \<noteq> []; spans_ok s1; spans_ok s2\<rbrakk> \<Longrightarrow> xs_of (g s1 s2) = comb (xs_of s1) (xs_of s2)"
    and combined_starts: "\<lbrakk>s1 \<noteq> []; s2 \<noteq> []; spans_ok s1; spans_ok s2\<rbrakk> \<Longrightarrow> fst ` set (g s1 s2) \<subseteq> fst ` set s1 \<union> fst ` set s2"
    and comb_first: "comb A {} = (if a1 then A else {})"
    and comb_second: "comb {} A = (if a2 then A else {})"
begin

lemma comb_none: "comb {} {} = {}"
  using comb_first [of "{}"] by simp

text \<open>A step keeps the invariant and what the sweep will have covered.\<close>

lemma sweep_step_ok:
  assumes inv: "sweep_inv Y X ybot (B # bs) (C # cs) out"
  defines "z \<equiv> min (bbot B) (bbot C)"
  defines "out' \<equiv> sweep_both g B C (sweep_single a1 a2 B C ybot out)"
  shows "sweep_inv Y X z (left_over z B bs) (left_over z C cs) out'" (is ?inv)
    and "covered comb z (left_over z B bs) (left_over z C cs) out' y = covered comb ybot (B # bs) (C # cs) out y" (is ?cov)
proof -
  note h = sweep_inv_heads [OF inv]
  have rest: "rest_ok ybot (B # bs)" "rest_ok ybot (C # cs)" "inside Y X (B # bs)" "inside Y X (C # cs)"
    using inv by (auto simp: sweep_inv_def)
  let ?o1 = "sweep_single a1 a2 B C ybot out" and ?m = "max (btop B) (btop C)"
  note o1 = sweep_single_ok [OF inv, of a1 a2]
  have sp: "spans B \<noteq> []" "spans C \<noteq> []" "spans_ok (spans B)" "spans_ok (spans C)" using h(5,6) by (auto simp: band_ok_def)
  have z: "ybot < z" "z \<le> bbot B" "z \<le> bbot C" "bbot B = z \<or> bbot C = z" using h by (auto simp: z_def)
  have both: "out_ok z out' \<and> inside Y X out' \<and>
    line out' y = line ?o1 y \<union> (if ?m \<le> y \<and> y < z then comb (xs_of (spans B)) (xs_of (spans C)) else {})" for y
  proof (cases "z > ?m")
    case True
    let ?N = "Band ?m z (g (spans B) (spans C))"
    have e: "out' = add_band ?o1 ?N" using True by (simp add: out'_def sweep_both_def z_def)
    have N: "band_ok ?N" using True combined_ok [OF sp] by (simp add: band_ok_def)
    have o: "out_ok ?m ?o1" using o1(1) by (rule out_ok_mono) (use h(4) True in \<open>auto simp: z_def\<close>)
    have "fst ` set (g (spans B) (spans C)) \<subseteq> X" using h(10,11) by (intro subset_trans [OF combined_starts [OF sp]]) simp
    then have "inside Y X [?N]" using h by (auto simp: max_def z_def min_def)
    then show ?thesis
      using add_band_out_ok [OF o _ N] add_band_inside [OF o1(2), of ?N] combined_xs [OF sp] unfolding e by simp
  next
    case False
    have "out_ok z ?o1" using o1(1) by (rule out_ok_mono) (use z False in \<open>auto simp: z_def\<close>)
    moreover have "out' = ?o1" using False by (auto simp: out'_def sweep_both_def z_def)
    ultimately show ?thesis using o1(2) False by auto
  qed
  note lo = left_over_ok [OF rest(1) z(2)] left_over_ok [OF rest(2) z(3)]
  have "z \<le> max (btop (hd (left_over z B bs))) (btop (hd (left_over z C cs)))"
    if "left_over z B bs \<noteq> []" "left_over z C cs \<noteq> []"
    using lo(4,8) that z(4) by (auto simp: max_def)
  moreover have "z \<in> Y" using h rest by (auto simp: z_def min_def)
  ultimately show ?inv
    using both lo(1,5) lo(3) [OF rest(3)] lo(7) [OF rest(4)] by (auto simp: sweep_inv_def)
  have empty: "line out y = {}" if "ybot \<le> y" using that h(1) by (intro line_below) (auto simp: out_ok_def)
  have l: "line (B # bs) y = (if btop B \<le> y then xs_of (spans B) else {})" "line (C # cs) y = (if btop C \<le> y then xs_of (spans C) else {})"
    if "y < z"
    using that z line_head [of B bs y] line_head [of C cs y] rest line_above [of bs y] line_above [of cs y]
    by (fastforce simp: rest_ok_def)+
  show ?cov
  proof (cases "y < z")
    case True
    then show ?thesis
      using z h both [of y] o1(3) [of y] l comb_first comb_second comb_none by (auto simp: covered_def)
  next
    case False
    have "line out' y = {}" using both [of y] False by (intro line_below) (auto simp: out_ok_def)
    then show ?thesis using False z empty lo(2,6) by (simp add: covered_def)
  qed
qed

text \<open>The array operations do the same on the arrays of the bands, and never need more than \<open>L\<close> rectangles.\<close>

lemma fits:
  assumes "banded out" "inside Y X out" "finite Y" "finite X" "card Y * card X \<le> L"
  shows "length (flat out) \<le> L"
  using flat_bound [OF assms(1-4)] assms(5) by linarith

lemma fits_snoc:
  assumes "out_ok z out" "z \<le> btop N" "band_ok N" "inside Y X out" "inside Y X [N]" "finite Y" "finite X" "card Y * card X \<le> L"
  shows "length (flat out) + length (spans N) \<le> L"
proof -
  have "banded (out @ [N])" using assms(1-3) by (auto simp: out_ok_def)
  then show ?thesis using fits [of "out @ [N]" Y X] assms(4-8) by simp
qed

lemma non_overlap_ok:
  assumes "banded out" "spans B \<noteq> []" "length (flat out) \<le> sz" "sz \<noteq> 0" "length (flat out) + length (spans B) \<le> L"
  shows "\<exists>sz' k'. non_overlap mem (boxes_of B) t b (band_start out) (array_of e sz (flat out), k) =
      (band_start (add_band out (Band t b (spans B))), array_of e sz' (flat (add_band out (Band t b (spans B)))), k') \<and>
      length (flat (add_band out (Band t b (spans B)))) \<le> sz' \<and> sz' \<noteq> 0"
proof -
  obtain sz' k' where 1: "RegionAppendNonO mem (boxes_of B) t b (array_of e sz (flat out), k) =
      (True, array_of e sz' (flat out @ boxes_of (Band t b (spans B))), k')" and 2: "length (flat out) + length (spans B) \<le> sz'" "sz' \<noteq> 0"
    using RegionAppendNonO_ok [OF memory assms(3,4,5), where t = t and b = b and e = e and k = k] by blast
  show ?thesis
    using 2 add_band_length [of out "Band t b (spans B)"] coalesce_reg_flat [OF _ assms(1), of "Band t b (spans B)" e sz'] assms(2)
    by (intro exI [of _ sz'] exI [of _ k']) (simp add: non_overlap_def 1)
qed

lemma overlap_ok:
  assumes "banded out" "band_ok B" "band_ok C" "length (flat out) \<le> sz" "sz \<noteq> 0" "length (flat out) + length (g (spans B) (spans C)) \<le> L"
  shows "\<exists>ovl' sz' k'. overlap f (boxes_of B) (boxes_of C) t b (band_start out) ovl (array_of e sz (flat out), k) =
      Some (band_start (add_band out (Band t b (g (spans B) (spans C)))), ovl',
        array_of e sz' (flat (add_band out (Band t b (g (spans B) (spans C))))), k') \<and>
      length (flat (add_band out (Band t b (g (spans B) (spans C))))) \<le> sz' \<and> sz' \<noteq> 0"
proof -
  have sp: "spans B \<noteq> []" "spans C \<noteq> []" "spans_ok (spans B)" "spans_ok (spans C)" using assms(2,3) by (auto simp: band_ok_def)
  let ?N = "Band t b (g (spans B) (spans C))"
  obtain ovl' sz' k' where 1: "f (boxes_of B) (boxes_of C) t b ovl (array_of e sz (flat out), k) =
      Some (ovl', array_of e sz' (flat out @ boxes_of ?N), k')" and 2: "length (flat out) + length (spans ?N) \<le> sz'" "sz' \<noteq> 0"
    using overlap_adds [OF sp assms(4,5,6), of "btop B" "bbot B" "btop C" "bbot C" t b ovl e k] by auto
  show ?thesis
    using 2 add_band_length [of out ?N] coalesce_reg_flat [OF _ assms(1), of ?N e sz'] combined_ok [OF sp]
    by (intro exI [of _ ovl'] exI [of _ sz'] exI [of _ k']) (simp add: overlap_def 1)
qed

lemma add_single_array:
  assumes out: "out_ok ybot out" and B: "band_ok B" "ybot < bbot B" "btop B < t" "ybot \<le> t"
    and ins: "inside Y X out" "inside Y X [B]" "ybot \<in> Y" "t \<in> Y" and fin: "finite Y" "finite X" "card Y * card X \<le> L"
    and sz: "length (flat out) \<le> sz" "sz \<noteq> 0"
  shows "\<exists>sz' k'. (if a \<and> max (btop B) ybot \<noteq> min (bbot B) t
        then non_overlap mem (boxes_of B) (max (btop B) ybot) (min (bbot B) t) (band_start out) (array_of e sz (flat out), k)
        else (band_start out, array_of e sz (flat out), k)) =
      (band_start (add_single a B t ybot out), array_of e sz' (flat (add_single a B t ybot out)), k') \<and>
      length (flat (add_single a B t ybot out)) \<le> sz' \<and> sz' \<noteq> 0"
proof (cases "a \<and> max (btop B) ybot \<noteq> min (bbot B) t")
  case True
  let ?N = "Band (max (btop B) ybot) (min (bbot B) t) (spans B)"
  have "btop B < bbot B" using B(1) by (simp add: band_ok_def)
  then have N: "band_ok ?N" using True B by (auto simp: band_ok_def max_def min_def)
  have "inside Y X [?N]" using ins by (auto simp: max_def min_def)
  then have "length (flat out) + length (spans B) \<le> L" using fits_snoc [OF out _ N ins(1) _ fin] by simp
  moreover have "banded out" "spans B \<noteq> []" using out B(1) by (auto simp: out_ok_def band_ok_def)
  ultimately show ?thesis using non_overlap_ok [OF _ _ sz] True by (simp add: add_single_def)
next
  case False
  then have "add_single a B t ybot out = out" by (auto simp: add_single_def)
  then show ?thesis using sz False by auto
qed

lemma op_single_ok:
  assumes inv: "sweep_inv Y X ybot (B # bs) (C # cs) out" and fin: "finite Y" "finite X" "card Y * card X \<le> L"
    and sz: "length (flat out) \<le> sz" "sz \<noteq> 0"
    and c: "y1 c = btop B" "y2 c = bbot B" and d: "y1 d = btop C" "y2 d = bbot C"
  shows "\<exists>sz' k'. op_single mem a1 a2 c d (boxes_of B) (boxes_of C) ybot (band_start out) (array_of e sz (flat out), k) =
      (band_start (sweep_single a1 a2 B C ybot out), array_of e sz' (flat (sweep_single a1 a2 B C ybot out)), k') \<and>
      length (flat (sweep_single a1 a2 B C ybot out)) \<le> sz' \<and> sz' \<noteq> 0"
proof -
  note h = sweep_inv_heads [OF inv]
  consider "btop B < btop C" | "btop C < btop B" | "btop B = btop C" by linarith
  then show ?thesis
  proof cases
    case 1
    then have "ybot \<le> btop C" using h(4) by simp
    from add_single_array [OF h(1) h(5) h(2) 1 this h(9,10,12,14) fin sz, of a1 e k] show ?thesis
      using 1 by (simp add: op_single_def c d sweep_single_alt Let_def)
  next
    case 2
    then have "ybot \<le> btop B" using h(4) by simp
    from add_single_array [OF h(1) h(6) h(3) 2 this h(9,11,12,13) fin sz, of a2 e k] show ?thesis
      using 2 by (simp add: op_single_def c d sweep_single_alt Let_def)
  next
    case 3
    then show ?thesis using sz by (auto simp: op_single_def c d sweep_single_alt)
  qed
qed

lemma left_over_flat: "boxes_of B = c # r \<Longrightarrow> y2 c = bbot B \<Longrightarrow>
    flat (left_over z B bs) = (if y2 c = z then flat bs else c # r @ flat bs)"
  by (simp add: left_over_def)

lemma op_step_ok:
  assumes inv: "sweep_inv Y X ybot (B # bs) (C # cs) out" and fin: "finite Y" "finite X" "card Y * card X \<le> L"
    and sz: "length (flat out) \<le> sz" "sz \<noteq> 0"
  defines "z \<equiv> min (bbot B) (bbot C)"
  defines "out' \<equiv> sweep_both g B C (sweep_single a1 a2 B C ybot out)"
  shows "\<exists>ovl' sz' k'. op_loop mem f a1 a2 (flat (B # bs)) (flat (C # cs)) ybot (band_start out) ovl (array_of e sz (flat out), k) =
      op_loop mem f a1 a2 (flat (left_over z B bs)) (flat (left_over z C cs)) z (band_start out') ovl' (array_of e sz' (flat out'), k') \<and>
      length (flat out') \<le> sz' \<and> sz' \<noteq> 0"
proof -
  note h = sweep_inv_heads [OF inv]
  have sp: "spans B \<noteq> []" "spans C \<noteq> []" "spans_ok (spans B)" "spans_ok (spans C)" using h(5,6) by (auto simp: band_ok_def)
  obtain c r where c: "boxes_of B = c # r" "y1 c = btop B" "y2 c = bbot B" using sp by (cases "spans B") (auto simp: boxes_of_def)
  obtain d r' where d: "boxes_of C = d # r'" "y1 d = btop C" "y2 d = bbot C" using sp by (cases "spans C") (auto simp: boxes_of_def)
  have fb: "FindBand c (r @ flat bs) = (boxes_of B, flat bs)" "FindBand d (r' @ flat cs) = (boxes_of C, flat cs)"
    using FindBand_flat [of B bs c r] FindBand_flat [of C cs d r'] inv c d by (auto simp: sweep_inv_def rest_ok_def)
  let ?o1 = "sweep_single a1 a2 B C ybot out"
  obtain sz1 k1 where 1: "op_single mem a1 a2 c d (boxes_of B) (boxes_of C) ybot (band_start out) (array_of e sz (flat out), k) =
      (band_start ?o1, array_of e sz1 (flat ?o1), k1)" and sz1: "length (flat ?o1) \<le> sz1" "sz1 \<noteq> 0"
    using op_single_ok [OF inv fin sz c(2,3) d(2,3), of e k] by blast
  note o1 = sweep_single_ok [OF inv, of a1 a2]
  note lo = left_over_flat [OF c(1,3), of z bs] left_over_flat [OF d(1,3), of z cs]
  show ?thesis
  proof (cases "z > max (btop B) (btop C)")
    case True
    let ?N = "Band (max (btop B) (btop C)) z (g (spans B) (spans C))"
    have e: "out' = add_band ?o1 ?N" using True by (simp add: out'_def sweep_both_def z_def)
    have N: "band_ok ?N" using True combined_ok [OF sp] by (simp add: band_ok_def)
    have o: "out_ok (max (btop B) (btop C)) ?o1" using o1(1) by (rule out_ok_mono) (use h(4) True in \<open>auto simp: z_def\<close>)
    have "fst ` set (g (spans B) (spans C)) \<subseteq> X" using h(10,11) by (intro subset_trans [OF combined_starts [OF sp]]) simp
    then have "inside Y X [?N]" using h by (auto simp: max_def z_def min_def)
    then have len: "length (flat ?o1) + length (g (spans B) (spans C)) \<le> L" using fits_snoc [OF o _ N o1(2) _ fin] by simp
    have "banded ?o1" using o by (simp add: out_ok_def)
    from overlap_ok [OF this h(5,6) sz1 len, of "max (btop B) (btop C)" z ovl e k1]
    obtain ovl2 sz2 k2 where 2: "overlap f (boxes_of B) (boxes_of C) (max (btop B) (btop C)) z (band_start ?o1) ovl (array_of e sz1 (flat ?o1), k1) =
        Some (band_start out', ovl2, array_of e sz2 (flat out'), k2)" and sz2: "length (flat out') \<le> sz2" "sz2 \<noteq> 0"
      unfolding e by blast
    have "op_loop mem f a1 a2 (c # r @ flat bs) (d # r' @ flat cs) ybot (band_start out) ovl (array_of e sz (flat out), k) =
      op_loop mem f a1 a2 (flat (left_over z B bs)) (flat (left_over z C cs)) z (band_start out') ovl2 (array_of e sz2 (flat out'), k2)"
      unfolding lo by (subst op_loop.simps(1)) (use True 2 in \<open>simp add: fb 1 c(2,3) d(2,3) del: op_loop.simps flip: z_def\<close>)
    then show ?thesis using sz2 c(1) d(1) by auto
  next
    case False
    then have o: "out' = ?o1" by (auto simp: out'_def sweep_both_def z_def)
    then have "op_loop mem f a1 a2 (c # r @ flat bs) (d # r' @ flat cs) ybot (band_start out) ovl (array_of e sz (flat out), k) =
      op_loop mem f a1 a2 (flat (left_over z B bs)) (flat (left_over z C cs)) z (band_start out') ovl (array_of e sz1 (flat out'), k1)"
      unfolding lo by (subst op_loop.simps(1)) (use False in \<open>auto simp: fb 1 c(2,3) d(2,3) simp del: op_loop.simps simp flip: z_def\<close>)
    then show ?thesis using sz1 c(1) d(1) o by auto
  qed
qed

lemma op_loop_ok:
  assumes "sweep_inv Y X ybot bs cs out" "finite Y" "finite X" "card Y * card X \<le> L" "length (flat out) \<le> sz" "sz \<noteq> 0"
  shows "\<exists>bs' cs' ybot' out' ovl' sz' k'.
      op_loop mem f a1 a2 (flat bs) (flat cs) ybot (band_start out) ovl (array_of e sz (flat out), k) =
        Some (flat bs', flat cs', ybot', band_start out', ovl', array_of e sz' (flat out'), k') \<and>
      sweep_inv Y X ybot' bs' cs' out' \<and> (bs' = [] \<or> cs' = []) \<and> length (flat out') \<le> sz' \<and> sz' \<noteq> 0 \<and>
      (\<forall>y. covered comb ybot' bs' cs' out' y = covered comb ybot bs cs out y)"
  using assms
proof (induction "length bs + length cs" arbitrary: bs cs ybot out ovl sz k rule: less_induct)
  case less
  show ?case
  proof (cases "bs = [] \<or> cs = []")
    case True
    have "op_loop mem f a1 a2 (flat bs) (flat cs) ybot (band_start out) ovl (array_of e sz (flat out), k) =
        Some (flat bs, flat cs, ybot, band_start out, ovl, array_of e sz (flat out), k)"
      using True by (cases "flat bs") auto
    then show ?thesis using less.prems True by blast
  next
    case False
    then obtain B bs1 C cs1 where bs: "bs = B # bs1" "cs = C # cs1" by (auto simp: neq_Nil_conv)
    note inv = less.prems(1) [unfolded bs]
    let ?z = "min (bbot B) (bbot C)" and ?o = "sweep_both g B C (sweep_single a1 a2 B C ybot out)"
    obtain ovl1 sz1 k1 where 1: "op_loop mem f a1 a2 (flat bs) (flat cs) ybot (band_start out) ovl (array_of e sz (flat out), k) =
        op_loop mem f a1 a2 (flat (left_over ?z B bs1)) (flat (left_over ?z C cs1)) ?z (band_start ?o) ovl1 (array_of e sz1 (flat ?o), k1)"
      and sz1: "length (flat ?o) \<le> sz1" "sz1 \<noteq> 0"
      using op_step_ok [OF inv less.prems(2-6), of ovl e k] unfolding bs by blast
    note step = sweep_step_ok [OF inv]
    have "length (left_over ?z B bs1) + length (left_over ?z C cs1) < length bs + length cs"
      by (auto simp: bs left_over_def min_def)
    from less.hyps [OF this step(1) less.prems(2-4) sz1, of ovl1 k1] show ?thesis
      unfolding 1 step(2) unfolding bs by blast
  qed
qed

subsection \<open>The end of the sweep\<close>

lemma op_tail_ok:
  assumes out: "out_ok ybot out" and bs: "rest_ok ybot (B # bs)" and ins: "inside Y X (out @ B # bs)" "ybot \<in> Y"
    and fin: "finite Y" "finite X" "card Y * card X \<le> L" and sz: "length (flat out) \<le> sz" "sz \<noteq> 0"
    and c: "boxes_of B = c # r"
  defines "out' \<equiv> add_band out (Band (max (btop B) ybot) (bbot B) (spans B)) @ bs"
  shows "\<exists>sz' k'. op_tail mem c (r @ flat bs) ybot (band_start out) (array_of e sz (flat out), k) = (True, array_of e sz' (flat out'), k') \<and>
      length (flat out') \<le> sz' \<and> sz' \<noteq> 0"
    and "banded out'" "coalesced out'" "inside Y X out'"
    and "line out' y = line out y \<union> (if ybot \<le> y then line (B # bs) y else {})"
proof -
  let ?N = "Band (max (btop B) ybot) (bbot B) (spans B)"
  have B: "banded (B # bs)" "coalesced (B # bs)" "band_ok B" "ybot < bbot B" using bs by (auto simp: rest_ok_def)
  have N: "band_ok ?N" using B by (auto simp: band_ok_def)
  have insN: "inside Y X [?N]" using ins by (auto simp: max_def)
  note ok = add_band_out_ok [OF out _ N]
  have o1: "out_ok (bbot B) (add_band out ?N)" using ok(1) by simp
  show banded: "banded out'" using o1 B(1) by (fastforce simp: out'_def out_ok_def)
  have lastN: "bbot (last (add_band out ?N)) = bbot B" "spans (last (add_band out ?N)) = spans B" by (auto simp: add_band_last)
  have "coalesced bs \<and> (bs \<noteq> [] \<longrightarrow> \<not> (bbot B = btop (hd bs) \<and> spans B = spans (hd bs)))" using B(2) by (cases bs) auto
  then show "coalesced out'" using o1 lastN by (auto simp: out'_def coalesced_join out_ok_def)
  show insO: "inside Y X out'" using ins add_band_inside [OF _ insN, of out] by (auto simp: out'_def)
  show "line out' y = line out y \<union> (if ybot \<le> y then line (B # bs) y else {})"
  proof -
    have "line bs y = {}" if "y < ybot"
      using that B(1,4) by (intro line_above) fastforce
    then show ?thesis using ok(2) [of y] by (auto simp: out'_def)
  qed
  have y: "y1 c = btop B" "y2 c = bbot B" using c by (auto simp: boxes_of_def Cons_eq_map_conv)
  have "length (flat out) + length (spans B) \<le> L" using fits_snoc [OF out _ N _ insN fin] ins by simp
  moreover have "banded out" "spans B \<noteq> []" using out B(3) by (auto simp: out_ok_def band_ok_def)
  ultimately obtain sz1 k1 where 1: "non_overlap mem (boxes_of B) (max (btop B) ybot) (bbot B) (band_start out) (array_of e sz (flat out), k) =
      (band_start (add_band out ?N), array_of e sz1 (flat (add_band out ?N)), k1)"
    and sz1: "length (flat (add_band out ?N)) \<le> sz1" "sz1 \<noteq> 0"
    using non_overlap_ok [OF _ _ sz] by blast
  have "length (flat (add_band out ?N)) + length (flat bs) \<le> L"
    using fits [OF banded insO fin] by (simp add: out'_def)
  from RECTALLOC_ok [OF memory sz1 this, of e k1]
  obtain sz2 k2 where 2: "RECTALLOC mem (length (flat bs)) (array_of e sz1 (flat (add_band out ?N)), k1) = (True, array_of e sz2 (flat (add_band out ?N)), k2)"
    and sz2: "length (flat (add_band out ?N)) + length (flat bs) \<le> sz2" "sz2 \<noteq> 0" by blast
  show "\<exists>sz' k'. op_tail mem c (r @ flat bs) ybot (band_start out) (array_of e sz (flat out), k) = (True, array_of e sz' (flat out'), k') \<and>
      length (flat out') \<le> sz' \<and> sz' \<noteq> 0"
  proof (cases "flat bs = []")
    case True
    then have "FindBand c r = (boxes_of B, [])" using FindBand_flat [OF B(1) c] by simp
    then show ?thesis using sz1 True by (auto simp: op_tail_def y 1 out'_def)
  next
    case False
    then show ?thesis using sz2 by (auto simp: op_tail_def FindBand_flat [OF B(1) c] y 1 2 out'_def add_boxes_def)
  qed
qed

lemma sweep_end_ok:
  assumes inv: "sweep_inv Y X ybot bs cs out" and none: "bs = [] \<or> cs = []"
    and fin: "finite Y" "finite X" "card Y * card X \<le> L" and sz: "length (flat out) \<le> sz" "sz \<noteq> 0"
  shows "\<exists>out' sz' k'. op_rest mem a1 a2 (flat bs) (flat cs) ybot (band_start out) (array_of e sz (flat out), k) =
        (True, array_of e sz' (flat out'), k') \<and>
      banded out' \<and> coalesced out' \<and> inside Y X out' \<and> (\<forall>y. line out' y = covered comb ybot bs cs out y)"
proof -
  have o: "out_ok ybot out" "rest_ok ybot bs" "rest_ok ybot cs" "ybot \<in> Y" "inside Y X out" "inside Y X bs" "inside Y X cs"
    using inv by (auto simp: sweep_inv_def)
  have keep: "banded out \<and> coalesced out \<and> inside Y X out" using o by (simp add: out_ok_def)
  have nonempty: "\<exists>c r. boxes_of B = c # r" if "rest_ok ybot (B # bs')" for B bs'
    using that by (cases "spans B") (auto simp: rest_ok_def band_ok_def boxes_of_def)
  consider "bs = []" "cs = []" | B bs' where "bs = B # bs'" "cs = []" | C cs' where "bs = []" "cs = C # cs'"
    using none by (cases bs; cases cs) auto
  then show ?thesis
  proof cases
    case 1
    then show ?thesis using keep by (auto simp: covered_def comb_none op_rest_def)
  next
    case 2
    then obtain c r where c: "boxes_of B = c # r" using nonempty o(2) by blast
    have "inside Y X (out @ B # bs')" using o 2 by simp
    note tail = op_tail_ok [OF o(1) o(2) [unfolded 2] this o(4) fin sz c]
    show ?thesis
    proof (cases a1)
      case True
      have "op_rest mem a1 a2 (flat bs) (flat cs) ybot (band_start out) (array_of e sz (flat out), k) =
        op_tail mem c (r @ flat bs') ybot (band_start out) (array_of e sz (flat out), k)" using True by (simp add: 2 c op_rest_def)
      moreover have "covered comb ybot bs cs out y = line out y \<union> (if ybot \<le> y then line (B # bs') y else {})" for y
        using True by (simp add: 2 covered_def comb_first)
      ultimately show ?thesis using tail(1) [of e k] tail(2-4) tail(5) by metis
    next
      case False
      then show ?thesis using keep by (auto simp: 2 c covered_def comb_first op_rest_def)
    qed
  next
    case 3
    then obtain c r where c: "boxes_of C = c # r" using nonempty o(3) by blast
    have "inside Y X (out @ C # cs')" using o 3 by simp
    note tail = op_tail_ok [OF o(1) o(3) [unfolded 3] this o(4) fin sz c]
    show ?thesis
    proof (cases a2)
      case True
      have "op_rest mem a1 a2 (flat bs) (flat cs) ybot (band_start out) (array_of e sz (flat out), k) =
        op_tail mem c (r @ flat cs') ybot (band_start out) (array_of e sz (flat out), k)" using True by (simp add: 3 c op_rest_def)
      moreover have "covered comb ybot bs cs out y = line out y \<union> (if ybot \<le> y then line (C # cs') y else {})" for y
        using True by (simp add: 3 covered_def comb_second)
      ultimately show ?thesis using tail(1) [of e k] tail(2-4) tail(5) by metis
    next
      case False
      then show ?thesis using keep by (auto simp: 3 c covered_def comb_second op_rest_def)
    qed
  qed
qed

lemma sweep_start:
  assumes "banded bs" "banded cs" "coalesced bs" "coalesced cs" "bs \<noteq> []" "cs \<noteq> []" "inside Y X (bs @ cs)"
  defines "ybot \<equiv> min (btop (hd bs)) (btop (hd cs))"
  shows "sweep_inv Y X ybot bs cs []" "covered comb ybot bs cs [] y = comb (line bs y) (line cs y)"
proof -
  have top: "btop (hd xs) \<le> btop B" "btop B < bbot B" if "banded xs" "B \<in> set xs" for xs B
    using that banded_mem [OF that] by (cases xs; force simp: band_ok_def)+
  have low: "ybot \<le> btop B \<and> ybot < bbot B" if "B \<in> set bs \<union> set cs" for B
    using that top [OF assms(1), of B] top [OF assms(2), of B] by (auto simp: ybot_def)
  have "ybot \<in> Y" using assms(5-7) by (auto simp: ybot_def min_def inside_def)
  then show "sweep_inv Y X ybot bs cs []"
    using assms(1-4,7) low by (auto simp: sweep_inv_def out_ok_def rest_ok_def ybot_def)
  have "line bs y = {} \<and> line cs y = {}" if "y < ybot" using that low by (auto intro!: line_above) force+
  then show "covered comb ybot bs cs [] y = comb (line bs y) (line cs y)" by (auto simp: covered_def comb_none)
qed

text \<open>The sweep as \<open>RegionValidate\<close> calls it, with the first operand as the destination.\<close>

lemma RegionOp_ok:
  assumes reg1: "RegionRects reg1 = flat bs" "\<not> clobbers True reg1" and reg2: "RegionRects reg2 = flat cs"
    and ok: "banded bs" "banded cs" "coalesced bs" "coalesced cs" "bs \<noteq> []" "cs \<noteq> []" "inside Y X (bs @ cs)"
    and fin: "finite Y" "finite X" "card Y * card X \<le> L"
  shows "\<exists>ovl' reg k' out. RegionOp mem True False reg1 reg1 reg2 f a1 a2 ovl k = Some (True, ovl', reg, k') \<and>
      holds_bands (extents reg1) out reg \<and> banded out \<and> coalesced out \<and> inside Y X out \<and> (\<forall>y. line out y = comb (line bs y) (line cs y))"
proof -
  have first: "\<exists>c r. flat xs = c # r \<and> y1 c = btop (hd xs)" if "banded xs" "xs \<noteq> []" for xs
    using that by (cases xs; cases "spans (hd xs)") (auto simp: band_ok_def boxes_of_def)
  obtain c r where c: "flat bs = c # r" "y1 c = btop (hd bs)" using first ok by blast
  obtain d r' where d: "flat cs = d # r'" "y1 d = btop (hd cs)" using first ok by blast
  have nar: "\<not> RegionNar reg1" "\<not> RegionNar reg2" using reg1 reg2 c d by (auto simp: RegionNar_def RegionRects_def)
  have d0: "start_data True False reg1 reg1 reg2 = RegionEmptyData"
    using reg1 c nar(1) by (auto simp: start_data_def clobbers_def RegionNumRects_def RegionRects_def RegionNar_def split: RegDataRec.splits)
  let ?n = "2 * max (RegionNumRects reg1) (RegionNumRects reg2)"
  have len: "RegionNumRects reg1 \<le> L" "RegionNumRects reg2 \<le> L" "RegionNumRects reg1 \<ge> 1"
    using fits [of bs Y X] fits [of cs Y X] ok fin reg1 reg2 c by (auto simp: RegionNumRects_def)
  have n: "?n \<noteq> 0" "rect_mem mem k ?n" using len rect_mem_ok [OF memory, of ?n] by auto
  let ?ybot = "min (btop (hd bs)) (btop (hd cs))"
  note st = sweep_start [OF ok]
  have zero: "length (flat []) \<le> ?n" by simp
  obtain bs' cs' z out' ovl' sz' k' where 1: "op_loop mem f a1 a2 (flat bs) (flat cs) ?ybot (band_start []) ovl (array_of (extents reg1) ?n (flat []), Suc k) =
        Some (flat bs', flat cs', z, band_start out', ovl', array_of (extents reg1) sz' (flat out'), k')"
    and 2: "sweep_inv Y X z bs' cs' out'" "bs' = [] \<or> cs' = []" "length (flat out') \<le> sz'" "sz' \<noteq> 0"
    and 3: "\<forall>y. covered comb z bs' cs' out' y = covered comb ?ybot bs cs [] y"
    using op_loop_ok [OF st(1) fin zero n(1), of ovl "extents reg1" "Suc k"] by blast
  obtain out2 sz2 k2 where 4: "op_rest mem a1 a2 (flat bs') (flat cs') z (band_start out') (array_of (extents reg1) sz' (flat out'), k') =
      (True, array_of (extents reg1) sz2 (flat out2), k2)"
    and 5: "banded out2" "coalesced out2" "inside Y X out2" "\<forall>y. line out2 y = covered comb z bs' cs' out' y"
    using sweep_end_ok [OF 2(1,2) fin 2(3,4), of "extents reg1" k'] by blast
  obtain reg k3 where 6: "op_end mem (array_of (extents reg1) sz2 (flat out2), k2) = (reg, k3)" "holds_bands (extents reg1) out2 reg"
    using op_end_holds by blast
  have "RegionOp mem True False reg1 reg1 reg2 f a1 a2 ovl k = Some (True, ovl', reg, k3)"
  proof -
    have "RegionRectAlloc mem ?n (reg1\<lparr>rgn_data := RegionEmptyData\<rparr>, k) = (True, array_of (extents reg1) ?n [], Suc k)"
      using n by (simp add: RegionRectAlloc_def Let_def)
    then show ?thesis
      using nar reg1 reg2 n len(3) 1 4 6(1) c d by (simp add: RegionOp_def d0 clobbers_def Let_def band_start_def del: op_loop.simps)
  qed
  then show ?thesis using 5 6 3 st(2) by metis
qed

end

end
