(* ===== verification/RegionUnion.thy ===== *)
theory RegionUnion
  imports RegionSweep
begin

text \<open>
  \<open>RegionUnionO\<close> meets the contract of an overlap function for the union: the spans of the two bands are merged in order, spans that overlap or
  touch become one. With it \<open>RegionOp\<close> computes the union of two regions.
\<close>

subsection \<open>Merging spans\<close>

fun join :: "span list \<Rightarrow> span list \<Rightarrow> int \<Rightarrow> int \<Rightarrow> span list" where
  "join [] [] l r = [(l, r)]"
| "join (c # s1) [] l r = (if fst c \<le> r then join s1 [] l (max r (snd c)) else (l, r) # join s1 [] (fst c) (snd c))"
| "join [] (d # s2) l r = (if fst d \<le> r then join [] s2 l (max r (snd d)) else (l, r) # join [] s2 (fst d) (snd d))"
| "join (c # s1) (d # s2) l r =
     (if fst c < fst d
      then if fst c \<le> r then join s1 (d # s2) l (max r (snd c)) else (l, r) # join s1 (d # s2) (fst c) (snd c)
      else if fst d \<le> r then join (c # s1) s2 l (max r (snd d)) else (l, r) # join (c # s1) s2 (fst d) (snd d))"

definition union_spans :: "span list \<Rightarrow> span list \<Rightarrow> span list" where
  "union_spans s1 s2 =
     (if fst (hd s1) < fst (hd s2) then join (tl s1) s2 (fst (hd s1)) (snd (hd s1)) else join s1 (tl s2) (fst (hd s2)) (snd (hd s2)))"

lemma spans_ok_Cons: "spans_ok (s # ss) \<longleftrightarrow> fst s < snd s \<and> spans_ok ss \<and> (ss \<noteq> [] \<longrightarrow> snd s < fst (hd ss))"
  by (cases s; cases ss) auto

definition joined :: "span list \<Rightarrow> span list \<Rightarrow> int \<Rightarrow> int \<Rightarrow> span list \<Rightarrow> bool" where
  "joined s1 s2 l r ss \<longleftrightarrow> ss \<noteq> [] \<and> fst (hd ss) = l \<and> spans_ok ss \<and> xs_of ss = {l..<r} \<union> xs_of s1 \<union> xs_of s2 \<and>
     fst ` set ss \<subseteq> insert l (fst ` set s1 \<union> fst ` set s2)"

text \<open>The next span \<open>c\<close> either extends the current one or starts a new one.\<close>

lemma joined_extend:
  assumes "joined s1 s2 l (max r (snd c)) ss" "l \<le> fst c" "fst c \<le> r" "fst c < snd c"
  shows "joined (c # s1) s2 l r ss" "joined s1 (c # s2) l r ss"
proof -
  have "{l..<max r (snd c)} = {l..<r} \<union> {fst c..<snd c}" using assms(2-4) by auto
  then show "joined (c # s1) s2 l r ss" "joined s1 (c # s2) l r ss" using assms(1) by (auto simp: joined_def)
qed

lemma joined_start:
  assumes "joined s1 s2 (fst c) (snd c) ss" "l < r" "r < fst c"
  shows "joined (c # s1) s2 l r ((l, r) # ss)" "joined s1 (c # s2) l r ((l, r) # ss)"
  using assms by (auto simp: joined_def spans_ok_Cons)

lemma join_joined:
  assumes "l < r" "spans_ok s1" "spans_ok s2" "\<forall>s \<in> set s1 \<union> set s2. l \<le> fst s"
  shows "joined s1 s2 l r (join s1 s2 l r)"
  using assms
proof (induction s1 s2 l r rule: join.induct)
  case (1 l r)
  then show ?case by (simp add: joined_def)
next
  case (2 c s1 l r)
  then show ?case
    using spans_ok_tail [of c s1] joined_extend(1) [of s1 "[]" l r c] joined_start(1) [of s1 "[]" c _ l r] by fastforce
next
  case (3 d s2 l r)
  then show ?case
    using spans_ok_tail [of d s2] joined_extend(2) [of "[]" s2 l r d] joined_start(2) [of "[]" s2 d _ l r] by fastforce
next
  case (4 c s1 d s2 l r)
  note t = spans_ok_tail [OF 4(6)] spans_ok_tail [OF 4(7)]
  show ?case
  proof (cases "fst c < fst d")
    case True
    then have le: "\<forall>s \<in> set s1 \<union> set (d # s2). fst c \<le> fst s" using t by force
    show ?thesis
      using True 4(1) [OF True] 4(2) [OF True] 4(5-8) t le
        joined_extend(1) [of s1 "d # s2" l r c] joined_start(1) [of s1 "d # s2" c _ l r] by auto
  next
    case False
    then have le: "\<forall>s \<in> set (c # s1) \<union> set s2. fst d \<le> fst s" using t by force
    show ?thesis
      using False 4(3) [OF False] 4(4) [OF False] 4(5-8) t le
        joined_extend(2) [of "c # s1" s2 l r d] joined_start(2) [of "c # s1" s2 d _ l r] by auto
  qed
qed

lemma union_spans_ok:
  assumes "s1 \<noteq> []" "s2 \<noteq> []" "spans_ok s1" "spans_ok s2"
  shows "spans_ok (union_spans s1 s2)" "union_spans s1 s2 \<noteq> []" "xs_of (union_spans s1 s2) = xs_of s1 \<union> xs_of s2"
    "fst ` set (union_spans s1 s2) \<subseteq> fst ` set s1 \<union> fst ` set s2"
proof -
  obtain c t1 where s1: "s1 = c # t1" using assms(1) by (cases s1) auto
  obtain d t2 where s2: "s2 = d # t2" using assms(2) by (cases s2) auto
  note t = spans_ok_tail [OF assms(3) [unfolded s1]] spans_ok_tail [OF assms(4) [unfolded s2]]
  have "joined t1 s2 (fst c) (snd c) (join t1 s2 (fst c) (snd c))" if "fst c < fst d"
  proof (rule join_joined [OF _ _ assms(4)])
    show "\<forall>s \<in> set t1 \<union> set s2. fst c \<le> fst s" using that t by (force simp: s2)
  qed (use t in auto)
  moreover have "joined s1 t2 (fst d) (snd d) (join s1 t2 (fst d) (snd d))" if "\<not> fst c < fst d"
  proof (rule join_joined [OF _ assms(3)])
    show "\<forall>s \<in> set s1 \<union> set t2. fst d \<le> fst s" using that t by (force simp: s1)
  qed (use t in auto)
  moreover have "insert (fst c) (fst ` set t1 \<union> fst ` set s2) = fst ` set s1 \<union> fst ` set s2"
    "insert (fst d) (fst ` set s1 \<union> fst ` set t2) = fst ` set s1 \<union> fst ` set s2" by (auto simp: s1 s2)
  moreover have "{fst c..<snd c} \<union> xs_of t1 \<union> xs_of s2 = xs_of s1 \<union> xs_of s2" "{fst d..<snd d} \<union> xs_of s1 \<union> xs_of t2 = xs_of s1 \<union> xs_of s2"
    by (auto simp: s1 s2)
  moreover have "union_spans s1 s2 = (if fst c < fst d then join t1 s2 (fst c) (snd c) else join s1 t2 (fst d) (snd d))"
    by (simp add: union_spans_def s1 s2)
  ultimately have "spans_ok (union_spans s1 s2) \<and> union_spans s1 s2 \<noteq> [] \<and> xs_of (union_spans s1 s2) = xs_of s1 \<union> xs_of s2 \<and>
    fst ` set (union_spans s1 s2) \<subseteq> fst ` set s1 \<union> fst ` set s2"
    unfolding joined_def by (cases "fst c < fst d") simp_all
  then show "spans_ok (union_spans s1 s2)" "union_spans s1 s2 \<noteq> []" "xs_of (union_spans s1 s2) = xs_of s1 \<union> xs_of s2"
    "fst ` set (union_spans s1 s2) \<subseteq> fst ` set s1 \<union> fst ` set s2" by simp_all
qed

subsection \<open>The loop of RegionUnionO\<close>

abbreviation span_boxes :: "int \<Rightarrow> int \<Rightarrow> span list \<Rightarrow> BoxRec list" where
  "span_boxes t b ss \<equiv> boxes_of (Band t b ss)"

lemma span_boxes_simps: "span_boxes t b [] = []" "span_boxes t b (s # ss) = Box (fst s) t (snd s) b # span_boxes t b ss"
  by (simp_all add: boxes_of_def)

text \<open>What the loop leaves: the joined spans behind the rectangles that were there.\<close>

definition wrote :: "BoxRec \<Rightarrow> int \<Rightarrow> int \<Rightarrow> BoxRec list \<Rightarrow> span list \<Rightarrow> bool \<times> rstate \<Rightarrow> bool" where
  "wrote e t b bs ss res \<longleftrightarrow>
     (\<exists>ovl sz k. res = (ovl, array_of e sz (bs @ span_boxes t b ss), k) \<and> length bs + length ss \<le> sz \<and> sz \<noteq> 0)"

lemma wrote_Cons: "wrote e t b (bs @ [Box l t r b]) ss res \<Longrightarrow> wrote e t b bs ((l, r) # ss) res"
  by (auto simp: wrote_def span_boxes_simps)

lemma MERGERECT_extend:
  "x1 c \<le> r \<Longrightarrow> MERGERECT mem t b c (l, r, ovl, st) = (True, l, max r (x2 c), ovl \<or> x1 c < r, st)"
  by (auto simp: MERGERECT_def max_def)

lemma MERGERECT_start:
  assumes "\<not> x1 c \<le> r" "ample mem L" "length bs \<le> sz" "sz \<noteq> 0" "length bs + 1 \<le> L"
  shows "\<exists>sz' k'. MERGERECT mem t b c (l, r, ovl, array_of e sz bs, k) =
      (True, x1 c, x2 c, ovl, array_of e sz' (bs @ [Box l t r b]), k') \<and> length (bs @ [Box l t r b]) \<le> sz' \<and> sz' \<noteq> 0"
  using NEWRECT_ok [OF assms(2-5), of "Box l t r b" e k] assms(1) by (auto simp: MERGERECT_def)

lemma merge_wrote:
  assumes mem: "ample mem L" "length bs \<le> sz" "sz \<noteq> 0" and len: "length bs + length (if fst c \<le> r then J1 else (l, r) # J2) \<le> L"
    and extend: "fst c \<le> r \<Longrightarrow> wrote e t b bs J1 (K (l, max r (snd c), ovl \<or> fst c < r, array_of e sz bs, k))"
    and start: "\<And>sz' k'. \<not> fst c \<le> r \<Longrightarrow> length (bs @ [Box l t r b]) \<le> sz' \<Longrightarrow> sz' \<noteq> 0 \<Longrightarrow> length (bs @ [Box l t r b]) + length J2 \<le> L \<Longrightarrow>
      wrote e t b (bs @ [Box l t r b]) J2 (K (fst c, snd c, ovl, array_of e sz' (bs @ [Box l t r b]), k'))"
  shows "wrote e t b bs (if fst c \<le> r then J1 else (l, r) # J2)
    (case MERGERECT mem t b (Box (fst c) t0 (snd c) b0) (l, r, ovl, array_of e sz bs, k) of (ok, s') \<Rightarrow> if ok then K s' else snd (snd s'))"
proof (cases "fst c \<le> r")
  case True
  then show ?thesis using extend by (simp add: MERGERECT_extend)
next
  case False
  then obtain sz' k' where 1: "MERGERECT mem t b (Box (fst c) t0 (snd c) b0) (l, r, ovl, array_of e sz bs, k) =
      (True, fst c, snd c, ovl, array_of e sz' (bs @ [Box l t r b]), k')" "length (bs @ [Box l t r b]) \<le> sz'" "sz' \<noteq> 0"
    using MERGERECT_start [OF _ mem, of "Box (fst c) t0 (snd c) b0" r t b l ovl e k] len by auto
  show ?thesis using False wrote_Cons [OF start [OF False 1(2,3)]] len by (simp add: 1(1))
qed

lemma union_loop_ok:
  assumes "ample mem L" "length bs \<le> sz" "sz \<noteq> 0" "length bs + length (join s1 s2 l r) \<le> L"
  shows "wrote e t b bs (join s1 s2 l r)
    (union_loop mem t b (span_boxes t1 b1 s1) (span_boxes t2 b2 s2) (l, r, ovl, array_of e sz bs, k))"
  using assms
proof (induction s1 s2 l r arbitrary: bs sz ovl k rule: join.induct)
  case (1 l r)
  then show ?case using NEWRECT_ok [OF 1(1-3), of "Box l t r b" e k] by (auto simp: span_boxes_simps wrote_def)
next
  case (2 c s1 l r)
  show ?case unfolding span_boxes_simps union_loop.simps join.simps
    by (rule merge_wrote [OF 2(3-5)]) (use 2 in \<open>auto simp: span_boxes_simps\<close>)
next
  case (3 d s2 l r)
  show ?case unfolding span_boxes_simps union_loop.simps join.simps
    by (rule merge_wrote [OF 3(3-5)]) (use 3 in \<open>auto simp: span_boxes_simps\<close>)
next
  case (4 c s1 d s2 l r)
  show ?case
  proof (cases "fst c < fst d")
    case True
    show ?thesis unfolding span_boxes_simps union_loop.simps join.simps BoxRec.simps if_P [OF True]
      by (rule merge_wrote [OF 4(5-7)]) (use 4 True in \<open>auto simp: span_boxes_simps\<close>)
  next
    case False
    show ?thesis unfolding span_boxes_simps union_loop.simps join.simps BoxRec.simps if_not_P [OF False]
      by (rule merge_wrote [OF 4(5-7)]) (use 4 False in \<open>auto simp: span_boxes_simps\<close>)
  qed
qed

lemma RegionUnionO_ok:
  assumes "ample mem L" "s1 \<noteq> []" "s2 \<noteq> []" "length bs \<le> sz" "sz \<noteq> 0" "length bs + length (union_spans s1 s2) \<le> L"
  shows "\<exists>ovl' sz' k'. RegionUnionO mem (span_boxes t1 b1 s1) (span_boxes t2 b2 s2) t b ovl (array_of e sz bs, k) =
      Some (ovl', array_of e sz' (bs @ span_boxes t b (union_spans s1 s2)), k') \<and> length bs + length (union_spans s1 s2) \<le> sz' \<and> sz' \<noteq> 0"
proof -
  obtain c u1 where s1: "s1 = c # u1" using assms(2) by (cases s1) auto
  obtain d u2 where s2: "s2 = d # u2" using assms(3) by (cases s2) auto
  have "\<exists>res. RegionUnionO mem (span_boxes t1 b1 s1) (span_boxes t2 b2 s2) t b ovl (array_of e sz bs, k) = Some res \<and>
      wrote e t b bs (union_spans s1 s2) res"
    using assms(6) union_loop_ok [OF assms(1,4,5), of u1 s2 "fst c" "snd c" e t b t1 b1 t2 b2 ovl k]
      union_loop_ok [OF assms(1,4,5), of s1 u2 "fst d" "snd d" e t b t1 b1 t2 b2 ovl k]
    by (auto simp: s1 s2 span_boxes_simps union_spans_def)
  then show ?thesis by (auto simp: wrote_def)
qed

text \<open>The contract, for memory that holds \<open>L\<close> rectangles and more.\<close>

lemma union_contract: "ample mem L \<Longrightarrow> band_overlap mem (RegionUnionO mem) union_spans (\<union>) True True L"
  by unfold_locales (use RegionUnionO_ok union_spans_ok in auto)

interpretation union: band_overlap "\<lambda>_. True" "RegionUnionO (\<lambda>_. True)" union_spans "(\<union>)" True True 134217000
  by (rule union_contract) (simp add: ample_def)

end
