(* ===== verification/RegionBuild.thy ===== *)
theory RegionBuild
  imports Region
begin

text \<open>
  Building regions from rectangles (dix/region.c): appending without keeping the bands, sorting, and \<open>RegionValidate\<close>, which scatters the sorted
  rectangles over as few banded regions as it can and merges these by unions.
\<close>

subsection \<open>Creation and extents\<close>

definition RegionInit :: "(nat \<Rightarrow> bool) \<Rightarrow> BoxRec option \<Rightarrow> nat \<Rightarrow> nat \<Rightarrow> rstate" where
  "RegionInit mem rect sz k =
     (case rect of
        Some b \<Rightarrow> (\<lparr>extents = b, rgn_data = NoData\<rparr>, k)
      | None \<Rightarrow>
          if sz > 1
          then (\<lparr>extents = RegionEmptyBox, rgn_data = (if rect_mem mem k sz then RegData sz [] else RegionEmptyData)\<rparr>, Suc k)
          else (\<lparr>extents = RegionEmptyBox, rgn_data = RegionEmptyData\<rparr>, k))"

definition RegionCreate :: "(nat \<Rightarrow> bool) \<Rightarrow> BoxRec option \<Rightarrow> nat \<Rightarrow> nat \<Rightarrow> rstate" where
  "RegionCreate mem rect sz k =
     (if mem k then RegionInit mem rect sz (Suc k) else (\<lparr>extents = RegionEmptyBox, rgn_data = RegionBrokenData\<rparr>, Suc k))"

definition widen :: "BoxRec \<Rightarrow> BoxRec \<Rightarrow> BoxRec" where
  "widen b e = (let e1 = (if x1 b < x1 e then e\<lparr>x1 := x1 b\<rparr> else e) in if x2 b > x2 e1 then e1\<lparr>x2 := x2 b\<rparr> else e1)"

fun RegionSetExtents :: "RegionRec \<Rightarrow> RegionRec option" where
  "RegionSetExtents reg =
     (case rgn_data reg of
        NoData \<Rightarrow> Some reg
      | RegData sz bs \<Rightarrow>
          if sz = 0 then Some (reg\<lparr>extents := (extents reg)\<lparr>x2 := x1 (extents reg), y2 := y1 (extents reg)\<rparr>\<rparr>)
          else if bs = [] then None
          else Some (reg\<lparr>extents := fold widen bs (Box (x1 (hd bs)) (y1 (hd bs)) (x2 (last bs)) (y2 (last bs)))\<rparr>)
      | _ \<Rightarrow> Some (reg\<lparr>extents := (extents reg)\<lparr>x2 := x1 (extents reg), y2 := y1 (extents reg)\<rparr>\<rparr>))"

subsection \<open>RegionAppend\<close>

text \<open>Whether \<open>first\<close> comes after \<open>last_box\<close> in band order, with a gap.\<close>

definition follows :: "BoxRec \<Rightarrow> BoxRec \<Rightarrow> bool" where
  "follows b a \<longleftrightarrow> y1 b > y2 a \<or> (y1 b = y1 a \<and> y2 b = y2 a \<and> x1 b > x2 a)"

definition append_extents :: "BoxRec list \<Rightarrow> BoxRec \<Rightarrow> BoxRec list \<Rightarrow> BoxRec \<Rightarrow> bool \<times> BoxRec" where
  "append_extents dst de src se =
     (if dst = [] then (False, se)
      else if x2 de > x1 de then
        (let wide = de\<lparr>x1 := min (x1 de) (x1 se), x2 := max (x2 de) (x2 se)\<rparr>
         in if follows (hd src) (last dst) then (False, wide\<lparr>y2 := y2 se\<rparr>)
            else if follows (hd dst) (last src) then (True, wide\<lparr>y1 := y1 se\<rparr>)
            else (False, de\<lparr>x2 := x1 de\<rparr>))
      else (False, de))"

definition RegionAppend :: "(nat \<Rightarrow> bool) \<Rightarrow> RegionRec \<Rightarrow> rstate \<Rightarrow> bool \<times> rstate" where
  "RegionAppend mem rgn = (\<lambda>(dst, k).
     if RegionNar rgn then (False, RegionBreak dst, k)
     else if rgn_data rgn = NoData \<and> rgn_data dst = RegionEmptyData then (True, \<lparr>extents = extents rgn, rgn_data = NoData\<rparr>, k)
     else
       let src = RegionRects rgn; dn = RegionNumRects dst
       in if src = [] then (True, dst, k)
          else case RECTALLOC mem (if dn = 0 \<and> length src < 200 then 200 else length src) (dst, k) of
                 (False, st) \<Rightarrow> (False, st)
               | (True, (d, k')) \<Rightarrow>
                   (case (append_extents (data_boxes (rgn_data d)) (extents d) src (extents rgn), rgn_data d) of
                      ((prepend, e), RegData sz bs) \<Rightarrow>
                        (True, \<lparr>extents = e, rgn_data = RegData sz (if prepend then src @ bs else bs @ src)\<rparr>, k')
                    | _ \<Rightarrow> (True, (d, k'))))"

subsection \<open>Sorting\<close>

definition rect_less :: "BoxRec \<Rightarrow> BoxRec \<Rightarrow> bool" where
  "rect_less a b \<longleftrightarrow> y1 a < y1 b \<or> (y1 a = y1 b \<and> x1 a < x1 b)"

definition ExchangeRects :: "nat \<Rightarrow> nat \<Rightarrow> BoxRec list \<Rightarrow> BoxRec list" where
  "ExchangeRects a b rects = rects[a := rects ! b, b := rects ! a]"

text \<open>The two inner loops of the partition; the second one would leave the array at index 0.\<close>

function scan_up :: "BoxRec list \<Rightarrow> BoxRec \<Rightarrow> nat \<Rightarrow> nat option" where
  "scan_up rects p i =
     (if length rects \<le> i then None
      else if Suc i \<noteq> length rects \<and> rect_less (rects ! Suc i) p then scan_up rects p (Suc i)
      else Some (Suc i))"
  by pat_completeness auto
termination by (relation "measure (\<lambda>(rects, p, i). length rects - i)") auto

declare scan_up.simps [simp del]

fun scan_down :: "BoxRec list \<Rightarrow> BoxRec \<Rightarrow> nat \<Rightarrow> nat option" where
  "scan_down rects p 0 = None"
| "scan_down rects p (Suc j) =
     (if length rects \<le> j then None else if rect_less p (rects ! j) then scan_down rects p j else Some j)"

lemma scan_down_less: "scan_down rects p j = Some j' \<Longrightarrow> j' < j \<and> j' < length rects"
  by (induction j) (auto split: if_splits)

function part_loop :: "BoxRec list \<Rightarrow> BoxRec \<Rightarrow> nat \<Rightarrow> nat \<Rightarrow> (BoxRec list \<times> nat) option" where
  "part_loop rects p i j =
     (case (scan_up rects p i, scan_down rects p j) of
        (Some i', Some j') \<Rightarrow> if i' < j' then part_loop (ExchangeRects i' j' rects) p i' j' else Some (rects, j')
      | _ \<Rightarrow> None)"
  by pat_completeness auto
termination by (relation "measure (\<lambda>(rects, p, i, j). j)") (auto dest: scan_down_less [OF sym])

declare part_loop.simps [simp del]

lemma part_loop_length: "part_loop rects p i j = Some (ys, m) \<Longrightarrow> length ys = length rects \<and> m < length rects"
proof (induction rects p i j rule: part_loop.induct)
  case (1 rects p i j)
  then show ?case
    by (subst (asm) part_loop.simps)
      (auto simp: ExchangeRects_def split: option.splits if_splits dest: scan_down_less)
qed

text \<open>One round: the middle rectangle is the pivot, and ends at index \<open>j\<close>.\<close>

definition sort_round :: "BoxRec list \<Rightarrow> (BoxRec list \<times> nat) option" where
  "sort_round rects =
     (let r0 = ExchangeRects 0 (length rects div 2) rects
      in map_option (\<lambda>(r1, j). (ExchangeRects 0 j r1, j)) (part_loop r0 (r0 ! 0) 0 (length rects)))"

lemma sort_round_length: "sort_round rects = Some (ys, j) \<Longrightarrow> length ys = length rects \<and> j < length rects"
  by (auto simp: sort_round_def Let_def ExchangeRects_def dest: part_loop_length)

function QuickSortRects :: "BoxRec list \<Rightarrow> BoxRec list option" where
  "QuickSortRects rects =
     (if length rects = 2 then Some (if rect_less (rects ! 1) (rects ! 0) then ExchangeRects 0 1 rects else rects)
      else case sort_round rects of
             None \<Rightarrow> None
           | Some (ys, j) \<Rightarrow>
               Option.bind (if length rects - j - 1 > 1 then QuickSortRects (drop (j + 1) ys) else Some (drop (j + 1) ys)) (\<lambda>right.
               Option.bind (if j > 1 then QuickSortRects (take j ys) else Some (take j ys)) (\<lambda>left.
                 Some (left @ [ys ! j] @ right))))"
  by pat_completeness auto
termination by (relation "measure length") (auto dest: sort_round_length)

declare QuickSortRects.simps [simp del]

subsection \<open>RegionValidate\<close>

record RegionInfo =
  ri_reg :: RegionRec
  prevBand :: nat
  curBand :: nat

text \<open>What happens to a rectangle at one region under construction.\<close>

datatype place = Placed RegionInfo bool nat | Inappropriate | Bail

definition push_box :: "(nat \<Rightarrow> bool) \<Rightarrow> BoxRec \<Rightarrow> RegionInfo \<Rightarrow> nat \<Rightarrow> place" where
  "push_box mem box ri k =
     (case RECTALLOC mem 1 (ri_reg ri, k) of
        (ok, st) \<Rightarrow> if ok then (case add_boxes [box] st of (reg, k') \<Rightarrow> Placed (ri\<lparr>ri_reg := reg\<rparr>) False k') else Bail)"

definition set_end_x2 :: "int \<Rightarrow> RegionRec \<Rightarrow> RegionRec" where
  "set_end_x2 v reg =
     reg\<lparr>rgn_data := (case rgn_data reg of RegData sz bs \<Rightarrow> RegData sz (butlast bs @ [(last bs)\<lparr>x2 := v\<rparr>]) | d \<Rightarrow> d)\<rparr>"

definition try_region :: "(nat \<Rightarrow> bool) \<Rightarrow> BoxRec \<Rightarrow> RegionInfo \<Rightarrow> nat \<Rightarrow> place" where
  "try_region mem box ri k =
     (let reg = ri_reg ri; riBox = last (data_boxes (rgn_data reg))
      in if y1 box = y1 riBox \<and> y2 box = y2 riBox then
           (if x1 box \<le> x2 riBox
            then Placed (ri\<lparr>ri_reg := (if x2 box > x2 riBox then set_end_x2 (x2 box) reg else reg)\<rparr>) (x1 box < x2 riBox) k
            else push_box mem box ri k)
         else if y1 box \<ge> y2 riBox then
           (let e = extents reg;
                reg1 = reg\<lparr>extents := e\<lparr>x2 := max (x2 e) (x2 riBox), x1 := min (x1 e) (x1 box)\<rparr>\<rparr>
            in case coalesce_reg (prevBand ri) (curBand ri) reg1 of (p, reg2) \<Rightarrow>
                 push_box mem box (ri\<lparr>ri_reg := reg2, prevBand := p, curBand := length (data_boxes (rgn_data reg2))\<rparr>) k)
         else Inappropriate)"

fun place_box :: "(nat \<Rightarrow> bool) \<Rightarrow> BoxRec \<Rightarrow> RegionInfo list \<Rightarrow> nat \<Rightarrow> (RegionInfo list \<times> bool \<times> nat) option option" where
  "place_box mem box [] k = Some None"
| "place_box mem box (ri # ris) k =
     (case try_region mem box ri k of
        Placed ri' ovl k' \<Rightarrow> Some (Some (ri' # ris, ovl, k'))
      | Bail \<Rightarrow> None
      | Inappropriate \<Rightarrow> map_option (map_option (\<lambda>(ris', ovl, k'). (ri # ris', ovl, k'))) (place_box mem box ris k))"

text \<open>A new region for a rectangle that fits none; \<open>i\<close> rectangles are left, this one included.\<close>

definition new_info :: "(nat \<Rightarrow> bool) \<Rightarrow> nat \<Rightarrow> BoxRec \<Rightarrow> RegionInfo list \<times> nat \<times> bool \<times> nat \<Rightarrow> (RegionInfo list \<times> nat \<times> bool \<times> nat) option" where
  "new_info mem i box = (\<lambda>(ris, sizeRI, ovl, k).
     let (okRI, sizeRI', k1) = (if sizeRI = length ris then (mem k, 2 * sizeRI, Suc k) else (True, sizeRI, k));
         numRI = length ris + 1
     in if \<not> okRI then None
        else case RegionRectAlloc mem ((i + numRI) div numRI) (\<lparr>extents = box, rgn_data = NoData\<rparr>, k1) of
               (ok, reg, k2) \<Rightarrow>
                 if ok then Some (ris @ [\<lparr>ri_reg = reg, prevBand = 0, curBand = 0\<rparr>], sizeRI', ovl, k2) else None)"

text \<open>Step 2. (The first region under construction shares the array that is read, see \<open>try_region_length\<close>.) A failed allocation leads to \<open>bail\<close>, where the array of the first region under construction is freed, and \<open>RegionBreak\<close> frees
  it once more as the array of the region being validated: the result is \<open>None\<close>.\<close>

fun scatter :: "(nat \<Rightarrow> bool) \<Rightarrow> BoxRec list \<Rightarrow> RegionInfo list \<times> nat \<times> bool \<times> nat \<Rightarrow> (RegionInfo list \<times> nat \<times> bool \<times> nat) option" where
  "scatter mem [] s = Some s"
| "scatter mem (box # bs) (ris, sizeRI, ovl, k) =
     (case place_box mem box ris k of
        None \<Rightarrow> None
      | Some (Some (ris', o', k')) \<Rightarrow> scatter mem bs (ris', sizeRI, ovl \<or> o', k')
      | Some None \<Rightarrow> Option.bind (new_info mem (length bs + 1) box (ris, sizeRI, ovl, k)) (scatter mem bs))"

text \<open>The final pass over a region under construction.\<close>

definition finish_info :: "RegionInfo \<Rightarrow> RegionRec" where
  "finish_info ri =
     (let reg = ri_reg ri; riBox = last (data_boxes (rgn_data reg)); e = extents reg;
          reg1 = reg\<lparr>extents := e\<lparr>y2 := y2 riBox, x2 := max (x2 e) (x2 riBox)\<rparr>\<rparr>;
          reg2 = snd (coalesce_reg (prevBand ri) (curBand ri) reg1)
      in if length (data_boxes (rgn_data reg2)) = 1 then reg2\<lparr>rgn_data := NoData\<rparr> else reg2)"

definition union_extents :: "BoxRec \<Rightarrow> BoxRec \<Rightarrow> BoxRec" where
  "union_extents h e = Box (min (x1 h) (x1 e)) (min (y1 h) (y1 e)) (max (x2 h) (x2 e)) (max (y2 h) (y2 e))"

text \<open>Step 3: in every round the regions of the upper half are merged into those before them.\<close>

fun merge_pairs :: "(nat \<Rightarrow> bool) \<Rightarrow> RegionRec list \<Rightarrow> RegionRec list \<Rightarrow> bool \<times> bool \<times> nat \<Rightarrow> (RegionRec list \<times> bool \<times> bool \<times> nat) option" where
  "merge_pairs mem (reg # regs) (hreg # hregs) (ret, ovl, k) =
     Option.bind (RegionOp mem True False reg reg hreg (RegionUnionO mem) True True ovl k) (\<lambda>(ok, ovl', reg', k').
     map_option (\<lambda>(rs, s). (reg'\<lparr>extents := union_extents (extents hreg) (extents reg')\<rparr> # rs, s))
       (merge_pairs mem regs hregs (ret \<and> ok, ovl', k')))"
| "merge_pairs mem _ _ s = Some ([], s)"

lemma merge_pairs_length: "merge_pairs mem xs ys s = Some (rs, s') \<Longrightarrow> length rs = min (length xs) (length ys)"
  by (induction mem xs ys s arbitrary: rs s' rule: merge_pairs.induct) (auto split: bind_splits prod.splits)

lemma half_less: "\<not> n \<le> Suc 0 \<Longrightarrow> n mod 2 + min (n div 2) m < n"
proof -
  assume "\<not> n \<le> Suc 0"
  then have "n mod 2 + n div 2 < n" by presburger
  then show ?thesis by (simp add: min_def)
qed

function merge_regions :: "(nat \<Rightarrow> bool) \<Rightarrow> RegionRec list \<Rightarrow> bool \<times> bool \<times> nat \<Rightarrow> (RegionRec list \<times> bool \<times> bool \<times> nat) option" where
  "merge_regions mem regs s =
     (if length regs \<le> 1 then Some (regs, s)
      else let half = length regs div 2; rest = length regs mod 2
           in case merge_pairs mem (take half (drop rest regs)) (drop (rest + half) regs) s of
                None \<Rightarrow> None
              | Some (rs, s') \<Rightarrow> merge_regions mem (take rest regs @ rs) s')"
  by pat_completeness auto
termination
  by (relation "measure (\<lambda>(mem, regs, s). length regs)") (auto dest!: merge_pairs_length simp: half_less)

declare merge_regions.simps [simp del]

definition RegionValidate :: "(nat \<Rightarrow> bool) \<Rightarrow> rstate \<Rightarrow> (bool \<times> bool \<times> rstate) option" where
  "RegionValidate mem = (\<lambda>(badreg, k).
     case rgn_data badreg of
       RegData sz (b # bs) \<Rightarrow>
         if x1 (extents badreg) < x2 (extents badreg) then
           Some (True, False, if bs = [] then (badreg\<lparr>rgn_data := NoData\<rparr>, k) else DOWNSIZE mem (badreg, k))
         else
           Option.bind (QuickSortRects (b # bs)) (\<lambda>rects.
           if \<not> mem k then Some (False, False, RegionBreak badreg, Suc k)
           else
             let ri0 = \<lparr>ri_reg = \<lparr>extents = hd rects, rgn_data = RegData sz [hd rects]\<rparr>, prevBand = 0, curBand = 0\<rparr>
             in Option.bind (scatter mem (tl rects) ([ri0], 4, False, Suc k)) (\<lambda>(ris, sizeRI, ovl, k1).
                Option.bind (merge_regions mem (List.map finish_info ris) (True, ovl, k1)) (\<lambda>(regs, ret, ovl', k2).
                  Some (ret, ovl', hd regs, k2))))
     | RegionBrokenData \<Rightarrow> Some (False, False, badreg, k)
     | _ \<Rightarrow> Some (True, False, badreg, k))"

subsection \<open>RegionFromRects\<close>

text \<open>A rectangle of a request: position in signed, size in unsigned 16-bit words.\<close>

record xRectangle =
  rx :: card16
  ry :: card16
  width :: card16
  height :: card16

definition MAXSHORT :: int where
  "MAXSHORT = 32767"

definition rect_box :: "xRectangle \<Rightarrow> BoxRec" where
  "rect_box p = Box (sint (rx p)) (sint (ry p)) (min (sint (rx p) + uint (width p)) MAXSHORT) (min (sint (ry p) + uint (height p)) MAXSHORT)"

definition has_area :: "BoxRec \<Rightarrow> bool" where
  "has_area b \<longleftrightarrow> x1 b \<noteq> x2 b \<and> y1 b \<noteq> y2 b"

definition RegionFromRects :: "(nat \<Rightarrow> bool) \<Rightarrow> xRectangle list \<Rightarrow> bool \<Rightarrow> nat \<Rightarrow> rstate option" where
  "RegionFromRects mem prect yx_banded k =
     (case RegionCreate mem None 0 k of (rgn, k1) \<Rightarrow>
        if RegionNar rgn \<or> prect = [] then Some (rgn, k1)
        else if tl prect = [] then
          Some (if has_area (rect_box (hd prect)) then \<lparr>extents = rect_box (hd prect), rgn_data = NoData\<rparr> else rgn, k1)
        else if \<not> rect_mem mem k1 (length prect) then Some (RegionBreak rgn, Suc k1)
        else
          let boxes = filter has_area (List.map rect_box prect)
          in if boxes = [] then Some (rgn, Suc k1)
             else if yx_banded then map_option (\<lambda>r. (r, Suc k1)) (RegionSetExtents (rgn\<lparr>rgn_data := RegData (length prect) boxes\<rparr>))
             else map_option (\<lambda>(ok, ovl, st). st)
                    (RegionValidate mem (\<lparr>extents = (extents rgn)\<lparr>x1 := 0, x2 := 0\<rparr>, rgn_data = RegData (length prect) boxes\<rparr>, Suc k1)))"

end
