(* ===== verification/RegionSort.thy ===== *)
theory RegionSort
  imports RegionBuild
begin

text \<open>
  \<open>QuickSortRects\<close> sorts: it stays within its array, ends, and gives a permutation of the rectangles in the order of their top left corners.
\<close>

definition rect_le :: "BoxRec \<Rightarrow> BoxRec \<Rightarrow> bool" where
  "rect_le a b \<longleftrightarrow> \<not> rect_less b a"

lemma rect_less_le: "rect_less a b \<Longrightarrow> rect_le a b"
  by (auto simp: rect_le_def rect_less_def)

lemma rect_le_trans: "rect_le a b \<Longrightarrow> rect_le b c \<Longrightarrow> rect_le a c"
  by (auto simp: rect_le_def rect_less_def)

lemma rect_le_refl [simp]: "rect_le a a"
  by (simp add: rect_le_def rect_less_def)

lemma ExchangeRects_simps [simp]: "length (ExchangeRects a b rects) = length rects"
  by (simp add: ExchangeRects_def)

lemma ExchangeRects_mset: "a < length rects \<Longrightarrow> b < length rects \<Longrightarrow> mset (ExchangeRects a b rects) = mset rects"
  by (simp add: ExchangeRects_def mset_swap)

lemma ExchangeRects_nth:
  "a < length rects \<Longrightarrow> b < length rects \<Longrightarrow> k < length rects \<Longrightarrow>
     ExchangeRects a b rects ! k = (if k = b then rects ! a else if k = a then rects ! b else rects ! k)"
  by (auto simp: ExchangeRects_def nth_list_update)

subsection \<open>The partition\<close>

lemma scan_up_ok:
  assumes "i < length rects"
  shows "\<exists>i'. scan_up rects p i = Some i' \<and> i < i' \<and> i' \<le> length rects \<and>
    (\<forall>k. i < k \<and> k < i' \<longrightarrow> rect_less (rects ! k) p) \<and> (i' = length rects \<or> \<not> rect_less (rects ! i') p)"
  using assms
proof (induction rects p i rule: scan_up.induct)
  case (1 rects p i)
  show ?case
  proof (cases "Suc i \<noteq> length rects \<and> rect_less (rects ! Suc i) p")
    case True
    then obtain i' where i': "scan_up rects p (Suc i) = Some i'" "Suc i < i'" "i' \<le> length rects"
      "\<forall>k. Suc i < k \<and> k < i' \<longrightarrow> rect_less (rects ! k) p" "i' = length rects \<or> \<not> rect_less (rects ! i') p"
      using 1 by auto
    have "rect_less (rects ! k) p" if "i < k" "k < i'" for k using that i'(4) True by (cases "k = Suc i") auto
    then show ?thesis using i' True 1(2) by (subst scan_up.simps) auto
  next
    case False
    then show ?thesis using 1(2) by (subst scan_up.simps) auto
  qed
qed

lemma scan_down_ok:
  assumes "0 < j" "j \<le> length rects" "rects ! 0 = p"
  shows "\<exists>j'. scan_down rects p j = Some j' \<and> j' < j \<and> \<not> rect_less p (rects ! j') \<and> (\<forall>k. j' < k \<and> k < j \<longrightarrow> rect_less p (rects ! k))"
  using assms
proof (induction j)
  case (Suc j)
  show ?case
  proof (cases "rect_less p (rects ! j)")
    case True
    then have "0 < j" using Suc.prems by (cases j) (auto simp: rect_less_def)
    then obtain j' where "scan_down rects p j = Some j'" "j' < j" "\<not> rect_less p (rects ! j')" "\<forall>k. j' < k \<and> k < j \<longrightarrow> rect_less p (rects ! k)"
      using Suc by auto
    then show ?thesis using True Suc.prems by (auto simp: less_Suc_eq)
  next
    case False
    then show ?thesis using Suc.prems by auto
  qed
qed simp

definition part_inv :: "BoxRec list \<Rightarrow> BoxRec \<Rightarrow> nat \<Rightarrow> nat \<Rightarrow> bool" where
  "part_inv rects p i j \<longleftrightarrow> i < j \<and> j \<le> length rects \<and> rects ! 0 = p \<and>
     (\<forall>k \<le> i. rect_le (rects ! k) p) \<and> (\<forall>k. j \<le> k \<and> k < length rects \<longrightarrow> rect_le p (rects ! k))"

lemma part_loop_ok:
  assumes "part_inv rects p i j"
  shows "\<exists>ys m. part_loop rects p i j = Some (ys, m) \<and> mset ys = mset rects \<and> m < length rects \<and> ys ! 0 = p \<and>
    (\<forall>k \<le> m. rect_le (ys ! k) p) \<and> (\<forall>k. m < k \<and> k < length rects \<longrightarrow> rect_le p (ys ! k))"
  using assms
proof (induction rects p i j rule: part_loop.induct)
  case (1 rects p i j)
  have inv: "i < j" "j \<le> length rects" "rects ! 0 = p" "\<forall>k \<le> i. rect_le (rects ! k) p"
    "\<forall>k. j \<le> k \<and> k < length rects \<longrightarrow> rect_le p (rects ! k)"
    using 1(2) by (auto simp: part_inv_def)
  obtain i' where i': "scan_up rects p i = Some i'" "i < i'" "i' \<le> length rects" "\<forall>k. i < k \<and> k < i' \<longrightarrow> rect_less (rects ! k) p"
    "i' = length rects \<or> rect_le p (rects ! i')"
    using scan_up_ok [of i rects p] inv by (auto simp: rect_le_def)
  obtain j' where j': "scan_down rects p j = Some j'" "j' < j" "rect_le (rects ! j') p" "\<forall>k. j' < k \<and> k < j \<longrightarrow> rect_less p (rects ! k)"
    using scan_down_ok [of j rects p] inv by (auto simp: rect_le_def)
  have low: "rect_le (rects ! k) p" if "k < i'" for k
    using that inv(4) i'(4) rect_less_le by (cases "k \<le> i") auto
  have high: "rect_le p (rects ! k)" if "j' < k" "k < length rects" for k
    using that inv(5) j'(4) rect_less_le by (cases "j \<le> k") auto
  show ?case
  proof (cases "i' < j'")
    case True
    then have ij: "i' < length rects" "j' < length rects" "i' \<noteq> 0" using i' j' inv by auto
    let ?r = "ExchangeRects i' j' rects"
    have "rect_le (?r ! k) p" if "k \<le> i'" for k
      using that True ij low j'(3) by (auto simp: ExchangeRects_nth)
    moreover have "rect_le p (?r ! k)" if "j' \<le> k" "k < length rects" for k
      using that True ij high i'(5) by (auto simp: ExchangeRects_nth)
    ultimately have "part_inv ?r p i' j'"
      using True ij inv by (simp add: part_inv_def) (auto simp: ExchangeRects_nth ExchangeRects_def)
    from 1(1) [OF refl i'(1) j'(1) True this] show ?thesis
      using True i'(1) j'(1) ij by (subst part_loop.simps) (auto simp: ExchangeRects_mset)
  next
    case False
    then have "rect_le (rects ! k) p" if "k \<le> j'" for k using that low [of k] j'(3) by (cases "k = j'") auto
    then show ?thesis using False i'(1) j' inv high by (subst part_loop.simps) auto
  qed
qed

lemma sort_round_ok:
  assumes "rects \<noteq> []"
  shows "\<exists>ys j. sort_round rects = Some (ys, j) \<and> mset ys = mset rects \<and> j < length rects \<and>
    (\<forall>k < j. rect_le (ys ! k) (ys ! j)) \<and> (\<forall>k. j < k \<and> k < length rects \<longrightarrow> rect_le (ys ! j) (ys ! k))"
proof -
  let ?m = "length rects div 2" and ?r = "ExchangeRects 0 (length rects div 2) rects"
  have m: "?m < length rects" "0 < length rects" using assms by auto
  have "part_inv ?r (?r ! 0) 0 (length rects)" using assms by (auto simp: part_inv_def)
  from part_loop_ok [OF this]
  obtain ys j where p: "part_loop ?r (?r ! 0) 0 (length rects) = Some (ys, j)" "mset ys = mset ?r" "j < length rects" "ys ! 0 = ?r ! 0"
    "\<forall>k \<le> j. rect_le (ys ! k) (?r ! 0)" "\<forall>k. j < k \<and> k < length rects \<longrightarrow> rect_le (?r ! 0) (ys ! k)"
    by auto
  have len: "length ys = length rects" using mset_eq_length [OF p(2)] by simp
  have s: "sort_round rects = Some (ExchangeRects 0 j ys, j)" using p(1) by (simp add: sort_round_def)
  have "mset (ExchangeRects 0 j ys) = mset rects"
    using p(2,3) m len by (simp add: ExchangeRects_mset)
  then show ?thesis
    using p(3-6) m len by (intro exI [of _ "ExchangeRects 0 j ys"] exI [of _ j]) (auto simp: s ExchangeRects_nth)
qed

subsection \<open>The sort\<close>

lemma two_rects: "length rects = 2 \<Longrightarrow> \<exists>a b. rects = [a, b]"
  by (cases rects; cases "tl rects") auto

lemma QuickSortRects_ok:
  assumes "rects \<noteq> []"
  shows "\<exists>ys. QuickSortRects rects = Some ys \<and> mset ys = mset rects \<and> sorted_wrt rect_le ys"
  using assms
proof (induction rects rule: length_induct)
  case (1 rects)
  show ?case
  proof (cases "length rects = 2")
    case True
    then obtain a b where "rects = [a, b]" using two_rects by blast
    then show ?thesis
      by (subst QuickSortRects.simps) (auto simp: ExchangeRects_def rect_le_def rect_less_def)
  next
    case False
    obtain ys j where r: "sort_round rects = Some (ys, j)" "mset ys = mset rects" "j < length rects"
      "\<forall>k < j. rect_le (ys ! k) (ys ! j)" "\<forall>k. j < k \<and> k < length rects \<longrightarrow> rect_le (ys ! j) (ys ! k)"
      using sort_round_ok [OF 1(2)] by blast
    have len: "length ys = length rects" using mset_eq_length [OF r(2)] .
    have part: "\<exists>zs. (if length xs > 1 then QuickSortRects xs else Some xs) = Some zs \<and> mset zs = mset xs \<and> sorted_wrt rect_le zs"
      if "length xs < length rects" for xs
      using that 1(1) [rule_format, of xs] by (cases xs; cases "tl xs") auto
    obtain right where right: "(if length (drop (j + 1) ys) > 1 then QuickSortRects (drop (j + 1) ys) else Some (drop (j + 1) ys)) = Some right"
      "mset right = mset (drop (j + 1) ys)" "sorted_wrt rect_le right"
      using part [of "drop (j + 1) ys"] r(3) len by (metis length_drop diff_less less_numeral_extra(1) gr_implies_not0 neq0_conv add_gr_0)
    obtain left where left: "(if length (take j ys) > 1 then QuickSortRects (take j ys) else Some (take j ys)) = Some left"
      "mset left = mset (take j ys)" "sorted_wrt rect_le left"
      using part [of "take j ys"] r(3) len by (metis length_take min_less_iff_disj)
    have q: "QuickSortRects rects = Some (left @ [ys ! j] @ right)"
    proof -
      have "(if length rects - j - 1 > 1 then QuickSortRects (drop (j + 1) ys) else Some (drop (j + 1) ys)) = Some right"
        "(if j > 1 then QuickSortRects (take j ys) else Some (take j ys)) = Some left"
        using right(1) left(1) r(3) len by simp_all
      then show ?thesis using False r(1) by (subst QuickSortRects.simps) (simp only: if_False option.case prod.case bind.bind_lunit)
    qed
    have ys: "ys = take j ys @ [ys ! j] @ drop (j + 1) ys" using r(3) len by (simp add: id_take_nth_drop)
    have "mset (left @ [ys ! j] @ right) = mset rects" using left(2) right(2) r(2) arg_cong [OF ys, of mset] by simp
    moreover have "\<forall>x \<in> set left. rect_le x (ys ! j)"
      using mset_eq_setD [OF left(2)] r(3,4) len by (auto simp: in_set_conv_nth)
    moreover have "\<forall>x \<in> set right. rect_le (ys ! j) x"
      using mset_eq_setD [OF right(2)] r(3,5) len by (auto simp: in_set_conv_nth)
    ultimately show ?thesis using q left(3) right(3) rect_le_trans by (auto simp: sorted_wrt_append)
  qed
qed

text \<open>C17. Sorting rectangles: for every non-empty array \<open>QuickSortRects\<close> ends without leaving the array, with the same rectangles, ordered by top and then
  by left side.\<close>

theorem QuickSortRects_sorts:
  assumes "rects \<noteq> []"
  shows "\<exists>ys. QuickSortRects rects = Some ys \<and> mset ys = mset rects \<and>
    sorted_wrt (\<lambda>a b. y1 a < y1 b \<or> (y1 a = y1 b \<and> x1 a \<le> x1 b)) ys"
proof -
  have "rect_le = (\<lambda>a b. y1 a < y1 b \<or> (y1 a = y1 b \<and> x1 a \<le> x1 b))"
    by (auto simp: rect_le_def rect_less_def fun_eq_iff)
  then show ?thesis using QuickSortRects_ok [OF assms] by simp
qed

theorem QuickSortRects_sorts_witness:
  "\<exists>ys. QuickSortRects [Box 3 1 4 2, Box 0 0 1 1, Box 0 1 2 2] = Some ys \<and> mset ys = {#Box 3 1 4 2, Box 0 0 1 1, Box 0 1 2 2#} \<and>
    sorted_wrt (\<lambda>a b. y1 a < y1 b \<or> (y1 a = y1 b \<and> x1 a \<le> x1 b)) ys"
  using QuickSortRects_sorts [of "[Box 3 1 4 2, Box 0 0 1 1, Box 0 1 2 2]"] by simp

end
