(* ===== verification/RegionScatter.thy ===== *)
theory RegionScatter
  imports RegionUnion RegionSort
begin

text \<open>
  The second step of \<open>RegionValidate\<close>: rectangles that come sorted are put into regions under construction. Each of these is a list of finished bands and
  a current band; placing a rectangle adds exactly its points, and the extents follow.
\<close>

subsection \<open>Extents\<close>

lemma box_eta: "Box (x1 b) (y1 b) (x2 b) (y2 b) = (b :: BoxRec)"
  by simp

definition tight :: "BoxRec \<Rightarrow> (int \<times> int) set \<Rightarrow> bool" where
  "tight e P \<longleftrightarrow> (\<forall>(x, y) \<in> P. x1 e \<le> x \<and> x < x2 e \<and> y1 e \<le> y \<and> y < y2 e) \<and>
     (\<exists>y. (x1 e, y) \<in> P) \<and> (\<exists>y. (x2 e - 1, y) \<in> P) \<and> (\<exists>x. (x, y1 e) \<in> P) \<and> (\<exists>x. (x, y2 e - 1) \<in> P)"

lemma tight_within: "tight e P \<Longrightarrow> tight f Q \<Longrightarrow> P \<subseteq> Q \<Longrightarrow> x1 f \<le> x1 e \<and> x2 e \<le> x2 f \<and> y1 f \<le> y1 e \<and> y2 e \<le> y2 f"
  unfolding tight_def by fastforce

lemma tight_unique: "tight e P \<Longrightarrow> tight f P \<Longrightarrow> e = f"
  using tight_within [of e P f P] tight_within [of f P e P] by (intro BoxRec.equality) auto

lemma tight_box: "x1 b < x2 b \<Longrightarrow> y1 b < y2 b \<Longrightarrow> tight b (points [b])"
  by (auto simp: tight_def points_def)

lemma tight_union:
  assumes "tight e P" "tight h Q"
  shows "tight (union_extents h e) (P \<union> Q)"
  unfolding tight_def
proof (intro conjI)
  show "\<forall>(x, y) \<in> P \<union> Q. x1 (union_extents h e) \<le> x \<and> x < x2 (union_extents h e) \<and> y1 (union_extents h e) \<le> y \<and> y < y2 (union_extents h e)"
    using assms by (fastforce simp: tight_def union_extents_def)
qed (use assms in \<open>auto simp: tight_def union_extents_def min_def max_def\<close>)

subsection \<open>A region under construction\<close>

abbreviation yes :: "nat \<Rightarrow> bool" where
  "yes \<equiv> \<lambda>_. True"

text \<open>The number of rectangles that the arrays can hold, whatever the sweep and the scattering ask for.\<close>

definition rect_limit :: nat where
  "rect_limit = 134217000"

lemma ample_yes: "ample yes rect_limit"
  by (simp add: ample_def rect_limit_def)

definition info_boxes :: "RegionInfo \<Rightarrow> BoxRec list" where
  "info_boxes ri = data_boxes (rgn_data (ri_reg ri))"

definition info_extents :: "BoxRec \<Rightarrow> band list \<Rightarrow> band \<Rightarrow> bool" where
  "info_extents e finished cur \<longleftrightarrow>
     (\<forall>(x, y) \<in> points (flat (finished @ [cur])). x1 e \<le> x \<and> y1 e \<le> y) \<and>
     (\<exists>y. (x1 e, y) \<in> points (flat (finished @ [cur]))) \<and> (\<exists>x. (x, y1 e) \<in> points (flat (finished @ [cur]))) \<and>
     (\<forall>(x, y) \<in> points (flat finished). x < x2 e) \<and>
     ((\<exists>y. (x2 e - 1, y) \<in> points (flat finished)) \<or> x2 e \<le> snd (last (spans cur)))"

definition info_ok :: "int set \<Rightarrow> int set \<Rightarrow> RegionInfo \<Rightarrow> band list \<Rightarrow> band \<Rightarrow> bool" where
  "info_ok Y X ri finished cur \<longleftrightarrow>
     (\<exists>e sz. ri = \<lparr>ri_reg = array_of e sz (flat finished @ boxes_of cur), prevBand = band_start finished, curBand = length (flat finished)\<rparr> \<and>
        length (flat finished @ boxes_of cur) \<le> sz \<and> sz \<noteq> 0 \<and> info_extents e finished cur) \<and>
     out_ok (btop cur) finished \<and> band_ok cur \<and> inside Y X (finished @ [cur])"

lemma info_ok_boxes: "info_ok Y X ri finished cur \<Longrightarrow> info_boxes ri = flat (finished @ [cur])"
  by (auto simp: info_ok_def info_boxes_def)

lemma last_boxes_of: "spans B \<noteq> [] \<Longrightarrow> last (boxes_of B) = Box (fst (last (spans B))) (btop B) (snd (last (spans B))) (bbot B)"
  by (simp add: boxes_of_def last_map)

lemma boxes_of_nil [simp]: "boxes_of B = [] \<longleftrightarrow> spans B = []"
  by (simp add: boxes_of_def)

lemma spans_ok_mem: "spans_ok ss \<Longrightarrow> s \<in> set ss \<Longrightarrow> fst s < snd s"
proof (induction ss)
  case (Cons a ss)
  then show ?case using spans_ok_tail [of a ss] by auto
qed simp

lemma spans_last: "spans_ok ss \<Longrightarrow> s \<in> set ss \<Longrightarrow> snd s \<le> snd (last ss) \<and> fst s \<le> fst (last ss)"
proof (induction ss)
  case (Cons a ss)
  note t = spans_ok_tail [OF Cons.prems(1)]
  show ?case
  proof (cases "ss = []")
    case True
    then show ?thesis using Cons.prems by simp
  next
    case False
    then have "last ss \<in> set ss" by simp
    then have "snd a < fst (last ss)" "fst (last ss) < snd (last ss)" using t spans_ok_mem by blast+
    moreover have "spans_ok ss" "fst a < snd a" using t by simp_all
    ultimately show ?thesis using False Cons.IH Cons.prems(2) by auto
  qed
qed simp

lemma spans_snoc: "spans_ok (ss @ [s]) \<longleftrightarrow> spans_ok ss \<and> fst s < snd s \<and> (ss \<noteq> [] \<longrightarrow> snd (last ss) < fst s)"
  by (induction ss) (auto simp: spans_ok_Cons)

text \<open>The points of a rectangle that has its place in the current band.\<close>

definition grow :: "band \<Rightarrow> int \<Rightarrow> band" where
  "grow cur r = Band (btop cur) (bbot cur) (butlast (spans cur) @ [(fst (last (spans cur)), max (snd (last (spans cur))) r)])"

definition extend_band :: "band \<Rightarrow> span \<Rightarrow> band" where
  "extend_band cur s = Band (btop cur) (bbot cur) (spans cur @ [s])"

lemma xs_of_last: "ss \<noteq> [] \<Longrightarrow> xs_of ss = xs_of (butlast ss) \<union> {fst (last ss)..<snd (last ss)}"
  by (induction ss) auto

lemma grow_ok:
  assumes "band_ok cur" "fst (last (spans cur)) \<le> l" "l \<le> snd (last (spans cur))" "l < r"
  shows "band_ok (grow cur r)" "xs_of (spans (grow cur r)) = xs_of (spans cur) \<union> {l..<r}" "fst ` set (spans (grow cur r)) = fst ` set (spans cur)"
proof -
  have ne: "spans cur \<noteq> []" using assms(1) by (simp add: band_ok_def)
  then have s: "spans cur = butlast (spans cur) @ [last (spans cur)]" by simp
  have ok: "spans_ok (butlast (spans cur) @ [last (spans cur)])" using assms(1) s by (simp add: band_ok_def)
  then have "spans_ok (butlast (spans cur) @ [(fst (last (spans cur)), max (snd (last (spans cur))) r)])"
    unfolding spans_snoc by auto
  then show "band_ok (grow cur r)" using assms(1) by (auto simp: grow_def band_ok_def)
  have "{fst (last (spans cur))..<max (snd (last (spans cur))) r} = {fst (last (spans cur))..<snd (last (spans cur))} \<union> {l..<r}"
    using assms(2-4) by auto
  then show "xs_of (spans (grow cur r)) = xs_of (spans cur) \<union> {l..<r}" using xs_of_last [OF ne] by (simp add: grow_def Un_assoc)
  show "fst ` set (spans (grow cur r)) = fst ` set (spans cur)" using arg_cong [OF s, of "\<lambda>ss. fst ` set ss"] by (simp add: grow_def)
qed

lemma extend_band_ok:
  assumes "band_ok cur" "snd (last (spans cur)) < fst s" "fst s < snd s"
  shows "band_ok (extend_band cur s)" "xs_of (spans (extend_band cur s)) = xs_of (spans cur) \<union> {fst s..<snd s}"
  using assms by (auto simp: extend_band_def band_ok_def spans_snoc)

subsection \<open>Placing a rectangle\<close>

lemma points_snoc: "points (flat (finished @ [cur])) = points (flat finished) \<union> {(x, y). x \<in> xs_of (spans cur) \<and> btop cur \<le> y \<and> y < bbot cur}"
  by (simp add: points_boxes_of)

lemma points_box: "points [b] = {(x, y). x \<in> {x1 b..<x2 b} \<and> y1 b \<le> y \<and> y < y2 b}"
  by (auto simp: points_def)

lemma xs_below_last: "band_ok cur \<Longrightarrow> x \<in> xs_of (spans cur) \<Longrightarrow> x < snd (last (spans cur))"
  using spans_last [of "spans cur"] by (force simp: band_ok_def in_xs_of)

lemma last_in_xs: "band_ok cur \<Longrightarrow> snd (last (spans cur)) - 1 \<in> xs_of (spans cur) \<and> fst (last (spans cur)) \<in> xs_of (spans cur)"
  using spans_ok_mem [of "spans cur" "last (spans cur)"] last_in_set [of "spans cur"]
  by (force simp: band_ok_def in_xs_of)

text \<open>More points in the current band, on its lines and to the right of its last left side.\<close>

lemma info_extents_grow:
  assumes ext: "info_extents e finished cur" and ok: "band_ok cur" and same: "btop cur' = btop cur" "bbot cur' = bbot cur"
    and xs: "xs_of (spans cur') = xs_of (spans cur) \<union> {l..<r}" and l: "fst (last (spans cur)) \<le> l" and r: "snd (last (spans cur)) \<le> snd (last (spans cur'))"
  shows "info_extents e finished cur'"
proof -
  have "x1 e \<le> fst (last (spans cur))"
    using ext last_in_xs [OF ok] ok by (auto simp: info_extents_def points_boxes_of band_ok_def)
  moreover have "y1 e \<le> btop cur"
    using ext last_in_xs [OF ok] ok by (auto simp: info_extents_def points_boxes_of band_ok_def)
  ultimately show ?thesis
    using ext l r unfolding info_extents_def points_snoc same xs by fastforce
qed

lemma extents_new_band:
  fixes b :: BoxRec
  assumes ext: "info_extents e finished cur" and ok: "band_ok cur" and b: "x1 b < x2 b" "y1 b < y2 b" "bbot cur \<le> y1 b"
    and out: "points (flat finished') = points (flat (finished @ [cur]))"
  shows "info_extents (e\<lparr>x2 := max (x2 e) (snd (last (spans cur))), x1 := min (x1 e) (x1 b)\<rparr>) finished' (Band (y1 b) (y2 b) [(x1 b, x2 b)])"
proof -
  have c: "(snd (last (spans cur)) - 1, btop cur) \<in> points (flat (finished @ [cur]))"
    using last_in_xs [OF ok] ok by (auto simp: points_boxes_of band_ok_def)
  then have y: "y1 e \<le> btop cur" using ext by (auto simp: info_extents_def)
  have bb: "(x1 b, y1 b) \<in> points [b]" using b by (auto simp: points_box)
  have all: "points (flat (finished' @ [Band (y1 b) (y2 b) [(x1 b, x2 b)]])) = points (flat (finished @ [cur])) \<union> points [b]"
    by (simp add: out boxes_of_def box_eta)
  have low: "\<forall>(x, y) \<in> points (flat (finished @ [cur])). x1 e \<le> x \<and> y1 e \<le> y"
    and at: "\<exists>y. (x1 e, y) \<in> points (flat (finished @ [cur]))" "\<exists>x. (x, y1 e) \<in> points (flat (finished @ [cur]))"
    and fin: "\<forall>(x, y) \<in> points (flat finished). x < x2 e"
      "(\<exists>y. (x2 e - 1, y) \<in> points (flat finished)) \<or> x2 e \<le> snd (last (spans cur))"
    using ext by (auto simp: info_extents_def)
  have "\<forall>(x, y) \<in> points (flat (finished @ [cur])). x < max (x2 e) (snd (last (spans cur)))"
    using fin(1) xs_below_last [OF ok] by (fastforce simp: points_boxes_of)
  moreover have "\<exists>y. (max (x2 e) (snd (last (spans cur))) - 1, y) \<in> points (flat (finished @ [cur]))"
    using fin(2) c by (cases "x2 e \<le> snd (last (spans cur))") (auto simp: max_def points_boxes_of)
  moreover have "\<exists>y. (min (x1 e) (x1 b), y) \<in> points (flat (finished @ [cur])) \<union> points [b]"
    using at(1) bb by (auto simp: min_def)
  moreover have "\<forall>(x, y) \<in> points (flat (finished @ [cur])) \<union> points [b]. min (x1 e) (x1 b) \<le> x \<and> y1 e \<le> y"
    using low y b ok by (fastforce simp: points_box band_ok_def)
  ultimately show ?thesis using at(2) unfolding info_extents_def all out by auto
qed

text \<open>Where a rectangle goes: into the last span, behind it, or into a new band.\<close>

definition place_ok :: "int set \<Rightarrow> int set \<Rightarrow> BoxRec \<Rightarrow> RegionInfo \<Rightarrow> RegionInfo \<Rightarrow> bool" where
  "place_ok Y X b ri ri' \<longleftrightarrow>
     (\<exists>finished cur. info_ok Y X ri' finished cur) \<and> points (info_boxes ri') = points (info_boxes ri) \<union> points [b] \<and>
     y1 (last (info_boxes ri')) = y1 b \<and> x1 (last (info_boxes ri')) \<le> x1 b"

definition box_ok :: "int set \<Rightarrow> int set \<Rightarrow> BoxRec \<Rightarrow> bool" where
  "box_ok Y X b \<longleftrightarrow> x1 b < x2 b \<and> y1 b < y2 b \<and> y1 b \<in> Y \<and> y2 b \<in> Y \<and> x1 b \<in> X"

lemma push_box_yes:
  assumes "length bs \<le> sz" "sz \<noteq> 0" "length bs + 1 \<le> rect_limit"
  shows "\<exists>sz' k'. push_box yes b \<lparr>ri_reg = array_of e sz bs, prevBand = p, curBand = c\<rparr> k =
      Placed \<lparr>ri_reg = array_of e sz' (bs @ [b]), prevBand = p, curBand = c\<rparr> False k' \<and> length (bs @ [b]) \<le> sz' \<and> sz' \<noteq> 0"
proof -
  obtain sz' k' where "RECTALLOC yes 1 (array_of e sz bs, k) = (True, array_of e sz' bs, k')" "length bs + 1 \<le> sz'" "sz' \<noteq> 0"
    using RECTALLOC_ok [OF ample_yes assms, of e k] by blast
  then show ?thesis by (auto simp: push_box_def add_boxes_def)
qed

lemma limit_bound:
  assumes "banded bs" "inside Y X bs" "finite Y" "finite X" "card Y * card X \<le> rect_limit"
  shows "length (flat bs) \<le> rect_limit"
  using flat_bound [OF assms(1-4)] assms(5) by linarith

lemma same_band_ok:
  assumes ok: "info_ok Y X ri finished cur" and b: "box_ok Y X b" "y1 b = btop cur" "y2 b = bbot cur" "fst (last (spans cur)) \<le> x1 b"
    and fin: "finite Y" "finite X" "card Y * card X \<le> rect_limit"
  shows "\<exists>ri' o' k'. try_region yes b ri k = Placed ri' o' k' \<and> place_ok Y X b ri ri'"
proof -
  obtain e sz where ri: "ri = \<lparr>ri_reg = array_of e sz (flat finished @ boxes_of cur), prevBand = band_start finished, curBand = length (flat finished)\<rparr>"
    and sz: "length (flat finished @ boxes_of cur) \<le> sz" "sz \<noteq> 0" and ext: "info_extents e finished cur"
    and out: "out_ok (btop cur) finished" and cur: "band_ok cur" and ins: "inside Y X (finished @ [cur])"
    using ok by (auto simp: info_ok_def)
  have ne: "spans cur \<noteq> []" and area: "x1 b < x2 b" "y1 b < y2 b" using cur b by (auto simp: band_ok_def box_ok_def)
  have l: "last (flat finished @ boxes_of cur) = Box (fst (last (spans cur))) (btop cur) (snd (last (spans cur))) (bbot cur)"
    using ne by (simp add: last_boxes_of)
  have ban: "banded (finished @ [cur])" using out cur by (auto simp: out_ok_def)
  show ?thesis
  proof (cases "x1 b \<le> snd (last (spans cur))")
    case True
    let ?c = "grow cur (x2 b)"
    note g = grow_ok [OF cur b(4) True area(1)]
    have boxes: "boxes_of ?c = butlast (boxes_of cur) @ [Box (fst (last (spans cur))) (btop cur) (max (snd (last (spans cur))) (x2 b)) (bbot cur)]"
      by (simp add: grow_def boxes_of_def map_butlast)
    let ?ri = "\<lparr>ri_reg = array_of e sz (flat finished @ boxes_of ?c), prevBand = band_start finished, curBand = length (flat finished)\<rparr>"
    have "try_region yes b ri k = Placed ?ri (x1 b < snd (last (spans cur))) k"
    proof (cases "x2 b > snd (last (spans cur))")
      case True
      then show ?thesis using \<open>x1 b \<le> _\<close> b ne
        by (simp add: try_region_def ri Let_def l set_end_x2_def boxes butlast_append max_def last_boxes_of)
    next
      case False
      have "boxes_of ?c = boxes_of cur"
        using False append_butlast_last_id [of "boxes_of cur"] ne by (simp add: boxes last_boxes_of max_def)
      then show ?thesis using False \<open>x1 b \<le> _\<close> b by (simp add: try_region_def ri Let_def l)
    qed
    moreover have "info_extents e finished ?c"
      by (rule info_extents_grow [OF ext cur _ _ g(2) b(4)]) (simp_all add: grow_def)
    moreover have "length (boxes_of ?c) = length (boxes_of cur)" using ne by (simp add: grow_def)
    moreover have "out_ok (btop ?c) finished \<and> inside Y X (finished @ [?c])" using out ins g(3) by (simp add: grow_def)
    ultimately have "info_ok Y X ?ri finished ?c" using sz g(1) by (auto simp: info_ok_def)
    moreover have "points (boxes_of ?c) = points (boxes_of cur) \<union> points [b]"
      using g(2) b(2,3) by (auto simp: points_boxes_of points_box grow_def)
    moreover have "last (boxes_of ?c) = Box (fst (last (spans cur))) (btop cur) (max (snd (last (spans cur))) (x2 b)) (bbot cur)" by (simp add: boxes)
    ultimately have "place_ok Y X b ri ?ri"
      using b by (auto simp: place_ok_def info_boxes_def ri boxes)
    then show ?thesis using \<open>try_region yes b ri k = _\<close> by blast
  next
    case False
    let ?c = "extend_band cur (x1 b, x2 b)"
    have g: "band_ok ?c" "xs_of (spans ?c) = xs_of (spans cur) \<union> {x1 b..<x2 b}"
      using extend_band_ok [OF cur, of "(x1 b, x2 b)"] False area by auto
    have boxes: "boxes_of ?c = boxes_of cur @ [b]" using b(2,3) by (simp add: extend_band_def boxes_of_def)
    have insc: "inside Y X (finished @ [?c])" using ins b(1) by (auto simp: extend_band_def box_ok_def)
    have banc: "banded (finished @ [?c])" using ban g(1) by (auto simp: extend_band_def)
    have len: "length (flat finished @ boxes_of cur) + 1 \<le> rect_limit"
      using limit_bound [OF banc insc fin] by (simp add: extend_band_def)
    obtain sz' k' where p: "push_box yes b ri k = Placed \<lparr>ri_reg = array_of e sz' (flat finished @ boxes_of ?c), prevBand = band_start finished, curBand = length (flat finished)\<rparr> False k'"
      "length (flat finished @ boxes_of ?c) \<le> sz'" "sz' \<noteq> 0"
      using push_box_yes [OF sz len, of b e "band_start finished" "length (flat finished)" k] by (auto simp: ri boxes)
    let ?ri = "\<lparr>ri_reg = array_of e sz' (flat finished @ boxes_of ?c), prevBand = band_start finished, curBand = length (flat finished)\<rparr>"
    have "try_region yes b ri k = push_box yes b ri k" using False b by (simp add: try_region_def ri Let_def l)
    moreover have "info_extents e finished ?c"
      by (rule info_extents_grow [OF ext cur _ _ g(2) b(4)]) (use False area in \<open>simp_all add: extend_band_def\<close>)
    moreover have "out_ok (btop ?c) finished" using out by (simp add: extend_band_def)
    ultimately have "info_ok Y X ?ri finished ?c" "try_region yes b ri k = Placed ?ri False k'" using p g(1) insc by (auto simp: info_ok_def)
    moreover have "place_ok Y X b ri ?ri" using calculation(1) b by (auto simp: place_ok_def info_boxes_def ri boxes)
    ultimately show ?thesis by blast
  qed
qed

lemma add_band_points: "out_ok (btop cur) finished \<Longrightarrow> band_ok cur \<Longrightarrow> points (flat (add_band finished cur)) = points (flat (finished @ [cur]))"
  using add_band_out_ok(2) [of "btop cur" finished cur] by (auto simp: points_flat simp del: flat_simps)

lemma new_band_ok:
  assumes ok: "info_ok Y X ri finished cur" and b: "box_ok Y X b" "bbot cur \<le> y1 b" "\<not> (y1 b = btop cur \<and> y2 b = bbot cur)"
    and fin: "finite Y" "finite X" "card Y * card X \<le> rect_limit"
  shows "\<exists>ri' o' k'. try_region yes b ri k = Placed ri' o' k' \<and> place_ok Y X b ri ri'"
proof -
  obtain e sz where ri: "ri = \<lparr>ri_reg = array_of e sz (flat finished @ boxes_of cur), prevBand = band_start finished, curBand = length (flat finished)\<rparr>"
    and sz: "length (flat finished @ boxes_of cur) \<le> sz" "sz \<noteq> 0" and ext: "info_extents e finished cur"
    and out: "out_ok (btop cur) finished" and cur: "band_ok cur" and ins: "inside Y X (finished @ [cur])"
    using ok by (auto simp: info_ok_def)
  have ne: "spans cur \<noteq> []" and area: "x1 b < x2 b" "y1 b < y2 b" using cur b by (auto simp: band_ok_def box_ok_def)
  have l: "last (flat finished @ boxes_of cur) = Box (fst (last (spans cur))) (btop cur) (snd (last (spans cur))) (bbot cur)"
    using ne by (simp add: last_boxes_of)
  let ?f = "add_band finished cur" and ?c = "Band (y1 b) (y2 b) [(x1 b, x2 b)]"
    and ?e = "e\<lparr>x2 := max (x2 e) (snd (last (spans cur))), x1 := min (x1 e) (x1 b)\<rparr>"
  have boxes: "boxes_of ?c = [b]" by (simp add: boxes_of_def box_eta)
  have f: "out_ok (bbot cur) ?f" using add_band_out_ok(1) [OF out _ cur] by simp
  have outf: "out_ok (btop ?c) ?f" using out_ok_mono [OF f, of "y1 b"] b(2) by simp
  have c: "band_ok ?c" using area by (simp add: band_ok_def)
  have insf: "inside Y X (?f @ [?c])" using add_band_inside [of Y X finished cur] ins b(1) by (auto simp: box_ok_def)
  have "banded (?f @ [?c])" using outf c by (auto simp: out_ok_def)
  from limit_bound [OF this insf fin] have len: "length (flat ?f) + 1 \<le> rect_limit" by simp
  have szf: "length (flat ?f) \<le> sz" using add_band_length [of finished cur] sz(1) by simp
  obtain sz' k' where p: "push_box yes b \<lparr>ri_reg = array_of ?e sz (flat ?f), prevBand = band_start ?f, curBand = length (flat ?f)\<rparr> k =
      Placed \<lparr>ri_reg = array_of ?e sz' (flat ?f @ [b]), prevBand = band_start ?f, curBand = length (flat ?f)\<rparr> False k'"
      "length (flat ?f @ [b]) \<le> sz'" "sz' \<noteq> 0"
    using push_box_yes [OF szf sz(2) len, of b ?e "band_start ?f" "length (flat ?f)" k] by blast
  let ?ri = "\<lparr>ri_reg = array_of ?e sz' (flat ?f @ boxes_of ?c), prevBand = band_start ?f, curBand = length (flat ?f)\<rparr>"
  have "try_region yes b ri k = Placed ?ri False k'"
    using b(2,3) p(1) coalesce_reg_flat [OF ne, of finished ?e sz] out
    by (auto simp: try_region_def ri Let_def l boxes out_ok_def)
  moreover have "info_extents ?e ?f ?c"
    by (rule extents_new_band [OF ext cur area b(2) add_band_points [OF out cur]])
  then have "info_ok Y X ?ri ?f ?c" using p(2,3) outf c insf by (auto simp: info_ok_def boxes)
  moreover have "points (flat ?f @ boxes_of ?c) = points (flat finished @ boxes_of cur) \<union> points [b]"
    using add_band_points [OF out cur] by (simp add: boxes)
  ultimately show ?thesis
    by (intro exI [of _ ?ri] exI [of _ False] exI [of _ k']) (auto simp: place_ok_def info_boxes_def ri boxes)
qed

definition info_wf :: "int set \<Rightarrow> int set \<Rightarrow> RegionInfo \<Rightarrow> bool" where
  "info_wf Y X ri \<longleftrightarrow> (\<exists>finished cur. info_ok Y X ri finished cur)"

lemma try_region_ok:
  assumes "info_wf Y X ri" "box_ok Y X b" "rect_le (last (info_boxes ri)) b" "finite Y" "finite X" "card Y * card X \<le> rect_limit"
  shows "try_region yes b ri k = Inappropriate \<or>
    (\<exists>ri' o' k'. try_region yes b ri k = Placed ri' o' k' \<and> place_ok Y X b ri ri')"
proof -
  obtain finished cur where ok: "info_ok Y X ri finished cur" using assms(1) by (auto simp: info_wf_def)
  have ne: "spans cur \<noteq> []" using ok by (auto simp: info_ok_def band_ok_def)
  have l: "last (info_boxes ri) = Box (fst (last (spans cur))) (btop cur) (snd (last (spans cur))) (bbot cur)"
    using info_ok_boxes [OF ok] ne by (simp add: last_boxes_of)
  consider "y1 b = btop cur \<and> y2 b = bbot cur" | "\<not> (y1 b = btop cur \<and> y2 b = bbot cur)" "bbot cur \<le> y1 b"
    | "\<not> (y1 b = btop cur \<and> y2 b = bbot cur)" "\<not> bbot cur \<le> y1 b" by blast
  then show ?thesis
  proof cases
    case 1
    then have "fst (last (spans cur)) \<le> x1 b" using assms(3) by (auto simp: l rect_le_def rect_less_def)
    then show ?thesis using same_band_ok [OF ok assms(2)] 1 assms(4-6) by auto
  next
    case 2
    then show ?thesis using new_band_ok [OF ok assms(2)] assms(4-6) by auto
  next
    case 3
    then have "try_region yes b ri k = Inappropriate"
      using l by (auto simp: try_region_def Let_def info_boxes_def)
    then show ?thesis by simp
  qed
qed

subsection \<open>Scattering\<close>

definition all_points :: "RegionInfo list \<Rightarrow> (int \<times> int) set" where
  "all_points ris = (\<Union>ri \<in> set ris. points (info_boxes ri))"

lemma place_box_ok:
  assumes "\<forall>ri \<in> set ris. info_wf Y X ri \<and> rect_le (last (info_boxes ri)) b" "box_ok Y X b"
    "finite Y" "finite X" "card Y * card X \<le> rect_limit"
  shows "place_box yes b ris k = Some None \<or>
    (\<exists>ris' o' k'. place_box yes b ris k = Some (Some (ris', o', k')) \<and> length ris' = length ris \<and>
       (\<forall>ri \<in> set ris'. info_wf Y X ri \<and> rect_le (last (info_boxes ri)) b) \<and> all_points ris' = all_points ris \<union> points [b])"
  using assms(1)
proof (induction ris)
  case (Cons ri ris)
  consider "try_region yes b ri k = Inappropriate" |
    ri' o' k' where "try_region yes b ri k = Placed ri' o' k'" "place_ok Y X b ri ri'"
    using try_region_ok [OF _ assms(2) _ assms(3-5), of ri k] Cons.prems by auto
  then show ?case
  proof cases
    case 1
    then show ?thesis using Cons by (auto simp: all_points_def)
  next
    case 2
    then have "info_wf Y X ri' \<and> rect_le (last (info_boxes ri')) b" by (auto simp: place_ok_def info_wf_def rect_le_def rect_less_def)
    then show ?thesis using 2 Cons.prems by (auto simp: all_points_def place_ok_def)
  qed
qed simp

lemma new_info_ok:
  assumes "box_ok Y X b" "i \<le> 1000000"
  shows "\<exists>ri sizeRI' k'. new_info yes i b (ris, sizeRI, ovl, k) = Some (ris @ [ri], sizeRI', ovl, k') \<and> info_wf Y X ri \<and> info_boxes ri = [b]"
proof -
  let ?n = "(i + (length ris + 1)) div (length ris + 1)" and ?c = "Band (y1 b) (y2 b) [(x1 b, x2 b)]"
  have "?n = i div (length ris + 1) + 1" by (rule div_add_self2) simp
  then have "?n \<le> i + 1" by simp
  then have m: "rect_mem yes k1 (?n + 1)" for k1 using assms(2) rect_mem_ok [OF ample_yes, of "?n + 1" k1] by (simp add: rect_limit_def)
  let ?ri = "\<lparr>ri_reg = array_of b (?n + 1) [b], prevBand = 0, curBand = 0\<rparr>"
  have "\<exists>sizeRI' k'. new_info yes i b (ris, sizeRI, ovl, k) = Some (ris @ [?ri], sizeRI', ovl, k')"
    using m by (auto simp: new_info_def RegionRectAlloc_def Let_def)
  moreover have "info_extents b [] ?c" using assms(1) by (auto simp: info_extents_def box_ok_def points_def boxes_of_def)
  then have "info_ok Y X ?ri [] ?c"
    using assms(1) by (auto simp: info_ok_def box_ok_def out_ok_def band_ok_def boxes_of_def band_start_def box_eta)
  then have "info_wf Y X ?ri" unfolding info_wf_def by blast
  ultimately show ?thesis by (auto simp: info_boxes_def)
qed

lemma scatter_ok:
  assumes "\<forall>ri \<in> set ris. info_wf Y X ri \<and> (\<forall>b \<in> set bs. rect_le (last (info_boxes ri)) b)" "\<forall>b \<in> set bs. box_ok Y X b" "sorted_wrt rect_le bs"
    "finite Y" "finite X" "card Y * card X \<le> rect_limit" "length bs \<le> 1000000" "ris \<noteq> []"
  shows "\<exists>ris' sizeRI' ovl' k'. scatter yes bs (ris, sizeRI, ovl, k) = Some (ris', sizeRI', ovl', k') \<and> ris' \<noteq> [] \<and>
    (\<forall>ri \<in> set ris'. info_wf Y X ri) \<and> all_points ris' = all_points ris \<union> points bs"
  using assms(1,2,3,7,8)
proof (induction bs arbitrary: ris sizeRI ovl k)
  case (Cons b bs)
  have p: "points (b # bs) = points [b] \<union> points bs" by (auto simp: points_def)
  have le: "\<forall>c \<in> set bs. rect_le b c" using Cons.prems(3) by simp
  have b: "box_ok Y X b" using Cons.prems(2) by simp
  consider "place_box yes b ris k = Some None" |
    ris' o' k' where "place_box yes b ris k = Some (Some (ris', o', k'))" "length ris' = length ris"
       "\<forall>ri \<in> set ris'. info_wf Y X ri \<and> rect_le (last (info_boxes ri)) b" "all_points ris' = all_points ris \<union> points [b]"
    using place_box_ok [OF _ b assms(4-6), of ris k] Cons.prems(1) by auto
  then show ?case
  proof cases
    case 1
    obtain ri sizeRI' k' where n: "new_info yes (length bs + 1) b (ris, sizeRI, ovl, k) = Some (ris @ [ri], sizeRI', ovl, k')"
      "info_wf Y X ri" "info_boxes ri = [b]"
      using new_info_ok [OF b, of "length bs + 1" ris sizeRI ovl k] Cons.prems(4) by auto
    have "all_points (ris @ [ri]) = all_points ris \<union> points [b]" using n(3) by (auto simp: all_points_def)
    moreover have "\<forall>ri' \<in> set (ris @ [ri]). info_wf Y X ri' \<and> (\<forall>c \<in> set bs. rect_le (last (info_boxes ri')) c)"
      using Cons.prems(1) n(2,3) le by simp
    ultimately show ?thesis
      using Cons.IH [of "ris @ [ri]" sizeRI' ovl k'] Cons.prems 1 n(1) by (simp add: p Un_assoc)
  next
    case 2
    have "\<forall>ri \<in> set ris'. info_wf Y X ri \<and> (\<forall>c \<in> set bs. rect_le (last (info_boxes ri)) c)"
      using 2(3) le rect_le_trans by blast
    moreover have "ris' \<noteq> []" using 2(2) Cons.prems(5) by auto
    ultimately show ?thesis
      using Cons.IH [of ris' sizeRI "ovl \<or> o'" k'] Cons.prems 2(1,4) by (simp add: p Un_assoc)
  qed
qed (auto simp: points_def)

subsection \<open>The first region is built in place\<close>

text \<open>The first region under construction uses the array that is being read. It has never more rectangles than have been read, so that no rectangle
  is overwritten before its turn.\<close>

lemma Coalesce_length: "length (snd (Coalesce p c bs)) \<le> length bs"
  by (auto simp: Coalesce_def RegionCoalesce_def Let_def)

lemma coalesce_reg_length: "coalesce_reg p c reg = (p', reg') \<Longrightarrow> length (data_boxes (rgn_data reg')) \<le> length (data_boxes (rgn_data reg))"
  using Coalesce_length [of p c "data_boxes (rgn_data reg)"] by (auto simp: coalesce_reg_def split: prod.splits RegDataRec.splits)

lemma push_box_length: "push_box mem b ri k = Placed ri' o' k' \<Longrightarrow> length (info_boxes ri') \<le> length (info_boxes ri) + 1 \<or> rgn_data (ri_reg ri) = NoData"
  by (auto simp: push_box_def add_boxes_def RECTALLOC_def RegionRectAlloc_def info_boxes_def Let_def split: prod.splits if_splits RegDataRec.splits)

lemma coalesce_reg_data: "coalesce_reg p c reg = (p', reg') \<Longrightarrow> rgn_data reg' = NoData \<longleftrightarrow> rgn_data reg = NoData"
  by (auto simp: coalesce_reg_def split: prod.splits RegDataRec.splits)

lemma try_region_length:
  assumes "try_region mem b ri k = Placed ri' o' k'" "rgn_data (ri_reg ri) \<noteq> NoData"
  shows "length (info_boxes ri') \<le> length (info_boxes ri) + 1"
proof -
  let ?reg = "ri_reg ri" and ?last = "last (data_boxes (rgn_data (ri_reg ri)))"
  consider "y1 b = y1 ?last \<and> y2 b = y2 ?last" "x1 b \<le> x2 ?last" | "y1 b = y1 ?last \<and> y2 b = y2 ?last" "\<not> x1 b \<le> x2 ?last"
    | "\<not> (y1 b = y1 ?last \<and> y2 b = y2 ?last)" by blast
  then show ?thesis
  proof cases
    case 1
    then have "ri' = ri\<lparr>ri_reg := (if x2 b > x2 ?last then set_end_x2 (x2 b) ?reg else ?reg)\<rparr>" using assms(1) by (simp add: try_region_def Let_def)
    then show ?thesis by (auto simp: info_boxes_def set_end_x2_def split: RegDataRec.splits)
  next
    case 2
    then have "push_box mem b ri k = Placed ri' o' k'" using assms(1) by (simp add: try_region_def Let_def)
    then show ?thesis using push_box_length assms(2) by blast
  next
    case 3
    let ?r1 = "?reg\<lparr>extents := (extents ?reg)\<lparr>x2 := max (x2 (extents ?reg)) (x2 ?last), x1 := min (x1 (extents ?reg)) (x1 b)\<rparr>\<rparr>"
    obtain p r2 where c: "coalesce_reg (prevBand ri) (curBand ri) ?r1 = (p, r2)" by fastforce
    then have p: "push_box mem b (ri\<lparr>ri_reg := r2, prevBand := p, curBand := length (data_boxes (rgn_data r2))\<rparr>) k = Placed ri' o' k'"
      using 3 assms(1) by (auto simp: try_region_def Let_def split: if_splits)
    show ?thesis using push_box_length [OF p] coalesce_reg_length [OF c] coalesce_reg_data [OF c] assms(2) by (simp add: info_boxes_def)
  qed
qed

end
