(* ===== verification/RegionMerge.thy ===== *)
theory RegionMerge
  imports RegionScatter
begin

text \<open>
  The third step of \<open>RegionValidate\<close> and the whole: the regions under construction are merged by unions, and the result covers exactly the rectangles
  it was made from, in bands that cannot be merged any more, with exact extents.
\<close>

subsection \<open>Well-formed regions\<close>

text \<open>The region has its rectangles in bands that are as wide and as high as possible, and exact extents; a single rectangle stands in the extents.\<close>

definition region_wf :: "int set \<Rightarrow> int set \<Rightarrow> RegionRec \<Rightarrow> bool" where
  "region_wf Y X reg \<longleftrightarrow>
     (\<exists>bs. RegionRects reg = flat bs \<and> banded bs \<and> coalesced bs \<and> inside Y X bs \<and> bs \<noteq> []) \<and>
     tight (extents reg) (points (RegionRects reg)) \<and> (RegionNumRects reg = 1 \<longrightarrow> rgn_data reg = NoData)"

lemma tight_nonempty: "tight e P \<Longrightarrow> P \<noteq> {}"
  by (auto simp: tight_def)

lemma flat_box_area: "banded bs \<Longrightarrow> b \<in> set (flat bs) \<Longrightarrow> x1 b < x2 b \<and> y1 b < y2 b"
  using banded_mem spans_ok_mem by (force dest!: flat_coords simp: band_ok_def)

lemma points_lines: "(\<forall>y. line out y = line bs y \<union> line cs y) \<Longrightarrow> points (flat out) = points (flat bs) \<union> points (flat cs)"
  by (auto simp: points_flat)

text \<open>Setting the extents to those of the points does not change what the region holds.\<close>

lemma holds_bands_wf:
  assumes "holds_bands e0 bs reg" "banded bs" "coalesced bs" "inside Y X bs" "tight e (points (flat bs))"
  shows "region_wf Y X (reg\<lparr>extents := e\<rparr>)" "RegionRects (reg\<lparr>extents := e\<rparr>) = flat bs"
proof -
  have rects: "RegionRects (reg\<lparr>extents := e\<rparr>) = flat bs"
  proof (cases "rgn_data reg = NoData")
    case True
    then have b: "flat bs = [extents reg]" using assms(1) by (simp add: holds_bands_def RegionRects_def)
    then have "tight (extents reg) (points (flat bs))" using flat_box_area [OF assms(2), of "extents reg"] by (auto intro: tight_box)
    then have "e = extents reg" using assms(5) tight_unique by blast
    then show ?thesis using True b by (simp add: RegionRects_def)
  next
    case False
    then show ?thesis using assms(1) by (simp add: holds_bands_def RegionRects_def)
  qed
  moreover have "bs \<noteq> []" using tight_nonempty [OF assms(5)] by auto
  ultimately show "region_wf Y X (reg\<lparr>extents := e\<rparr>)"
    using assms by (auto simp: region_wf_def holds_bands_def RegionNumRects_def)
  show "RegionRects (reg\<lparr>extents := e\<rparr>) = flat bs" by (rule rects)
qed

lemma finish_info_wf:
  assumes "info_wf Y X ri"
  shows "region_wf Y X (finish_info ri)" "points (RegionRects (finish_info ri)) = points (info_boxes ri)"
proof -
  obtain finished cur where ok: "info_ok Y X ri finished cur" using assms by (auto simp: info_wf_def)
  obtain e sz where ri: "ri = \<lparr>ri_reg = array_of e sz (flat finished @ boxes_of cur), prevBand = band_start finished, curBand = length (flat finished)\<rparr>"
    and ext: "info_extents e finished cur" and out: "out_ok (btop cur) finished" and cur: "band_ok cur" and ins: "inside Y X (finished @ [cur])"
    using ok by (auto simp: info_ok_def)
  have ne: "spans cur \<noteq> []" using cur by (simp add: band_ok_def)
  let ?f = "add_band finished cur" and ?e = "e\<lparr>y2 := bbot cur, x2 := max (x2 e) (snd (last (spans cur)))\<rparr>"
  let ?reg = "if length (flat ?f) = 1 then \<lparr>extents = hd (flat ?f), rgn_data = NoData\<rparr> else array_of ?e sz (flat ?f)"
  note f = add_band_out_ok [OF out _ cur]
  have pts: "points (flat ?f) = points (flat (finished @ [cur]))" by (rule add_band_points [OF out cur])
  have co: "coalesce_reg (band_start finished) (length (flat finished)) (array_of ?e sz (flat finished @ boxes_of cur)) = (band_start ?f, array_of ?e sz (flat ?f))"
    using coalesce_reg_flat [OF ne] out by (simp add: out_ok_def)
  have fin: "finish_info ri = (if length (flat ?f) = 1 then \<lparr>extents = ?e, rgn_data = NoData\<rparr> else array_of ?e sz (flat ?f))"
    using co ne by (simp add: finish_info_def ri Let_def last_boxes_of)
  have low: "\<forall>(x, y) \<in> points (flat finished) \<union> points (boxes_of cur). x1 e \<le> x \<and> y1 e \<le> y"
    and at: "\<exists>y. (x1 e, y) \<in> points (flat finished) \<union> points (boxes_of cur)" "\<exists>x. (x, y1 e) \<in> points (flat finished) \<union> points (boxes_of cur)"
    and right: "\<forall>(x, y) \<in> points (flat finished). x < x2 e"
      "(\<exists>y. (x2 e - 1, y) \<in> points (flat finished)) \<or> x2 e \<le> snd (last (spans cur))"
    using ext by (auto simp: info_extents_def)
  have c: "(snd (last (spans cur)) - 1, bbot cur - 1) \<in> points (boxes_of cur)"
    using last_in_xs [OF cur] cur by (auto simp: points_boxes_of band_ok_def)
  have "\<forall>(x, y) \<in> points (flat finished). y < bbot cur"
    using out cur by (fastforce simp: out_ok_def band_ok_def points_flat line_def)
  then have "\<forall>(x, y) \<in> points (flat finished) \<union> points (boxes_of cur). y < bbot cur \<and> x < max (x2 e) (snd (last (spans cur)))"
    using right(1) xs_below_last [OF cur] by (fastforce simp: points_boxes_of)
  moreover have "\<exists>y. (max (x2 e) (snd (last (spans cur))) - 1, y) \<in> points (flat finished) \<union> points (boxes_of cur)"
    using right(2) c by (cases "x2 e \<le> snd (last (spans cur))") (auto simp: max_def)
  ultimately have "tight ?e (points (flat finished) \<union> points (boxes_of cur))"
    using low at c unfolding tight_def by (simp add: case_prod_unfold) blast
  then have t: "tight ?e (points (flat ?f))" by (simp add: pts)
  have "holds_bands ?e ?f ?reg"
    by (cases "flat ?f"; cases "tl (flat ?f)") (auto simp: holds_bands_def RegionRects_def)
  moreover have "banded ?f" "coalesced ?f" using f(1) by (auto simp: out_ok_def)
  moreover have "inside Y X ?f" using add_band_inside [of Y X finished cur] ins by auto
  moreover have "?reg\<lparr>extents := ?e\<rparr> = finish_info ri" by (simp add: fin)
  ultimately show "region_wf Y X (finish_info ri)" "points (RegionRects (finish_info ri)) = points (info_boxes ri)"
    using holds_bands_wf [OF _ _ _ _ t] pts info_ok_boxes [OF ok] by metis+
qed

subsection \<open>Merging\<close>

definition region_points :: "RegionRec list \<Rightarrow> (int \<times> int) set" where
  "region_points regs = (\<Union>reg \<in> set regs. points (RegionRects reg))"

lemma RegionOp_wf:
  assumes "region_wf Y X reg" "region_wf Y X hreg" "finite Y" "finite X" "card Y * card X \<le> rect_limit"
  shows "\<exists>ovl' reg' k'. RegionOp yes True False reg reg hreg (RegionUnionO yes) True True ovl k = Some (True, ovl', reg', k') \<and>
    region_wf Y X (reg'\<lparr>extents := union_extents (extents hreg) (extents reg')\<rparr>) \<and>
    points (RegionRects (reg'\<lparr>extents := union_extents (extents hreg) (extents reg')\<rparr>)) = points (RegionRects reg) \<union> points (RegionRects hreg)"
proof -
  obtain bs where bs: "RegionRects reg = flat bs" "banded bs" "coalesced bs" "inside Y X bs" "bs \<noteq> []"
    using assms(1) by (auto simp: region_wf_def)
  obtain cs where cs: "RegionRects hreg = flat cs" "banded cs" "coalesced cs" "inside Y X cs" "cs \<noteq> []"
    using assms(2) by (auto simp: region_wf_def)
  have nc: "\<not> clobbers True reg" using assms(1) by (auto simp: region_wf_def clobbers_def)
  have lim: "card Y * card X \<le> 134217000" using assms(5) by (simp add: rect_limit_def)
  have ins: "inside Y X (bs @ cs)" using bs cs by simp
  obtain ovl' reg' k' out where op: "RegionOp yes True False reg reg hreg (RegionUnionO yes) True True ovl k = Some (True, ovl', reg', k')"
    and out: "holds_bands (extents reg) out reg'" "banded out" "coalesced out" "inside Y X out" "\<forall>y. line out y = line bs y \<union> line cs y"
    using union.RegionOp_ok [OF bs(1) nc cs(1) bs(2) cs(2) bs(3) cs(3) bs(5) cs(5) ins assms(3,4) lim, of ovl k] by blast
  have P: "points (flat out) = points (RegionRects reg) \<union> points (RegionRects hreg)" using points_lines [OF out(5)] bs(1) cs(1) by simp
  have te: "tight (extents reg) (points (RegionRects reg))" "tight (extents hreg) (points (RegionRects hreg))"
    using assms(1,2) by (auto simp: region_wf_def)
  have "tight (union_extents (extents hreg) (extents reg')) (points (flat out))"
  proof (cases "length (flat out) = 1")
    case True
    then have b: "flat out = [extents reg']" using out(1) by (auto simp: holds_bands_def RegionRects_def)
    then have t: "tight (extents reg') (points (flat out))" using flat_box_area [OF out(2), of "extents reg'"] by (auto intro: tight_box)
    have "union_extents (extents hreg) (extents reg') = extents reg'"
      using tight_within [OF te(2) t] P by (auto simp: union_extents_def min_def max_def intro!: BoxRec.equality)
    then show ?thesis using t by simp
  next
    case False
    then have "extents reg' = extents reg" using out(1) by (simp add: holds_bands_def)
    then show ?thesis using tight_union [OF te] P by simp
  qed
  from holds_bands_wf [OF out(1-4) this] show ?thesis using op P by auto
qed

lemma merge_pairs_ok:
  assumes "finite Y" "finite X" "card Y * card X \<le> rect_limit"
    "length xs = length ys" "\<forall>r \<in> set xs \<union> set ys. region_wf Y X r"
  shows "\<exists>rs ovl' k'. merge_pairs yes xs ys (ret, ovl, k) = Some (rs, ret, ovl', k') \<and> length rs = length xs \<and>
    (\<forall>r \<in> set rs. region_wf Y X r) \<and> region_points rs = region_points xs \<union> region_points ys"
  using assms(4,5)
proof (induction xs ys arbitrary: ovl k rule: list_induct2)
  case (Cons x xs y ys)
  obtain ovl1 reg k1 where 1: "RegionOp yes True False x x y (RegionUnionO yes) True True ovl k = Some (True, ovl1, reg, k1)"
    "region_wf Y X (reg\<lparr>extents := union_extents (extents y) (extents reg)\<rparr>)"
    "points (RegionRects (reg\<lparr>extents := union_extents (extents y) (extents reg)\<rparr>)) = points (RegionRects x) \<union> points (RegionRects y)"
    using RegionOp_wf [OF _ _ assms(1-3), of x y ovl k] Cons.prems by auto
  obtain rs ovl' k' where 2: "merge_pairs yes xs ys (ret, ovl1, k1) = Some (rs, ret, ovl', k')" "length rs = length xs"
    "\<forall>r \<in> set rs. region_wf Y X r" "region_points rs = region_points xs \<union> region_points ys"
    using Cons.IH [of ovl1 k1] Cons.prems by auto
  show ?case
    using 1 2 by (intro exI [of _ "reg\<lparr>extents := union_extents (extents y) (extents reg)\<rparr> # rs"] exI [of _ ovl'] exI [of _ k'])
      (auto simp: region_points_def)
qed (simp add: region_points_def)

lemma merge_regions_ok:
  assumes "finite Y" "finite X" "card Y * card X \<le> rect_limit" "regs \<noteq> []" "\<forall>r \<in> set regs. region_wf Y X r"
  shows "\<exists>reg ovl' k'. merge_regions yes regs (ret, ovl, k) = Some ([reg], ret, ovl', k') \<and> region_wf Y X reg \<and>
    points (RegionRects reg) = region_points regs"
  using assms(4,5)
proof (induction regs arbitrary: ovl k rule: length_induct)
  case (1 regs)
  show ?case
  proof (cases "length regs \<le> 1")
    case True
    then obtain reg where "regs = [reg]" using 1(2) by (cases regs) auto
    then show ?thesis using 1(3) by (subst merge_regions.simps) (simp add: region_points_def)
  next
    case False
    let ?h = "length regs div 2" and ?o = "length regs mod 2"
    let ?a = "take ?h (drop ?o regs)" and ?b = "drop (?o + ?h) regs"
    have eq: "length ?a = length ?b" by simp (use minus_mod_eq_mult_div [of "length regs" 2] in linarith)
    have parts: "regs = take ?o regs @ ?a @ ?b" by (metis append_take_drop_id drop_drop add.commute)
    have wf: "\<forall>r \<in> set ?a \<union> set ?b \<union> set (take ?o regs). region_wf Y X r" using 1(3) by (auto dest: in_set_takeD in_set_dropD)
    obtain rs ovl1 k1 where m: "merge_pairs yes ?a ?b (ret, ovl, k) = Some (rs, ret, ovl1, k1)" "length rs = length ?a"
      "\<forall>r \<in> set rs. region_wf Y X r" "region_points rs = region_points ?a \<union> region_points ?b"
      using merge_pairs_ok [OF assms(1-3) eq, of ret ovl k] wf by auto
    have len: "length (take ?o regs @ rs) < length regs" using m(2) half_less [OF False [unfolded One_nat_def], of "length regs div 2"] by simp
    have "take ?o regs @ rs \<noteq> []" using m(2) False by (cases rs) auto
    moreover have "\<forall>r \<in> set (take ?o regs @ rs). region_wf Y X r" using m(3) wf by auto
    moreover have "region_points (take ?o regs @ rs) = region_points regs"
    proof -
      have "region_points regs = region_points (take ?o regs @ ?a @ ?b)" using parts by simp
      then show ?thesis using m(4) by (simp add: region_points_def Un_assoc)
    qed
    ultimately show ?thesis
      using 1(1) [rule_format, OF len, of ovl1 k1] m(1) False by (subst merge_regions.simps) (simp add: Let_def)
  qed
qed

end
