(* ===== verification/RegionCorrect.thy ===== *)
theory RegionCorrect
  imports RegionMerge
begin

text \<open>
  Regions made from rectangles: the result covers exactly the rectangles, passes the server's own check \<open>RegionIsValid\<close>, and is the only banded
  array of these points. Then \<open>RegionAppend\<close>, and what happens when memory runs out.
\<close>

subsection \<open>The bands of a set of points are unique\<close>

lemma spans_first: "spans_ok (s # ss) \<Longrightarrow> x \<in> xs_of (s # ss) \<Longrightarrow> fst s \<le> x"
  using spans_ok_tail [of s ss] by (fastforce simp: in_xs_of)

lemma spans_gap: "spans_ok (s # ss) \<Longrightarrow> snd s \<notin> xs_of (s # ss)"
  using spans_ok_tail [of s ss] by (fastforce simp: in_xs_of)

lemma xs_of_nonempty: "spans_ok ss \<Longrightarrow> ss \<noteq> [] \<Longrightarrow> fst (hd ss) \<in> xs_of ss"
  using spans_ok_mem [of ss "hd ss"] by (cases ss) auto

lemma spans_unique: "spans_ok ss \<Longrightarrow> spans_ok ts \<Longrightarrow> xs_of ss = xs_of ts \<Longrightarrow> ss = ts"
proof (induction ss arbitrary: ts)
  case Nil
  then show ?case using xs_of_nonempty [of ts] by auto
next
  case (Cons s ss)
  obtain t us where ts: "ts = t # us" using Cons.prems xs_of_nonempty [of "s # ss"] by (cases ts) auto
  note tail = spans_ok_tail [OF Cons.prems(1)] spans_ok_tail [OF Cons.prems(2) [unfolded ts]]
  have "fst t \<in> xs_of (s # ss)" "fst s \<in> xs_of (t # us)"
    using xs_of_nonempty [OF Cons.prems(2)] xs_of_nonempty [OF Cons.prems(1)] Cons.prems(3) by (simp_all add: ts del: xs_of_simps)
  then have "fst s = fst t" using spans_first [OF Cons.prems(1)] spans_first [of t us] Cons.prems(2) ts by fastforce
  moreover have "snd s = snd t"
  proof (rule ccontr)
    assume "snd s \<noteq> snd t"
    moreover have "snd s \<notin> {fst t..<snd t}" "snd t \<notin> {fst s..<snd s}"
      using spans_gap [OF Cons.prems(1)] spans_gap [of t us] Cons.prems(2,3) by (auto simp: ts)
    ultimately show False using \<open>fst s = fst t\<close> tail by auto
  qed
  ultimately have "s = t" by (simp add: prod_eq_iff)
  have "xs_of ss = xs_of (s # ss) - {fst s..<snd s}" "xs_of us = xs_of (t # us) - {fst t..<snd t}"
    using tail by (fastforce simp: in_xs_of)+
  then have "xs_of ss = xs_of us" using Cons.prems(3) \<open>s = t\<close> ts by simp
  then show ?case using Cons.IH [of us] tail \<open>s = t\<close> ts by simp
qed

lemma band_top_covered: "banded (B # bs) \<Longrightarrow> line (B # bs) (btop B) \<noteq> {}"
  using xs_of_nonempty [of "spans B"] by (auto simp: line_head band_ok_def simp del: line_simps)

lemma line_before: "banded (B # bs) \<Longrightarrow> y < btop B \<Longrightarrow> line (B # bs) y = {}"
  by (rule line_above) (auto simp: band_ok_def)

text \<open>A band ends where the covered line changes.\<close>

lemma band_ends:
  assumes "banded (A # as)" "coalesced (A # as)"
  shows "line (A # as) (bbot A) \<noteq> xs_of (spans A)"
proof
  assume *: "line (A # as) (bbot A) = xs_of (spans A)"
  have A: "spans_ok (spans A)" "xs_of (spans A) \<noteq> {}" using assms(1) xs_of_nonempty [of "spans A"] by (auto simp: band_ok_def)
  have l: "line as (bbot A) = xs_of (spans A)" using * line_head [OF assms(1), of "bbot A"] by simp
  then obtain B bs where as: "as = B # bs" using A(2) by (cases as) auto
  have B: "banded (B # bs)" "bbot A \<le> btop B" using assms(1) as by auto
  then have "btop B = bbot A" using line_before [OF B(1), of "bbot A"] l A(2) as by (cases "bbot A < btop B") auto
  moreover have "xs_of (spans B) = xs_of (spans A)"
    using l line_head [OF B(1), of "bbot A"] \<open>btop B = bbot A\<close> B(1) by (auto simp: as band_ok_def simp del: line_simps)
  then have "spans B = spans A" using spans_unique [of "spans B" "spans A"] A(1) B(1) by (auto simp: band_ok_def)
  ultimately show False using assms(2) as by simp
qed

lemma bands_unique:
  assumes "banded as" "coalesced as" "banded bs" "coalesced bs" "\<forall>y. line as y = line bs y"
  shows "as = bs"
  using assms
proof (induction as arbitrary: bs)
  case Nil
  show ?case
  proof (cases bs)
    case (Cons B cs)
    then show ?thesis using Nil.prems(3,5) band_top_covered [of B cs] by (metis line_simps(1))
  qed simp
next
  case (Cons A as)
  obtain B cs where bs: "bs = B # cs" using Cons.prems(1,5) band_top_covered [of A as] by (metis line_simps(1) neq_Nil_conv)
  note wf = Cons.prems(1,2) Cons.prems(3,4) [unfolded bs]
  have line: "line (A # as) y = line (B # cs) y" for y using Cons.prems(5) bs by blast
  have t: "btop A < bbot A" "btop B < bbot B" "spans_ok (spans A)" "spans_ok (spans B)" using wf by (auto simp: band_ok_def)
  have top: "btop A = btop B"
    using line_before [OF wf(1), of "btop B"] line_before [OF wf(3), of "btop A"] band_top_covered [OF wf(1)] band_top_covered [OF wf(3)] line
    by (metis linorder_neqE_linordered_idom)
  have "xs_of (spans A) = xs_of (spans B)"
    using line [of "btop A"] line_head [OF wf(1), of "btop A"] line_head [OF wf(3), of "btop A"] t top by simp
  then have spans: "spans A = spans B" using spans_unique t by blast
  have bot: "bbot A = bbot B"
  proof (rule ccontr)
    assume "bbot A \<noteq> bbot B"
    then consider "bbot A < bbot B" | "bbot B < bbot A" by linarith
    then show False
      using band_ends [OF wf(1,2)] band_ends [OF wf(3,4)] line [of "bbot A"] line [of "bbot B"]
        line_head [OF wf(1), of "bbot B"] line_head [OF wf(3), of "bbot A"] top spans t
      by cases (simp_all del: line_simps)
  qed
  have "A = B" using top spans bot by (simp add: band.expand)
  have "line as y = line cs y" for y
  proof (cases "y < bbot A")
    case True
    have "line as y = {}" "line cs y = {}" using True wf(1,3) bot by (auto intro!: line_above)
    then show ?thesis by simp
  next
    case False
    then show ?thesis using line [of y] line_head [OF wf(1), of y] line_head [OF wf(3), of y] bot by simp
  qed
  moreover have "coalesced as" "coalesced cs" using wf(2,4) by (cases as; cases cs; simp)+
  ultimately show ?case using Cons.IH [of cs] wf \<open>A = B\<close> bs by simp
qed

definition canonical :: "BoxRec list \<Rightarrow> bool" where
  "canonical xs \<longleftrightarrow> (\<exists>bs. xs = flat bs \<and> banded bs \<and> coalesced bs)"

lemma canonical_unique: "canonical xs \<Longrightarrow> canonical ys \<Longrightarrow> points xs = points ys \<Longrightarrow> xs = ys"
proof -
  assume "canonical xs" "canonical ys" and p: "points xs = points ys"
  then obtain as bs where b: "xs = flat as" "banded as" "coalesced as" "ys = flat bs" "banded bs" "coalesced bs"
    by (auto simp: canonical_def)
  have "\<forall>y. line as y = line bs y" using p by (auto simp: b set_eq_iff points_flat)
  then show ?thesis using bands_unique [of as bs] b by simp
qed

subsection \<open>The check of debugging builds\<close>

definition before :: "BoxRec \<Rightarrow> BoxRec \<Rightarrow> bool" where
  "before a b \<longleftrightarrow> y2 a \<le> y1 b \<or> (y1 a = y1 b \<and> y2 a = y2 b \<and> x2 a < x1 b)"

lemma boxes_before: "spans_ok (spans B) \<Longrightarrow> sorted_wrt before (boxes_of B)"
proof -
  have "spans_ok ss \<Longrightarrow> sorted_wrt (\<lambda>s t. snd s < fst t) ss" for ss
  proof (induction ss)
    case (Cons s ss)
    then show ?case using spans_ok_tail [of s ss] by simp
  qed simp
  moreover have "sorted_wrt (\<lambda>s t. snd s < fst t) ss \<Longrightarrow> sorted_wrt (\<lambda>s t. bbot B \<le> btop B \<or> snd s < fst t) ss" for ss
    by (rule sorted_wrt_mono_rel) auto
  ultimately have "spans_ok (spans B) \<Longrightarrow> sorted_wrt (\<lambda>s t. bbot B \<le> btop B \<or> snd s < fst t) (spans B)" by blast
  then show "spans_ok (spans B) \<Longrightarrow> sorted_wrt before (boxes_of B)" by (simp add: boxes_of_def sorted_wrt_map before_def)
qed

lemma flat_before: "banded bs \<Longrightarrow> sorted_wrt before (flat bs)"
proof (induction bs)
  case (Cons B bs)
  have "before a b" if "a \<in> set (boxes_of B)" "b \<in> set (flat bs)" for a b
    using that(1) flat_coords [OF that(2)] Cons.prems by (auto simp: before_def boxes_of_def)
  then show ?case using Cons boxes_before [of B] by (auto simp: sorted_wrt_append band_ok_def)
qed simp

definition area :: "BoxRec \<Rightarrow> bool" where
  "area b \<longleftrightarrow> x1 b < x2 b \<and> y1 b < y2 b"

lemma valid_pairs_widens: "valid_pairs Q cs c = Some d \<Longrightarrow> x1 d \<le> x1 c \<and> x2 c \<le> x2 d"
  by (induction Q cs c rule: valid_pairs.induct) (auto split: if_splits)

lemma valid_pairs_ok:
  assumes "sorted_wrt before (P # bs)" "\<forall>b \<in> set (P # bs). area b" "x1 box \<le> x1 P" "x2 P \<le> x2 box"
  shows "\<exists>l r. valid_pairs P bs box = Some (box\<lparr>x1 := l, x2 := r\<rparr>) \<and> (\<forall>b \<in> set (P # bs). l \<le> x1 b \<and> x2 b \<le> r) \<and>
    (l = x1 box \<or> (\<exists>b \<in> set bs. x1 b = l)) \<and> (r = x2 box \<or> (\<exists>b \<in> set bs. x2 b = r))"
  using assms
proof (induction P bs box rule: valid_pairs.induct)
  case (1 P box)
  show ?case
    by (rule exI [of _ "x1 box"], rule exI [of _ "x2 box"]) (use 1 in auto)
next
  case (2 P N bs box)
  have N: "\<not> (x1 N \<ge> x2 N \<or> y1 N \<ge> y2 N)" "\<not> (y1 N < y1 P \<or> (y1 N = y1 P \<and> (x1 N < x2 P \<or> y2 N \<noteq> y2 P)))"
  proof -
    have "area P" "area N" "before P N" using 2(2,3) by simp_all
    then show "\<not> (x1 N \<ge> x2 N \<or> y1 N \<ge> y2 N)" "\<not> (y1 N < y1 P \<or> (y1 N = y1 P \<and> (x1 N < x2 P \<or> y2 N \<noteq> y2 P)))"
      unfolding area_def before_def by linarith+
  qed
  let ?box = "box\<lparr>x1 := min (x1 box) (x1 N), x2 := max (x2 box) (x2 N)\<rparr>"
  obtain l r where lr: "valid_pairs N bs ?box = Some (?box\<lparr>x1 := l, x2 := r\<rparr>)" "\<forall>b \<in> set (N # bs). l \<le> x1 b \<and> x2 b \<le> r"
    "l = x1 ?box \<or> (\<exists>b \<in> set bs. x1 b = l)" "r = x2 ?box \<or> (\<exists>b \<in> set bs. x2 b = r)"
    using 2(1) [OF N] 2(2,3) by auto
  have w: "l \<le> x1 ?box" "x2 ?box \<le> r" using valid_pairs_widens [OF lr(1)] by simp_all
  have "valid_pairs P (N # bs) box = Some (box\<lparr>x1 := l, x2 := r\<rparr>)" using N lr(1) by simp
  moreover have "\<forall>b \<in> set (P # N # bs). l \<le> x1 b \<and> x2 b \<le> r" using lr(2) w 2(4,5) by auto
  moreover have "l = x1 box \<or> (\<exists>b \<in> set (N # bs). x1 b = l)" "r = x2 box \<or> (\<exists>b \<in> set (N # bs). x2 b = r)"
    using lr(3,4) by (auto simp: min_def max_def split: if_splits)
  ultimately show ?case by blast
qed

lemma before_ends:
  assumes "sorted_wrt before xs" "\<forall>b \<in> set xs. area b" "b \<in> set xs"
  shows "y1 (hd xs) \<le> y1 b" "y2 b \<le> y2 (last xs)"
proof -
  have "b = hd xs \<or> before (hd xs) b" using assms(1,3) by (cases xs) auto
  moreover have "area (hd xs)" "area (last xs)" using assms(2,3) by (cases xs; force)+
  moreover have "b = last xs \<or> before b (last xs)" using assms(1,3) by (cases xs rule: rev_cases) (auto simp: sorted_wrt_append)
  ultimately show "y1 (hd xs) \<le> y1 b" "y2 b \<le> y2 (last xs)" by (auto simp: before_def area_def)
qed

lemma area_tight:
  assumes "\<forall>b \<in> set xs. area b" "\<forall>b \<in> set xs. x1 e \<le> x1 b \<and> x2 b \<le> x2 e \<and> y1 e \<le> y1 b \<and> y2 b \<le> y2 e"
    "\<exists>b \<in> set xs. x1 b = x1 e" "\<exists>b \<in> set xs. x2 b = x2 e" "\<exists>b \<in> set xs. y1 b = y1 e" "\<exists>b \<in> set xs. y2 b = y2 e"
  shows "tight e (points xs)"
proof -
  have c: "(x1 b, y1 b) \<in> points xs" "(x2 b - 1, y1 b) \<in> points xs" "(x1 b, y2 b - 1) \<in> points xs" if "b \<in> set xs" for b
    using that assms(1) by (auto simp: points_def area_def)
  have "\<forall>(x, y) \<in> points xs. x1 e \<le> x \<and> x < x2 e \<and> y1 e \<le> y \<and> y < y2 e" using assms(2) by (fastforce simp: points_def)
  moreover have "\<exists>y. (x1 e, y) \<in> points xs" using assms(3) c(1) by metis
  moreover have "\<exists>y. (x2 e - 1, y) \<in> points xs" using assms(4) c(2) by metis
  moreover have "\<exists>x. (x, y1 e) \<in> points xs" using assms(5) c(1) by metis
  moreover have "\<exists>x. (x, y2 e - 1) \<in> points xs" using assms(6) c(3) by metis
  ultimately show ?thesis unfolding tight_def by blast
qed

lemma region_wf_valid:
  assumes "region_wf Y X reg"
  shows "RegionIsValid reg"
proof -
  let ?xs = "RegionRects reg"
  obtain bs where bs: "?xs = flat bs" "banded bs" using assms by (auto simp: region_wf_def)
  have t: "tight (extents reg) (points ?xs)" using assms by (simp add: region_wf_def)
  have ne: "?xs \<noteq> []" using tight_nonempty [OF t] by auto
  have e: "x1 (extents reg) \<le> x2 (extents reg)" "y1 (extents reg) \<le> y2 (extents reg)" using t by (fastforce simp: tight_def)+
  have srt: "sorted_wrt before ?xs" "\<forall>b \<in> set ?xs. area b" using flat_before [OF bs(2)] flat_box_area [OF bs(2)] bs(1) by (auto simp: area_def)
  show ?thesis
  proof (cases "tl ?xs = []")
    case True
    then have "RegionNumRects reg = 1" using ne by (cases ?xs) (auto simp: RegionNumRects_def)
    then show ?thesis using assms True ne e by (simp add: RegionIsValid_def Let_def region_wf_def)
  next
    case False
    obtain P rest where xs: "?xs = P # rest" using ne by (cases ?xs) auto
    obtain l r where v: "valid_pairs P rest (P\<lparr>y2 := y2 (last ?xs)\<rparr>) = Some (P\<lparr>y2 := y2 (last ?xs), x1 := l, x2 := r\<rparr>)"
      "\<forall>b \<in> set ?xs. l \<le> x1 b \<and> x2 b \<le> r" "\<exists>b \<in> set ?xs. x1 b = l" "\<exists>b \<in> set ?xs. x2 b = r"
      using valid_pairs_ok [OF srt [unfolded xs], of "P\<lparr>y2 := y2 (last ?xs)\<rparr>"] by (auto simp: xs)
    have "tight (P\<lparr>y2 := y2 (last ?xs), x1 := l, x2 := r\<rparr>) (points ?xs)"
      using v(2-4) before_ends [OF srt] ne xs by (intro area_tight [OF srt(2)]) auto
    then have "P\<lparr>y2 := y2 (last ?xs), x1 := l, x2 := r\<rparr> = extents reg" using t tight_unique by blast
    then show ?thesis using v(1) e ne False xs by (simp add: RegionIsValid_def Let_def)
  qed
qed

subsection \<open>RegionValidate\<close>

lemma rect_budget:
  assumes "length (bs :: BoxRec list) \<le> 8000"
  defines "Y \<equiv> y1 ` set bs \<union> y2 ` set bs" and "X \<equiv> x1 ` set bs"
  shows "finite Y" "finite X" "card Y * card X \<le> rect_limit"
proof -
  show "finite Y" "finite X" by (simp_all add: Y_def X_def)
  have "card (y1 ` set bs) \<le> length bs" "card (y2 ` set bs) \<le> length bs" "card X \<le> length bs"
    using card_length [of bs] card_image_le [of "set bs" y1] card_image_le [of "set bs" y2] card_image_le [of "set bs" x1] by (auto simp: X_def)
  then have "card Y \<le> 2 * 8000" "card X \<le> 8000" using card_Un_le [of "y1 ` set bs" "y2 ` set bs"] assms(1) by (auto simp: Y_def)
  then have "card Y * card X \<le> (2 * 8000) * 8000" by (rule mult_le_mono)
  then show "card Y * card X \<le> rect_limit" by (simp add: rect_limit_def)
qed

lemma RegionValidate_ok:
  assumes data: "rgn_data reg = RegData sz bs" "bs \<noteq> []" "length bs \<le> sz" and small: "length bs \<le> 8000"
    and boxes: "\<forall>b \<in> set bs. area b" and unknown: "\<not> x1 (extents reg) < x2 (extents reg)"
  shows "\<exists>ovl reg' k' Y X. RegionValidate yes (reg, k) = Some (True, ovl, reg', k') \<and> region_wf Y X reg' \<and>
      Y = y1 ` set bs \<union> y2 ` set bs \<and> X = x1 ` set bs \<and> points (RegionRects reg') = points bs"
proof -
  define Y where "Y = y1 ` set bs \<union> y2 ` set bs"
  define X where "X = x1 ` set bs"
  have lim: "finite Y" "finite X" "card Y * card X \<le> rect_limit" using rect_budget [OF small] by (auto simp: Y_def X_def)
  obtain ys where ys: "QuickSortRects bs = Some ys" "mset ys = mset bs" "sorted_wrt rect_le ys" using QuickSortRects_ok [OF data(2)] by blast
  have set: "set ys = set bs" "length ys = length bs" using mset_eq_setD [OF ys(2)] mset_eq_length [OF ys(2)] by auto
  obtain b rest where b: "ys = b # rest" using set(2) data(2) by (cases ys) auto
  have ok: "\<forall>c \<in> set (b # rest). box_ok Y X c" using boxes set(1) b by (auto simp: box_ok_def area_def Y_def X_def)
  let ?ri = "\<lparr>ri_reg = array_of b sz [b], prevBand = 0, curBand = 0\<rparr>" and ?c = "Band (y1 b) (y2 b) [(x1 b, x2 b)]"
  have sz: "sz \<noteq> 0" using data(2,3) by (cases bs) auto
  have "info_extents b [] ?c" using ok by (auto simp: info_extents_def box_ok_def points_def boxes_of_def)
  then have "info_ok Y X ?ri [] ?c"
    using ok sz by (auto simp: info_ok_def box_ok_def out_ok_def band_ok_def boxes_of_def band_start_def box_eta)
  then have wf: "info_wf Y X ?ri" unfolding info_wf_def by blast
  have boxes0: "info_boxes ?ri = [b]" by (simp add: info_boxes_def)
  have "\<forall>ri \<in> set [?ri]. info_wf Y X ri \<and> (\<forall>c \<in> set rest. rect_le (last (info_boxes ri)) c)"
    using wf boxes0 ys(3) b by simp
  then obtain ris sizeRI ovl k1 where sc: "scatter yes rest ([?ri], 4, False, Suc k) = Some (ris, sizeRI, ovl, k1)" "ris \<noteq> []"
    "\<forall>ri \<in> set ris. info_wf Y X ri" "all_points ris = all_points [?ri] \<union> points rest"
    using scatter_ok [of "[?ri]" Y X rest 4 False "Suc k"] ok ys(3) b lim small set(2) by auto
  have pts: "all_points ris = points bs"
  proof -
    have "points [b] \<union> points rest = points ys" by (auto simp: b points_def)
    then show ?thesis using sc(4) boxes0 set(1) by (simp add: all_points_def points_def)
  qed
  have fi: "\<forall>r \<in> set (List.map finish_info ris). region_wf Y X r" using sc(3) finish_info_wf(1) by auto
  have rp: "region_points (List.map finish_info ris) = points bs"
  proof -
    have "points (RegionRects (finish_info ri)) = points (info_boxes ri)" if "ri \<in> set ris" for ri
      using that sc(3) finish_info_wf(2) by blast
    then show ?thesis using pts by (simp add: region_points_def all_points_def)
  qed
  obtain reg' ovl' k2 where m: "merge_regions yes (List.map finish_info ris) (True, ovl, k1) = Some ([reg'], True, ovl', k2)"
    "region_wf Y X reg'" "points (RegionRects reg') = points bs"
    using merge_regions_ok [OF lim _ fi, of True ovl k1] sc(2) rp by auto
  obtain c cs where bs: "bs = c # cs" using data(2) by (cases bs) auto
  have "RegionValidate yes (reg, k) = Some (True, ovl', reg', k2)"
    using data(1) unknown ys(1) sc(1) m(1) by (simp add: RegionValidate_def bs b)
  then show ?thesis using m Y_def X_def by blast
qed

subsection \<open>RegionFromRects\<close>

text \<open>The pixels of a rectangle of a request; coordinates from 32767 on are cut off.\<close>

definition pixels :: "xRectangle \<Rightarrow> (int \<times> int) set" where
  "pixels p = {(x, y). sint (rx p) \<le> x \<and> x < sint (rx p) + uint (width p) \<and> x < 32767 \<and>
     sint (ry p) \<le> y \<and> y < sint (ry p) + uint (height p) \<and> y < 32767}"

lemma rect_box_points: "points [rect_box p] = pixels p"
  by (auto simp: points_def pixels_def rect_box_def MAXSHORT_def)

lemma sint_card16: "- 32768 \<le> sint (w :: card16)" "sint (w :: card16) \<le> 32767"
  using sint_greater_eq [of w] sint_less [of w] by simp_all

lemma has_area_area: "has_area (rect_box p) \<longleftrightarrow> area (rect_box p)"
proof -
  have "sint (rx p) \<le> min (sint (rx p) + uint (width p)) MAXSHORT" "sint (ry p) \<le> min (sint (ry p) + uint (height p)) MAXSHORT"
    using sint_card16(2) by (auto simp: MAXSHORT_def)
  then show ?thesis unfolding has_area_def area_def rect_box_def BoxRec.simps order_less_le by blast
qed

lemma no_area_points: "\<not> area b \<Longrightarrow> points [b] = {}"
  by (auto simp: points_def area_def)

lemma boxes_points: "points (filter has_area (List.map rect_box ps)) = (\<Union>p \<in> set ps. pixels p)"
proof (induction ps)
  case (Cons p ps)
  have "points (filter has_area (List.map rect_box (p # ps))) = points [rect_box p] \<union> points (filter has_area (List.map rect_box ps))"
    using no_area_points [of "rect_box p"] has_area_area [of p] by (auto simp: points_def)
  then show ?case using Cons by (simp add: rect_box_points)
qed simp

definition empty_region :: RegionRec where
  "empty_region = \<lparr>extents = RegionEmptyBox, rgn_data = RegionEmptyData\<rparr>"

lemma single_wf: "area b \<Longrightarrow> region_wf {y1 b, y2 b} {x1 b} \<lparr>extents = b, rgn_data = NoData\<rparr>"
  using tight_box [of b]
  by (auto simp: region_wf_def RegionRects_def area_def band_ok_def boxes_of_def box_eta intro!: exI [of _ "[Band (y1 b) (y2 b) [(x1 b, x2 b)]]"])

lemma RegionFromRects_ok:
  assumes "length prect \<le> 8000"
  shows "\<exists>reg k'. RegionFromRects yes prect False k = Some (reg, k') \<and> points (RegionRects reg) = (\<Union>p \<in> set prect. pixels p) \<and>
    (reg = empty_region \<or> (\<exists>Y X. region_wf Y X reg))"
proof -
  let ?bs = "filter has_area (List.map rect_box prect)"
  have c: "RegionCreate yes None 0 k = (empty_region, Suc k)"
    by (simp add: RegionCreate_def RegionInit_def empty_region_def)
  have e: "\<not> RegionNar empty_region" "RegionRects empty_region = []" by (simp_all add: RegionNar_def empty_region_def RegionRects_def)
  consider "prect = []" | p where "prect = [p]" | "prect \<noteq> []" "tl prect \<noteq> []" by (cases prect; cases "tl prect") auto
  then show ?thesis
  proof cases
    case 1
    then show ?thesis by (simp add: RegionFromRects_def c e)
  next
    case 2
    let ?r = "\<lparr>extents = rect_box p, rgn_data = NoData\<rparr>"
    have "RegionRects ?r = [rect_box p]" by (simp add: RegionRects_def)
    then show ?thesis
      using 2 single_wf [of "rect_box p"] has_area_area [of p] no_area_points [of "rect_box p"]
      by (cases "has_area (rect_box p)") (auto simp: RegionFromRects_def c e rect_box_points)
  next
    case 3
    have m: "rect_mem yes (Suc k) (length prect)" using assms rect_mem_ok [OF ample_yes] by (simp add: rect_limit_def)
    show ?thesis
    proof (cases "?bs = []")
      case True
      then show ?thesis using 3 m boxes_points [of prect] by (simp add: RegionFromRects_def c e Let_def)
    next
      case False
      let ?reg = "\<lparr>extents = (extents empty_region)\<lparr>x1 := 0, x2 := 0\<rparr>, rgn_data = RegData (length prect) ?bs\<rparr>"
      have len: "length ?bs \<le> length prect" by (rule order_trans [OF length_filter_le]) simp
      have len2: "length ?bs \<le> 8000" using len assms by (rule order_trans)
      have pre: "\<forall>b \<in> set ?bs. area b" "rgn_data ?reg = RegData (length prect) ?bs" "\<not> x1 (extents ?reg) < x2 (extents ?reg)"
        using has_area_area by auto
      obtain ovl reg' k' Y X where v: "RegionValidate yes (?reg, Suc (Suc k)) = Some (True, ovl, reg', k')" "region_wf Y X reg'"
        "points (RegionRects reg') = points ?bs"
        using RegionValidate_ok [OF pre(2) False len len2 pre(1,3), of "Suc (Suc k)"] by blast
      then show ?thesis using 3 m False boxes_points [of prect] by (auto simp: RegionFromRects_def c e Let_def)
    qed
  qed
qed

lemma wf_canonical: "region_wf Y X reg \<Longrightarrow> canonical (RegionRects reg)"
  by (auto simp: region_wf_def canonical_def)

lemma wf_nonempty: "region_wf Y X reg \<Longrightarrow> points (RegionRects reg) \<noteq> {}"
  using tight_nonempty by (auto simp: region_wf_def)

text \<open>C1. Making a region from rectangles in any order, overlapping or not: as long as memory lasts, and for up to 8000 rectangles, the region
  covers exactly their pixels.\<close>

theorem RegionFromRects_covers:
  assumes "length prect \<le> 8000"
  shows "\<exists>reg k'. RegionFromRects (\<lambda>_. True) prect False k = Some (reg, k') \<and> \<not> RegionNar reg \<and>
    points (RegionRects reg) = (\<Union>p \<in> set prect. pixels p)"
proof -
  obtain reg k' where r: "RegionFromRects yes prect False k = Some (reg, k')" "points (RegionRects reg) = (\<Union>p \<in> set prect. pixels p)"
    "reg = empty_region \<or> (\<exists>Y X. region_wf Y X reg)"
    using RegionFromRects_ok [OF assms, of k] by blast
  have "\<not> RegionNar reg"
    using r(3)
  proof
    assume "reg = empty_region"
    then show ?thesis by (simp add: empty_region_def RegionNar_def)
  next
    assume "\<exists>Y X. region_wf Y X reg"
    then have "points (RegionRects reg) \<noteq> {}" using wf_nonempty by blast
    then show ?thesis by (auto simp: RegionNar_def RegionRects_def)
  qed
  then show ?thesis using r(1,2) by blast
qed

text \<open>Three rectangles, two of which overlap.\<close>

definition three_rects :: "xRectangle list" where
  "three_rects = [\<lparr>rx = 2, ry = 2, width = 4, height = 4\<rparr>, \<lparr>rx = 0, ry = 0, width = 3, height = 3\<rparr>, \<lparr>rx = 9, ry = 1, width = 1, height = 1\<rparr>]"

lemma three_rects_length: "length three_rects = 3"
  by (simp add: three_rects_def)

theorem RegionFromRects_covers_witness:
  "\<exists>reg k'. RegionFromRects (\<lambda>_. True) three_rects False 0 = Some (reg, k') \<and> \<not> RegionNar reg \<and>
    points (RegionRects reg) = (\<Union>p \<in> set three_rects. pixels p)"
  by (rule RegionFromRects_covers) (simp add: three_rects_length)

text \<open>C2. The region depends on the covered pixels only: two lists of rectangles with the same pixels, in whatever order and however cut up, give the same
  array of rectangles and the same extents.\<close>

theorem RegionFromRects_unique:
  assumes "length ps \<le> 8000" "length qs \<le> 8000" "(\<Union>p \<in> set ps. pixels p) = (\<Union>q \<in> set qs. pixels q)"
  shows "\<exists>reg k' reg' j'. RegionFromRects (\<lambda>_. True) ps False k = Some (reg, k') \<and> RegionFromRects (\<lambda>_. True) qs False j = Some (reg', j') \<and>
    RegionRects reg = RegionRects reg' \<and> extents reg = extents reg'"
proof -
  obtain reg k' where r: "RegionFromRects yes ps False k = Some (reg, k')" "points (RegionRects reg) = (\<Union>p \<in> set ps. pixels p)"
    "reg = empty_region \<or> (\<exists>Y X. region_wf Y X reg)"
    using RegionFromRects_ok [OF assms(1), of k] by blast
  obtain reg' j' where r': "RegionFromRects yes qs False j = Some (reg', j')" "points (RegionRects reg') = (\<Union>p \<in> set qs. pixels p)"
    "reg' = empty_region \<or> (\<exists>Y X. region_wf Y X reg')"
    using RegionFromRects_ok [OF assms(2), of j] by blast
  have eq: "points (RegionRects reg) = points (RegionRects reg')" using r r' assms(3) by simp
  have em: "points (RegionRects empty_region) = {}" by (simp add: empty_region_def RegionRects_def)
  have "RegionRects reg = RegionRects reg' \<and> extents reg = extents reg'"
  proof (cases "reg = empty_region \<or> reg' = empty_region")
    case True
    then have "reg = empty_region \<and> reg' = empty_region" using r(3) r'(3) eq em wf_nonempty by metis
    then show ?thesis by simp
  next
    case False
    then obtain Y X Y' X' where wf: "region_wf Y X reg" "region_wf Y' X' reg'" using r(3) r'(3) by blast
    have "extents reg = extents reg'" using wf eq tight_unique unfolding region_wf_def by metis
    then show ?thesis using canonical_unique [OF wf_canonical [OF wf(1)] wf_canonical [OF wf(2)] eq] by simp
  qed
  then show ?thesis using r(1) r'(1) by blast
qed

theorem RegionFromRects_unique_witness:
  "\<exists>reg k' reg' j'. RegionFromRects (\<lambda>_. True) three_rects False 0 = Some (reg, k') \<and> RegionFromRects (\<lambda>_. True) (rev three_rects) False 0 = Some (reg', j') \<and>
    RegionRects reg = RegionRects reg' \<and> extents reg = extents reg'"
  by (rule RegionFromRects_unique) (simp_all add: three_rects_length)

text \<open>C18. Every region made from rectangles passes the server's check \<open>RegionIsValid\<close>, and its coordinates fit the 16-bit fields they are stored in.\<close>

theorem RegionFromRects_valid:
  assumes "length prect \<le> 8000"
  shows "\<exists>reg k'. RegionFromRects (\<lambda>_. True) prect False k = Some (reg, k') \<and> RegionIsValid reg \<and>
    (\<forall>b \<in> set (RegionRects reg). - 32768 \<le> x1 b \<and> x1 b < x2 b \<and> x2 b \<le> 32767 \<and> - 32768 \<le> y1 b \<and> y1 b < y2 b \<and> y2 b \<le> 32767)"
proof -
  obtain reg k' where r: "RegionFromRects yes prect False k = Some (reg, k')" "points (RegionRects reg) = (\<Union>p \<in> set prect. pixels p)"
    "reg = empty_region \<or> (\<exists>Y X. region_wf Y X reg)"
    using RegionFromRects_ok [OF assms, of k] by blast
  have em: "RegionIsValid empty_region" "RegionRects empty_region = []"
    by (simp_all add: RegionIsValid_def empty_region_def RegionRects_def RegionEmptyBox_def)
  have range: "- 32768 \<le> x \<and> x < 32767 \<and> - 32768 \<le> y \<and> y < 32767" if "(x, y) \<in> points (RegionRects reg)" for x y
    using that sint_card16(1) unfolding r(2) pixels_def by (fastforce intro: order_trans)
  have "- 32768 \<le> x1 b \<and> x1 b < x2 b \<and> x2 b \<le> 32767 \<and> - 32768 \<le> y1 b \<and> y1 b < y2 b \<and> y2 b \<le> 32767"
    if "b \<in> set (RegionRects reg)" "region_wf Y X reg" for b Y X
  proof -
    have a: "x1 b < x2 b \<and> y1 b < y2 b" using that flat_box_area by (auto simp: region_wf_def)
    have "(x1 b, y1 b) \<in> points (RegionRects reg)" "(x2 b - 1, y2 b - 1) \<in> points (RegionRects reg)" using a that(1) by (auto simp: points_def)
    then show ?thesis using range [of "x1 b" "y1 b"] range [of "x2 b - 1" "y2 b - 1"] a by auto
  qed
  then have "RegionIsValid reg \<and> (\<forall>b \<in> set (RegionRects reg). - 32768 \<le> x1 b \<and> x1 b < x2 b \<and> x2 b \<le> 32767 \<and> - 32768 \<le> y1 b \<and> y1 b < y2 b \<and> y2 b \<le> 32767)"
    using r(3) em region_wf_valid by (elim disjE exE) simp_all
  then show ?thesis using r(1) by blast
qed

theorem RegionFromRects_valid_witness:
  "\<exists>reg k'. RegionFromRects (\<lambda>_. True) three_rects False 0 = Some (reg, k') \<and> RegionIsValid reg \<and>
    (\<forall>b \<in> set (RegionRects reg). - 32768 \<le> x1 b \<and> x1 b < x2 b \<and> x2 b \<le> 32767 \<and> - 32768 \<le> y1 b \<and> y1 b < y2 b \<and> y2 b \<le> 32767)"
  by (rule RegionFromRects_valid) (simp add: three_rects_length)

end
