(* ===== verification/RegionAppends.thy ===== *)
theory RegionAppends
  imports RegionCorrect
begin

text \<open>
  \<open>RegionAppend\<close> collects rectangles without sorting them; the extents tell whether the array is still in band order. \<open>RegionValidate\<close> then makes
  a region of the collection. Last, what the code does when memory runs out.
\<close>

subsection \<open>The union of two regions\<close>

text \<open>C10. The sweep computes unions: with at least one rectangle on both sides, in canonical bands, and up to 8000 rectangles together, \<open>RegionOp\<close> with
  \<open>RegionUnionO\<close> succeeds, and the result is the canonical form of the union.\<close>

theorem RegionOp_union:
  assumes "canonical (RegionRects reg1)" "canonical (RegionRects reg2)" "RegionRects reg1 \<noteq> []" "RegionRects reg2 \<noteq> []"
    "\<not> clobbers True reg1" "RegionNumRects reg1 + RegionNumRects reg2 \<le> 8000"
  shows "\<exists>ovl' reg k'. RegionOp (\<lambda>_. True) True False reg1 reg1 reg2 (RegionUnionO (\<lambda>_. True)) True True ovl k = Some (True, ovl', reg, k') \<and>
    canonical (RegionRects reg) \<and> points (RegionRects reg) = points (RegionRects reg1) \<union> points (RegionRects reg2)"
proof -
  obtain bs where bs: "RegionRects reg1 = flat bs" "banded bs" "coalesced bs" using assms(1) by (auto simp: canonical_def)
  obtain cs where cs: "RegionRects reg2 = flat cs" "banded cs" "coalesced cs" using assms(2) by (auto simp: canonical_def)
  let ?xs = "flat bs @ flat cs"
  let ?Y = "y1 ` set ?xs \<union> y2 ` set ?xs" and ?X = "x1 ` set ?xs"
  have lim: "finite ?Y" "finite ?X" "card ?Y * card ?X \<le> 134217000"
    using rect_budget [of ?xs] assms(6) bs(1) cs(1) by (auto simp: RegionNumRects_def rect_limit_def)
  have band: "btop B \<in> y1 ` set (boxes_of B) \<and> bbot B \<in> y2 ` set (boxes_of B) \<and> fst ` set (spans B) = x1 ` set (boxes_of B)" if "band_ok B" for B
    using that by (cases "spans B") (auto simp: boxes_of_def band_ok_def image_image)
  have "inside ?Y ?X (bs @ cs)"
    unfolding inside_def
  proof
    fix B assume B: "B \<in> set (bs @ cs)"
    then have "band_ok B" "set (boxes_of B) \<subseteq> set ?xs" using banded_mem bs(2) cs(2) by (auto simp: flat_def)
    then show "btop B \<in> ?Y \<and> bbot B \<in> ?Y \<and> fst ` set (spans B) \<subseteq> ?X" using band [of B] by blast
  qed
  moreover have "bs \<noteq> []" "cs \<noteq> []" using assms(3,4) bs(1) cs(1) by auto
  ultimately obtain ovl' reg k' out where "RegionOp yes True False reg1 reg1 reg2 (RegionUnionO yes) True True ovl k = Some (True, ovl', reg, k')"
    "holds_bands (extents reg1) out reg" "banded out" "coalesced out" "\<forall>y. line out y = line bs y \<union> line cs y"
    using union.RegionOp_ok [OF bs(1) assms(5) cs(1) bs(2) cs(2) bs(3) cs(3) _ _ _ lim, of ovl k] by blast
  then show ?thesis using points_lines [of out bs cs] bs(1) cs(1) by (auto simp: holds_bands_def canonical_def)
qed

definition box_region :: "BoxRec \<Rightarrow> RegionRec" where
  "box_region b = \<lparr>extents = b, rgn_data = NoData\<rparr>"

lemma canonical_box: "area b \<Longrightarrow> canonical (RegionRects (box_region b))"
  using wf_canonical [OF single_wf] by (simp add: box_region_def)

theorem RegionOp_union_witness:
  "\<exists>ovl' reg k'. RegionOp (\<lambda>_. True) True False (box_region (Box 0 0 3 3)) (box_region (Box 0 0 3 3)) (box_region (Box 2 2 5 5)) (RegionUnionO (\<lambda>_. True)) True True False 0 =
      Some (True, ovl', reg, k') \<and> canonical (RegionRects reg) \<and>
    points (RegionRects reg) = points (RegionRects (box_region (Box 0 0 3 3))) \<union> points (RegionRects (box_region (Box 2 2 5 5)))"
  by (rule RegionOp_union) (simp_all add: canonical_box area_def, simp_all add: box_region_def RegionRects_def clobbers_def RegionNumRects_def)

subsection \<open>RegionAppend\<close>

text \<open>A collection of rectangles. As long as its extents are known, it is in band order and the extents are exact.\<close>

definition collection :: "RegionRec \<Rightarrow> bool" where
  "collection reg \<longleftrightarrow> \<not> RegionNar reg \<and> (\<forall>b \<in> set (RegionRects reg). area b) \<and> length (data_boxes (rgn_data reg)) \<le> data_size (rgn_data reg) \<and>
     (x1 (extents reg) < x2 (extents reg) \<longrightarrow> sorted_wrt before (RegionRects reg) \<and> tight (extents reg) (points (RegionRects reg)))"

text \<open>A region that may be appended.\<close>

definition proper :: "RegionRec \<Rightarrow> bool" where
  "proper reg \<longleftrightarrow> \<not> RegionNar reg \<and> (\<forall>b \<in> set (RegionRects reg). area b) \<and> sorted_wrt before (RegionRects reg) \<and>
     (RegionRects reg \<noteq> [] \<longrightarrow> tight (extents reg) (points (RegionRects reg)))"

lemma tight_ends:
  assumes "tight e (points xs)" "sorted_wrt before xs" "\<forall>b \<in> set xs. area b" "xs \<noteq> []"
  shows "y1 e = y1 (hd xs)" "y2 e = y2 (last xs)"
proof -
  have h: "hd xs \<in> set xs" "last xs \<in> set xs" using assms(4) by auto
  have "(x1 (hd xs), y1 (hd xs)) \<in> points xs" "(x1 (last xs), y2 (last xs) - 1) \<in> points xs"
    using h assms(3) by (auto simp: points_def area_def)
  then have 1: "y1 e \<le> y1 (hd xs)" "y2 (last xs) - 1 < y2 e" using assms(1) by (auto simp: tight_def)
  obtain x x' where "(x, y1 e) \<in> points xs" "(x', y2 e - 1) \<in> points xs" using assms(1) by (auto simp: tight_def)
  then obtain b c where "b \<in> set xs" "y1 b \<le> y1 e" "c \<in> set xs" "y2 e - 1 < y2 c" by (auto simp: points_def)
  then show "y1 e = y1 (hd xs)" "y2 e = y2 (last xs)" using 1 before_ends [OF assms(2,3)] by force+
qed

lemma before_area_trans: "area b \<Longrightarrow> area c \<Longrightarrow> before a b \<Longrightarrow> before b c \<Longrightarrow> before a c"
  unfolding before_def area_def by linarith

lemma follows_before: "area a \<Longrightarrow> area b \<Longrightarrow> follows b a \<Longrightarrow> before a b"
  by (auto simp: follows_def before_def)

lemma join_sorted:
  assumes "sorted_wrt before xs" "sorted_wrt before ys" "\<forall>b \<in> set xs \<union> set ys. area b" "xs \<noteq> []" "ys \<noteq> []" "follows (hd ys) (last xs)"
  shows "sorted_wrt before (xs @ ys)"
proof -
  have ends: "area (last xs)" "area (hd ys)" using assms(3-5) by auto
  have link: "before (last xs) (hd ys)" using follows_before [OF ends assms(6)] .
  have "before a b" if "a \<in> set xs" "b \<in> set ys" for a b
  proof -
    have ab: "area a" "area b" using that assms(3) by auto
    have "a = last xs \<or> before a (last xs)" using that(1) assms(1) by (cases xs rule: rev_cases) (auto simp: sorted_wrt_append)
    then have "before a (hd ys)" using link ends before_area_trans by blast
    moreover have "b = hd ys \<or> before (hd ys) b" using that(2) assms(2) by (cases ys) auto
    ultimately show ?thesis using ends ab before_area_trans by blast
  qed
  then show ?thesis using assms(1,2) by (auto simp: sorted_wrt_append)
qed

lemma append_extents_ok:
  assumes src: "src \<noteq> []" "\<forall>b \<in> set src. area b" "sorted_wrt before src" "tight se (points src)"
    and dst: "\<forall>b \<in> set dst. area b" "x1 de < x2 de \<longrightarrow> sorted_wrt before dst \<and> tight de (points dst)"
    and res: "append_extents dst de src se = (prepend, e)"
  shows "x1 e < x2 e \<longrightarrow> sorted_wrt before (if prepend then src @ dst else dst @ src) \<and> tight e (points (dst @ src))"
proof (cases "dst = []")
  case True
  then show ?thesis using res src by (auto simp: append_extents_def)
next
  case ne: False
  show ?thesis
  proof (cases "x2 de > x1 de")
    case True
    then have d: "sorted_wrt before dst" "tight de (points dst)" using dst(2) by auto
    note de = tight_ends [OF d(2,1) dst(1) ne] and se = tight_ends [OF src(4,3,2,1)]
    have all: "\<forall>b \<in> set dst \<union> set src. area b" "\<forall>b \<in> set src \<union> set dst. area b" using dst(1) src(2) by auto
    have ar: "area (hd src)" "area (last src)" "area (hd dst)" "area (last dst)" using all ne src(1) by auto
    have u: "tight (union_extents se de) (points (dst @ src))" using tight_union [OF d(2) src(4)] by simp
    have ends: "y1 (hd src) \<le> y1 (last src)" "y2 (hd src) \<le> y2 (last src)" "y1 (hd dst) \<le> y1 (last dst)" "y2 (hd dst) \<le> y2 (last dst)"
      using before_ends [OF src(3,2)] before_ends [OF d(1) dst(1)] ne src(1) by auto
    consider "follows (hd src) (last dst)" | "\<not> follows (hd src) (last dst)" "follows (hd dst) (last src)"
      | "\<not> follows (hd src) (last dst)" "\<not> follows (hd dst) (last src)" by blast
    then show ?thesis
    proof cases
      case 1
      have "y1 de \<le> y1 se" "y2 de \<le> y2 se"
        using 1 ends de se ar unfolding follows_def area_def by linarith+
      then have "e = union_extents se de" "\<not> prepend"
        using res ne True 1 by (auto simp: append_extents_def Let_def union_extents_def min_def max_def)
      then show ?thesis using u join_sorted [OF d(1) src(3) all(1) ne src(1) 1] by simp
    next
      case 2
      have "y1 se \<le> y1 de" "y2 se \<le> y2 de"
        using 2(2) ends de se ar unfolding follows_def area_def by linarith+
      then have "e = union_extents se de" prepend
        using res ne True 2 by (auto simp: append_extents_def Let_def union_extents_def min_def max_def)
      then show ?thesis using u join_sorted [OF src(3) d(1) all(2) src(1) ne 2(2)] by simp
    next
      case 3
      then show ?thesis using res ne True by (auto simp: append_extents_def)
    qed
  next
    case False
    then show ?thesis using res ne by (auto simp: append_extents_def)
  qed
qed

lemma append_room:
  assumes "collection dst" "RegionNumRects dst + n \<le> 1000000" "0 < n"
  shows "\<exists>sz k'. RECTALLOC yes n (dst, k) = (True, array_of (extents dst) sz (RegionRects dst), k') \<and> RegionNumRects dst + n \<le> sz"
proof (cases "rgn_data dst")
  case (RegData sz bs)
  then have dst: "dst = array_of (extents dst) sz bs" by simp
  have len: "length bs \<le> sz" "RegionRects dst = bs" using assms(1) RegData by (auto simp: collection_def RegionRects_def)
  show ?thesis
  proof (cases "sz = 0")
    case True
    then have "rect_mem yes k n" using assms(2) rect_mem_ok [OF ample_yes] by (simp add: rect_limit_def)
    then show ?thesis using True len RegData assms(2,3) by (cases dst) (auto simp: RECTALLOC_def RegionRectAlloc_def RegionNumRects_def)
  next
    case False
    have "length bs + n \<le> rect_limit" using assms(2) len by (simp add: RegionNumRects_def rect_limit_def)
    then show ?thesis
      using RECTALLOC_ok [OF ample_yes len(1) False, of n "extents dst" k] len(2) dst by (auto simp: RegionNumRects_def)
  qed
next
  case NoData
  then have "rect_mem yes k (n + 1)" using assms(2) rect_mem_ok [OF ample_yes] by (simp add: rect_limit_def)
  then show ?thesis using NoData by (cases dst) (auto simp: RECTALLOC_def RegionRectAlloc_def RegionNumRects_def RegionRects_def)
next
  case RegionEmptyData
  then have "rect_mem yes k n" using assms(2) rect_mem_ok [OF ample_yes] by (simp add: rect_limit_def)
  then show ?thesis using RegionEmptyData assms(3) by (cases dst) (auto simp: RECTALLOC_def RegionRectAlloc_def RegionNumRects_def RegionRects_def)
next
  case RegionBrokenData
  then show ?thesis using assms(1) by (simp add: collection_def RegionNar_def)
qed

text \<open>C16. Appending a region to a collection adds exactly its rectangles, before or behind the others, and keeps the invariant of collections: when the extents
  are still marked as known, the rectangles are in band order and the extents are exact.\<close>

theorem RegionAppend_adds:
  assumes "collection dst" "proper rgn" "RegionNumRects dst + RegionNumRects rgn \<le> 900000"
  shows "\<exists>reg k'. RegionAppend (\<lambda>_. True) rgn (dst, k) = (True, reg, k') \<and> collection reg \<and>
    mset (RegionRects reg) = mset (RegionRects dst) + mset (RegionRects rgn)"
proof -
  have src: "\<not> RegionNar rgn" "\<forall>b \<in> set (RegionRects rgn). area b" "sorted_wrt before (RegionRects rgn)"
    "RegionRects rgn \<noteq> [] \<Longrightarrow> tight (extents rgn) (points (RegionRects rgn))" using assms(2) by (auto simp: proper_def)
  consider "rgn_data rgn = NoData" "rgn_data dst = RegionEmptyData" | "\<not> (rgn_data rgn = NoData \<and> rgn_data dst = RegionEmptyData)" "RegionRects rgn = []"
    | "\<not> (rgn_data rgn = NoData \<and> rgn_data dst = RegionEmptyData)" "RegionRects rgn \<noteq> []" by blast
  then show ?thesis
  proof cases
    case 1
    let ?r = "\<lparr>extents = extents rgn, rgn_data = NoData\<rparr>"
    have "RegionRects ?r = RegionRects rgn" "RegionRects rgn = [extents rgn]" "RegionRects dst = []" using 1 by (simp_all add: RegionRects_def)
    then show ?thesis using 1 src by (auto simp: RegionAppend_def collection_def RegionNar_def)
  next
    case 2
    then show ?thesis using assms(1) src(1) by (auto simp: RegionAppend_def)
  next
    case 3
    let ?src = "RegionRects rgn" and ?dst = "RegionRects dst"
    let ?n = "if RegionNumRects dst = 0 \<and> length ?src < 200 then 200 else length ?src"
    have n: "length ?src \<le> ?n" "0 < ?n" "RegionNumRects dst + ?n \<le> 1000000" using 3(2) assms(3) by (auto simp: RegionNumRects_def)
    obtain sz k' where alloc: "RECTALLOC yes ?n (dst, k) = (True, array_of (extents dst) sz ?dst, k')" "RegionNumRects dst + ?n \<le> sz"
      using append_room [OF assms(1) n(3,2), of k] by blast
    obtain prepend e where ae: "append_extents ?dst (extents dst) ?src (extents rgn) = (prepend, e)" by fastforce
    let ?bs = "if prepend then ?src @ ?dst else ?dst @ ?src"
    have run: "RegionAppend yes rgn (dst, k) = (True, array_of e sz ?bs, k')"
      using 3 src(1) alloc(1) ae by (auto simp: RegionAppend_def Let_def)
    have "x1 e < x2 e \<longrightarrow> sorted_wrt before ?bs \<and> tight e (points (?dst @ ?src))"
      using append_extents_ok [OF 3(2) src(2,3) src(4) [OF 3(2)] _ _ ae] assms(1) by (auto simp: collection_def)
    moreover have "points ?bs = points (?dst @ ?src)" by (auto simp: points_def)
    moreover have "RegionRects (array_of e sz ?bs) = ?bs" by (simp add: RegionRects_def)
    moreover have "\<forall>b \<in> set ?bs. area b" using assms(1) src(2) by (auto simp: collection_def)
    moreover have "length ?bs \<le> sz" using alloc(2) n(1) by (simp add: RegionNumRects_def)
    ultimately have "collection (array_of e sz ?bs)" by (simp add: collection_def RegionNar_def)
    then show ?thesis using run by (auto simp: RegionRects_def)
  qed
qed

lemma proper_box: "area b \<Longrightarrow> proper (box_region b)"
  using tight_box [of b] by (auto simp: proper_def box_region_def RegionNar_def RegionRects_def area_def)

theorem RegionAppend_adds_witness:
  "\<exists>reg k'. RegionAppend (\<lambda>_. True) (box_region (Box 1 1 2 2)) (box_region (Box 0 0 5 5), 0) = (True, reg, k') \<and> collection reg \<and>
    mset (RegionRects reg) = mset (RegionRects (box_region (Box 0 0 5 5))) + mset (RegionRects (box_region (Box 1 1 2 2)))"
proof (rule RegionAppend_adds)
  show "collection (box_region (Box 0 0 5 5))"
    using proper_box [of "Box 0 0 5 5"] by (auto simp: collection_def proper_def box_region_def area_def RegionRects_def)
qed (simp_all add: proper_box area_def, simp add: box_region_def RegionNumRects_def RegionRects_def)

text \<open>C15. A collection is turned into a region by \<open>RegionValidate\<close>: whether it was in order or not, up to 8000 rectangles give a region of the same
  points, in band order and with exact extents.\<close>

theorem RegionValidate_collection:
  assumes "collection reg" "RegionRects reg \<noteq> []" "RegionNumRects reg \<le> 8000"
  shows "\<exists>ovl reg' k'. RegionValidate (\<lambda>_. True) (reg, k) = Some (True, ovl, reg', k') \<and> points (RegionRects reg') = points (RegionRects reg) \<and>
    sorted_wrt before (RegionRects reg') \<and> tight (extents reg') (points (RegionRects reg'))"
proof -
  have c: "\<not> RegionNar reg" "\<forall>b \<in> set (RegionRects reg). area b" "length (data_boxes (rgn_data reg)) \<le> data_size (rgn_data reg)"
    "x1 (extents reg) < x2 (extents reg) \<Longrightarrow> sorted_wrt before (RegionRects reg) \<and> tight (extents reg) (points (RegionRects reg))"
    using assms(1) by (auto simp: collection_def)
  consider "rgn_data reg = NoData" | sz bs where "rgn_data reg = RegData sz bs" "bs \<noteq> []"
    using assms(2) c(1) by (cases "rgn_data reg") (auto simp: RegionRects_def RegionNar_def)
  then show ?thesis
  proof cases
    case 1
    then have "x1 (extents reg) < x2 (extents reg)" using c(2) by (simp add: RegionRects_def area_def)
    then show ?thesis using 1 c(4) by (auto simp: RegionValidate_def)
  next
    case 2
    then have bs: "RegionRects reg = bs" "length bs \<le> sz" "length bs \<le> 8000" using c(3) assms(3) by (auto simp: RegionRects_def RegionNumRects_def)
    show ?thesis
    proof (cases "x1 (extents reg) < x2 (extents reg)")
      case True
      note known = c(4) [OF True]
      obtain b cs where b: "bs = b # cs" using 2(2) by (cases bs) auto
      show ?thesis
      proof (cases "cs = []")
        case True
        then have "extents reg = b" using known tight_box [of b] c(2) tight_unique by (auto simp: bs(1) b area_def)
        then show ?thesis using known True \<open>x1 (extents reg) < _\<close> 2(1) b bs(1) by (auto simp: RegionValidate_def RegionRects_def)
      next
        case False
        have "\<exists>sz' k'. DOWNSIZE yes (reg, k) = (reg\<lparr>rgn_data := RegData sz' bs\<rparr>, k')"
          using 2(1) by (cases reg) (auto simp: DOWNSIZE_def)
        then show ?thesis using known True False 2(1) b bs(1) by (auto simp: RegionValidate_def RegionRects_def)
      qed
    next
      case False
      obtain ovl reg' k' Y X where v: "RegionValidate yes (reg, k) = Some (True, ovl, reg', k')" "region_wf Y X reg'" "points (RegionRects reg') = points bs"
        using RegionValidate_ok [OF 2 bs(2,3) _ False, of k] c(2) bs(1) by auto
      then show ?thesis using bs(1) flat_before by (auto simp: region_wf_def)
    qed
  qed
qed

definition two_boxes :: RegionRec where
  "two_boxes = \<lparr>extents = Box 4 0 4 9, rgn_data = RegData 2 [Box 1 1 3 3, Box 0 0 2 2]\<rparr>"

theorem RegionValidate_collection_witness:
  "\<exists>ovl reg' k'. RegionValidate (\<lambda>_. True) (two_boxes, 0) = Some (True, ovl, reg', k') \<and> points (RegionRects reg') = points (RegionRects two_boxes) \<and>
    sorted_wrt before (RegionRects reg') \<and> tight (extents reg') (points (RegionRects reg'))"
  by (rule RegionValidate_collection) (simp_all add: two_boxes_def collection_def RegionNar_def RegionRects_def area_def RegionNumRects_def)

subsection \<open>Without memory, and at the edges\<close>

text \<open>\<open>RegionOp\<close> ignores that adding a band failed: here the third allocation of the union of two rectangles fails, and the result is reported as a
  success and is empty.\<close>

lemma union_out_of_memory:
  "map_option (\<lambda>(ok, ovl, reg, k). (ok, RegionNar reg, RegionRects reg))
     (RegionOp (\<lambda>k. k \<noteq> 1) True False (box_region (Box 0 0 3 3)) (box_region (Box 0 0 3 3)) (box_region (Box 2 2 5 5)) (RegionUnionO (\<lambda>k. k \<noteq> 1)) True True False 0) =
   Some (True, False, [])"
  by code_simp

text \<open>When step 2 of \<open>RegionValidate\<close> runs out of memory, the array of the region is freed twice.\<close>

lemma validate_frees_twice: "RegionValidate (\<lambda>k. k \<noteq> 1) (two_boxes, 0) = None"
  by code_simp

lemmas append_run_defs = RegionAppend_def RECTALLOC_def RegionRectAlloc_def rect_mem_def RegionSizeof_def Let_def box_region_def RegionBreak_def
  RegionNar_def RegionRects_def RegionNumRects_def append_extents_def

text \<open>Appending to a region that an earlier failure has broken gives a region that is not broken.\<close>

lemma append_repairs_broken:
  "map_prod (\<lambda>ok. ok) (\<lambda>(reg, k). (RegionNar reg, RegionRects reg)) (RegionAppend (\<lambda>_. True) (box_region (Box 1 1 2 2)) (RegionBreak two_boxes, 0)) =
   (True, False, [Box 1 1 2 2])"
  by (simp add: append_run_defs)

text \<open>Two regions in canonical form, appended in band order: the extents stay known, so \<open>RegionValidate\<close> leaves the array alone, although its two bands
  touch and have the same spans.\<close>

definition upper_left :: RegionRec where
  "upper_left = \<lparr>extents = Box 0 0 1 1, rgn_data = RegData 1 [Box 0 0 1 1]\<rparr>"

definition hook :: RegionRec where
  "hook = \<lparr>extents = Box 0 0 3 2, rgn_data = RegData 3 [Box 2 0 3 1, Box 0 1 1 2, Box 2 1 3 2]\<rparr>"

lemma append_leaves_bands:
  "Option.bind (case RegionAppend (\<lambda>_. True) hook (upper_left, 0) of (ok, st) \<Rightarrow> RegionValidate (\<lambda>_. True) st)
     (\<lambda>(ok, ovl, reg, k). Some (RegionRects reg)) = Some [Box 0 0 1 1, Box 2 0 3 1, Box 0 1 1 2, Box 2 1 3 2]"
  "\<not> canonical [Box 0 0 1 1, Box 2 0 3 1, Box 0 1 1 2, Box 2 1 3 2]"
proof -
  let ?xs = "[Box 0 0 1 1, Box 2 0 3 1, Box 0 1 1 2, Box 2 1 3 2]" and ?ys = "[Box 0 0 1 2, Box 2 0 3 2]"
  show "\<not> canonical ?xs"
  proof
    assume "canonical ?xs"
    moreover have "canonical ?ys"
      unfolding canonical_def by (rule exI [of _ "[Band 0 2 [(0, 1), (2, 3)]]"]) (simp add: boxes_of_def band_ok_def)
    moreover have "points ?xs = points ?ys" by (auto simp: points_def)
    ultimately have "?xs = ?ys" by (rule canonical_unique)
    then show False by simp
  qed
qed (simp add: append_run_defs upper_left_def hook_def follows_def RegionValidate_def DOWNSIZE_def)

text \<open>Rectangles that the client declares to be y-x banded are not validated: with one empty rectangle among two, the array keeps a single rectangle, which
  \<open>RegionIsValid\<close> rejects.\<close>

lemma banded_single_invalid:
  "map_option (\<lambda>(reg, k). (RegionIsValid reg, RegionRects reg))
     (RegionFromRects (\<lambda>_. True) [\<lparr>rx = 0, ry = 0, width = 1, height = 1\<rparr>, \<lparr>rx = 5, ry = 0, width = 0, height = 1\<rparr>] True 0) =
   Some (False, [Box 0 0 1 1])"
  by code_simp

end
