(* ===== verification/Lookups.thy ===== *)
theory Lookups
  imports ResourceTable
begin

text \<open>
  Lookups of drawables, windows, graphics contexts, fontables and resource owners, and the save sets of
  clients (dix/dixutils.c). The lookups rest on the resource database; what a resource value is (the type of a
  drawable, the font of a graphics context) is given by arguments.
\<close>

subsection \<open>Drawables, windows, fonts\<close>

definition X11_RESTYPE_GC :: restype where "X11_RESTYPE_GC = 3"
definition X11_RESTYPE_FONT :: restype where "X11_RESTYPE_FONT = 4"

definition DRAWABLE_PIXMAP :: nat where "DRAWABLE_PIXMAP = 1"



definition dixLookupGC ::
    "'v xace_hook \<Rightarrow> xid \<Rightarrow> nat \<Rightarrow> mask \<Rightarrow> ('v, 'f, 'w) resdb \<Rightarrow> status \<times> 'v option \<times> xid option" where
  "dixLookupGC xace i client access s = dixLookupResourceByType xace i X11_RESTYPE_GC (Some client) access s"

text \<open>A font, or the font of a graphics context.\<close>

definition dixLookupFontable ::
    "('v \<Rightarrow> 'v) \<Rightarrow> 'v xace_hook \<Rightarrow> xid \<Rightarrow> nat \<Rightarrow> mask \<Rightarrow> ('v, 'f, 'w) resdb \<Rightarrow>
     status \<times> 'v option \<times> xid option" where
  "dixLookupFontable gc_font xace i client access s =
     (case dixLookupResourceByType xace i X11_RESTYPE_FONT (Some client) access s of
        (rc, v, _) \<Rightarrow>
          if rc \<noteq> BadFont then (rc, v, Some i)
          else
            case dixLookupResourceByType xace i X11_RESTYPE_GC (Some client) access s of
              (rc', g, _) \<Rightarrow>
                if rc' = BadGC then (BadFont, v, Some i)
                else if rc' = Success then (rc', map_option gc_font g, Some i)
                else (rc', v, Some i))"

text \<open>\<open>clients\<close> says which clients exist, \<open>access_cb\<close> is the decision of the client access callbacks. The error value is
  stored when there is a client that asks.\<close>

definition dixLookupResourceOwner ::
    "(nat \<Rightarrow> bool) \<Rightarrow> (nat option \<Rightarrow> nat \<Rightarrow> mask \<Rightarrow> status) \<Rightarrow> 'v xace_hook \<Rightarrow> xid \<Rightarrow> nat option \<Rightarrow> mask \<Rightarrow>
     ('v, 'f, 'w) resdb \<Rightarrow> status \<times> nat option \<times> xid option" where
  "dixLookupResourceOwner clients access_cb xace i client access_mode s =
     (let clientIndex = dixClientIdForXID (LimitClients s) i; err = map_option (\<lambda>_. i) client in
      if clientIndex = 0 \<or> \<not> clients clientIndex \<or> i AND SERVER_BIT \<noteq> 0 then (BadValue, None, err)
      else
        let rc = fst (dixLookupResourceByClass xace i RC_ANY client DixGetAttrAccess s) in
        if rc \<noteq> Success then (rc, None, err)
        else
          let rc' = access_cb client clientIndex access_mode in
          if rc' \<noteq> Success then (rc', None, err)
          else (Success, Some clientIndex, None))"

subsection \<open>Save sets\<close>

record SaveSetElt =
  ss_window :: xid
  ss_toRoot :: bool
  ss_map :: bool

datatype save_mode = SetModeInsert | SetModeDelete

text \<open>A client's save set, an array; \<open>alloc n\<close> says whether \<open>n\<close> elements can be had. Deleting shifts the elements behind the
  one deleted; when the shorter array cannot be had the longer one stays in use.\<close>

fun save_index :: "xid \<Rightarrow> SaveSetElt list \<Rightarrow> nat" where
  "save_index w [] = 0"
| "save_index w (x # xs) = (if ss_window x = w then 0 else Suc (save_index w xs))"

function shift_down :: "nat \<Rightarrow> 'a list \<Rightarrow> 'a list" where
  "shift_down j xs = (if j + 1 < length xs then shift_down (j + 1) (xs[j := xs ! (j + 1)]) else xs)"
  by auto
termination by (relation "measure (\<lambda>(j, xs). length xs - j)") auto

declare shift_down.simps [simp del]

definition AlterSaveSetForClient ::
    "(nat \<Rightarrow> bool) \<Rightarrow> xid \<Rightarrow> save_mode \<Rightarrow> bool \<Rightarrow> bool \<Rightarrow> SaveSetElt list \<Rightarrow> status \<times> SaveSetElt list" where
  "AlterSaveSetForClient alloc w mode toRoot mp saveSet =
     (let numnow = length saveSet; j = save_index w saveSet in
      case mode of
        SetModeInsert \<Rightarrow>
          if j < numnow then (Success, saveSet)
          else if \<not> alloc (numnow + 1) then (BadAlloc, saveSet)
          else (Success, saveSet @ [\<lparr>ss_window = w, ss_toRoot = toRoot, ss_map = mp\<rparr>])
      | SetModeDelete \<Rightarrow>
          if j < numnow then (Success, take (numnow - 1) (shift_down j saveSet))
          else (Success, saveSet))"

text \<open>Over all clients (\<open>None\<close>: no client in the slot).\<close>

definition DeleteWindowFromAnySaveSet ::
    "(nat \<Rightarrow> bool) \<Rightarrow> xid \<Rightarrow> SaveSetElt list option list \<Rightarrow> SaveSetElt list option list" where
  "DeleteWindowFromAnySaveSet alloc w clients =
     List.map (map_option (\<lambda>ss. if ss \<noteq> [] then snd (AlterSaveSetForClient alloc w SetModeDelete False True ss) else ss)) clients"

subsection \<open>What the lookups find\<close>



lemma save_index_found: "save_index w xs < length xs \<longleftrightarrow> w \<in> ss_window ` set xs"
  by (induction xs) auto

lemma shift_down_drop:
  "j < length xs \<Longrightarrow> length (shift_down j xs) = length xs \<and> take (length xs - 1) (shift_down j xs) = take j xs @ drop (j + 1) xs"
proof (induction j xs rule: shift_down.induct)
  case (1 j xs)
  show ?case
  proof (cases "j + 1 < length xs")
    case True
    let ?ys = "xs[j := xs ! (j + 1)]"
    have ih: "length (shift_down (j + 1) ?ys) = length xs"
      "take (length xs - 1) (shift_down (j + 1) ?ys) = take (j + 1) ?ys @ drop (j + 1 + 1) ?ys"
      using 1(1) [OF True] True by simp_all
    have "take (j + 1) ?ys = take j xs @ [xs ! (j + 1)]" using True by (simp add: take_Suc_conv_app_nth)
    moreover have "drop (j + 1) xs = xs ! (j + 1) # drop (j + 1 + 1) ?ys" using True by (simp add: Cons_nth_drop_Suc)
    ultimately show ?thesis using ih True by (simp add: shift_down.simps [of j xs])
  next
    case False
    then have "length xs = j + 1" using 1(2) by simp
    then show ?thesis by (simp add: shift_down.simps [of j xs])
  qed
qed

lemma save_delete:
  "distinct (map ss_window xs) \<Longrightarrow> save_index w xs < length xs \<Longrightarrow>
   take (save_index w xs) xs @ drop (save_index w xs + 1) xs = filter (\<lambda>x. ss_window x \<noteq> w) xs"
proof (induction xs)
  case (Cons x xs)
  have "ss_window x \<notin> ss_window ` set xs" using Cons(2) by simp
  then have "ss_window y \<noteq> ss_window x" if "y \<in> set xs" for y using that by (metis imageI)
  then have "filter (\<lambda>y. ss_window y \<noteq> ss_window x) xs = xs" by (simp add: filter_id_conv)
  then show ?case using Cons by auto
qed simp

text \<open>The save set of a client is a set of windows in the order they were added: altering it keeps the windows distinct; inserting a
  window that is not in it appends it with its flags, or changes nothing and says \<open>BadAlloc\<close> when there is no memory; inserting one that is
  in it changes nothing; deleting removes exactly that window, the others keeping their order and flags.\<close>

lemma AlterSaveSet_effect:
  assumes "distinct (map ss_window ss)" "AlterSaveSetForClient alloc w mode toRoot mp ss = (rc, ss')"
  shows "distinct (map ss_window ss') \<and>
    (case mode of
       SetModeInsert \<Rightarrow>
         if w \<in> ss_window ` set ss then rc = Success \<and> ss' = ss
         else if alloc (length ss + 1) then rc = Success \<and> ss' = ss @ [\<lparr>ss_window = w, ss_toRoot = toRoot, ss_map = mp\<rparr>]
         else rc = BadAlloc \<and> ss' = ss
     | SetModeDelete \<Rightarrow> rc = Success \<and> ss' = filter (\<lambda>x. ss_window x \<noteq> w) ss)"
proof (cases mode)
  case SetModeInsert
  then show ?thesis
    using assms save_index_found [of w ss] by (auto simp: AlterSaveSetForClient_def Let_def split: if_splits)
next
  case SetModeDelete
  have "filter (\<lambda>x. ss_window x \<noteq> w) ss = ss" if "w \<notin> ss_window ` set ss" using that by (auto simp: filter_id_conv)
  then have "rc = Success \<and> ss' = filter (\<lambda>x. ss_window x \<noteq> w) ss"
    using assms(2) SetModeDelete save_index_found [of w ss] shift_down_drop [of "save_index w ss" ss] save_delete [OF assms(1), of w]
    by (auto simp: AlterSaveSetForClient_def Let_def split: if_splits)
  then show ?thesis using SetModeDelete assms(1) by (simp add: distinct_map_filter)
qed

subsection \<open>The life of a window\<close>





end
