(* ===== verification/Callbacks.thy ===== *)
theory Callbacks
  imports XPrelude "HOL-Library.Multiset"
begin

text \<open>
  The server's hooks (dix/dixutils.c): block and wakeup handlers, the work queue, the queue of sleeping clients and the
  callback lists. The code the server calls is an argument that acts on the whole state, so it may register, remove,
  queue or delete while it is being called; calls are logged in order. Functions and data pointers are numbers.
\<close>

subsection \<open>Block and wakeup handlers\<close>

record BlockHandlerRec =
  bh_block :: nat
  bh_wakeup :: nat
  bh_data :: nat
  bh_deleted :: bool

datatype bcall = CallBlock nat nat | CallWakeup nat nat | CallScreensBlock | CallScreensWakeup

text \<open>\<open>numHandlers\<close> is the length of the array, \<open>sizeHandlers\<close> its capacity.\<close>

record bstate =
  bhandlers :: "BlockHandlerRec list"
  sizeHandlers :: nat
  inHandler :: nat
  handlerDeleted :: bool
  bcalls :: "bcall list"

type_synonym beffects = "bcall \<Rightarrow> bstate \<Rightarrow> bstate"

definition do_bcall :: "beffects \<Rightarrow> bcall \<Rightarrow> bstate \<Rightarrow> bstate" where
  "do_bcall eff c s = eff c (s\<lparr>bcalls := bcalls s @ [c]\<rparr>)"

text \<open>Removing the element at an index by shifting down the ones behind it; removing all the deleted ones.\<close>

definition remove_at :: "nat \<Rightarrow> 'a list \<Rightarrow> 'a list" where
  "remove_at i xs = take i xs @ drop (i + 1) xs"

function purge :: "nat \<Rightarrow> BlockHandlerRec list \<Rightarrow> BlockHandlerRec list" where
  "purge i hs =
     (if i < length hs then
        (if bh_deleted (hs ! i) then purge i (remove_at i hs) else purge (i + 1) hs)
      else hs)"
  by auto
termination by (relation "measure (\<lambda>(i, hs). length hs - i)") (auto simp: remove_at_def)

declare purge.simps [simp del]

definition purge_deleted :: "bstate \<Rightarrow> bstate" where
  "purge_deleted s = (if handlerDeleted s then s\<lparr>bhandlers := purge 0 (bhandlers s), handlerDeleted := False\<rparr> else s)"

text \<open>The walk up; it need not end when handlers keep registering handlers.\<close>

partial_function (option) block_loop :: "beffects \<Rightarrow> nat \<Rightarrow> bstate \<Rightarrow> bstate option" where
  "block_loop eff i s =
     (if i < length (bhandlers s) then
        (let h = bhandlers s ! i in
         block_loop eff (i + 1) (if bh_deleted h then s else do_bcall eff (CallBlock (bh_block h) (bh_data h)) s))
      else Some s)"

definition BlockHandler :: "beffects \<Rightarrow> bstate \<Rightarrow> bstate option" where
  "BlockHandler eff s =
     map_option (\<lambda>s1. let s2 = purge_deleted (do_bcall eff CallScreensBlock s1) in s2\<lparr>inHandler := inHandler s2 - 1\<rparr>)
       (block_loop eff 0 (s\<lparr>inHandler := inHandler s + 1\<rparr>))"

text \<open>The walk down; \<open>None\<close> when the array has shrunk below the index meanwhile.\<close>

fun wakeup_loop :: "beffects \<Rightarrow> nat \<Rightarrow> bstate \<Rightarrow> bstate option" where
  "wakeup_loop eff 0 s = Some s"
| "wakeup_loop eff (Suc i) s =
     (if \<not> i < length (bhandlers s) then None
      else
        let h = bhandlers s ! i in
        wakeup_loop eff i (if bh_deleted h then s else do_bcall eff (CallWakeup (bh_wakeup h) (bh_data h)) s))"

definition WakeupHandler :: "beffects \<Rightarrow> bstate \<Rightarrow> bstate option" where
  "WakeupHandler eff s =
     (let s0 = do_bcall eff CallScreensWakeup (s\<lparr>inHandler := inHandler s + 1\<rparr>) in
      map_option (\<lambda>s1. let s2 = purge_deleted s1 in s2\<lparr>inHandler := inHandler s2 - 1\<rparr>)
        (wakeup_loop eff (length (bhandlers s0)) s0))"

definition RegisterBlockAndWakeupHandlers :: "(nat \<Rightarrow> bool) \<Rightarrow> nat \<Rightarrow> nat \<Rightarrow> nat \<Rightarrow> bstate \<Rightarrow> bool \<times> bstate" where
  "RegisterBlockAndWakeupHandlers alloc block wakeup data s =
     (let n = length (bhandlers s) in
      if n \<ge> sizeHandlers s \<and> \<not> alloc (n + 1) then (False, s)
      else (True, s\<lparr>sizeHandlers := (if n \<ge> sizeHandlers s then n + 1 else sizeHandlers s),
                    bhandlers := bhandlers s @ [\<lparr>bh_block = block, bh_wakeup = wakeup, bh_data = data, bh_deleted = False\<rparr>]\<rparr>))"

fun find_index_from :: "('a \<Rightarrow> bool) \<Rightarrow> 'a list \<Rightarrow> nat" where
  "find_index_from P [] = 0"
| "find_index_from P (x # xs) = (if P x then 0 else Suc (find_index_from P xs))"

definition RemoveBlockAndWakeupHandlers :: "nat \<Rightarrow> nat \<Rightarrow> nat \<Rightarrow> bstate \<Rightarrow> bstate" where
  "RemoveBlockAndWakeupHandlers block wakeup data s =
     (let i = find_index_from (\<lambda>h. bh_block h = block \<and> bh_wakeup h = wakeup \<and> bh_data h = data) (bhandlers s) in
      if \<not> i < length (bhandlers s) then s
      else if inHandler s > 0
      then s\<lparr>handlerDeleted := True, bhandlers := (bhandlers s)[i := (bhandlers s ! i)\<lparr>bh_deleted := True\<rparr>]\<rparr>
      else s\<lparr>bhandlers := remove_at i (bhandlers s)\<rparr>)"

definition InitBlockAndWakeupHandlers :: "bstate \<Rightarrow> bstate" where
  "InitBlockAndWakeupHandlers s = s\<lparr>bhandlers := [], sizeHandlers := 0\<rparr>"

subsection \<open>The work queue and sleeping clients\<close>

record work =
  wk_function :: nat
  wk_client :: "nat option"
  wk_closure :: nat

record sleeper =
  sl_client :: nat
  sl_function :: nat
  sl_closure :: nat

datatype attention = Ignored nat | Attended nat

text \<open>\<open>attention\<close> logs the calls of \<open>IgnoreClient\<close> and \<open>AttendClient\<close>.\<close>

record queues =
  workQueue :: "work list"
  sleepQueue :: "sleeper list"
  attention_log :: "attention list"

text \<open>What a work procedure does: given the calls made so far it says whether it is done, and which work it queued.\<close>

type_synonym work_procs = "work list \<Rightarrow> work \<Rightarrow> bool \<times> work list"

definition ClearWorkQueue :: "queues \<Rightarrow> queues" where
  "ClearWorkQueue s = s\<lparr>workQueue := []\<rparr>"

definition QueueWorkProc :: "bool \<Rightarrow> work \<Rightarrow> queues \<Rightarrow> bool \<times> queues" where
  "QueueWorkProc alloc q s = (if \<not> alloc then (False, s) else (True, s\<lparr>workQueue := workQueue s @ [q]\<rparr>))"

text \<open>One scan: \<open>kept\<close> is the part of the queue the scan has passed, \<open>rest\<close> the part in front of it, to whose end new work goes. It need
  not end when work keeps queueing work.\<close>

partial_function (option) work_loop ::
    "work_procs \<Rightarrow> work list \<Rightarrow> work list \<Rightarrow> work list \<Rightarrow> (work list \<times> work list) option" where
  "work_loop f kept rest calls =
     (case rest of
        [] \<Rightarrow> Some (kept, calls)
      | q # qs \<Rightarrow>
          (case f calls q of (finished, new) \<Rightarrow>
             work_loop f (if finished then kept else kept @ [q]) (qs @ new) (calls @ [q])))"

text \<open>The result: the state and the calls made.\<close>

definition ProcessWorkQueue :: "work_procs \<Rightarrow> queues \<Rightarrow> (queues \<times> work list) option" where
  "ProcessWorkQueue f s =
     (if workQueue s = [] then Some (s, [])
      else map_option (\<lambda>(kept, calls). (s\<lparr>workQueue := kept\<rparr>, calls)) (work_loop f [] (workQueue s) []))"

text \<open>The scan for clients that are gone: their work is called and dropped, whatever it returns.\<close>

partial_function (option) zombie_loop ::
    "(nat \<Rightarrow> bool) \<Rightarrow> work_procs \<Rightarrow> work list \<Rightarrow> work list \<Rightarrow> work list \<Rightarrow> (work list \<times> work list) option" where
  "zombie_loop gone f kept rest calls =
     (case rest of
        [] \<Rightarrow> Some (kept, calls)
      | q # qs \<Rightarrow>
          if (case wk_client q of None \<Rightarrow> False | Some c \<Rightarrow> gone c)
          then zombie_loop gone f kept (qs @ snd (f calls q)) (calls @ [q])
          else zombie_loop gone f (kept @ [q]) qs calls)"

definition ProcessWorkQueueZombies :: "(nat \<Rightarrow> bool) \<Rightarrow> work_procs \<Rightarrow> queues \<Rightarrow> (queues \<times> work list) option" where
  "ProcessWorkQueueZombies gone f s =
     map_option (\<lambda>(kept, calls). (s\<lparr>workQueue := kept\<rparr>, calls)) (zombie_loop gone f [] (workQueue s) [])"

definition ClientSleep :: "bool \<Rightarrow> nat \<Rightarrow> nat \<Rightarrow> nat \<Rightarrow> queues \<Rightarrow> bool \<times> queues" where
  "ClientSleep alloc client func closure s =
     (if \<not> alloc then (False, s)
      else (True, s\<lparr>attention_log := attention_log s @ [Ignored client],
                    sleepQueue := \<lparr>sl_client = client, sl_function = func, sl_closure = closure\<rparr> # sleepQueue s\<rparr>))"

definition sleeper_work :: "sleeper \<Rightarrow> work" where
  "sleeper_work q = \<lparr>wk_function = sl_function q, wk_client = Some (sl_client q), wk_closure = sl_closure q\<rparr>"

definition dixClientSignal :: "bool \<Rightarrow> nat \<Rightarrow> queues \<Rightarrow> bool \<times> queues" where
  "dixClientSignal alloc client s =
     (case List.find (\<lambda>q. sl_client q = client) (sleepQueue s) of
        None \<Rightarrow> (False, s)
      | Some q \<Rightarrow> QueueWorkProc alloc (sleeper_work q) s)"

text \<open>\<open>None\<close> stands for \<open>CLIENT_SIGNAL_ANY\<close>; \<open>alloc n\<close> says whether the queue entry for the \<open>n\<close>-th element of the work queue can be had.\<close>

definition signal_matches :: "nat option \<Rightarrow> nat option \<Rightarrow> nat option \<Rightarrow> sleeper \<Rightarrow> bool" where
  "signal_matches client func closure q \<longleftrightarrow>
     (case client of None \<Rightarrow> True | Some c \<Rightarrow> sl_client q = c) \<and>
     (case func of None \<Rightarrow> True | Some f \<Rightarrow> sl_function q = f) \<and>
     (case closure of None \<Rightarrow> True | Some d \<Rightarrow> sl_closure q = d)"

fun signal_loop :: "(nat \<Rightarrow> bool) \<Rightarrow> (sleeper \<Rightarrow> bool) \<Rightarrow> sleeper list \<Rightarrow> nat \<Rightarrow> queues \<Rightarrow> nat \<times> queues" where
  "signal_loop alloc P [] cnt s = (cnt, s)"
| "signal_loop alloc P (q # qs) cnt s =
     (if \<not> P q then signal_loop alloc P qs cnt s
      else case QueueWorkProc (alloc (length (workQueue s))) (sleeper_work q) s of
             (ok, s') \<Rightarrow> signal_loop alloc P qs (cnt + (if ok then 1 else 0)) s')"

definition ClientSignalAll :: "(nat \<Rightarrow> bool) \<Rightarrow> nat option \<Rightarrow> nat option \<Rightarrow> nat option \<Rightarrow> queues \<Rightarrow> nat \<times> queues" where
  "ClientSignalAll alloc client func closure s =
     signal_loop alloc (signal_matches client func closure) (sleepQueue s) 0 s"

fun wake_first :: "nat \<Rightarrow> sleeper list \<Rightarrow> bool \<times> sleeper list" where
  "wake_first client [] = (False, [])"
| "wake_first client (q # qs) =
     (if sl_client q = client then (True, qs) else (case wake_first client qs of (b, qs') \<Rightarrow> (b, q # qs')))"

definition ClientWakeup :: "nat \<Rightarrow> queues \<Rightarrow> queues" where
  "ClientWakeup client s =
     (case wake_first client (sleepQueue s) of
        (woken, qs) \<Rightarrow> if woken then s\<lparr>sleepQueue := qs, attention_log := attention_log s @ [Attended client]\<rparr> else s)"

definition ClientIsAsleep :: "nat \<Rightarrow> queues \<Rightarrow> bool" where
  "ClientIsAsleep client s \<longleftrightarrow> (\<exists>q \<in> set (sleepQueue s). sl_client q = client)"

subsection \<open>Callback lists\<close>

text \<open>A callback record is known by its address; its \<open>next\<close> pointer is the order of the list that holds it. Callback procedures
  hold no addresses of records, so that \<open>calloc\<close> may be taken to return a new address every time (\<open>cb_next\<close>).\<close>

record CallbackRec =
  cb_addr :: nat
  cb_proc :: nat
  cb_data :: nat
  cb_deleted :: bool

record CallbackListRec =
  inCallback :: nat
  cl_deleted :: bool
  numDeleted :: nat
  cl_list :: "CallbackRec list"

text \<open>\<open>cblists\<close> are the list pointers of the server: a variable holding a list, or NULL.\<close>

record cbstate =
  cblists :: "nat \<rightharpoonup> CallbackListRec"
  listsToCleanup :: "nat option list"
  ccalls :: "(nat \<times> nat) list"
  cb_next :: nat

definition upd_cbl :: "nat \<Rightarrow> (CallbackListRec \<Rightarrow> CallbackListRec) \<Rightarrow> cbstate \<Rightarrow> cbstate" where
  "upd_cbl p f s = s\<lparr>cblists := (cblists s)(p := map_option f (cblists s p))\<rparr>"

text \<open>Adding puts the callback in front.\<close>

definition add_callback :: "nat \<Rightarrow> nat \<Rightarrow> nat \<Rightarrow> cbstate \<Rightarrow> cbstate" where
  "add_callback p proc data s =
     upd_cbl p (\<lambda>l. l\<lparr>cl_list := \<lparr>cb_addr = cb_next s, cb_proc = proc, cb_data = data, cb_deleted = False\<rparr> # cl_list l\<rparr>)
       (s\<lparr>cb_next := cb_next s + 1\<rparr>)"

fun mark_first :: "('a \<Rightarrow> bool) \<Rightarrow> ('a \<Rightarrow> 'a) \<Rightarrow> 'a list \<Rightarrow> 'a list" where
  "mark_first P f [] = []"
| "mark_first P f (x # xs) = (if P x then f x # xs else x # mark_first P f xs)"

fun drop_first :: "('a \<Rightarrow> bool) \<Rightarrow> 'a list \<Rightarrow> 'a list" where
  "drop_first P [] = []"
| "drop_first P (x # xs) = (if P x then xs else x # drop_first P xs)"

definition is_callback :: "nat \<Rightarrow> nat \<Rightarrow> CallbackRec \<Rightarrow> bool" where
  "is_callback proc data c \<longleftrightarrow> cb_proc c = proc \<and> cb_data c = data"

text \<open>Deleting takes the first callback with the function and data, marked already or not.\<close>

definition delete_callback :: "nat \<Rightarrow> nat \<Rightarrow> nat \<Rightarrow> cbstate \<Rightarrow> bool \<times> cbstate" where
  "delete_callback p proc data s =
     (case cblists s p of
        None \<Rightarrow> (False, s)
      | Some l \<Rightarrow>
          if \<exists>c \<in> set (cl_list l). is_callback proc data c then
            (True,
             if inCallback l > 0
             then upd_cbl p (\<lambda>l. l\<lparr>numDeleted := numDeleted l + 1,
                    cl_list := mark_first (is_callback proc data) (\<lambda>c. c\<lparr>cb_deleted := True\<rparr>) (cl_list l)\<rparr>) s
             else upd_cbl p (\<lambda>l. l\<lparr>cl_list := drop_first (is_callback proc data) (cl_list l)\<rparr>) s)
          else (False, s))"

definition DeleteCallbackList :: "nat \<Rightarrow> cbstate \<Rightarrow> cbstate" where
  "DeleteCallbackList p s =
     (case cblists s p of
        None \<Rightarrow> s
      | Some l \<Rightarrow>
          if inCallback l > 0 then upd_cbl p (\<lambda>l. l\<lparr>cl_deleted := True\<rparr>) s
          else s\<lparr>cblists := (cblists s)(p := None),
                 listsToCleanup := mark_first (\<lambda>x. x = Some p) (\<lambda>_. None) (listsToCleanup s)\<rparr>)"

text \<open>The removal of the marked callbacks stops when the count of deletions is used up.\<close>

fun sweep :: "nat \<Rightarrow> CallbackRec list \<Rightarrow> nat \<times> CallbackRec list" where
  "sweep n [] = (n, [])"
| "sweep n (c # cs) =
     (if n = 0 then (n, c # cs)
      else if cb_deleted c then sweep (n - 1) cs
      else (case sweep n cs of (n', cs') \<Rightarrow> (n', c # cs')))"

type_synonym cb_effects = "nat \<Rightarrow> nat \<Rightarrow> cbstate \<Rightarrow> cbstate"

text \<open>What follows the record at an address in a list: \<open>None\<close> when the list does not hold it.\<close>

fun behind :: "nat \<Rightarrow> CallbackRec list \<Rightarrow> CallbackRec list option" where
  "behind a [] = None"
| "behind a (c # cs) = (if cb_addr c = a then Some cs else behind a cs)"

definition first_addr :: "CallbackRec list \<Rightarrow> nat option" where
  "first_addr cs = (case cs of [] \<Rightarrow> None | c # _ \<Rightarrow> Some (cb_addr c))"

definition cb_at :: "nat \<Rightarrow> nat \<Rightarrow> cbstate \<Rightarrow> CallbackRec option" where
  "cb_at p a s = (case cblists s p of None \<Rightarrow> None | Some l \<Rightarrow> List.find (\<lambda>c. cb_addr c = a) (cl_list l))"

definition next_cb :: "nat \<Rightarrow> nat \<Rightarrow> cbstate \<Rightarrow> nat option option" where
  "next_cb p a s = (case cblists s p of None \<Rightarrow> None | Some l \<Rightarrow> map_option first_addr (behind a (cl_list l)))"

text \<open>The walk along the list as the callbacks leave it: the \<open>next\<close> pointer is read when the callback has returned. Marked callbacks are
  called too. \<open>None\<close> is a walk that reads a record that has been freed, or that does not end.\<close>

partial_function (option) call_loop :: "cb_effects \<Rightarrow> nat \<Rightarrow> nat option \<Rightarrow> cbstate \<Rightarrow> cbstate option" where
  "call_loop eff p cbr s =
     (case cbr of
        None \<Rightarrow> Some s
      | Some a \<Rightarrow>
          (case cb_at p a s of
             None \<Rightarrow> None
           | Some c \<Rightarrow>
               let s' = eff (cb_proc c) (cb_data c) (s\<lparr>ccalls := ccalls s @ [(cb_proc c, cb_data c)]\<rparr>) in
               (case next_cb p a s' of
                  None \<Rightarrow> None
                | Some nxt \<Rightarrow> call_loop eff p nxt s')))"

text \<open>What follows the loop: the outermost call frees the list or the callbacks that were deleted meanwhile. \<open>None\<close>: the list
  itself has been freed.\<close>

definition calls_done :: "nat \<Rightarrow> cbstate \<Rightarrow> cbstate option" where
  "calls_done p s =
     (let s1 = upd_cbl p (\<lambda>l. l\<lparr>inCallback := inCallback l - 1\<rparr>) s in
      case cblists s1 p of
        None \<Rightarrow> None
      | Some l \<Rightarrow>
          if inCallback l > 0 then Some s1
          else if cl_deleted l then Some (DeleteCallbackList p s1)
          else if numDeleted l > 0
          then Some (upd_cbl p (\<lambda>l. case sweep (numDeleted l) (cl_list l) of (n, cs) \<Rightarrow> l\<lparr>numDeleted := n, cl_list := cs\<rparr>) s1)
          else Some s1)"

definition CallCallbacks :: "cb_effects \<Rightarrow> nat \<Rightarrow> cbstate \<Rightarrow> cbstate option" where
  "CallCallbacks eff p s =
     (case cblists s p of
        None \<Rightarrow> Some s
      | Some l0 \<Rightarrow>
          (case call_loop eff p (first_addr (cl_list l0)) (upd_cbl p (\<lambda>l. l\<lparr>inCallback := inCallback l + 1\<rparr>) s) of
             None \<Rightarrow> None
           | Some s1 \<Rightarrow> calls_done p s1))"

text \<open>A new list goes into the first free slot of the array of lists to clean up, or to its end.\<close>

definition CreateCallbackList :: "bool \<Rightarrow> nat \<Rightarrow> cbstate \<Rightarrow> bool \<times> cbstate" where
  "CreateCallbackList alloc p s =
     (if \<not> alloc then (False, s)
      else (True, s\<lparr>cblists := (cblists s)(p \<mapsto> \<lparr>inCallback = 0, cl_deleted = False, numDeleted = 0, cl_list = []\<rparr>),
              listsToCleanup := (if None \<in> set (listsToCleanup s)
                                 then mark_first (\<lambda>x. x = None) (\<lambda>_. Some p) (listsToCleanup s)
                                 else listsToCleanup s @ [Some p])\<rparr>))"

definition AddCallback :: "bool \<Rightarrow> bool \<Rightarrow> nat \<Rightarrow> nat \<Rightarrow> nat \<Rightarrow> cbstate \<Rightarrow> bool \<times> cbstate" where
  "AddCallback alloc_list alloc_rec p proc data s =
     (case (if cblists s p = None then CreateCallbackList alloc_list p s else (True, s)) of
        (ok, s1) \<Rightarrow> if \<not> ok then (False, s1)
                     else if \<not> alloc_rec then (False, s1)
                     else (True, add_callback p proc data s1))"

definition DeleteCallback :: "nat \<Rightarrow> nat \<Rightarrow> nat \<Rightarrow> cbstate \<Rightarrow> bool \<times> cbstate" where
  "DeleteCallback p proc data s = (if cblists s p = None then (False, s) else delete_callback p proc data s)"

definition DeleteCallbackManager :: "cbstate \<Rightarrow> cbstate" where
  "DeleteCallbackManager s =
     (fold (\<lambda>x s. case x of None \<Rightarrow> s | Some p \<Rightarrow> DeleteCallbackList p s) (listsToCleanup s) s)\<lparr>listsToCleanup := []\<rparr>"

definition InitCallbackManager :: "cbstate \<Rightarrow> cbstate" where
  "InitCallbackManager s = DeleteCallbackManager s"

end
