(* ===== verification/CallbackLaws.thy ===== *)
theory CallbackLaws
  imports Callbacks "HOL-Library.Sublist"
begin

text \<open>
  Removal while something is being called is deferred: an interface for it, interpreted on the block handlers and on the
  callback lists; what the work queue and the sleep queue promise.
\<close>

subsection \<open>The interface of deferred removal\<close>

text \<open>A collection whose elements are only marked while it is busy, and purged later; \<open>ident\<close> is what marking keeps of an element.\<close>

locale deferred_removal =
  fixes invar :: "'s \<Rightarrow> bool" and busy :: "'s \<Rightarrow> bool" and items :: "'s \<Rightarrow> 'a list" and marked :: "'a \<Rightarrow> bool"
    and ident :: "'a \<Rightarrow> 'i" and remove :: "'k \<Rightarrow> 's \<Rightarrow> 's" and purge :: "'s \<Rightarrow> 's"
  assumes remove_invar: "invar s \<Longrightarrow> busy s \<Longrightarrow> invar (remove k s) \<and> busy (remove k s)"
    and remove_items: "invar s \<Longrightarrow> busy s \<Longrightarrow> map ident (items (remove k s)) = map ident (items s)"
    and purge_items: "invar s \<Longrightarrow> items (purge s) = filter (\<lambda>x. \<not> marked x) (items s)"
begin

lemma removes:
  assumes "invar s" "busy s"
  shows "invar (fold remove ks s) \<and> busy (fold remove ks s) \<and> map ident (items (fold remove ks s)) = map ident (items s)"
  using assms by (induction ks arbitrary: s) (auto simp: remove_invar remove_items)

text \<open>However much is removed while busy, the elements are all still there to be visited, and the purge leaves no marked one.\<close>

lemma removes_then_purge:
  assumes "invar s" "busy s"
  shows "map ident (items (fold remove ks s)) = map ident (items s)"
    "\<forall>x \<in> set (items (purge (fold remove ks s))). \<not> marked x"
    "set (map ident (items (purge (fold remove ks s)))) \<subseteq> set (map ident (items s))"
proof -
  note r = removes [OF assms, of ks]
  show m: "map ident (items (fold remove ks s)) = map ident (items s)" using r by blast
  have p: "items (purge (fold remove ks s)) = filter (\<lambda>x. \<not> marked x) (items (fold remove ks s))" using purge_items r by blast
  show "\<forall>x \<in> set (items (purge (fold remove ks s))). \<not> marked x" unfolding p by simp
  have "set (map ident (items (purge (fold remove ks s)))) \<subseteq> set (map ident (items (fold remove ks s)))"
    unfolding p by auto
  then show "set (map ident (items (purge (fold remove ks s)))) \<subseteq> set (map ident (items s))" unfolding m .
qed

end

subsection \<open>Block and wakeup handlers\<close>

lemma purge_filter: "i \<le> length hs \<Longrightarrow> purge i hs = take i hs @ filter (\<lambda>h. \<not> bh_deleted h) (drop i hs)"
proof (induction i hs rule: purge.induct)
  case (1 i hs)
  show ?case
  proof (cases "i < length hs")
    case True
    have d: "drop i hs = hs ! i # drop (i + 1) hs" using True by (simp add: Cons_nth_drop_Suc)
    show ?thesis
    proof (cases "bh_deleted (hs ! i)")
      case del: True
      have "purge i (remove_at i hs) = take i (remove_at i hs) @ filter (\<lambda>h. \<not> bh_deleted h) (drop i (remove_at i hs))"
        using 1(1) [OF True del] True by (simp add: remove_at_def)
      then show ?thesis using True del d by (simp add: purge.simps [of i hs] remove_at_def)
    next
      case False
      have "purge (i + 1) hs = take (i + 1) hs @ filter (\<lambda>h. \<not> bh_deleted h) (drop (i + 1) hs)"
        using 1(2) [OF True False] True by simp
      then show ?thesis using True False d by (simp add: purge.simps [of i hs] take_Suc_conv_app_nth)
    qed
  next
    case False
    then have "i = length hs" using 1(3) by simp
    then show ?thesis by (simp add: purge.simps [of "length hs" hs])
  qed
qed

definition bh_inv :: "bstate \<Rightarrow> bool" where
  "bh_inv s \<longleftrightarrow> ((\<exists>h \<in> set (bhandlers s). bh_deleted h) \<longrightarrow> handlerDeleted s)"

definition bh_ident :: "BlockHandlerRec \<Rightarrow> nat \<times> nat \<times> nat" where
  "bh_ident h = (bh_block h, bh_wakeup h, bh_data h)"

lemma map_update_same: "i < length xs \<Longrightarrow> f y = f (xs ! i) \<Longrightarrow> map f (xs[i := y]) = map f xs"
  by (simp add: map_update list_update_same_conv)

interpretation bh: deferred_removal bh_inv "\<lambda>s. inHandler s > 0" bhandlers bh_deleted bh_ident
    "\<lambda>(b, w, d). RemoveBlockAndWakeupHandlers b w d" purge_deleted
proof
  fix s :: bstate and k :: "nat \<times> nat \<times> nat"
  assume inv: "bh_inv s"
  obtain b w d where k: "k = (b, w, d)" by (cases k) auto
  show "bhandlers (purge_deleted s) = filter (\<lambda>x. \<not> bh_deleted x) (bhandlers s)"
  proof (cases "handlerDeleted s")
    case True
    then show ?thesis using purge_filter [of 0 "bhandlers s"] by (simp add: purge_deleted_def)
  next
    case False
    then have "filter (\<lambda>x. \<not> bh_deleted x) (bhandlers s) = bhandlers s" using inv by (auto simp: bh_inv_def filter_id_conv)
    then show ?thesis using False by (simp add: purge_deleted_def)
  qed
  assume "inHandler s > 0"
  then show "bh_inv ((case k of (b, w, d) \<Rightarrow> RemoveBlockAndWakeupHandlers b w d) s) \<and>
      0 < inHandler ((case k of (b, w, d) \<Rightarrow> RemoveBlockAndWakeupHandlers b w d) s)"
    "map bh_ident (bhandlers ((case k of (b, w, d) \<Rightarrow> RemoveBlockAndWakeupHandlers b w d) s)) = map bh_ident (bhandlers s)"
    using inv by (auto simp: k RemoveBlockAndWakeupHandlers_def Let_def bh_inv_def bh_ident_def map_update_same)
qed

text \<open>Handlers that leave the registry alone: the block handlers are called in the order of registration, the wakeup handlers in the
  reverse order.\<close>

definition bh_quiet :: "beffects \<Rightarrow> bool" where
  "bh_quiet eff \<longleftrightarrow> (\<forall>c s. eff c s = s)"

lemma block_loop_quiet:
  assumes "bh_quiet eff"
  shows "block_loop eff i s = Some (s\<lparr>bcalls := bcalls s @
    map (\<lambda>h. CallBlock (bh_block h) (bh_data h)) (filter (\<lambda>h. \<not> bh_deleted h) (drop i (bhandlers s)))\<rparr>)"
proof (induction "length (bhandlers s) - i" arbitrary: i s)
  case 0
  then show ?case by (simp add: block_loop.simps [of eff i s])
next
  case (Suc n)
  have i: "i < length (bhandlers s)" using Suc(2) by linarith
  have d: "drop i (bhandlers s) = bhandlers s ! i # drop (i + 1) (bhandlers s)" using i by (simp add: Cons_nth_drop_Suc)
  let ?h = "bhandlers s ! i"
  let ?s = "if bh_deleted ?h then s else s\<lparr>bcalls := bcalls s @ [CallBlock (bh_block ?h) (bh_data ?h)]\<rparr>"
  have "block_loop eff i s = block_loop eff (i + 1) ?s"
    using i assms by (simp add: block_loop.simps [of eff i s] do_bcall_def bh_quiet_def Let_def)
  also have "\<dots> = Some (?s\<lparr>bcalls := bcalls ?s @
      map (\<lambda>h. CallBlock (bh_block h) (bh_data h)) (filter (\<lambda>h. \<not> bh_deleted h) (drop (i + 1) (bhandlers ?s)))\<rparr>)"
    by (rule Suc(1)) (use Suc(2) in auto)
  finally show ?case unfolding d by simp
qed

lemma wakeup_loop_quiet:
  assumes "bh_quiet eff" "n \<le> length (bhandlers s)"
  shows "wakeup_loop eff n s = Some (s\<lparr>bcalls := bcalls s @
    map (\<lambda>h. CallWakeup (bh_wakeup h) (bh_data h)) (rev (filter (\<lambda>h. \<not> bh_deleted h) (take n (bhandlers s))))\<rparr>)"
  using assms(2)
proof (induction n arbitrary: s)
  case (Suc n)
  let ?h = "bhandlers s ! n"
  let ?s = "if bh_deleted ?h then s else s\<lparr>bcalls := bcalls s @ [CallWakeup (bh_wakeup ?h) (bh_data ?h)]\<rparr>"
  have "wakeup_loop eff (Suc n) s = wakeup_loop eff n ?s"
    using Suc(2) assms(1) by (simp add: do_bcall_def bh_quiet_def Let_def)
  then show ?case using Suc(1) [of ?s] Suc(2) by (simp add: take_Suc_conv_app_nth)
qed simp

text \<open>Block handlers run in the order of registration and wakeup handlers in the reverse order, each registered and not removed one exactly
  once and both always return (for handlers that leave the registry alone); afterwards no removed handler is left.\<close>

lemma handlers_order:
  assumes "bh_quiet eff" "bh_inv s"
  shows "\<exists>s1 s2. BlockHandler eff s = Some s1 \<and> WakeupHandler eff s = Some s2 \<and>
    bcalls s1 = bcalls s @ map (\<lambda>h. CallBlock (bh_block h) (bh_data h)) (filter (\<lambda>h. \<not> bh_deleted h) (bhandlers s)) @ [CallScreensBlock] \<and>
    bcalls s2 = bcalls s @ CallScreensWakeup #
      map (\<lambda>h. CallWakeup (bh_wakeup h) (bh_data h)) (rev (filter (\<lambda>h. \<not> bh_deleted h) (bhandlers s))) \<and>
    bhandlers s1 = filter (\<lambda>h. \<not> bh_deleted h) (bhandlers s) \<and> bhandlers s2 = filter (\<lambda>h. \<not> bh_deleted h) (bhandlers s) \<and>
    inHandler s1 = inHandler s \<and> inHandler s2 = inHandler s"
proof -
  have p: "bhandlers (purge_deleted u) = filter (\<lambda>x. \<not> bh_deleted x) (bhandlers s)"
    "inHandler (purge_deleted u) = inHandler u" "bcalls (purge_deleted u) = bcalls u"
    if "bhandlers u = bhandlers s" "handlerDeleted u = handlerDeleted s" for u
    using bh.purge_items [of u] that assms(2) by (simp_all add: bh_inv_def purge_deleted_def)
  have e: "do_bcall eff c u = u\<lparr>bcalls := bcalls u @ [c]\<rparr>" for c u using assms(1) by (simp add: do_bcall_def bh_quiet_def)
  let ?s = "s\<lparr>inHandler := inHandler s + 1\<rparr>"
  have "\<exists>s1. BlockHandler eff s = Some s1 \<and> inHandler s1 = inHandler s \<and> bhandlers s1 = filter (\<lambda>h. \<not> bh_deleted h) (bhandlers s) \<and>
    bcalls s1 = bcalls s @ map (\<lambda>h. CallBlock (bh_block h) (bh_data h)) (filter (\<lambda>h. \<not> bh_deleted h) (bhandlers s)) @ [CallScreensBlock]"
    using p by (simp add: BlockHandler_def block_loop_quiet [OF assms(1)] Let_def e)
  moreover have "\<exists>s2. WakeupHandler eff s = Some s2 \<and> inHandler s2 = inHandler s \<and> bhandlers s2 = filter (\<lambda>h. \<not> bh_deleted h) (bhandlers s) \<and>
    bcalls s2 = bcalls s @ CallScreensWakeup #
      map (\<lambda>h. CallWakeup (bh_wakeup h) (bh_data h)) (rev (filter (\<lambda>h. \<not> bh_deleted h) (bhandlers s)))"
    using p wakeup_loop_quiet [OF assms(1), of "length (bhandlers s)" "?s\<lparr>bcalls := bcalls s @ [CallScreensWakeup]\<rparr>"]
    by (simp add: WakeupHandler_def Let_def e)
  ultimately show ?thesis by blast
qed

subsection \<open>The work queue\<close>

text \<open>What became of a scan whose calls were \<open>calls\<close>, from position \<open>n\<close> on: the work that the calls queued, and the work that stays.\<close>

definition queued_by :: "work_procs \<Rightarrow> work list \<Rightarrow> nat \<Rightarrow> work list" where
  "queued_by f calls n = concat (map (\<lambda>i. snd (f (take i calls) (calls ! i))) [n ..< length calls])"

definition stays :: "work_procs \<Rightarrow> work list \<Rightarrow> nat \<Rightarrow> work list" where
  "stays f calls n = map (\<lambda>i. calls ! i) (filter (\<lambda>i. \<not> fst (f (take i calls) (calls ! i))) [n ..< length calls])"

text \<open>Work that queues only work of lower rank.\<close>

definition ranked :: "(work \<Rightarrow> nat) \<Rightarrow> work_procs \<Rightarrow> bool" where
  "ranked rank f \<longleftrightarrow> (\<forall>calls q r. r \<in> set (snd (f calls q)) \<longrightarrow> rank r < rank q)"

lemma work_loop_spec:
  assumes "ranked rank f"
  shows "\<exists>k' c'. work_loop f kept rest calls = Some (k', c') \<and> take (length calls) c' = calls \<and> length calls \<le> length c' \<and>
    drop (length calls) c' = rest @ queued_by f c' (length calls) \<and> k' = kept @ stays f c' (length calls)"
proof -
  let ?r = "{(x, y). rank x < rank y}"
  have wf: "wf (inv_image (mult ?r) mset)"
    by (intro wf_inv_image wf_mult) (rule wf_subset [OF wf_measure [of rank]], auto)
  show ?thesis
  proof (induction rest arbitrary: kept calls rule: wf_induct_rule [OF wf])
    case (1 rest)
    show ?case
    proof (cases rest)
      case Nil
      then show ?thesis by (simp add: work_loop.simps queued_by_def stays_def)
    next
      case (Cons q qs)
      obtain b new where f: "f calls q = (b, new)" by fastforce
      have "rank k < rank q" if "k \<in> set new" for k using assms f that unfolding ranked_def by (metis snd_conv)
      then have "(mset qs + mset new, mset qs + {#q#}) \<in> mult ?r"
        by (intro one_step_implies_mult) auto
      then have "(qs @ new, rest) \<in> inv_image (mult ?r) mset" using Cons by (simp add: ac_simps)
      from 1 [OF this, of "if b then kept else kept @ [q]" "calls @ [q]"] obtain k' c' where
        r: "work_loop f (if b then kept else kept @ [q]) (qs @ new) (calls @ [q]) = Some (k', c')"
          "take (length calls + 1) c' = calls @ [q]" "length calls + 1 \<le> length c'"
          "drop (length calls + 1) c' = (qs @ new) @ queued_by f c' (length calls + 1)"
          "k' = (if b then kept else kept @ [q]) @ stays f c' (length calls + 1)" by auto
      have n: "length calls < length c'" "c' ! length calls = q" "take (length calls) c' = calls"
        using r(2,3) by (auto simp: take_Suc_conv_app_nth)
      have up: "[length calls ..< length c'] = length calls # [length calls + 1 ..< length c']" using n(1) by (simp add: upt_conv_Cons)
      have q: "queued_by f c' (length calls) = new @ queued_by f c' (length calls + 1)"
        "stays f c' (length calls) = (if b then [] else [q]) @ stays f c' (length calls + 1)"
        unfolding queued_by_def stays_def up using n f by auto
      have "drop (length calls) c' = q # drop (length calls + 1) c'" using n by (simp add: Cons_nth_drop_Suc [symmetric])
      moreover have "work_loop f kept rest calls = Some (k', c')" using Cons f r(1) by (simp add: work_loop.simps [of f kept "q # qs" calls])
      ultimately show ?thesis using Cons r(3-5) n(1,3) q by (intro exI [of _ k'] exI [of _ c']) simp
    qed
  qed
qed

text \<open>Processing the work queue returns as long as work queues only work of lower rank; then the procedures called are exactly the ones
  that were queued, first in first out, followed by the ones queued meanwhile, in order, each once; and the queue is left with
  exactly the ones whose call did not say it was done, in the same order.\<close>

lemma ProcessWorkQueue_scans:
  assumes "ranked rank f"
  shows "\<exists>s' calls. ProcessWorkQueue f s = Some (s', calls) \<and> calls = workQueue s @ queued_by f calls 0 \<and>
    workQueue s' = stays f calls 0 \<and> sleepQueue s' = sleepQueue s"
proof (cases "workQueue s = []")
  case True
  then show ?thesis by (simp add: ProcessWorkQueue_def queued_by_def stays_def)
next
  case False
  then show ?thesis using work_loop_spec [OF assms, of "[]" "workQueue s" "[]"] by (auto simp: ProcessWorkQueue_def)
qed

subsection \<open>Sleeping clients\<close>

text \<open>A client that sleeps is ignored and asleep; signalling it queues its procedure at the end of the work queue; waking it up attends to it again, and
  it is awake if it slept once.\<close>

lemma sleep_signal_wakeup:
  assumes "\<not> ClientIsAsleep c s" "ClientSleep True c f d s = (True, s1)" "dixClientSignal True c s1 = (ok, s2)"
  shows "ClientIsAsleep c s1" "attention_log s1 = attention_log s @ [Ignored c]" "ok"
    "workQueue s2 = workQueue s @ [\<lparr>wk_function = f, wk_client = Some c, wk_closure = d\<rparr>]"
    "\<not> ClientIsAsleep c (ClientWakeup c s2)" "attention_log (ClientWakeup c s2) = attention_log s @ [Ignored c, Attended c]"
    "sleepQueue (ClientWakeup c s2) = sleepQueue s"
proof -
  have s1: "s1 = s\<lparr>attention_log := attention_log s @ [Ignored c],
      sleepQueue := \<lparr>sl_client = c, sl_function = f, sl_closure = d\<rparr> # sleepQueue s\<rparr>"
    using assms(2) by (simp add: ClientSleep_def)
  have s2: "ok" "s2 = s1\<lparr>workQueue := workQueue s1 @ [\<lparr>wk_function = f, wk_client = Some c, wk_closure = d\<rparr>]\<rparr>"
    using assms(3) by (simp_all add: s1 dixClientSignal_def QueueWorkProc_def sleeper_work_def)
  then show "ok" by simp
  have w: "ClientWakeup c s2 = s2\<lparr>sleepQueue := sleepQueue s, attention_log := attention_log s2 @ [Attended c]\<rparr>"
    by (simp add: s2 s1 ClientWakeup_def)
  show "ClientIsAsleep c s1" "attention_log s1 = attention_log s @ [Ignored c]"
    "workQueue s2 = workQueue s @ [\<lparr>wk_function = f, wk_client = Some c, wk_closure = d\<rparr>]"
    by (simp_all add: s2 s1 ClientIsAsleep_def)
  show "\<not> ClientIsAsleep c (ClientWakeup c s2)" "attention_log (ClientWakeup c s2) = attention_log s @ [Ignored c, Attended c]"
    "sleepQueue (ClientWakeup c s2) = sleepQueue s"
    using assms(1) unfolding w by (simp_all add: s2 s1 ClientIsAsleep_def)
qed

lemma signal_loop_spec:
  "(\<And>n. alloc n) \<Longrightarrow> signal_loop alloc P qs cnt s =
     (cnt + length (filter P qs), s\<lparr>workQueue := workQueue s @ map sleeper_work (filter P qs)\<rparr>)"
  by (induction qs arbitrary: cnt s) (auto simp: QueueWorkProc_def)

subsection \<open>Callback lists\<close>

definition marks :: "CallbackListRec \<Rightarrow> nat" where
  "marks l = length (filter cb_deleted (cl_list l))"

definition cb_ident :: "CallbackRec \<Rightarrow> nat \<times> nat \<times> nat" where
  "cb_ident c = (cb_addr c, cb_proc c, cb_data c)"

lemma sweep_all: "length (filter cb_deleted cs) \<le> n \<Longrightarrow> snd (sweep n cs) = filter (\<lambda>c. \<not> cb_deleted c) cs"
proof (induction cs arbitrary: n)
  case (Cons c cs)
  show ?case
  proof (cases "n = 0")
    case True
    then have "filter cb_deleted (c # cs) = []" using Cons(2) by simp
    then show ?thesis using True by (auto simp: filter_empty_conv filter_id_conv split: if_splits)
  next
    case False
    then show ?thesis using Cons(1) [of n] Cons(1) [of "n - 1"] Cons(2) by (auto split: prod.splits)
  qed
qed simp

lemma mark_first_props:
  "map cb_ident (mark_first P (\<lambda>c. c\<lparr>cb_deleted := True\<rparr>) cs) = map cb_ident cs"
  "length (filter cb_deleted (mark_first P (\<lambda>c. c\<lparr>cb_deleted := True\<rparr>) cs)) \<le> length (filter cb_deleted cs) + 1"
  by (induction cs) (auto simp: cb_ident_def)

text \<open>The interface again: a list on which callbacks are running, and the end of the outermost call.\<close>

definition list_of :: "nat \<Rightarrow> cbstate \<Rightarrow> CallbackRec list" where
  "list_of p s = (case cblists s p of None \<Rightarrow> [] | Some l \<Rightarrow> cl_list l)"

definition swept :: "nat \<Rightarrow> cbstate \<Rightarrow> cbstate" where
  "swept p s = upd_cbl p (\<lambda>l. case sweep (numDeleted l) (cl_list l) of (n, cs) \<Rightarrow> l\<lparr>numDeleted := n, cl_list := cs\<rparr>) s"

definition cb_inv :: "nat \<Rightarrow> cbstate \<Rightarrow> bool" where
  "cb_inv p s \<longleftrightarrow> (case cblists s p of None \<Rightarrow> True | Some l \<Rightarrow> marks l \<le> numDeleted l)"

definition cb_busy :: "nat \<Rightarrow> cbstate \<Rightarrow> bool" where
  "cb_busy p s \<longleftrightarrow> (case cblists s p of None \<Rightarrow> False | Some l \<Rightarrow> inCallback l > 0)"

interpretation cbl: deferred_removal "cb_inv p" "cb_busy p" "list_of p" cb_deleted cb_ident
    "\<lambda>(proc, data) s. snd (delete_callback p proc data s)" "swept p" for p
proof
  fix s :: cbstate and k :: "nat \<times> nat"
  assume inv: "cb_inv p s"
  show "list_of p (swept p s) = filter (\<lambda>x. \<not> cb_deleted x) (list_of p s)"
    using inv sweep_all [of "list_of p s"]
    by (auto simp: list_of_def swept_def upd_cbl_def cb_inv_def marks_def split: option.splits prod.splits) (metis snd_conv)
  assume busy: "cb_busy p s"
  obtain l where l: "cblists s p = Some l" "inCallback l > 0" using busy by (auto simp: cb_busy_def split: option.splits)
  obtain pr d where k: "k = (pr, d)" by (cases k)
  show "cb_inv p ((case k of (proc, data) \<Rightarrow> \<lambda>s. snd (delete_callback p proc data s)) s) \<and>
      cb_busy p ((case k of (proc, data) \<Rightarrow> \<lambda>s. snd (delete_callback p proc data s)) s)"
    using l inv mark_first_props(2) [of "is_callback pr d" "cl_list l"]
    by (simp add: k delete_callback_def upd_cbl_def cb_inv_def cb_busy_def marks_def)
  show "map cb_ident (list_of p ((case k of (proc, data) \<Rightarrow> \<lambda>s. snd (delete_callback p proc data s)) s)) = map cb_ident (list_of p s)"
    using l mark_first_props(1) by (simp add: k delete_callback_def upd_cbl_def list_of_def)
qed

text \<open>What running callbacks may do: add and delete callbacks on this list and on others, delete other lists.\<close>

inductive cb_op :: "nat \<Rightarrow> cbstate \<Rightarrow> cbstate \<Rightarrow> bool" for p where
  adds: "cb_op p s (snd (AddCallback alloc_list alloc_rec q proc data s))"
| deletes: "cb_op p s (snd (DeleteCallback q proc data s))"
| deletes_list: "q \<noteq> p \<Longrightarrow> cb_op p s (DeleteCallbackList q s)"

definition edits_only :: "nat \<Rightarrow> cb_effects \<Rightarrow> bool" where
  "edits_only p eff \<longleftrightarrow> (\<forall>proc data s. (cb_op p)\<^sup>*\<^sup>* s (eff proc data s))"

text \<open>The records of a list are distinct, and new ones will differ from them.\<close>

definition addrs_ok :: "nat \<Rightarrow> cbstate \<Rightarrow> bool" where
  "addrs_ok p s \<longleftrightarrow> distinct (map cb_addr (list_of p s)) \<and> (\<forall>c \<in> set (list_of p s). cb_addr c < cb_next s)"

text \<open>The list while it is being called, \<open>n\<close> calls deep: behind whatever has been added it holds the callbacks \<open>keys\<close>.\<close>

definition running :: "nat \<Rightarrow> nat \<Rightarrow> (nat \<times> nat \<times> nat) list \<Rightarrow> cbstate \<Rightarrow> bool" where
  "running p n keys s \<longleftrightarrow> cb_inv p s \<and> addrs_ok p s \<and>
     (\<exists>l new. cblists s p = Some l \<and> inCallback l = n \<and> n > 0 \<and> \<not> cl_deleted l \<and> map cb_ident (cl_list l) = new @ keys)"

lemma cb_addr_ident: "map cb_addr cs = map fst (map cb_ident cs)"
  by (simp add: cb_ident_def)

lemma addrs_ok_ident:
  assumes "addrs_ok p s" "map cb_ident (list_of p s') = map cb_ident (list_of p s)" "cb_next s \<le> cb_next s'"
  shows "addrs_ok p s'"
proof -
  have e: "map cb_addr (list_of p s') = map cb_addr (list_of p s)" using assms(2) by (simp only: cb_addr_ident)
  have "set (map cb_addr (list_of p s')) \<subseteq> {..< cb_next s}" unfolding e using assms(1) by (auto simp: addrs_ok_def)
  then have "\<forall>c \<in> set (list_of p s'). cb_addr c < cb_next s'" using assms(3) by fastforce
  then show ?thesis using assms(1) unfolding addrs_ok_def e by blast
qed

lemma running_frame:
  assumes "running p n keys s" "cblists s' p = cblists s p" "cb_next s \<le> cb_next s'"
  shows "running p n keys s'"
proof -
  have "list_of p s' = list_of p s" using assms(2) by (simp add: list_of_def)
  then have "addrs_ok p s'" using assms(1,3) addrs_ok_ident [of p s s'] by (simp add: running_def)
  then show ?thesis using assms(1,2) by (simp add: running_def cb_inv_def)
qed

lemma running_add:
  assumes "running p n keys s"
  shows "running p n keys (add_callback p proc data s)"
proof -
  let ?c = "\<lparr>cb_addr = cb_next s, cb_proc = proc, cb_data = data, cb_deleted = False\<rparr>"
  obtain l new where l: "cblists s p = Some l" "inCallback l = n" "n > 0" "\<not> cl_deleted l" "map cb_ident (cl_list l) = new @ keys"
    "distinct (map cb_addr (cl_list l))" "\<forall>c \<in> set (cl_list l). cb_addr c < cb_next s" "marks l \<le> numDeleted l"
    using assms by (auto simp: running_def cb_inv_def addrs_ok_def list_of_def)
  let ?s = "add_callback p proc data s" and ?l = "l\<lparr>cl_list := ?c # cl_list l\<rparr>"
  have p: "cblists ?s p = Some ?l" "cb_next ?s = cb_next s + 1" using l(1) by (simp_all add: add_callback_def upd_cbl_def)
  have "cb_next s \<notin> cb_addr ` set (cl_list l)" using l(7) by auto
  then have "addrs_ok p ?s" using p l(6,7) by (auto simp: addrs_ok_def list_of_def)
  moreover have "cb_inv p ?s" using p l(8) by (simp add: cb_inv_def marks_def)
  moreover have "map cb_ident (cl_list ?l) = (cb_ident ?c # new) @ keys" using l(5) by simp
  ultimately show ?thesis unfolding running_def using p(1) l(2-4) by (intro conjI exI [of _ ?l] exI [of _ "cb_ident ?c # new"]) simp_all
qed

lemma running_delete:
  assumes "running p n keys s"
  shows "running p n keys (snd (delete_callback p proc data s))"
proof -
  let ?s = "snd (delete_callback p proc data s)"
  have b: "cb_busy p s" "cb_inv p s" using assms by (auto simp: running_def cb_busy_def)
  have i: "cb_inv p ?s" using cbl.remove_invar [OF b(2,1), of "(proc, data)"] by simp
  have m: "map cb_ident (list_of p ?s) = map cb_ident (list_of p s)" using cbl.remove_items [OF b(2,1), of "(proc, data)"] by simp
  have c: "cb_next ?s = cb_next s" by (auto simp: delete_callback_def upd_cbl_def split: option.split)
  have "\<exists>l. cblists ?s p = Some l \<and> inCallback l = n \<and> \<not> cl_deleted l"
    using assms by (auto simp: running_def delete_callback_def upd_cbl_def)
  then show ?thesis
    using assms i m addrs_ok_ident [of p s ?s] c by (auto simp: running_def list_of_def)
qed

lemma cb_op_running:
  assumes "cb_op p s s'" "running p n keys s"
  shows "running p n keys s' \<and> ccalls s' = ccalls s"
  using assms
proof cases
  case (adds al ar q proc data)
  have e: "cblists s p \<noteq> None" using assms(2) by (auto simp: running_def)
  have c: "ccalls s' = ccalls s"
    unfolding adds by (auto simp: AddCallback_def CreateCallbackList_def add_callback_def upd_cbl_def split: prod.split)
  show ?thesis
  proof (cases "q = p")
    case True
    then show ?thesis using adds c e running_add [OF assms(2)] assms(2) by (auto simp: AddCallback_def)
  next
    case False
    have "cblists s' p = cblists s p" "cb_next s \<le> cb_next s'"
      unfolding adds using False by (auto simp: AddCallback_def CreateCallbackList_def add_callback_def upd_cbl_def split: prod.split)
    then show ?thesis using running_frame [OF assms(2)] c by blast
  qed
next
  case (deletes q proc data)
  have c: "ccalls s' = ccalls s"
    unfolding deletes by (auto simp: DeleteCallback_def delete_callback_def upd_cbl_def split: option.split)
  show ?thesis
  proof (cases "q = p")
    case True
    then show ?thesis using deletes c running_delete [OF assms(2)] assms(2) by (auto simp: DeleteCallback_def)
  next
    case False
    have "cblists s' p = cblists s p" "cb_next s \<le> cb_next s'"
      unfolding deletes using False by (auto simp: DeleteCallback_def delete_callback_def upd_cbl_def split: option.split)
    then show ?thesis using running_frame [OF assms(2)] c by blast
  qed
next
  case (deletes_list q)
  have "cblists s' p = cblists s p" "cb_next s \<le> cb_next s'" "ccalls s' = ccalls s"
    unfolding deletes_list(1) using deletes_list(2) by (auto simp: DeleteCallbackList_def upd_cbl_def split: option.split)
  then show ?thesis using running_frame [OF assms(2)] by blast
qed

lemma cb_ops_running: "(cb_op p)\<^sup>*\<^sup>* s s' \<Longrightarrow> running p n keys s \<Longrightarrow> running p n keys s' \<and> ccalls s' = ccalls s"
  by (induction rule: rtranclp_induct) (auto dest: cb_op_running)

text \<open>Where the walk goes on from the record between \<open>pre\<close> and \<open>suf\<close>.\<close>

lemma behind_append:
  "distinct (map cb_addr (xs @ c # ys)) \<Longrightarrow> behind (cb_addr c) (xs @ c # ys) = Some ys"
  by (induction xs) auto

lemma find_addr:
  "distinct (map cb_addr (xs @ c # ys)) \<Longrightarrow> List.find (\<lambda>d. cb_addr d = cb_addr c) (xs @ c # ys) = Some c"
  by (induction xs) auto

definition first_key :: "(nat \<times> nat \<times> nat) list \<Rightarrow> nat option" where
  "first_key ks = (case ks of [] \<Rightarrow> None | k # _ \<Rightarrow> Some (fst k))"

lemma first_key_addr: "first_key (map cb_ident cs) = first_addr cs"
  by (cases cs) (simp_all add: first_key_def first_addr_def cb_ident_def)

lemma running_at:
  assumes "running p n (pre @ k # suf) s"
  shows "next_cb p (fst k) s = Some (first_key suf)"
    "\<exists>c. cb_at p (fst k) s = Some c \<and> cb_ident c = k"
proof -
  obtain l new where l: "cblists s p = Some l" "map cb_ident (cl_list l) = new @ pre @ k # suf" "distinct (map cb_addr (cl_list l))"
    using assms by (auto simp: running_def addrs_ok_def list_of_def)
  obtain xs c ys where c: "cl_list l = xs @ c # ys" "cb_ident c = k" "map cb_ident ys = suf"
    using l(2) unfolding append_assoc [symmetric] map_eq_append_conv by (auto simp: map_eq_Cons_conv)
  have k: "fst k = cb_addr c" using c(2) by (auto simp: cb_ident_def)
  show "next_cb p (fst k) s = Some (first_key suf)"
    using l(1,3) c(1) behind_append [of xs c ys] first_key_addr [of ys] by (simp add: next_cb_def k c(3) [symmetric])
  show "\<exists>c. cb_at p (fst k) s = Some c \<and> cb_ident c = k"
    using l(1,3) c(1,2) find_addr [of xs c ys] by (simp add: cb_at_def k)
qed

lemma call_loop_running:
  assumes "edits_only p eff" "running p n (pre @ suf) s"
  shows "\<exists>s'. call_loop eff p (first_key suf) s = Some s' \<and> running p n (pre @ suf) s' \<and> ccalls s' = ccalls s @ map snd suf"
  using assms(2)
proof (induction suf arbitrary: pre s)
  case Nil
  then show ?case by (simp add: call_loop.simps first_key_def)
next
  case (Cons k suf)
  obtain c where c: "cb_at p (fst k) s = Some c" "cb_ident c = k" using running_at(2) [OF Cons(2)] by blast
  have k: "snd k = (cb_proc c, cb_data c)" using c(2) by (auto simp: cb_ident_def)
  let ?s = "s\<lparr>ccalls := ccalls s @ [snd k]\<rparr>"
  let ?s1 = "eff (cb_proc c) (cb_data c) ?s"
  have "running p n (pre @ k # suf) ?s" by (rule running_frame [OF Cons(2)]) simp_all
  then have s1: "running p n (pre @ k # suf) ?s1" "ccalls ?s1 = ccalls ?s"
    using cb_ops_running assms(1) unfolding edits_only_def by blast+
  note nx = running_at(1) [OF s1(1)]
  have "call_loop eff p (first_key (k # suf)) s = call_loop eff p (first_key suf) ?s1"
    using c(1) nx by (subst call_loop.simps) (simp add: first_key_def k Let_def)
  then show ?case using Cons(1) [of "pre @ [k]" ?s1] s1 by simp
qed

lemma upd_cbl_simps: "ccalls (upd_cbl p f s) = ccalls s" "cblists (upd_cbl p f s) p = map_option f (cblists s p)"
  by (simp_all add: upd_cbl_def)

lemma swept_list:
  "cblists s p = Some l \<Longrightarrow> \<exists>l'. cblists (swept p s) p = Some l' \<and> inCallback l' = inCallback l \<and>
     list_of p (swept p s) = cl_list l' \<and> ccalls (swept p s) = ccalls s"
  by (simp add: swept_def list_of_def upd_cbl_simps split: prod.split)

text \<open>The end of the outermost call.\<close>

lemma calls_done_sweeps:
  assumes "running p 1 keys s"
  shows "\<exists>s' l'. calls_done p s = Some s' \<and> cblists s' p = Some l' \<and> inCallback l' = 0 \<and>
    list_all (\<lambda>c. \<not> cb_deleted c) (cl_list l') \<and> ccalls s' = ccalls s"
proof -
  let ?s2 = "upd_cbl p (\<lambda>l. l\<lparr>inCallback := inCallback l - 1\<rparr>) s"
  obtain l1 where l1: "cblists s p = Some l1" "inCallback l1 = 1" "\<not> cl_deleted l1" "marks l1 \<le> numDeleted l1"
    using assms by (auto simp: running_def cb_inv_def)
  have l2: "cblists ?s2 p = Some (l1\<lparr>inCallback := 0\<rparr>)" "cb_inv p ?s2" "ccalls ?s2 = ccalls s"
    using l1 by (simp_all add: upd_cbl_def cb_inv_def marks_def)
  show ?thesis
  proof (cases "numDeleted l1 = 0")
    case True
    have "calls_done p s = Some ?s2" using l1 l2(1) True by (simp add: calls_done_def Let_def)
    moreover have "list_all (\<lambda>c. \<not> cb_deleted c) (cl_list l1)"
      using l1(4) True by (simp add: marks_def filter_empty_conv list_all_iff)
    ultimately show ?thesis using l2 by (intro exI [of _ ?s2] exI [of _ "l1\<lparr>inCallback := 0\<rparr>"]) simp
  next
    case False
    have c: "calls_done p s = Some (swept p ?s2)" using l1 l2(1) False by (simp add: calls_done_def Let_def swept_def)
    have "list_of p (swept p ?s2) = filter (\<lambda>x. \<not> cb_deleted x) (list_of p ?s2)" by (rule cbl.purge_items [OF l2(2)])
    then have "list_all (\<lambda>c. \<not> cb_deleted c) (list_of p (swept p ?s2))" by (simp add: list_all_iff)
    then show ?thesis unfolding c using swept_list [OF l2(1)] l2(3) by auto
  qed
qed

text \<open>C33. Calling a callback list calls every callback that is on it at the start exactly once, the newest first, however the callbacks add and
  delete callbacks on this list and on others (creating lists where there are none) and delete other lists while they run: the walk never
  meets a record that has been freed, it ends, and what was added meanwhile is not called. When the call returns no deleted callback is left
  on the list.\<close>

theorem CallCallbacks_once:
  assumes "edits_only p eff" "addrs_ok p s"
    and "cblists s p = Some l" "inCallback l = 0" "\<not> cl_deleted l" "\<not> (\<exists>c \<in> set (cl_list l). cb_deleted c)"
  shows "\<exists>s' l'. CallCallbacks eff p s = Some s' \<and> cblists s' p = Some l' \<and> inCallback l' = 0 \<and>
    list_all (\<lambda>c. \<not> cb_deleted c) (cl_list l') \<and>
    ccalls s' = ccalls s @ map (\<lambda>c. (cb_proc c, cb_data c)) (cl_list l)"
proof -
  let ?s0 = "upd_cbl p (\<lambda>l. l\<lparr>inCallback := inCallback l + 1\<rparr>) s" and ?ks = "map cb_ident (cl_list l)"
  have "filter cb_deleted (cl_list l) = []" using assms(6) by (simp add: filter_empty_conv)
  then have r0: "running p 1 ([] @ ?ks) ?s0"
    using assms(2-5) by (simp add: running_def cb_inv_def marks_def upd_cbl_def addrs_ok_def list_of_def)
  obtain s1 where s1: "call_loop eff p (first_key ?ks) ?s0 = Some s1" "running p 1 ?ks s1" "ccalls s1 = ccalls ?s0 @ map snd ?ks"
    using call_loop_running [OF assms(1) r0] by auto
  have "map snd ?ks = map (\<lambda>c. (cb_proc c, cb_data c)) (cl_list l)" by (simp add: cb_ident_def)
  then show ?thesis
    using calls_done_sweeps [OF s1(2)] s1 assms(3) by (auto simp: CallCallbacks_def first_key_addr upd_cbl_simps(1))
qed

text \<open>Every operation on the registry keeps the records distinct.\<close>

lemma subseq_subset: "subseq xs ys \<Longrightarrow> set xs \<subseteq> set ys"
  by (induction rule: list_emb.induct) auto

lemma subseq_distinct: "subseq xs ys \<Longrightarrow> distinct ys \<Longrightarrow> distinct xs"
proof (induction rule: list_emb.induct)
  case (list_emb_Cons2 x y xs ys)
  then show ?case using subseq_subset [of xs ys] by auto
qed auto

lemma addrs_ok_change:
  assumes "\<forall>p. addrs_ok p s" "\<forall>p. subseq (map cb_addr (list_of p s')) (map cb_addr (list_of p s))" "cb_next s \<le> cb_next s'"
  shows "addrs_ok p s'"
proof -
  have "set (map cb_addr (list_of p s')) \<subseteq> cb_addr ` set (list_of p s)" using assms(2) subseq_subset by fastforce
  then have "\<forall>c \<in> set (list_of p s'). cb_addr c < cb_next s'" using assms(1,3) by (fastforce simp: addrs_ok_def)
  moreover have "distinct (map cb_addr (list_of p s'))"
    using subseq_distinct [OF assms(2) [rule_format, of p]] assms(1) by (simp add: addrs_ok_def)
  ultimately show ?thesis by (simp add: addrs_ok_def)
qed

lemma addrs_drop_first: "subseq (map cb_addr (drop_first P cs)) (map cb_addr cs)"
  by (induction cs) auto

lemma addrs_mark_first: "map cb_addr (mark_first P (\<lambda>c. c\<lparr>cb_deleted := True\<rparr>) cs) = map cb_addr cs"
  by (induction cs) auto

lemma delete_addrs_ok:
  assumes "\<forall>p. addrs_ok p s"
  shows "addrs_ok p (snd (DeleteCallback q proc data s))"
  by (rule addrs_ok_change [OF assms])
    (auto simp: DeleteCallback_def delete_callback_def upd_cbl_def list_of_def addrs_drop_first addrs_mark_first split: option.split)

lemma delete_list_addrs_ok:
  assumes "\<forall>p. addrs_ok p s"
  shows "addrs_ok p (DeleteCallbackList q s)"
  by (rule addrs_ok_change [OF assms]) (auto simp: DeleteCallbackList_def upd_cbl_def list_of_def split: option.split)

lemma add_addrs_ok:
  assumes "\<forall>p. addrs_ok p s"
  shows "addrs_ok p (snd (AddCallback al ar q proc data s))"
proof -
  have c: "\<forall>p. addrs_ok p s1" if "CreateCallbackList al q s = (b, s1)" "cblists s q = None" for b s1
  proof
    fix p
    show "addrs_ok p s1"
      by (rule addrs_ok_change [OF assms]) (use that in \<open>auto simp: CreateCallbackList_def list_of_def split: if_splits\<close>)
  qed
  have a: "addrs_ok p (add_callback q proc data s1)" if "\<forall>p. addrs_ok p s1" for s1
  proof -
    have "cb_next s1 \<notin> cb_addr ` set (list_of q s1)" using that by (force simp: addrs_ok_def)
    then show ?thesis using that [rule_format, of p]
      by (auto simp: addrs_ok_def add_callback_def upd_cbl_def list_of_def less_Suc_eq split: option.splits)
  qed
  show ?thesis using assms a c by (auto simp: AddCallback_def split: prod.split)
qed

text \<open>In the example the first callback puts another one in front, the second one deletes itself.\<close>

definition two_callbacks :: cbstate where
  "two_callbacks = snd (AddCallback True True 0 1 5 (snd (AddCallback True True 0 2 5
     \<lparr>cblists = Map.empty, listsToCleanup = [], ccalls = [], cb_next = 0\<rparr>)))"

definition busy_callbacks :: cb_effects where
  "busy_callbacks proc data s = (if proc = 2 then snd (DeleteCallback 0 2 5 s) else snd (AddCallback True True 0 3 data s))"

theorem CallCallbacks_once_witness:
  "\<exists>s' l'. CallCallbacks busy_callbacks 0 two_callbacks = Some s' \<and> cblists s' 0 = Some l' \<and>
     list_all (\<lambda>c. \<not> cb_deleted c) (cl_list l') \<and> ccalls s' = [(1, 5), (2, 5)]"
proof -
  have e: "edits_only 0 busy_callbacks"
    using cb_op.deletes [of 0 _ 0 2 5] cb_op.adds [of 0 _ True True 0 3] by (auto simp: edits_only_def busy_callbacks_def)
  show ?thesis
    using CallCallbacks_once [OF e, of two_callbacks "the (cblists two_callbacks 0)"]
    by (simp add: two_callbacks_def AddCallback_def CreateCallbackList_def add_callback_def upd_cbl_def addrs_ok_def list_of_def)
      blast
qed

text \<open>A callback registered twice and deleted twice while the list runs is still there once: the second deletion marks the
  element the first one marked.\<close>

lemma double_delete_keeps_one:
  "\<exists>s' l'. CallCallbacks (\<lambda>proc data s. snd (DeleteCallback 0 1 5 s)) 0
       (snd (AddCallback True True 0 1 5 (snd (AddCallback True True 0 1 5
         \<lparr>cblists = Map.empty, listsToCleanup = [], ccalls = [], cb_next = 0\<rparr>)))) = Some s' \<and>
     cblists s' 0 = Some l' \<and> map (\<lambda>c. (cb_proc c, cb_data c, cb_deleted c)) (cl_list l') = [(1, 5, False)] \<and> numDeleted l' = 1"
  by (simp add: CallCallbacks_def AddCallback_def CreateCallbackList_def add_callback_def Let_def upd_cbl_def DeleteCallback_def
      delete_callback_def is_callback_def call_loop.simps cb_at_def next_cb_def first_addr_def calls_done_def)

end
