(* ===== verification/Windows.thy ===== *)
theory Windows
  imports RegionBuild Resources "HOL-Library.Monad_Syntax" "HOL-Library.Signed_Division"
begin

text \<open>
  The tree of windows (dix/window.c): the window records with their pointers to parent, siblings and children, the walks over a
  subtree, the moves in the stack of siblings and the decisions where a window goes in it.

  Windows live in a store by their identifier; a pointer is \<open>None\<close> or an identifier, and following a pointer to a window that does not exist (or
  a null pointer) gives no result, as does a loop that does not end. Coordinates are integers that are cut to 16 bits where the
  C code stores them in a short. The procedures of the screen and of the input code, which compute clip lists, paint and find the window
  under the pointer, are logged calls; a null procedure pointer is a procedure that does nothing. The pixman library and the answers of
  the screen to the question what has been marked are arguments. Xinerama is taken to be inactive.
\<close>

subsection \<open>Windows and the store\<close>

record WindowOpt =
  opt_cursor :: "nat option"
  visual :: card32
  colormap :: xid
  dontPropagateMask :: mask
  otherEventMasks :: mask
  otherClients :: "(xid \<times> mask) list"
  passiveGrabs :: "nat list"
  backingBitPlanes :: card32
  backingPixel :: card32
  boundingShape :: "RegionRec option"
  clipShape :: "RegionRec option"
  inputShape :: "RegionRec option"
  inputMasks :: "nat list"
  deviceCursors :: "nat option list"

datatype wclass = InputOutput | InputOnly

record WindowRec =
  parent :: "xid option"
  nextSib :: "xid option"
  prevSib :: "xid option"
  firstChild :: "xid option"
  lastChild :: "xid option"
  winSize :: RegionRec
  borderSize :: RegionRec
  origin_x :: int
  origin_y :: int
  draw_x :: int
  draw_y :: int
  width :: nat
  height :: nat
  win_class :: wclass
  borderWidth :: nat
  deliverableEvents :: card16
  eventMask :: mask
  optional :: "WindowOpt option"
  cursorIsNone :: bool
  winGravity :: nat
  overrideRedirect :: bool
  visibility :: nat
  mapped :: bool
  realized :: bool
  viewable :: bool
  dontPropagate :: nat
  redirectDraw :: nat

datatype stack_mode = Above | Below | TopIf | BottomIf | Opposite
datatype placement = PlaceOnTop | PlaceOnBottom
datatype VTKind = VTOther | VTStack | VTMove | VTUnmap | VTMap | VTBroken

datatype event =
    CreateNotify xid xid int int nat nat nat bool
  | DestroyNotify xid
  | UnmapNotify xid bool
  | MapNotify xid bool
  | MapRequest xid xid
  | ReparentNotify xid xid int int bool
  | ConfigureNotify xid "xid option" int int nat nat nat bool
  | ConfigureRequest xid xid "xid option" stack_mode int int nat nat nat mask
  | ResizeRequest xid nat nat
  | GravityNotify xid int int
  | CirculateNotify xid xid placement
  | CirculateRequest xid xid placement

text \<open>The calls that are logged: events delivered (with the other parent, for a window that changes its parent), events offered to a single client, procedures of the screen, calls to
  the input code, and the parts of freeing a window that belong to other components.\<close>

datatype wcall =
    DeliverEvents xid event "xid option"
  | TryClientEvents nat event
  | RestackWindow xid "xid option"
  | MarkOverlappedWindows xid "xid option"
  | MarkWindow "xid option"
  | MarkUnrealizedWindow xid xid bool
  | ValidateTree "xid option" "xid option" VTKind
  | HandleExposures "xid option"
  | PostValidateTree "xid option" "xid option" VTKind
  | ScreenRealizeWindow xid
  | ScreenUnrealizeWindow xid
  | ScreenReparentWindow xid "xid option"
  | WindowExposures xid
  | ClipNotify xid int int
  | CopyWindow xid int int
  | WindowPosition xid int int
  | WindowsRestructured
  | WindowGone xid
  | CheckCursorConfinement xid
  | DeleteWindowFromAnyEvents xid bool
  | FreeResource xid
  | RefCursor nat
  | FreeCursor nat
  | DestroyWindow xid

type_synonym store = "xid \<Rightarrow> WindowRec option"

record wstate =
  wins :: store
  scr_root :: "xid option"
  saver_on :: bool
  mem_answers :: "nat \<Rightarrow> bool"
  mem_used :: nat
  calls :: "wcall list"

record wenv =
  w_lim :: nat
  realChildHeadProc :: "(store \<Rightarrow> xid \<Rightarrow> xid option) option"
  rgn_translate :: "RegionRec \<Rightarrow> int \<Rightarrow> int \<Rightarrow> RegionRec"
  rgn_intersect :: "RegionRec \<Rightarrow> RegionRec \<Rightarrow> RegionRec"
  rgn_union :: "RegionRec \<Rightarrow> RegionRec \<Rightarrow> RegionRec"
  rgn_copy :: "RegionRec \<Rightarrow> RegionRec"
  rgn_contains_rect :: "RegionRec \<Rightarrow> BoxRec \<Rightarrow> bool"
  any_marked :: "store \<Rightarrow> xid \<Rightarrow> xid option \<Rightarrow> bool"
  layer_win :: "store \<Rightarrow> xid \<Rightarrow> xid option \<Rightarrow> xid"
  GetLayerWindow :: "store \<Rightarrow> xid \<Rightarrow> xid"
  xace_resource :: "nat \<Rightarrow> xid \<Rightarrow> mask \<Rightarrow> status"
  xace_receive :: "nat \<Rightarrow> xid \<Rightarrow> event \<Rightarrow> bool"
  try_client :: "nat \<Rightarrow> event \<Rightarrow> mask \<Rightarrow> mask \<Rightarrow> bool"
  DontPropagateMasks :: "nat \<Rightarrow> mask"

definition log :: "wcall list \<Rightarrow> wstate \<Rightarrow> wstate" where
  "log cs s = s\<lparr>calls := calls s @ cs\<rparr>"

definition setw :: "xid \<Rightarrow> (WindowRec \<Rightarrow> WindowRec) \<Rightarrow> wstate \<Rightarrow> wstate option" where
  "setw p f s = map_option (\<lambda>w. s\<lparr>wins := (wins s)(p \<mapsto> f w)\<rparr>) (wins s p)"

definition wmalloc :: "wstate \<Rightarrow> bool \<times> wstate" where
  "wmalloc s = (mem_answers s (mem_used s), s\<lparr>mem_used := mem_used s + 1\<rparr>)"

text \<open>What C stores in a short.\<close>

definition short :: "int \<Rightarrow> int" where
  "short i = signed_take_bit 15 i"

definition card16_of :: "int \<Rightarrow> nat" where
  "card16_of i = nat (i mod 65536)"

definition dixClientForWindow :: "wenv \<Rightarrow> xid \<Rightarrow> nat" where
  "dixClientForWindow e w = dixClientIdForXID (w_lim e) w"

subsection \<open>Default values of the optional record\<close>

definition wOtherEventMasks :: "WindowRec \<Rightarrow> mask" where
  "wOtherEventMasks w = (case optional w of Some opt \<Rightarrow> otherEventMasks opt | None \<Rightarrow> 0)"

definition wOtherClients :: "WindowRec \<Rightarrow> (xid \<times> mask) list" where
  "wOtherClients w = (case optional w of Some opt \<Rightarrow> otherClients opt | None \<Rightarrow> [])"

definition wDontPropagateMask :: "wenv \<Rightarrow> WindowRec \<Rightarrow> mask" where
  "wDontPropagateMask e w = (case optional w of Some opt \<Rightarrow> dontPropagateMask opt | None \<Rightarrow> DontPropagateMasks e (dontPropagate w))"

definition wBoundingShape :: "WindowRec \<Rightarrow> RegionRec option" where
  "wBoundingShape w = (case optional w of Some opt \<Rightarrow> boundingShape opt | None \<Rightarrow> None)"

definition wClipShape :: "WindowRec \<Rightarrow> RegionRec option" where
  "wClipShape w = (case optional w of Some opt \<Rightarrow> clipShape opt | None \<Rightarrow> None)"

definition StructureNotifyMask :: mask where "StructureNotifyMask = push_bit 17 1"
definition ResizeRedirectMask :: mask where "ResizeRedirectMask = push_bit 18 1"
definition SubstructureNotifyMask :: mask where "SubstructureNotifyMask = push_bit 19 1"
definition SubstructureRedirectMask :: mask where "SubstructureRedirectMask = push_bit 20 1"

definition RedirectSend :: "WindowRec \<Rightarrow> bool" where
  "RedirectSend w \<longleftrightarrow> (eventMask w OR wOtherEventMasks w) AND SubstructureRedirectMask \<noteq> 0"

definition SubSend :: "WindowRec \<Rightarrow> bool" where
  "SubSend w \<longleftrightarrow> (eventMask w OR wOtherEventMasks w) AND SubstructureNotifyMask \<noteq> 0"

definition StrSend :: "WindowRec \<Rightarrow> bool" where
  "StrSend w \<longleftrightarrow> (eventMask w OR wOtherEventMasks w) AND StructureNotifyMask \<noteq> 0"

definition SubStrSend :: "WindowRec \<Rightarrow> WindowRec \<Rightarrow> bool" where
  "SubStrSend w p \<longleftrightarrow> StrSend w \<or> SubSend p"

text \<open>Offering an event to the client that has selected it on a window; true when it counts as delivered.\<close>

definition offer_event :: "wenv \<Rightarrow> xid \<Rightarrow> event \<Rightarrow> mask \<Rightarrow> nat \<Rightarrow> mask \<Rightarrow> wstate \<Rightarrow> bool \<times> wstate" where
  "offer_event e pWin ev filt client m s =
     (if xace_receive e client pWin ev then (True, s)
      else (try_client e client ev m filt, log [TryClientEvents client ev] s))"

fun offer_others :: "wenv \<Rightarrow> xid \<Rightarrow> event \<Rightarrow> mask \<Rightarrow> nat \<Rightarrow> (xid \<times> mask) list \<Rightarrow> wstate \<Rightarrow> bool \<times> wstate" where
  "offer_others e pWin ev filt dontClient [] s = (False, s)"
| "offer_others e pWin ev filt dontClient ((r, m) # os) s =
     (if m AND filt \<noteq> 0 then
        if dixClientIdForXID (w_lim e) r = dontClient then (False, s)
        else offer_event e pWin ev filt (dixClientIdForXID (w_lim e) r) m s
      else offer_others e pWin ev filt dontClient os s)"

definition MaybeDeliverEventToClient :: "wenv \<Rightarrow> xid \<Rightarrow> event \<Rightarrow> mask \<Rightarrow> nat \<Rightarrow> wstate \<Rightarrow> (bool \<times> wstate) option" where
  "MaybeDeliverEventToClient e pWin ev filt dontClient s = do {
     w \<leftarrow> wins s pWin;
     Some (if eventMask w AND filt \<noteq> 0 then
             if dixClientForWindow e pWin = dontClient then (False, s)
             else offer_event e pWin ev filt (dixClientForWindow e pWin) (eventMask w) s
           else offer_others e pWin ev filt dontClient (wOtherClients w) s) }"

subsection \<open>Walks over a subtree\<close>

datatype walk = WT_STOPWALKING | WT_WALKCHILDREN | WT_DONTWALKCHILDREN

text \<open>Where a walk goes after a window without children: up to the first ancestor with a next sibling; \<open>None\<close> when that leads back to the top.\<close>

partial_function (option) climb :: "store \<Rightarrow> xid \<Rightarrow> xid \<Rightarrow> xid option option" where
  "climb ws pWin c = do {
     w \<leftarrow> ws c;
     if c = pWin then Some None
     else (case nextSib w of
         Some n \<Rightarrow> Some (Some n)
       | None \<Rightarrow> do { p \<leftarrow> parent w; climb ws pWin p }) }"

text \<open>The loop that all walks share: \<open>visit\<close> is what is done at a window and says whether to go on with its children. True as a result when the walk was stopped.\<close>

partial_function (option) tree_loop ::
    "(xid \<Rightarrow> wstate \<Rightarrow> (wstate \<times> walk) option) \<Rightarrow> xid \<Rightarrow> xid \<Rightarrow> wstate \<Rightarrow> (wstate \<times> bool) option" where
  "tree_loop visit pWin c s = do {
     (s1, r) \<leftarrow> visit c s;
     if r = WT_STOPWALKING then Some (s1, True)
     else do {
       w \<leftarrow> wins s1 c;
       (case (if r = WT_WALKCHILDREN then firstChild w else None) of
          Some k \<Rightarrow> tree_loop visit pWin k s1
        | None \<Rightarrow> do {
            n \<leftarrow> climb (wins s1) pWin c;
            (case n of None \<Rightarrow> Some (s1, False) | Some k \<Rightarrow> tree_loop visit pWin k s1) }) } }"

definition TraverseTree :: "(xid \<Rightarrow> wstate \<Rightarrow> (wstate \<times> walk) option) \<Rightarrow> xid option \<Rightarrow> wstate \<Rightarrow> (wstate \<times> bool) option" where
  "TraverseTree func pWin s = (case pWin of None \<Rightarrow> Some (s, False) | Some w \<Rightarrow> tree_loop func w w s)"

definition WalkTree :: "(xid \<Rightarrow> wstate \<Rightarrow> (wstate \<times> walk) option) \<Rightarrow> wstate \<Rightarrow> (wstate \<times> bool) option" where
  "WalkTree func s = TraverseTree func (scr_root s) s"

definition CompareWIDs :: "xid \<Rightarrow> xid \<Rightarrow> wstate \<Rightarrow> (wstate \<times> walk) option" where
  "CompareWIDs wid c s = Some (s, if c = wid then WT_STOPWALKING else WT_WALKCHILDREN)"

subsection \<open>Sibling lists\<close>

definition RealChildHead :: "wenv \<Rightarrow> xid \<Rightarrow> wstate \<Rightarrow> xid option option" where
  "RealChildHead e pWin s =
     (case realChildHeadProc e of
        Some proc \<Rightarrow> Some (proc (wins s) pWin)
      | None \<Rightarrow> do {
          w \<leftarrow> wins s pWin;
          Some (if parent w = None \<and> saver_on s then firstChild w else None) })"

text \<open>Taking a window out of the list of its siblings, as \<open>DeleteWindow\<close> and \<open>ReparentWindow\<close> do.\<close>

definition unlink_sib :: "xid \<Rightarrow> xid \<Rightarrow> wstate \<Rightarrow> wstate option" where
  "unlink_sib pParent pWin s = do {
     w \<leftarrow> wins s pWin;
     p \<leftarrow> wins s pParent;
     s \<leftarrow> (if firstChild p = Some pWin then setw pParent (firstChild_update (\<lambda>_. nextSib w)) s else Some s);
     s \<leftarrow> (if lastChild p = Some pWin then setw pParent (lastChild_update (\<lambda>_. prevSib w)) s else Some s);
     s \<leftarrow> (case nextSib w of Some n \<Rightarrow> setw n (prevSib_update (\<lambda>_. prevSib w)) s | None \<Rightarrow> Some s);
     (case prevSib w of Some q \<Rightarrow> setw q (nextSib_update (\<lambda>_. nextSib w)) s | None \<Rightarrow> Some s) }"

text \<open>Making a window the topmost child, or the one below the head of a saved screen, as \<open>dixCreateWindow\<close> and \<open>ReparentWindow\<close> do.\<close>

definition link_top :: "wenv \<Rightarrow> xid \<Rightarrow> xid \<Rightarrow> wstate \<Rightarrow> wstate option" where
  "link_top e pParent pWin s = do {
     pHead \<leftarrow> RealChildHead e pParent s;
     (case pHead of
        Some pPrev \<Rightarrow> do {
          h \<leftarrow> wins s pPrev;
          s \<leftarrow> setw pWin (nextSib_update (\<lambda>_. nextSib h)) s;
          s \<leftarrow> (case nextSib h of
                 Some n \<Rightarrow> setw n (prevSib_update (\<lambda>_. Some pWin)) s
               | None \<Rightarrow> setw pParent (lastChild_update (\<lambda>_. Some pWin)) s);
          s \<leftarrow> setw pPrev (nextSib_update (\<lambda>_. Some pWin)) s;
          setw pWin (prevSib_update (\<lambda>_. Some pPrev)) s }
      | None \<Rightarrow> do {
          p \<leftarrow> wins s pParent;
          s \<leftarrow> setw pWin (nextSib_update (\<lambda>_. firstChild p) \<circ> prevSib_update (\<lambda>_. None)) s;
          s \<leftarrow> (case firstChild p of
                 Some n \<Rightarrow> setw n (prevSib_update (\<lambda>_. Some pWin)) s
               | None \<Rightarrow> setw pParent (lastChild_update (\<lambda>_. Some pWin)) s);
          setw pParent (firstChild_update (\<lambda>_. Some pWin)) s }) }"

text \<open>The search for the first change when a window moves in the middle of its siblings.\<close>

partial_function (option) first_of :: "store \<Rightarrow> xid \<Rightarrow> xid option \<Rightarrow> xid option \<Rightarrow> xid option option" where
  "first_of ws a b c =
     (if c = Some a \<or> c = b then Some c
      else do { x \<leftarrow> c; w \<leftarrow> ws x; first_of ws a b (nextSib w) })"

definition move_to_bottom :: "xid \<Rightarrow> xid \<Rightarrow> wstate \<Rightarrow> (wstate \<times> xid option) option" where
  "move_to_bottom pParent pWin s = do {
     w \<leftarrow> wins s pWin;
     p \<leftarrow> wins s pParent;
     s \<leftarrow> (if firstChild p = Some pWin then setw pParent (firstChild_update (\<lambda>_. nextSib w)) s else Some s);
     n \<leftarrow> nextSib w;
     s \<leftarrow> setw n (prevSib_update (\<lambda>_. prevSib w)) s;
     s \<leftarrow> (case prevSib w of Some q \<Rightarrow> setw q (nextSib_update (\<lambda>_. nextSib w)) s | None \<Rightarrow> Some s);
     l \<leftarrow> lastChild p;
     s \<leftarrow> setw l (nextSib_update (\<lambda>_. Some pWin)) s;
     s \<leftarrow> setw pWin (prevSib_update (\<lambda>_. Some l) \<circ> nextSib_update (\<lambda>_. None)) s;
     s \<leftarrow> setw pParent (lastChild_update (\<lambda>_. Some pWin)) s;
     Some (s, Some n) }"

definition move_to_top :: "xid \<Rightarrow> xid \<Rightarrow> xid \<Rightarrow> wstate \<Rightarrow> (wstate \<times> xid option) option" where
  "move_to_top pParent pWin pNextSib s = do {
     w \<leftarrow> wins s pWin;
     p \<leftarrow> wins s pParent;
     s \<leftarrow> (if lastChild p = Some pWin then setw pParent (lastChild_update (\<lambda>_. prevSib w)) s else Some s);
     s \<leftarrow> (case nextSib w of Some n \<Rightarrow> setw n (prevSib_update (\<lambda>_. prevSib w)) s | None \<Rightarrow> Some s);
     s \<leftarrow> (case prevSib w of Some q \<Rightarrow> setw q (nextSib_update (\<lambda>_. nextSib w)) s | None \<Rightarrow> Some s);
     s \<leftarrow> setw pWin (nextSib_update (\<lambda>_. firstChild p) \<circ> prevSib_update (\<lambda>_. None)) s;
     s \<leftarrow> setw pNextSib (prevSib_update (\<lambda>_. Some pWin)) s;
     s \<leftarrow> setw pParent (firstChild_update (\<lambda>_. Some pWin)) s;
     Some (s, Some pWin) }"

definition relink_middle :: "xid \<Rightarrow> xid \<Rightarrow> xid \<Rightarrow> wstate \<Rightarrow> wstate option" where
  "relink_middle pParent pWin pNextSib s = do {
     w \<leftarrow> wins s pWin;
     p \<leftarrow> wins s pParent;
     s \<leftarrow> (if firstChild p = Some pWin then setw pParent (firstChild_update (\<lambda>_. nextSib w)) s else Some s);
     s \<leftarrow> (if lastChild p = Some pWin then setw pParent (lastChild_update (\<lambda>_. prevSib w)) s else Some s);
     s \<leftarrow> (case nextSib w of Some n \<Rightarrow> setw n (prevSib_update (\<lambda>_. prevSib w)) s | None \<Rightarrow> Some s);
     s \<leftarrow> (case prevSib w of Some q \<Rightarrow> setw q (nextSib_update (\<lambda>_. nextSib w)) s | None \<Rightarrow> Some s);
     s \<leftarrow> setw pWin (nextSib_update (\<lambda>_. Some pNextSib)) s;
     n \<leftarrow> wins s pNextSib;
     s \<leftarrow> setw pWin (prevSib_update (\<lambda>_. prevSib n)) s;
     n \<leftarrow> wins s pNextSib;
     s \<leftarrow> (case prevSib n of Some q \<Rightarrow> setw q (nextSib_update (\<lambda>_. Some pWin)) s | None \<Rightarrow> Some s);
     setw pNextSib (prevSib_update (\<lambda>_. Some pWin)) s }"

definition move_to_middle :: "xid \<Rightarrow> xid \<Rightarrow> xid \<Rightarrow> wstate \<Rightarrow> (wstate \<times> xid option) option" where
  "move_to_middle pParent pWin pNextSib s = do {
     w \<leftarrow> wins s pWin;
     p \<leftarrow> wins s pParent;
     s \<leftarrow> relink_middle pParent pWin pNextSib s;
     let known = (if lastChild p = Some pWin then Some pWin else if firstChild p = Some pWin then nextSib w else None);
     if known \<noteq> None then Some (s, known)
     else do {
       p' \<leftarrow> wins s pParent;
       c \<leftarrow> first_of (wins s) pWin (nextSib w) (firstChild p');
       Some (s, c) } }"

definition MoveWindowInStack :: "xid \<Rightarrow> xid option \<Rightarrow> wstate \<Rightarrow> (wstate \<times> xid option) option" where
  "MoveWindowInStack pWin pNextSib s = do {
     w \<leftarrow> wins s pWin;
     if nextSib w = pNextSib then Some (s, Some pWin)
     else do {
       pParent \<leftarrow> parent w;
       p \<leftarrow> wins s pParent;
       (s, pFirstChange) \<leftarrow>
         (case pNextSib of
            None \<Rightarrow> move_to_bottom pParent pWin s
          | Some n \<Rightarrow> if firstChild p = Some n then move_to_top pParent pWin n s else move_to_middle pParent pWin n s);
       Some (log [RestackWindow pWin (nextSib w)] s, pFirstChange) } }"

end
