(* ===== verification/WindowStacking.thy ===== *)
theory WindowStacking
  imports Windows
begin

text \<open>
  Sizes, positions and the place in the stack (dix/window.c): the regions of a window, the positions of its descendants, which siblings
  overlap, where a window goes in the stack, and the requests that circulate the children of a window.
\<close>

subsection \<open>Regions of a window\<close>

definition region_of :: "BoxRec \<Rightarrow> RegionRec" where
  "region_of b = \<lparr>extents = b, rgn_data = NoData\<rparr>"

text \<open>The clipped rectangle is computed with the integers of the arguments; the sides of the box are shorts.\<close>

definition ClippedRegionFromBox :: "wenv \<Rightarrow> WindowRec \<Rightarrow> int \<Rightarrow> int \<Rightarrow> int \<Rightarrow> int \<Rightarrow> RegionRec" where
  "ClippedRegionFromBox e p x y w h =
     (let b0 = extents (winSize p);
          l = (if x > x1 b0 then short x else x1 b0);
          t = (if y > y1 b0 then short y else y1 b0);
          r = (if x + w < x2 b0 then short (x + w) else x2 b0);
          b = (if y + h < y2 b0 then short (y + h) else y2 b0);
          r' = (if l > r then l else r);
          b' = (if t > b then t else b)
      in rgn_intersect e (region_of (Box l t r' b')) (winSize p))"

definition clip_to :: "wenv \<Rightarrow> RegionRec option \<Rightarrow> RegionRec \<Rightarrow> RegionRec" where
  "clip_to e shape r = (case shape of Some sh \<Rightarrow> rgn_intersect e r sh | None \<Rightarrow> r)"

definition SetWinSize :: "wenv \<Rightarrow> xid \<Rightarrow> wstate \<Rightarrow> wstate option" where
  "SetWinSize e pWin s = do {
     w \<leftarrow> wins s pWin;
     base \<leftarrow> (if redirectDraw w \<noteq> 0
       then Some (region_of (Box (draw_x w) (draw_y w) (short (draw_x w + int (width w))) (short (draw_y w + int (height w)))))
       else do {
         pid \<leftarrow> parent w;
         p \<leftarrow> wins s pid;
         Some (ClippedRegionFromBox e p (draw_x w) (draw_y w) (int (width w)) (int (height w))) });
     let r = (if wBoundingShape w \<noteq> None \<or> wClipShape w \<noteq> None
              then rgn_translate e (clip_to e (wClipShape w) (clip_to e (wBoundingShape w)
                     (rgn_translate e base (- draw_x w) (- draw_y w)))) (draw_x w) (draw_y w)
              else base);
     setw pWin (winSize_update (\<lambda>_. r)) s }"

definition HasBorder :: "WindowRec \<Rightarrow> bool" where
  "HasBorder w \<longleftrightarrow> borderWidth w \<noteq> 0 \<or> wClipShape w \<noteq> None"

definition SetBorderSize :: "wenv \<Rightarrow> xid \<Rightarrow> wstate \<Rightarrow> wstate option" where
  "SetBorderSize e pWin s = do {
     w \<leftarrow> wins s pWin;
     let bw = int (borderWidth w);
     r \<leftarrow> (if HasBorder w then do {
             base \<leftarrow> (if redirectDraw w \<noteq> 0
               then Some (region_of (Box (short (draw_x w - bw)) (short (draw_y w - bw))
                      (short (draw_x w + int (width w) + bw)) (short (draw_y w + int (height w) + bw))))
               else do {
                 pid \<leftarrow> parent w;
                 p \<leftarrow> wins s pid;
                 Some (ClippedRegionFromBox e p (draw_x w - bw) (draw_y w - bw) (int (width w) + 2 * bw) (int (height w) + 2 * bw)) });
             Some (case wBoundingShape w of
                 Some sh \<Rightarrow> rgn_union e (rgn_translate e (rgn_intersect e (rgn_translate e base (- draw_x w) (- draw_y w)) sh) (draw_x w) (draw_y w)) (winSize w)
               | None \<Rightarrow> base) }
           else Some (rgn_copy e (winSize w)));
     setw pWin (borderSize_update (\<lambda>_. r)) s }"

subsection \<open>Gravity and the positions of descendants\<close>

definition NorthWestGravity :: nat where "NorthWestGravity = 1"

text \<open>The gravities are the numbers of X.h: 2 is north, 10 static.\<close>

definition GravityTranslate :: "int \<Rightarrow> int \<Rightarrow> int \<Rightarrow> int \<Rightarrow> int \<Rightarrow> int \<Rightarrow> nat \<Rightarrow> int \<times> int" where
  "GravityTranslate x y oldx oldy dw dh gravity =
     (if gravity = 2 then (x + dw sdiv 2, y)
      else if gravity = 3 then (x + dw, y)
      else if gravity = 4 then (x, y + dh sdiv 2)
      else if gravity = 5 then (x + dw sdiv 2, y + dh sdiv 2)
      else if gravity = 6 then (x + dw, y + dh sdiv 2)
      else if gravity = 7 then (x, y + dh)
      else if gravity = 8 then (x + dw sdiv 2, y + dh)
      else if gravity = 9 then (x + dw, y + dh)
      else if gravity = 10 then (oldx, oldy)
      else (x, y))"

text \<open>Putting a window where its parent's position and its own origin say.\<close>

definition place_child :: "wenv \<Rightarrow> xid \<Rightarrow> xid \<Rightarrow> wstate \<Rightarrow> wstate option" where
  "place_child e pParent pChild s = do {
     p \<leftarrow> wins s pParent;
     s \<leftarrow> setw pChild (\<lambda>c. c\<lparr>draw_x := short (draw_x p + origin_x c), draw_y := short (draw_y p + origin_y c)\<rparr>) s;
     s \<leftarrow> SetWinSize e pChild s;
     s \<leftarrow> SetBorderSize e pChild s;
     c \<leftarrow> wins s pChild;
     Some (log [WindowPosition pChild (draw_x c) (draw_y c)] s) }"

definition place_visit :: "wenv \<Rightarrow> xid \<Rightarrow> wstate \<Rightarrow> (wstate \<times> walk) option" where
  "place_visit e pChild s = do {
     c \<leftarrow> wins s pChild;
     p \<leftarrow> parent c;
     s \<leftarrow> place_child e p pChild s;
     Some (s, WT_WALKCHILDREN) }"

definition gravity_child :: "int \<Rightarrow> int \<Rightarrow> int \<Rightarrow> int \<Rightarrow> xid \<Rightarrow> wstate \<Rightarrow> wstate option" where
  "gravity_child dx dy dw dh pSib s = do {
     c \<leftarrow> wins s pSib;
     if (dw \<noteq> 0 \<or> dh \<noteq> 0) \<and> winGravity c > NorthWestGravity then
       (let (cwsx, cwsy) = GravityTranslate (origin_x c) (origin_y c) (origin_x c - dx) (origin_y c - dy) dw dh (winGravity c)
        in if cwsx \<noteq> origin_x c \<or> cwsy \<noteq> origin_y c
           then setw pSib (\<lambda>c. c\<lparr>origin_x := short cwsx, origin_y := short cwsy\<rparr>)
                  (log [DeliverEvents pSib (GravityNotify pSib (short (cwsx - int (borderWidth c))) (short (cwsy - int (borderWidth c)))) None] s)
           else Some s)
     else Some s }"

text \<open>One child of the window: its own position, then the walk over the windows below it.\<close>

definition resize_child :: "wenv \<Rightarrow> xid \<Rightarrow> int \<Rightarrow> int \<Rightarrow> int \<Rightarrow> int \<Rightarrow> xid \<Rightarrow> wstate \<Rightarrow> wstate option" where
  "resize_child e pWin dx dy dw dh pSib s = do {
     s \<leftarrow> gravity_child dx dy dw dh pSib s;
     s \<leftarrow> place_child e pWin pSib s;
     c \<leftarrow> wins s pSib;
     (case firstChild c of
        Some k \<Rightarrow> map_option fst (tree_loop (place_visit e) pSib k s)
      | None \<Rightarrow> Some s) }"

partial_function (option) resize_loop ::
    "wenv \<Rightarrow> xid \<Rightarrow> int \<Rightarrow> int \<Rightarrow> int \<Rightarrow> int \<Rightarrow> xid option \<Rightarrow> wstate \<Rightarrow> wstate option" where
  "resize_loop e pWin dx dy dw dh sib s =
     (case sib of
        None \<Rightarrow> Some s
      | Some pSib \<Rightarrow> do {
          s \<leftarrow> resize_child e pWin dx dy dw dh pSib s;
          c \<leftarrow> wins s pSib;
          resize_loop e pWin dx dy dw dh (nextSib c) s })"

definition ResizeChildrenWinSize :: "wenv \<Rightarrow> xid \<Rightarrow> int \<Rightarrow> int \<Rightarrow> int \<Rightarrow> int \<Rightarrow> wstate \<Rightarrow> wstate option" where
  "ResizeChildrenWinSize e pWin dx dy dw dh s = do {
     w \<leftarrow> wins s pWin;
     resize_loop e pWin dx dy dw dh (firstChild w) s }"

subsection \<open>Siblings that overlap\<close>

partial_function (option) above_loop :: "store \<Rightarrow> xid \<Rightarrow> xid \<Rightarrow> xid option \<Rightarrow> bool option" where
  "above_loop ws pMe pSib c =
     (if c = None then Some False
      else if c = Some pSib then Some True
      else if c = Some pMe then Some False
      else do { x \<leftarrow> c; r \<leftarrow> ws x; above_loop ws pMe pSib (nextSib r) })"

text \<open>\<open>IsSiblingAboveMe\<close> returns \<open>Above\<close> or \<open>Below\<close>; here true stands for \<open>Above\<close>.\<close>

definition IsSiblingAboveMe :: "xid \<Rightarrow> xid \<Rightarrow> wstate \<Rightarrow> bool option" where
  "IsSiblingAboveMe pMe pSib s = do {
     w \<leftarrow> wins s pMe;
     pid \<leftarrow> parent w;
     p \<leftarrow> wins s pid;
     above_loop (wins s) pMe pSib (firstChild p) }"

definition WindowExtents :: "WindowRec \<Rightarrow> BoxRec" where
  "WindowExtents w =
     (let bw = int (borderWidth w) in
      Box (short (draw_x w - bw)) (short (draw_y w - bw))
          (short (draw_x w + int (width w) + bw)) (short (draw_y w + int (height w) + bw)))"

definition BOXES_OVERLAP :: "BoxRec \<Rightarrow> BoxRec \<Rightarrow> bool" where
  "BOXES_OVERLAP b1 b2 \<longleftrightarrow> \<not> (x2 b1 \<le> x1 b2 \<or> x1 b1 \<ge> x2 b2 \<or> y2 b1 \<le> y1 b2 \<or> y1 b1 \<ge> y2 b2)"

definition RegionNotEmpty :: "RegionRec \<Rightarrow> bool" where
  "RegionNotEmpty r \<longleftrightarrow> rgn_data r = NoData \<or> data_boxes (rgn_data r) \<noteq> []"

definition MakeBoundingRegion :: "wenv \<Rightarrow> WindowRec \<Rightarrow> BoxRec \<Rightarrow> wstate \<Rightarrow> RegionRec \<times> wstate" where
  "MakeBoundingRegion e w b s =
     (case RegionCreate (mem_answers s) (Some b) 1 (mem_used s) of (r, k) \<Rightarrow>
       (case wBoundingShape w of
          Some sh \<Rightarrow> rgn_translate e (rgn_intersect e (rgn_translate e r (- origin_x w) (- origin_y w)) sh) (origin_x w) (origin_y w)
        | None \<Rightarrow> r, s\<lparr>mem_used := k\<rparr>))"

definition ShapeOverlap :: "wenv \<Rightarrow> WindowRec \<Rightarrow> BoxRec \<Rightarrow> WindowRec \<Rightarrow> BoxRec \<Rightarrow> wstate \<Rightarrow> bool \<times> wstate" where
  "ShapeOverlap e w wbox sib sbox s =
     (if wBoundingShape w = None \<and> wBoundingShape sib = None then (True, s)
      else case MakeBoundingRegion e w wbox s of (r1, s1) \<Rightarrow>
           case MakeBoundingRegion e sib sbox s1 of (r2, s2) \<Rightarrow>
           (RegionNotEmpty (rgn_intersect e r1 r2), s2))"

text \<open>The test of one sibling, and the loops upwards and downwards. The loop upwards ends at \<open>pHead\<close>, whether it is above the window or not.\<close>

definition overlaps :: "wenv \<Rightarrow> WindowRec \<Rightarrow> BoxRec \<Rightarrow> WindowRec \<Rightarrow> wstate \<Rightarrow> bool \<times> wstate" where
  "overlaps e w b sib s =
     (if mapped sib \<and> BOXES_OVERLAP (WindowExtents sib) b then ShapeOverlap e w b sib (WindowExtents sib) s else (False, s))"

partial_function (option) up_loop :: "wenv \<Rightarrow> WindowRec \<Rightarrow> BoxRec \<Rightarrow> xid option \<Rightarrow> xid option \<Rightarrow> wstate \<Rightarrow> (bool \<times> wstate) option" where
  "up_loop e w b pHead sib s =
     (if sib = pHead then Some (False, s)
      else do {
        pSib \<leftarrow> sib;
        r \<leftarrow> wins s pSib;
        (case overlaps e w b r s of (yes, s1) \<Rightarrow>
           if yes then Some (True, s1) else up_loop e w b pHead (prevSib r) s1) })"

definition AnyWindowOverlapsMe :: "wenv \<Rightarrow> xid \<Rightarrow> xid option \<Rightarrow> BoxRec \<Rightarrow> wstate \<Rightarrow> (bool \<times> wstate) option" where
  "AnyWindowOverlapsMe e pWin pHead b s = do {
     w \<leftarrow> wins s pWin;
     up_loop e w b pHead (prevSib w) s }"

partial_function (option) down_loop :: "wenv \<Rightarrow> WindowRec \<Rightarrow> BoxRec \<Rightarrow> xid option \<Rightarrow> wstate \<Rightarrow> (bool \<times> wstate) option" where
  "down_loop e w b sib s =
     (case sib of
        None \<Rightarrow> Some (False, s)
      | Some pSib \<Rightarrow> do {
          r \<leftarrow> wins s pSib;
          (case overlaps e w b r s of (yes, s1) \<Rightarrow>
             if yes then Some (True, s1) else down_loop e w b (nextSib r) s1) })"

definition IOverlapAnyWindow :: "wenv \<Rightarrow> xid \<Rightarrow> BoxRec \<Rightarrow> wstate \<Rightarrow> (bool \<times> wstate) option" where
  "IOverlapAnyWindow e pWin b s = do {
     w \<leftarrow> wins s pWin;
     down_loop e w b (nextSib w) s }"

subsection \<open>The place in the stack\<close>

definition first_real :: "xid option \<Rightarrow> WindowRec \<Rightarrow> wstate \<Rightarrow> xid option option" where
  "first_real pHead p s = (case pHead of Some h \<Rightarrow> map_option nextSib (wins s h) | None \<Rightarrow> Some (firstChild p))"

text \<open>The window that \<open>pWin\<close> should go above; \<open>None\<close> (inside the result) for the bottom.\<close>

definition WhereDoIGoInTheStack ::
    "wenv \<Rightarrow> xid \<Rightarrow> xid option \<Rightarrow> int \<Rightarrow> int \<Rightarrow> nat \<Rightarrow> nat \<Rightarrow> stack_mode \<Rightarrow> wstate \<Rightarrow> (xid option \<times> wstate) option" where
  "WhereDoIGoInTheStack e pWin pSib x y w h smode s = do {
     me \<leftarrow> wins s pWin;
     pid \<leftarrow> parent me;
     p \<leftarrow> wins s pid;
     if firstChild p = Some pWin \<and> lastChild p = Some pWin then Some (None, s)
     else do {
       pHead \<leftarrow> RealChildHead e pid s;
       pFirst \<leftarrow> first_real pHead p s;
       let b = Box x y (short (x + int w)) (short (y + int h));
       (case smode of
          Above \<Rightarrow> Some (if pSib \<noteq> None then pSib else if pFirst = Some pWin then nextSib me else pFirst, s)
        | Below \<Rightarrow> (case pSib of
              Some sib \<Rightarrow> do { r \<leftarrow> wins s sib; Some (if nextSib r \<noteq> Some pWin then nextSib r else nextSib me, s) }
            | None \<Rightarrow> Some (None, s))
        | _ \<Rightarrow> do {
            hidden \<leftarrow> (case pSib of None \<Rightarrow> Some False | Some sib \<Rightarrow> map_option (\<lambda>r. \<not> mapped r) (wins s sib));
            if \<not> mapped me \<or> hidden then Some (nextSib me, s)
            else (case pSib of
                Some sib \<Rightarrow> do {
                  r \<leftarrow> wins s sib;
                  above \<leftarrow> IsSiblingAboveMe pWin sib s;
                  Some (if \<not> rgn_contains_rect e (borderSize r) b then nextSib me
                        else if above \<and> smode \<noteq> BottomIf then pFirst
                        else if \<not> above \<and> smode \<noteq> TopIf then None
                        else nextSib me, s) }
              | None \<Rightarrow> do {
                  (over, s1) \<leftarrow> (if smode = BottomIf then Some (False, s) else AnyWindowOverlapsMe e pWin pHead b s);
                  if over then Some (pFirst, s1)
                  else do {
                    (under, s2) \<leftarrow> (if smode = TopIf then Some (False, s1) else IOverlapAnyWindow e pWin b s1);
                    Some (if under then None else nextSib me, s2) } }) }) } }"

definition ReflectStackChange :: "wenv \<Rightarrow> xid \<Rightarrow> xid option \<Rightarrow> VTKind \<Rightarrow> wstate \<Rightarrow> wstate option" where
  "ReflectStackChange e pWin pSib kind s = do {
     w \<leftarrow> wins s pWin;
     if parent w = None then Some s
     else do {
       (s, pFirstChange) \<leftarrow> MoveWindowInStack pWin pSib s;
       s \<leftarrow> (if viewable w then do {
              let layer = layer_win e (wins s) pWin pFirstChange;
              let marked = any_marked e (wins s) pWin pFirstChange;
              let s = log [MarkOverlappedWindows pWin pFirstChange] s;
              if marked then do {
                l \<leftarrow> wins s layer;
                let fc = (if layer \<noteq> pWin then Some layer else pFirstChange);
                Some (log [ValidateTree (parent l) fc kind, HandleExposures (parent l), PostValidateTree (parent l) fc kind] s) }
              else Some s }
            else Some s);
       Some (if realized w then log [WindowsRestructured] s else s) } }"

subsection \<open>Circulating\<close>

partial_function (option) raise_loop :: "wenv \<Rightarrow> xid option \<Rightarrow> xid option \<Rightarrow> wstate \<Rightarrow> (xid option \<times> wstate) option" where
  "raise_loop e pHead c s =
     (if c = pHead then Some (c, s)
      else do {
        pWin \<leftarrow> c;
        w \<leftarrow> wins s pWin;
        (yes, s) \<leftarrow> (if mapped w then AnyWindowOverlapsMe e pWin pHead (WindowExtents w) s else Some (False, s));
        if yes then Some (Some pWin, s) else raise_loop e pHead (prevSib w) s })"

partial_function (option) lower_loop :: "wenv \<Rightarrow> xid option \<Rightarrow> wstate \<Rightarrow> (xid option \<times> wstate) option" where
  "lower_loop e c s =
     (case c of
        None \<Rightarrow> Some (None, s)
      | Some pWin \<Rightarrow> do {
          w \<leftarrow> wins s pWin;
          (yes, s) \<leftarrow> (if mapped w then IOverlapAnyWindow e pWin (WindowExtents w) s else Some (False, s));
          if yes then Some (Some pWin, s) else lower_loop e (nextSib w) s })"

definition circulate_pick :: "wenv \<Rightarrow> bool \<Rightarrow> xid option \<Rightarrow> xid option \<Rightarrow> WindowRec \<Rightarrow> wstate \<Rightarrow> (xid option \<times> wstate) option" where
  "circulate_pick e RaiseLowest pHead pFirst p s =
     (if RaiseLowest then do {
        (c, s) \<leftarrow> raise_loop e pHead (lastChild p) s;
        Some (if c = pHead then None else c, s) }
      else lower_loop e pFirst s)"

definition CirculateWindow :: "wenv \<Rightarrow> xid \<Rightarrow> bool \<Rightarrow> nat \<Rightarrow> wstate \<Rightarrow> (status \<times> wstate) option" where
  "CirculateWindow e pParent RaiseLowest client s = do {
     p \<leftarrow> wins s pParent;
     pHead \<leftarrow> RealChildHead e pParent s;
     pFirst \<leftarrow> first_real pHead p s;
     (c, s) \<leftarrow> circulate_pick e RaiseLowest pHead pFirst p s;
     (case c of
        None \<Rightarrow> Some (Success, s)
      | Some pWin \<Rightarrow> do {
          let pl = (if RaiseLowest then PlaceOnTop else PlaceOnBottom);
          (redirected, s) \<leftarrow> (if RedirectSend p
             then MaybeDeliverEventToClient e pParent (CirculateRequest pWin pParent pl) SubstructureRedirectMask client s
             else Some (False, s));
          if redirected then Some (Success, s)
          else do {
            let s = log [DeliverEvents pWin (CirculateNotify pWin pParent pl) None] s;
            s \<leftarrow> ReflectStackChange e pWin (if RaiseLowest then pFirst else None) VTStack s;
            Some (Success, s) } }) }"

end
