(* ===== verification/WindowOps.thy ===== *)
theory WindowOps
  imports WindowStacking Lookups
begin

text \<open>
  The operations on the tree of windows (dix/window.c): mapping and unmapping, changing the parent, configuring, destroying, and what happens to the save set
  of a client that goes away; and the optional records and the masks of deliverable events (dix/events.c) these keep up to date.
\<close>

subsection \<open>The optional record\<close>

text \<open>The next ancestor that has one.\<close>

partial_function (option) FindWindowWithOptional :: "store \<Rightarrow> xid \<Rightarrow> WindowOpt option" where
  "FindWindowWithOptional ws w = do {
     r \<leftarrow> ws w;
     p \<leftarrow> parent r;
     pr \<leftarrow> ws p;
     (case optional pr of Some opt \<Rightarrow> Some opt | None \<Rightarrow> FindWindowWithOptional ws p) }"

definition MakeWindowOptional :: "wenv \<Rightarrow> xid \<Rightarrow> wstate \<Rightarrow> (bool \<times> wstate) option" where
  "MakeWindowOptional e pWin s = do {
     w \<leftarrow> wins s pWin;
     if optional w \<noteq> None then Some (True, s)
     else (case wmalloc s of (ok, s) \<Rightarrow>
       if \<not> ok then Some (False, s)
       else do {
         po \<leftarrow> FindWindowWithOptional (wins s) pWin;
         let cur = (if cursorIsNone w then None else opt_cursor po);
         let opt = \<lparr>opt_cursor = cur, visual = visual po, colormap = colormap po,
                    dontPropagateMask = DontPropagateMasks e (dontPropagate w), otherEventMasks = 0, otherClients = [],
                    passiveGrabs = [], backingBitPlanes = - 1, backingPixel = 0, boundingShape = None, clipShape = None,
                    inputShape = None, inputMasks = [], deviceCursors = []\<rparr>;
         s \<leftarrow> setw pWin (optional_update (\<lambda>_. Some opt)) (case cur of Some c \<Rightarrow> log [RefCursor c] s | None \<Rightarrow> s);
         Some (True, s) }) }"

definition cursor_list :: "nat option \<Rightarrow> nat list" where
  "cursor_list c = (case c of Some n \<Rightarrow> [n] | None \<Rightarrow> [])"

definition DisposeWindowOptional :: "xid \<Rightarrow> wstate \<Rightarrow> wstate option" where
  "DisposeWindowOptional pWin s = do {
     w \<leftarrow> wins s pWin;
     (case optional w of
        None \<Rightarrow> Some s
      | Some opt \<Rightarrow> setw pWin (optional_update (\<lambda>_. None) \<circ> cursorIsNone_update (\<lambda>_. opt_cursor opt = None))
            (log (List.map FreeCursor (cursor_list (opt_cursor opt) @ concat (List.map cursor_list (deviceCursors opt)))) s)) }"

definition all_defaults :: "wenv \<Rightarrow> WindowRec \<Rightarrow> WindowOpt \<Rightarrow> bool" where
  "all_defaults e w opt \<longleftrightarrow>
     dontPropagateMask opt = DontPropagateMasks e (dontPropagate w) \<and> otherEventMasks opt = 0 \<and> otherClients opt = [] \<and>
     passiveGrabs opt = [] \<and> backingBitPlanes opt = - 1 \<and> backingPixel opt = 0 \<and> boundingShape opt = None \<and>
     clipShape opt = None \<and> inputShape opt = None \<and> inputMasks opt = [] \<and> list_all (\<lambda>c. c = None) (deviceCursors opt)"

definition CheckWindowOptionalNeed :: "wenv \<Rightarrow> xid \<Rightarrow> wstate \<Rightarrow> wstate option" where
  "CheckWindowOptionalNeed e pWin s = do {
     w \<leftarrow> wins s pWin;
     (case (parent w, optional w) of
        (Some pid, Some opt) \<Rightarrow>
          if \<not> all_defaults e w opt then Some s
          else do {
            po \<leftarrow> FindWindowWithOptional (wins s) pWin;
            p \<leftarrow> wins s pid;
            if visual opt \<noteq> visual po then Some s
            else if opt_cursor opt \<noteq> None \<and> (opt_cursor opt \<noteq> opt_cursor po \<or> cursorIsNone p) then Some s
            else if colormap opt \<noteq> colormap po then Some s
            else DisposeWindowOptional pWin s }
      | _ \<Rightarrow> Some s) }"

subsection \<open>Deliverable events\<close>

definition PropagateMask :: mask where
  "PropagateMask = 1 OR push_bit 1 1 OR push_bit 2 1 OR push_bit 3 1 OR push_bit 6 1 OR push_bit 8 1 OR push_bit 9 1 OR push_bit 10 1
     OR push_bit 11 1 OR push_bit 12 1 OR push_bit 13 1"

definition deliver_visit :: "wenv \<Rightarrow> xid \<Rightarrow> wstate \<Rightarrow> (wstate \<times> walk) option" where
  "deliver_visit e pChild s = do {
     s \<leftarrow> setw pChild (\<lambda>c. c\<lparr>optional := map_option (\<lambda>opt. opt\<lparr>otherEventMasks := foldl (OR) 0 (List.map snd (otherClients opt))\<rparr>) (optional c)\<rparr>) s;
     c \<leftarrow> wins s pChild;
     inherited \<leftarrow> (case parent c of
         None \<Rightarrow> Some 0
       | Some pid \<Rightarrow> map_option (\<lambda>p. ucast (deliverableEvents p) AND NOT (wDontPropagateMask e c) AND PropagateMask) (wins s pid));
     s \<leftarrow> setw pChild (deliverableEvents_update (\<lambda>_. ucast (eventMask c OR wOtherEventMasks c) OR ucast inherited)) s;
     Some (s, WT_WALKCHILDREN) }"

definition RecalculateDeliverableEvents :: "wenv \<Rightarrow> xid \<Rightarrow> wstate \<Rightarrow> wstate option" where
  "RecalculateDeliverableEvents e pWin s = map_option fst (tree_loop (deliver_visit e) pWin pWin s)"

subsection \<open>Mapping\<close>

definition realize_visit :: "xid \<Rightarrow> wstate \<Rightarrow> (wstate \<times> walk) option" where
  "realize_visit pChild s = do {
     c \<leftarrow> wins s pChild;
     if mapped c then do {
       s \<leftarrow> setw pChild (\<lambda>c. c\<lparr>realized := True, viewable := (win_class c = InputOutput)\<rparr>) s;
       Some (log [ScreenRealizeWindow pChild] s, WT_WALKCHILDREN) }
     else Some (s, WT_DONTWALKCHILDREN) }"

definition RealizeTree :: "xid \<Rightarrow> wstate \<Rightarrow> wstate option" where
  "RealizeTree pWin s = map_option fst (tree_loop realize_visit pWin pWin s)"

definition MaybeDeliverMapRequest :: "wenv \<Rightarrow> xid \<Rightarrow> xid \<Rightarrow> nat \<Rightarrow> wstate \<Rightarrow> (bool \<times> wstate) option" where
  "MaybeDeliverMapRequest e pWin pParent client s =
     MaybeDeliverEventToClient e pParent (MapRequest pWin pParent) SubstructureRedirectMask client s"

definition DeliverMapNotify :: "xid \<Rightarrow> WindowRec \<Rightarrow> wstate \<Rightarrow> wstate" where
  "DeliverMapNotify pWin w s = log [DeliverEvents pWin (MapNotify pWin (overrideRedirect w)) None] s"

text \<open>The clip lists are recomputed from the marked windows on.\<close>

definition validate :: "wenv \<Rightarrow> xid \<Rightarrow> xid option \<Rightarrow> VTKind \<Rightarrow> wstate \<Rightarrow> wstate option" where
  "validate e layer first kind s = do {
     l \<leftarrow> wins s layer;
     Some (log [ValidateTree (parent l) first kind, HandleExposures (parent l), PostValidateTree (parent l) first kind] s) }"

definition DixShowAccess :: mask where "DixShowAccess = push_bit 15 1"

definition MapWindow :: "wenv \<Rightarrow> xid \<Rightarrow> nat \<Rightarrow> wstate \<Rightarrow> (status \<times> wstate) option" where
  "MapWindow e pWin client s = do {
     w \<leftarrow> wins s pWin;
     if mapped w then Some (Success, s)
     else if xace_resource e client pWin DixShowAccess \<noteq> Success then Some (Success, s)
     else (case parent w of
        Some pParent \<Rightarrow> do {
          p \<leftarrow> wins s pParent;
          (redirected, s) \<leftarrow> (if \<not> overrideRedirect w \<and> RedirectSend p then MaybeDeliverMapRequest e pWin pParent client s else Some (False, s));
          if redirected then Some (Success, s)
          else do {
            s \<leftarrow> setw pWin (mapped_update (\<lambda>_. True)) s;
            let s = (if SubStrSend w p then DeliverMapNotify pWin w s else s);
            if \<not> realized p then Some (Success, s)
            else do {
              s \<leftarrow> RealizeTree pWin s;
              w' \<leftarrow> wins s pWin;
              s \<leftarrow> (if viewable w' then do {
                     let marked = any_marked e (wins s) pWin (Some pWin);
                     let layer = layer_win e (wins s) pWin (Some pWin);
                     let s = log [MarkOverlappedWindows pWin (Some pWin)] s;
                     if marked then validate e layer (Some layer) VTMap s else Some s }
                   else Some s);
              Some (Success, log [WindowsRestructured] s) } } }
      | None \<Rightarrow> do {
          s \<leftarrow> setw pWin (\<lambda>w. w\<lparr>mapped := True, realized := True, viewable := (win_class w = InputOutput)\<rparr>) s;
          Some (Success, log [ScreenRealizeWindow pWin, ClipNotify pWin 0 0, PostValidateTree None (Some pWin) VTMap, WindowExposures pWin] s) }) }"

text \<open>One child in \<open>MapSubwindows\<close>: whether it has been mapped, and whether something has been marked.\<close>

definition map_child :: "wenv \<Rightarrow> xid \<Rightarrow> bool \<Rightarrow> bool \<Rightarrow> nat \<Rightarrow> xid \<Rightarrow> wstate \<Rightarrow> (bool \<times> bool \<times> wstate) option" where
  "map_child e pParent parentRedirect parentNotify client pWin s = do {
     w \<leftarrow> wins s pWin;
     if mapped w then Some (False, False, s)
     else do {
       (redirected, s) \<leftarrow> (if parentRedirect \<and> \<not> overrideRedirect w then MaybeDeliverMapRequest e pWin pParent client s else Some (False, s));
       if redirected then Some (False, False, s)
       else do {
         s \<leftarrow> setw pWin (mapped_update (\<lambda>_. True)) s;
         let s = (if parentNotify \<or> StrSend w then DeliverMapNotify pWin w s else s);
         p \<leftarrow> wins s pParent;
         if realized p then do {
           s \<leftarrow> RealizeTree pWin s;
           w' \<leftarrow> wins s pWin;
           Some (if viewable w' then (True, any_marked e (wins s) pWin (Some pWin), log [MarkOverlappedWindows pWin (Some pWin)] s)
                 else (True, False, s)) }
         else Some (True, False, s) } } }"

partial_function (option) map_loop ::
    "wenv \<Rightarrow> xid \<Rightarrow> bool \<Rightarrow> bool \<Rightarrow> nat \<Rightarrow> xid option \<Rightarrow> xid option \<Rightarrow> bool \<Rightarrow> wstate \<Rightarrow> (xid option \<times> bool \<times> wstate) option" where
  "map_loop e pParent pr pn client c firstMapped marked s =
     (case c of
        None \<Rightarrow> Some (firstMapped, marked, s)
      | Some pWin \<Rightarrow> do {
          (did, m, s) \<leftarrow> map_child e pParent pr pn client pWin s;
          w \<leftarrow> wins s pWin;
          map_loop e pParent pr pn client (nextSib w) (if did \<and> firstMapped = None then Some pWin else firstMapped) (marked \<or> m) s })"

definition MapSubwindows :: "wenv \<Rightarrow> xid \<Rightarrow> nat \<Rightarrow> wstate \<Rightarrow> wstate option" where
  "MapSubwindows e pParent client s = do {
     p \<leftarrow> wins s pParent;
     (pFirstMapped, marked, s) \<leftarrow> map_loop e pParent (RedirectSend p) (SubSend p) client (firstChild p) None False s;
     if pFirstMapped = None then Some s
     else do {
       let layer = GetLayerWindow e (wins s) pParent;
       l \<leftarrow> wins s layer;
       (pFirst, marked, s) \<leftarrow> Some (if parent l \<noteq> Some pParent
            then (Some layer, marked \<or> any_marked e (wins s) layer (Some layer), log [MarkOverlappedWindows layer (Some layer)] s)
            else (pFirstMapped, marked, s));
       s \<leftarrow> (if marked then validate e layer pFirst VTMap s else Some s);
       Some (log [WindowsRestructured] s) } }"

subsection \<open>Unmapping\<close>

definition VisibilityNotViewable :: nat where "VisibilityNotViewable = 3"

definition dixScreenRaiseUnrealizeWindow :: "xid \<Rightarrow> wstate \<Rightarrow> wstate option" where
  "dixScreenRaiseUnrealizeWindow pWin s =
     map_option (log [ScreenUnrealizeWindow pWin]) (setw pWin (realized_update (\<lambda>_. False)) s)"

definition unrealize_visit :: "xid \<Rightarrow> bool \<Rightarrow> xid \<Rightarrow> wstate \<Rightarrow> (wstate \<times> walk) option" where
  "unrealize_visit pWin fromConfigure pChild s = do {
     c \<leftarrow> wins s pChild;
     if realized c then do {
       s \<leftarrow> setw pChild (visibility_update (\<lambda>_. VisibilityNotViewable)) s;
       s \<leftarrow> dixScreenRaiseUnrealizeWindow pChild s;
       let s = log [DeleteWindowFromAnyEvents pChild False] s;
       s \<leftarrow> (if viewable c
             then map_option (log [MarkUnrealizedWindow pChild pWin fromConfigure]) (setw pChild (viewable_update (\<lambda>_. False)) s)
             else Some s);
       Some (s, WT_WALKCHILDREN) }
     else Some (s, WT_DONTWALKCHILDREN) }"

definition UnrealizeTree :: "xid \<Rightarrow> bool \<Rightarrow> wstate \<Rightarrow> wstate option" where
  "UnrealizeTree pWin fromConfigure s = map_option fst (tree_loop (unrealize_visit pWin fromConfigure) pWin pWin s)"

definition DeliverUnmapNotify :: "xid \<Rightarrow> bool \<Rightarrow> wstate \<Rightarrow> wstate" where
  "DeliverUnmapNotify pWin fromConfigure s = log [DeliverEvents pWin (UnmapNotify pWin fromConfigure) None] s"

definition UnmapWindow :: "wenv \<Rightarrow> xid \<Rightarrow> bool \<Rightarrow> wstate \<Rightarrow> wstate option" where
  "UnmapWindow e pWin fromConfigure s = do {
     w \<leftarrow> wins s pWin;
     (case (mapped w, parent w) of
        (True, Some pParent) \<Rightarrow> do {
          p \<leftarrow> wins s pParent;
          let s = (if SubStrSend w p then DeliverUnmapNotify pWin fromConfigure s else s);
          let shown = (viewable w \<and> \<not> fromConfigure);
          let layer = (if shown then layer_win e (wins s) pWin (nextSib w) else pWin);
          s \<leftarrow> (if shown then do {
                 l \<leftarrow> wins s layer;
                 Some (log [MarkOverlappedWindows pWin (nextSib w), MarkWindow (parent l)] s) }
               else Some s);
          s \<leftarrow> setw pWin (mapped_update (\<lambda>_. False)) s;
          s \<leftarrow> (if realized w then UnrealizeTree pWin fromConfigure s else Some s);
          s \<leftarrow> (if shown then validate e layer (Some pWin) VTUnmap s else Some s);
          Some (if realized w \<and> \<not> fromConfigure then log [WindowsRestructured, WindowGone pWin] s else s) }
      | _ \<Rightarrow> Some s) }"

definition unmap_child :: "bool \<Rightarrow> xid \<Rightarrow> wstate \<Rightarrow> (bool \<times> wstate) option" where
  "unmap_child parentNotify pChild s = do {
     c \<leftarrow> wins s pChild;
     if mapped c then do {
       let s = (if parentNotify \<or> StrSend c then DeliverUnmapNotify pChild False s else s);
       s \<leftarrow> setw pChild (mapped_update (\<lambda>_. False)) s;
       s \<leftarrow> (if realized c then UnrealizeTree pChild False s else Some s);
       Some (viewable c, s) }
     else Some (False, s) }"

partial_function (option) unmap_loop :: "bool \<Rightarrow> xid option \<Rightarrow> xid option \<Rightarrow> bool \<Rightarrow> wstate \<Rightarrow> (bool \<times> wstate) option" where
  "unmap_loop pn pHead c marked s =
     (if c = pHead then Some (marked, s)
      else do {
        pChild \<leftarrow> c;
        (m, s) \<leftarrow> unmap_child pn pChild s;
        w \<leftarrow> wins s pChild;
        unmap_loop pn pHead (prevSib w) (marked \<or> m) s })"

text \<open>Marking the windows from one up to an ancestor.\<close>

partial_function (option) mark_up :: "xid option \<Rightarrow> xid option \<Rightarrow> wstate \<Rightarrow> wstate option" where
  "mark_up stop c s =
     (if c = stop then Some s
      else do {
        x \<leftarrow> c;
        w \<leftarrow> wins s x;
        mark_up stop (parent w) (log [MarkWindow (Some x)] s) })"

definition UnmapSubwindows :: "wenv \<Rightarrow> xid \<Rightarrow> wstate \<Rightarrow> wstate option" where
  "UnmapSubwindows e pWin s = do {
     w \<leftarrow> wins s pWin;
     if firstChild w = None then Some s
     else do {
       pHead \<leftarrow> RealChildHead e pWin s;
       let layer = GetLayerWindow e (wins s) pWin;
       (marked, s) \<leftarrow> unmap_loop (SubSend w) pHead (lastChild w) False s;
       s \<leftarrow> (if viewable w \<and> marked then do {
              l \<leftarrow> wins s layer;
              if parent l = Some pWin then validate e layer pHead VTUnmap (log [MarkWindow (Some pWin)] s)
              else do {
                s \<leftarrow> mark_up (parent l) (Some pWin) (log [MarkOverlappedWindows pWin (Some layer), MarkWindow (parent l)] s);
                validate e layer (firstChild w) VTUnmap s } }
            else Some s);
       Some (if realized w then log [WindowsRestructured, WindowGone pWin] s else s) } }"

end
