(* ===== verification/WindowRequests.thy ===== *)
theory WindowRequests
  imports WindowOps
begin

text \<open>
  Operations that change the shape of the tree of windows (dix/window.c): freeing a subtree, deleting a window, changing the parent, the save set of a client that
  goes away, and configuring a window, with the procedure of mi/miwindow.c that moves a window.
\<close>

subsection \<open>Destroying\<close>

definition FreeWindowResources :: "xid \<Rightarrow> wstate \<Rightarrow> wstate option" where
  "FreeWindowResources pWin s = DisposeWindowOptional pWin (log [DeleteWindowFromAnyEvents pWin True, DestroyWindow pWin] s)"

definition free_window :: "xid \<Rightarrow> wstate \<Rightarrow> wstate option" where
  "free_window pWin s = map_option (\<lambda>_. s\<lparr>wins := (wins s)(pWin := None)\<rparr>) (wins s pWin)"

partial_function (option) leaf :: "store \<Rightarrow> xid \<Rightarrow> xid option" where
  "leaf ws c = do { w \<leftarrow> ws c; (case firstChild w of Some k \<Rightarrow> leaf ws k | None \<Rightarrow> Some c) }"

text \<open>One window of the subtree goes; its next sibling and its parent are what the loop goes on with.\<close>

definition crush_window :: "xid \<Rightarrow> wstate \<Rightarrow> (xid option \<times> xid \<times> wstate) option" where
  "crush_window pChild s = do {
     c \<leftarrow> wins s pChild;
     pParent \<leftarrow> parent c;
     p \<leftarrow> wins s pParent;
     let s = (if SubStrSend c p then log [DeliverEvents pChild (DestroyNotify pChild) None] s else s);
     s \<leftarrow> setw pChild (viewable_update (\<lambda>_. False)) (log [FreeResource pChild] s);
     s \<leftarrow> (if realized c then dixScreenRaiseUnrealizeWindow pChild s else Some s);
     s \<leftarrow> FreeWindowResources pChild s;
     s \<leftarrow> free_window pChild s;
     Some (nextSib c, pParent, s) }"

partial_function (option) crush_loop :: "xid \<Rightarrow> xid \<Rightarrow> wstate \<Rightarrow> wstate option" where
  "crush_loop pWin pChild s = do {
     (pSib, pParent, s) \<leftarrow> crush_window pChild s;
     (case pSib of
        Some n \<Rightarrow> do { l \<leftarrow> leaf (wins s) n; crush_loop pWin l s }
      | None \<Rightarrow> do {
          s \<leftarrow> setw pParent (firstChild_update (\<lambda>_. None) \<circ> lastChild_update (\<lambda>_. None)) s;
          if pParent = pWin then Some s else crush_loop pWin pParent s }) }"

definition CrushTree :: "xid \<Rightarrow> wstate \<Rightarrow> wstate option" where
  "CrushTree pWin s = do {
     w \<leftarrow> wins s pWin;
     (case firstChild w of
        None \<Rightarrow> Some s
      | Some k \<Rightarrow> do { l \<leftarrow> leaf (wins s) k; crush_loop pWin l s }) }"

text \<open>\<open>wid\<close> tells whether a destroy event is sent.\<close>

definition DeleteWindow :: "wenv \<Rightarrow> xid \<Rightarrow> bool \<Rightarrow> wstate \<Rightarrow> wstate option" where
  "DeleteWindow e pWin wid s = do {
     s \<leftarrow> UnmapWindow e pWin False s;
     s \<leftarrow> CrushTree pWin s;
     w \<leftarrow> wins s pWin;
     s \<leftarrow> (case parent w of
         Some pParent \<Rightarrow> map_option (\<lambda>p. if wid \<and> SubStrSend w p then log [DeliverEvents pWin (DestroyNotify pWin) None] s else s) (wins s pParent)
       | None \<Rightarrow> Some s);
     s \<leftarrow> FreeWindowResources pWin s;
     s \<leftarrow> (case parent w of
         Some pParent \<Rightarrow> unlink_sib pParent pWin s
       | None \<Rightarrow> Some (s\<lparr>scr_root := None\<rparr>));
     free_window pWin s }"

text \<open>The resource of a child is freed, which deletes the window.\<close>

partial_function (option) destroy_children :: "wenv \<Rightarrow> xid \<Rightarrow> nat \<Rightarrow> wstate \<Rightarrow> (status \<times> wstate) option" where
  "destroy_children e pWin client s = do {
     w \<leftarrow> wins s pWin;
     if lastChild w = None then Some (Success, s)
     else do {
       c \<leftarrow> lastChild w;
       if xace_resource e client c DixDestroyAccess \<noteq> Success then Some (xace_resource e client c DixDestroyAccess, s)
       else do {
         s \<leftarrow> DeleteWindow e c True (log [FreeResource c] s);
         destroy_children e pWin client s } } }"

definition DestroySubwindows :: "wenv \<Rightarrow> xid \<Rightarrow> nat \<Rightarrow> wstate \<Rightarrow> (status \<times> wstate) option" where
  "DestroySubwindows e pWin client s = do {
     s \<leftarrow> UnmapSubwindows e pWin s;
     destroy_children e pWin client s }"

subsection \<open>Changing the parent\<close>

definition ReparentWindow :: "wenv \<Rightarrow> xid \<Rightarrow> xid \<Rightarrow> int \<Rightarrow> int \<Rightarrow> nat \<Rightarrow> wstate \<Rightarrow> (status \<times> wstate) option" where
  "ReparentWindow e pWin pParent x y client s = do {
     w \<leftarrow> wins s pWin;
     let bw = int (borderWidth w);
     (s, inside) \<leftarrow> TraverseTree (CompareWIDs pParent) (Some pWin) s;
     if inside then Some (BadMatch, s)
     else do {
       (ok, s) \<leftarrow> MakeWindowOptional e pWin s;
       if \<not> ok then Some (BadAlloc, s)
       else do {
         s \<leftarrow> (if mapped w then UnmapWindow e pWin False s else Some s);
         let s = log [DeliverEvents pWin (ReparentNotify pWin pParent (short x) (short y) (overrideRedirect w)) (Some pParent)] s;
         w1 \<leftarrow> wins s pWin;
         pPrior \<leftarrow> parent w1;
         s \<leftarrow> unlink_sib pPrior pWin s;
         s \<leftarrow> setw pWin (parent_update (\<lambda>_. Some pParent)) s;
         s \<leftarrow> link_top e pParent pWin s;
         p \<leftarrow> wins s pParent;
         s \<leftarrow> setw pWin (\<lambda>w. w\<lparr>origin_x := short (x + bw), origin_y := short (y + bw),
                            draw_x := short (x + bw + draw_x p), draw_y := short (y + bw + draw_y p)\<rparr>) s;
         s \<leftarrow> SetWinSize e pWin s;
         s \<leftarrow> SetBorderSize e pWin s;
         w2 \<leftarrow> wins s pWin;
         let s = log [ScreenReparentWindow pWin (Some pPrior), WindowPosition pWin (draw_x w2) (draw_y w2)] s;
         s \<leftarrow> ResizeChildrenWinSize e pWin 0 0 0 0 s;
         s \<leftarrow> CheckWindowOptionalNeed e pWin s;
         s \<leftarrow> (if mapped w then map_option snd (MapWindow e pWin client s) else Some s);
         s \<leftarrow> RecalculateDeliverableEvents e pWin s;
         Some (Success, s) } } }"

subsection \<open>The save set of a client that goes away\<close>

partial_function (option) foreign_ancestor :: "wenv \<Rightarrow> nat \<Rightarrow> store \<Rightarrow> xid option \<Rightarrow> xid option option" where
  "foreign_ancestor e client ws c =
     (if c = None then Some None
      else do {
        p \<leftarrow> c;
        if dixClientForWindow e p = client then do { r \<leftarrow> ws p; foreign_ancestor e client ws (parent r) } else Some (Some p) })"

definition save_window :: "wenv \<Rightarrow> nat \<Rightarrow> SaveSetElt \<Rightarrow> wstate \<Rightarrow> wstate option" where
  "save_window e client elt s = do {
     let pWin = ss_window elt;
     w \<leftarrow> wins s pWin;
     target \<leftarrow> (if ss_toRoot elt then Some (scr_root s) else foreign_ancestor e client (wins s) (parent w));
     (case target of
        None \<Rightarrow> Some s
      | Some pParent \<Rightarrow> do {
          s \<leftarrow> (if Some pParent \<noteq> parent w then do {
                 s \<leftarrow> (if \<not> ss_map elt then UnmapWindow e pWin False s else Some s);
                 w1 \<leftarrow> wins s pWin;
                 p \<leftarrow> wins s pParent;
                 (rc, s) \<leftarrow> ReparentWindow e pWin pParent (draw_x w1 - int (borderWidth w1) - draw_x p)
                              (draw_y w1 - int (borderWidth w1) - draw_y p) client s;
                 w2 \<leftarrow> wins s pWin;
                 if \<not> realized w2 \<and> mapped w2 then setw pWin (mapped_update (\<lambda>_. False)) s else Some s }
               else Some s);
          if ss_map elt then map_option snd (MapWindow e pWin client s) else Some s }) }"

text \<open>All windows of the save set, in order; the set itself is freed afterwards.\<close>

primrec HandleSaveSet :: "wenv \<Rightarrow> nat \<Rightarrow> SaveSetElt list \<Rightarrow> wstate \<Rightarrow> wstate option" where
  "HandleSaveSet e client [] s = Some s"
| "HandleSaveSet e client (elt # elts) s = do { s \<leftarrow> save_window e client elt s; HandleSaveSet e client elts s }"

subsection \<open>Configuring\<close>

definition miMoveWindow :: "wenv \<Rightarrow> xid \<Rightarrow> int \<Rightarrow> int \<Rightarrow> xid option \<Rightarrow> VTKind \<Rightarrow> wstate \<Rightarrow> wstate option" where
  "miMoveWindow e pWin x y pNextSib kind s = do {
     w \<leftarrow> wins s pWin;
     (case parent w of
        None \<Rightarrow> Some s
      | Some pParent \<Rightarrow> do {
          p \<leftarrow> wins s pParent;
          let bw = short (int (borderWidth w));
          let marked1 = (viewable w \<and> any_marked e (wins s) pWin (Some pWin));
          let layer = layer_win e (wins s) pWin (Some pWin);
          let s = (if viewable w then log [MarkOverlappedWindows pWin (Some pWin)] s else s);
          let nx = short (draw_x p + x + bw);
          let ny = short (draw_y p + y + bw);
          s \<leftarrow> setw pWin (\<lambda>w. w\<lparr>origin_x := short (x + bw), origin_y := short (y + bw), draw_x := nx, draw_y := ny\<rparr>) s;
          s \<leftarrow> SetWinSize e pWin s;
          s \<leftarrow> SetBorderSize e pWin s;
          (s, fc) \<leftarrow> MoveWindowInStack pWin pNextSib (log [WindowPosition pWin nx ny] s);
          s \<leftarrow> ResizeChildrenWinSize e pWin (nx - draw_x w) (ny - draw_y w) 0 0 s;
          s \<leftarrow> (if viewable w then do {
                 let from = (if layer = pWin then fc else Some layer);
                 let marked = (marked1 \<or> any_marked e (wins s) pWin from);
                 let s = log [MarkOverlappedWindows pWin from] s;
                 if marked then do {
                   l \<leftarrow> wins s layer;
                   Some (log [ValidateTree (parent l) None kind, CopyWindow pWin (draw_x w) (draw_y w), HandleExposures (parent l),
                              PostValidateTree (parent l) None kind] s) }
                 else Some s }
               else Some s);
          Some (if realized w then log [WindowsRestructured] s else s) }) }"

record wscreen =
  ConfigNotify :: "xid \<Rightarrow> int \<Rightarrow> int \<Rightarrow> nat \<Rightarrow> nat \<Rightarrow> nat \<Rightarrow> xid option \<Rightarrow> status"
  MoveWindow :: "xid \<Rightarrow> int \<Rightarrow> int \<Rightarrow> xid option \<Rightarrow> VTKind \<Rightarrow> wstate \<Rightarrow> wstate option"
  ResizeWindow :: "xid \<Rightarrow> int \<Rightarrow> int \<Rightarrow> nat \<Rightarrow> nat \<Rightarrow> xid option \<Rightarrow> wstate \<Rightarrow> wstate option"
  ChangeBorderWidth :: "xid \<Rightarrow> nat \<Rightarrow> wstate \<Rightarrow> wstate option"

datatype action = RESTACK_WIN | MOVE_WIN | RESIZE_WIN | REBORDER_WIN

definition CWX :: mask where "CWX = 1"
definition CWY :: mask where "CWY = 2"
definition CWWidth :: mask where "CWWidth = 4"
definition CWHeight :: mask where "CWHeight = 8"
definition CWBorderWidth :: mask where "CWBorderWidth = 16"
definition CWSibling :: mask where "CWSibling = 32"
definition CWStackMode :: mask where "CWStackMode = 64"

text \<open>The next value of the list when its bit is set.\<close>

definition get_value :: "mask \<Rightarrow> mask \<Rightarrow> 'a \<Rightarrow> (32 word \<Rightarrow> 'a) \<Rightarrow> 32 word list \<Rightarrow> ('a \<times> 32 word list) option" where
  "get_value m b d f vs =
     (if m AND b \<noteq> 0 then (case vs of v # vs' \<Rightarrow> Some (f v, vs') | [] \<Rightarrow> None) else Some (d, vs))"

definition int16_of :: "32 word \<Rightarrow> int" where
  "int16_of v = sint (ucast v :: 16 word)"

definition card16_val :: "32 word \<Rightarrow> nat" where
  "card16_val v = unat (ucast v :: 16 word)"

definition stack_mode_of :: "32 word \<Rightarrow> stack_mode option" where
  "stack_mode_of v =
     (let n = unat (ucast v :: 8 word) in
      if n = 0 then Some Above else if n = 1 then Some Below else if n = 2 then Some TopIf
      else if n = 3 then Some BottomIf else if n = 4 then Some Opposite else None)"

text \<open>The sibling and the stack mode: an error with its error value, or the values.\<close>

definition get_sibling :: "wenv \<Rightarrow> nat \<Rightarrow> xid \<Rightarrow> WindowRec \<Rightarrow> xid \<Rightarrow> wstate \<Rightarrow> (status \<times> 32 word option) option" where
  "get_sibling e client pWin w sibwid s =
     (case wins s sibwid of
        None \<Rightarrow> Some (BadWindow, Some sibwid)
      | Some r \<Rightarrow>
          if xace_resource e client sibwid DixGetAttrAccess \<noteq> Success then Some (xace_resource e client sibwid DixGetAttrAccess, Some sibwid)
          else if parent r \<noteq> parent w then Some (BadMatch, None)
          else if sibwid = pWin then Some (BadMatch, None)
          else None)"

record config =
  cf_x :: int
  cf_y :: int
  cf_w :: nat
  cf_h :: nat
  cf_bw :: nat
  cf_sib :: "xid option"
  cf_mode :: stack_mode
  cf_action :: action

text \<open>Reading the request: the errors in the order of the code, or the new configuration.\<close>

definition read_config ::
    "wenv \<Rightarrow> nat \<Rightarrow> xid \<Rightarrow> WindowRec \<Rightarrow> int \<Rightarrow> int \<Rightarrow> mask \<Rightarrow> 32 word list \<Rightarrow> wstate \<Rightarrow> ((status \<times> 32 word option) + config) option" where
  "read_config e client pWin w bx by m vlist s =
     (if win_class w = InputOnly \<and> m AND CWBorderWidth \<noteq> 0 then Some (Inl (BadMatch, None))
      else if m AND CWSibling \<noteq> 0 \<and> m AND CWStackMode = 0 then Some (Inl (BadMatch, None))
      else do {
        (x, vs) \<leftarrow> get_value m CWX bx int16_of vlist;
        (y, vs) \<leftarrow> get_value m CWY by int16_of vs;
        (wd, vs) \<leftarrow> get_value m CWWidth (width w) card16_val vs;
        (ht, vs) \<leftarrow> get_value m CWHeight (height w) card16_val vs;
        let resize = (m AND (CWWidth OR CWHeight) \<noteq> 0);
        let act = (if resize then RESIZE_WIN else if m AND (CWX OR CWY) \<noteq> 0 then MOVE_WIN else RESTACK_WIN);
        if resize \<and> (wd = 0 \<or> ht = 0) then Some (Inl (BadValue, Some 0))
        else do {
          (bw, vs) \<leftarrow> get_value m CWBorderWidth (borderWidth w) card16_val vs;
          (sib, vs) \<leftarrow> get_value m CWSibling None Some vs;
          (case (case sib of Some sw \<Rightarrow> get_sibling e client pWin w sw s | None \<Rightarrow> None) of
             Some err \<Rightarrow> Some (Inl err)
           | None \<Rightarrow> do {
               (v, vs) \<leftarrow> get_value m CWStackMode 0 id vs;
               (case stack_mode_of v of
                  None \<Rightarrow> Some (Inl (BadValue, Some (ucast (ucast v :: 8 word))))
                | Some sm \<Rightarrow>
                    if m AND NOT 127 \<noteq> 0 then Some (Inl (BadValue, Some m))
                    else Some (Inr \<lparr>cf_x = x, cf_y = y, cf_w = wd, cf_h = ht, cf_bw = bw, cf_sib = sib, cf_mode = sm, cf_action = act\<rparr>)) }) } })"

text \<open>What is left to do once the decisions are made: \<open>sib\<close> is the window to go above.\<close>

definition apply_config :: "wenv \<Rightarrow> wscreen \<Rightarrow> xid \<Rightarrow> xid \<Rightarrow> mask \<Rightarrow> int \<Rightarrow> int \<Rightarrow> config \<Rightarrow> xid option \<Rightarrow> wstate \<Rightarrow> (status \<times> 32 word option \<times> wstate) option" where
  "apply_config e scr pWin pParent m bx by cf sib s = do {
     w \<leftarrow> wins s pWin;
     p \<leftarrow> wins s pParent;
     let ret = ConfigNotify scr pWin (cf_x cf) (cf_y cf) (cf_w cf) (cf_h cf) (cf_bw cf) sib;
     if ret \<noteq> Success then Some (ret, Some 0, s)
     else do {
       let s = (if SubStrSend w p
                then log [DeliverEvents pWin (ConfigureNotify pWin sib (cf_x cf) (cf_y cf) (cf_w cf) (cf_h cf) (cf_bw cf) (overrideRedirect w)) None] s
                else s);
       (act, s) \<leftarrow> (if m AND CWBorderWidth = 0 then Some (cf_action cf, s)
          else if cf_action cf = RESTACK_WIN then map_option (Pair MOVE_WIN) (setw pWin (borderWidth_update (\<lambda>_. cf_bw cf)) s)
          else if cf_action cf = MOVE_WIN \<and> bx + int (borderWidth w) = cf_x cf + int (cf_bw cf) \<and> by + int (borderWidth w) = cf_y cf + int (cf_bw cf)
          then map_option (Pair REBORDER_WIN) (ChangeBorderWidth scr pWin (cf_bw cf) s)
          else map_option (Pair (cf_action cf)) (setw pWin (borderWidth_update (\<lambda>_. cf_bw cf)) s));
       s \<leftarrow> (if act = MOVE_WIN then MoveWindow scr pWin (cf_x cf) (cf_y cf) sib (if m AND CWBorderWidth \<noteq> 0 then VTOther else VTMove) s
            else if act = RESIZE_WIN then ResizeWindow scr pWin (cf_x cf) (cf_y cf) (cf_w cf) (cf_h cf) sib s
            else if m AND CWStackMode \<noteq> 0 then ReflectStackChange e pWin sib VTOther s
            else Some s);
       Some (Success, None, if act \<noteq> RESTACK_WIN then log [CheckCursorConfinement pWin] s else s) } }"

text \<open>A resize that only asks for the size the window has, or that another client wants to decide on, becomes a move or a change of the stack. The flag tells that nothing is left to do.\<close>

definition resize_redirect :: "wenv \<Rightarrow> xid \<Rightarrow> WindowRec \<Rightarrow> mask \<Rightarrow> nat \<Rightarrow> config \<Rightarrow> wstate \<Rightarrow> (bool \<times> config \<times> wstate) option" where
  "resize_redirect e pWin w m client cf s =
     (if cf_action cf \<noteq> RESIZE_WIN then Some (False, cf, s)
      else do {
        let change = (cf_w cf \<noteq> width w \<or> cf_h cf \<noteq> height w);
        (sent, s) \<leftarrow> (if change \<and> (eventMask w OR wOtherEventMasks w) AND ResizeRedirectMask \<noteq> 0
             then MaybeDeliverEventToClient e pWin (ResizeRequest pWin (cf_w cf) (cf_h cf)) ResizeRedirectMask client s
             else Some (False, s));
        let cf1 = (if sent then cf\<lparr>cf_w := width w, cf_h := height w\<rparr> else cf);
        Some (if change \<and> \<not> sent then (False, cf1, s)
              else if m AND (CWX OR CWY) \<noteq> 0 then (False, cf1\<lparr>cf_action := MOVE_WIN\<rparr>, s)
              else if m AND (CWStackMode OR CWBorderWidth) \<noteq> 0 then (False, cf1\<lparr>cf_action := RESTACK_WIN\<rparr>, s)
              else (True, cf1, s)) })"

definition changes_something :: "WindowRec \<Rightarrow> mask \<Rightarrow> int \<Rightarrow> int \<Rightarrow> config \<Rightarrow> xid option \<Rightarrow> bool" where
  "changes_something w m bx by cf sib \<longleftrightarrow>
     cf_action cf = RESIZE_WIN \<or> (m AND CWX \<noteq> 0 \<and> cf_x cf \<noteq> bx) \<or> (m AND CWY \<noteq> 0 \<and> cf_y cf \<noteq> by) \<or>
     (m AND CWBorderWidth \<noteq> 0 \<and> cf_bw cf \<noteq> borderWidth w) \<or> (m AND CWStackMode \<noteq> 0 \<and> nextSib w \<noteq> sib)"

definition ConfigureWindow :: "wenv \<Rightarrow> wscreen \<Rightarrow> xid \<Rightarrow> mask \<Rightarrow> 32 word list \<Rightarrow> nat \<Rightarrow> wstate \<Rightarrow> (status \<times> 32 word option \<times> wstate) option" where
  "ConfigureWindow e scr pWin m vlist client s = do {
     w \<leftarrow> wins s pWin;
     (bx, by) \<leftarrow> (case parent w of
         Some pid \<Rightarrow> map_option (\<lambda>p. (short (draw_x w - draw_x p - int (borderWidth w)), short (draw_y w - draw_y p - int (borderWidth w)))) (wins s pid)
       | None \<Rightarrow> Some (draw_x w, draw_y w));
     req \<leftarrow> read_config e client pWin w bx by m vlist s;
     (case (req, parent w) of
        (Inl (rc, ev), _) \<Rightarrow> Some (rc, ev, s)
      | (Inr cf, None) \<Rightarrow> Some (Success, None, s)
      | (Inr cf, Some pParent) \<Rightarrow> do {
          p \<leftarrow> wins s pParent;
          (sib, s) \<leftarrow> (if m AND CWStackMode \<noteq> 0
             then WhereDoIGoInTheStack e pWin (cf_sib cf) (short (draw_x p + cf_x cf)) (short (draw_y p + cf_y cf))
                    (card16_of (int (cf_w cf + 2 * cf_bw cf))) (card16_of (int (cf_h cf + 2 * cf_bw cf))) (cf_mode cf) s
             else Some (nextSib w, s));
          (redirected, s) \<leftarrow> (if \<not> overrideRedirect w \<and> RedirectSend p
             then MaybeDeliverEventToClient e pParent
                    (ConfigureRequest pWin pParent (cf_sib cf) (if m AND CWStackMode \<noteq> 0 then cf_mode cf else Above)
                       (cf_x cf) (cf_y cf) (cf_w cf) (cf_h cf) (cf_bw cf) m) SubstructureRedirectMask client s
             else Some (False, s));
          if redirected then Some (Success, None, s)
          else do {
            (idle, cf, s) \<leftarrow> resize_redirect e pWin w m client cf s;
            if idle \<or> \<not> changes_something w m bx by cf sib then Some (Success, None, s)
            else apply_config e scr pWin pParent m bx by cf sib s } }) }"

end
