(* ===== verification/WindowTrees.thy ===== *)
theory WindowTrees
  imports WindowRequests
begin

text \<open>
  The pointers of the window records as a forest: \<open>kids p\<close> is the list of the children of \<open>p\<close> from top to bottom. The invariant ties the five pointers of every
  window to these lists. The loops that follow first child, next sibling and parent visit a subtree in depth-first order, which is shown once for all walks
  whose visits leave the pointers alone.
\<close>

subsection \<open>The invariant\<close>

definition hdo :: "'a list \<Rightarrow> 'a option" where "hdo xs = (case xs of [] \<Rightarrow> None | x # _ \<Rightarrow> Some x)"
definition lasto :: "'a list \<Rightarrow> 'a option" where "lasto xs = (if xs = [] then None else Some (last xs))"

lemma hdo_simps [simp]: "hdo [] = None" "hdo (x # xs) = Some x" "hdo (xs @ ys) = (if xs = [] then hdo ys else hdo xs)"
  by (auto simp: hdo_def split: list.splits)

lemma lasto_simps [simp]: "lasto [] = None" "lasto (x # xs) = (if xs = [] then Some x else lasto xs)"
    "lasto (xs @ ys) = (if ys = [] then lasto xs else lasto ys)"
  by (auto simp: lasto_def)

lemma hdo_None [simp]: "hdo xs = None \<longleftrightarrow> xs = []"
  by (cases xs) auto

lemma lasto_None [simp]: "lasto xs = None \<longleftrightarrow> xs = []"
  by (auto simp: lasto_def)

lemma hdo_Some: "hdo xs = Some x \<longleftrightarrow> (\<exists>ys. xs = x # ys)"
  by (cases xs) auto

lemma lasto_Some: "lasto xs = Some x \<longleftrightarrow> (\<exists>ys. xs = ys @ [x])"
  by (cases xs rule: rev_cases) auto

fun chain :: "store \<Rightarrow> xid option \<Rightarrow> xid list \<Rightarrow> xid option \<Rightarrow> bool" where
  "chain ws a [] b \<longleftrightarrow> True"
| "chain ws a (x # xs) b \<longleftrightarrow>
     (\<exists>w. ws x = Some w \<and> prevSib w = a \<and> nextSib w = (if xs = [] then b else hdo xs)) \<and> chain ws (Some x) xs b"

definition child_rel :: "(xid \<Rightarrow> xid list) \<Rightarrow> (xid \<times> xid) set" where
  "child_rel kids = {(c, p). c \<in> set (kids p)}"

definition tree_inv :: "store \<Rightarrow> (xid \<Rightarrow> xid list) \<Rightarrow> bool" where
  "tree_inv ws kids \<longleftrightarrow>
     finite (dom ws) \<and>
     (\<forall>p w. ws p = Some w \<longrightarrow> firstChild w = hdo (kids p) \<and> lastChild w = lasto (kids p) \<and> distinct (kids p) \<and> chain ws None (kids p) None) \<and>
     (\<forall>p. ws p = None \<longrightarrow> kids p = []) \<and>
     (\<forall>p c. c \<in> set (kids p) \<longleftrightarrow> (\<exists>w. ws c = Some w \<and> parent w = Some p)) \<and>
     acyclic (child_rel kids)"

text \<open>The invariant depends on the five pointers only.\<close>

definition links :: "store \<Rightarrow> xid \<Rightarrow> (xid option \<times> xid option \<times> xid option \<times> xid option \<times> xid option) option" where
  "links ws c = map_option (\<lambda>w. (parent w, nextSib w, prevSib w, firstChild w, lastChild w)) (ws c)"

lemma links_Some:
  assumes "links ws' = links ws" "ws c = Some w"
  obtains w' where "ws' c = Some w'" "parent w' = parent w" "nextSib w' = nextSib w" "prevSib w' = prevSib w" "firstChild w' = firstChild w" "lastChild w' = lastChild w"
proof -
  have "links ws' c = links ws c" using assms(1) by simp
  then show thesis using assms(2) that by (cases "ws' c") (auto simp: links_def)
qed

lemma links_None: "links ws' = links ws \<Longrightarrow> ws' c = None \<longleftrightarrow> ws c = None"
  by (drule fun_cong [of _ _ c]) (cases "ws c"; cases "ws' c"; auto simp: links_def)

lemma chain_links: "links ws' = links ws \<Longrightarrow> chain ws a xs b \<Longrightarrow> chain ws' a xs b"
  by (induction xs arbitrary: a) (auto elim!: links_Some)

lemma tree_inv_links:
  assumes l: "links ws' = links ws" and i: "tree_inv ws kids"
  shows "tree_inv ws' kids"
proof -
  have dom: "dom ws' = dom ws" using links_None [OF l] by (simp add: dom_def)
  have old: "\<exists>w. ws c = Some w \<and> parent w' = parent w \<and> firstChild w' = firstChild w \<and> lastChild w' = lastChild w" if "ws' c = Some w'" for c w'
    using links_Some [OF l [symmetric] that] by metis
  have par: "(\<exists>w. ws' c = Some w \<and> parent w = Some p) \<longleftrightarrow> (\<exists>w. ws c = Some w \<and> parent w = Some p)" for c p
    using links_Some [OF l] old by metis
  show ?thesis
    unfolding tree_inv_def par
  proof (intro conjI allI impI)
    fix p w' assume "ws' p = Some w'"
    then obtain w where "ws p = Some w" "firstChild w' = firstChild w" "lastChild w' = lastChild w" using old by blast
    then show "firstChild w' = hdo (kids p)" "lastChild w' = lasto (kids p)" "distinct (kids p)" "chain ws' None (kids p) None"
      using i chain_links [OF l] by (auto simp: tree_inv_def)
  qed (use i dom links_None [OF l] in \<open>auto simp: tree_inv_def\<close>)
qed

lemma links_upd: "ws p = Some w \<Longrightarrow> parent (f w) = parent w \<Longrightarrow> nextSib (f w) = nextSib w \<Longrightarrow> prevSib (f w) = prevSib w \<Longrightarrow>
    firstChild (f w) = firstChild w \<Longrightarrow> lastChild (f w) = lastChild w \<Longrightarrow> links (ws(p \<mapsto> f w)) = links ws"
  by (auto simp: links_def fun_eq_iff)

lemma setw_links:
  assumes "setw p f s = Some s'"
    "\<And>w. parent (f w) = parent w \<and> nextSib (f w) = nextSib w \<and> prevSib (f w) = prevSib w \<and> firstChild (f w) = firstChild w \<and> lastChild (f w) = lastChild w"
  shows "links (wins s') = links (wins s)"
  using assms(1) links_upd [of "wins s" p _ f] assms(2) by (auto simp: setw_def)

lemma log_simps [simp]: "wins (log cs s) = wins s" "scr_root (log cs s) = scr_root s" "saver_on (log cs s) = saver_on s"
    "mem_answers (log cs s) = mem_answers s" "mem_used (log cs s) = mem_used s" "calls (log cs s) = calls s @ cs"
  by (simp_all add: log_def)

lemma setw_Some [simp]: "wins s p = Some w \<Longrightarrow> setw p f s = Some (s\<lparr>wins := (wins s)(p \<mapsto> f w)\<rparr>)"
  by (simp add: setw_def)

subsection \<open>What the invariant says of single windows\<close>

lemma tree_invD:
  assumes "tree_inv ws kids" "ws p = Some w"
  shows "firstChild w = hdo (kids p)" "lastChild w = lasto (kids p)" "distinct (kids p)" "chain ws None (kids p) None"
  using assms by (auto simp: tree_inv_def)

lemma tree_inv_parent:
  assumes "tree_inv ws kids"
  shows "c \<in> set (kids p) \<longleftrightarrow> (\<exists>w. ws c = Some w \<and> parent w = Some p)"
  using assms by (simp add: tree_inv_def)

lemma tree_inv_kid:
  assumes "tree_inv ws kids" "c \<in> set (kids p)"
  obtains w pw where "ws c = Some w" "parent w = Some p" "ws p = Some pw"
proof -
  have "kids p \<noteq> []" using assms(2) by auto
  then have "ws p \<noteq> None" using assms(1) unfolding tree_inv_def by blast
  then obtain pw where "ws p = Some pw" by blast
  then show thesis using assms that tree_inv_parent [OF assms(1)] by blast
qed

lemma chain_mid:
  "chain ws a (xs @ x # ys) b \<Longrightarrow> \<exists>w. ws x = Some w \<and> prevSib w = (if xs = [] then a else lasto xs) \<and> nextSib w = (if ys = [] then b else hdo ys)"
  by (induction xs arbitrary: a) (auto split: if_splits)

lemma chain_app: "chain ws a (xs @ ys) b \<longleftrightarrow> chain ws a xs (if ys = [] then b else hdo ys) \<and> chain ws (if xs = [] then a else lasto xs) ys b"
  by (induction xs arbitrary: a) auto

lemma kid_links:
  assumes "tree_inv ws kids" "kids p = xs @ x # ys"
  shows "\<exists>w. ws x = Some w \<and> parent w = Some p \<and> prevSib w = lasto xs \<and> nextSib w = hdo ys"
proof -
  have "x \<in> set (kids p)" using assms(2) by simp
  then obtain w pw where w: "ws x = Some w" "parent w = Some p" "ws p = Some pw" using tree_inv_kid [OF assms(1)] by blast
  have "chain ws None (xs @ x # ys) None" using tree_invD(4) [OF assms(1) w(3)] assms(2) by simp
  from chain_mid [OF this] show ?thesis using w by auto
qed

lemma tree_inv_wf:
  assumes i: "tree_inv ws kids"
  shows "wf (child_rel kids)"
proof (rule finite_acyclic_wf)
  have "child_rel kids \<subseteq> dom ws \<times> dom ws"
  proof clarify
    fix c p assume "(c, p) \<in> child_rel kids"
    then have "c \<in> set (kids p)" by (simp add: child_rel_def)
    then obtain w pw where "ws c = Some w" "ws p = Some pw" by (rule tree_inv_kid [OF i])
    then show "c \<in> dom ws \<and> p \<in> dom ws" by auto
  qed
  then show "finite (child_rel kids)" using i finite_subset by (auto simp: tree_inv_def)
  show "acyclic (child_rel kids)" using i by (simp add: tree_inv_def)
qed

subsection \<open>Subtrees\<close>

datatype wtree = Node (label: xid) (subs: "wtree list")

primrec nodes :: "wtree \<Rightarrow> xid list" where
  "nodes (Node w ts) = w # concat (List.map nodes ts)"

inductive shape :: "(xid \<Rightarrow> xid list) \<Rightarrow> wtree \<Rightarrow> bool" for kids where
  "kids w = List.map label ts \<Longrightarrow> (\<And>t. t \<in> set ts \<Longrightarrow> shape kids t) \<Longrightarrow> shape kids (Node w ts)"

inductive_simps shape_Node: "shape kids (Node w ts)"

lemma shape_exists:
  assumes "wf (child_rel kids)"
  shows "\<exists>t. label t = w \<and> shape kids t"
  using assms
proof (induction w rule: wf_induct_rule)
  case (less w)
  then have "\<forall>c \<in> set (kids w). \<exists>t. label t = c \<and> shape kids t" by (simp add: child_rel_def)
  then obtain f where f: "\<And>c. c \<in> set (kids w) \<Longrightarrow> label (f c) = c \<and> shape kids (f c)" by metis
  then have "List.map label (List.map f (kids w)) = kids w" by (simp add: map_idI)
  then show ?case using f by (intro exI [of _ "Node w (List.map f (kids w))"]) (auto intro!: shape.intros)
qed

lemma label_in_nodes [simp]: "label t \<in> set (nodes t)"
  by (cases t) simp

text \<open>The windows of a subtree are those from which the parents lead to its top.\<close>

lemma nodes_desc: "shape kids t \<Longrightarrow> x \<in> set (nodes t) \<Longrightarrow> (x, label t) \<in> (child_rel kids)\<^sup>*"
proof (induction rule: shape.induct)
  case (1 w ts)
  show ?case
  proof (cases "x = w")
    case False
    then obtain t where t: "t \<in> set ts" "x \<in> set (nodes t)" using 1 by auto
    then have "(x, label t) \<in> (child_rel kids)\<^sup>*" "(label t, w) \<in> child_rel kids" using 1 by (auto simp: child_rel_def)
    then show ?thesis by simp
  qed simp
qed

lemma desc_nodes:
  assumes "(x, y) \<in> (child_rel kids)\<^sup>*" "shape kids t" "label t = y"
  shows "x \<in> set (nodes t)"
  using assms
proof (induction arbitrary: t rule: rtrancl_induct)
  case base
  then show ?case using label_in_nodes by metis
next
  case (step y z)
  from step.prems obtain ts where t: "t = Node z ts" "kids z = List.map label ts" "\<And>u. u \<in> set ts \<Longrightarrow> shape kids u"
    by (cases t) (auto simp: shape_Node)
  have "y \<in> set (kids z)" using step.hyps(2) by (simp add: child_rel_def)
  then obtain u where "u \<in> set ts" "label u = y" using t(2) by auto
  then have "x \<in> set (nodes u)" using step.IH t(3) by blast
  then show ?case using t(1) \<open>u \<in> set ts\<close> by auto
qed

lemma nodes_sub_not_top:
  assumes "tree_inv ws kids" "shape kids (Node w ts)" "t \<in> set ts" "x \<in> set (nodes t)"
  shows "x \<noteq> w"
proof
  assume "x = w"
  have "(x, label t) \<in> (child_rel kids)\<^sup>*" using assms nodes_desc by (auto simp: shape_Node)
  moreover have "(label t, w) \<in> child_rel kids" using assms by (auto simp: shape_Node child_rel_def)
  ultimately have "(w, w) \<in> (child_rel kids)\<^sup>+" using \<open>x = w\<close> by auto
  then show False using assms(1) by (auto simp: tree_inv_def acyclic_def)
qed

subsection \<open>Walks\<close>

text \<open>The same walk over a tree: a window, then its children from top to bottom.\<close>

fun walk_tree :: "(xid \<Rightarrow> 's \<Rightarrow> ('s \<times> walk) option) \<Rightarrow> wtree \<Rightarrow> 's \<Rightarrow> ('s \<times> bool) option"
  and walk_list :: "(xid \<Rightarrow> 's \<Rightarrow> ('s \<times> walk) option) \<Rightarrow> wtree list \<Rightarrow> 's \<Rightarrow> ('s \<times> bool) option" where
  "walk_tree visit (Node w ts) s = do {
     (s1, r) \<leftarrow> visit w s;
     (case r of WT_STOPWALKING \<Rightarrow> Some (s1, True) | WT_WALKCHILDREN \<Rightarrow> walk_list visit ts s1 | WT_DONTWALKCHILDREN \<Rightarrow> Some (s1, False)) }"
| "walk_list visit [] s = Some (s, False)"
| "walk_list visit (t # ts) s = do {
     (s1, stop) \<leftarrow> walk_tree visit t s;
     if stop then Some (s1, True) else walk_list visit ts s1 }"

text \<open>What a visit may do: it leaves all pointers of the windows alone.\<close>

locale tree_visit =
  fixes visit :: "xid \<Rightarrow> wstate \<Rightarrow> (wstate \<times> walk) option"
  assumes visit_links: "visit c s = Some (s', r) \<Longrightarrow> links (wins s') = links (wins s)"
begin

definition onwards :: "xid \<Rightarrow> xid \<Rightarrow> wstate \<times> bool \<Rightarrow> (wstate \<times> bool) option" where
  "onwards pTop c = (\<lambda>(s, stop). if stop then Some (s, True) else do {
     n \<leftarrow> climb (wins s) pTop c;
     (case n of None \<Rightarrow> Some (s, False) | Some k \<Rightarrow> tree_loop visit pTop k s) })"

lemma walk_list_links:
  assumes "\<And>t s s' b. t \<in> set ts \<Longrightarrow> walk_tree visit t s = Some (s', b) \<Longrightarrow> links (wins s') = links (wins s)" "walk_list visit ts s = Some (s', b)"
  shows "links (wins s') = links (wins s)"
  using assms
proof (induction ts arbitrary: s)
  case (Cons t ts)
  then obtain s1 stop where v: "walk_tree visit t s = Some (s1, stop)" by (auto split: Option.bind_splits)
  then have l: "links (wins s1) = links (wins s)" using Cons.prems(1) [of t s s1 stop] by simp
  show ?case
  proof (cases stop)
    case False
    then have "walk_list visit ts s1 = Some (s', b)" using Cons.prems(2) v by simp
    then have "links (wins s') = links (wins s1)" using Cons.IH Cons.prems(1) by (meson list.set_intros(2))
    then show ?thesis using l by simp
  qed (use Cons.prems(2) v l in simp)
qed simp

lemma walk_tree_links: "walk_tree visit t s = Some (s', b) \<Longrightarrow> links (wins s') = links (wins s)"
proof (induction t arbitrary: s s' b)
  case (Node w ts)
  then obtain s1 r where v: "visit w s = Some (s1, r)" by (auto split: Option.bind_splits)
  then have l: "links (wins s1) = links (wins s)" by (rule visit_links)
  show ?case
  proof (cases r)
    case WT_WALKCHILDREN
    then have "walk_list visit ts s1 = Some (s', b)" using Node.prems v by simp
    then have "links (wins s') = links (wins s1)" using Node.IH by (rule walk_list_links [rotated])
    then show ?thesis using l by simp
  qed (use Node.prems v l in auto)
qed

lemma walk_list_links': "walk_list visit ts s = Some (s', b) \<Longrightarrow> links (wins s') = links (wins s)"
  by (rule walk_list_links) (auto dest: walk_tree_links)

lemmas walk_links = walk_tree_links walk_list_links'

lemma climb_top [simp]: "ws c = Some w \<Longrightarrow> climb ws c c = Some None"
  by (subst climb.simps) simp

lemma climb_next: "ws c = Some w \<Longrightarrow> nextSib w = Some n \<Longrightarrow> c \<noteq> pTop \<Longrightarrow> climb ws pTop c = Some (Some n)"
  by (subst climb.simps) simp

lemma climb_up: "ws c = Some w \<Longrightarrow> nextSib w = None \<Longrightarrow> parent w = Some p \<Longrightarrow> c \<noteq> pTop \<Longrightarrow> climb ws pTop c = climb ws pTop p"
  by (subst climb.simps) simp

text \<open>The loop does what the walk over the tree does, and then goes on above the subtree.\<close>

lemma loop_list:
  assumes tree: "\<And>t s. t \<in> set ts \<Longrightarrow> tree_inv (wins s) kids \<Longrightarrow> tree_loop visit pTop (label t) s = walk_tree visit t s \<bind> onwards pTop (label t)"
    and kids: "kids w = List.map label (us @ ts)" and top: "\<And>t. t \<in> set ts \<Longrightarrow> label t \<noteq> pTop" and inv: "tree_inv (wins s) kids" and ne: "ts \<noteq> []"
  shows "tree_loop visit pTop (label (hd ts)) s = walk_list visit ts s \<bind> onwards pTop w"
  using ne tree kids top inv
proof (induction ts arbitrary: us s rule: list_nonempty_induct)
  case (single t)
  have "walk_tree visit t s \<bind> onwards pTop (label t) = walk_tree visit t s \<bind> onwards pTop w"
  proof (cases "walk_tree visit t s")
    case (Some a)
    obtain s1 b where a: "a = (s1, b)" by (cases a)
    have "tree_inv (wins s1) kids" using walk_links(1) Some a single.prems(4) tree_inv_links by blast
    then obtain x where "wins s1 (label t) = Some x" "parent x = Some w" "nextSib x = None"
      using kid_links [of _ kids w "List.map label us" "label t" "[]"] single.prems(2) by auto
    then have "climb (wins s1) pTop (label t) = climb (wins s1) pTop w" using climb_up single.prems(3) by simp
    then show ?thesis using Some a by (simp add: onwards_def)
  qed simp
  moreover have "walk_list visit [t] s = walk_tree visit t s" by (cases "walk_tree visit t s") auto
  ultimately show ?case using single.prems(1) [of t s] single.prems(4) by simp
next
  case (cons t ts)
  have "tree_loop visit pTop (label t) s = walk_tree visit t s \<bind> onwards pTop (label t)" using cons.prems(1,4) by simp
  also have "\<dots> = walk_list visit (t # ts) s \<bind> onwards pTop w"
  proof (cases "walk_tree visit t s")
    case (Some a)
    obtain s1 b where a: "a = (s1, b)" by (cases a)
    have inv1: "tree_inv (wins s1) kids" using walk_links(1) Some a cons.prems(4) tree_inv_links by blast
    then obtain x where "wins s1 (label t) = Some x" "nextSib x = Some (label (hd ts))"
      using kid_links [of _ kids w "List.map label us" "label t" "List.map label ts"] cons.prems(2) cons.hyps by (cases ts) auto
    then have "climb (wins s1) pTop (label t) = Some (Some (label (hd ts)))" using climb_next cons.prems(3) by simp
    moreover have "tree_loop visit pTop (label (hd ts)) s1 = walk_list visit ts s1 \<bind> onwards pTop w"
      using cons.IH [of "us @ [t]" s1] cons.prems inv1 by simp
    ultimately show ?thesis using Some a by (simp add: onwards_def)
  qed simp
  finally show ?case by simp
qed

lemma loop_tree:
  assumes "shape kids t" "tree_inv (wins s) kids" "wins s (label t) \<noteq> None" "pTop \<notin> set (concat (List.map nodes (subs t)))"
  shows "tree_loop visit pTop (label t) s = walk_tree visit t s \<bind> onwards pTop (label t)"
  using assms
proof (induction arbitrary: s rule: shape.induct)
  case (1 w ts)
  show ?case
  proof (cases "visit w s")
    case (Some a)
    obtain s1 r where a: "a = (s1, r)" by (cases a)
    have l: "links (wins s1) = links (wins s)" using visit_links Some a by blast
    have inv: "tree_inv (wins s1) kids" using tree_inv_links [OF l] 1 by blast
    obtain x where x: "wins s1 w = Some x" using links_None [OF l] 1 by fastforce
    then have first: "firstChild x = hdo (List.map label ts)" using tree_invD(1) [OF inv] 1 by simp
    have kid: "wins s' (label t) \<noteq> None" if "t \<in> set ts" "tree_inv (wins s') kids" for t s'
      using that 1 tree_inv_parent [OF that(2), of "label t" w] by auto
    have sub: "tree_loop visit pTop (label t) s' = walk_tree visit t s' \<bind> onwards pTop (label t)" if "t \<in> set ts" "tree_inv (wins s') kids" for t s'
    proof -
      have "set (concat (List.map nodes (subs t))) \<subseteq> set (nodes t)" by (cases t) auto
      then have "pTop \<notin> set (concat (List.map nodes (subs t)))" using "1.prems"(3) that by auto
      then show ?thesis using "1.IH" that kid by blast
    qed
    have top: "label t \<noteq> pTop" if "t \<in> set ts" for t using "1.prems"(3) that label_in_nodes [of t] by auto
    have children: "tree_loop visit pTop (label (hd ts)) s1 = walk_list visit ts s1 \<bind> onwards pTop w" if "ts \<noteq> []"
      using loop_list [of ts kids pTop w "[]"] sub top inv that "1.hyps"(1) by simp
    show ?thesis
    proof (cases "r = WT_WALKCHILDREN \<and> ts \<noteq> []")
      case True
      then have "firstChild x = Some (label (hd ts))" using first by (cases ts) auto
      then have "tree_loop visit pTop w s = tree_loop visit pTop (label (hd ts)) s1" using Some a True x by (subst tree_loop.simps) simp
      then show ?thesis using children True Some a by simp
    next
      case False
      then show ?thesis using Some a x first by (subst tree_loop.simps) (cases r; simp add: onwards_def)
    qed
  next
    case None
    then show ?thesis by (subst tree_loop.simps) simp
  qed
qed

lemma walk_top:
  assumes "tree_inv (wins s) kids" "wins s w \<noteq> None" "shape kids t" "label t = w"
  shows "tree_loop visit w w s = walk_tree visit t s"
proof -
  obtain ts where t: "t = Node w ts" using assms(4) by (cases t) auto
  have "w \<notin> set (concat (List.map nodes (subs t)))" using nodes_sub_not_top [OF assms(1)] assms(3) t by auto
  from loop_tree [OF assms(3,1) _ this] assms t
  have "tree_loop visit w w s = walk_tree visit t s \<bind> onwards w w" by simp
  also have "\<dots> = walk_tree visit t s"
  proof (cases "walk_tree visit t s")
    case (Some a)
    obtain s1 b where a: "a = (s1, b)" by (cases a)
    have "wins s1 w \<noteq> None" using links_None [OF walk_links(1) [of t s s1 b]] Some a assms(2) by simp
    then obtain x where "wins s1 w = Some x" by blast
    then show ?thesis using Some a by (simp add: onwards_def)
  qed simp
  finally show ?thesis .
qed

text \<open>A walk that starts at the first child leaves its top out.\<close>

lemma walk_below:
  assumes "tree_inv (wins s) kids" "wins s w \<noteq> None" "shape kids (Node w ts)" "ts \<noteq> []"
  shows "tree_loop visit w (label (hd ts)) s = walk_list visit ts s"
proof -
  have k: "kids w = List.map label ts" "\<And>t. t \<in> set ts \<Longrightarrow> shape kids t" using assms(3) by (auto simp: shape_Node)
  have top: "w \<notin> set (nodes t)" if "t \<in> set ts" for t using nodes_sub_not_top [OF assms(1,3) that] by blast
  have sub: "tree_loop visit w (label t) s' = walk_tree visit t s' \<bind> onwards w (label t)" if "t \<in> set ts" "tree_inv (wins s') kids" for t s'
  proof (rule loop_tree [OF k(2) that(2)])
    show "wins s' (label t) \<noteq> None" using that k tree_inv_parent [OF that(2), of "label t" w] by auto
    show "w \<notin> set (concat (List.map nodes (subs t)))" using top [OF that(1)] by (cases t) auto
  qed fact
  have "label t \<noteq> w" if "t \<in> set ts" for t using top [OF that] label_in_nodes [of t] by metis
  then have "tree_loop visit w (label (hd ts)) s = walk_list visit ts s \<bind> onwards w w"
    using loop_list [of ts kids w w "[]"] sub assms k by simp
  also have "\<dots> = walk_list visit ts s"
  proof (cases "walk_list visit ts s")
    case (Some a)
    obtain s1 b where a: "a = (s1, b)" by (cases a)
    have "wins s1 w \<noteq> None" using links_None [OF walk_links(2) [of ts s s1 b]] Some a assms(2) by simp
    then obtain x where "wins s1 w = Some x" by blast
    then show ?thesis using Some a by (simp add: onwards_def)
  qed simp
  finally show ?thesis .
qed

end

interpretation compare_wids: tree_visit "CompareWIDs wid" for wid
  by unfold_locales (auto simp: CompareWIDs_def)

lemma walk_compare:
  "walk_tree (CompareWIDs wid) t s = Some (s, wid \<in> set (nodes t))"
proof (induction t)
  case (Node w ts)
  have "walk_list (CompareWIDs wid) ts s = Some (s, wid \<in> set (concat (List.map nodes ts)))"
    using Node.IH by (induction ts) auto
  moreover have "CompareWIDs wid w s = Some (s, if w = wid then WT_STOPWALKING else WT_WALKCHILDREN)" by (simp add: CompareWIDs_def)
  ultimately show ?case by auto
qed

lemma traverse_compare:
  assumes "tree_inv (wins s) kids" "wins s w \<noteq> None" "shape kids t" "label t = w"
  shows "TraverseTree (CompareWIDs wid) (Some w) s = Some (s, wid \<in> set (nodes t))"
  using compare_wids.walk_top [OF assms] walk_compare by (simp add: TraverseTree_def)

subsection \<open>An example\<close>

text \<open>A root window with three children, the second of which has a child: all are mapped but that grandchild. It serves as an instance of the theorems.\<close>

definition sample_win :: "xid option \<Rightarrow> xid option \<Rightarrow> xid option \<Rightarrow> xid option \<Rightarrow> xid option \<Rightarrow> bool \<Rightarrow> WindowRec" where
  "sample_win p n q f l m = \<lparr>parent = p, nextSib = n, prevSib = q, firstChild = f, lastChild = l,
     winSize = \<lparr>extents = Box 0 0 100 100, rgn_data = NoData\<rparr>, borderSize = \<lparr>extents = Box 0 0 100 100, rgn_data = NoData\<rparr>,
     origin_x = 10, origin_y = 20, draw_x = 0, draw_y = 0, width = 100, height = 100, win_class = InputOutput, borderWidth = 0,
     deliverableEvents = 0, eventMask = 0, optional = None, cursorIsNone = True, winGravity = 1, overrideRedirect = False,
     visibility = 0, mapped = m, realized = m, viewable = m, dontPropagate = 0, redirectDraw = 0\<rparr>"

definition sample_wins :: store where
  "sample_wins = [1 \<mapsto> sample_win None None None (Some 2) (Some 4) True,
     2 \<mapsto> sample_win (Some 1) (Some 3) None None None True,
     3 \<mapsto> sample_win (Some 1) (Some 4) (Some 2) (Some 5) (Some 5) True,
     4 \<mapsto> sample_win (Some 1) None (Some 3) None None True,
     5 \<mapsto> sample_win (Some 3) None None None None False]"

definition sample :: wstate where
  "sample = \<lparr>wins = sample_wins, scr_root = Some 1, saver_on = False, mem_answers = (\<lambda>_. True), mem_used = 0, calls = []\<rparr>"

definition sample_kids :: "xid \<Rightarrow> xid list" where
  "sample_kids p = (if p = 1 then [2, 3, 4] else if p = 3 then [5] else [])"

definition sample_env :: wenv where
  "sample_env = \<lparr>w_lim = 256, realChildHeadProc = None, rgn_translate = (\<lambda>r _ _. r), rgn_intersect = (\<lambda>r _. r), rgn_union = (\<lambda>r _. r), rgn_copy = id,
     rgn_contains_rect = (\<lambda>_ _. True), any_marked = (\<lambda>_ _ _. True), layer_win = (\<lambda>_ w _. w),
     GetLayerWindow = (\<lambda>ws w. case ws w of Some x \<Rightarrow> (case firstChild x of Some k \<Rightarrow> k | None \<Rightarrow> w) | None \<Rightarrow> w),
     xace_resource = (\<lambda>_ _ _. Success), xace_receive = (\<lambda>_ _ _. False), try_client = (\<lambda>_ _ _ _. True), DontPropagateMasks = (\<lambda>_. 0)\<rparr>"

lemma sample_tree: "tree_inv (wins sample) sample_kids"
  unfolding tree_inv_def
proof (intro conjI allI impI)
  show "finite (dom (wins sample))" by (simp add: sample_def sample_wins_def)
  show "acyclic (child_rel sample_kids)"
  proof (rule acyclicI_order)
    fix c p assume "(c, p) \<in> child_rel sample_kids"
    then show "unat p < unat c" by (auto simp: child_rel_def sample_kids_def split: if_splits)
  qed
  fix p c :: xid
  show "c \<in> set (sample_kids p) \<longleftrightarrow> (\<exists>w. wins sample c = Some w \<and> parent w = Some p)"
    by (auto simp: sample_kids_def sample_def sample_wins_def sample_win_def)
next
  fix p w assume "wins sample p = Some w"
  then have "p \<in> {1, 2, 3, 4, 5}" and w: "wins sample p = Some w" by (auto simp: sample_def sample_wins_def split: if_splits)
  then show "firstChild w = hdo (sample_kids p)" "lastChild w = lasto (sample_kids p)" "distinct (sample_kids p)" "chain (wins sample) None (sample_kids p) None"
    by (auto simp: sample_def sample_wins_def sample_win_def sample_kids_def)
next
  fix p assume "wins sample p = None"
  then show "sample_kids p = []" by (auto simp: sample_def sample_wins_def sample_kids_def split: if_splits)
qed

text \<open>C20. The loop of \<open>TraverseTree\<close>, which follows first children, next siblings and parents, is the depth-first walk over the subtree: it visits a window before its children
  and the children from top to bottom, leaves the children of a window out where the visiting function says so, and stops where it says so. This holds for every
  visiting function that leaves the pointers of windows alone; in particular the loop returns when the function does.\<close>

theorem TraverseTree_depth_first:
  assumes "tree_inv (wins s) kids" "wins s w \<noteq> None" "shape kids t" "label t = w"
    and "\<And>c s s' r. func c s = Some (s', r) \<Longrightarrow> links (wins s') = links (wins s)"
  shows "TraverseTree func (Some w) s = walk_tree func t s"
proof -
  have "tree_visit func" using assms(5) by unfold_locales
  then show ?thesis using tree_visit.walk_top assms(1-4) by (simp add: TraverseTree_def)
qed

theorem TraverseTree_depth_first_witness:
  "TraverseTree (\<lambda>c s. Some (log [WindowGone c] s, if c = 3 then WT_DONTWALKCHILDREN else WT_WALKCHILDREN)) (Some 1) sample =
     Some (log [WindowGone 1, WindowGone 2, WindowGone 3, WindowGone 4] sample, False)"
proof -
  let ?t = "Node 1 [Node 2 [], Node 3 [Node 5 []], Node 4 []]"
  have "shape sample_kids ?t" by (auto simp: shape_Node sample_kids_def)
  moreover have "wins sample 1 \<noteq> None" by (simp add: sample_def sample_wins_def)
  ultimately show ?thesis
    by (subst TraverseTree_depth_first [OF sample_tree, where t = ?t]) (auto simp: log_def)
qed

end
