(* ===== verification/WindowSiblings.thy ===== *)
theory WindowSiblings
  imports WindowTrees
begin

text \<open>
  The lists of siblings: taking a window out of its list, putting it on top of another, and moving it in the stack are the operations on the lists of
  children that their comments say.
\<close>

subsection \<open>Chains under updates\<close>

lemma chain_upd [simp]: "x \<notin> set xs \<Longrightarrow> chain (ws(x := y)) a xs b \<longleftrightarrow> chain ws a xs b"
  by (induction xs arbitrary: a) auto

lemma chain_dom: "chain ws a xs b \<Longrightarrow> x \<in> set xs \<Longrightarrow> \<exists>w. ws x = Some w"
  by (induction xs arbitrary: a) auto

lemma not_own_child: "tree_inv ws kids \<Longrightarrow> p \<notin> set (kids p)"
proof
  assume "tree_inv ws kids" "p \<in> set (kids p)"
  then have "(p, p) \<in> child_rel kids" "acyclic (child_rel kids)" by (auto simp: child_rel_def tree_inv_def)
  then show False by (auto simp: acyclic_def)
qed

text \<open>Lists of different parents have no window in common.\<close>

lemma kids_disjoint: "tree_inv ws kids \<Longrightarrow> c \<in> set (kids p) \<Longrightarrow> c \<in> set (kids q) \<Longrightarrow> p = q"
  by (auto simp: tree_inv_parent)

lemma chain_agree:
  assumes "chain ws a xs b" "\<And>x. x \<in> set xs \<Longrightarrow> map_option (\<lambda>w. (prevSib w, nextSib w)) (ws' x) = map_option (\<lambda>w. (prevSib w, nextSib w)) (ws x)"
  shows "chain ws' a xs b"
  using assms
proof (induction xs arbitrary: a)
  case (Cons x xs)
  then obtain w where w: "ws x = Some w" by auto
  then have "map_option (\<lambda>w. (prevSib w, nextSib w)) (ws' x) = Some (prevSib w, nextSib w)" using Cons.prems(2) [of x] by simp
  then obtain w' where "ws' x = Some w'" "prevSib w' = prevSib w" "nextSib w' = nextSib w" by auto
  moreover have "chain ws' (Some x) xs b" using Cons.IH [of "Some x"] Cons.prems by simp
  ultimately show ?case using Cons.prems(1) w by auto
qed simp

text \<open>The list of one window's children is replaced: the other lists are as they were.\<close>

lemma relink_inv:
  assumes i: "tree_inv ws kids" and xs: "distinct xs" "chain ws' None xs None"
    and pw': "ws' p = Some pw'" "firstChild pw' = hdo xs" "lastChild pw' = lasto xs"
    and ends: "\<And>c. c \<noteq> p \<Longrightarrow> map_option (\<lambda>w. (firstChild w, lastChild w)) (ws' c) = map_option (\<lambda>w. (firstChild w, lastChild w)) (ws c)"
    and sibs: "\<And>c q. q \<noteq> p \<Longrightarrow> c \<in> set (kids q) \<Longrightarrow> map_option (\<lambda>w. (prevSib w, nextSib w)) (ws' c) = map_option (\<lambda>w. (prevSib w, nextSib w)) (ws c)"
    and par: "\<And>c q. c \<in> set ((kids(p := xs)) q) \<longleftrightarrow> (\<exists>w. ws' c = Some w \<and> parent w = Some q)"
    and ac: "acyclic (child_rel (kids(p := xs)))"
  shows "tree_inv ws' (kids(p := xs))"
  unfolding tree_inv_def
proof (intro conjI allI impI)
  have "dom ws' \<subseteq> insert p (dom ws)"
  proof
    fix c assume "c \<in> dom ws'"
    then show "c \<in> insert p (dom ws)" using ends [of c] by (cases "ws c") auto
  qed
  moreover have "finite (dom ws)" using i by (simp add: tree_inv_def)
  ultimately show "finite (dom ws')" using finite_subset by blast
  fix q w assume w: "ws' q = Some w"
  have ne: "\<exists>v. ws q = Some v \<and> firstChild w = firstChild v \<and> lastChild w = lastChild v" if "q \<noteq> p"
    using ends [OF that] w by (cases "ws q") auto
  have "chain ws' None (kids q) None" if "q \<noteq> p"
    using ne [OF that] tree_invD(4) [OF i] sibs [OF that] by (blast intro: chain_agree)
  then show "firstChild w = hdo ((kids(p := xs)) q)" "lastChild w = lasto ((kids(p := xs)) q)" "distinct ((kids(p := xs)) q)" "chain ws' None ((kids(p := xs)) q) None"
    using ne tree_invD [OF i] w pw' xs by (cases "q = p"; fastforce)+
next
  fix q assume "ws' q = None"
  then have "q \<noteq> p" using pw'(1) by force
  moreover have "ws q = None" using ends [OF \<open>q \<noteq> p\<close>] \<open>ws' q = None\<close> by simp
  ultimately show "(kids(p := xs)) q = []" using i by (simp add: tree_inv_def)
qed (use par ac in blast)+

text \<open>Reordering the children of one window, taking one out of the list, and putting one into it.\<close>

lemma restack_inv:
  assumes i: "tree_inv ws kids" and p: "ws p = Some pw" and xs: "mset xs = mset (kids p)" and ch: "chain ws' None xs None"
    and pw': "ws' p = Some pw'" "firstChild pw' = hdo xs" "lastChild pw' = lasto xs"
    and sib: "\<And>c. c \<noteq> p \<Longrightarrow> map_option (\<lambda>w. (parent w, firstChild w, lastChild w)) (ws' c) = map_option (\<lambda>w. (parent w, firstChild w, lastChild w)) (ws c)"
    and other: "\<And>c. c \<notin> set xs \<Longrightarrow> map_option (\<lambda>w. (parent w, prevSib w, nextSib w)) (ws' c) = map_option (\<lambda>w. (parent w, prevSib w, nextSib w)) (ws c)"
  shows "tree_inv ws' (kids(p := xs))"
proof (rule relink_inv [OF i _ ch pw'])
  have set: "set xs = set (kids p)" using xs by (rule mset_eq_setD)
  show "distinct xs" using xs tree_invD(3) [OF i p] mset_eq_imp_distinct_iff by blast
  have "p \<notin> set xs" using not_own_child [OF i] set by simp
  then have par: "map_option parent (ws' c) = map_option parent (ws c)" for c
    using sib [of c] other [of c] by (cases "c = p"; cases "ws c"; cases "ws' c") auto
  show "c \<in> set ((kids(p := xs)) q) \<longleftrightarrow> (\<exists>w. ws' c = Some w \<and> parent w = Some q)" for c q
    using par [of c] tree_inv_parent [OF i] set by (cases "ws c"; cases "ws' c") auto
  have "child_rel (kids(p := xs)) = child_rel kids" using set by (auto simp: child_rel_def)
  then show "acyclic (child_rel (kids(p := xs)))" using i by (simp add: tree_inv_def)
  show "map_option (\<lambda>w. (firstChild w, lastChild w)) (ws' c) = map_option (\<lambda>w. (firstChild w, lastChild w)) (ws c)" if "c \<noteq> p" for c
    using sib [OF that] by (cases "ws c"; cases "ws' c") auto
  show "map_option (\<lambda>w. (prevSib w, nextSib w)) (ws' c) = map_option (\<lambda>w. (prevSib w, nextSib w)) (ws c)" if "q \<noteq> p" "c \<in> set (kids q)" for c q
  proof -
    have "c \<notin> set xs" using kids_disjoint [OF i] set that by blast
    then show ?thesis using other [of c] by (cases "ws c"; cases "ws' c") auto
  qed
qed

lemma detach_inv:
  assumes i: "tree_inv ws kids" and p: "ws p = Some pw" and k: "kids p = as @ w # bs" and xs: "xs = as @ bs" and ch: "chain ws' None xs None"
    and pw': "ws' p = Some pw'" "firstChild pw' = hdo xs" "lastChild pw' = lasto xs" and w: "ws' w = Some x" "parent x = None"
    and ends: "\<And>c. c \<noteq> p \<Longrightarrow> map_option (\<lambda>w. (firstChild w, lastChild w)) (ws' c) = map_option (\<lambda>w. (firstChild w, lastChild w)) (ws c)"
    and sibs: "\<And>c. c \<notin> set (kids p) \<Longrightarrow> map_option (\<lambda>w. (prevSib w, nextSib w)) (ws' c) = map_option (\<lambda>w. (prevSib w, nextSib w)) (ws c)"
    and par: "\<And>c. c \<noteq> w \<Longrightarrow> map_option parent (ws' c) = map_option parent (ws c)"
  shows "tree_inv ws' (kids(p := xs))"
proof (rule relink_inv [OF i _ ch pw' ends])
  have d: "distinct (as @ w # bs)" using tree_invD(3) [OF i p] k by simp
  then show "distinct xs" using xs by simp
  show "map_option (\<lambda>w. (prevSib w, nextSib w)) (ws' c) = map_option (\<lambda>w. (prevSib w, nextSib w)) (ws c)" if "q \<noteq> p" "c \<in> set (kids q)" for c q
    using sibs kids_disjoint [OF i] that by blast
  show "c \<in> set ((kids(p := xs)) q) \<longleftrightarrow> (\<exists>v. ws' c = Some v \<and> parent v = Some q)" for c q
  proof (cases "c = w")
    case True
    have "w \<in> set (kids p)" using k by simp
    then have "w \<notin> set (kids q)" if "q \<noteq> p" using kids_disjoint [OF i] that by blast
    then show ?thesis using True w d xs by auto
  next
    case False
    then have "c \<in> set ((kids(p := xs)) q) \<longleftrightarrow> c \<in> set (kids q)" using k xs by auto
    then show ?thesis using tree_inv_parent [OF i] par [OF False] by (cases "ws c"; cases "ws' c") auto
  qed
  have "child_rel (kids(p := xs)) \<subseteq> child_rel kids" using k xs by (auto simp: child_rel_def split: if_splits)
  then show "acyclic (child_rel (kids(p := xs)))" using i acyclic_subset unfolding tree_inv_def by blast
qed

lemma attach_inv:
  assumes i: "tree_inv ws kids" and w: "ws w = Some x" "parent x = None" and k: "kids q = as @ bs" and up: "(q, w) \<notin> (child_rel kids)\<^sup>*"
    and xs: "xs = as @ w # bs" and ch: "chain ws' None xs None" and q: "ws q \<noteq> None"
    and qw': "ws' q = Some qw'" "firstChild qw' = hdo xs" "lastChild qw' = lasto xs" and w': "ws' w = Some x'" "parent x' = Some q"
    and ends: "\<And>c. c \<noteq> q \<Longrightarrow> map_option (\<lambda>w. (firstChild w, lastChild w)) (ws' c) = map_option (\<lambda>w. (firstChild w, lastChild w)) (ws c)"
    and sibs: "\<And>c. c \<notin> set (kids q) \<Longrightarrow> c \<noteq> w \<Longrightarrow> map_option (\<lambda>w. (prevSib w, nextSib w)) (ws' c) = map_option (\<lambda>w. (prevSib w, nextSib w)) (ws c)"
    and par: "\<And>c. c \<noteq> w \<Longrightarrow> map_option parent (ws' c) = map_option parent (ws c)"
  shows "tree_inv ws' (kids(q := xs))"
proof (rule relink_inv [OF i _ ch qw' ends])
  have nk: "w \<notin> set (kids r)" for r using tree_inv_parent [OF i] w by simp
  obtain qw where "ws q = Some qw" using q by blast
  then have "distinct (as @ bs)" using tree_invD(3) [OF i] k by metis
  then show "distinct xs" using nk [of q] k xs by auto
  show "map_option (\<lambda>w. (prevSib w, nextSib w)) (ws' c) = map_option (\<lambda>w. (prevSib w, nextSib w)) (ws c)" if "r \<noteq> q" "c \<in> set (kids r)" for c r
  proof -
    have "c \<noteq> w" using nk that by blast
    moreover have "c \<notin> set (kids q)" using kids_disjoint [OF i] that by blast
    ultimately show ?thesis using sibs by blast
  qed
  show "c \<in> set ((kids(q := xs)) r) \<longleftrightarrow> (\<exists>v. ws' c = Some v \<and> parent v = Some r)" for c r
  proof (cases "c = w")
    case True
    then show ?thesis using w' nk xs by auto
  next
    case False
    then have "c \<in> set ((kids(q := xs)) r) \<longleftrightarrow> c \<in> set (kids r)" using k xs by auto
    then show ?thesis using tree_inv_parent [OF i] par [OF False] by (cases "ws c"; cases "ws' c") auto
  qed
  have "child_rel (kids(q := xs)) = insert (w, q) (child_rel kids)" using k xs by (auto simp: child_rel_def split: if_splits)
  then show "acyclic (child_rel (kids(q := xs)))" using i up by (simp add: tree_inv_def acyclic_insert)
qed

subsection \<open>Moving in the stack\<close>

text \<open>The part of a window that is no pointer to other windows.\<close>

definition attrs :: "WindowRec \<Rightarrow> WindowRec" where
  "attrs w = w\<lparr>parent := None, nextSib := None, prevSib := None, firstChild := None, lastChild := None\<rparr>"

definition same_attrs :: "store \<Rightarrow> store \<Rightarrow> bool" where
  "same_attrs ws' ws \<longleftrightarrow> (\<forall>c. map_option attrs (ws' c) = map_option attrs (ws c))"

lemma attrs_upd [simp]: "attrs (w\<lparr>parent := a\<rparr>) = attrs w" "attrs (w\<lparr>nextSib := a\<rparr>) = attrs w" "attrs (w\<lparr>prevSib := a\<rparr>) = attrs w"
    "attrs (w\<lparr>firstChild := a\<rparr>) = attrs w" "attrs (w\<lparr>lastChild := a\<rparr>) = attrs w"
  by (simp_all add: attrs_def)

lemma same_attrs_upd [simp]: "ws' c = Some w \<Longrightarrow> attrs w' = attrs w \<Longrightarrow> same_attrs ws' ws \<Longrightarrow> same_attrs (ws'(c \<mapsto> w')) ws"
  by (simp add: same_attrs_def) (metis option.map(2))

lemma same_attrs_refl [simp]: "same_attrs ws ws"
  by (simp add: same_attrs_def)

lemma same_attrs_trans: "same_attrs a b \<Longrightarrow> same_attrs b c \<Longrightarrow> same_attrs a c"
  by (simp add: same_attrs_def)

lemma hdo_notin [simp]: "x \<notin> set xs \<Longrightarrow> hdo xs = Some x \<longleftrightarrow> False"
  by (cases xs) auto

lemma lasto_notin [simp]: "x \<notin> set xs \<Longrightarrow> lasto xs = Some x \<longleftrightarrow> False"
  by (cases xs rule: rev_cases) auto

lemma hdo_hd: "xs \<noteq> [] \<Longrightarrow> hdo xs = Some (hd xs)"
  by (cases xs) auto

lemma wins_eq [simp]: "s\<lparr>wins := a\<rparr> = s\<lparr>wins := b\<rparr> \<longleftrightarrow> a = b"
  by (cases s) simp

text \<open>The three branches of \<open>MoveWindowInStack\<close>, on the list of the children of \<open>p\<close>.\<close>

definition moved :: "xid \<Rightarrow> xid list \<Rightarrow> xid \<Rightarrow> (xid \<Rightarrow> xid list) \<Rightarrow> wstate \<Rightarrow> (wstate \<times> xid option) option \<Rightarrow> bool" where
  "moved p xs fc kids s r \<longleftrightarrow> (\<exists>ws'. r = Some (s\<lparr>wins := ws'\<rparr>, Some fc) \<and> tree_inv ws' (kids(p := xs)) \<and> same_attrs ws' (wins s))"

lemma kids_facts:
  assumes i: "tree_inv (wins s) kids" and k: "kids p = xs" "xs \<noteq> []"
  obtains pw where "wins s p = Some pw" "firstChild pw = hdo xs" "lastChild pw = lasto xs" "distinct xs" "p \<notin> set xs" "chain (wins s) None xs None"
proof -
  have "hd xs \<in> set (kids p)" using k by simp
  then obtain pw where pw: "wins s p = Some pw" by (rule tree_inv_kid [OF i])
  then show thesis using that tree_invD [OF i pw] not_own_child [OF i, of p] k by auto
qed

lemma move_to_bottom_spec:
  assumes i: "tree_inv (wins s) kids" and k: "kids p = as @ w # b # bs"
  shows "moved p (as @ b # bs @ [w]) b kids s (move_to_bottom p w s)"
proof -
  from i k obtain pw where f: "wins s p = Some pw" "firstChild pw = hdo (as @ w # b # bs)" "lastChild pw = lasto (as @ w # b # bs)"
    "distinct (as @ w # b # bs)" "p \<notin> set (as @ w # b # bs)" "chain (wins s) None (as @ w # b # bs) None"
    by (rule kids_facts) simp
  show ?thesis
  proof (cases as rule: rev_cases; cases bs rule: rev_cases)
  qed (use f k in \<open>auto simp: moved_def move_to_bottom_def chain_app intro!: restack_inv [OF i f(1)]\<close>)
qed

lemma move_to_top_spec:
  assumes i: "tree_inv (wins s) kids" and k: "kids p = n # as @ w # bs"
  shows "moved p (w # n # as @ bs) w kids s (move_to_top p w n s)"
proof -
  from i k obtain pw where f: "wins s p = Some pw" "firstChild pw = hdo (n # as @ w # bs)" "lastChild pw = lasto (n # as @ w # bs)"
    "distinct (n # as @ w # bs)" "p \<notin> set (n # as @ w # bs)" "chain (wins s) None (n # as @ w # bs) None"
    by (rule kids_facts) simp
  show ?thesis
  proof (cases as rule: rev_cases; cases bs)
  qed (use f k in \<open>auto simp: moved_def move_to_top_def chain_app intro!: restack_inv [OF i f(1)]\<close>)
qed

lemma first_of_spec:
  assumes "chain ws d (us @ c # vs) z" "a \<notin> set us" "b \<notin> Some ` set us" "c = a \<or> b = Some c"
  shows "first_of ws a b (Some (hd (us @ c # vs))) = Some (Some c)"
  using assms
proof (induction us arbitrary: d)
  case Nil
  then show ?case by (subst first_of.simps) auto
next
  case (Cons u us)
  then obtain w where "ws u = Some w" "nextSib w = Some (hd (us @ c # vs))" by (cases us) auto
  then show ?case using Cons by (subst first_of.simps) auto
qed

lemma relink_down:
  assumes i: "tree_inv (wins s) kids" and k: "kids p = as @ w # b # bs @ n # cs"
  shows "\<exists>ws'. relink_middle p w n s = Some (s\<lparr>wins := ws'\<rparr>) \<and> tree_inv ws' (kids(p := as @ b # bs @ w # n # cs)) \<and> same_attrs ws' (wins s)"
proof -
  let ?xs = "as @ w # b # bs @ n # cs"
  from i k obtain pw where f: "wins s p = Some pw" "firstChild pw = hdo ?xs" "lastChild pw = lasto ?xs"
    "distinct ?xs" "p \<notin> set ?xs" "chain (wins s) None ?xs None"
    by (rule kids_facts) simp
  show ?thesis
  proof (cases as rule: rev_cases; cases bs rule: rev_cases)
  qed (use f k in \<open>auto simp: relink_middle_def chain_app intro!: restack_inv [OF i f(1)]\<close>)
qed

lemma relink_up:
  assumes i: "tree_inv (wins s) kids" and k: "kids p = as @ a # n # bs @ w # cs"
  shows "\<exists>ws'. relink_middle p w n s = Some (s\<lparr>wins := ws'\<rparr>) \<and> tree_inv ws' (kids(p := as @ a # w # n # bs @ cs)) \<and> same_attrs ws' (wins s)"
proof -
  let ?xs = "as @ a # n # bs @ w # cs"
  from i k obtain pw where f: "wins s p = Some pw" "firstChild pw = hdo ?xs" "lastChild pw = lasto ?xs"
    "distinct ?xs" "p \<notin> set ?xs" "chain (wins s) None ?xs None"
    by (rule kids_facts) simp
  show ?thesis
  proof (cases bs rule: rev_cases; cases cs)
  qed (use f k in \<open>auto simp: relink_middle_def chain_app intro!: restack_inv [OF i f(1)]\<close>)
qed

lemma move_down_spec:
  assumes i: "tree_inv (wins s) kids" and k: "kids p = as @ w # b # bs @ n # cs"
  shows "moved p (as @ b # bs @ w # n # cs) b kids s (move_to_middle p w n s)"
proof -
  obtain ws' where r: "relink_middle p w n s = Some (s\<lparr>wins := ws'\<rparr>)" "tree_inv ws' (kids(p := as @ b # bs @ w # n # cs))" "same_attrs ws' (wins s)"
    using relink_down [OF i k] by blast
  from i k obtain pw where f: "wins s p = Some pw" "firstChild pw = hdo (kids p)" "lastChild pw = lasto (kids p)" "distinct (kids p)"
    by (rule kids_facts) (use k in auto)
  obtain x where x: "wins s w = Some x" "nextSib x = Some b" using kid_links [OF i k] by auto
  have nl: "lastChild pw \<noteq> Some w" using f(3,4) k by (cases cs rule: rev_cases) auto
  show ?thesis
  proof (cases "as = []")
    case True
    then have "firstChild pw = Some w" using f(2) k by simp
    then show ?thesis using r f(1) x nl by (simp add: moved_def move_to_middle_def)
  next
    case False
    then have nf: "firstChild pw \<noteq> Some w" using f(2,4) k by (cases as) auto
    obtain pw' where pw': "ws' p = Some pw'" using r(3) f(1) by (metis map_option_eq_Some same_attrs_def)
    have d: "firstChild pw' = Some (hd (as @ b # bs @ w # n # cs))" "chain ws' None (as @ b # bs @ w # n # cs) None"
      using tree_invD(1,4) [OF r(2) pw'] hdo_hd [of "as @ b # bs @ w # n # cs"] by simp_all
    have "first_of ws' w (Some b) (firstChild pw') = Some (Some b)"
      using first_of_spec [OF d(2), of w "Some b"] d(1) f(4) k by auto
    then show ?thesis using r f(1) x nl nf pw' by (simp add: moved_def move_to_middle_def)
  qed
qed

lemma move_up_spec:
  assumes i: "tree_inv (wins s) kids" and k: "kids p = as @ a # n # bs @ w # cs"
  shows "moved p (as @ a # w # n # bs @ cs) w kids s (move_to_middle p w n s)"
proof -
  obtain ws' where r: "relink_middle p w n s = Some (s\<lparr>wins := ws'\<rparr>)" "tree_inv ws' (kids(p := as @ a # w # n # bs @ cs))" "same_attrs ws' (wins s)"
    using relink_up [OF i k] by blast
  from i k obtain pw where f: "wins s p = Some pw" "firstChild pw = hdo (kids p)" "lastChild pw = lasto (kids p)" "distinct (kids p)"
    by (rule kids_facts) (use k in auto)
  have k': "kids p = (as @ a # n # bs) @ w # cs" using k by simp
  obtain x where x: "wins s w = Some x" "nextSib x = hdo cs" using kid_links [OF i k'] by blast
  have nf: "firstChild pw \<noteq> Some w" using f(2,4) k by (cases as) auto
  show ?thesis
  proof (cases "cs = []")
    case True
    then have "lastChild pw = Some w" using f(3) k by simp
    then show ?thesis using r f(1) x nf by (simp add: moved_def move_to_middle_def)
  next
    case False
    have "lastChild pw \<noteq> Some w" using f(3,4) k False by (cases cs rule: rev_cases) auto
    moreover obtain pw' where pw': "ws' p = Some pw'" using r(3) f(1) by (metis map_option_eq_Some same_attrs_def)
    moreover have d: "firstChild pw' = Some (hd ((as @ [a]) @ w # n # bs @ cs))" "chain ws' None ((as @ [a]) @ w # n # bs @ cs) None"
      using tree_invD(1,4) [OF r(2) pw'] hdo_hd [of "as @ a # w # n # bs @ cs"] by simp_all
    moreover have "first_of ws' w (hdo cs) (firstChild pw') = Some (Some w)"
      using first_of_spec [OF d(2), of w "hdo cs"] d(1) f(4) k False by (cases cs) auto
    ultimately show ?thesis using r f(1) x nf by (simp add: moved_def move_to_middle_def)
  qed
qed

subsection \<open>The stack as a list\<close>

text \<open>A window is taken out of a list and put directly before another, or at the end; and the element that stands where two lists first differ.\<close>

definition restack :: "'a \<Rightarrow> 'a option \<Rightarrow> 'a list \<Rightarrow> 'a list" where
  "restack w n xs = (let ys = remove1 w xs in takeWhile (\<lambda>x. Some x \<noteq> n) ys @ w # dropWhile (\<lambda>x. Some x \<noteq> n) ys)"

fun first_change :: "'a list \<Rightarrow> 'a list \<Rightarrow> 'a option" where
  "first_change (x # xs) (y # ys) = (if x = y then first_change xs ys else Some y)"
| "first_change _ _ = None"

lemma first_change_app [simp]: "first_change (as @ x # xs) (as @ y # ys) = (if x = y then first_change xs ys else Some y)"
  by (induction as) auto

lemma tw_app: "n \<notin> set xs \<Longrightarrow> takeWhile (\<lambda>x. x \<noteq> n) (xs @ n # ys) = xs \<and> dropWhile (\<lambda>x. x \<noteq> n) (xs @ n # ys) = n # ys"
  by (induction xs) auto

lemma restack_same: "distinct (as @ w # bs) \<Longrightarrow> restack w (hdo bs) (as @ w # bs) = as @ w # bs"
  using tw_app [of "hd bs" as "tl bs"] by (cases bs) (auto simp: restack_def remove1_append Let_def)

lemma restack_bottom: "distinct (as @ w # bs) \<Longrightarrow> restack w None (as @ w # bs) = as @ bs @ [w]"
  by (simp add: restack_def remove1_append)

lemma restack_down: "distinct (as @ w # bs @ n # cs) \<Longrightarrow> restack w (Some n) (as @ w # bs @ n # cs) = as @ bs @ w # n # cs"
  using tw_app [of n "as @ bs" cs] by (auto simp: restack_def remove1_append Let_def)

lemma restack_up: "distinct (as @ n # bs @ w # cs) \<Longrightarrow> restack w (Some n) (as @ n # bs @ w # cs) = as @ w # n # bs @ cs"
  using tw_app [of n as "bs @ cs"] by (auto simp: restack_def remove1_append Let_def)

text \<open>Moving a window in the stack, whatever the branch: its children's list is restacked, and the result is the window that stands at the highest place where the list changes.\<close>

lemma move_in_stack:
  assumes i: "tree_inv (wins s) kids" and w: "w \<in> set (kids p)" and n: "nxt \<noteq> Some w" "\<And>n. nxt = Some n \<Longrightarrow> n \<in> set (kids p)"
  defines "xs \<equiv> restack w nxt (kids p)"
  shows "\<exists>s' c. MoveWindowInStack w nxt s = Some (s', c) \<and> tree_inv (wins s') (kids(p := xs)) \<and> same_attrs (wins s') (wins s) \<and>
    c = (if xs = kids p then Some w else first_change (kids p) xs) \<and>
    s' = s\<lparr>wins := wins s', calls := calls s @ (if xs = kids p then [] else [RestackWindow w (nextSib (the (wins s w)))])\<rparr>"
proof -
  obtain as bs where k: "kids p = as @ w # bs" using w split_list by metis
  from i k obtain pw where f: "wins s p = Some pw" "firstChild pw = hdo (kids p)" "distinct (kids p)" by (rule kids_facts) (use k in auto)
  obtain x where x: "wins s w = Some x" "parent x = Some p" "nextSib x = hdo bs" using kid_links [OF i k] by blast
  have d: "distinct (as @ w # bs)" using f(3) k by simp
  have upd: "kids(p := kids p) = kids" by simp
  have go: ?thesis if m: "moved p xs c kids s (case nxt of None \<Rightarrow> move_to_bottom p w s
          | Some n \<Rightarrow> if firstChild pw = Some n then move_to_top p w n s else move_to_middle p w n s)"
      and c: "first_change (kids p) xs = Some c" "xs \<noteq> kids p" and ne: "nextSib x \<noteq> nxt" for c
    using m c ne x f(1) by (auto simp: moved_def MoveWindowInStack_def log_def)
  show ?thesis
  proof (cases "nxt = hdo bs")
    case True
    then have "xs = kids p" using restack_same [OF d] k by (simp add: xs_def)
    then show ?thesis using True x i upd by (simp add: MoveWindowInStack_def)
  next
    case False
    then have ne: "nextSib x \<noteq> nxt" using x by simp
    show ?thesis
    proof (cases nxt)
      case None
      then obtain b bs' where b: "bs = b # bs'" using False by (cases bs) auto
      have xs: "xs = as @ b # bs' @ [w]" using None restack_bottom [OF d] k b by (simp add: xs_def)
      have "moved p xs b kids s (move_to_bottom p w s)" using move_to_bottom_spec [OF i, of p as w b bs'] k b xs by simp
      then show ?thesis using go [of b] None ne k b xs d by auto
    next
      case (Some m)
      then have "m \<in> set (as @ bs)" using n k by auto
      then consider "m \<in> set bs" | "m \<in> set as" by auto
      then show ?thesis
      proof cases
        case 1
        then obtain b bs' cs where b: "bs = b # bs' @ m # cs" using Some False by (cases bs) (auto dest: split_list)
        have xs: "xs = as @ b # bs' @ w # m # cs" using Some restack_down [of as w "b # bs'" m cs] d k b by (simp add: xs_def)
        have "firstChild pw \<noteq> Some m" using f(2) k b d by (cases as) auto
        moreover have "moved p xs b kids s (move_to_middle p w m s)" using move_down_spec [OF i, of p as w b bs' m cs] k b xs by simp
        ultimately show ?thesis using go [of b] Some ne k b xs d by auto
      next
        case 2
        then obtain us vs where us: "as = us @ m # vs" using split_list by metis
        have xs: "xs = us @ w # m # vs @ bs" using Some restack_up [of us m vs w bs] d k us by (simp add: xs_def)
        have "moved p xs w kids s (if firstChild pw = Some m then move_to_top p w m s else move_to_middle p w m s)"
        proof (cases us rule: rev_cases)
          case Nil
          then show ?thesis using move_to_top_spec [OF i, of p m vs w bs] k us xs f(2) by simp
        next
          case (snoc us' a)
          then have "firstChild pw \<noteq> Some m" using f(2) k us d by (cases us') auto
          then show ?thesis using move_up_spec [OF i, of p us' a m vs w bs] k us xs snoc by simp
        qed
        moreover have "w \<noteq> m" using d us by auto
        ultimately show ?thesis using go [of w] Some ne k us xs by auto
      qed
    qed
  qed
qed

subsection \<open>Properties\<close>

text \<open>C7. \<open>MoveWindowInStack\<close> puts a window directly above the given sibling, or at the bottom: as an operation on the doubly linked list of the parent's children it is
  \<open>restack\<close>, in all three branches of the code. All pointers of all windows agree again afterwards, nothing else of any window changes, and the result is the highest window where the list
  changes (the window itself when it stays where it is), from which the caller recomputes what is visible.\<close>

theorem MoveWindowInStack_restacks:
  assumes "tree_inv (wins s) kids" "w \<in> set (kids p)" "nxt \<noteq> Some w" "\<forall>n. nxt = Some n \<longrightarrow> n \<in> set (kids p)"
  defines "xs \<equiv> restack w nxt (kids p)"
  shows "\<exists>s'. MoveWindowInStack w nxt s = Some (s', if xs = kids p then Some w else first_change (kids p) xs) \<and>
    tree_inv (wins s') (kids(p := xs)) \<and> same_attrs (wins s') (wins s)"
proof -
  from move_in_stack [OF assms(1-3)] assms(4) obtain s' c where "MoveWindowInStack w nxt s = Some (s', c)" "tree_inv (wins s') (kids(p := xs))" "same_attrs (wins s') (wins s)"
      "c = (if xs = kids p then Some w else first_change (kids p) xs)"
    unfolding xs_def by metis
  then show ?thesis by blast
qed

theorem MoveWindowInStack_restacks_witness:
  "\<exists>s'. MoveWindowInStack 2 (Some 4) sample = Some (s', Some 3) \<and> tree_inv (wins s') (sample_kids(1 := [3, 2, 4]))"
  using MoveWindowInStack_restacks [OF sample_tree, of 2 1 "Some 4"] by (auto simp: sample_kids_def restack_def)

end
