(* ===== verification/WindowSaver.thy ===== *)
theory WindowSaver
  imports WindowSiblings
begin

text \<open>
  Windows and the screen saver (dix/window.c): while the saver is on, its window is the head of the root's children, and other windows are kept below it. Two requests that name the saver's window
  are not prepared for that.
\<close>

definition saved :: wstate where
  "saved = sample\<lparr>saver_on := True\<rparr>"

lemmas saved_defs = saved_def sample_def sample_wins_def sample_win_def

lemma saved_head: "RealChildHead sample_env 1 saved = Some (Some 2)"
  by (simp add: RealChildHead_def sample_env_def saved_defs)

text \<open>The topmost ordinary window is asked to go to the top if the saver's window covers it: the answer is the window itself.\<close>

lemma topif_above_itself:
  "WhereDoIGoInTheStack sample_env 3 (Some 2) 0 0 10 10 TopIf saved = Some (Some 3, saved)"
proof -
  have "IsSiblingAboveMe 3 2 saved = Some True"
    by (simp add: IsSiblingAboveMe_def above_loop.simps saved_defs)
  then show ?thesis using saved_head by (simp add: WhereDoIGoInTheStack_def first_real_def saved_defs sample_env_def)
qed

text \<open>Moving a window above itself makes it its own next sibling: the list of siblings has become a cycle, and loops over it do not end.\<close>

lemma move_above_itself:
  "\<exists>s' c w. MoveWindowInStack 3 (Some 3) saved = Some (s', c) \<and> wins s' 3 = Some w \<and> nextSib w = Some 3 \<and> prevSib w = Some 3"
proof -
  have "\<exists>ws'. relink_middle 1 3 3 saved = Some (saved\<lparr>wins := ws'\<rparr>) \<and> (\<exists>w. ws' 3 = Some w \<and> nextSib w = Some 3 \<and> prevSib w = Some 3) \<and>
      (\<exists>w. ws' 2 = Some w \<and> nextSib w = Some 3) \<and> (\<exists>w. ws' 1 = Some w \<and> firstChild w = Some 2)"
    by (simp add: relink_middle_def saved_defs)
  then obtain ws' w v u where r: "relink_middle 1 3 3 saved = Some (saved\<lparr>wins := ws'\<rparr>)" "ws' 3 = Some w" "nextSib w = Some 3" "prevSib w = Some 3"
      "ws' 2 = Some v" "nextSib v = Some 3" "ws' 1 = Some u" "firstChild u = Some 2" by blast
  have "first_of ws' 3 (Some 4) (Some 2) = Some (Some 3)"
    using r by (subst first_of.simps) (simp, subst first_of.simps, simp)
  moreover have "wins saved 3 = Some (sample_win (Some 1) (Some 4) (Some 2) (Some 5) (Some 5) True)"
    "wins saved 1 = Some (sample_win None None None (Some 2) (Some 4) True)" by (simp_all add: saved_def sample_def sample_wins_def)
  ultimately show ?thesis using r by (simp add: MoveWindowInStack_def move_to_middle_def sample_win_def)
qed

text \<open>The saver's window itself is asked to go to the top if any sibling covers it: the loop upwards looks for the head above it and follows a null pointer.\<close>

lemma topif_saver_null:
  "WhereDoIGoInTheStack sample_env 2 None 0 0 10 10 TopIf saved = None"
proof -
  have "AnyWindowOverlapsMe sample_env 2 (Some 2) (Box 0 0 (short 10) (short 10)) saved = None"
    by (simp add: AnyWindowOverlapsMe_def up_loop.simps saved_defs)
  then show ?thesis using saved_head by (simp add: WhereDoIGoInTheStack_def first_real_def saved_defs)
qed

end
