(* ===== verification/WindowLinks.thy ===== *)
theory WindowLinks
  imports WindowSiblings
begin

text \<open>
  Taking a window out of the list of its siblings and making it a child of another window. In between the pointers of the window itself are stale;
  the invariant then holds of the store in which they are cut off.
\<close>

definition cut :: "xid \<Rightarrow> store \<Rightarrow> store" where
  "cut w ws = ws(w \<mapsto> (the (ws w))\<lparr>parent := None, prevSib := None, nextSib := None\<rparr>)"

lemma unlink_spec:
  assumes i: "tree_inv (wins s) kids" and k: "kids p = as @ w # bs"
  shows "\<exists>ws'. unlink_sib p w s = Some (s\<lparr>wins := ws'\<rparr>) \<and> tree_inv (cut w ws') (kids(p := as @ bs)) \<and> same_attrs ws' (wins s) \<and> ws' w = wins s w"
proof -
  from i k obtain pw where f: "wins s p = Some pw" "firstChild pw = hdo (as @ w # bs)" "lastChild pw = lasto (as @ w # bs)"
    "distinct (as @ w # bs)" "p \<notin> set (as @ w # bs)" "chain (wins s) None (as @ w # bs) None"
    by (rule kids_facts) simp
  show ?thesis
  proof (cases as rule: rev_cases; cases bs)
  qed (use f k in \<open>auto simp: unlink_sib_def cut_def chain_app intro!: detach_inv [OF i f(1) k]\<close>)
qed

lemma link_spec:
  assumes i: "tree_inv (cut w (wins s)) kids" and w: "wins s w = Some x" "parent x = Some q" and q: "wins s q \<noteq> None"
    and up: "(q, w) \<notin> (child_rel kids)\<^sup>*" and h: "RealChildHead e q s = Some (lasto as)" and k: "kids q = as @ bs"
  shows "\<exists>ws'. link_top e q w s = Some (s\<lparr>wins := ws'\<rparr>) \<and> tree_inv ws' (kids(q := as @ w # bs)) \<and> same_attrs ws' (wins s)"
proof -
  have qw: "q \<noteq> w" using up by auto
  then obtain qw where f: "wins s q = Some qw" "cut w (wins s) q = Some qw" using q by (auto simp: cut_def)
  have g: "firstChild qw = hdo (as @ bs)" "lastChild qw = lasto (as @ bs)" "distinct (as @ bs)" "q \<notin> set (as @ bs)" "chain (cut w (wins s)) None (as @ bs) None"
    using tree_invD [OF i f(2)] not_own_child [OF i, of q] k by auto
  have nw: "w \<notin> set (as @ bs)" using tree_inv_parent [OF i, of w q] k by (auto simp: cut_def)
  then have ch: "chain (wins s) None (as @ bs) None" using g(5) by (simp add: cut_def)
  have cw: "cut w (wins s) w = Some (x\<lparr>parent := None, prevSib := None, nextSib := None\<rparr>)" using w by (simp add: cut_def)
  show ?thesis
  proof (cases as rule: rev_cases; cases bs)
  qed (use f g(1-4) nw ch w qw h k in \<open>auto simp: link_top_def cut_def chain_app intro!: attach_inv [OF i cw _ k up]\<close>)
qed

end
