(* ===== verification/WindowMapping.thy ===== *)
theory WindowMapping
  imports WindowLinks
begin

text \<open>
  Mapping and unmapping (dix/window.c): a window is realized exactly when it and all its ancestors are mapped, and viewable when it is realized and can be seen.
  Mapping and unmapping a window keep this by walks over its subtree.
\<close>

subsection \<open>Walks whose visits never stop\<close>

text \<open>The part of a subtree that a walk reaches which goes on below the windows with a property.\<close>

primrec lit :: "(xid \<Rightarrow> bool) \<Rightarrow> wtree \<Rightarrow> xid set" where
  "lit P (Node w ts) = (if P w then insert w (\<Union> (set (List.map (lit P) ts))) else {})"

lemma lit_nodes: "lit P t \<subseteq> set (nodes t)"
proof (induction t)
  case (Node w ts)
  have "\<Union> (set (List.map (lit P) ts)) \<subseteq> set (concat (List.map nodes ts))" using Node by fastforce
  then show ?case by auto
qed

lemma lit_P: "c \<in> lit P t \<Longrightarrow> P c"
  by (induction t) (auto split: if_splits)

lemma lit_label: "label t \<in> lit P t \<longleftrightarrow> P (label t)"
  by (cases t) (auto dest: lit_P)

lemma lit_up: "shape kids t \<Longrightarrow> c \<in> lit P t \<Longrightarrow> c \<noteq> label t \<Longrightarrow> \<exists>p \<in> lit P t. c \<in> set (kids p)"
proof (induction rule: shape.induct)
  case (1 w ts)
  then obtain t where t: "t \<in> set ts" "c \<in> lit P t" "P w" by (auto split: if_splits)
  show ?case
  proof (cases "c = label t")
    case True
    then show ?thesis using 1 t by auto
  next
    case False
    then obtain p where "p \<in> lit P t" "c \<in> set (kids p)" using 1 t by blast
    then show ?thesis using t by auto
  qed
qed

lemma lit_down: "shape kids t \<Longrightarrow> p \<in> lit P t \<Longrightarrow> c \<in> set (kids p) \<Longrightarrow> P c \<Longrightarrow> c \<in> lit P t"
proof (induction rule: shape.induct)
  case (1 w ts)
  have w: "P w" using "1.prems"(1) by (simp split: if_splits)
  show ?case
  proof (cases "p = w")
    case True
    then obtain t where "t \<in> set ts" "c = label t" using 1 by auto
    then show ?thesis using w lit_label [of t P] 1 by auto
  next
    case False
    then obtain t where "t \<in> set ts" "p \<in> lit P t" using "1.prems"(1) w by auto
    then show ?thesis using w 1 by auto
  qed
qed

text \<open>The windows of a subtree are visited once: no window is in two subtrees.\<close>

lemma child_rel_fun: "tree_inv ws kids \<Longrightarrow> (c, p) \<in> child_rel kids \<Longrightarrow> (c, q) \<in> child_rel kids \<Longrightarrow> p = q"
  using kids_disjoint by (fastforce simp: child_rel_def)

lemma ancestors_comparable:
  assumes "tree_inv ws kids" "(x, a) \<in> (child_rel kids)\<^sup>*" "(x, b) \<in> (child_rel kids)\<^sup>*"
  shows "(a, b) \<in> (child_rel kids)\<^sup>* \<or> (b, a) \<in> (child_rel kids)\<^sup>*"
  using assms(2,3)
proof (induction rule: converse_rtrancl_induct)
  case (step x y)
  show ?case
  proof (cases "x = b")
    case True
    then have "(b, a) \<in> (child_rel kids)\<^sup>*" using step.hyps by (meson converse_rtrancl_into_rtrancl)
    then show ?thesis by blast
  next
    case False
    then obtain z where "(x, z) \<in> child_rel kids" "(z, b) \<in> (child_rel kids)\<^sup>*" using step.prems by (meson converse_rtranclE)
    then show ?thesis using step child_rel_fun [OF assms(1)] by metis
  qed
qed simp

lemma tree_nodes_distinct:
  assumes i: "tree_inv ws kids"
  shows "shape kids t \<Longrightarrow> ws (label t) \<noteq> None \<Longrightarrow> distinct (nodes t)"
proof (induction rule: shape.induct)
  case (1 w ts)
  then obtain x where x: "ws w = Some x" by auto
  have dl: "distinct (List.map label ts)" using tree_invD(3) [OF i x] 1 by simp
  have kid: "(label t, w) \<in> child_rel kids" if "t \<in> set ts" for t using 1 that by (auto simp: child_rel_def)
  have no: "(label t, label u) \<notin> (child_rel kids)\<^sup>*" if tu: "t \<in> set ts" "u \<in> set ts" "label t \<noteq> label u" for t u
  proof
    assume "(label t, label u) \<in> (child_rel kids)\<^sup>*"
    then obtain z where "(label t, z) \<in> child_rel kids" "(z, label u) \<in> (child_rel kids)\<^sup>*" using tu by (meson converse_rtranclE)
    then have "(w, label u) \<in> (child_rel kids)\<^sup>*" using child_rel_fun [OF i kid] tu by metis
    then have "(w, w) \<in> (child_rel kids)\<^sup>+" using kid [OF tu(2)] by auto
    then show False using i by (auto simp: tree_inv_def acyclic_def)
  qed
  have disj: "set (nodes t) \<inter> set (nodes u) = {}" if tu: "t \<in> set ts" "u \<in> set ts" "label t \<noteq> label u" for t u
  proof (rule ccontr)
    assume "set (nodes t) \<inter> set (nodes u) \<noteq> {}"
    then obtain y where "y \<in> set (nodes t)" "y \<in> set (nodes u)" by auto
    then have "(y, label t) \<in> (child_rel kids)\<^sup>*" "(y, label u) \<in> (child_rel kids)\<^sup>*" using nodes_desc 1 tu by blast+
    then show False using ancestors_comparable [OF i] no tu by metis
  qed
  have each: "distinct (nodes t)" if "t \<in> set ts" for t
  proof -
    have "label t \<in> set (kids w)" using 1 that by simp
    then obtain y where "ws (label t) = Some y" by (rule tree_inv_kid [OF i])
    then show ?thesis using 1 that by simp
  qed
  have "distinct (concat (List.map nodes ts))"
    using dl each disj
  proof (induction ts)
    case (Cons t ts)
    have "set (nodes t) \<inter> set (nodes u) = {}" if "u \<in> set ts" for u using Cons.prems that by fastforce
    then show ?case using Cons by fastforce
  qed simp
  moreover have "w \<notin> set (concat (List.map nodes ts))"
  proof
    assume "w \<in> set (concat (List.map nodes ts))"
    then obtain t where "t \<in> set ts" "w \<in> set (nodes t)" by auto
    then show False using nodes_sub_not_top [OF i] 1 by (metis shape.intros)
  qed
  ultimately show ?case by simp
qed

lemma nodes_alive:
  assumes i: "tree_inv ws kids"
  shows "shape kids t \<Longrightarrow> ws (label t) \<noteq> None \<Longrightarrow> x \<in> set (nodes t) \<Longrightarrow> ws x \<noteq> None"
proof (induction rule: shape.induct)
  case (1 w ts)
  show ?case
  proof (cases "x = w")
    case False
    then obtain t where t: "t \<in> set ts" "x \<in> set (nodes t)" using 1 by auto
    then have "label t \<in> set (kids w)" using 1 by simp
    then have "ws (label t) \<noteq> None" using tree_inv_parent [OF i] by auto
    then show ?thesis using 1 t by blast
  qed (use 1 in simp)
qed

subsection \<open>Realized windows\<close>

definition wmapped :: "store \<Rightarrow> xid \<Rightarrow> bool" where "wmapped ws c \<longleftrightarrow> (\<exists>w. ws c = Some w \<and> mapped w)"
definition wrealized :: "store \<Rightarrow> xid \<Rightarrow> bool" where "wrealized ws c \<longleftrightarrow> (\<exists>w. ws c = Some w \<and> realized w)"

definition shown_inv :: "store \<Rightarrow> bool" where
  "shown_inv ws \<longleftrightarrow> (\<forall>c w. ws c = Some w \<longrightarrow>
     (realized w \<longleftrightarrow> mapped w \<and> (\<forall>p. parent w = Some p \<longrightarrow> wrealized ws p)) \<and>
     (viewable w \<longleftrightarrow> realized w \<and> win_class w = InputOutput))"

text \<open>All windows of a set become realized, or unrealized.\<close>

definition light :: "xid set \<Rightarrow> store \<Rightarrow> store" where
  "light A ws = (\<lambda>c. if c \<in> A then map_option (\<lambda>w. w\<lparr>realized := True, viewable := (win_class w = InputOutput)\<rparr>) (ws c) else ws c)"

definition dark :: "xid set \<Rightarrow> store \<Rightarrow> store" where
  "dark A ws = (\<lambda>c. if c \<in> A then map_option (\<lambda>w. w\<lparr>realized := False, viewable := False, visibility := VisibilityNotViewable\<rparr>) (ws c) else ws c)"

lemma light_simps [simp]: "light {} ws = ws" "light A (light B ws) = light (A \<union> B) ws" "wmapped (light A ws) c = wmapped ws c"
  by (auto simp: light_def fun_eq_iff wmapped_def map_option_case split: option.splits)

lemma dark_simps [simp]: "dark {} ws = ws" "dark A (dark B ws) = dark (A \<union> B) ws" "wmapped (dark A ws) c = wmapped ws c"
  by (auto simp: dark_def fun_eq_iff wmapped_def map_option_case split: option.splits)

lemma wrealized_dark: "wrealized (dark A ws) c \<longleftrightarrow> wrealized ws c \<and> c \<notin> A"
  by (auto simp: dark_def wrealized_def)

lemma links_light [simp]: "links (light A ws) = links ws"
  by (auto simp: light_def links_def fun_eq_iff map_option_case split: option.splits)

lemma links_dark [simp]: "links (dark A ws) = links ws"
  by (auto simp: dark_def links_def fun_eq_iff map_option_case split: option.splits)

text \<open>Only windows and the log have changed.\<close>

definition same_rest :: "wstate \<Rightarrow> wstate \<Rightarrow> bool" where
  "same_rest s' s \<longleftrightarrow> scr_root s' = scr_root s \<and> saver_on s' = saver_on s \<and> mem_answers s' = mem_answers s \<and> mem_used s' = mem_used s"

lemma same_rest_simps [simp]: "same_rest s s" "same_rest (log cs s') s \<longleftrightarrow> same_rest s' s" "same_rest (s'\<lparr>wins := ws\<rparr>) s \<longleftrightarrow> same_rest s' s"
  by (auto simp: same_rest_def)

lemma same_rest_trans: "same_rest a b \<Longrightarrow> same_rest b c \<Longrightarrow> same_rest a c"
  by (simp add: same_rest_def)

lemma lit_cong: "(\<And>c. c \<in> set (nodes t) \<Longrightarrow> P c \<longleftrightarrow> Q c) \<Longrightarrow> lit P t = lit Q t"
proof (induction t)
  case (Node w ts)
  have "lit P t = lit Q t" if "t \<in> set ts" for t
    by (rule Node.IH [OF that]) (rule Node.prems, use that in auto)
  then have "List.map (lit P) ts = List.map (lit Q) ts" by simp
  then show ?case using Node.prems [of w] by simp
qed

text \<open>A sweep changes the windows with a property and goes on below them; what it does to one window does not change the property of the others.\<close>

locale sweep_visit =
  fixes visit :: "xid \<Rightarrow> wstate \<Rightarrow> (wstate \<times> walk) option" and P :: "store \<Rightarrow> xid \<Rightarrow> bool" and act :: "xid set \<Rightarrow> store \<Rightarrow> store"
  assumes visit_yes: "wins s w \<noteq> None \<Longrightarrow> P (wins s) w \<Longrightarrow> \<exists>s'. visit w s = Some (s', WT_WALKCHILDREN) \<and> wins s' = act {w} (wins s) \<and> same_rest s' s"
    and visit_no: "wins s w \<noteq> None \<Longrightarrow> \<not> P (wins s) w \<Longrightarrow> visit w s = Some (s, WT_DONTWALKCHILDREN)"
    and visit_dead: "wins s w = None \<Longrightarrow> visit w s = None"
    and act_empty: "act {} ws = ws"
    and act_un: "act A (act B ws) = act (A \<union> B) ws"
    and act_P: "c \<notin> A \<Longrightarrow> P (act A ws) c \<longleftrightarrow> P ws c"
    and act_links: "links (act A ws) = links ws"
begin

sublocale tree_visit visit
proof
  fix c s s' r assume v: "visit c s = Some (s', r)"
  then have "wins s c \<noteq> None" using visit_dead [of s c] by (cases "wins s c") auto
  then show "links (wins s') = links (wins s)" using v visit_yes visit_no act_links by (cases "P (wins s) c") force+
qed

lemma sweep_list:
  assumes "\<And>t s. t \<in> set ts \<Longrightarrow> distinct (nodes t) \<Longrightarrow> \<forall>x \<in> set (nodes t). wins s x \<noteq> None \<Longrightarrow>
      \<exists>s'. walk_tree visit t s = Some (s', False) \<and> wins s' = act (lit (P (wins s)) t) (wins s) \<and> same_rest s' s"
    "distinct (concat (List.map nodes ts))" "\<forall>x \<in> set (concat (List.map nodes ts)). wins s x \<noteq> None"
  shows "\<exists>s'. walk_list visit ts s = Some (s', False) \<and> wins s' = act (\<Union> (lit (P (wins s)) ` set ts)) (wins s) \<and> same_rest s' s"
  using assms
proof (induction ts arbitrary: s)
  case Nil
  then show ?case by (simp add: act_empty)
next
  case (Cons t ts)
  let ?A = "lit (P (wins s)) t"
  have "\<exists>s'. walk_tree visit t s = Some (s', False) \<and> wins s' = act ?A (wins s) \<and> same_rest s' s"
    by (rule Cons.prems(1)) (use Cons.prems(2,3) in simp_all)
  then obtain s2 where s2: "walk_tree visit t s = Some (s2, False)" "wins s2 = act ?A (wins s)" "same_rest s2 s" by blast
  have "wins s2 x = None \<longleftrightarrow> wins s x = None" for x using links_None [of "wins s2" "wins s" x] s2(2) act_links by simp
  then have "\<forall>x \<in> set (concat (List.map nodes ts)). wins s2 x \<noteq> None" using Cons.prems(3) by simp
  moreover have "distinct (concat (List.map nodes ts))" using Cons.prems(2) by simp
  ultimately obtain s' where s': "walk_list visit ts s2 = Some (s', False)" "wins s' = act (\<Union> (lit (P (wins s2)) ` set ts)) (wins s2)" "same_rest s' s2"
    using Cons.IH [of s2] Cons.prems(1) by (metis list.set_intros(2))
  have "lit (P (wins s2)) u = lit (P (wins s)) u" if "u \<in> set ts" for u
  proof (rule lit_cong)
    fix c assume "c \<in> set (nodes u)"
    then have "c \<notin> set (nodes t)" using Cons.prems(2) that by auto
    then have "c \<notin> ?A" using lit_nodes by blast
    then show "P (wins s2) c \<longleftrightarrow> P (wins s) c" using s2(2) act_P by simp
  qed
  then have "wins s' = act (\<Union> (lit (P (wins s)) ` set (t # ts))) (wins s)" using s'(2) s2(2) act_un by (simp add: Un_commute)
  then show ?case using s2 s' same_rest_trans by auto
qed

lemma sweep_tree:
  assumes "distinct (nodes t)" "\<forall>x \<in> set (nodes t). wins s x \<noteq> None"
  shows "\<exists>s'. walk_tree visit t s = Some (s', False) \<and> wins s' = act (lit (P (wins s)) t) (wins s) \<and> same_rest s' s"
  using assms
proof (induction t arbitrary: s)
  case (Node w ts)
  have w: "wins s w \<noteq> None" using Node.prems(2) by simp
  show ?case
  proof (cases "P (wins s) w")
    case True
    then obtain s1 where s1: "visit w s = Some (s1, WT_WALKCHILDREN)" "wins s1 = act {w} (wins s)" "same_rest s1 s" using visit_yes w by blast
    have "wins s1 x = None \<longleftrightarrow> wins s x = None" for x using links_None [of "wins s1" "wins s" x] s1(2) act_links by simp
    then have "\<forall>x \<in> set (concat (List.map nodes ts)). wins s1 x \<noteq> None" using Node.prems(2) by simp
    moreover have "distinct (concat (List.map nodes ts))" using Node.prems(1) by simp
    ultimately obtain s' where s': "walk_list visit ts s1 = Some (s', False)" "wins s' = act (\<Union> (lit (P (wins s1)) ` set ts)) (wins s1)" "same_rest s' s1"
      using sweep_list [of ts s1] Node.IH by blast
    have "lit (P (wins s1)) u = lit (P (wins s)) u" if "u \<in> set ts" for u
    proof (rule lit_cong)
      fix c assume "c \<in> set (nodes u)"
      then have "c \<noteq> w" using Node.prems(1) that by auto
      then show "P (wins s1) c \<longleftrightarrow> P (wins s) c" using s1(2) act_P [of c "{w}"] by simp
    qed
    then have "wins s' = act (lit (P (wins s)) (Node w ts)) (wins s)" using s'(2) s1(2) act_un True by (simp add: Un_commute)
    then show ?thesis using s1 s' same_rest_trans by auto
  next
    case False
    then show ?thesis using visit_no w act_empty by simp
  qed
qed

lemma sweep:
  assumes "tree_inv (wins s) kids" "wins s w \<noteq> None" "shape kids t" "label t = w"
  shows "\<exists>s'. tree_loop visit w w s = Some (s', False) \<and> wins s' = act (lit (P (wins s)) t) (wins s) \<and> same_rest s' s"
  using walk_top [OF assms] sweep_tree [OF tree_nodes_distinct [OF assms(1,3)]] nodes_alive [OF assms(1,3)] assms by metis

end

interpretation realize: sweep_visit realize_visit wmapped light
proof
  fix s :: wstate and w assume "wins s w \<noteq> None" "wmapped (wins s) w"
  then obtain x where "wins s w = Some x" "mapped x" by (auto simp: wmapped_def)
  then show "\<exists>s'. realize_visit w s = Some (s', WT_WALKCHILDREN) \<and> wins s' = light {w} (wins s) \<and> same_rest s' s"
    by (auto simp: realize_visit_def light_def fun_eq_iff)
qed (simp_all, auto simp: realize_visit_def wmapped_def)

interpretation unrealize: sweep_visit "unrealize_visit top fc" wrealized dark for top fc
proof
  fix s :: wstate and w assume "wins s w \<noteq> None" "wrealized (wins s) w"
  then obtain x where x: "wins s w = Some x" "realized x" by (auto simp: wrealized_def)
  show "\<exists>s'. unrealize_visit top fc w s = Some (s', WT_WALKCHILDREN) \<and> wins s' = dark {w} (wins s) \<and> same_rest s' s"
    using x by (cases "viewable x") (auto simp: unrealize_visit_def dixScreenRaiseUnrealizeWindow_def dark_def fun_eq_iff)
qed (auto simp: unrealize_visit_def wrealized_def wrealized_dark [unfolded wrealized_def])

subsection \<open>The invariant of realized windows\<close>

lemma shown_invD:
  assumes "shown_inv ws" "ws c = Some w"
  shows "realized w \<longleftrightarrow> mapped w \<and> (\<forall>p. parent w = Some p \<longrightarrow> wrealized ws p)" "viewable w \<longleftrightarrow> realized w \<and> win_class w = InputOutput"
  using assms by (auto simp: shown_inv_def)

text \<open>Outside one subtree nothing hangs on it: for the invariant of a store in which a set of windows was lit or darkened, the windows at its edge count.\<close>

lemma shown_light:
  assumes i: "tree_inv ws kids" and t: "shape kids t" "label t = w" and x: "ws w = Some x" "mapped x"
    and up: "\<forall>p. parent x = Some p \<longrightarrow> wrealized ws p"
    and rest: "\<And>c y. ws c = Some y \<Longrightarrow> c \<noteq> w \<Longrightarrow> (realized y \<longleftrightarrow> mapped y \<and> (\<forall>p. parent y = Some p \<longrightarrow> wrealized ws p)) \<and> (viewable y \<longleftrightarrow> realized y \<and> win_class y = InputOutput)"
  shows "shown_inv (light (lit (wmapped ws) t) ws)"
proof -
  let ?A = "lit (wmapped ws) t" and ?ws = "light (lit (wmapped ws) t) ws"
  have wA: "w \<in> ?A" using lit_label [of t "wmapped ws"] t x by (simp add: wmapped_def)
  have r: "wrealized ?ws p \<longleftrightarrow> wrealized ws p \<or> p \<in> ?A" for p
    using lit_P [of p "wmapped ws" t] by (auto simp: wrealized_def light_def wmapped_def)
  have "(realized y' \<longleftrightarrow> mapped y' \<and> (\<forall>p. parent y' = Some p \<longrightarrow> wrealized ?ws p)) \<and> (viewable y' \<longleftrightarrow> realized y' \<and> win_class y' = InputOutput)"
    if y': "?ws c = Some y'" for c y'
  proof (cases "c \<in> ?A")
    case True
    then obtain y where y: "ws c = Some y" "y' = y\<lparr>realized := True, viewable := (win_class y = InputOutput)\<rparr>" using y' by (auto simp: light_def)
    have m: "mapped y" using lit_P [OF True] y by (auto simp: wmapped_def)
    have "\<forall>p. parent y = Some p \<longrightarrow> wrealized ?ws p"
    proof (cases "c = w")
      case True
      then show ?thesis using up x y r by (auto split: option.splits)
    next
      case False
      then obtain p where "p \<in> ?A" "c \<in> set (kids p)" using lit_up [OF t(1) True] t(2) by blast
      then show ?thesis using tree_inv_parent [OF i] y r by auto
    qed
    then show ?thesis using y m by simp
  next
    case False
    then have y: "ws c = Some y'" "c \<noteq> w" using y' wA by (auto simp: light_def)
    have "p \<notin> ?A" if "parent y' = Some p" "mapped y'" for p
    proof
      assume "p \<in> ?A"
      moreover have "c \<in> set (kids p)" using tree_inv_parent [OF i] y that by blast
      moreover have "wmapped ws c" using y that by (simp add: wmapped_def)
      ultimately show False using lit_down [OF t(1)] False by blast
    qed
    then show ?thesis using rest [OF y] r by (auto split: option.splits)
  qed
  then show ?thesis by (simp add: shown_inv_def)
qed

lemma shown_dark:
  assumes i: "tree_inv ws kids" and t: "shape kids t" "label t = w" and x: "ws w = Some x" "\<not> mapped x" "realized x"
    and rest: "\<And>c y. ws c = Some y \<Longrightarrow> c \<noteq> w \<Longrightarrow> (realized y \<longleftrightarrow> mapped y \<and> (\<forall>p. parent y = Some p \<longrightarrow> wrealized ws p)) \<and> (viewable y \<longleftrightarrow> realized y \<and> win_class y = InputOutput)"
  shows "shown_inv (dark (lit (wrealized ws) t) ws)"
proof -
  let ?A = "lit (wrealized ws) t" and ?ws = "dark (lit (wrealized ws) t) ws"
  have wA: "w \<in> ?A" using lit_label [of t "wrealized ws"] t x by (simp add: wrealized_def)
  have "(realized y' \<longleftrightarrow> mapped y' \<and> (\<forall>p. parent y' = Some p \<longrightarrow> wrealized ?ws p)) \<and> (viewable y' \<longleftrightarrow> realized y' \<and> win_class y' = InputOutput)"
    if y': "?ws c = Some y'" for c y'
  proof (cases "c \<in> ?A")
    case True
    then obtain y where y: "ws c = Some y" "y' = y\<lparr>realized := False, viewable := False, visibility := VisibilityNotViewable\<rparr>" using y' by (auto simp: dark_def)
    have "\<not> (mapped y \<and> (\<forall>p. parent y = Some p \<longrightarrow> wrealized ?ws p))"
    proof (cases "c = w")
      case False
      then obtain p where "p \<in> ?A" "c \<in> set (kids p)" using lit_up [OF t(1) True] t(2) by blast
      then show ?thesis using tree_inv_parent [OF i] y wrealized_dark by auto
    qed (use x y in simp)
    then show ?thesis using y by simp
  next
    case False
    then have y: "ws c = Some y'" "c \<noteq> w" using y' wA by (auto simp: dark_def)
    have "\<not> realized y'" if "parent y' = Some p" "p \<in> ?A" for p
    proof
      assume "realized y'"
      then have "wrealized ws c" using y by (simp add: wrealized_def)
      moreover have "c \<in> set (kids p)" using tree_inv_parent [OF i] y that by blast
      ultimately show False using lit_down [OF t(1)] False that by blast
    qed
    then show ?thesis using rest [OF y] wrealized_dark by (auto split: option.splits)
  qed
  then show ?thesis by (simp add: shown_inv_def)
qed

lemma realize_tree_spec:
  assumes i: "tree_inv (wins s) kids" and x: "wins s w = Some x" "mapped x" "\<forall>p. parent x = Some p \<longrightarrow> wrealized (wins s) p"
    and rest: "\<And>c y. wins s c = Some y \<Longrightarrow> c \<noteq> w \<Longrightarrow> (realized y \<longleftrightarrow> mapped y \<and> (\<forall>p. parent y = Some p \<longrightarrow> wrealized (wins s) p)) \<and> (viewable y \<longleftrightarrow> realized y \<and> win_class y = InputOutput)"
  shows "\<exists>s' A. RealizeTree w s = Some s' \<and> shown_inv (wins s') \<and> wins s' = light A (wins s) \<and> same_rest s' s"
proof -
  obtain t where t: "label t = w" "shape kids t" using shape_exists [OF tree_inv_wf [OF i]] by blast
  obtain s' where "tree_loop realize_visit w w s = Some (s', False)" "wins s' = light (lit (wmapped (wins s)) t) (wins s)" "same_rest s' s"
    using realize.sweep [OF i _ t(2,1)] x by auto
  then show ?thesis using shown_light [OF i t(2,1) x rest] by (auto simp: RealizeTree_def)
qed

lemma unrealize_tree_spec:
  assumes i: "tree_inv (wins s) kids" and x: "wins s w = Some x" "\<not> mapped x" "realized x"
    and rest: "\<And>c y. wins s c = Some y \<Longrightarrow> c \<noteq> w \<Longrightarrow> (realized y \<longleftrightarrow> mapped y \<and> (\<forall>p. parent y = Some p \<longrightarrow> wrealized (wins s) p)) \<and> (viewable y \<longleftrightarrow> realized y \<and> win_class y = InputOutput)"
  shows "\<exists>s' A. UnrealizeTree w fc s = Some s' \<and> shown_inv (wins s') \<and> wins s' = dark A (wins s) \<and> same_rest s' s"
proof -
  obtain t where t: "label t = w" "shape kids t" using shape_exists [OF tree_inv_wf [OF i]] by blast
  obtain s' where "tree_loop (unrealize_visit w fc) w w s = Some (s', False)" "wins s' = dark (lit (wrealized (wins s)) t) (wins s)" "same_rest s' s"
    using unrealize.sweep [OF i _ t(2,1)] x by auto
  then show ?thesis using shown_dark [OF i t(2,1) x rest] by (auto simp: UnrealizeTree_def)
qed

end
