(* ===== verification/WindowShown.thy ===== *)
theory WindowShown
  imports WindowMapping
begin

text \<open>
  What mapping and unmapping windows does (dix/window.c): the requests return, the shape of the tree, positions and attributes stay, and afterwards again exactly the windows
  are realized that are mapped with all their ancestors.
\<close>

subsection \<open>What stays\<close>

definition still :: "WindowRec \<Rightarrow> WindowRec" where
  "still w = w\<lparr>mapped := False, realized := False, viewable := False, visibility := 0\<rparr>"

definition same_still :: "store \<Rightarrow> store \<Rightarrow> bool" where
  "same_still ws' ws \<longleftrightarrow> (\<forall>c. map_option still (ws' c) = map_option still (ws c))"

lemma same_still_refl [simp]: "same_still ws ws"
  by (simp add: same_still_def)

lemma same_still_trans: "same_still a b \<Longrightarrow> same_still b c \<Longrightarrow> same_still a c"
  by (simp add: same_still_def)

lemma still_fields:
  assumes "still w' = still w"
  shows "parent w' = parent w" "nextSib w' = nextSib w" "prevSib w' = prevSib w" "firstChild w' = firstChild w" "lastChild w' = lastChild w"
    "win_class w' = win_class w" "optional w' = optional w" "draw_x w' = draw_x w" "draw_y w' = draw_y w" "origin_x w' = origin_x w" "origin_y w' = origin_y w"
    "borderWidth w' = borderWidth w" "cursorIsNone w' = cursorIsNone w"
  using assms by (cases w; cases w'; simp add: still_def)+

lemma same_still_Some: "same_still ws' ws \<Longrightarrow> ws' c = Some w' \<Longrightarrow> \<exists>w. ws c = Some w \<and> still w' = still w"
  unfolding same_still_def by (drule spec [of _ c]) (cases "ws c"; simp)

lemma same_still_Some': "same_still ws' ws \<Longrightarrow> ws c = Some w \<Longrightarrow> \<exists>w'. ws' c = Some w' \<and> still w' = still w"
  unfolding same_still_def by (drule spec [of _ c]) (cases "ws' c"; simp)

lemma same_still_None: "same_still ws' ws \<Longrightarrow> ws' c = None \<longleftrightarrow> ws c = None"
  unfolding same_still_def by (drule spec [of _ c]) (cases "ws' c"; cases "ws c"; simp)

lemma same_still_links: "same_still ws' ws \<Longrightarrow> links ws' = links ws"
proof
  fix c assume s: "same_still ws' ws"
  show "links ws' c = links ws c"
  proof (cases "ws' c")
    case None
    then show ?thesis using same_still_None [OF s, of c] by (simp add: links_def)
  next
    case (Some w')
    then obtain w where "ws c = Some w" "still w' = still w" using same_still_Some [OF s] by blast
    then show ?thesis using Some still_fields [of w' w] by (simp add: links_def)
  qed
qed

lemma still_mapped [simp]: "still (w\<lparr>mapped := b\<rparr>) = still w"
  by (simp add: still_def)

lemma same_still_upd: "ws' c = Some w \<Longrightarrow> still w' = still w \<Longrightarrow> same_still ws' ws \<Longrightarrow> same_still (ws'(c \<mapsto> w')) ws"
  by (simp add: same_still_def) (metis option.map(2))

lemma same_still_light [simp]: "same_still (light A ws') ws \<longleftrightarrow> same_still ws' ws"
  by (simp add: same_still_def light_def still_def map_option_case split: option.splits)

lemma same_still_dark [simp]: "same_still (dark A ws') ws \<longleftrightarrow> same_still ws' ws"
  by (simp add: same_still_def dark_def still_def map_option_case split: option.splits)

text \<open>Offering an event only adds to the log.\<close>

lemma offer_others_only: "offer_others e w ev f c os s = (b, s') \<Longrightarrow> wins s' = wins s \<and> same_rest s' s"
  by (induction os) (auto simp: offer_event_def split: if_splits)

lemma deliver_only:
  assumes "wins s w \<noteq> None"
  obtains b s' where "MaybeDeliverEventToClient e w ev f c s = Some (b, s')" "wins s' = wins s" "same_rest s' s"
proof -
  obtain x where x: "wins s w = Some x" using assms by blast
  obtain b s' where d: "MaybeDeliverEventToClient e w ev f c s = Some (b, s')" using x by (simp add: MaybeDeliverEventToClient_def) (metis surj_pair)
  then have "wins s' = wins s \<and> same_rest s' s"
    using x offer_others_only by (fastforce simp: MaybeDeliverEventToClient_def offer_event_def split: if_splits)
  then show thesis using that d by blast
qed

text \<open>Screens of a single layer, like those of mi/miwindow.c.\<close>

definition single_layer :: "wenv \<Rightarrow> bool" where
  "single_layer e \<longleftrightarrow> (\<forall>ws w c. layer_win e ws w c = w) \<and> (\<forall>ws w x k. ws w = Some x \<longrightarrow> firstChild x = Some k \<longrightarrow> GetLayerWindow e ws w = k)"

lemma validate_only:
  assumes "wins s l \<noteq> None"
  obtains s' where "validate e l first kind s = Some s'" "wins s' = wins s" "same_rest s' s"
  using assms that by (auto simp: validate_def)

subsection \<open>Mapping\<close>

text \<open>After the flag of a window has been set, the rest of the tree is as the invariant says.\<close>

lemma rest_shown:
  assumes "shown_inv ws" "ws w = Some x" "realized (f x) = realized x"
  shows "\<And>c y. (ws(w \<mapsto> f x)) c = Some y \<Longrightarrow> c \<noteq> w \<Longrightarrow>
    (realized y \<longleftrightarrow> mapped y \<and> (\<forall>p. parent y = Some p \<longrightarrow> wrealized (ws(w \<mapsto> f x)) p)) \<and> (viewable y \<longleftrightarrow> realized y \<and> win_class y = InputOutput)"
proof -
  have "wrealized (ws(w \<mapsto> f x)) = wrealized ws" using assms by (auto simp: wrealized_def fun_eq_iff)
  then show "\<And>c y. (ws(w \<mapsto> f x)) c = Some y \<Longrightarrow> c \<noteq> w \<Longrightarrow>
    (realized y \<longleftrightarrow> mapped y \<and> (\<forall>p. parent y = Some p \<longrightarrow> wrealized (ws(w \<mapsto> f x)) p)) \<and> (viewable y \<longleftrightarrow> realized y \<and> win_class y = InputOutput)"
    using shown_invD [OF assms(1)] by auto
qed

definition mapped_only :: "xid \<Rightarrow> bool \<Rightarrow> store \<Rightarrow> store \<Rightarrow> bool" where
  "mapped_only w b ws' ws \<longleftrightarrow> same_still ws' ws \<and> wmapped ws' w = b \<and> (\<forall>c. c \<noteq> w \<longrightarrow> wmapped ws' c = wmapped ws c)"

lemma mapped_only_simps [simp]: "mapped_only w b (light A ws') ws \<longleftrightarrow> mapped_only w b ws' ws" "mapped_only w b (dark A ws') ws \<longleftrightarrow> mapped_only w b ws' ws"
  by (simp_all add: mapped_only_def)

lemma mapped_only_upd: "ws w = Some x \<Longrightarrow> mapped_only w b (ws(w \<mapsto> x\<lparr>mapped := b\<rparr>)) ws"
  by (simp add: mapped_only_def wmapped_def same_still_upd)

text \<open>The heart of \<open>MapWindow\<close> and of \<open>MapSubwindows\<close>.\<close>

lemma set_mapped:
  assumes i: "tree_inv (wins s) kids" and sh: "shown_inv (wins s)" and x: "wins s w = Some x" "\<not> mapped x" "parent x = Some p"
  defines "s1 \<equiv> s\<lparr>wins := (wins s)(w \<mapsto> x\<lparr>mapped := True\<rparr>)\<rparr>"
  shows "\<not> wrealized (wins s) p \<Longrightarrow> shown_inv (wins s1)" "mapped_only w True (wins s1) (wins s)"
    "wrealized (wins s) p \<Longrightarrow> \<exists>s' A. RealizeTree w (log cs s1) = Some s' \<and> shown_inv (wins s') \<and> wins s' = light A (wins s1) \<and> same_rest s' s"
proof -
  have u: "\<not> realized x" "\<not> viewable x" using shown_invD [OF sh x(1)] x(2) by auto
  have wr: "wrealized (wins s1) = wrealized (wins s)" using x(1) by (auto simp: s1_def wrealized_def fun_eq_iff)
  note rest = rest_shown [OF sh x(1), of "mapped_update (\<lambda>_. True)"]
  show "shown_inv (wins s1)" if "\<not> wrealized (wins s) p"
    unfolding shown_inv_def
  proof (intro allI impI)
    fix c y assume y: "wins s1 c = Some y"
    show "(realized y \<longleftrightarrow> mapped y \<and> (\<forall>p. parent y = Some p \<longrightarrow> wrealized (wins s1) p)) \<and> (viewable y \<longleftrightarrow> realized y \<and> win_class y = InputOutput)"
    proof (cases "c = w")
      case True
      then show ?thesis using y u x that wr by (auto simp: s1_def)
    next
      case False
      then show ?thesis using rest [of c y] y by (simp add: s1_def)
    qed
  qed
  show "mapped_only w True (wins s1) (wins s)" using mapped_only_upd [of "wins s" w x] x(1) by (simp add: s1_def)
  have i1: "tree_inv (wins (log cs s1)) kids" using tree_inv_links [OF links_upd [of "wins s" w x "mapped_update (\<lambda>_. True)"] i] x by (simp add: s1_def)
  show "\<exists>s' A. RealizeTree w (log cs s1) = Some s' \<and> shown_inv (wins s') \<and> wins s' = light A (wins s1) \<and> same_rest s' s" if "wrealized (wins s) p"
  proof -
    have "\<exists>s' A. RealizeTree w (log cs s1) = Some s' \<and> shown_inv (wins s') \<and> wins s' = light A (wins (log cs s1)) \<and> same_rest s' (log cs s1)"
      by (rule realize_tree_spec [OF i1, where x = "x\<lparr>mapped := True\<rparr>"]) (use x that wr rest in \<open>auto simp: s1_def\<close>)
    then show ?thesis by (auto simp: s1_def same_rest_def)
  qed
qed

text \<open>Nobody keeps the client from mapping the window.\<close>

definition map_free :: "wenv \<Rightarrow> nat \<Rightarrow> xid \<Rightarrow> store \<Rightarrow> bool" where
  "map_free e client w ws \<longleftrightarrow> xace_resource e client w DixShowAccess = Success \<and>
     (\<forall>x p pw. ws w = Some x \<longrightarrow> parent x = Some p \<longrightarrow> ws p = Some pw \<longrightarrow> overrideRedirect x \<or> \<not> RedirectSend pw)"

lemma map_window_spec:
  assumes i: "tree_inv (wins s) kids" and sh: "shown_inv (wins s)" and w: "w \<in> set (kids p)" and e: "single_layer e"
  shows "\<exists>s' b. MapWindow e w client s = Some (Success, s') \<and> shown_inv (wins s') \<and> mapped_only w b (wins s') (wins s) \<and> same_rest s' s \<and>
    (wmapped (wins s) w \<longrightarrow> b) \<and> (map_free e client w (wins s) \<longrightarrow> b)"
proof -
  obtain x pw where x: "wins s w = Some x" "parent x = Some p" "wins s p = Some pw" using w by (rule tree_inv_kid [OF i])
  have same: ?thesis if "MapWindow e w client s = Some (Success, s')" "wins s' = wins s" "same_rest s' s" "map_free e client w (wins s) \<longrightarrow> wmapped (wins s) w" for s'
    using that sh by (intro exI [of _ s'] exI [of _ "wmapped (wins s) w"]) (simp add: mapped_only_def)
  consider "mapped x" | "\<not> mapped x" "xace_resource e client w DixShowAccess \<noteq> Success" | "\<not> mapped x" "xace_resource e client w DixShowAccess = Success" by blast
  then show ?thesis
  proof cases
    case 1
    then show ?thesis using same [of s] x by (simp add: MapWindow_def wmapped_def)
  next
    case 2
    then show ?thesis using same [of s] x by (simp add: MapWindow_def map_free_def)
  next
    case ok: 3
    let ?ask = "\<not> overrideRedirect x \<and> RedirectSend pw"
    obtain b s0 where r: "(if ?ask then MaybeDeliverMapRequest e w p client s else Some (False, s)) = Some (b, s0)" "wins s0 = wins s" "same_rest s0 s"
    proof (cases ?ask)
      case True
      then show thesis using that deliver_only [of s p e "MapRequest w p" SubstructureRedirectMask client] x(3) by (auto simp: MaybeDeliverMapRequest_def)
    next
      case False
      then show thesis using that [of False s] by auto
    qed
    show ?thesis
    proof (cases b)
      case True
      then have ?ask using r(1) by (cases ?ask) simp_all
      then show ?thesis using same [of s0] r True ok x by (simp add: MapWindow_def map_free_def)
    next
      case False
      let ?s1 = "s0\<lparr>wins := (wins s)(w \<mapsto> x\<lparr>mapped := True\<rparr>)\<rparr>"
      define cs where "cs = (if SubStrSend x pw then [DeliverEvents w (MapNotify w (overrideRedirect x)) None] else [])"
      have log0: "log [] s' = s'" for s' by (simp add: log_def)
      have first: "MapWindow e w client s = (if \<not> realized pw then Some (Success, log cs ?s1) else do {
          s \<leftarrow> RealizeTree w (log cs ?s1);
          w' \<leftarrow> wins s w;
          s \<leftarrow> (if viewable w' then if any_marked e (wins s) w (Some w) then validate e w (Some w) VTMap (log [MarkOverlappedWindows w (Some w)] s)
                else Some (log [MarkOverlappedWindows w (Some w)] s) else Some s);
          Some (Success, log [WindowsRestructured] s) })"
        using r False ok x e by (cases "SubStrSend x pw") (simp_all add: MapWindow_def single_layer_def DeliverMapNotify_def cs_def log0 Let_def cong: if_cong)
      have i0: "tree_inv (wins s0) kids" "shown_inv (wins s0)" "wins s0 w = Some x" using i sh x r(2) by auto
      note m = set_mapped [OF i0 ok(1) x(2), unfolded r(2)]
      have fin: ?thesis if "MapWindow e w client s = Some (Success, s')" "shown_inv (wins s')" "mapped_only w True (wins s') (wins s)" "same_rest s' s" for s'
        using that by (intro exI [of _ s'] exI [of _ True]) simp
      show ?thesis
      proof (cases "realized pw")
        case False
        then have "\<not> wrealized (wins s) p" using x by (simp add: wrealized_def)
        then show ?thesis using fin [of "log cs ?s1"] m(1,2) r(3) first False by simp
      next
        case True
        then have "wrealized (wins s) p" using x by (simp add: wrealized_def)
        then obtain s2 A where s2: "RealizeTree w (log cs ?s1) = Some s2" "shown_inv (wins s2)" "wins s2 = light A (wins ?s1)" "same_rest s2 s0" using m(3) by blast
        have mo: "mapped_only w True (wins s2) (wins s)" using m(2) s2(3) by simp
        obtain x2 where x2: "wins s2 w = Some x2" using same_still_None [of "wins s2" "wins s" w] mo x(1) by (auto simp: mapped_only_def)
        let ?s3 = "log [MarkOverlappedWindows w (Some w)] s2"
        have "\<exists>s3. (if viewable x2 then if any_marked e (wins s2) w (Some w) then validate e w (Some w) VTMap ?s3 else Some ?s3 else Some s2) = Some s3 \<and>
            wins s3 = wins s2 \<and> same_rest s3 s2"
          using x2 by (simp add: validate_def)
        then obtain s3 where s3: "(if viewable x2 then if any_marked e (wins s2) w (Some w) then validate e w (Some w) VTMap ?s3 else Some ?s3 else Some s2) = Some s3"
            "wins s3 = wins s2" "same_rest s3 s2" by blast
        have "MapWindow e w client s = Some (Success, log [WindowsRestructured] s3)"
          using first True s2(1) x2 s3(1) by simp
        then show ?thesis by (rule fin) (use s2 s3 mo r same_rest_trans in \<open>auto simp: same_rest_def\<close>)
      qed
    qed
  qed
qed

subsection \<open>Unmapping\<close>

lemma unmap_window_spec:
  assumes i: "tree_inv (wins s) kids" and sh: "shown_inv (wins s)" and w: "w \<in> set (kids p)" and e: "single_layer e"
  shows "\<exists>s'. UnmapWindow e w fc s = Some s' \<and> shown_inv (wins s') \<and> mapped_only w False (wins s') (wins s) \<and> same_rest s' s"
proof -
  obtain x pw where x: "wins s w = Some x" "parent x = Some p" "wins s p = Some pw" using w by (rule tree_inv_kid [OF i])
  show ?thesis
  proof (cases "mapped x")
    case False
    then show ?thesis using x sh by (auto simp: UnmapWindow_def mapped_only_def wmapped_def)
  next
    case True
    let ?shown = "viewable x \<and> \<not> fc"
    define cs where "cs = (if SubStrSend x pw then [DeliverEvents w (UnmapNotify w fc) None] else []) @
      (if ?shown then [MarkOverlappedWindows w (nextSib x), MarkWindow (Some p)] else [])"
    let ?s1 = "(log cs s)\<lparr>wins := (wins s)(w \<mapsto> x\<lparr>mapped := False\<rparr>)\<rparr>"
    have i1: "tree_inv (wins ?s1) kids" using tree_inv_links [OF links_upd [of "wins s" w x "mapped_update (\<lambda>_. False)"] i] x by simp
    note rest = rest_shown [OF sh x(1), of "mapped_update (\<lambda>_. False)"]
    have mo: "mapped_only w False ((wins s)(w \<mapsto> x\<lparr>mapped := False\<rparr>)) (wins s)" using x(1) by (rule mapped_only_upd)
    obtain s2 where s2: "(if realized x then UnrealizeTree w fc ?s1 else Some ?s1) = Some s2" "shown_inv (wins s2)" "mapped_only w False (wins s2) (wins s)" "same_rest s2 s"
    proof (cases "realized x")
      case True
      have "\<exists>s' A. UnrealizeTree w fc ?s1 = Some s' \<and> shown_inv (wins s') \<and> wins s' = dark A (wins ?s1) \<and> same_rest s' ?s1"
      proof (rule unrealize_tree_spec [OF i1, where x = "x\<lparr>mapped := False\<rparr>"])
        fix c y assume "wins ?s1 c = Some y" "c \<noteq> w"
        then show "(realized y \<longleftrightarrow> mapped y \<and> (\<forall>p. parent y = Some p \<longrightarrow> wrealized (wins ?s1) p)) \<and> (viewable y \<longleftrightarrow> realized y \<and> win_class y = InputOutput)"
          using rest [of c y] by simp
      qed (use True in simp_all)
      then obtain s' A where "UnrealizeTree w fc ?s1 = Some s'" "shown_inv (wins s')" "wins s' = dark A (wins ?s1)" "same_rest s' ?s1" by blast
      then show thesis using that [of s'] True mo by (simp add: same_rest_def)
    next
      case False
      have "shown_inv (wins ?s1)" unfolding shown_inv_def
      proof (intro allI impI)
        fix c y assume y: "wins ?s1 c = Some y"
        show "(realized y \<longleftrightarrow> mapped y \<and> (\<forall>p. parent y = Some p \<longrightarrow> wrealized (wins ?s1) p)) \<and> (viewable y \<longleftrightarrow> realized y \<and> win_class y = InputOutput)"
          using y rest [of c y] shown_invD(2) [OF sh x(1)] False by (cases "c = w") auto
      qed
      then show thesis using that [of ?s1] False mo by (simp add: same_rest_def)
    qed
    have "wins s2 w \<noteq> None" using same_still_None [of "wins s2" "wins s" w] s2(3) x by (simp add: mapped_only_def)
    then obtain s3 where s3: "(if ?shown then validate e w (Some w) VTUnmap s2 else Some s2) = Some s3" "wins s3 = wins s2" "same_rest s3 s2"
      using validate_only [of s2 w e "Some w" VTUnmap] by (cases ?shown) auto
    have "UnmapWindow e w fc s = do {
        s2 \<leftarrow> (if realized x then UnrealizeTree w fc ?s1 else Some ?s1);
        s3 \<leftarrow> (if ?shown then validate e w (Some w) VTUnmap s2 else Some s2);
        Some (if realized x \<and> \<not> fc then log [WindowsRestructured, WindowGone w] s3 else s3) }"
      using x True e unfolding cs_def
      by (cases "viewable x"; cases fc; cases "SubStrSend x pw") (simp_all add: UnmapWindow_def single_layer_def DeliverUnmapNotify_def log_def Let_def cong: if_cong)
    then have "UnmapWindow e w fc s = Some (if realized x \<and> \<not> fc then log [WindowsRestructured, WindowGone w] s3 else s3)"
      unfolding s2(1) using s3(1) by simp
    then show ?thesis using s2 s3 same_rest_trans by (cases "realized x \<and> \<not> fc") auto
  qed
qed

subsection \<open>Properties\<close>

lemma sample_shown: "shown_inv (wins sample)"
  unfolding shown_inv_def
proof (intro allI impI)
  fix c w assume w: "wins sample c = Some w"
  then have "c \<in> {1, 2, 3, 4, 5}" by (auto simp: sample_def sample_wins_def split: if_splits)
  then show "(realized w \<longleftrightarrow> mapped w \<and> (\<forall>p. parent w = Some p \<longrightarrow> wrealized (wins sample) p)) \<and> (viewable w \<longleftrightarrow> realized w \<and> win_class w = InputOutput)"
    using w by (auto simp: wrealized_def sample_def sample_wins_def sample_win_def)
qed

lemma sample_layer: "single_layer sample_env"
  by (simp add: single_layer_def sample_env_def)

text \<open>C8. Mapping a window realizes what can be seen: when the realized windows are those that are mapped together with all their ancestors, this is so again after
  \<open>MapWindow\<close>, whether the parent is realized or not and however many windows below were mapped before. The request returns and succeeds, only the window itself becomes mapped, and it does
  unless the client is denied the access or the request is redirected to a window manager; pointers, positions and attributes of all windows stay.\<close>

theorem MapWindow_realizes:
  assumes "tree_inv (wins s) kids" "shown_inv (wins s)" "w \<in> set (kids p)" "single_layer e"
  shows "\<exists>s' b. MapWindow e w client s = Some (Success, s') \<and> shown_inv (wins s') \<and> mapped_only w b (wins s') (wins s) \<and> (map_free e client w (wins s) \<longrightarrow> b)"
  using map_window_spec [OF assms] by blast

theorem MapWindow_realizes_witness:
  "\<exists>s' b. MapWindow sample_env 5 1 sample = Some (Success, s') \<and> shown_inv (wins s') \<and> mapped_only 5 b (wins s') (wins sample) \<and> b"
proof -
  have "map_free sample_env 1 5 (wins sample)"
    by (auto simp: map_free_def sample_env_def sample_def sample_wins_def sample_win_def RedirectSend_def wOtherEventMasks_def)
  then show ?thesis using MapWindow_realizes [OF sample_tree sample_shown _ sample_layer, of 5 3 1] by (auto simp: sample_kids_def)
qed

text \<open>C19. Unmapping a window makes it and everything below it that was realized unrealized, and nothing else; the windows below stay mapped, so that they come back with it.\<close>

theorem UnmapWindow_unrealizes:
  assumes "tree_inv (wins s) kids" "shown_inv (wins s)" "w \<in> set (kids p)" "single_layer e"
  shows "\<exists>s'. UnmapWindow e w fromConfigure s = Some s' \<and> shown_inv (wins s') \<and> mapped_only w False (wins s') (wins s)"
  using unmap_window_spec [OF assms] by blast

theorem UnmapWindow_unrealizes_witness:
  "\<exists>s'. UnmapWindow sample_env 3 False sample = Some s' \<and> shown_inv (wins s') \<and> mapped_only 3 False (wins s') (wins sample)"
  using UnmapWindow_unrealizes [OF sample_tree sample_shown _ sample_layer, of 3 1] by (simp add: sample_kids_def)

end
