(* ===== verification/WindowPlaces.thy ===== *)
theory WindowPlaces
  imports WindowShown
begin

text \<open>
  Walks that bring every window of a subtree in line with its parent: positions (\<open>ResizeChildrenWinSize\<close> of dix/window.c) and deliverable events
  (\<open>RecalculateDeliverableEvents\<close> of dix/events.c).
\<close>

subsection \<open>Walks from the top down\<close>

definition same :: "(WindowRec \<Rightarrow> 'b) \<Rightarrow> store \<Rightarrow> store \<Rightarrow> bool" where
  "same f ws' ws \<longleftrightarrow> (\<forall>c. map_option f (ws' c) = map_option f (ws c))"

lemma same_refl [simp]: "same f ws ws"
  by (simp add: same_def)

lemma same_trans: "same f a b \<Longrightarrow> same f b c \<Longrightarrow> same f a c"
  by (simp add: same_def)

lemma same_upd: "ws' c = Some w \<Longrightarrow> f w' = f w \<Longrightarrow> same f ws' ws \<Longrightarrow> same f (ws'(c \<mapsto> w')) ws"
  by (simp add: same_def) (metis option.map(2))

lemma same_Some: "same f ws' ws \<Longrightarrow> ws' c = Some w' \<Longrightarrow> \<exists>w. ws c = Some w \<and> f w' = f w"
  unfolding same_def by (drule spec [of _ c]) (cases "ws c"; simp)

lemma same_Some': "same f ws' ws \<Longrightarrow> ws c = Some w \<Longrightarrow> \<exists>w'. ws' c = Some w' \<and> f w' = f w"
  unfolding same_def by (drule spec [of _ c]) (cases "ws' c"; simp)

text \<open>A visit may change the visited window only; it makes \<open>Q\<close> true of it, which depends on the window and its parent, and keeps what \<open>keep\<close> says.
  The visited windows have a parent unless \<open>top\<close> allows for windows without.\<close>

locale top_down =
  fixes visit :: "xid \<Rightarrow> wstate \<Rightarrow> (wstate \<times> walk) option" and Q :: "store \<Rightarrow> xid \<Rightarrow> bool" and keep :: "WindowRec \<Rightarrow> 'k" and roots :: bool
  assumes visit_one: "tree_inv (wins s) kids \<Longrightarrow> wins s c = Some w \<Longrightarrow> parent w \<noteq> None \<or> roots \<Longrightarrow>
      \<exists>s' w'. visit c s = Some (s', WT_WALKCHILDREN) \<and> wins s' = (wins s)(c \<mapsto> w') \<and> keep w' = keep w \<and> Q (wins s') c \<and> same_rest s' s"
    and links_kept: "visit c s = Some (s', r) \<Longrightarrow> links (wins s') = links (wins s)"
    and Q_local: "Q ws c \<Longrightarrow> ws' c = ws c \<Longrightarrow> (\<And>w p. ws c = Some w \<Longrightarrow> parent w = Some p \<Longrightarrow> ws' p = ws p) \<Longrightarrow> Q ws' c"
begin

sublocale tree_visit visit
  by unfold_locales (rule links_kept)

definition brought :: "xid set \<Rightarrow> wstate \<Rightarrow> wstate \<Rightarrow> bool" where
  "brought A s' s \<longleftrightarrow> (\<forall>c. c \<notin> A \<longrightarrow> wins s' c = wins s c) \<and> (\<forall>c \<in> A. Q (wins s') c) \<and> same keep (wins s') (wins s) \<and> links (wins s') = links (wins s) \<and> same_rest s' s"

lemma brought_trans:
  assumes i: "tree_inv (wins s) kids" and a: "brought A s1 s" and b: "brought B s2 s1"
    and up: "\<And>c p. c \<in> A \<Longrightarrow> c \<in> set (kids p) \<Longrightarrow> p \<notin> B" and disj: "A \<inter> B = {}"
  shows "brought (A \<union> B) s2 s"
proof -
  have i1: "tree_inv (wins s1) kids" using a tree_inv_links [OF _ i] by (simp add: brought_def)
  have "Q (wins s2) c" if "c \<in> A" for c
  proof (rule Q_local [of "wins s1"])
    show "Q (wins s1) c" using a that by (simp add: brought_def)
    show "wins s2 c = wins s1 c" using b disj that by (auto simp: brought_def)
    show "wins s2 p = wins s1 p" if "wins s1 c = Some w" "parent w = Some p" for w p
    proof -
      have "c \<in> set (kids p)" using tree_inv_parent [OF i1] that by blast
      then show ?thesis using up \<open>c \<in> A\<close> b by (simp add: brought_def)
    qed
  qed
  then show ?thesis using a b same_trans same_rest_trans by (fastforce simp: brought_def)
qed

lemma down_list:
  assumes "\<And>t s. t \<in> set ts \<Longrightarrow> tree_inv (wins s) kids \<Longrightarrow> wins s w \<noteq> None \<Longrightarrow> \<exists>s'. walk_tree visit t s = Some (s', False) \<and> brought (set (nodes t)) s' s"
    "tree_inv (wins s) kids" "wins s w \<noteq> None" "kids w = List.map label us @ List.map label ts" "\<And>t. t \<in> set ts \<Longrightarrow> shape kids t" "distinct (w # concat (List.map nodes ts))"
  shows "\<exists>s'. walk_list visit ts s = Some (s', False) \<and> brought (set (concat (List.map nodes ts))) s' s"
  using assms
proof (induction ts arbitrary: s us)
  case Nil
  then show ?case by (simp add: brought_def)
next
  case (Cons t ts)
  have "\<exists>s'. walk_tree visit t s = Some (s', False) \<and> brought (set (nodes t)) s' s" by (rule Cons.prems(1)) (use Cons.prems in auto)
  then obtain s1 where s1: "walk_tree visit t s = Some (s1, False)" "brought (set (nodes t)) s1 s" by blast
  then have l: "links (wins s1) = links (wins s)" by (simp add: brought_def)
  have i1: "tree_inv (wins s1) kids" using tree_inv_links [OF l] Cons.prems(2) by blast
  have "\<exists>s'. walk_list visit ts s1 = Some (s', False) \<and> brought (set (concat (List.map nodes ts))) s' s1"
  proof (rule Cons.IH [of s1 "us @ [t]"])
    show "\<exists>s'. walk_tree visit u s2 = Some (s', False) \<and> brought (set (nodes u)) s' s2" if "u \<in> set ts" "tree_inv (wins s2) kids" "wins s2 w \<noteq> None" for u s2
      by (rule Cons.prems(1)) (use that in auto)
    show "wins s1 w \<noteq> None" using links_None [OF l] Cons.prems(3) by simp
    show "kids w = List.map label (us @ [t]) @ List.map label ts" using Cons.prems(4) by simp
    show "shape kids u" if "u \<in> set ts" for u using Cons.prems(5) that by simp
    show "distinct (w # concat (List.map nodes ts))" using Cons.prems(6) by simp
  qed (rule i1)
  then obtain s2 where s2: "walk_list visit ts s1 = Some (s2, False)" "brought (set (concat (List.map nodes ts))) s2 s1" by blast
  have "brought (set (nodes t) \<union> set (concat (List.map nodes ts))) s2 s"
  proof (rule brought_trans [OF Cons.prems(2) s1(2) s2(2)])
    fix c p assume c: "c \<in> set (nodes t)" "c \<in> set (kids p)"
    have "(c, label t) \<in> (child_rel kids)\<^sup>*" using nodes_desc Cons.prems(5) c(1) by simp
    then have "p \<in> set (nodes t) \<or> p = w"
    proof (cases "c = label t")
      case True
      then have "c \<in> set (kids w)" using Cons.prems(4) by simp
      then show ?thesis using kids_disjoint [OF Cons.prems(2)] c(2) by blast
    next
      case False
      then obtain z where "(c, z) \<in> child_rel kids" "(z, label t) \<in> (child_rel kids)\<^sup>*"
        using \<open>(c, label t) \<in> (child_rel kids)\<^sup>*\<close> by (meson converse_rtranclE)
      moreover have "z = p" using kids_disjoint [OF Cons.prems(2)] c(2) calculation(1) by (auto simp: child_rel_def)
      ultimately show ?thesis using desc_nodes Cons.prems(5) by simp
    qed
    then show "p \<notin> set (concat (List.map nodes ts))" using Cons.prems(6) by auto
  qed (use Cons.prems(6) in auto)
  then show ?case using s1(1) s2(1) by simp
qed

lemma down_tree:
  assumes "shape kids t" "tree_inv (wins s) kids" "wins s (label t) = Some x" "parent x \<noteq> None \<or> roots"
  shows "\<exists>s'. walk_tree visit t s = Some (s', False) \<and> brought (set (nodes t)) s' s"
  using assms
proof (induction arbitrary: s x rule: shape.induct)
  case (1 w ts)
  have wx: "wins s w = Some x" using "1.prems"(2) by simp
  obtain s1 w' where s1: "visit w s = Some (s1, WT_WALKCHILDREN)" "wins s1 = (wins s)(w \<mapsto> w')" "keep w' = keep x" "Q (wins s1) w" "same_rest s1 s"
    using visit_one [OF "1.prems"(1) wx "1.prems"(3)] by blast
  have l: "links (wins s1) = links (wins s)" using visit_links s1(1) by blast
  have i1: "tree_inv (wins s1) kids" using tree_inv_links [OF l] 1 by blast
  have b1: "brought {w} s1 s" using s1 l 1 same_upd [of "wins s" w x keep w' "wins s"] by (auto simp: brought_def)
  have d: "distinct (w # concat (List.map nodes ts))"
    using tree_nodes_distinct [of "wins s" kids "Node w ts"] 1 by (auto intro: shape.intros)
  have "\<exists>s'. walk_list visit ts s1 = Some (s', False) \<and> brought (set (concat (List.map nodes ts))) s' s1"
  proof (rule down_list [where w = w and us = "[]"])
    fix t and s2 :: wstate assume t: "t \<in> set ts" "tree_inv (wins s2) kids" "wins s2 w \<noteq> None"
    have "label t \<in> set (kids w)" using 1 t by simp
    then obtain y where "wins s2 (label t) = Some y" "parent y = Some w" by (rule tree_inv_kid [OF t(2)])
    then show "\<exists>s'. walk_tree visit t s2 = Some (s', False) \<and> brought (set (nodes t)) s' s2" using 1 t by blast
  qed (use 1 i1 d s1 in auto)
  then obtain s2 where s2: "walk_list visit ts s1 = Some (s2, False)" "brought (set (concat (List.map nodes ts))) s2 s1" by blast
  have "brought ({w} \<union> set (concat (List.map nodes ts))) s2 s"
  proof (rule brought_trans [OF _ b1 s2(2)])
    fix c p assume c: "c \<in> {w}" "c \<in> set (kids p)"
    show "p \<notin> set (concat (List.map nodes ts))"
    proof
      assume "p \<in> set (concat (List.map nodes ts))"
      then obtain t where "t \<in> set ts" "p \<in> set (nodes t)" by auto
      then have "(p, w) \<in> (child_rel kids)\<^sup>*" using nodes_desc [of kids "Node w ts" p] 1 by (auto intro: shape.intros)
      then have "(w, w) \<in> (child_rel kids)\<^sup>+" using c by (auto simp: child_rel_def intro: rtrancl_into_trancl2)
      then show False using 1 by (auto simp: tree_inv_def acyclic_def)
    qed
  qed (use 1 d in auto)
  then show ?case using s1(1) s2(1) by simp
qed

end

subsection \<open>Positions\<close>

text \<open>A window is where the position of its parent and its own origin say.\<close>

definition placed :: "store \<Rightarrow> xid \<Rightarrow> bool" where
  "placed ws c \<longleftrightarrow> (\<exists>w p pw. ws c = Some w \<and> parent w = Some p \<and> ws p = Some pw \<and>
     draw_x w = short (draw_x pw + origin_x w) \<and> draw_y w = short (draw_y pw + origin_y w))"

definition no_region :: RegionRec where
  "no_region = \<lparr>extents = Box 0 0 0 0, rgn_data = NoData\<rparr>"

text \<open>All of a window but its position and its regions.\<close>

definition ungeo :: "WindowRec \<Rightarrow> WindowRec" where
  "ungeo w = w\<lparr>draw_x := 0, draw_y := 0, winSize := no_region, borderSize := no_region\<rparr>"

lemma SetWinSize_form: "SetWinSize e c s = Some s' \<Longrightarrow> \<exists>r. setw c (winSize_update (\<lambda>_. r)) s = Some s'"
  by (auto simp: SetWinSize_def Let_def Option.bind_eq_Some_conv)

lemma SetBorderSize_form: "SetBorderSize e c s = Some s' \<Longrightarrow> \<exists>r. setw c (borderSize_update (\<lambda>_. r)) s = Some s'"
  by (auto simp: SetBorderSize_def Let_def Option.bind_eq_Some_conv)

lemma SetWinSize_total:
  assumes "wins s c = Some w" "parent w = Some p" "wins s p \<noteq> None"
  shows "SetWinSize e c s \<noteq> None" "SetBorderSize e c s \<noteq> None"
proof -
  obtain pw where p: "wins s p = Some pw" using assms(3) by blast
  show "SetWinSize e c s \<noteq> None" using assms(1,2) p by (cases "redirectDraw w = 0") (simp_all add: SetWinSize_def)
  show "SetBorderSize e c s \<noteq> None" using assms(1,2) p
    by (cases "HasBorder w"; cases "redirectDraw w = 0") (simp_all add: SetBorderSize_def Let_def)
qed

lemma set_sizes:
  assumes "wins s c = Some w" "parent w = Some p" "wins s p \<noteq> None"
  shows "\<exists>r b. (SetWinSize e c s \<bind> SetBorderSize e c) = Some (s\<lparr>wins := (wins s)(c \<mapsto> w\<lparr>winSize := r, borderSize := b\<rparr>)\<rparr>)"
proof -
  obtain s1 where s1: "SetWinSize e c s = Some s1" using SetWinSize_total(1) [OF assms] by blast
  then obtain r where r: "s1 = s\<lparr>wins := (wins s)(c \<mapsto> w\<lparr>winSize := r\<rparr>)\<rparr>" using SetWinSize_form assms(1) by fastforce
  have "SetBorderSize e c s1 \<noteq> None" by (rule SetWinSize_total(2) [where w = "w\<lparr>winSize := r\<rparr>" and p = p]) (use r assms in auto)
  then obtain s2 where s2: "SetBorderSize e c s1 = Some s2" by blast
  then obtain b where "s2 = s1\<lparr>wins := (wins s1)(c \<mapsto> w\<lparr>winSize := r, borderSize := b\<rparr>)\<rparr>" using SetBorderSize_form r by fastforce
  then show ?thesis using s1 s2 r by auto
qed

lemma place_child_spec:
  assumes "wins s c = Some w" "parent w = Some p" "wins s p = Some pw" "p \<noteq> c"
  shows "\<exists>s' w'. place_child e p c s = Some s' \<and> wins s' = (wins s)(c \<mapsto> w') \<and> ungeo w' = ungeo w \<and> placed (wins s') c \<and> same_rest s' s"
proof -
  let ?w = "w\<lparr>draw_x := short (draw_x pw + origin_x w), draw_y := short (draw_y pw + origin_y w)\<rparr>"
  let ?s = "s\<lparr>wins := (wins s)(c \<mapsto> ?w)\<rparr>"
  obtain r b where rb: "SetWinSize e c ?s \<bind> SetBorderSize e c = Some (?s\<lparr>wins := (wins ?s)(c \<mapsto> ?w\<lparr>winSize := r, borderSize := b\<rparr>)\<rparr>)"
    using set_sizes [of ?s c ?w p e] assms by auto
  have "place_child e p c s = do { s \<leftarrow> (SetWinSize e c ?s \<bind> SetBorderSize e c); c' \<leftarrow> wins s c; Some (log [WindowPosition c (draw_x c') (draw_y c')] s) }"
    using assms by (simp add: place_child_def)
  then show ?thesis unfolding rb using assms by (auto simp: ungeo_def placed_def)
qed

lemma set_sizes_links:
  "SetWinSize e c s = Some s' \<Longrightarrow> links (wins s') = links (wins s)"
  "SetBorderSize e c s = Some s' \<Longrightarrow> links (wins s') = links (wins s)"
  by (auto dest!: SetWinSize_form SetBorderSize_form elim!: setw_links)

lemma place_child_links: "place_child e p c s = Some s' \<Longrightarrow> links (wins s') = links (wins s)"
  by (auto simp: place_child_def Option.bind_eq_Some_conv dest!: set_sizes_links elim!: setw_links)

interpretation place: top_down "place_visit e" placed ungeo False for e
proof
  fix s :: wstate and kids c w assume i: "tree_inv (wins s) kids" and w: "wins s c = Some w" "parent w \<noteq> None \<or> False"
  then obtain p where p: "parent w = Some p" by blast
  have "c \<in> set (kids p)" using tree_inv_parent [OF i] w p by blast
  then obtain pw where pw: "wins s p = Some pw" by (rule tree_inv_kid [OF i])
  have "p \<noteq> c" using not_own_child [OF i] \<open>c \<in> set (kids p)\<close> by metis
  from place_child_spec [OF w(1) p pw this, of e]
  show "\<exists>s' w'. place_visit e c s = Some (s', WT_WALKCHILDREN) \<and> wins s' = (wins s)(c \<mapsto> w') \<and> ungeo w' = ungeo w \<and> placed (wins s') c \<and> same_rest s' s"
    using w p by (auto simp: place_visit_def)
next
  fix c s s' r assume "place_visit e c s = Some (s', r)"
  then show "links (wins s') = links (wins s)" by (auto simp: place_visit_def Option.bind_eq_Some_conv dest: place_child_links)
next
  fix ws c ws' assume "placed ws c" "ws' c = ws c" and u: "\<And>w p. ws c = Some w \<Longrightarrow> parent w = Some p \<Longrightarrow> ws' p = ws p"
  then obtain w p pw where "ws c = Some w" "parent w = Some p" "ws p = Some pw" "draw_x w = short (draw_x pw + origin_x w)" "draw_y w = short (draw_y pw + origin_y w)"
    by (auto simp: placed_def)
  then show "placed ws' c" using u [of w p] \<open>ws' c = ws c\<close> by (auto simp: placed_def)
qed

subsection \<open>All descendants of a window\<close>

text \<open>The windows below a window.\<close>

definition below :: "(xid \<Rightarrow> xid list) \<Rightarrow> xid \<Rightarrow> xid set" where
  "below kids w = {c. (c, w) \<in> (child_rel kids)\<^sup>+}"

lemma below_nodes:
  assumes "shape kids (Node w ts)"
  shows "below kids w = set (concat (List.map nodes ts))"
proof
  have k: "kids w = List.map label ts" "\<And>t. t \<in> set ts \<Longrightarrow> shape kids t" using assms by (auto simp: shape_Node)
  show "below kids w \<subseteq> set (concat (List.map nodes ts))"
  proof
    fix c assume "c \<in> below kids w"
    then obtain z where z: "(c, z) \<in> (child_rel kids)\<^sup>*" "(z, w) \<in> child_rel kids" by (auto simp: below_def dest: tranclD2)
    then obtain t where "t \<in> set ts" "label t = z" using k(1) by (auto simp: child_rel_def)
    then show "c \<in> set (concat (List.map nodes ts))" using desc_nodes [OF z(1)] k(2) by auto
  qed
  show "set (concat (List.map nodes ts)) \<subseteq> below kids w"
  proof
    fix c assume "c \<in> set (concat (List.map nodes ts))"
    then obtain t where t: "t \<in> set ts" "c \<in> set (nodes t)" by auto
    then have "(c, label t) \<in> (child_rel kids)\<^sup>*" "(label t, w) \<in> child_rel kids" using nodes_desc k by (auto simp: child_rel_def)
    then show "c \<in> below kids w" by (auto simp: below_def)
  qed
qed

lemma gravity_child_spec:
  assumes "wins s c = Some w"
  shows "\<exists>s' w' ox oy. gravity_child dx dy dw dh c s = Some s' \<and> wins s' = (wins s)(c \<mapsto> w') \<and> w' = w\<lparr>origin_x := ox, origin_y := oy\<rparr> \<and>
    (dw = 0 \<and> dh = 0 \<longrightarrow> s' = s) \<and> same_rest s' s"
proof -
  have same: "\<exists>s' w' ox oy. gravity_child dx dy dw dh c s = Some s' \<and> wins s' = (wins s)(c \<mapsto> w') \<and> w' = w\<lparr>origin_x := ox, origin_y := oy\<rparr> \<and>
    (dw = 0 \<and> dh = 0 \<longrightarrow> s' = s) \<and> same_rest s' s" if "gravity_child dx dy dw dh c s = Some s"
    using that assms by (intro exI [of _ s] exI [of _ w] exI [of _ "origin_x w"] exI [of _ "origin_y w"]) (auto simp: fun_eq_iff)
  show ?thesis
  proof (cases "(dw \<noteq> 0 \<or> dh \<noteq> 0) \<and> winGravity w > NorthWestGravity")
    case True
    obtain x y where xy: "GravityTranslate (origin_x w) (origin_y w) (origin_x w - dx) (origin_y w - dy) dw dh (winGravity w) = (x, y)" by (metis surj_pair)
    show ?thesis
    proof (cases "x \<noteq> origin_x w \<or> y \<noteq> origin_y w")
      case yes: True
      then show ?thesis using True xy assms by (auto simp: gravity_child_def)
    next
      case False
      then show ?thesis using same True xy assms by (auto simp: gravity_child_def)
    qed
  next
    case False
    then show ?thesis using same assms by (auto simp: gravity_child_def)
  qed
qed

lemma ungeo_fields:
  assumes "ungeo w' = ungeo w"
  shows "parent w' = parent w" "nextSib w' = nextSib w" "prevSib w' = prevSib w" "firstChild w' = firstChild w" "lastChild w' = lastChild w"
    "origin_x w' = origin_x w" "origin_y w' = origin_y w" "mapped w' = mapped w" "realized w' = realized w" "viewable w' = viewable w"
    "win_class w' = win_class w" "optional w' = optional w"
  using assms by (cases w; cases w'; simp add: ungeo_def)+

text \<open>All of a window but position, regions and origin: what \<open>ResizeChildrenWinSize\<close> leaves of a child.\<close>

definition ungrav :: "WindowRec \<Rightarrow> WindowRec" where
  "ungrav w = ungeo (w\<lparr>origin_x := 0, origin_y := 0\<rparr>)"

lemma ungrav_ungeo: "ungeo w' = ungeo w \<Longrightarrow> ungrav w' = ungrav w"
  by (cases w; cases w'; simp add: ungrav_def ungeo_def)

lemma ungrav_origin: "ungrav (w\<lparr>origin_x := a, origin_y := b\<rparr>) = ungrav w"
  by (simp add: ungrav_def)

lemma same_ungrav_links: "same ungrav ws' ws \<Longrightarrow> links ws' = links ws"
proof
  fix c assume s: "same ungrav ws' ws"
  show "links ws' c = links ws c"
  proof (cases "ws' c")
    case None
    then have "ws c = None" using same_Some' [OF s, of c] by (cases "ws c") auto
    then show ?thesis using None by (simp add: links_def)
  next
    case (Some w')
    then obtain w where "ws c = Some w" "ungrav w' = ungrav w" using same_Some [OF s] by blast
    then show ?thesis using Some by (cases w; cases w') (simp add: links_def ungrav_def ungeo_def)
  qed
qed

text \<open>One child with all windows below it.\<close>

lemma resize_child_spec:
  assumes i: "tree_inv (wins s) kids" and t: "shape kids t" "label t \<in> set (kids w)"
  shows "\<exists>s'. resize_child e w dx dy dw dh (label t) s = Some s' \<and> (\<forall>c. c \<notin> set (nodes t) \<longrightarrow> wins s' c = wins s c) \<and> (\<forall>c \<in> set (nodes t). placed (wins s') c) \<and>
    same ungrav (wins s') (wins s) \<and> (dw = 0 \<and> dh = 0 \<longrightarrow> same ungeo (wins s') (wins s)) \<and> same_rest s' s"
proof -
  obtain v ts where tv: "t = Node v ts" by (cases t)
  obtain x where x: "wins s v = Some x" "parent x = Some w" using tree_inv_kid [OF i t(2)] tv by auto
  obtain s1 x1 ox oy where g: "gravity_child dx dy dw dh v s = Some s1" "wins s1 = (wins s)(v \<mapsto> x1)" "x1 = x\<lparr>origin_x := ox, origin_y := oy\<rparr>"
      "dw = 0 \<and> dh = 0 \<longrightarrow> s1 = s" "same_rest s1 s"
    using gravity_child_spec [OF x(1)] by metis
  have u1: "same ungrav (wins s1) (wins s)" using same_upd [of "wins s" v x ungrav x1 "wins s"] x(1) g(2,3) by (simp add: ungrav_origin)
  have i1: "tree_inv (wins s1) kids" using tree_inv_links [OF same_ungrav_links [OF u1] i] .
  have x1: "wins s1 v = Some x1" "parent x1 = Some w" using g x by auto
  obtain s2 where s2: "walk_tree (place_visit e) t s1 = Some (s2, False)" "place.brought (set (nodes t)) s2 s1"
    using place.down_tree [OF t(1) i1, of x1 e] tv x1 by auto
  have eq: "resize_child e w dx dy dw dh (label t) s = map_option fst (walk_tree (place_visit e) t s1)"
  proof (cases "place_child e w v s1")
    case None
    then show ?thesis using g(1) x1 tv by (simp add: resize_child_def place_visit_def)
  next
    case (Some s3)
    have l: "links (wins s3) = links (wins s1)" using place_child_links Some by blast
    have i3: "tree_inv (wins s3) kids" using tree_inv_links [OF l i1] .
    obtain x3 where x3: "wins s3 v = Some x3" using links_Some [OF l x1(1)] by blast
    have f: "firstChild x3 = hdo (List.map label ts)" using tree_invD(1) [OF i3 x3] t(1) tv by (simp add: shape_Node)
    show ?thesis
    proof (cases "ts = []")
      case True
      then show ?thesis using g(1) x1 tv Some x3 f by (simp add: resize_child_def place_visit_def)
    next
      case False
      then have "firstChild x3 = Some (label (hd ts))" using f by (cases ts) auto
      moreover have "tree_loop (place_visit e) v (label (hd ts)) s3 = walk_list (place_visit e) ts s3"
        using place.walk_below [OF i3, of v ts e] x3 t(1) tv False by simp
      ultimately show ?thesis using g(1) x1 tv Some x3 by (simp add: resize_child_def place_visit_def)
    qed
  qed
  have b: "\<forall>c. c \<notin> set (nodes t) \<longrightarrow> wins s2 c = wins s1 c" "\<forall>c \<in> set (nodes t). placed (wins s2) c" "same ungeo (wins s2) (wins s1)" "same_rest s2 s1"
    using s2(2) by (auto simp: place.brought_def)
  have "same ungrav (wins s2) (wins s1)"
    unfolding same_def
  proof
    fix c show "map_option ungrav (wins s2 c) = map_option ungrav (wins s1 c)"
    proof (cases "wins s2 c")
      case None
      then show ?thesis using same_Some' [OF b(3), of c] by (cases "wins s1 c") auto
    next
      case (Some y)
      then obtain v where "wins s1 c = Some v" "ungeo y = ungeo v" using same_Some [OF b(3)] by blast
      then show ?thesis using Some ungrav_ungeo [of y v] by simp
    qed
  qed
  then have ug: "same ungrav (wins s2) (wins s)" using u1 same_trans by blast
  have out: "\<forall>c. c \<notin> set (nodes t) \<longrightarrow> wins s2 c = wins s c" using b(1) g(2) tv by auto
  have r: "resize_child e w dx dy dw dh (label t) s = Some s2" using eq s2(1) by simp
  have geo: "dw = 0 \<and> dh = 0 \<longrightarrow> same ungeo (wins s2) (wins s)" using b(3) g(4) by auto
  have rest: "same_rest s2 s" using b(4) g(5) same_rest_trans by blast
  show ?thesis by (intro exI [of _ s2] conjI) (fact r out b(2) ug geo rest)+
qed

text \<open>The whole: everything below the window is placed, nothing else changes.\<close>

definition resized :: "xid set \<Rightarrow> bool \<Rightarrow> wstate \<Rightarrow> wstate \<Rightarrow> bool" where
  "resized A grav s' s \<longleftrightarrow> (\<forall>c. c \<notin> A \<longrightarrow> wins s' c = wins s c) \<and> (\<forall>c \<in> A. placed (wins s') c) \<and>
     same ungrav (wins s') (wins s) \<and> (\<not> grav \<longrightarrow> same ungeo (wins s') (wins s)) \<and> same_rest s' s"

lemma resize_loop_spec:
  assumes "tree_inv (wins s) kids" "wins s w \<noteq> None" "kids w = List.map label us @ List.map label ts" "\<And>t. t \<in> set ts \<Longrightarrow> shape kids t"
    "distinct (w # concat (List.map nodes ts))"
  shows "\<exists>s'. resize_loop e w dx dy dw dh (hdo (List.map label ts)) s = Some s' \<and> resized (set (concat (List.map nodes ts))) (dw \<noteq> 0 \<or> dh \<noteq> 0) s' s"
  using assms
proof (induction ts arbitrary: s us)
  case Nil
  then show ?case by (subst resize_loop.simps) (simp add: resized_def)
next
  case (Cons t ts)
  let ?g = "dw \<noteq> 0 \<or> dh \<noteq> 0"
  have tk: "label t \<in> set (kids w)" using Cons.prems(3) by simp
  obtain s1 where s1: "resize_child e w dx dy dw dh (label t) s = Some s1" "resized (set (nodes t)) ?g s1 s"
    using resize_child_spec [OF Cons.prems(1) Cons.prems(4) [of t] tk, of e dx dy dw dh] by (auto simp: resized_def)
  have l: "links (wins s1) = links (wins s)" using s1(2) same_ungrav_links by (simp add: resized_def)
  have i1: "tree_inv (wins s1) kids" using tree_inv_links [OF l] Cons.prems(1) by blast
  obtain x where x: "wins s1 (label t) = Some x" "nextSib x = hdo (List.map label ts)"
    using kid_links [OF i1, of w "List.map label us" "label t" "List.map label ts"] Cons.prems(3) by auto
  have "\<exists>s'. resize_loop e w dx dy dw dh (hdo (List.map label ts)) s1 = Some s' \<and> resized (set (concat (List.map nodes ts))) ?g s' s1"
  proof (rule Cons.IH [of s1 "us @ [t]"])
    show "wins s1 w \<noteq> None" using links_None [OF l] Cons.prems(2) by simp
    show "kids w = List.map label (us @ [t]) @ List.map label ts" using Cons.prems(3) by simp
    show "shape kids u" if "u \<in> set ts" for u using Cons.prems(4) that by simp
    show "distinct (w # concat (List.map nodes ts))" using Cons.prems(5) by simp
  qed (rule i1)
  then obtain s2 where s2: "resize_loop e w dx dy dw dh (hdo (List.map label ts)) s1 = Some s2" "resized (set (concat (List.map nodes ts))) ?g s2 s1" by blast
  have "placed (wins s2) c" if c: "c \<in> set (nodes t)" for c
  proof -
    obtain y p pw where y: "wins s1 c = Some y" "parent y = Some p" "wins s1 p = Some pw"
        "draw_x y = short (draw_x pw + origin_x y)" "draw_y y = short (draw_y pw + origin_y y)"
    proof -
      have "placed (wins s1) c" using s1(2) c by (simp add: resized_def)
      then show thesis using that by (auto simp: placed_def)
    qed
    have cp: "c \<in> set (kids p)" using tree_inv_parent [OF i1] y by blast
    have "p = w \<or> p \<in> set (nodes t)"
    proof (cases "c = label t")
      case True
      then show ?thesis using kids_disjoint [OF i1 cp] tk by blast
    next
      case False
      have "(c, label t) \<in> (child_rel kids)\<^sup>*" using nodes_desc [OF Cons.prems(4) c] by simp
      then obtain z where z: "(c, z) \<in> child_rel kids" "(z, label t) \<in> (child_rel kids)\<^sup>*" using False by (meson converse_rtranclE)
      then have "z = p" using kids_disjoint [OF i1 cp] by (auto simp: child_rel_def)
      then show ?thesis using desc_nodes [OF z(2)] Cons.prems(4) by simp
    qed
    then have "p \<notin> set (concat (List.map nodes ts))" "c \<notin> set (concat (List.map nodes ts))" using Cons.prems(5) c by auto
    then have "wins s2 c = wins s1 c" "wins s2 p = wins s1 p" using s2(2) by (simp_all add: resized_def)
    then show ?thesis using y by (auto simp: placed_def)
  qed
  then have "\<forall>c \<in> set (concat (List.map nodes (t # ts))). placed (wins s2) c" using s2(2) by (auto simp: resized_def)
  moreover have "\<forall>c. c \<notin> set (concat (List.map nodes (t # ts))) \<longrightarrow> wins s2 c = wins s c" using s1(2) s2(2) by (simp add: resized_def)
  moreover have "same ungrav (wins s2) (wins s)" using s1(2) s2(2) same_trans unfolding resized_def by blast
  moreover have "\<not> ?g \<longrightarrow> same ungeo (wins s2) (wins s)" using s1(2) s2(2) same_trans unfolding resized_def by blast
  moreover have "same_rest s2 s" using s1(2) s2(2) same_rest_trans unfolding resized_def by blast
  ultimately have "resized (set (concat (List.map nodes (t # ts)))) ?g s2 s" unfolding resized_def by blast
  moreover have "resize_loop e w dx dy dw dh (hdo (List.map label (t # ts))) s = Some s2"
    using s1(1) x s2(1) by (subst resize_loop.simps) simp
  ultimately show ?case by blast
qed

lemma resize_children_spec:
  assumes i: "tree_inv (wins s) kids" and w: "wins s w \<noteq> None"
  shows "\<exists>s'. ResizeChildrenWinSize e w dx dy dw dh s = Some s' \<and> resized (below kids w) (dw \<noteq> 0 \<or> dh \<noteq> 0) s' s"
proof -
  obtain x where x: "wins s w = Some x" using w by blast
  obtain t where t: "label t = w" "shape kids t" using shape_exists [OF tree_inv_wf [OF i]] by blast
  then obtain ts where ts: "t = Node w ts" by (cases t) auto
  have d: "distinct (nodes t)" by (rule tree_nodes_distinct [OF i t(2)]) (use w t in simp)
  have k: "kids w = List.map label ts" "\<And>u. u \<in> set ts \<Longrightarrow> shape kids u" using t(2) ts by (auto simp: shape_Node)
  have "\<exists>s'. resize_loop e w dx dy dw dh (hdo (List.map label ts)) s = Some s' \<and> resized (set (concat (List.map nodes ts))) (dw \<noteq> 0 \<or> dh \<noteq> 0) s' s"
    by (rule resize_loop_spec [OF i w, of "[]"]) (use k d ts in auto)
  moreover have "firstChild x = hdo (List.map label ts)" using tree_invD(1) [OF i x] k(1) by simp
  moreover have "below kids w = set (concat (List.map nodes ts))" by (rule below_nodes) (use t ts in simp)
  ultimately show ?thesis using x by (simp add: ResizeChildrenWinSize_def)
qed

subsection \<open>Properties\<close>

text \<open>C9. After a window has been moved or resized, \<open>ResizeChildrenWinSize\<close> brings all windows below it to where the position of their parent and their own origin say, at the 16 bits of
  the coordinates. The loop over the children, with the walk below each of them, returns; windows not below are left alone entirely, those below keep everything but position, regions and, for the children of a
  resized window, the origin that their gravity moves.\<close>

theorem ResizeChildrenWinSize_places:
  assumes "tree_inv (wins s) kids" "wins s w \<noteq> None"
  shows "\<exists>s'. ResizeChildrenWinSize e w dx dy dw dh s = Some s' \<and> (\<forall>c. c \<notin> below kids w \<longrightarrow> wins s' c = wins s c) \<and>
    (\<forall>c \<in> below kids w. placed (wins s') c) \<and> same ungrav (wins s') (wins s) \<and> (dw = 0 \<and> dh = 0 \<longrightarrow> same ungeo (wins s') (wins s))"
  using resize_children_spec [OF assms, of e dx dy dw dh] by (auto simp: resized_def)

theorem ResizeChildrenWinSize_places_witness:
  "\<exists>s'. ResizeChildrenWinSize sample_env 1 0 0 50 50 sample = Some s' \<and> placed (wins s') 5"
proof -
  have "(5, 3) \<in> child_rel sample_kids" "(3, 1) \<in> child_rel sample_kids" by (auto simp: child_rel_def sample_kids_def)
  then have "5 \<in> below sample_kids 1" by (auto simp: below_def intro: trancl_into_trancl2)
  moreover have "wins sample 1 \<noteq> None" by (simp add: sample_def sample_wins_def)
  ultimately show ?thesis using ResizeChildrenWinSize_places [OF sample_tree, of 1 sample_env 0 0 50 50] by blast
qed

end
