(* ===== verification/SyncCounters.thy ===== *)
theory SyncCounters
  imports ServerTime "HOL-Library.Monad_Syntax"
begin

text \<open>
  The objects of the SYNC extension (Xext/sync/sync.c, miext/sync/misync.c): counters and fences with their
  lists of triggers, the triggers of alarms and awaits, the bracket values of system counters, and what
  happens when a counter changes, a fence is triggered, or a counter or fence goes away.

  Objects live in explicit stores: counters and fences by their identifier, alarms by theirs, awaits by the
  identifier they are registered under, the fences of the Present extension (Xext/present/present_fence.c) by an
  address. A trigger is part of an alarm, of an await or of a Present fence, so a trigger pointer
  says which; a node of a trigger list is known by the trigger it holds, or is \<open>None\<close> once its pointer
  has been cleared. A step that would use freed or missing memory, or a loop that never ends, gives
  \<open>None\<close>. The security hook, the clients that are gone, memory and the clock are arguments; events and the
  calls that stop and resume clients are logged in the order the code makes them.
\<close>

subsection \<open>Data\<close>

type_synonym int64 = "64 word"

datatype trigger_ref = AlarmTrigger xid | AwaitTrigger xid nat | PresentTrigger nat

text \<open>The test of a Present fence reads the callback of the structure around the trigger: whether there is one is part of the
  test here.\<close>

datatype check_fn = CheckPositiveTransition | CheckNegativeTransition | CheckPositiveComparison
  | CheckNegativeComparison | CheckFence | CheckPresent bool

record SyncTrigger =
  tr_pSync :: "xid option"
  wait_value :: int64
  value_type :: card32
  test_type :: card32
  test_value :: int64
  CheckTrigger :: check_fn

datatype SyncCounterType = XSyncCounterNeverChanges | XSyncCounterNeverIncreases
  | XSyncCounterNeverDecreases | XSyncCounterUnrestricted

text \<open>The functions of a system counter come in two kinds. The pointers that the kinds keep to a bracket value are null or
  point to the field of the counter itself, so a flag says which.\<close>

datatype sys_kind = Servertime | IdleTime

record IdleCounterPriv =
  value_less :: bool
  value_greater :: bool
  deviceid :: int

record SysCounterInfo =
  sc_name :: string
  resolution :: int64
  bracket_greater :: int64
  bracket_less :: int64
  counterType :: SyncCounterType
  sc_kind :: sys_kind
  sc_private :: "IdleCounterPriv option"

datatype sync_body = CounterBody int64 "SysCounterInfo option" | FenceBody bool

record SyncObject =
  so_client :: "nat option"
  pTriglist :: "trigger_ref option list"
  initialized :: bool
  beingDestroyed :: bool
  so_body :: sync_body

datatype alarm_state = XSyncAlarmActive | XSyncAlarmInactive | XSyncAlarmDestroyed

record SyncAlarm =
  al_trigger :: SyncTrigger
  al_client :: nat
  al_delta :: int64
  al_events :: bool
  al_state :: alarm_state
  pEventClients :: "(nat \<times> xid) list"

record SyncAwait =
  aw_trigger :: SyncTrigger
  event_threshold :: int64

record SyncAwaitUnion =
  aw_client :: nat
  num_waitconditions :: nat
  aw_items :: "SyncAwait list"

text \<open>The pointer to the fence is the trigger's object as long as it is not null. A callback is a function with its parameter,
  a number here.\<close>

record present_fence =
  pf_fence :: "xid option"
  pf_callback :: "nat option"

record xSyncAlarmNotifyEvent =
  ane_alarm :: xid
  ane_counter_value :: int64
  ane_alarm_value :: int64
  ane_time :: card32
  ane_state :: alarm_state

record xSyncCounterNotifyEvent =
  cne_counter :: xid
  cne_wait_value :: int64
  cne_counter_value :: int64
  cne_time :: card32
  cne_count :: nat
  cne_destroyed :: bool

datatype sync_output =
    AlarmNotify nat xSyncAlarmNotifyEvent
  | CounterNotify nat "xSyncCounterNotifyEvent list"
  | IgnoreClient nat
  | AttendClient nat

datatype sync_handler = ServertimeHandlers | IdleTimeHandlers xid

record sync_state =
  objects :: "xid \<rightharpoonup> SyncObject"
  alarms :: "xid \<rightharpoonup> SyncAlarm"
  awaits :: "xid \<rightharpoonup> SyncAwaitUnion"
  presents :: "nat \<rightharpoonup> present_fence"
  sync_out :: "sync_output list"
  sync_time :: TimeStamp
  sync_reads :: nat
  sync_handlers :: "sync_handler list"
  SysCounterList :: "xid list"
  Now :: int64
  pnext_time :: bool
  idle_reset :: "int \<Rightarrow> bool"

record sync_env =
  sync_access :: "nat \<Rightarrow> xid \<Rightarrow> mask \<Rightarrow> status"
  legal_id :: "nat \<Rightarrow> xid \<Rightarrow> bool"
  fake_id :: "nat \<Rightarrow> sync_state \<Rightarrow> xid"
  sync_gone :: "nat \<Rightarrow> bool"
  sync_calloc :: bool
  sync_addres :: bool
  sync_tick :: "TimeStamp \<Rightarrow> TimeStamp"
  sync_clock :: "nat \<Rightarrow> card32"
  last_event :: "nat \<Rightarrow> int \<Rightarrow> card32"
  present_call :: "nat \<Rightarrow> sync_state \<Rightarrow> sync_state option"

text \<open>Protocol constants.\<close>

definition XSyncCACounter :: mask where "XSyncCACounter = push_bit 0 1"
definition XSyncCAValueType :: mask where "XSyncCAValueType = push_bit 1 1"
definition XSyncCAValue :: mask where "XSyncCAValue = push_bit 2 1"
definition XSyncCATestType :: mask where "XSyncCATestType = push_bit 3 1"
definition XSyncCADelta :: mask where "XSyncCADelta = push_bit 4 1"
definition XSyncCAEvents :: mask where "XSyncCAEvents = push_bit 5 1"
definition XSyncCAAllTrigger :: mask where
  "XSyncCAAllTrigger = XSyncCACounter OR XSyncCAValueType OR XSyncCAValue OR XSyncCATestType"
definition XSyncAbsolute :: card32 where "XSyncAbsolute = 0"
definition XSyncRelative :: card32 where "XSyncRelative = 1"
definition XSyncPositiveTransition :: card32 where "XSyncPositiveTransition = 0"
definition XSyncNegativeTransition :: card32 where "XSyncNegativeTransition = 1"
definition XSyncPositiveComparison :: card32 where "XSyncPositiveComparison = 2"
definition XSyncNegativeComparison :: card32 where "XSyncNegativeComparison = 3"
definition LLONG_MAX :: int64 where "LLONG_MAX = 0x7FFFFFFFFFFFFFFF"
definition LLONG_MIN :: int64 where "LLONG_MIN = 0x8000000000000000"

definition BadCounter :: status where "BadCounter = ExtensionError 0"
definition BadAlarm :: status where "BadAlarm = ExtensionError 1"
definition BadFence :: status where "BadFence = ExtensionError 2"

lemmas sync_masks = XSyncCACounter_def XSyncCAValueType_def XSyncCAValue_def XSyncCATestType_def
  XSyncCADelta_def XSyncCAEvents_def XSyncCAAllTrigger_def

lemmas sync_types = XSyncAbsolute_def XSyncRelative_def XSyncPositiveTransition_def XSyncNegativeTransition_def
  XSyncPositiveComparison_def XSyncNegativeComparison_def

definition sync_log :: "sync_output \<Rightarrow> sync_state \<Rightarrow> sync_state" where
  "sync_log out s = s\<lparr>sync_out := sync_out s @ [out]\<rparr>"

definition sync_update_time :: "sync_env \<Rightarrow> sync_state \<Rightarrow> sync_state" where
  "sync_update_time e s = s\<lparr>sync_time := sync_tick e (sync_time s)\<rparr>"

text \<open>Access through the pointers. \<open>IsSystemCounter\<close> is asked of counters only.\<close>

definition present_trigger :: "present_fence \<Rightarrow> SyncTrigger" where
  "present_trigger pf = \<lparr>tr_pSync = pf_fence pf, wait_value = 0, value_type = 0, test_type = 0, test_value = 0,
     CheckTrigger = CheckPresent (pf_callback pf \<noteq> None)\<rparr>"

fun trig_of :: "sync_state \<Rightarrow> trigger_ref \<Rightarrow> SyncTrigger option" where
  "trig_of s (AlarmTrigger a) = map_option al_trigger (alarms s a)"
| "trig_of s (AwaitTrigger w i) =
     (case awaits s w of
        None \<Rightarrow> None
      | Some u \<Rightarrow> if i < length (aw_items u) then Some (aw_trigger (aw_items u ! i)) else None)"
| "trig_of s (PresentTrigger p) = map_option present_trigger (presents s p)"

fun set_trig :: "trigger_ref \<Rightarrow> (SyncTrigger \<Rightarrow> SyncTrigger) \<Rightarrow> sync_state \<Rightarrow> sync_state" where
  "set_trig (AlarmTrigger a) f s =
     s\<lparr>alarms := (alarms s)(a := map_option (\<lambda>al. al\<lparr>al_trigger := f (al_trigger al)\<rparr>) (alarms s a))\<rparr>"
| "set_trig (AwaitTrigger w i) f s =
     s\<lparr>awaits := (awaits s)(w := map_option
        (\<lambda>u. u\<lparr>aw_items := (aw_items u)[i := (aw_items u ! i)\<lparr>aw_trigger := f (aw_trigger (aw_items u ! i))\<rparr>]\<rparr>)
        (awaits s w))\<rparr>"
| "set_trig (PresentTrigger p) f s =
     s\<lparr>presents := (presents s)(p := map_option (\<lambda>pf. pf\<lparr>pf_fence := tr_pSync (f (present_trigger pf))\<rparr>) (presents s p))\<rparr>"

definition upd_obj :: "xid \<Rightarrow> (SyncObject \<Rightarrow> SyncObject) \<Rightarrow> sync_state \<Rightarrow> sync_state" where
  "upd_obj x f s = s\<lparr>objects := (objects s)(x := map_option f (objects s x))\<rparr>"

definition upd_alarm :: "xid \<Rightarrow> (SyncAlarm \<Rightarrow> SyncAlarm) \<Rightarrow> sync_state \<Rightarrow> sync_state" where
  "upd_alarm a f s = s\<lparr>alarms := (alarms s)(a := map_option f (alarms s a))\<rparr>"

definition is_counter :: "SyncObject \<Rightarrow> bool" where
  "is_counter ob = (case so_body ob of CounterBody _ _ \<Rightarrow> True | FenceBody _ \<Rightarrow> False)"

definition IsSystemCounter :: "SyncObject \<Rightarrow> bool" where
  "IsSystemCounter ob \<longleftrightarrow> is_counter ob \<and> so_client ob = None"

fun set_counter_value :: "int64 \<Rightarrow> SyncObject \<Rightarrow> SyncObject" where
  "set_counter_value v ob =
     (case so_body ob of CounterBody _ sys \<Rightarrow> ob\<lparr>so_body := CounterBody v sys\<rparr> | FenceBody _ \<Rightarrow> ob)"

fun set_sysinfo :: "SysCounterInfo \<Rightarrow> SyncObject \<Rightarrow> SyncObject" where
  "set_sysinfo psci ob =
     (case so_body ob of CounterBody v _ \<Rightarrow> ob\<lparr>so_body := CounterBody v (Some psci)\<rparr> | FenceBody _ \<Rightarrow> ob)"

definition counter_value :: "SyncObject \<Rightarrow> int64" where
  "counter_value ob = (case so_body ob of CounterBody v _ \<Rightarrow> v | FenceBody _ \<Rightarrow> 0)"

subsection \<open>Checked arithmetic\<close>

text \<open>The sum and difference wrap; the flag says whether the signed operation overflowed.\<close>

definition checked_int64_add :: "int64 \<Rightarrow> int64 \<Rightarrow> bool \<times> int64" where
  "checked_int64_add a b =
     (let result = a + b in ((a <s 0) = (b <s 0) \<and> (a <s 0) \<noteq> (result <s 0), result))"

definition checked_int64_subtract :: "int64 \<Rightarrow> int64 \<Rightarrow> bool \<times> int64" where
  "checked_int64_subtract a b =
     (let result = a - b in ((a <s 0) \<noteq> (b <s 0) \<and> (a <s 0) \<noteq> (result <s 0), result))"

subsection \<open>System counters\<close>

definition sync_millis :: "sync_env \<Rightarrow> sync_state \<Rightarrow> card32 \<times> sync_state" where
  "sync_millis e s = (sync_clock e (sync_reads s), s\<lparr>sync_reads := sync_reads s + 1\<rparr>)"

text \<open>\<open>Now\<close> extends the 32-bit clock to 64 bits: when the clock is behind the low half, it has wrapped.\<close>

definition GetTime :: "sync_env \<Rightarrow> sync_state \<Rightarrow> sync_state" where
  "GetTime e s0 =
     (case sync_millis e s0 of (ms, s) \<Rightarrow>
        let millis = ucast ms :: int64;
            maxis0 = signed_drop_bit 32 (Now s);
            maxis = (if millis < Now s AND 0xFFFFFFFF then maxis0 + 1 else maxis0)
        in s\<lparr>Now := push_bit 32 maxis OR millis\<rparr>)"

definition ServertimeQueryValue :: "sync_env \<Rightarrow> sync_state \<Rightarrow> int64 \<times> sync_state" where
  "ServertimeQueryValue e s = (let s' = GetTime e s in (Now s', s'))"

definition XIAllDevices :: int where "XIAllDevices = 0"

text \<open>\<open>last_event\<close> may be another one at each reading of the clock.\<close>

definition IdleTimeQueryValue :: "sync_env \<Rightarrow> int \<Rightarrow> sync_state \<Rightarrow> int64 \<times> sync_state" where
  "IdleTimeQueryValue e dev s =
     (case sync_millis e s of (ms, s') \<Rightarrow> (ucast (ms - last_event e (sync_reads s') dev), s'))"

definition idle_device :: "SysCounterInfo \<Rightarrow> int" where
  "idle_device psci = (case sc_private psci of None \<Rightarrow> XIAllDevices | Some p \<Rightarrow> deviceid p)"

definition QueryValue :: "sync_env \<Rightarrow> SysCounterInfo \<Rightarrow> sync_state \<Rightarrow> int64 \<times> sync_state" where
  "QueryValue e psci s =
     (case sc_kind psci of
        Servertime \<Rightarrow> ServertimeQueryValue e s
      | IdleTime \<Rightarrow> IdleTimeQueryValue e (idle_device psci) s)"

text \<open>The arguments \<open>lo\<close> and \<open>hi\<close> say whether a bracket pointer is given or null.\<close>

definition ServertimeBracketValues :: "bool \<Rightarrow> bool \<Rightarrow> sync_state \<Rightarrow> sync_state" where
  "ServertimeBracketValues lo hi s =
     (let s1 = (if \<not> pnext_time s \<and> hi then s\<lparr>sync_handlers := sync_handlers s @ [ServertimeHandlers]\<rparr>
                else if pnext_time s \<and> \<not> hi then s\<lparr>sync_handlers := remove1 ServertimeHandlers (sync_handlers s)\<rparr>
                else s)
      in s1\<lparr>pnext_time := hi\<rparr>)"

definition IdleTimeBracketValues :: "xid \<Rightarrow> SysCounterInfo \<Rightarrow> bool \<Rightarrow> bool \<Rightarrow> sync_state \<Rightarrow> sync_state" where
  "IdleTimeBracketValues x psci lo hi s =
     (case sc_private psci of
        None \<Rightarrow> s
      | Some priv \<Rightarrow>
          let registered = (value_less priv \<or> value_greater priv);
              s1 = (if registered \<and> \<not> lo \<and> \<not> hi
                    then s\<lparr>sync_handlers := remove1 (IdleTimeHandlers x) (sync_handlers s)\<rparr>
                    else if \<not> registered \<and> (lo \<or> hi)
                    then s\<lparr>idle_reset := (\<lambda>_. False), sync_handlers := sync_handlers s @ [IdleTimeHandlers x]\<rparr>
                    else s)
          in upd_obj x (set_sysinfo (psci\<lparr>sc_private := Some (priv\<lparr>value_greater := hi, value_less := lo\<rparr>)\<rparr>)) s1)"

definition BracketValues :: "xid \<Rightarrow> SysCounterInfo \<Rightarrow> bool \<Rightarrow> bool \<Rightarrow> sync_state \<Rightarrow> sync_state" where
  "BracketValues x psci lo hi s =
     (case sc_kind psci of
        Servertime \<Rightarrow> ServertimeBracketValues lo hi s
      | IdleTime \<Rightarrow> IdleTimeBracketValues x psci lo hi s)"

text \<open>The nearest test values around the counter's value, among the triggers whose test the counter's type admits. The
  last two components say whether a bracket was set.\<close>

type_synonym brackets = "int64 \<times> int64 \<times> bool \<times> bool"

definition lower_bracket :: "int64 \<Rightarrow> brackets \<Rightarrow> brackets" where
  "lower_bracket t b = (case b of (lo, hi, nl, ng) \<Rightarrow> (t, hi, True, ng))"

definition raise_bracket :: "int64 \<Rightarrow> brackets \<Rightarrow> brackets" where
  "raise_bracket t b = (case b of (lo, hi, nl, ng) \<Rightarrow> (lo, t, nl, True))"

definition bracket_step :: "SyncCounterType \<Rightarrow> int64 \<Rightarrow> SyncTrigger \<Rightarrow> brackets \<Rightarrow> brackets" where
  "bracket_step ct v tr b =
     (let t = test_value tr; lo = fst b; hi = fst (snd b) in
      if test_type tr = XSyncPositiveComparison \<and> ct \<noteq> XSyncCounterNeverIncreases then
        (if v <s t \<and> t <s hi then raise_bracket t b
         else if t <s v \<and> lo <s t then lower_bracket t b else b)
      else if test_type tr = XSyncNegativeComparison \<and> ct \<noteq> XSyncCounterNeverDecreases then
        (if t <s v \<and> lo <s t then lower_bracket t b
         else if v <s t \<and> t <s hi then raise_bracket t b else b)
      else if test_type tr = XSyncNegativeTransition \<and> ct \<noteq> XSyncCounterNeverIncreases then
        (if t \<le>s v \<and> lo <s t then lower_bracket t b
         else if v <s t \<and> t <s hi then raise_bracket t b else b)
      else if test_type tr = XSyncPositiveTransition \<and> ct \<noteq> XSyncCounterNeverDecreases then
        (if v \<le>s t \<and> t <s hi then raise_bracket t b
         else if t <s v \<and> lo <s t then lower_bracket t b else b)
      else b)"

definition list_triggers :: "sync_state \<Rightarrow> trigger_ref option list \<Rightarrow> SyncTrigger list option" where
  "list_triggers s ns = those (map (\<lambda>n. Option.bind n (trig_of s)) ns)"

definition SyncComputeBracketValues :: "xid \<Rightarrow> sync_state \<Rightarrow> sync_state option" where
  "SyncComputeBracketValues x s =
     (case objects s x of
        None \<Rightarrow> None
      | Some ob \<Rightarrow>
          (case so_body ob of
             FenceBody _ \<Rightarrow> None
           | CounterBody v None \<Rightarrow> None
           | CounterBody v (Some psci) \<Rightarrow>
               if counterType psci = XSyncCounterNeverChanges then Some s
               else map_option
                 (\<lambda>trs. case fold (bracket_step (counterType psci) v) trs (LLONG_MIN, LLONG_MAX, False, False) of
                    (lo, hi, nl, ng) \<Rightarrow>
                      let psci' = psci\<lparr>bracket_less := lo, bracket_greater := hi\<rparr> in
                      BracketValues x psci' nl ng (upd_obj x (set_sysinfo psci') s))
                 (list_triggers s (pTriglist ob))))"

subsection \<open>Triggers and their lists\<close>

definition SyncDeleteTriggerFromSyncObject :: "trigger_ref \<Rightarrow> sync_state \<Rightarrow> sync_state option" where
  "SyncDeleteTriggerFromSyncObject t s =
     do {
       tr \<leftarrow> trig_of s t;
       case tr_pSync tr of
         None \<Rightarrow> Some s
       | Some x \<Rightarrow>
           do {
             ob \<leftarrow> objects s x;
             let s1 = upd_obj x (\<lambda>ob. ob\<lparr>pTriglist := remove1 (Some t) (pTriglist ob)\<rparr>) s;
             if IsSystemCounter ob then SyncComputeBracketValues x s1 else Some s1
           }
     }"

definition SyncAddTriggerToSyncObject :: "trigger_ref \<Rightarrow> sync_state \<Rightarrow> sync_state option" where
  "SyncAddTriggerToSyncObject t s =
     do {
       tr \<leftarrow> trig_of s t;
       case tr_pSync tr of
         None \<Rightarrow> Some s
       | Some x \<Rightarrow>
           do {
             ob \<leftarrow> objects s x;
             if Some t \<in> set (pTriglist ob) then Some s
             else do {
               let s1 = upd_obj x (\<lambda>ob. ob\<lparr>pTriglist := Some t # pTriglist ob\<rparr>) s;
               if IsSystemCounter ob then SyncComputeBracketValues x s1 else Some s1
             }
           }
     }"

text \<open>The six tests. The test of a Present fence asks for its callback only. For the others a trigger without an object holds; the
  four tests of counters are false of a fence; the test of fences applied to a counter would read it as a fence.\<close>

definition counter_test :: "check_fn \<Rightarrow> int64 \<Rightarrow> int64 \<Rightarrow> int64 \<Rightarrow> bool" where
  "counter_test fn t oldval v =
     (case fn of
        CheckPositiveComparison \<Rightarrow> t \<le>s v
      | CheckNegativeComparison \<Rightarrow> v \<le>s t
      | CheckPositiveTransition \<Rightarrow> oldval <s t \<and> t \<le>s v
      | CheckNegativeTransition \<Rightarrow> t <s oldval \<and> v \<le>s t
      | CheckFence \<Rightarrow> False
      | CheckPresent b \<Rightarrow> b)"

fun present_check :: "check_fn \<Rightarrow> bool option" where
  "present_check (CheckPresent b) = Some b"
| "present_check CheckPositiveTransition = None"
| "present_check CheckNegativeTransition = None"
| "present_check CheckPositiveComparison = None"
| "present_check CheckNegativeComparison = None"
| "present_check CheckFence = None"

definition SyncCheckTrigger :: "sync_state \<Rightarrow> SyncTrigger \<Rightarrow> int64 \<Rightarrow> bool option" where
  "SyncCheckTrigger s tr oldval =
     (case present_check (CheckTrigger tr) of
        Some b \<Rightarrow> Some b
      | None \<Rightarrow>
          (case tr_pSync tr of
             None \<Rightarrow> Some True
           | Some x \<Rightarrow>
               (case objects s x of
                  None \<Rightarrow> None
                | Some ob \<Rightarrow>
                    (case so_body ob of
                       CounterBody v _ \<Rightarrow>
                         if CheckTrigger tr = CheckFence then None
                         else Some (counter_test (CheckTrigger tr) (test_value tr) oldval v)
                     | FenceBody b \<Rightarrow> Some (CheckTrigger tr = CheckFence \<and> b)))))"

end
