(* ===== verification/SyncFire.thy ===== *)
theory SyncFire
  imports SyncCounters
begin

text \<open>
  What happens in the SYNC extension (Xext/sync/sync.c, miext/sync/misync.c) when triggers are set up, fire or lose their
  object: initialising a trigger, the events of alarms and awaits, the walks over a counter's or fence's triggers, and the
  functions that free counters, fences, awaits and alarms.
\<close>

subsection \<open>Initialising a trigger\<close>

datatype sync_restype = RTCounter | RTFence

text \<open>\<open>dixLookupResourceByType\<close> on the two types of objects; the resource database itself is the subject of
  its own theories. A refusal of the hook with \<open>BadValue\<close> becomes the type's own error.\<close>

definition type_error :: "sync_restype \<Rightarrow> status" where
  "type_error rt = (case rt of RTCounter \<Rightarrow> BadCounter | RTFence \<Rightarrow> BadFence)"

definition lookup_object :: "sync_env \<Rightarrow> nat \<Rightarrow> xid \<Rightarrow> sync_restype \<Rightarrow> mask \<Rightarrow> sync_state \<Rightarrow> status + SyncObject" where
  "lookup_object e client x rt mode s =
     (case objects s x of
        None \<Rightarrow> Inl (type_error rt)
      | Some ob \<Rightarrow>
          if is_counter ob \<noteq> (rt = RTCounter) then Inl (type_error rt)
          else let rc = sync_access e client x mode in
               if rc = BadValue then Inl (type_error rt) else if rc \<noteq> Success then Inl rc else Inr ob)"

text \<open>Setting the test value and the test function; an error leaves what has been written to the trigger so far. \<open>v\<close> is the
  value of the counter, if the object is a counter.\<close>

definition init_value :: "mask \<Rightarrow> int64 option \<Rightarrow> SyncTrigger \<Rightarrow> SyncTrigger \<times> (status \<times> card32 option) option" where
  "init_value changes v tr =
     (if changes AND XSyncCAValueType \<noteq> 0 \<and> value_type tr \<noteq> XSyncRelative \<and> value_type tr \<noteq> XSyncAbsolute
      then (tr, Some (BadValue, Some (value_type tr)))
      else if changes AND (XSyncCAValueType OR XSyncCAValue) \<noteq> 0 then
        if value_type tr = XSyncAbsolute then (tr\<lparr>test_value := wait_value tr\<rparr>, None)
        else case v of
               None \<Rightarrow> (tr, Some (BadMatch, None))
             | Some c \<Rightarrow>
                 (case checked_int64_add c (wait_value tr) of (ovf, r) \<Rightarrow>
                    (tr\<lparr>test_value := r\<rparr>,
                     if ovf then Some (BadValue, Some (ucast (signed_drop_bit 32 (wait_value tr)))) else None))
      else (tr, None))"

definition init_test :: "mask \<Rightarrow> bool \<Rightarrow> SyncTrigger \<Rightarrow> SyncTrigger \<times> (status \<times> card32 option) option" where
  "init_test changes fence tr =
     (if changes AND XSyncCATestType \<noteq> 0 then
        if fence then (tr\<lparr>CheckTrigger := CheckFence\<rparr>, None)
        else if test_type tr = XSyncPositiveTransition then (tr\<lparr>CheckTrigger := CheckPositiveTransition\<rparr>, None)
        else if test_type tr = XSyncNegativeTransition then (tr\<lparr>CheckTrigger := CheckNegativeTransition\<rparr>, None)
        else if test_type tr = XSyncPositiveComparison then (tr\<lparr>CheckTrigger := CheckPositiveComparison\<rparr>, None)
        else if test_type tr = XSyncNegativeComparison then (tr\<lparr>CheckTrigger := CheckNegativeComparison\<rparr>, None)
        else (tr, Some (BadValue, Some (test_type tr)))
      else (tr, None))"

definition init_fields :: "mask \<Rightarrow> int64 option \<Rightarrow> bool \<Rightarrow> SyncTrigger \<Rightarrow> SyncTrigger \<times> (status \<times> card32 option) option" where
  "init_fields changes v fence tr =
     (case init_value changes v tr of
        (tr1, Some err) \<Rightarrow> (tr1, Some err)
      | (tr1, None) \<Rightarrow> init_test changes fence tr1)"

text \<open>A system counter is asked for its value before the trigger is computed.\<close>

definition refresh_counter :: "sync_env \<Rightarrow> xid \<Rightarrow> sync_state \<Rightarrow> sync_state option" where
  "refresh_counter e x s =
     do {
       ob \<leftarrow> objects s x;
       if \<not> IsSystemCounter ob then Some s
       else case so_body ob of
              CounterBody v (Some psci) \<Rightarrow>
                (case QueryValue e psci s of (v', s') \<Rightarrow> Some (upd_obj x (set_counter_value v') s'))
            | _ \<Rightarrow> None
     }"

text \<open>The end of \<open>SyncInitTrigger\<close>: the trigger moves to its new object, or the brackets are computed again.\<close>

definition attach_trigger :: "trigger_ref \<Rightarrow> mask \<Rightarrow> xid option \<Rightarrow> sync_state \<Rightarrow> sync_state option" where
  "attach_trigger t changes pSync s =
     do {
       tr \<leftarrow> trig_of s t;
       if changes AND XSyncCACounter \<noteq> 0 \<and> pSync \<noteq> tr_pSync tr then
         do {
           s1 \<leftarrow> SyncDeleteTriggerFromSyncObject t s;
           SyncAddTriggerToSyncObject t (set_trig t (\<lambda>tr. tr\<lparr>tr_pSync := pSync\<rparr>) s1)
         }
       else
         case pSync of
           None \<Rightarrow> Some s
         | Some x \<Rightarrow> do {
             ob \<leftarrow> objects s x;
             if IsSystemCounter ob then SyncComputeBracketValues x s else Some s
           }
     }"

text \<open>The result is the status with the error value stored in the client, and the state.\<close>

definition init_target :: "sync_env \<Rightarrow> nat \<Rightarrow> SyncTrigger \<Rightarrow> xid \<Rightarrow> sync_restype \<Rightarrow> mask \<Rightarrow> sync_state \<Rightarrow> status + xid option" where
  "init_target e client tr syncObject rt changes s =
     (if changes AND XSyncCACounter = 0 then Inr (tr_pSync tr)
      else if syncObject = 0 then Inr None
      else map_sum (\<lambda>rc. rc) (\<lambda>_. Some syncObject) (lookup_object e client syncObject rt DixReadAccess s))"

definition SyncInitTrigger ::
    "sync_env \<Rightarrow> nat \<Rightarrow> trigger_ref \<Rightarrow> xid \<Rightarrow> sync_restype \<Rightarrow> mask \<Rightarrow> sync_state \<Rightarrow>
     ((status \<times> card32 option) \<times> sync_state) option" where
  "SyncInitTrigger e client t syncObject rt changes s =
     do {
       tr \<leftarrow> trig_of s t;
       case init_target e client tr syncObject rt changes s of
         Inl rc \<Rightarrow> Some ((rc, Some syncObject), s)
       | Inr pSync \<Rightarrow>
           do {
             s1 \<leftarrow> (case pSync of None \<Rightarrow> Some s | Some x \<Rightarrow> refresh_counter e x s);
             let ob = Option.bind pSync (objects s1);
             let v = Option.bind ob (\<lambda>ob. if is_counter ob then Some (counter_value ob) else None);
             let fence = (case ob of None \<Rightarrow> False | Some ob \<Rightarrow> \<not> is_counter ob);
             let (tr', err) = init_fields changes v fence tr;
             let s2 = set_trig t (\<lambda>_. tr') s1;
             case err of
               Some er \<Rightarrow> Some (er, s2)
             | None \<Rightarrow> map_option (\<lambda>s3. ((Success, None), s3)) (attach_trigger t changes pSync s2)
           }
     }"

subsection \<open>Events\<close>

text \<open>The counter of an alarm: \<open>Some None\<close> when it has none; no result when the object is gone or not a counter.\<close>

definition SyncSendAlarmNotifyEvents :: "sync_env \<Rightarrow> xid \<Rightarrow> sync_state \<Rightarrow> sync_state option" where
  "SyncSendAlarmNotifyEvents e a s0 =
     do {
       al \<leftarrow> alarms s0 a;
       ob \<leftarrow> (case tr_pSync (al_trigger al) of None \<Rightarrow> Some None | Some x \<Rightarrow> map_option Some (objects s0 x));
       if (case ob of None \<Rightarrow> False | Some ob \<Rightarrow> \<not> is_counter ob) then Some s0
       else do {
         let s = sync_update_time e s0;
         let ane = \<lparr>ane_alarm = a,
             ane_counter_value = (case ob of None \<Rightarrow> 0 | Some ob \<Rightarrow> counter_value ob),
             ane_alarm_value = test_value (al_trigger al),
             ane_time = milliseconds (sync_time s),
             ane_state = al_state al\<rparr>;
         let s1 = (if al_events al then sync_log (AlarmNotify (al_client al) ane) s else s);
         Some (fold (\<lambda>(c, _). sync_log (AlarmNotify c ane)) (pEventClients al) s1)
       }
     }"

text \<open>The events of the waits that are to be reported; an await always has an object.\<close>

definition counter_event :: "card32 \<Rightarrow> nat \<Rightarrow> sync_state \<Rightarrow> SyncAwait \<Rightarrow> xSyncCounterNotifyEvent option" where
  "counter_event now remaining s aw =
     do {
       x \<leftarrow> tr_pSync (aw_trigger aw);
       ob \<leftarrow> objects s x;
       Some \<lparr>cne_counter = x, cne_wait_value = test_value (aw_trigger aw),
             cne_counter_value = (if is_counter ob then counter_value ob else 0),
             cne_time = now, cne_count = remaining, cne_destroyed = beingDestroyed ob\<rparr>
     }"

definition SyncSendCounterNotifyEvents :: "sync_env \<Rightarrow> nat \<Rightarrow> SyncAwait list \<Rightarrow> sync_state \<Rightarrow> sync_state option" where
  "SyncSendCounterNotifyEvents e client aws s0 =
     (if sync_gone e client \<or> \<not> sync_calloc e then Some s0
      else let s = sync_update_time e s0; n = length aws in
           map_option (\<lambda>evs. sync_log (CounterNotify client evs) s)
             (those (map (\<lambda>i. counter_event (milliseconds (sync_time s)) (n - i - 1) s (aws ! i)) [0..<n])))"

definition XSyncPositiveTest :: "card32 \<Rightarrow> bool" where
  "XSyncPositiveTest t \<longleftrightarrow> t = XSyncPositiveComparison \<or> t = XSyncPositiveTransition"

definition XSyncNegativeTest :: "card32 \<Rightarrow> bool" where
  "XSyncNegativeTest t \<longleftrightarrow> t = XSyncNegativeComparison \<or> t = XSyncNegativeTransition"

text \<open>Whether a wait is to be reported.\<close>

definition await_reports :: "sync_state \<Rightarrow> SyncAwait \<Rightarrow> bool option" where
  "await_reports s aw =
     do {
       x \<leftarrow> tr_pSync (aw_trigger aw);
       ob \<leftarrow> objects s x;
       if beingDestroyed ob then Some True
       else if \<not> is_counter ob then Some False
       else let (ovf, diff) = checked_int64_subtract (counter_value ob) (test_value (aw_trigger aw));
                tt = test_type (aw_trigger aw)
            in Some (\<not> ovf \<and> (XSyncPositiveTest tt \<and> event_threshold aw \<le>s diff
                              \<or> XSyncNegativeTest tt \<and> diff \<le>s event_threshold aw))
     }"

fun reported_waits :: "sync_state \<Rightarrow> SyncAwait list \<Rightarrow> SyncAwait list option" where
  "reported_waits s [] = Some []"
| "reported_waits s (aw # aws) =
     do { b \<leftarrow> await_reports s aw; r \<leftarrow> reported_waits s aws; Some (if b then aw # r else r) }"

subsection \<open>Awaits\<close>

fun clear_node :: "trigger_ref \<Rightarrow> trigger_ref option list \<Rightarrow> trigger_ref option list" where
  "clear_node t [] = []"
| "clear_node t (n # ns) = (if n = Some t then None # ns else n # clear_node t ns)"

definition detach_await :: "trigger_ref \<Rightarrow> sync_state \<Rightarrow> sync_state option" where
  "detach_await t s =
     do {
       tr \<leftarrow> trig_of s t;
       case tr_pSync tr of
         None \<Rightarrow> Some s
       | Some x \<Rightarrow> do {
           ob \<leftarrow> objects s x;
           if \<not> beingDestroyed ob then SyncDeleteTriggerFromSyncObject t s
           else Some (upd_obj x (\<lambda>ob. ob\<lparr>pTriglist := clear_node t (pTriglist ob)\<rparr>) s)
         }
     }"

fun detach_all :: "trigger_ref list \<Rightarrow> sync_state \<Rightarrow> sync_state option" where
  "detach_all [] s = Some s"
| "detach_all (t # ts) s = do { s1 \<leftarrow> detach_await t s; detach_all ts s1 }"

definition await_refs :: "xid \<Rightarrow> nat \<Rightarrow> trigger_ref list" where
  "await_refs w n = map (AwaitTrigger w) [0..<n]"

definition FreeAwait :: "xid \<Rightarrow> sync_state \<Rightarrow> sync_state option" where
  "FreeAwait w s =
     do {
       u \<leftarrow> awaits s w;
       s1 \<leftarrow> detach_all (await_refs w (num_waitconditions u)) s;
       Some (s1\<lparr>awaits := (awaits s1)(w := None)\<rparr>)
     }"

text \<open>An await that ends, because a trigger holds or an object goes away: the events, the client resumed, the await freed.\<close>

definition SyncAwaitTriggerFired :: "sync_env \<Rightarrow> xid \<Rightarrow> sync_state \<Rightarrow> sync_state option" where
  "SyncAwaitTriggerFired e w s =
     do {
       u \<leftarrow> awaits s w;
       s1 \<leftarrow> (if \<not> sync_calloc e then Some s
              else do {
                rs \<leftarrow> reported_waits s (take (num_waitconditions u) (aw_items u));
                if rs \<noteq> [] then SyncSendCounterNotifyEvents e (aw_client u) rs s else Some s
              });
       FreeAwait w (sync_log (AttendClient (aw_client u)) s1)
     }"

subsection \<open>Alarms\<close>

text \<open>Adding the delta again and again until the trigger is false or the sum overflows.\<close>

partial_function (option) alarm_advance :: "(int64 \<Rightarrow> bool option) \<Rightarrow> int64 \<Rightarrow> int64 \<Rightarrow> (bool \<times> int64) option" where
  "alarm_advance chk d t =
     (if fst (checked_int64_add t d) then Some (True, snd (checked_int64_add t d))
      else Option.bind (chk (snd (checked_int64_add t d)))
             (\<lambda>b. if b then alarm_advance chk d (snd (checked_int64_add t d))
                  else Some (False, snd (checked_int64_add t d))))"

definition SyncAlarmTriggerFired :: "sync_env \<Rightarrow> xid \<Rightarrow> sync_state \<Rightarrow> sync_state option" where
  "SyncAlarmTriggerFired e a s =
     do {
       al \<leftarrow> alarms s a;
       let tr = al_trigger al;
       ob \<leftarrow> (case tr_pSync tr of None \<Rightarrow> Some None | Some x \<Rightarrow> map_option Some (objects s x));
       if (case ob of None \<Rightarrow> False | Some ob \<Rightarrow> \<not> is_counter ob) then Some s
       else if al_state al \<noteq> XSyncAlarmActive then Some s
       else do {
         (st, new_test_value) \<leftarrow>
           (case ob of
              None \<Rightarrow> Some (XSyncAlarmInactive, test_value tr)
            | Some ob \<Rightarrow>
                if al_delta al = 0 \<and> (test_type tr = XSyncPositiveComparison \<or> test_type tr = XSyncNegativeComparison)
                then Some (XSyncAlarmInactive, test_value tr)
                else map_option (\<lambda>(ovf, t'). if ovf then (XSyncAlarmInactive, test_value tr) else (XSyncAlarmActive, t'))
                  (alarm_advance (\<lambda>t. SyncCheckTrigger s (tr\<lparr>test_value := t\<rparr>) (counter_value ob)) (al_delta al) (test_value tr)));
         s1 \<leftarrow> SyncSendAlarmNotifyEvents e a (upd_alarm a (\<lambda>al. al\<lparr>al_state := st\<rparr>) s);
         Some (set_trig (AlarmTrigger a) (\<lambda>tr. tr\<lparr>test_value := new_test_value\<rparr>) s1)
       }
     }"

definition SyncAlarmCounterDestroyed :: "sync_env \<Rightarrow> xid \<Rightarrow> sync_state \<Rightarrow> sync_state option" where
  "SyncAlarmCounterDestroyed e a s =
     do {
       s1 \<leftarrow> SyncSendAlarmNotifyEvents e a (upd_alarm a (\<lambda>al. al\<lparr>al_state := XSyncAlarmInactive\<rparr>) s);
       Some (set_trig (AlarmTrigger a) (\<lambda>tr. tr\<lparr>tr_pSync := None\<rparr>) s1)
     }"

text \<open>The Present extension's fences (Xext/present/present_fence.c): \<open>p\<close> is the address of a new structure, \<open>None\<close> when there is no
  memory. What a callback does is an argument.\<close>

definition present_fence_create :: "nat option \<Rightarrow> xid \<Rightarrow> sync_state \<Rightarrow> (nat option \<times> sync_state) option" where
  "present_fence_create p x s =
     (case p of
        None \<Rightarrow> Some (None, s)
      | Some p \<Rightarrow>
          map_option (Pair (Some p))
            (SyncAddTriggerToSyncObject (PresentTrigger p)
               (s\<lparr>presents := (presents s)(p \<mapsto> \<lparr>pf_fence = Some x, pf_callback = None\<rparr>)\<rparr>)))"

definition present_fence_destroy :: "nat option \<Rightarrow> sync_state \<Rightarrow> sync_state option" where
  "present_fence_destroy p s =
     (case p of
        None \<Rightarrow> Some s
      | Some p \<Rightarrow>
          do {
            pf \<leftarrow> presents s p;
            s1 \<leftarrow> (if pf_fence pf \<noteq> None then SyncDeleteTriggerFromSyncObject (PresentTrigger p) s else Some s);
            Some (s1\<lparr>presents := (presents s1)(p := None)\<rparr>)
          })"

definition present_fence_set_callback :: "nat \<Rightarrow> nat option \<Rightarrow> sync_state \<Rightarrow> sync_state option" where
  "present_fence_set_callback p c s =
     map_option (\<lambda>pf. s\<lparr>presents := (presents s)(p \<mapsto> pf\<lparr>pf_callback := c\<rparr>)\<rparr>) (presents s p)"

definition present_fence_id :: "nat option \<Rightarrow> sync_state \<Rightarrow> xid option" where
  "present_fence_id p s =
     (case p of
        None \<Rightarrow> Some 0
      | Some p \<Rightarrow> map_option (\<lambda>pf. case pf_fence pf of None \<Rightarrow> 0 | Some x \<Rightarrow> x) (presents s p))"

definition present_fence_sync_trigger_fired :: "sync_env \<Rightarrow> nat \<Rightarrow> sync_state \<Rightarrow> sync_state option" where
  "present_fence_sync_trigger_fired e p s =
     do {
       pf \<leftarrow> presents s p;
       (case pf_callback pf of None \<Rightarrow> Some s | Some c \<Rightarrow> present_call e c s)
     }"

definition present_fence_sync_counter_destroyed :: "nat \<Rightarrow> sync_state \<Rightarrow> sync_state option" where
  "present_fence_sync_counter_destroyed p s =
     map_option (\<lambda>pf. s\<lparr>presents := (presents s)(p \<mapsto> pf\<lparr>pf_fence := None\<rparr>)\<rparr>) (presents s p)"

text \<open>The function pointers \<open>TriggerFired\<close> and \<open>CounterDestroyed\<close> of a trigger.\<close>

fun TriggerFired :: "sync_env \<Rightarrow> trigger_ref \<Rightarrow> sync_state \<Rightarrow> sync_state option" where
  "TriggerFired e (AlarmTrigger a) s = SyncAlarmTriggerFired e a s"
| "TriggerFired e (AwaitTrigger w i) s = SyncAwaitTriggerFired e w s"
| "TriggerFired e (PresentTrigger p) s = present_fence_sync_trigger_fired e p s"

fun CounterDestroyed :: "sync_env \<Rightarrow> trigger_ref \<Rightarrow> sync_state \<Rightarrow> sync_state option" where
  "CounterDestroyed e (AlarmTrigger a) s = SyncAlarmCounterDestroyed e a s"
| "CounterDestroyed e (AwaitTrigger w i) s = SyncAwaitTriggerFired e w s"
| "CounterDestroyed e (PresentTrigger p) s = present_fence_sync_counter_destroyed p s"

subsection \<open>Changing a counter\<close>

definition SyncUpdateCounter :: "xid \<Rightarrow> int64 \<Rightarrow> sync_state \<Rightarrow> (int64 \<times> sync_state) option" where
  "SyncUpdateCounter x newval s =
     map_option (\<lambda>ob. (counter_value ob, upd_obj x (set_counter_value newval) s)) (objects s x)"

fun next_node :: "'a \<Rightarrow> 'a list \<Rightarrow> 'a option" where
  "next_node n [] = None"
| "next_node n (m # ms) = (if m = n then (case ms of [] \<Rightarrow> None | k # _ \<Rightarrow> Some k) else next_node n ms)"

definition first_node :: "'a list \<Rightarrow> 'a option" where
  "first_node ns = (case ns of [] \<Rightarrow> None | n # _ \<Rightarrow> Some n)"

text \<open>The next node to visit after a trigger fired: the successor read before, if it is still in the list, otherwise
  the head of the list.\<close>

definition resume_node :: "'n option \<Rightarrow> ('s \<Rightarrow> 'n list option) \<Rightarrow> 's \<Rightarrow> 'n option option" where
  "resume_node pnext nodes s =
     (case pnext of
        None \<Rightarrow> Some None
      | Some n \<Rightarrow> map_option (\<lambda>ns. if n \<in> set ns then Some n else first_node ns) (nodes s))"

definition obj_nodes :: "xid \<Rightarrow> sync_state \<Rightarrow> trigger_ref option list option" where
  "obj_nodes x s = map_option pTriglist (objects s x)"

partial_function (option) change_loop ::
    "sync_env \<Rightarrow> xid \<Rightarrow> int64 \<Rightarrow> trigger_ref option option \<Rightarrow> sync_state \<Rightarrow> sync_state option" where
  "change_loop e x oldval ptl s =
     (case ptl of
        None \<Rightarrow> Some s
      | Some n \<Rightarrow>
          Option.bind (obj_nodes x s) (\<lambda>ns.
          Option.bind n (\<lambda>t.
          Option.bind (trig_of s t) (\<lambda>tr.
          Option.bind (SyncCheckTrigger s tr oldval) (\<lambda>b.
            if b then
              Option.bind (TriggerFired e t s) (\<lambda>s1.
              Option.bind (resume_node (next_node n ns) (obj_nodes x) s1) (\<lambda>p. change_loop e x oldval p s1))
            else change_loop e x oldval (next_node n ns) s)))))"

definition SyncChangeCounter :: "sync_env \<Rightarrow> xid \<Rightarrow> int64 \<Rightarrow> sync_state \<Rightarrow> sync_state option" where
  "SyncChangeCounter e x newval s =
     do {
       (oldval, s1) \<leftarrow> SyncUpdateCounter x newval s;
       ns \<leftarrow> obj_nodes x s1;
       s2 \<leftarrow> change_loop e x oldval (first_node ns) s1;
       ob \<leftarrow> objects s2 x;
       if IsSystemCounter ob then SyncComputeBracketValues x s2 else Some s2
     }"

subsection \<open>Fences\<close>

definition miSyncFenceSetTriggered :: "SyncObject \<Rightarrow> SyncObject" where
  "miSyncFenceSetTriggered ob = ob\<lparr>so_body := FenceBody True\<rparr>"

definition miSyncFenceReset :: "SyncObject \<Rightarrow> SyncObject" where
  "miSyncFenceReset ob = ob\<lparr>so_body := FenceBody False\<rparr>"

definition miSyncFenceCheckTriggered :: "SyncObject \<Rightarrow> bool" where
  "miSyncFenceCheckTriggered ob = (case so_body ob of FenceBody b \<Rightarrow> b | CounterBody _ _ \<Rightarrow> False)"

text \<open>Setting and testing a fence through a Present fence.\<close>

definition present_fence_set_triggered :: "nat option \<Rightarrow> sync_state \<Rightarrow> sync_state option" where
  "present_fence_set_triggered p s =
     (case p of
        None \<Rightarrow> Some s
      | Some p \<Rightarrow>
          do {
            pf \<leftarrow> presents s p;
            (case pf_fence pf of
               None \<Rightarrow> Some s
             | Some x \<Rightarrow> if objects s x = None then None else Some (upd_obj x miSyncFenceSetTriggered s))
          })"

definition present_fence_check_triggered :: "nat option \<Rightarrow> sync_state \<Rightarrow> bool option" where
  "present_fence_check_triggered p s =
     (case p of
        None \<Rightarrow> Some True
      | Some p \<Rightarrow>
          do {
            pf \<leftarrow> presents s p;
            (case pf_fence pf of
               None \<Rightarrow> Some True
             | Some x \<Rightarrow> map_option miSyncFenceCheckTriggered (objects s x))
          })"

text \<open>The first trigger of the list that holds.\<close>

fun find_triggered :: "sync_state \<Rightarrow> trigger_ref option list \<Rightarrow> trigger_ref option option" where
  "find_triggered s [] = Some None"
| "find_triggered s (n # ns) =
     do {
       t \<leftarrow> n;
       tr \<leftarrow> trig_of s t;
       b \<leftarrow> SyncCheckTrigger s tr 0;
       if b then Some (Some t) else find_triggered s ns
     }"

partial_function (option) fence_loop :: "sync_env \<Rightarrow> xid \<Rightarrow> sync_state \<Rightarrow> sync_state option" where
  "fence_loop e x s =
     Option.bind (obj_nodes x s) (\<lambda>ns.
     Option.bind (find_triggered s ns) (\<lambda>r.
       case r of
         None \<Rightarrow> Some s
       | Some t \<Rightarrow> Option.bind (TriggerFired e t s) (\<lambda>s1. fence_loop e x s1)))"

definition miSyncTriggerFence :: "sync_env \<Rightarrow> xid \<Rightarrow> sync_state \<Rightarrow> sync_state option" where
  "miSyncTriggerFence e x s = fence_loop e x (upd_obj x miSyncFenceSetTriggered s)"

declare alarm_advance.simps [code] change_loop.simps [code] fence_loop.simps [code]

subsection \<open>Freeing\<close>

text \<open>The walk over the triggers of an object that is destroyed: each node is taken off the list before its trigger is told.
  The count is the number of nodes, none of which is added or removed by the triggers.\<close>

fun destroy_loop :: "sync_env \<Rightarrow> xid \<Rightarrow> nat \<Rightarrow> sync_state \<Rightarrow> sync_state option" where
  "destroy_loop e x 0 s = Some s"
| "destroy_loop e x (Suc k) s =
     do {
       ns \<leftarrow> obj_nodes x s;
       case ns of
         [] \<Rightarrow> Some s
       | n # rest \<Rightarrow>
           do {
             let s1 = upd_obj x (\<lambda>ob. ob\<lparr>pTriglist := rest\<rparr>) s;
             s2 \<leftarrow> (case n of None \<Rightarrow> Some s1 | Some t \<Rightarrow> CounterDestroyed e t s1);
             destroy_loop e x k s2
           }
     }"

definition destroy_object :: "sync_env \<Rightarrow> xid \<Rightarrow> sync_state \<Rightarrow> sync_state option" where
  "destroy_object e x s =
     do {
       ob \<leftarrow> objects s x;
       let s1 = upd_obj x (\<lambda>ob. ob\<lparr>beingDestroyed := True\<rparr>) s;
       if initialized ob then destroy_loop e x (length (pTriglist ob)) s1 else Some s1
     }"

definition FreeCounter :: "sync_env \<Rightarrow> xid \<Rightarrow> sync_state \<Rightarrow> sync_state option" where
  "FreeCounter e x s =
     do {
       ob \<leftarrow> objects s x;
       s1 \<leftarrow> destroy_object e x s;
       let sys = (case so_body ob of CounterBody _ (Some _) \<Rightarrow> so_client ob = None \<and> initialized ob | _ \<Rightarrow> False);
       let s2 = (if sys then s1\<lparr>SysCounterList := remove1 x (SysCounterList s1)\<rparr> else s1);
       Some (s2\<lparr>objects := (objects s2)(x := None)\<rparr>)
     }"

definition miSyncDestroyFence :: "sync_env \<Rightarrow> xid \<Rightarrow> sync_state \<Rightarrow> sync_state option" where
  "miSyncDestroyFence e x s =
     do {
       s1 \<leftarrow> destroy_object e x s;
       Some (s1\<lparr>objects := (objects s1)(x := None)\<rparr>)
     }"

text \<open>Removing the client registered under a resource; that it is not there is a fatal error.\<close>

fun remove_client :: "xid \<Rightarrow> (nat \<times> xid) list \<Rightarrow> (nat \<times> xid) list option" where
  "remove_client d [] = None"
| "remove_client d (c # cs) = (if snd c = d then Some cs else map_option ((#) c) (remove_client d cs))"

definition FreeAlarmClient :: "xid \<Rightarrow> xid \<Rightarrow> sync_state \<Rightarrow> sync_state option" where
  "FreeAlarmClient a d s =
     do {
       al \<leftarrow> alarms s a;
       cs \<leftarrow> remove_client d (pEventClients al);
       Some (upd_alarm a (\<lambda>al. al\<lparr>pEventClients := cs\<rparr>) s)
     }"

text \<open>The loop of \<open>FreeAlarm\<close> over the clients: the resource of the first client is freed until there is none; the count is the
  length of the list.\<close>

fun free_clients :: "xid \<Rightarrow> nat \<Rightarrow> sync_state \<Rightarrow> sync_state option" where
  "free_clients a 0 s = Some s"
| "free_clients a (Suc k) s =
     do {
       al \<leftarrow> alarms s a;
       case pEventClients al of
         [] \<Rightarrow> Some s
       | c # _ \<Rightarrow> do { s1 \<leftarrow> FreeAlarmClient a (snd c) s; free_clients a k s1 }
     }"

definition FreeAlarm :: "sync_env \<Rightarrow> xid \<Rightarrow> sync_state \<Rightarrow> sync_state option" where
  "FreeAlarm e a s =
     do {
       al \<leftarrow> alarms s a;
       s1 \<leftarrow> SyncSendAlarmNotifyEvents e a (upd_alarm a (\<lambda>al. al\<lparr>al_state := XSyncAlarmDestroyed\<rparr>) s);
       s2 \<leftarrow> free_clients a (length (pEventClients al)) s1;
       s3 \<leftarrow> SyncDeleteTriggerFromSyncObject (AlarmTrigger a) s2;
       Some (s3\<lparr>alarms := (alarms s3)(a := None)\<rparr>)
     }"

end
