(* ===== verification/SyncRequests.thy ===== *)
theory SyncRequests
  imports SyncFire Timers
begin

text \<open>
  The requests of the SYNC extension (Xext/sync/sync.c) on counters, alarms, awaits and fences, the creation of system
  counters, and the block and wakeup handlers of the system counters for the server's time and the idle time. A request's
  result is the status with the error value stored in the client, and the state, or a reply; \<open>None\<close> when the code
  uses freed memory or never returns.
\<close>

type_synonym sync_result = "((status \<times> card32 option) \<times> sync_state) option"

subsection \<open>Counters\<close>

definition make_int64 :: "card32 \<Rightarrow> card32 \<Rightarrow> int64" where
  "make_int64 hi lo = push_bit 32 (ucast hi) OR ucast lo"

definition sync_legal_id :: "sync_env \<Rightarrow> nat \<Rightarrow> xid \<Rightarrow> sync_state \<Rightarrow> bool" where
  "sync_legal_id e client x s \<longleftrightarrow> legal_id e client x \<and> objects s x = None \<and> alarms s x = None \<and> awaits s x = None"

text \<open>When the resource cannot be added, the database frees the object at once.\<close>

definition SyncCreate :: "sync_env \<Rightarrow> nat option \<Rightarrow> xid \<Rightarrow> sync_body \<Rightarrow> sync_state \<Rightarrow> sync_state option" where
  "SyncCreate e client x body s =
     (if \<not> sync_calloc e \<or> \<not> sync_addres e then None
      else Some (s\<lparr>objects := (objects s)(x \<mapsto>
             \<lparr>so_client = client, pTriglist = [], initialized = False, beingDestroyed = False, so_body = body\<rparr>)\<rparr>))"

definition SyncCreateCounter :: "sync_env \<Rightarrow> nat option \<Rightarrow> xid \<Rightarrow> int64 \<Rightarrow> sync_state \<Rightarrow> sync_state option" where
  "SyncCreateCounter e client x initial s =
     map_option (upd_obj x (\<lambda>ob. ob\<lparr>so_body := CounterBody initial None, initialized := True\<rparr>))
       (SyncCreate e client x (CounterBody 0 None) s)"

definition SyncCreateSystemCounter ::
    "sync_env \<Rightarrow> xid \<Rightarrow> string \<Rightarrow> int64 \<Rightarrow> int64 \<Rightarrow> SyncCounterType \<Rightarrow> sys_kind \<Rightarrow> sync_state \<Rightarrow> sync_state option" where
  "SyncCreateSystemCounter e x name initial res ct kind s =
     map_option (\<lambda>s1. upd_obj x (set_sysinfo
         \<lparr>sc_name = name, resolution = res, bracket_greater = LLONG_MAX, bracket_less = LLONG_MIN,
          counterType = ct, sc_kind = kind, sc_private = None\<rparr>)
         (s1\<lparr>SysCounterList := x # SysCounterList s1\<rparr>))
       (SyncCreateCounter e None x initial s)"

definition ProcSyncCreateCounter :: "sync_env \<Rightarrow> nat \<Rightarrow> xid \<Rightarrow> card32 \<Rightarrow> card32 \<Rightarrow> sync_state \<Rightarrow> sync_result" where
  "ProcSyncCreateCounter e client cid hi lo s =
     (if \<not> sync_legal_id e client cid s then Some ((BadIDChoice, Some cid), s)
      else case SyncCreateCounter e (Some client) cid (make_int64 hi lo) s of
             None \<Rightarrow> Some ((BadAlloc, None), s)
           | Some s' \<Rightarrow> Some ((Success, None), s'))"

definition ProcSyncSetCounter :: "sync_env \<Rightarrow> nat \<Rightarrow> xid \<Rightarrow> card32 \<Rightarrow> card32 \<Rightarrow> sync_state \<Rightarrow> sync_result" where
  "ProcSyncSetCounter e client cid hi lo s =
     (case lookup_object e client cid RTCounter DixWriteAccess s of
        Inl rc \<Rightarrow> Some ((rc, Some cid), s)
      | Inr ob \<Rightarrow>
          if IsSystemCounter ob then Some ((BadAccess, Some cid), s)
          else map_option (\<lambda>s'. ((Success, None), s')) (SyncChangeCounter e cid (make_int64 hi lo) s))"

definition ProcSyncChangeCounter :: "sync_env \<Rightarrow> nat \<Rightarrow> xid \<Rightarrow> card32 \<Rightarrow> card32 \<Rightarrow> sync_state \<Rightarrow> sync_result" where
  "ProcSyncChangeCounter e client cid hi lo s =
     (case lookup_object e client cid RTCounter DixWriteAccess s of
        Inl rc \<Rightarrow> Some ((rc, Some cid), s)
      | Inr ob \<Rightarrow>
          if IsSystemCounter ob then Some ((BadAccess, Some cid), s)
          else case checked_int64_add (make_int64 hi lo) (counter_value ob) of
                 (True, _) \<Rightarrow> Some ((BadValue, Some hi), s)
               | (False, newvalue) \<Rightarrow> map_option (\<lambda>s'. ((Success, None), s')) (SyncChangeCounter e cid newvalue s))"

definition ProcSyncDestroyCounter :: "sync_env \<Rightarrow> nat \<Rightarrow> xid \<Rightarrow> sync_state \<Rightarrow> sync_result" where
  "ProcSyncDestroyCounter e client cid s =
     (case lookup_object e client cid RTCounter DixDestroyAccess s of
        Inl rc \<Rightarrow> Some ((rc, Some cid), s)
      | Inr ob \<Rightarrow>
          if IsSystemCounter ob then Some ((BadAccess, Some cid), s)
          else map_option (\<lambda>s'. ((Success, None), s')) (FreeCounter e cid s))"

definition ProcSyncQueryCounter :: "sync_env \<Rightarrow> nat \<Rightarrow> xid \<Rightarrow> sync_state \<Rightarrow> (int64 response \<times> sync_state) option" where
  "ProcSyncQueryCounter e client cid s =
     (case lookup_object e client cid RTCounter DixReadAccess s of
        Inl rc \<Rightarrow> Some (Err rc (Some cid), s)
      | Inr _ \<Rightarrow> do {
          s1 \<leftarrow> refresh_counter e cid s;
          ob \<leftarrow> objects s1 cid;
          Some (Reply (counter_value ob), s1)
        })"

subsection \<open>Awaits\<close>

definition zero_trigger :: SyncTrigger where
  "zero_trigger = \<lparr>tr_pSync = None, wait_value = 0, value_type = 0, test_type = 0, test_value = 0,
     CheckTrigger = CheckPositiveTransition\<rparr>"

text \<open>The array of waits is allocated zeroed; its triggers are not used before they are initialised.\<close>

definition SyncAwaitPrologue :: "sync_env \<Rightarrow> nat \<Rightarrow> nat \<Rightarrow> sync_state \<Rightarrow> (xid \<times> sync_state) option" where
  "SyncAwaitPrologue e client items s =
     (if \<not> sync_calloc e \<or> \<not> sync_addres e then None
      else let w = fake_id e client s in
           Some (w, s\<lparr>awaits := (awaits s)(w \<mapsto> \<lparr>aw_client = client, num_waitconditions = 0,
                        aw_items = replicate items \<lparr>aw_trigger = zero_trigger, event_threshold = 0\<rparr>\<rparr>)\<rparr>))"

text \<open>The first trigger that already holds ends the await.\<close>

fun epilogue_loop :: "sync_env \<Rightarrow> trigger_ref list \<Rightarrow> sync_state \<Rightarrow> sync_state option" where
  "epilogue_loop e [] s = Some s"
| "epilogue_loop e (t # ts) s =
     do {
       tr \<leftarrow> trig_of s t;
       x \<leftarrow> tr_pSync tr;
       ob \<leftarrow> objects s x;
       b \<leftarrow> SyncCheckTrigger s tr (counter_value ob);
       if b then TriggerFired e t s else epilogue_loop e ts s
     }"

definition SyncAwaitEpilogue :: "sync_env \<Rightarrow> nat \<Rightarrow> nat \<Rightarrow> xid \<Rightarrow> sync_state \<Rightarrow> sync_state option" where
  "SyncAwaitEpilogue e client items w s = epilogue_loop e (await_refs w items) (sync_log (IgnoreClient client) s)"

record xSyncWaitCondition =
  wc_counter :: xid
  wc_value_type :: card32
  wc_wait_value :: int64
  wc_test_type :: card32
  wc_event_threshold :: int64

fun wait_conditions :: "card32 list \<Rightarrow> xSyncWaitCondition list" where
  "wait_conditions (c # vt # whi # wlo # tt # ehi # elo # rest) =
     \<lparr>wc_counter = c, wc_value_type = vt, wc_wait_value = make_int64 whi wlo, wc_test_type = tt,
      wc_event_threshold = make_int64 ehi elo\<rparr> # wait_conditions rest"
| "wait_conditions _ = []"

text \<open>Filling in wait \<open>i\<close> of the array, and counting it.\<close>

definition set_wait :: "xid \<Rightarrow> nat \<Rightarrow> SyncTrigger \<Rightarrow> sync_state \<Rightarrow> sync_state" where
  "set_wait w i tr s = set_trig (AwaitTrigger w i) (\<lambda>_. tr) s"

definition count_wait :: "xid \<Rightarrow> nat \<Rightarrow> int64 \<Rightarrow> sync_state \<Rightarrow> sync_state" where
  "count_wait w i th s =
     s\<lparr>awaits := (awaits s)(w := map_option
        (\<lambda>u. u\<lparr>aw_items := (aw_items u)[i := (aw_items u ! i)\<lparr>event_threshold := th\<rparr>],
              num_waitconditions := num_waitconditions u + 1\<rparr>) (awaits s w))\<rparr>"

fun await_loop :: "sync_env \<Rightarrow> nat \<Rightarrow> xid \<Rightarrow> sync_restype \<Rightarrow> nat \<Rightarrow> xSyncWaitCondition list \<Rightarrow> sync_state \<Rightarrow> sync_result" where
  "await_loop e client w rt i [] s = Some ((Success, None), s)"
| "await_loop e client w rt i (c # cs) s =
     (if wc_counter c = 0 then map_option (\<lambda>s'. ((type_error rt, Some 0), s')) (FreeAwait w s)
      else do {
        let tr = zero_trigger\<lparr>value_type := wc_value_type c, wait_value := wc_wait_value c, test_type := wc_test_type c\<rparr>;
        ((rc, err), s1) \<leftarrow> SyncInitTrigger e client (AwaitTrigger w i) (wc_counter c) rt XSyncCAAllTrigger (set_wait w i tr s);
        if rc \<noteq> Success then map_option (\<lambda>s'. ((rc, err), s')) (FreeAwait w s1)
        else await_loop e client w rt (Suc i) cs (count_wait w i (wc_event_threshold c) s1)
      })"

definition start_await :: "sync_env \<Rightarrow> nat \<Rightarrow> sync_restype \<Rightarrow> xSyncWaitCondition list \<Rightarrow> sync_state \<Rightarrow> sync_result" where
  "start_await e client rt cs s =
     (if cs = [] then Some ((BadValue, Some 0), s)
      else case SyncAwaitPrologue e client (length cs) s of
             None \<Rightarrow> Some ((BadAlloc, None), s)
           | Some (w, s1) \<Rightarrow>
               do {
                 ((rc, err), s2) \<leftarrow> await_loop e client w rt 0 cs s1;
                 if rc \<noteq> Success then Some ((rc, err), s2)
                 else map_option (\<lambda>s3. ((Success, None), s3)) (SyncAwaitEpilogue e client (length cs) w s2)
               })"

text \<open>\<open>ws\<close> are the words after the request's header.\<close>

definition ProcSyncAwait :: "sync_env \<Rightarrow> nat \<Rightarrow> card32 list \<Rightarrow> sync_state \<Rightarrow> sync_result" where
  "ProcSyncAwait e client ws s =
     (if length ws div 7 * 7 \<noteq> length ws then Some ((BadLength, None), s)
      else start_await e client RTCounter (wait_conditions ws) s)"

definition fence_condition :: "xid \<Rightarrow> xSyncWaitCondition" where
  "fence_condition x = \<lparr>wc_counter = x, wc_value_type = XSyncAbsolute, wc_wait_value = 0, wc_test_type = 0, wc_event_threshold = 0\<rparr>"

definition ProcSyncAwaitFence :: "sync_env \<Rightarrow> nat \<Rightarrow> xid list \<Rightarrow> sync_state \<Rightarrow> sync_result" where
  "ProcSyncAwaitFence e client fences s = start_await e client RTFence (map fence_condition fences) s"

subsection \<open>Alarms\<close>

definition SyncEventSelectForAlarm :: "sync_env \<Rightarrow> xid \<Rightarrow> nat \<Rightarrow> bool \<Rightarrow> sync_state \<Rightarrow> (status \<times> sync_state) option" where
  "SyncEventSelectForAlarm e a client wantevents s =
     do {
       al \<leftarrow> alarms s a;
       if client = al_client al then Some (Success, upd_alarm a (\<lambda>al. al\<lparr>al_events := wantevents\<rparr>) s)
       else case List.find (\<lambda>c. fst c = client) (pEventClients al) of
              Some c \<Rightarrow>
                if \<not> wantevents then map_option (\<lambda>s'. (Success, s')) (FreeAlarmClient a (snd c) s) else Some (Success, s)
            | None \<Rightarrow>
                if \<not> wantevents then Some (Success, s)
                else if \<not> sync_calloc e then Some (BadAlloc, s)
                else if \<not> sync_addres e then Some (BadAlloc, s)
                else Some (Success, upd_alarm a (\<lambda>al. al\<lparr>pEventClients := (client, fake_id e client s) # pEventClients al\<rparr>) s)
     }"

text \<open>The attributes of a request, read in the order of their bits: the new trigger, counter and delta, and whether the
  selection of events changes.\<close>

record alarm_attrs =
  at_trigger :: SyncTrigger
  at_counter :: xid
  at_delta :: int64
  at_events :: "bool option"

definition lowbit :: "mask \<Rightarrow> mask" where
  "lowbit m = m AND - m"

lemma clear_lowbit_less:
  fixes m :: mask
  assumes b: "lowbit m = b" and "b \<noteq> 0"
  shows "unat (m AND NOT b) < unat m"
proof -
  have "m AND NOT b \<le> m" by (rule word_and_le2)
  moreover have "m AND NOT b \<noteq> m"
  proof
    assume "m AND NOT b = m"
    then have "b AND m = b AND (m AND NOT b)" by simp
    also have "\<dots> = 0" by (rule bit_eqI) (simp add: bit_simps)
    finally have "b AND m = 0" .
    moreover have "b AND m = b" unfolding b [symmetric] by (simp add: lowbit_def and.commute and.left_commute)
    ultimately show False using \<open>b \<noteq> 0\<close> by simp
  qed
  ultimately have "m AND NOT b < m" by (rule order_neq_le_trans [rotated])
  then show ?thesis by (simp only: word_less_nat_alt)
qed

lemma sync_masks_nonzero:
  "XSyncCACounter \<noteq> 0" "XSyncCAValueType \<noteq> 0" "XSyncCAValue \<noteq> 0" "XSyncCATestType \<noteq> 0"
  "XSyncCADelta \<noteq> 0" "XSyncCAEvents \<noteq> 0"
  by (simp_all add: sync_masks)

function read_attrs :: "mask \<Rightarrow> card32 list \<Rightarrow> alarm_attrs \<Rightarrow> ((card32, alarm_attrs) sum) option" where
  "read_attrs m vs at =
     (if m = 0 then Some (Inr at)
      else
        let b = lowbit m; m' = m AND NOT b in
        if b = XSyncCACounter then (case vs of v # vs' \<Rightarrow> read_attrs m' vs' (at\<lparr>at_counter := v\<rparr>) | _ \<Rightarrow> None)
        else if b = XSyncCAValueType then
          (case vs of v # vs' \<Rightarrow> read_attrs m' vs' (at\<lparr>at_trigger := (at_trigger at)\<lparr>value_type := v\<rparr>\<rparr>) | _ \<Rightarrow> None)
        else if b = XSyncCAValue then
          (case vs of h # l # vs' \<Rightarrow> read_attrs m' vs' (at\<lparr>at_trigger := (at_trigger at)\<lparr>wait_value := make_int64 h l\<rparr>\<rparr>) | _ \<Rightarrow> None)
        else if b = XSyncCATestType then
          (case vs of v # vs' \<Rightarrow> read_attrs m' vs' (at\<lparr>at_trigger := (at_trigger at)\<lparr>test_type := v\<rparr>\<rparr>) | _ \<Rightarrow> None)
        else if b = XSyncCADelta then
          (case vs of h # l # vs' \<Rightarrow> read_attrs m' vs' (at\<lparr>at_delta := make_int64 h l\<rparr>) | _ \<Rightarrow> None)
        else if b = XSyncCAEvents then
          (case vs of
             v # vs' \<Rightarrow> if v \<noteq> 1 \<and> v \<noteq> 0 then Some (Inl v) else read_attrs m' vs' (at\<lparr>at_events := Some (v = 1)\<rparr>)
           | _ \<Rightarrow> None)
        else Some (Inl m'))"
  by auto
termination
  by (relation "measure (\<lambda>(m, vs, at). unat m)") (auto intro!: clear_lowbit_less simp: sync_masks_nonzero)

declare read_attrs.simps [simp del]

definition delta_mismatch :: "card32 \<Rightarrow> int64 \<Rightarrow> bool" where
  "delta_mismatch tt d \<longleftrightarrow> XSyncPositiveTest tt \<and> d <s 0 \<or> XSyncNegativeTest tt \<and> 0 <s d"

definition SyncChangeAlarmAttributes :: "sync_env \<Rightarrow> nat \<Rightarrow> xid \<Rightarrow> mask \<Rightarrow> card32 list \<Rightarrow> sync_state \<Rightarrow> sync_result" where
  "SyncChangeAlarmAttributes e client a m vs s =
     do {
       al \<leftarrow> alarms s a;
       r \<leftarrow> read_attrs m vs \<lparr>at_trigger = al_trigger al,
              at_counter = (case tr_pSync (al_trigger al) of None \<Rightarrow> 0 | Some x \<Rightarrow> x),
              at_delta = al_delta al, at_events = None\<rparr>;
       case r of
         Inl err \<Rightarrow> Some ((BadValue, Some err), s)
       | Inr at \<Rightarrow>
           do {
             (rc, s1) \<leftarrow> (case at_events at of None \<Rightarrow> Some (Success, s) | Some b \<Rightarrow> SyncEventSelectForAlarm e a client b s);
             if rc \<noteq> Success then Some ((rc, None), s1)
             else if m AND (XSyncCADelta OR XSyncCATestType) \<noteq> 0 \<and> delta_mismatch (test_type (at_trigger at)) (at_delta at)
             then Some ((BadMatch, None), s1)
             else do {
               let s2 = upd_alarm a (\<lambda>al. al\<lparr>al_delta := at_delta at, al_trigger := at_trigger at\<rparr>) s1;
               ((rc, err), s3) \<leftarrow> SyncInitTrigger e client (AlarmTrigger a) (at_counter at) RTCounter (m AND XSyncCAAllTrigger) s2;
               if rc \<noteq> Success then Some ((rc, err), s3)
               else Some ((Success, None), upd_alarm a (\<lambda>al. al\<lparr>al_state := XSyncAlarmActive\<rparr>) s3)
             }
           }
     }"

definition Ones :: "mask \<Rightarrow> nat" where
  "Ones m = length (filter (bit m) [0..<32])"

definition attrs_length :: "mask \<Rightarrow> nat" where
  "attrs_length m = Ones m + Ones (m AND (XSyncCAValue OR XSyncCADelta))"

text \<open>The counter of the alarm: none, or gone or not a counter.\<close>

definition new_alarm :: "nat \<Rightarrow> SyncTrigger \<Rightarrow> SyncAlarm" where
  "new_alarm client tr =
     \<lparr>al_trigger = tr, al_client = client, al_delta = 1, al_events = True, al_state = XSyncAlarmInactive, pEventClients = []\<rparr>"

definition default_trigger :: SyncTrigger where
  "default_trigger = zero_trigger\<lparr>value_type := XSyncAbsolute, test_type := XSyncPositiveComparison\<rparr>"

definition check_alarm_now :: "sync_env \<Rightarrow> xid \<Rightarrow> sync_state \<Rightarrow> sync_state option" where
  "check_alarm_now e a s =
     do {
       al \<leftarrow> alarms s a;
       x \<leftarrow> tr_pSync (al_trigger al);
       ob \<leftarrow> objects s x;
       b \<leftarrow> SyncCheckTrigger s (al_trigger al) (counter_value ob);
       if b then SyncAlarmTriggerFired e a s else Some s
     }"

definition ProcSyncCreateAlarm :: "sync_env \<Rightarrow> nat \<Rightarrow> xid \<Rightarrow> mask \<Rightarrow> card32 list \<Rightarrow> sync_state \<Rightarrow> sync_result" where
  "ProcSyncCreateAlarm e client a vmask vs s =
     (if \<not> sync_legal_id e client a s then Some ((BadIDChoice, Some a), s)
      else if length vs \<noteq> attrs_length vmask then Some ((BadLength, None), s)
      else if \<not> sync_calloc e then Some ((BadAlloc, None), s)
      else do {
        let s0 = s\<lparr>alarms := (alarms s)(a \<mapsto> new_alarm client default_trigger)\<rparr>;
        ((rc, err), s1) \<leftarrow> SyncInitTrigger e client (AlarmTrigger a) 0 RTCounter XSyncCAAllTrigger s0;
        if rc \<noteq> Success then Some ((rc, err), s1\<lparr>alarms := (alarms s1)(a := None)\<rparr>)
        else do {
          ((rc, err), s2) \<leftarrow> SyncChangeAlarmAttributes e client a vmask vs s1;
          if rc \<noteq> Success then Some ((rc, err), s2\<lparr>alarms := (alarms s2)(a := None)\<rparr>)
          else if \<not> sync_addres e then map_option (\<lambda>s3. ((BadAlloc, None), s3)) (FreeAlarm e a s2)
          else do {
            al \<leftarrow> alarms s2 a;
            case tr_pSync (al_trigger al) of
              None \<Rightarrow> Some ((Success, None), upd_alarm a (\<lambda>al. al\<lparr>al_state := XSyncAlarmInactive\<rparr>) s2)
            | Some x \<Rightarrow> do {
                ob \<leftarrow> objects s2 x;
                if \<not> is_counter ob then map_option (\<lambda>s3. ((BadAlloc, None), s3)) (FreeAlarm e a s2)
                else map_option (\<lambda>s3. ((Success, None), s3)) (check_alarm_now e a s2)
              }
          }
        }
      })"

text \<open>\<open>dixLookupResourceByType\<close> on alarms.\<close>

definition lookup_alarm :: "sync_env \<Rightarrow> nat \<Rightarrow> xid \<Rightarrow> mask \<Rightarrow> sync_state \<Rightarrow> status + SyncAlarm" where
  "lookup_alarm e client a mode s =
     (case alarms s a of
        None \<Rightarrow> Inl BadAlarm
      | Some al \<Rightarrow>
          let rc = sync_access e client a mode in
          if rc = BadValue then Inl BadAlarm else if rc \<noteq> Success then Inl rc else Inr al)"

definition ProcSyncChangeAlarm :: "sync_env \<Rightarrow> nat \<Rightarrow> xid \<Rightarrow> mask \<Rightarrow> card32 list \<Rightarrow> sync_state \<Rightarrow> sync_result" where
  "ProcSyncChangeAlarm e client a vmask vs s =
     (case lookup_alarm e client a DixWriteAccess s of
        Inl rc \<Rightarrow> Some ((rc, Some a), s)
      | Inr _ \<Rightarrow>
          if length vs \<noteq> attrs_length vmask then Some ((BadLength, None), s)
          else do {
            ((rc, err), s1) \<leftarrow> SyncChangeAlarmAttributes e client a vmask vs s;
            if rc \<noteq> Success then Some ((rc, err), s1)
            else do {
              al \<leftarrow> alarms s1 a;
              case tr_pSync (al_trigger al) of
                None \<Rightarrow> map_option (\<lambda>s2. ((Success, None), s2)) (SyncAlarmTriggerFired e a s1)
              | Some x \<Rightarrow> do {
                  ob \<leftarrow> objects s1 x;
                  if \<not> is_counter ob then map_option (\<lambda>s2. ((Success, None), s2)) (SyncAlarmTriggerFired e a s1)
                  else map_option (\<lambda>s2. ((Success, None), s2)) (check_alarm_now e a s1)
                }
            }
          })"

record xSyncQueryAlarmReply =
  qa_counter :: xid
  qa_wait_value :: int64
  qa_test_type :: card32
  qa_delta :: int64
  qa_events :: bool
  qa_state :: alarm_state

definition ProcSyncQueryAlarm :: "sync_env \<Rightarrow> nat \<Rightarrow> xid \<Rightarrow> sync_state \<Rightarrow> xSyncQueryAlarmReply response" where
  "ProcSyncQueryAlarm e client a s =
     (case lookup_alarm e client a DixReadAccess s of
        Inl rc \<Rightarrow> Err rc (Some a)
      | Inr al \<Rightarrow>
          Reply \<lparr>qa_counter = (case tr_pSync (al_trigger al) of None \<Rightarrow> 0 | Some x \<Rightarrow> x),
                 qa_wait_value = test_value (al_trigger al), qa_test_type = test_type (al_trigger al),
                 qa_delta = al_delta al, qa_events = al_events al, qa_state = al_state al\<rparr>)"

definition ProcSyncDestroyAlarm :: "sync_env \<Rightarrow> nat \<Rightarrow> xid \<Rightarrow> sync_state \<Rightarrow> sync_result" where
  "ProcSyncDestroyAlarm e client a s =
     (case lookup_alarm e client a DixDestroyAccess s of
        Inl rc \<Rightarrow> Some ((rc, Some a), s)
      | Inr _ \<Rightarrow> map_option (\<lambda>s'. ((Success, None), s')) (FreeAlarm e a s))"

subsection \<open>Fences\<close>

definition miSyncInitFence :: "xid \<Rightarrow> bool \<Rightarrow> sync_state \<Rightarrow> sync_state" where
  "miSyncInitFence x initially_triggered s =
     upd_obj x (\<lambda>ob. ob\<lparr>so_body := FenceBody initially_triggered, initialized := True\<rparr>) s"

text \<open>\<open>drawable\<close> is the result of looking up the drawable whose screen the fence is for.\<close>

definition ProcSyncCreateFence :: "sync_env \<Rightarrow> status \<Rightarrow> nat \<Rightarrow> xid \<Rightarrow> bool \<Rightarrow> sync_state \<Rightarrow> sync_result" where
  "ProcSyncCreateFence e drawable client fid initially_triggered s =
     (if drawable \<noteq> Success then Some ((drawable, None), s)
      else if \<not> sync_legal_id e client fid s then Some ((BadIDChoice, Some fid), s)
      else case SyncCreate e (Some client) fid (FenceBody False) s of
             None \<Rightarrow> Some ((BadAlloc, None), s)
           | Some s' \<Rightarrow> Some ((Success, None), miSyncInitFence fid initially_triggered s'))"

definition ProcSyncTriggerFence :: "sync_env \<Rightarrow> nat \<Rightarrow> xid \<Rightarrow> sync_state \<Rightarrow> sync_result" where
  "ProcSyncTriggerFence e client fid s =
     (case lookup_object e client fid RTFence DixWriteAccess s of
        Inl rc \<Rightarrow> Some ((rc, Some fid), s)
      | Inr _ \<Rightarrow> map_option (\<lambda>s'. ((Success, None), s')) (miSyncTriggerFence e fid s))"

definition ProcSyncResetFence :: "sync_env \<Rightarrow> nat \<Rightarrow> xid \<Rightarrow> sync_state \<Rightarrow> sync_result" where
  "ProcSyncResetFence e client fid s =
     (case lookup_object e client fid RTFence DixWriteAccess s of
        Inl rc \<Rightarrow> Some ((rc, Some fid), s)
      | Inr ob \<Rightarrow>
          if \<not> miSyncFenceCheckTriggered ob then Some ((BadMatch, None), s)
          else Some ((Success, None), upd_obj fid miSyncFenceReset s))"

definition ProcSyncDestroyFence :: "sync_env \<Rightarrow> nat \<Rightarrow> xid \<Rightarrow> sync_state \<Rightarrow> sync_result" where
  "ProcSyncDestroyFence e client fid s =
     (case lookup_object e client fid RTFence DixDestroyAccess s of
        Inl rc \<Rightarrow> Some ((rc, Some fid), s)
      | Inr _ \<Rightarrow> map_option (\<lambda>s'. ((Success, None), s')) (miSyncDestroyFence e fid s))"

definition ProcSyncQueryFence :: "sync_env \<Rightarrow> nat \<Rightarrow> xid \<Rightarrow> sync_state \<Rightarrow> bool response" where
  "ProcSyncQueryFence e client fid s =
     (case lookup_object e client fid RTFence DixReadAccess s of
        Inl rc \<Rightarrow> Err rc (Some fid)
      | Inr ob \<Rightarrow> Reply (miSyncFenceCheckTriggered ob))"

subsection \<open>Handlers of the system counters\<close>

text \<open>\<open>timeout\<close> is the delay the server is about to wait for; \<open>AdjustWaitForDelay\<close> takes an \<open>int\<close>, so a
  64-bit delay is cut to 32 bits.\<close>

definition delay_int :: "int64 \<Rightarrow> int" where
  "delay_int d = sint (ucast d :: 32 word)"

definition servertime_bracket :: "xid \<Rightarrow> sync_state \<Rightarrow> int64 option" where
  "servertime_bracket x s =
     (case objects s x of
        Some ob \<Rightarrow> (case so_body ob of CounterBody _ (Some psci) \<Rightarrow> Some (bracket_greater psci) | _ \<Rightarrow> None)
      | None \<Rightarrow> None)"

definition ServertimeBlockHandler :: "sync_env \<Rightarrow> xid \<Rightarrow> int \<Rightarrow> sync_state \<Rightarrow> (int \<times> sync_state) option" where
  "ServertimeBlockHandler e x timeout s =
     (if \<not> pnext_time s then Some (timeout, s)
      else do {
        let s1 = GetTime e s;
        nxt \<leftarrow> servertime_bracket x s1;
        Some (AdjustWaitForDelay timeout (if nxt \<le>s Now s1 then 0 else delay_int (nxt - Now s1)), s1)
      })"

definition ServertimeWakeupHandler :: "sync_env \<Rightarrow> xid \<Rightarrow> sync_state \<Rightarrow> sync_state option" where
  "ServertimeWakeupHandler e x s =
     (if \<not> pnext_time s then Some s
      else do {
        let s1 = GetTime e s;
        nxt \<leftarrow> servertime_bracket x s1;
        if nxt \<le>s Now s1 then SyncChangeCounter e x (Now s1) s1 else Some s1
      })"

definition SyncInitServerTime :: "sync_env \<Rightarrow> xid \<Rightarrow> sync_state \<Rightarrow> sync_state option" where
  "SyncInitServerTime e x s0 =
     (case sync_millis e s0 of (ms, s) \<Rightarrow>
        map_option (\<lambda>s1. s1\<lparr>pnext_time := False\<rparr>)
          (SyncCreateSystemCounter e x ''SERVERTIME'' (ucast ms) 4 XSyncCounterNeverDecreases Servertime (s\<lparr>Now := ucast ms\<rparr>)))"

definition idle_sysinfo :: "xid \<Rightarrow> sync_state \<Rightarrow> (SyncObject \<times> SysCounterInfo \<times> IdleCounterPriv) option" where
  "idle_sysinfo x s =
     do {
       ob \<leftarrow> objects s x;
       psci \<leftarrow> (case so_body ob of CounterBody _ (Some p) \<Rightarrow> Some p | _ \<Rightarrow> None);
       priv \<leftarrow> sc_private psci;
       Some (ob, psci, priv)
     }"

fun any_triggered :: "sync_state \<Rightarrow> int64 \<Rightarrow> trigger_ref option list \<Rightarrow> bool option" where
  "any_triggered s oldval [] = Some False"
| "any_triggered s oldval (n # ns) =
     do {
       t \<leftarrow> n;
       tr \<leftarrow> trig_of s t;
       b \<leftarrow> SyncCheckTrigger s tr oldval;
       if b then Some True else any_triggered s oldval ns
     }"

text \<open>The counter holds the present idle time while its triggers are tested, and its old value again afterwards.\<close>

definition IdleTimeBlockHandler :: "sync_env \<Rightarrow> xid \<Rightarrow> int \<Rightarrow> sync_state \<Rightarrow> (int \<times> sync_state) option" where
  "IdleTimeBlockHandler e x timeout s =
     do {
       (ob, psci, priv) \<leftarrow> idle_sysinfo x s;
       if \<not> value_less priv \<and> \<not> value_greater priv then Some (timeout, s)
       else do {
         let (idle, s1) = IdleTimeQueryValue e (deviceid priv) s;
         let pushed = upd_obj x (set_counter_value idle) s1;
         trig \<leftarrow> any_triggered pushed (counter_value ob) (pTriglist ob);
         let wt = (if value_less priv \<and> bracket_less psci <s idle \<and> idle_reset s (deviceid priv)
                   then AdjustWaitForDelay timeout 0
                   else if value_less priv \<and> idle \<le>s bracket_less psci then
                     (let wt1 = (if trig then AdjustWaitForDelay timeout 0 else timeout)
                      in if idle = bracket_less psci then AdjustWaitForDelay wt1 1 else wt1)
                   else if value_greater priv then
                     (if idle <s bracket_greater psci then AdjustWaitForDelay timeout (delay_int (bracket_greater psci - idle))
                      else if trig then AdjustWaitForDelay timeout 0 else timeout)
                   else timeout);
         Some (wt, s1)
       }
     }"

definition IdleTimeCheckBrackets :: "sync_env \<Rightarrow> xid \<Rightarrow> int64 \<Rightarrow> sync_state \<Rightarrow> sync_state option" where
  "IdleTimeCheckBrackets e x idle s =
     do {
       (ob, psci, priv) \<leftarrow> idle_sysinfo x s;
       if value_greater priv \<and> bracket_greater psci \<le>s idle \<or> value_less priv \<and> idle \<le>s bracket_less psci
       then SyncChangeCounter e x idle s
       else map_option snd (SyncUpdateCounter x idle s)
     }"

definition IdleTimeWakeupHandler :: "sync_env \<Rightarrow> xid \<Rightarrow> sync_state \<Rightarrow> sync_state option" where
  "IdleTimeWakeupHandler e x s =
     do {
       (ob, psci, priv) \<leftarrow> idle_sysinfo x s;
       if \<not> value_less priv \<and> \<not> value_greater priv then Some s
       else do {
         let (idle, s1) = IdleTimeQueryValue e (deviceid priv) s;
         s2 \<leftarrow> (if idle_reset s1 (deviceid priv) then
                  (let s' = s1\<lparr>idle_reset := (idle_reset s1)(deviceid priv := False)\<rparr> in
                   if idle \<noteq> 0 then IdleTimeCheckBrackets e x 0 s' else Some s')
                else Some s1);
         IdleTimeCheckBrackets e x idle s2
       }
     }"

definition init_system_idle_counter :: "sync_env \<Rightarrow> xid \<Rightarrow> string \<Rightarrow> int \<Rightarrow> sync_state \<Rightarrow> sync_state option" where
  "init_system_idle_counter e x name dev s0 =
     (case IdleTimeQueryValue e XIAllDevices s0 of (idle, s) \<Rightarrow>
        if \<not> sync_calloc e then None
        else map_option (upd_obj x (\<lambda>ob. case so_body ob of
                 CounterBody v (Some psci) \<Rightarrow>
                   ob\<lparr>so_body := CounterBody v (Some (psci\<lparr>sc_private := Some \<lparr>value_less = False, value_greater = False, deviceid = dev\<rparr>\<rparr>))\<rparr>
               | _ \<Rightarrow> ob))
             (SyncCreateSystemCounter e x name idle 4 XSyncCounterUnrestricted IdleTime s))"

end
