(* ===== verification/SyncAlarms.thy ===== *)
theory SyncAlarms
  imports SyncRequests
begin

text \<open>
  The arithmetic of the SYNC extension and its alarms: the checked 64-bit operations are exact, the loop that advances an
  alarm ends and computes the first multiple of the delta past the counter's value, and an alarm that fires tells its
  clients the old test value and its new state. A change of an alarm that is refused half-way can leave an alarm
  whose loop never ends.
\<close>

subsection \<open>Checked arithmetic\<close>


lemma sint64_bounds: "- 9223372036854775808 \<le> sint (a :: int64)" "sint (a :: int64) < 9223372036854775808"
  using sint_ge [of a] sint_lt [of a] by simp_all

definition wrap64 :: "int \<Rightarrow> int" where
  "wrap64 i = (if i < - 9223372036854775808 then i + 18446744073709551616
               else if 9223372036854775808 \<le> i then i - 18446744073709551616 else i)"

lemma mod_shift:
  fixes i m :: int
  assumes "0 \<le> i + k * m" "i + k * m < m"
  shows "i mod m = i + k * m"
proof -
  have "i mod m = (i + k * m) mod m" by simp
  also have "\<dots> = i + k * m" using assms by (rule mod_pos_pos_trivial)
  finally show ?thesis .
qed

lemma signed_take_bit_wrap64:
  assumes "- 18446744073709551616 \<le> i" "i < 18446744073709551616"
  shows "signed_take_bit 63 i = wrap64 i"
  using assms mod_shift [of "i + 9223372036854775808" 0 18446744073709551616]
    mod_shift [of "i + 9223372036854775808" 1 18446744073709551616]
    mod_shift [of "i + 9223372036854775808" "-1" 18446744073709551616]
  by (simp add: signed_take_bit_eq_take_bit_shift take_bit_eq_mod wrap64_def)

lemma sint_add64: "sint (a + b :: int64) = wrap64 (sint a + sint b)"
  using sint64_bounds [of a] sint64_bounds [of b] by (simp add: sint_word_ariths signed_take_bit_wrap64)

lemma sint_sub64: "sint (a - b :: int64) = wrap64 (sint a - sint b)"
  using sint64_bounds [of a] sint64_bounds [of b] by (simp add: sint_word_ariths signed_take_bit_wrap64)

definition in_int64 :: "int \<Rightarrow> bool" where
  "in_int64 i \<longleftrightarrow> - (2 ^ 63) \<le> i \<and> i < 2 ^ 63"

lemma in_int64_num: "in_int64 i \<longleftrightarrow> - 9223372036854775808 \<le> i \<and> i < 9223372036854775808"
  by (simp add: in_int64_def)

lemma checked_add_snd [simp]: "snd (checked_int64_add a b) = a + b"
  by (simp add: checked_int64_add_def Let_def)

lemma checked_sub_snd [simp]: "snd (checked_int64_subtract a b) = a - b"
  by (simp add: checked_int64_subtract_def Let_def)

lemma checked_add_overflow: "fst (checked_int64_add a b) \<longleftrightarrow> \<not> in_int64 (sint a + sint b)"
  using sint64_bounds [of a] sint64_bounds [of b]
  by (cases "sint a < 0"; cases "sint b < 0")
    (auto simp: checked_int64_add_def word_sless_alt sint_add64 wrap64_def in_int64_num)

lemma checked_sub_overflow: "fst (checked_int64_subtract a b) \<longleftrightarrow> \<not> in_int64 (sint a - sint b)"
  using sint64_bounds [of a] sint64_bounds [of b]
  by (cases "sint a < 0"; cases "sint b < 0")
    (auto simp: checked_int64_subtract_def word_sless_alt sint_sub64 wrap64_def in_int64_num)

lemma checked_add_exact: "sint (snd (checked_int64_add a b)) = sint a + sint b \<longleftrightarrow> \<not> fst (checked_int64_add a b)"
  unfolding checked_add_overflow by (auto simp: sint_add64 wrap64_def in_int64_num)

lemma checked_sub_exact: "sint (snd (checked_int64_subtract a b)) = sint a - sint b \<longleftrightarrow> \<not> fst (checked_int64_subtract a b)"
  unfolding checked_sub_overflow by (auto simp: sint_sub64 wrap64_def in_int64_num)

subsection \<open>The loop that advances an alarm\<close>

lemma sint_add_in: "in_int64 (sint t + sint d) \<Longrightarrow> sint (t + d) = sint t + sint d" for t d :: int64
  by (simp add: sint_add64 wrap64_def in_int64_num)

lemma advance_overflow: "\<not> in_int64 (sint t + sint d) \<Longrightarrow> alarm_advance chk d t = Some (True, t + d)"
  by (subst alarm_advance.simps) (simp add: checked_add_overflow)

lemma advance_step:
  "in_int64 (sint t + sint d) \<Longrightarrow> alarm_advance chk d t =
     Option.bind (chk (t + d)) (\<lambda>b. if b then alarm_advance chk d (t + d) else Some (False, t + d))"
  by (subst alarm_advance.simps) (simp only: checked_add_overflow checked_add_snd not_True_eq_False if_False)

text \<open>The number of additions that fit bounds the loop.\<close>

definition room :: "int64 \<Rightarrow> int64 \<Rightarrow> nat" where
  "room d t = nat (if 0 < sint d then 2 ^ 63 - sint t else sint t + 2 ^ 63)"

lemma sint64_eq_0: "sint (d :: int64) = 0 \<longleftrightarrow> d = 0"
  by (metis signed_word_eqI sint_0)

lemma room_decreases: "d \<noteq> 0 \<Longrightarrow> in_int64 (sint t + sint d) \<Longrightarrow> room d (t + d) < room d t"
  using sint64_eq_0 [of d] sint64_bounds [of t] by (auto simp: room_def in_int64_num sint_add_in)

lemma advance_returns:
  assumes "d \<noteq> 0" "\<And>t. chk t \<noteq> None"
  shows "\<exists>r. alarm_advance chk d t = Some r"
proof (induction "room d t" arbitrary: t rule: less_induct)
  case less
  show ?case
  proof (cases "in_int64 (sint t + sint d)")
    case True
    obtain b where "chk (t + d) = Some b" using assms(2) [of "t + d"] by auto
    then show ?thesis using less [OF room_decreases [OF assms(1) True]] True by (auto simp: advance_step)
  qed (use advance_overflow in blast)
qed

text \<open>With no delta and a trigger that holds the loop never ends.\<close>

lemma advance_zero_result:
  assumes "alarm_advance chk d t = Some r"
  shows "chk t = Some True \<longrightarrow> d \<noteq> 0"
proof -
  have "(\<lambda>chk d t r. chk t = Some True \<longrightarrow> d \<noteq> 0) chk d t r"
    using assms
    by (rule alarm_advance.raw_induct [rotated])
      (auto simp: checked_int64_add_def Let_def split: bind_splits if_splits)
  then show ?thesis .
qed

lemma advance_hangs:
  assumes "chk t = Some True"
  shows "alarm_advance chk 0 t = None"
  using assms advance_zero_result [of chk 0 t] by (cases "alarm_advance chk 0 t") auto


text \<open>The reference: the first multiple of the delta past the counter's value.\<close>

definition next_test :: "int \<Rightarrow> int \<Rightarrow> int \<Rightarrow> int" where
  "next_test d t v = t + d * ((v - t) div d + 1)"

definition holds_towards :: "int \<Rightarrow> int \<Rightarrow> int \<Rightarrow> bool" where
  "holds_towards d i v \<longleftrightarrow> (if 0 < d then i \<le> v else v \<le> i)"

lemma next_test_step: "d \<noteq> 0 \<Longrightarrow> next_test d (t + d) v = next_test d t v"
proof -
  assume "d \<noteq> 0"
  then have "(v - t) div d = (v - (t + d)) div d + 1" using div_add_self2 [of d "v - (t + d)"] by (simp add: algebra_simps)
  then show ?thesis by (simp add: next_test_def algebra_simps)
qed

lemma next_test_last:
  assumes "d \<noteq> 0" "holds_towards d t v" "\<not> holds_towards d (t + d) v"
  shows "next_test d t v = t + d"
proof -
  have "(v - t) div d = 0"
  proof (cases "0 < d")
    case True
    then show ?thesis using assms by (simp add: holds_towards_def div_pos_pos_trivial)
  next
    case False
    then show ?thesis using assms by (simp add: holds_towards_def div_neg_neg_trivial)
  qed
  then show ?thesis by (simp add: next_test_def)
qed

lemma out_not_towards: "\<not> in_int64 (sint t + sint d) \<Longrightarrow> \<not> holds_towards (sint d) (sint t + sint d) (sint v)" for t d v :: int64
  using sint64_bounds [of t] sint64_bounds [of d] sint64_bounds [of v] by (auto simp: holds_towards_def in_int64_num)

lemma advance_closed_form:
  fixes v :: int64
  assumes "d \<noteq> 0" and chk: "\<And>t. chk t = Some (holds_towards (sint d) (sint t) (sint v))"
    and "holds_towards (sint d) (sint t) (sint v)"
  shows "\<exists>r. alarm_advance chk d t = Some (\<not> in_int64 (next_test (sint d) (sint t) (sint v)), r)
    \<and> (in_int64 (next_test (sint d) (sint t) (sint v)) \<longrightarrow> sint r = next_test (sint d) (sint t) (sint v))"
  using assms(3)
proof (induction "room d t" arbitrary: t rule: less_induct)
  case less
  have d: "sint d \<noteq> 0" using assms(1) by (simp add: sint64_eq_0)
  show ?case
  proof (cases "in_int64 (sint t + sint d)")
    case False
    then show ?thesis
      using next_test_last [OF d less.prems out_not_towards [OF False]] by (simp add: advance_overflow)
  next
    case True
    then have t': "sint (t + d) = sint t + sint d" by (rule sint_add_in)
    show ?thesis
    proof (cases "holds_towards (sint d) (sint (t + d)) (sint v)")
      case holds: True
      then show ?thesis
        using less.hyps [OF room_decreases [OF assms(1) True] holds] True
        by (simp add: advance_step chk t' next_test_step d)
    next
      case False
      then have "next_test (sint d) (sint t) (sint v) = sint (t + d)"
        using next_test_last [OF d less.prems] t' by simp
      then show ?thesis using False True t' by (simp add: advance_step chk)
    qed
  qed
qed

text \<open>What the reference promises: it is past the value, by no more than the delta, and a multiple of the delta away.\<close>

lemma next_test_past: "d \<noteq> 0 \<Longrightarrow> \<not> holds_towards d (next_test d t v) v"
proof -
  assume "d \<noteq> 0"
  have "v - t = d * ((v - t) div d) + (v - t) mod d" by simp
  then have "next_test d t v - v = d - (v - t) mod d" by (simp add: next_test_def algebra_simps)
  then show ?thesis
    using \<open>d \<noteq> 0\<close> pos_mod_bound [of d "v - t"] neg_mod_bound [of d "v - t"]
    by (auto simp: holds_towards_def not_less less_le)
qed


lemma next_test_near: "d \<noteq> 0 \<Longrightarrow> holds_towards d (next_test d t v - d) v"
proof -
  assume "d \<noteq> 0"
  have "v - t = d * ((v - t) div d) + (v - t) mod d" by simp
  then have "v - (next_test d t v - d) = (v - t) mod d" by (simp add: next_test_def algebra_simps)
  then have eq: "next_test d t v - d = v - (v - t) mod d" by simp
  show ?thesis
  proof (cases "0 < d")
    case True
    then show ?thesis using pos_mod_sign [OF True, of "v - t"] by (simp add: holds_towards_def eq)
  next
    case False
    then have "d < 0" using \<open>d \<noteq> 0\<close> by simp
    then show ?thesis using neg_mod_sign [of d "v - t"] by (simp add: holds_towards_def eq)
  qed
qed

subsection \<open>Alarms that fire\<close>

definition recipients :: "SyncAlarm \<Rightarrow> nat list" where
  "recipients al = (if al_events al then [al_client al] else []) @ map fst (pEventClients al)"

definition alarm_event :: "sync_env \<Rightarrow> sync_state \<Rightarrow> xid \<Rightarrow> int64 \<Rightarrow> SyncAlarm \<Rightarrow> xSyncAlarmNotifyEvent" where
  "alarm_event e s a v al =
     \<lparr>ane_alarm = a, ane_counter_value = v, ane_alarm_value = test_value (al_trigger al),
      ane_time = milliseconds (sync_tick e (sync_time s)), ane_state = al_state al\<rparr>"

lemma fold_alarm_log:
  "fold (\<lambda>(c, _). sync_log (AlarmNotify c ane)) cs s = s\<lparr>sync_out := sync_out s @ map (\<lambda>c. AlarmNotify (fst c) ane) cs\<rparr>"
  by (induction cs arbitrary: s) (auto simp: sync_log_def)

lemma send_alarm_events:
  assumes "alarms s a = Some al" "tr_pSync (al_trigger al) = Some x" "objects s x = Some ob" "is_counter ob"
  shows "SyncSendAlarmNotifyEvents e a s =
    Some (s\<lparr>sync_time := sync_tick e (sync_time s),
            sync_out := sync_out s @ map (\<lambda>c. AlarmNotify c (alarm_event e s a (counter_value ob) al)) (recipients al)\<rparr>)"
  using assms
  by (simp add: SyncSendAlarmNotifyEvents_def fold_alarm_log sync_update_time_def sync_log_def recipients_def alarm_event_def
      Let_def comp_def)

lemma send_alarm_events_none:
  assumes "alarms s a = Some al" "tr_pSync (al_trigger al) = None"
  shows "SyncSendAlarmNotifyEvents e a s =
    Some (s\<lparr>sync_time := sync_tick e (sync_time s),
            sync_out := sync_out s @ map (\<lambda>c. AlarmNotify c (alarm_event e s a 0 al)) (recipients al)\<rparr>)"
  using assms
  by (simp add: SyncSendAlarmNotifyEvents_def fold_alarm_log sync_update_time_def sync_log_def recipients_def alarm_event_def
      Let_def comp_def)

text \<open>What firing does, given the new state and test value.\<close>

definition fired :: "sync_env \<Rightarrow> xid \<Rightarrow> int64 \<Rightarrow> alarm_state \<Rightarrow> int64 \<Rightarrow> SyncAlarm \<Rightarrow> sync_state \<Rightarrow> sync_state" where
  "fired e a v st t' al s =
     s\<lparr>alarms := (alarms s)(a \<mapsto> al\<lparr>al_state := st, al_trigger := (al_trigger al)\<lparr>test_value := t'\<rparr>\<rparr>),
       sync_time := sync_tick e (sync_time s),
       sync_out := sync_out s @ map (\<lambda>c. AlarmNotify c (alarm_event e s a v (al\<lparr>al_state := st\<rparr>))) (recipients al)\<rparr>"

lemma recipients_state [simp]: "recipients (al\<lparr>al_state := st\<rparr>) = recipients al"
  by (simp add: recipients_def)

lemma alarm_fired_comparison:
  fixes d v t :: int64
  assumes al: "alarms s a = Some al" "al_state al = XSyncAlarmActive"
    and tr: "tr_pSync (al_trigger al) = Some x" "objects s x = Some ob" "so_body ob = CounterBody v sys"
    and dir: "test_type (al_trigger al) = XSyncPositiveComparison \<and> CheckTrigger (al_trigger al) = CheckPositiveComparison \<and> 0 <s al_delta al
      \<or> test_type (al_trigger al) = XSyncNegativeComparison \<and> CheckTrigger (al_trigger al) = CheckNegativeComparison \<and> al_delta al <s 0"
    and holds: "SyncCheckTrigger s (al_trigger al) oldval = Some True"
    and n: "n = next_test (sint (al_delta al)) (sint (test_value (al_trigger al))) (sint v)"
  shows "SyncAlarmTriggerFired e a s = Some
    (if in_int64 n then fired e a v XSyncAlarmActive (word_of_int n) al s
     else fired e a v XSyncAlarmInactive (test_value (al_trigger al)) al s)"
proof -
  let ?tr = "al_trigger al" and ?d = "al_delta al"
  have d: "?d \<noteq> 0" using dir by (auto simp: word_sless_alt)
  have chk: "SyncCheckTrigger s (?tr\<lparr>test_value := t'\<rparr>) w = Some (holds_towards (sint ?d) (sint t') (sint v))" for t' w
    using dir tr by (auto simp: SyncCheckTrigger_def counter_test_def holds_towards_def word_sless_alt word_sle_eq)
  have "holds_towards (sint ?d) (sint (test_value ?tr)) (sint v)"
    using chk [of "test_value ?tr" oldval] holds by simp
  from advance_closed_form [where chk = "\<lambda>t. SyncCheckTrigger s (?tr\<lparr>test_value := t\<rparr>) (counter_value ob)", OF d chk this]
  obtain r where r: "alarm_advance (\<lambda>t. SyncCheckTrigger s (?tr\<lparr>test_value := t\<rparr>) (counter_value ob)) ?d (test_value ?tr)
      = Some (\<not> in_int64 n, r)" "in_int64 n \<Longrightarrow> sint r = n" unfolding n by blast
  have "in_int64 n \<Longrightarrow> r = word_of_int n" using r(2) [symmetric] by simp
  moreover have "is_counter ob" "counter_value ob = v" using tr by (simp_all add: is_counter_def counter_value_def)
  ultimately show ?thesis
    using al tr r(1) d
    by (auto simp: SyncAlarmTriggerFired_def fired_def upd_alarm_def send_alarm_events Let_def alarm_event_def)
qed


subsection \<open>A refused change\<close>

text \<open>An alarm without delta whose test is a transition by its type, but a comparison by its function, never stops.\<close>

lemma mismatched_alarm_hangs:
  assumes "alarms s a = Some al" "al_state al = XSyncAlarmActive" "al_delta al = 0"
    and "tr_pSync (al_trigger al) = Some x" "objects s x = Some ob" "so_body ob = CounterBody v sys"
    and "test_type (al_trigger al) = XSyncPositiveTransition" "CheckTrigger (al_trigger al) = CheckPositiveComparison"
    and "test_value (al_trigger al) \<le>s v"
  shows "SyncAlarmTriggerFired e a s = None"
proof -
  have "alarm_advance (\<lambda>t. SyncCheckTrigger s (al_trigger al\<lparr>test_value := t\<rparr>) (counter_value ob)) 0 (test_value (al_trigger al)) = None"
    using assms by (intro advance_hangs) (simp add: SyncCheckTrigger_def counter_test_def)
  then show ?thesis using assms by (simp add: SyncAlarmTriggerFired_def is_counter_def sync_types Let_def)
qed

definition sync_env0 :: sync_env where
  "sync_env0 = \<lparr>sync_access = (\<lambda>_ _ _. Success), legal_id = (\<lambda>_ _. True), fake_id = (\<lambda>_ _. 0x40000001),
     sync_gone = (\<lambda>_. False), sync_calloc = True, sync_addres = True, sync_tick = (\<lambda>t. t),
     sync_clock = of_nat, last_event = (\<lambda>_ _. 0), present_call = (\<lambda>_. Some)\<rparr>"

definition sync_empty :: sync_state where
  "sync_empty = \<lparr>objects = Map.empty, alarms = Map.empty, awaits = Map.empty, presents = Map.empty, sync_out = [],
     sync_time = \<lparr>months = 0, milliseconds = 5\<rparr>, sync_reads = 0, sync_handlers = [], SysCounterList = [],
     Now = 0, pnext_time = False, idle_reset = (\<lambda>_. False)\<rparr>"

lemma sync_empty_presents [simp]: "presents sync_empty p = None"
  by (simp add: sync_empty_def)

definition counter7 :: "int64 \<Rightarrow> SyncObject" where
  "counter7 v = \<lparr>so_client = Some 1, pTriglist = [Some (AlarmTrigger 8)], initialized = True, beingDestroyed = False,
     so_body = CounterBody v None\<rparr>"

definition alarm8 :: "int64 \<Rightarrow> SyncAlarm" where
  "alarm8 d = \<lparr>al_trigger = \<lparr>tr_pSync = Some 7, wait_value = 20, value_type = 0, test_type = 2, test_value = 20,
       CheckTrigger = CheckPositiveComparison\<rparr>,
     al_client = 1, al_delta = d, al_events = True, al_state = XSyncAlarmActive, pEventClients = []\<rparr>"

definition alarm_state8 :: "int64 \<Rightarrow> int64 \<Rightarrow> sync_state" where
  "alarm_state8 v d = sync_empty\<lparr>objects := [7 \<mapsto> counter7 v], alarms := [8 \<mapsto> alarm8 d]\<rparr>"

text \<open>A client asks to make an alarm a transition without delta, with an invalid value type: the request gives
  \<open>BadValue\<close>, but type and delta are already stored, and the next change of the counter does not return.\<close>

lemma refused_change_state:
  "ProcSyncChangeAlarm sync_env0 1 8 (XSyncCAValueType OR XSyncCATestType OR XSyncCADelta) [7, 0, 0, 0] (alarm_state8 10 1) =
   Some ((BadValue, Some 7), (alarm_state8 10 1)\<lparr>alarms := [8 \<mapsto> (alarm8 0)\<lparr>al_trigger := (al_trigger (alarm8 0))\<lparr>value_type := 7, test_type := 0\<rparr>\<rparr>]\<rparr>)"
  by (simp add: ProcSyncChangeAlarm_def lookup_alarm_def alarm_state8_def sync_empty_def sync_env0_def attrs_length_def Ones_def
    upt_rec sync_masks SyncChangeAlarmAttributes_def alarm8_def read_attrs.simps lowbit_def make_int64_def sync_types
    delta_mismatch_def XSyncPositiveTest_def XSyncNegativeTest_def upd_alarm_def SyncInitTrigger_def init_target_def
    counter7_def refresh_counter_def IsSystemCounter_def is_counter_def counter_value_def init_fields_def init_value_def Let_def)

lemma refused_change_hangs:
  "\<exists>s'. ProcSyncChangeAlarm sync_env0 1 8 (XSyncCAValueType OR XSyncCATestType OR XSyncCADelta) [7, 0, 0, 0] (alarm_state8 10 1)
       = Some ((BadValue, Some 7), s')
     \<and> ProcSyncSetCounter sync_env0 1 7 0 25 s' = None"
proof -
  let ?al = "(alarm8 0)\<lparr>al_trigger := (al_trigger (alarm8 0))\<lparr>value_type := 7, test_type := 0\<rparr>\<rparr>"
  let ?s = "(alarm_state8 10 1)\<lparr>alarms := [8 \<mapsto> ?al]\<rparr>"
  let ?s1 = "upd_obj 7 (set_counter_value 25) ?s"
  have "SyncAlarmTriggerFired sync_env0 8 ?s1 = None"
    by (rule mismatched_alarm_hangs [of ?s1 8 ?al 7 "counter7 25" 25 None])
      (simp_all add: upd_obj_def alarm_state8_def alarm8_def counter7_def sync_types)
  moreover have "SyncCheckTrigger ?s1 (al_trigger ?al) 10 = Some True"
    by (simp add: SyncCheckTrigger_def upd_obj_def alarm_state8_def alarm8_def counter7_def counter_test_def)
  moreover have "obj_nodes 7 ?s1 = Some [Some (AlarmTrigger 8)]"
    by (simp add: obj_nodes_def upd_obj_def alarm_state8_def counter7_def)
  moreover have "alarms ?s1 8 = Some ?al" by (simp add: upd_obj_def)
  ultimately have "change_loop sync_env0 7 10 (Some (Some (AlarmTrigger 8))) ?s1 = None"
    by (subst change_loop.simps) simp
  moreover have "SyncUpdateCounter 7 25 ?s = Some (10, ?s1)"
    by (simp add: SyncUpdateCounter_def alarm_state8_def counter7_def counter_value_def)
  ultimately have "SyncChangeCounter sync_env0 7 25 ?s = None"
    using \<open>obj_nodes 7 ?s1 = _\<close> by (simp add: SyncChangeCounter_def first_node_def)
  moreover have "lookup_object sync_env0 1 7 RTCounter DixWriteAccess ?s = Inr (counter7 10)" "\<not> IsSystemCounter (counter7 10)"
    by (simp_all add: lookup_object_def alarm_state8_def sync_env0_def counter7_def is_counter_def IsSystemCounter_def)
  ultimately have "ProcSyncSetCounter sync_env0 1 7 0 25 ?s = None"
    by (simp add: ProcSyncSetCounter_def make_int64_def)
  then show ?thesis using refused_change_state by blast
qed

subsection \<open>Properties\<close>

text \<open>C39. The checked operations report an overflow exactly when the signed result does not fit into 64 bits, and their result is the
  mathematical sum or difference exactly when they report none.\<close>

theorem checked_int64_exact:
  "(fst (checked_int64_add a b) \<longleftrightarrow> \<not> in_int64 (sint a + sint b))
   \<and> (sint (snd (checked_int64_add a b)) = sint a + sint b \<longleftrightarrow> \<not> fst (checked_int64_add a b))
   \<and> (fst (checked_int64_subtract a b) \<longleftrightarrow> \<not> in_int64 (sint a - sint b))
   \<and> (sint (snd (checked_int64_subtract a b)) = sint a - sint b \<longleftrightarrow> \<not> fst (checked_int64_subtract a b))"
  by (intro conjI checked_add_overflow checked_add_exact checked_sub_overflow checked_sub_exact)

text \<open>C30. An active alarm that tests by comparison, with a delta in the direction of its test, and whose trigger holds: firing
  returns, and the loop of repeated additions gives the closed form of the reference, the first test value past the counter's
  value that is a multiple of the delta away. If that value does not fit into 64 bits the alarm becomes inactive with its old test value.
  The owner, if it selected events, and every interested client get one event each, with the old test value and the new
  state; nothing else changes.\<close>

theorem alarm_next_value:
  fixes v :: int64
  assumes "alarms s a = Some al" "al_state al = XSyncAlarmActive"
    and "tr_pSync (al_trigger al) = Some x" "objects s x = Some ob" "so_body ob = CounterBody v sys"
    and "test_type (al_trigger al) = XSyncPositiveComparison \<and> CheckTrigger (al_trigger al) = CheckPositiveComparison \<and> 0 <s al_delta al
      \<or> test_type (al_trigger al) = XSyncNegativeComparison \<and> CheckTrigger (al_trigger al) = CheckNegativeComparison \<and> al_delta al <s 0"
    and "SyncCheckTrigger s (al_trigger al) oldval = Some True"
    and "n = next_test (sint (al_delta al)) (sint (test_value (al_trigger al))) (sint v)"
  shows "SyncAlarmTriggerFired e a s = Some
      (if in_int64 n then fired e a v XSyncAlarmActive (word_of_int n) al s
       else fired e a v XSyncAlarmInactive (test_value (al_trigger al)) al s)
    \<and> \<not> holds_towards (sint (al_delta al)) n (sint v)
    \<and> holds_towards (sint (al_delta al)) (n - sint (al_delta al)) (sint v)"
proof -
  have d: "sint (al_delta al) \<noteq> 0" using assms(6) by (auto simp: word_sless_alt)
  show ?thesis
    using alarm_fired_comparison [OF assms] next_test_past [OF d] next_test_near [OF d] assms(8) by simp
qed

theorem alarm_next_value_witness:
  "SyncAlarmTriggerFired sync_env0 8 (alarm_state8 25 3) =
     Some (fired sync_env0 8 25 XSyncAlarmActive 26 (alarm8 3) (alarm_state8 25 3))"
proof -
  have "SyncAlarmTriggerFired sync_env0 8 (alarm_state8 25 3) =
     Some (if in_int64 26 then fired sync_env0 8 25 XSyncAlarmActive (word_of_int 26) (alarm8 3) (alarm_state8 25 3)
           else fired sync_env0 8 25 XSyncAlarmInactive (test_value (al_trigger (alarm8 3))) (alarm8 3) (alarm_state8 25 3))"
    by (rule alarm_next_value [of "alarm_state8 25 3" 8 "alarm8 3" 7 "counter7 25" 25 None 0, THEN conjunct1])
      (simp_all add: alarm_state8_def alarm8_def counter7_def SyncCheckTrigger_def counter_test_def sync_types next_test_def word_sless_alt)
  then show ?thesis by (simp add: in_int64_num)
qed

end
