(* ===== verification/SyncBrackets.thy ===== *)
theory SyncBrackets
  imports SyncAlarms
begin

text \<open>
  The bracket values of system counters: the server wakes up for a system counter only when its value leaves the
  interval between the brackets, so no trigger may become true inside of it. That holds for the idle time counters. For
  the counter of the server's time, transitions in the direction of time are left out of the brackets.
\<close>

subsection \<open>The fold over the triggers\<close>

lemma bracket_step_mono:
  "sint (fst b) \<le> sint (fst (bracket_step ct v tr b))"
  "sint (fst (snd (bracket_step ct v tr b))) \<le> sint (fst (snd b))"
  by (auto simp: bracket_step_def Let_def lower_bracket_def raise_bracket_def word_sless_alt split: prod.splits)

lemma bracket_fold_mono:
  "sint (fst b) \<le> sint (fst (fold (bracket_step ct v) trs b))"
  "sint (fst (snd (fold (bracket_step ct v) trs b))) \<le> sint (fst (snd b))"
proof (induction trs arbitrary: b)
  case (Cons tr trs)
  { case 1 show ?case using Cons(1) [of "bracket_step ct v tr b"] bracket_step_mono(1) [of b ct v tr] by simp }
  { case 2 show ?case using Cons(2) [of "bracket_step ct v tr b"] bracket_step_mono(2) [where b = b and ct = ct and v = v and tr = tr] by simp }
qed simp_all

text \<open>The test function that goes with a test type.\<close>

definition check_matches :: "SyncTrigger \<Rightarrow> bool" where
  "check_matches tr \<longleftrightarrow>
     test_type tr = XSyncPositiveTransition \<and> CheckTrigger tr = CheckPositiveTransition
     \<or> test_type tr = XSyncNegativeTransition \<and> CheckTrigger tr = CheckNegativeTransition
     \<or> test_type tr = XSyncPositiveComparison \<and> CheckTrigger tr = CheckPositiveComparison
     \<or> test_type tr = XSyncNegativeComparison \<and> CheckTrigger tr = CheckNegativeComparison"

text \<open>A step of a counter that changes both ways leaves brackets between which the trigger cannot become true.\<close>

definition covers :: "int64 \<Rightarrow> SyncTrigger \<Rightarrow> brackets \<Rightarrow> bool" where
  "covers v tr b \<longleftrightarrow>
     (sint v < sint (test_value tr) \<longrightarrow> sint (fst (snd b)) \<le> sint (test_value tr))
     \<and> (sint (test_value tr) < sint v \<longrightarrow> sint (test_value tr) \<le> sint (fst b))"

lemma bracket_step_covers:
  "check_matches tr \<Longrightarrow> covers v tr (bracket_step XSyncCounterUnrestricted v tr b)"
  by (auto simp: check_matches_def covers_def bracket_step_def Let_def lower_bracket_def raise_bracket_def
      word_sless_alt word_sle_eq sync_types split: prod.splits)

lemma bracket_fold_covers:
  assumes "tr \<in> set trs" "check_matches tr"
  shows "covers v tr (fold (bracket_step XSyncCounterUnrestricted v) trs b)"
  using assms(1)
proof (induction trs arbitrary: b)
  case (Cons tr' trs)
  show ?case
  proof (cases "tr' = tr")
    case True
    then show ?thesis
      using bracket_step_covers [OF assms(2), of v b]
        bracket_fold_mono [where b = "bracket_step XSyncCounterUnrestricted v tr b" and trs = trs and ct = XSyncCounterUnrestricted and v = v]
      by (auto simp: covers_def)
  next
    case False
    then show ?thesis using Cons by simp
  qed
qed simp

text \<open>Without a bracket of one side the bound is the end of the range.\<close>

definition unset_ends :: "brackets \<Rightarrow> bool" where
  "unset_ends b = (case b of (lo, hi, nl, ng) \<Rightarrow> (\<not> nl \<longrightarrow> lo = LLONG_MIN) \<and> (\<not> ng \<longrightarrow> hi = LLONG_MAX))"

lemma bracket_fold_ends: "unset_ends b \<Longrightarrow> unset_ends (fold (bracket_step ct v) trs b)"
proof (induction trs arbitrary: b)
  case (Cons tr trs)
  have "unset_ends (bracket_step ct v tr b)"
    using Cons.prems by (auto simp: unset_ends_def bracket_step_def Let_def lower_bracket_def raise_bracket_def split: prod.splits)
  then show ?case using Cons.IH by simp
qed simp

lemma those_map_mem:
  assumes "those (map f ns) = Some ys" "n \<in> set ns"
  shows "\<exists>y \<in> set ys. f n = Some y"
  using assms by (induction ns arbitrary: ys) (auto split: option.splits)

lemma list_triggers_mem:
  "list_triggers s ns = Some trs \<Longrightarrow> Some t \<in> set ns \<Longrightarrow> trig_of s t = Some tr \<Longrightarrow> tr \<in> set trs"
  unfolding list_triggers_def by (drule (1) those_map_mem) auto

subsection \<open>Idle time counters\<close>

lemma idle_brackets_after:
  assumes "objects s x = Some ob" "so_body ob = CounterBody v (Some psci)" "counterType psci \<noteq> XSyncCounterNeverChanges"
    and "sc_kind psci = IdleTime" "sc_private psci = Some priv" "SyncComputeBracketValues x s = Some s'"
  shows "\<exists>trs lo hi nl ng. list_triggers s (pTriglist ob) = Some trs
    \<and> fold (bracket_step (counterType psci) v) trs (LLONG_MIN, LLONG_MAX, False, False) = (lo, hi, nl, ng)
    \<and> (\<exists>ob' psci'. idle_sysinfo x s' = Some (ob', psci', priv\<lparr>value_less := nl, value_greater := ng\<rparr>)
         \<and> bracket_less psci' = lo \<and> bracket_greater psci' = hi)"
proof -
  from assms obtain trs where trs: "list_triggers s (pTriglist ob) = Some trs"
    by (auto simp: SyncComputeBracketValues_def split: option.splits)
  obtain lo hi nl ng where f: "fold (bracket_step (counterType psci) v) trs (LLONG_MIN, LLONG_MAX, False, False) = (lo, hi, nl, ng)"
    by (rule prod_cases4)
  show ?thesis
    using assms trs f
    by (auto simp: SyncComputeBracketValues_def BracketValues_def IdleTimeBracketValues_def idle_sysinfo_def upd_obj_def Let_def)
qed

lemma LLONG_ends: "sint LLONG_MIN = - 9223372036854775808" "sint LLONG_MAX = 9223372036854775807"
  by (simp_all add: LLONG_MIN_def LLONG_MAX_def)

lemma sint_idle: "0 \<le> sint (ucast (i :: card32) :: int64)" "sint (ucast i :: int64) < 4294967296"
proof -
  have "signed_take_bit 63 (uint i) = wrap64 (uint i)"
    by (rule signed_take_bit_wrap64) (use uint_ms_bounds [of i] in linarith)+
  moreover have "\<not> uint i < - 9223372036854775808" "\<not> 9223372036854775808 \<le> uint i"
    using uint_ms_bounds [of i] by linarith+
  then have "wrap64 (uint i) = uint i" unfolding wrap64_def by (simp only: if_False)
  ultimately have "sint (ucast i :: int64) = uint i" by (simp add: signed_ucast_eq)
  then show "0 \<le> sint (ucast i :: int64)" "sint (ucast i :: int64) < 4294967296" using uint_ms_bounds [of i] by simp_all
qed

lemma inside_no_new_truth:
  assumes "covers v tr (lo, hi, nl, ng)" "check_matches tr" "sint lo < sint w" "sint w < sint hi"
    and "counter_test (CheckTrigger tr) (test_value tr) v w"
  shows "counter_test (CheckTrigger tr) (test_value tr) v v"
  using assms by (auto simp: covers_def check_matches_def counter_test_def word_sless_alt word_sle_eq)

lemma idle_check_cases:
  assumes "idle_sysinfo x s = Some (ob, psci, priv)"
  shows "IdleTimeCheckBrackets e x w s =
    (if value_greater priv \<and> bracket_greater psci \<le>s w \<or> value_less priv \<and> w \<le>s bracket_less psci
     then SyncChangeCounter e x w s else map_option snd (SyncUpdateCounter x w s))"
  using assms by (simp add: IdleTimeCheckBrackets_def)

text \<open>C31. No trigger of an idle time counter is missed: after the brackets have been computed for the counter's value, a wakeup with
  any idle time either runs the counter's triggers, or it only stores the new value, and then every trigger of the counter that
  holds for the new value, coming from the old one, held for the old value already.\<close>

theorem idle_no_missed_trigger:
  fixes i :: card32
  assumes "objects s x = Some ob" "so_body ob = CounterBody v (Some psci)" "counterType psci = XSyncCounterUnrestricted"
    and "sc_kind psci = IdleTime" "sc_private psci = Some priv"
    and "SyncComputeBracketValues x s = Some s'"
    and "Some t \<in> set (pTriglist ob)" "trig_of s t = Some tr" "check_matches tr"
  shows "IdleTimeCheckBrackets e x (ucast i) s' = SyncChangeCounter e x (ucast i) s'
    \<or> IdleTimeCheckBrackets e x (ucast i) s' = map_option snd (SyncUpdateCounter x (ucast i) s')
       \<and> (counter_test (CheckTrigger tr) (test_value tr) v (ucast i) \<longrightarrow> counter_test (CheckTrigger tr) (test_value tr) v v)"
proof -
  have nc: "counterType psci \<noteq> XSyncCounterNeverChanges" using assms(3) by simp
  obtain trs lo hi nl ng ob' psci' where trs: "list_triggers s (pTriglist ob) = Some trs"
    and f: "fold (bracket_step XSyncCounterUnrestricted v) trs (LLONG_MIN, LLONG_MAX, False, False) = (lo, hi, nl, ng)"
    and after: "idle_sysinfo x s' = Some (ob', psci', priv\<lparr>value_less := nl, value_greater := ng\<rparr>)"
      "bracket_less psci' = lo" "bracket_greater psci' = hi"
    using idle_brackets_after [OF assms(1,2) nc assms(4,5,6)] unfolding assms(3) by blast
  have cov: "covers v tr (lo, hi, nl, ng)"
    using bracket_fold_covers [OF list_triggers_mem [OF trs assms(7,8)] assms(9), of v "(LLONG_MIN, LLONG_MAX, False, False)"]
    unfolding f .
  have ends: "unset_ends (lo, hi, nl, ng)"
    using bracket_fold_ends [of "(LLONG_MIN, LLONG_MAX, False, False)" XSyncCounterUnrestricted v trs]
    unfolding f by (simp add: unset_ends_def)
  show ?thesis
  proof (cases "ng \<and> hi \<le>s ucast i \<or> nl \<and> ucast i \<le>s lo")
    case True
    then show ?thesis using after by (simp add: idle_check_cases [OF after(1)])
  next
    case False
    then have "sint lo < sint (ucast i :: int64)" "sint (ucast i :: int64) < sint hi"
      using ends sint_idle [of i] by (auto simp: unset_ends_def word_sle_eq LLONG_ends)
    then show ?thesis
      using False after inside_no_new_truth [OF cov assms(9)] by (simp add: idle_check_cases [OF after(1)])
  qed
qed

definition idle_info :: SysCounterInfo where
  "idle_info = \<lparr>sc_name = ''IDLETIME'', resolution = 4, bracket_greater = LLONG_MAX, bracket_less = LLONG_MIN,
     counterType = XSyncCounterUnrestricted, sc_kind = IdleTime,
     sc_private = Some \<lparr>value_less = False, value_greater = False, deviceid = XIAllDevices\<rparr>\<rparr>"

definition idle_counter :: SyncObject where
  "idle_counter = \<lparr>so_client = None, pTriglist = [Some (AlarmTrigger 8)], initialized = True, beingDestroyed = False,
     so_body = CounterBody 10 (Some idle_info)\<rparr>"

definition idle_state :: sync_state where
  "idle_state = sync_empty\<lparr>objects := [7 \<mapsto> idle_counter], alarms := [8 \<mapsto> alarm8 1]\<rparr>"

definition idle_state' :: sync_state where
  "idle_state' = idle_state\<lparr>objects := [7 \<mapsto> idle_counter\<lparr>so_body := CounterBody 10 (Some (idle_info\<lparr>bracket_greater := 20,
       sc_private := Some \<lparr>value_less = False, value_greater = True, deviceid = XIAllDevices\<rparr>\<rparr>))\<rparr>],
     sync_handlers := [IdleTimeHandlers 7]\<rparr>"

lemma idle_state_brackets: "SyncComputeBracketValues 7 idle_state = Some idle_state'"
  by (simp add: SyncComputeBracketValues_def idle_state_def idle_state'_def idle_counter_def idle_info_def list_triggers_def
      alarm8_def sync_empty_def bracket_step_def sync_types raise_bracket_def lower_bracket_def BracketValues_def
      IdleTimeBracketValues_def upd_obj_def Let_def word_sless_alt LLONG_ends)

theorem idle_no_missed_trigger_witness:
  "IdleTimeCheckBrackets sync_env0 7 (ucast (15 :: card32)) idle_state' = SyncChangeCounter sync_env0 7 (ucast (15 :: card32)) idle_state'
   \<or> IdleTimeCheckBrackets sync_env0 7 (ucast (15 :: card32)) idle_state' = map_option snd (SyncUpdateCounter 7 (ucast (15 :: card32)) idle_state')
      \<and> \<not> counter_test CheckPositiveComparison 20 10 (ucast (15 :: card32))"
  using idle_no_missed_trigger [of idle_state 7 idle_counter 10 idle_info
      "\<lparr>value_less = False, value_greater = False, deviceid = XIAllDevices\<rparr>" idle_state' "AlarmTrigger 8" "al_trigger (alarm8 1)" sync_env0 15]
  by (simp add: idle_state_brackets)
    (simp add: idle_state_def idle_counter_def idle_info_def alarm8_def check_matches_def sync_types counter_test_def word_sle_eq)

subsection \<open>The server's time\<close>

text \<open>A transition upwards of a counter that never decreases is left out of the brackets: if such triggers are all there is, no
  handler watches the clock, and the triggers are not run by it.\<close>

lemma servertime_transition_ignored:
  assumes "\<forall>tr \<in> set trs. test_type tr = XSyncPositiveTransition"
  shows "fold (bracket_step XSyncCounterNeverDecreases v) trs b = b"
  using assms by (induction trs arbitrary: b) (auto simp: bracket_step_def Let_def sync_types)

lemma servertime_transition_not_watched:
  assumes "objects s x = Some ob" "so_body ob = CounterBody v (Some psci)" "counterType psci = XSyncCounterNeverDecreases"
    and "sc_kind psci = Servertime" "list_triggers s (pTriglist ob) = Some trs"
    and "\<forall>tr \<in> set trs. test_type tr = XSyncPositiveTransition"
    and "SyncComputeBracketValues x s = Some s'"
  shows "ServertimeWakeupHandler e x s' = Some s'"
proof -
  have "\<not> pnext_time s'"
    using assms servertime_transition_ignored [OF assms(6)]
    by (auto simp: SyncComputeBracketValues_def BracketValues_def ServertimeBracketValues_def Let_def)
  then show ?thesis by (simp add: ServertimeWakeupHandler_def)
qed

end
