(* ===== verification/SyncInvariant.thy ===== *)
theory SyncInvariant
  imports SyncBrackets
begin

text \<open>
  The invariant that ties the triggers of the SYNC extension to the lists of their objects: every node of a list holds a trigger
  that exists and points back to the object, every trigger with an object is in that object's list, once. Parameters
  of the invariant excuse what is broken while an object is destroyed (its nodes may be cleared) and while an await is
  taken apart (its triggers are no longer in the lists). Ending an await and firing an alarm return and keep it.
\<close>

declare set_sysinfo.simps [simp del] set_counter_value.simps [simp del]

subsection \<open>Views\<close>

text \<open>What the invariant sees of an object: all but the contents of a system counter's information.\<close>

definition body_view :: "sync_body \<Rightarrow> int64 \<times> bool + bool" where
  "body_view b = (case b of CounterBody v sys \<Rightarrow> Inl (v, sys \<noteq> None) | FenceBody t \<Rightarrow> Inr t)"

definition obj_view :: "SyncObject \<Rightarrow> nat option \<times> trigger_ref option list \<times> bool \<times> bool \<times> (int64 \<times> bool + bool)" where
  "obj_view ob = (so_client ob, pTriglist ob, initialized ob, beingDestroyed ob, body_view (so_body ob))"

definition same_view :: "sync_state \<Rightarrow> sync_state \<Rightarrow> bool" where
  "same_view s s' \<longleftrightarrow> alarms s' = alarms s \<and> awaits s' = awaits s \<and> presents s' = presents s
     \<and> (\<forall>x. map_option obj_view (objects s' x) = map_option obj_view (objects s x))"

definition same_log :: "sync_state \<Rightarrow> sync_state \<Rightarrow> bool" where
  "same_log s s' \<longleftrightarrow> sync_out s' = sync_out s \<and> sync_time s' = sync_time s"

lemma same_view_refl [simp]: "same_view s s"
  by (simp add: same_view_def)

lemma same_view_sym: "same_view s s' \<Longrightarrow> same_view s' s"
  by (simp add: same_view_def)

lemma same_view_trans [trans]: "same_view s s' \<Longrightarrow> same_view s' s'' \<Longrightarrow> same_view s s''"
  by (simp add: same_view_def)

lemma same_log_refl [simp]: "same_log s s"
  by (simp add: same_log_def)

lemma same_log_trans [trans]: "same_log s s' \<Longrightarrow> same_log s' s'' \<Longrightarrow> same_log s s''"
  by (simp add: same_log_def)

lemma same_view_trig_of: "same_view s s' \<Longrightarrow> trig_of s' t = trig_of s t"
  by (cases t) (auto simp: same_view_def)

lemma same_view_object:
  assumes "same_view s s'" "objects s x = Some ob"
  obtains ob' where "objects s' x = Some ob'" "obj_view ob' = obj_view ob"
proof -
  have "map_option obj_view (objects s' x) = Some (obj_view ob)" using assms unfolding same_view_def by simp
  then show thesis using that by auto
qed

lemma obj_view_fields:
  assumes "obj_view ob' = obj_view ob"
  shows "so_client ob' = so_client ob" "pTriglist ob' = pTriglist ob" "initialized ob' = initialized ob"
    "beingDestroyed ob' = beingDestroyed ob" "is_counter ob' = is_counter ob" "counter_value ob' = counter_value ob"
    "IsSystemCounter ob' = IsSystemCounter ob"
  using assms
  by (auto simp: obj_view_def body_view_def is_counter_def counter_value_def IsSystemCounter_def split: sync_body.splits)

definition has_sysinfo :: "SyncObject \<Rightarrow> bool" where
  "has_sysinfo ob \<longleftrightarrow> (\<exists>v psci. so_body ob = CounterBody v (Some psci))"

lemma obj_view_sysinfo: "obj_view ob' = obj_view ob \<Longrightarrow> has_sysinfo ob' = has_sysinfo ob"
  by (auto simp: obj_view_def body_view_def has_sysinfo_def split: sync_body.splits)

lemma same_view_check: "same_view s s' \<Longrightarrow> SyncCheckTrigger s' tr v = SyncCheckTrigger s tr v"
proof -
  assume v: "same_view s s'"
  show ?thesis
  proof (cases "tr_pSync tr")
    case (Some x)
    have "map_option obj_view (objects s' x) = map_option obj_view (objects s x)" using v by (simp add: same_view_def)
    then show ?thesis
      using Some by (cases "objects s x"; cases "objects s' x")
        (auto simp: SyncCheckTrigger_def obj_view_def body_view_def split: sync_body.splits option.split)
  qed (simp add: SyncCheckTrigger_def split: option.split)
qed

lemma same_view_nodes: "same_view s s' \<Longrightarrow> obj_nodes x s' = obj_nodes x s"
proof -
  assume "same_view s s'"
  then have "map_option obj_view (objects s' x) = map_option obj_view (objects s x)" by (simp add: same_view_def)
  then show ?thesis by (cases "objects s x"; cases "objects s' x") (auto simp: obj_nodes_def obj_view_def)
qed

subsection \<open>The invariant\<close>

definition trigger_on :: "sync_state \<Rightarrow> trigger_ref \<Rightarrow> xid \<Rightarrow> bool" where
  "trigger_on s t x \<longleftrightarrow> (\<exists>tr. trig_of s t = Some tr \<and> tr_pSync tr = Some x)"

lemma same_view_trigger_on: "same_view s s' \<Longrightarrow> trigger_on s' = trigger_on s"
  by (intro ext) (simp add: trigger_on_def same_view_trig_of)

fun node_trigs :: "'a option list \<Rightarrow> 'a list" where
  "node_trigs [] = []"
| "node_trigs (None # ns) = node_trigs ns"
| "node_trigs (Some t # ns) = t # node_trigs ns"

lemma set_node_trigs: "t \<in> set (node_trigs ns) \<longleftrightarrow> Some t \<in> set ns"
  by (induction ns rule: node_trigs.induct) auto

lemma node_trigs_append [simp]: "node_trigs (ms @ ns) = node_trigs ms @ node_trigs ns"
  by (induction ms rule: node_trigs.induct) auto

definition obj_ok :: "xid set \<Rightarrow> sync_state \<Rightarrow> xid \<Rightarrow> SyncObject \<Rightarrow> bool" where
  "obj_ok D s x ob \<longleftrightarrow> (beingDestroyed ob \<longleftrightarrow> x \<in> D) \<and> distinct (node_trigs (pTriglist ob))
     \<and> (\<forall>t. Some t \<in> set (pTriglist ob) \<longrightarrow> trigger_on s t x) \<and> (None \<in> set (pTriglist ob) \<longrightarrow> x \<in> D)
     \<and> (IsSystemCounter ob \<longrightarrow> has_sysinfo ob)"

text \<open>The tests of fences, the others being those of counters.\<close>

definition fence_check :: "check_fn \<Rightarrow> bool" where
  "fence_check fn \<longleftrightarrow> fn = CheckFence \<or> present_check fn \<noteq> None"

lemma fence_check_simps [simp]:
  "fence_check CheckFence" "fence_check (CheckPresent b)" "\<not> fence_check CheckPositiveTransition"
  "\<not> fence_check CheckNegativeTransition" "\<not> fence_check CheckPositiveComparison" "\<not> fence_check CheckNegativeComparison"
  by (simp_all add: fence_check_def)

definition trig_ok :: "trigger_ref set \<Rightarrow> sync_state \<Rightarrow> trigger_ref \<Rightarrow> SyncTrigger \<Rightarrow> xid \<Rightarrow> bool" where
  "trig_ok T s t tr x \<longleftrightarrow> (\<exists>ob. objects s x = Some ob \<and> (is_counter ob \<longleftrightarrow> \<not> fence_check (CheckTrigger tr))
     \<and> (t \<notin> T \<longrightarrow> Some t \<in> set (pTriglist ob)))"

definition await_ok :: "SyncAwaitUnion \<Rightarrow> bool" where
  "await_ok u \<longleftrightarrow> num_waitconditions u \<le> length (aw_items u)
     \<and> (\<forall>i < length (aw_items u). tr_pSync (aw_trigger (aw_items u ! i)) \<noteq> None \<longleftrightarrow> i < num_waitconditions u)"

definition sync_inv :: "xid set \<Rightarrow> trigger_ref set \<Rightarrow> sync_state \<Rightarrow> bool" where
  "sync_inv D T s \<longleftrightarrow> (\<forall>x ob. objects s x = Some ob \<longrightarrow> obj_ok D s x ob)
     \<and> (\<forall>t tr x. trig_of s t = Some tr \<longrightarrow> tr_pSync tr = Some x \<longrightarrow> trig_ok T s t tr x)
     \<and> (\<forall>w u. awaits s w = Some u \<longrightarrow> await_ok u)"

lemma sync_invI [intro?]:
  assumes "\<And>x ob. objects s x = Some ob \<Longrightarrow> obj_ok D s x ob"
    and "\<And>t tr x. trig_of s t = Some tr \<Longrightarrow> tr_pSync tr = Some x \<Longrightarrow> trig_ok T s t tr x"
    and "\<And>w u. awaits s w = Some u \<Longrightarrow> await_ok u"
  shows "sync_inv D T s"
  using assms by (simp add: sync_inv_def)

lemma sync_invD:
  assumes "sync_inv D T s"
  shows "objects s x = Some ob \<Longrightarrow> obj_ok D s x ob"
    and "trig_of s t = Some tr \<Longrightarrow> tr_pSync tr = Some x \<Longrightarrow> trig_ok T s t tr x"
    and "awaits s w = Some u \<Longrightarrow> await_ok u"
  using assms by (simp_all add: sync_inv_def)

lemma sync_inv_view:
  assumes "same_view s s'" "sync_inv D T s"
  shows "sync_inv D T s'"
proof
  fix x ob' assume ob': "objects s' x = Some ob'"
  obtain ob where ob: "objects s x = Some ob" "obj_view ob = obj_view ob'"
    using same_view_object [OF same_view_sym [OF assms(1)] ob'] .
  have "obj_ok D s x ob" using sync_invD(1) [OF assms(2) ob(1)] .
  then show "obj_ok D s' x ob'"
    using obj_view_fields [OF ob(2)] obj_view_sysinfo [OF ob(2)]
    by (simp add: obj_ok_def same_view_trigger_on [OF assms(1)])
next
  fix t tr x assume "trig_of s' t = Some tr" "tr_pSync tr = Some x"
  then have "trig_ok T s t tr x"
    using sync_invD(2) [OF assms(2)] by (simp add: same_view_trig_of [OF assms(1)])
  then obtain ob where ob: "objects s x = Some ob" "is_counter ob \<longleftrightarrow> \<not> fence_check (CheckTrigger tr)"
      "t \<notin> T \<longrightarrow> Some t \<in> set (pTriglist ob)" by (auto simp: trig_ok_def)
  obtain ob' where ob': "objects s' x = Some ob'" "obj_view ob' = obj_view ob" using same_view_object [OF assms(1) ob(1)] .
  then show "trig_ok T s' t tr x" using ob obj_view_fields(2,5) [OF ob'(2)] by (simp add: trig_ok_def)
next
  fix w u assume "awaits s' w = Some u"
  then show "await_ok u" using sync_invD(3) [OF assms(2)] assms(1) by (simp add: same_view_def)
qed

subsection \<open>Brackets and lists\<close>

lemma list_triggers_defined:
  assumes "\<forall>n \<in> set ns. \<exists>t tr. n = Some t \<and> trig_of s t = Some tr"
  shows "\<exists>trs. list_triggers s ns = Some trs"
  using assms by (induction ns) (auto simp: list_triggers_def)

lemma set_sysinfo_view: "so_body ob = CounterBody v (Some p) \<Longrightarrow> obj_view (set_sysinfo psci ob) = obj_view ob"
  by (simp add: obj_view_def body_view_def set_sysinfo.simps)

lemma upd_sysinfo_view:
  assumes "objects s x = Some ob" "has_sysinfo ob"
  shows "same_view s (upd_obj x (set_sysinfo psci) s)"
  using assms by (auto simp: same_view_def upd_obj_def has_sysinfo_def set_sysinfo_view)

lemma compute_brackets_view:
  assumes ob: "objects s x = Some ob" "has_sysinfo ob"
    and "\<forall>n \<in> set (pTriglist ob). \<exists>t tr. n = Some t \<and> trig_of s t = Some tr"
  shows "\<exists>s'. SyncComputeBracketValues x s = Some s' \<and> same_view s s' \<and> same_log s s'"
proof -
  obtain v psci where b: "so_body ob = CounterBody v (Some psci)" using ob(2) by (auto simp: has_sysinfo_def)
  obtain trs where trs: "list_triggers s (pTriglist ob) = Some trs" using list_triggers_defined [OF assms(3)] by blast
  obtain lo hi nl ng where f: "fold (bracket_step (counterType psci) v) trs (LLONG_MIN, LLONG_MAX, False, False) = (lo, hi, nl, ng)"
    by (rule prod_cases4)
  define psci' where "psci' = psci\<lparr>bracket_less := lo, bracket_greater := hi\<rparr>"
  define s1 where "s1 = upd_obj x (set_sysinfo psci') s"
  have v1: "same_view s s1" "same_log s s1"
    using upd_sysinfo_view [OF ob] by (simp_all add: s1_def same_log_def upd_obj_def)
  have "objects s1 x = Some (set_sysinfo psci' ob)" "has_sysinfo (set_sysinfo psci' ob)"
    using ob b by (simp_all add: s1_def upd_obj_def has_sysinfo_def set_sysinfo.simps)
  then have "map_option obj_view (map_option (set_sysinfo p) (objects s1 x)) = map_option obj_view (objects s1 x)" for p
    by (auto simp: has_sysinfo_def set_sysinfo_view)
  then have "same_view s1 (BracketValues x psci' nl ng s1)" "same_log s1 (BracketValues x psci' nl ng s1)"
    by (auto simp: BracketValues_def ServertimeBracketValues_def IdleTimeBracketValues_def same_view_def same_log_def Let_def
        upd_obj_def split: sys_kind.splits option.splits)
  then have "same_view s (BracketValues x psci' nl ng s1)" "same_log s (BracketValues x psci' nl ng s1)"
    using same_view_trans [OF v1(1)] same_log_trans [OF v1(2)] by blast+
  then show ?thesis
    using ob b trs f by (auto simp: SyncComputeBracketValues_def psci'_def s1_def Let_def)
qed

text \<open>Taking triggers out of the lists: the nodes of objects being destroyed are cleared, those of others removed.\<close>

definition drop_nodes :: "xid set \<Rightarrow> trigger_ref set \<Rightarrow> xid \<Rightarrow> trigger_ref option list \<Rightarrow> trigger_ref option list" where
  "drop_nodes D Ts x ns =
     (if x \<in> D then map (\<lambda>n. if n \<in> Some ` Ts then None else n) ns else filter (\<lambda>n. n \<notin> Some ` Ts) ns)"

definition drop_triggers :: "xid set \<Rightarrow> trigger_ref set \<Rightarrow> sync_state \<Rightarrow> sync_state" where
  "drop_triggers D Ts s =
     s\<lparr>objects := (\<lambda>x. map_option (\<lambda>ob. ob\<lparr>pTriglist := drop_nodes D Ts x (pTriglist ob)\<rparr>) (objects s x))\<rparr>"

lemma drop_nodes_drop_nodes: "drop_nodes D Ts x (drop_nodes D Us x ns) = drop_nodes D (Us \<union> Ts) x ns"
  by (auto simp: drop_nodes_def intro!: filter_cong)

lemma drop_triggers_drop_triggers: "drop_triggers D Ts (drop_triggers D Us s) = drop_triggers D (Us \<union> Ts) s"
  by (simp add: drop_triggers_def option.map_comp comp_def drop_nodes_drop_nodes)

lemma drop_triggers_empty: "drop_triggers D {} s = s"
proof -
  have "(\<lambda>x. map_option (\<lambda>ob. ob\<lparr>pTriglist := drop_nodes D {} x (pTriglist ob)\<rparr>) (objects s x)) = objects s" (is "?f = _")
  proof
    fix x show "?f x = objects s x" by (cases "objects s x") (simp_all add: drop_nodes_def)
  qed
  then show ?thesis by (simp only: drop_triggers_def) simp
qed

lemma trig_of_drop [simp]: "trig_of (drop_triggers D Ts s) t = trig_of s t"
  by (cases t) (simp_all add: drop_triggers_def)

lemma same_view_drop: "same_view s s' \<Longrightarrow> same_view (drop_triggers D Ts s) (drop_triggers D Ts s')"
proof -
  assume v: "same_view s s'"
  have "map_option obj_view (objects (drop_triggers D Ts s') x) = map_option obj_view (objects (drop_triggers D Ts s) x)" for x
  proof -
    have "map_option obj_view (objects s' x) = map_option obj_view (objects s x)" using v by (simp add: same_view_def)
    then show ?thesis by (cases "objects s x"; cases "objects s' x") (auto simp: drop_triggers_def obj_view_def)
  qed
  then show ?thesis using v by (simp add: same_view_def drop_triggers_def)
qed

lemma node_trigs_drop: "node_trigs (drop_nodes D Ts x ns) = filter (\<lambda>t. t \<notin> Ts) (node_trigs ns)"
  by (induction ns rule: node_trigs.induct) (auto simp: drop_nodes_def)

lemma drop_nodes_mem:
  "Some t \<in> set (drop_nodes D Ts x ns) \<longleftrightarrow> Some t \<in> set ns \<and> t \<notin> Ts"
  "None \<in> set (drop_nodes D Ts x ns) \<Longrightarrow> x \<in> D \<or> None \<in> set ns"
  by (auto simp: drop_nodes_def split: if_splits)

lemma sync_inv_drop: "sync_inv D T s \<Longrightarrow> sync_inv D (T \<union> Ts) (drop_triggers D Ts s)"
proof
  assume inv: "sync_inv D T s"
  { fix x ob' assume "objects (drop_triggers D Ts s) x = Some ob'"
    then obtain ob where ob: "objects s x = Some ob" "ob' = ob\<lparr>pTriglist := drop_nodes D Ts x (pTriglist ob)\<rparr>"
      by (auto simp: drop_triggers_def)
    have "obj_ok D s x ob" using sync_invD(1) [OF inv ob(1)] .
    then show "obj_ok D (drop_triggers D Ts s) x ob'"
      using ob(2) drop_nodes_mem(2) [of D Ts x "pTriglist ob"]
      by (auto simp: obj_ok_def node_trigs_drop drop_nodes_mem(1) trigger_on_def IsSystemCounter_def is_counter_def has_sysinfo_def) }
  { fix t tr x assume "trig_of (drop_triggers D Ts s) t = Some tr" "tr_pSync tr = Some x"
    then have "trig_ok T s t tr x" using sync_invD(2) [OF inv] by simp
    then show "trig_ok (T \<union> Ts) (drop_triggers D Ts s) t tr x"
      by (auto simp: trig_ok_def drop_triggers_def drop_nodes_mem(1) is_counter_def) }
  { fix w u assume "awaits (drop_triggers D Ts s) w = Some u"
    then show "await_ok u" using sync_invD(3) [OF inv] by (simp add: drop_triggers_def) }
qed

subsection \<open>Taking an await apart\<close>

lemma drop_nodes_id: "(\<And>t. t \<in> Ts \<Longrightarrow> Some t \<notin> set ns) \<Longrightarrow> drop_nodes D Ts x ns = ns"
  by (auto simp: drop_nodes_def filter_id_conv intro!: map_idI)

lemma remove1_drop: "distinct (node_trigs ns) \<Longrightarrow> x \<notin> D \<Longrightarrow> remove1 (Some t) ns = drop_nodes D {t} x ns"
proof (induction ns rule: node_trigs.induct)
  case (3 u ns)
  have "u = t \<Longrightarrow> filter (\<lambda>n. n \<noteq> Some t) ns = ns" using 3(2) by (auto simp: filter_id_conv set_node_trigs)
  then show ?case using 3 by (auto simp: drop_nodes_def)
qed (auto simp: drop_nodes_def)

lemma clear_node_drop: "distinct (node_trigs ns) \<Longrightarrow> x \<in> D \<Longrightarrow> clear_node t ns = drop_nodes D {t} x ns"
proof (induction ns rule: node_trigs.induct)
  case (3 u ns)
  have "u = t \<Longrightarrow> map (\<lambda>n. if n = Some t then None else n) ns = ns" using 3(2) by (auto simp: set_node_trigs intro!: map_idI)
  then show ?case using 3 by (auto simp: drop_nodes_def)
qed (auto simp: drop_nodes_def)

lemma drop_one:
  assumes inv: "sync_inv D T s" and t: "trigger_on s t x"
  shows "drop_triggers D {t} s = upd_obj x (\<lambda>ob. ob\<lparr>pTriglist := drop_nodes D {t} x (pTriglist ob)\<rparr>) s"
proof -
  have "map_option (\<lambda>ob. ob\<lparr>pTriglist := drop_nodes D {t} y (pTriglist ob)\<rparr>) (objects s y) = objects s y" if "y \<noteq> x" for y
  proof (cases "objects s y")
    case (Some ob)
    have "Some t \<notin> set (pTriglist ob)"
      using sync_invD(1) [OF inv Some] t that by (auto simp: obj_ok_def trigger_on_def)
    then have "drop_nodes D {t} y (pTriglist ob) = pTriglist ob" by (intro drop_nodes_id) simp
    then show ?thesis using Some by simp
  qed simp
  then show ?thesis by (auto simp: drop_triggers_def upd_obj_def fun_eq_iff intro!: arg_cong [where f = "\<lambda>f. s\<lparr>objects := f\<rparr>"])
qed

lemma trigger_on_object: "sync_inv D T s \<Longrightarrow> trigger_on s t x \<Longrightarrow> \<exists>ob. objects s x = Some ob"
  using sync_invD(2) by (fastforce simp: trigger_on_def trig_ok_def)

lemma delete_trigger_ok:
  assumes inv: "sync_inv D T s" and t: "trigger_on s t x" and "x \<notin> D"
  shows "\<exists>s'. SyncDeleteTriggerFromSyncObject t s = Some s' \<and> same_view (drop_triggers D {t} s) s' \<and> same_log s s'"
proof -
  obtain tr where tr: "trig_of s t = Some tr" "tr_pSync tr = Some x" using t by (auto simp: trigger_on_def)
  obtain ob where ob: "objects s x = Some ob" using trigger_on_object [OF inv t] by blast
  have ok: "obj_ok D s x ob" using sync_invD(1) [OF inv ob] .
  let ?s1 = "drop_triggers D {t} s"
  have inv1: "sync_inv D (T \<union> {t}) ?s1" using inv by (rule sync_inv_drop)
  have eq: "upd_obj x (\<lambda>ob. ob\<lparr>pTriglist := remove1 (Some t) (pTriglist ob)\<rparr>) s = ?s1"
    using ok \<open>x \<notin> D\<close> ob by (simp add: drop_one [OF inv t] upd_obj_def obj_ok_def remove1_drop)
  show ?thesis
  proof (cases "IsSystemCounter ob")
    case True
    let ?ob = "ob\<lparr>pTriglist := drop_nodes D {t} x (pTriglist ob)\<rparr>"
    have ob1: "objects ?s1 x = Some ?ob" using ob by (simp add: drop_triggers_def)
    have "obj_ok D ?s1 x ?ob" using sync_invD(1) [OF inv1 ob1] .
    moreover have "IsSystemCounter ?ob" using True by (simp add: IsSystemCounter_def is_counter_def)
    ultimately have "has_sysinfo ?ob" "\<forall>n \<in> set (pTriglist ?ob). \<exists>t tr. n = Some t \<and> trig_of ?s1 t = Some tr"
      using \<open>x \<notin> D\<close> by (auto simp: obj_ok_def trigger_on_def) (metis not_Some_eq)
    from compute_brackets_view [OF ob1 this]
    show ?thesis
      using tr ob True by (auto simp: SyncDeleteTriggerFromSyncObject_def eq Let_def same_log_def drop_triggers_def)
  next
    case False
    then show ?thesis
      using tr ob by (simp add: SyncDeleteTriggerFromSyncObject_def eq Let_def same_log_def drop_triggers_def)
  qed
qed

lemma detach_await_ok:
  assumes inv: "sync_inv D T s" and t: "trigger_on s t x"
  shows "\<exists>s'. detach_await t s = Some s' \<and> same_view (drop_triggers D {t} s) s' \<and> same_log s s'"
proof -
  obtain tr where tr: "trig_of s t = Some tr" "tr_pSync tr = Some x" using t by (auto simp: trigger_on_def)
  obtain ob where ob: "objects s x = Some ob" using trigger_on_object [OF inv t] by blast
  have ok: "obj_ok D s x ob" using sync_invD(1) [OF inv ob] .
  show ?thesis
  proof (cases "x \<in> D")
    case True
    then show ?thesis
      using tr ob ok
      by (simp add: detach_await_def drop_one [OF inv t] obj_ok_def upd_obj_def clear_node_drop same_log_def)
  next
    case False
    then show ?thesis using delete_trigger_ok [OF inv t] tr ob ok by (simp add: detach_await_def obj_ok_def)
  qed
qed

lemma detach_all_ok:
  assumes "sync_inv D T s" "\<forall>t \<in> set ts. \<exists>x. trigger_on s t x"
  shows "\<exists>s'. detach_all ts s = Some s' \<and> same_view (drop_triggers D (set ts) s) s' \<and> same_log s s'"
  using assms
proof (induction ts arbitrary: s T)
  case Nil
  then show ?case by (simp add: drop_triggers_empty)
next
  case (Cons t ts)
  obtain x where "trigger_on s t x" using Cons.prems(2) by auto
  then obtain s1 where s1: "detach_await t s = Some s1" "same_view (drop_triggers D {t} s) s1" "same_log s s1"
    using detach_await_ok [OF Cons.prems(1)] by blast
  have "sync_inv D (T \<union> {t}) s1" using sync_inv_view [OF s1(2) sync_inv_drop [OF Cons.prems(1)]] .
  moreover have "trigger_on s1 = trigger_on s"
    using same_view_trigger_on [OF s1(2)] by (simp add: trigger_on_def fun_eq_iff)
  ultimately obtain s2 where s2: "detach_all ts s1 = Some s2" "same_view (drop_triggers D (set ts) s1) s2" "same_log s1 s2"
    using Cons.IH [of "T \<union> {t}" s1] Cons.prems(2) by auto
  have "same_view (drop_triggers D (set ts) (drop_triggers D {t} s)) s2"
    using same_view_trans [OF same_view_drop [OF s1(2)] s2(2)] .
  then show ?case using s1 s2 same_log_trans by (auto simp: drop_triggers_drop_triggers)
qed

definition free_await :: "xid set \<Rightarrow> xid \<Rightarrow> sync_state \<Rightarrow> sync_state" where
  "free_await D w s = (drop_triggers D (range (AwaitTrigger w)) s)\<lparr>awaits := (awaits s)(w := None)\<rparr>"

lemma await_trigger_on:
  assumes "sync_inv D T s" "awaits s w = Some u"
  shows "(\<exists>x. trigger_on s (AwaitTrigger w i) x) \<longleftrightarrow> i < num_waitconditions u"
  using sync_invD(3) [OF assms] assms(2) by (auto simp: trigger_on_def await_ok_def)

lemma drop_await_refs:
  assumes inv: "sync_inv D T s" and "awaits s w = Some u"
  shows "drop_triggers D (set (await_refs w (num_waitconditions u))) s = drop_triggers D (range (AwaitTrigger w)) s"
proof -
  have "drop_nodes D (set (await_refs w (num_waitconditions u))) x (pTriglist ob) = drop_nodes D (range (AwaitTrigger w)) x (pTriglist ob)"
    if "objects s x = Some ob" for x ob
  proof -
    have "n \<in> Some ` set (await_refs w (num_waitconditions u)) \<longleftrightarrow> n \<in> Some ` range (AwaitTrigger w)"
      if n: "n \<in> set (pTriglist ob)" for n
    proof (cases n)
      case (Some t)
      then have "trigger_on s t x" using sync_invD(1) [OF inv \<open>objects s x = Some ob\<close>] n by (auto simp: obj_ok_def)
      moreover have "trigger_on s (AwaitTrigger w i) x \<Longrightarrow> i < num_waitconditions u" for i
        using await_trigger_on [OF assms] by blast
      ultimately show ?thesis using Some by (auto simp: await_refs_def image_iff)
    qed auto
    then show ?thesis by (auto simp: drop_nodes_def intro!: filter_cong map_cong)
  qed
  then show ?thesis
    by (auto simp: drop_triggers_def fun_eq_iff intro!: arg_cong [where f = "\<lambda>f. s\<lparr>objects := f\<rparr>"] option.map_cong)
qed

lemma free_await_ok:
  assumes inv: "sync_inv D T s" and w: "awaits s w = Some u"
  shows "\<exists>s'. FreeAwait w s = Some s' \<and> same_view (free_await D w s) s' \<and> same_log s s'"
proof -
  have "\<forall>t \<in> set (await_refs w (num_waitconditions u)). \<exists>x. trigger_on s t x"
    using await_trigger_on [OF assms] by (auto simp: await_refs_def)
  from detach_all_ok [OF inv this]
  obtain s1 where s1: "detach_all (await_refs w (num_waitconditions u)) s = Some s1"
    "same_view (drop_triggers D (range (AwaitTrigger w)) s) s1" "same_log s s1" unfolding drop_await_refs [OF assms] by blast
  have "same_view (free_await D w s) (s1\<lparr>awaits := (awaits s1)(w := None)\<rparr>)"
    using s1(2) by (simp add: same_view_def free_await_def drop_triggers_def)
  then show ?thesis using s1 w by (auto simp: FreeAwait_def same_log_def)
qed

lemma trig_of_free_await:
  "trig_of (free_await D w s) t = (if t \<in> range (AwaitTrigger w) then None else trig_of s t)"
  by (cases t) (auto simp: free_await_def drop_triggers_def)

lemma sync_inv_free_await:
  assumes inv: "sync_inv D T s"
  shows "sync_inv D (T - range (AwaitTrigger w)) (free_await D w s)"
proof
  let ?Ts = "range (AwaitTrigger w)"
  have inv1: "sync_inv D (T \<union> ?Ts) (drop_triggers D ?Ts s)" using inv by (rule sync_inv_drop)
  { fix x ob assume ob: "objects (free_await D w s) x = Some ob"
    then have "objects (drop_triggers D ?Ts s) x = Some ob" by (simp add: free_await_def)
    then have ok: "obj_ok D (drop_triggers D ?Ts s) x ob" using sync_invD(1) [OF inv1] by blast
    have "trigger_on (free_await D w s) t x" if "Some t \<in> set (pTriglist ob)" for t
    proof -
      have "t \<notin> ?Ts" using that ob by (auto simp: free_await_def drop_triggers_def drop_nodes_mem(1))
      then show ?thesis using ok that by (simp add: obj_ok_def trigger_on_def trig_of_free_await)
    qed
    then show "obj_ok D (free_await D w s) x ob" using ok by (simp add: obj_ok_def) }
  { fix t tr x assume "trig_of (free_await D w s) t = Some tr" "tr_pSync tr = Some x"
    then have "trig_ok (T \<union> ?Ts) (drop_triggers D ?Ts s) t tr x" "t \<notin> ?Ts"
      using sync_invD(2) [OF inv1] by (auto simp: trig_of_free_await split: if_splits)
    then show "trig_ok (T - ?Ts) (free_await D w s) t tr x" by (simp add: trig_ok_def free_await_def) }
  { fix v u assume "awaits (free_await D w s) v = Some u"
    then show "await_ok u" using sync_invD(3) [OF inv] by (auto simp: free_await_def split: if_splits) }
qed

end
