(* ===== verification/SyncLaws.thy ===== *)
theory SyncLaws
  imports SyncInvariant
begin

text \<open>
  Changing a counter and destroying one (Xext/sync/sync.c): the walks over the triggers return although the
  triggers they run take nodes out of the list, the invariant is kept, and exactly the awaits one of whose triggers holds
  are ended.
\<close>

subsection \<open>Ending an await\<close>

lemma reported_waits_defined:
  assumes "\<forall>aw \<in> set aws. \<exists>x ob. tr_pSync (aw_trigger aw) = Some x \<and> objects s x = Some ob"
  shows "\<exists>rs. reported_waits s aws = Some rs \<and> set rs \<subseteq> set aws"
  using assms
proof (induction aws)
  case (Cons aw aws)
  have "await_reports s aw \<noteq> None"
    using Cons.prems by (auto simp: await_reports_def Let_def case_prod_beta)
  then show ?case using Cons by auto
qed simp

lemma those_defined: "(\<And>y. y \<in> set ys \<Longrightarrow> f y \<noteq> None) \<Longrightarrow> \<exists>zs. those (map f ys) = Some zs \<and> length zs = length ys"
proof (induction ys)
  case (Cons y ys)
  then obtain z zs where "f y = Some z" "those (map f ys) = Some zs" "length zs = length ys" by fastforce
  then show ?case by simp
qed simp

lemma send_counter_events:
  assumes "\<forall>aw \<in> set aws. \<exists>x ob. tr_pSync (aw_trigger aw) = Some x \<and> objects s x = Some ob" "aws \<noteq> []"
  shows "\<exists>evs t. SyncSendCounterNotifyEvents e c aws s = Some (s\<lparr>sync_time := t, sync_out := sync_out s @ evs\<rparr>)
    \<and> (evs = [] \<or> (\<exists>l. evs = [CounterNotify c l] \<and> l \<noteq> []))"
proof (cases "sync_gone e c \<or> \<not> sync_calloc e")
  case True
  then show ?thesis by (auto simp: SyncSendCounterNotifyEvents_def intro!: exI [of _ "[]"] exI [of _ "sync_time s"])
next
  case False
  let ?s = "sync_update_time e s" and ?n = "length aws"
  let ?f = "\<lambda>i. counter_event (milliseconds (sync_time ?s)) (?n - i - 1) ?s (aws ! i)"
  have "?f i \<noteq> None" if "i \<in> set [0..<?n]" for i
  proof -
    have "aws ! i \<in> set aws" using that by simp
    then show ?thesis using assms(1) by (fastforce simp: counter_event_def sync_update_time_def)
  qed
  then obtain l where l: "those (map ?f [0..<?n]) = Some l" "length l = ?n" using those_defined [of "[0..<?n]" ?f] by auto
  then have "l \<noteq> []" using assms(2) by auto
  then show ?thesis
    using False l(1)
    by (auto simp: SyncSendCounterNotifyEvents_def Let_def sync_log_def sync_update_time_def
        intro!: exI [of _ "[CounterNotify c l]"] exI [of _ "sync_tick e (sync_time s)"])
qed

lemma await_item_object:
  assumes inv: "sync_inv D T s" and w: "awaits s w = Some u" and "aw \<in> set (take (num_waitconditions u) (aw_items u))"
  shows "\<exists>x ob. tr_pSync (aw_trigger aw) = Some x \<and> objects s x = Some ob"
proof -
  obtain i where i: "i < num_waitconditions u" "i < length (aw_items u)" "aw = aw_items u ! i"
    using assms(3) by (auto simp: in_set_conv_nth)
  then have "tr_pSync (aw_trigger aw) \<noteq> None"
    using sync_invD(3) [OF inv w] unfolding await_ok_def by blast
  then obtain x where x: "tr_pSync (aw_trigger aw) = Some x" by blast
  have "trig_of s (AwaitTrigger w i) = Some (aw_trigger aw)" using w i by simp
  from sync_invD(2) [OF inv this x] show ?thesis using x by (auto simp: trig_ok_def)
qed

lemma same_view_log: "same_view s s' \<Longrightarrow> same_view s (s'\<lparr>sync_time := t, sync_out := outs\<rparr>)"
  by (simp add: same_view_def)

lemma await_fired_ok:
  assumes inv: "sync_inv D T s" and w: "awaits s w = Some u"
  shows "\<exists>s' evs. SyncAwaitTriggerFired e w s = Some s' \<and> same_view (free_await D w s) s'
    \<and> sync_out s' = sync_out s @ evs @ [AttendClient (aw_client u)]
    \<and> (evs = [] \<or> (\<exists>l. evs = [CounterNotify (aw_client u) l] \<and> l \<noteq> []))"
proof -
  let ?aws = "take (num_waitconditions u) (aw_items u)"
  have items: "\<forall>aw \<in> set ?aws. \<exists>x ob. tr_pSync (aw_trigger aw) = Some x \<and> objects s x = Some ob"
    using await_item_object [OF assms] by blast
  obtain rs where rs: "reported_waits s ?aws = Some rs" "set rs \<subseteq> set ?aws" using reported_waits_defined [OF items] by blast
  have "\<exists>evs t. (if \<not> sync_calloc e then Some s else if rs \<noteq> [] then SyncSendCounterNotifyEvents e (aw_client u) rs s else Some s)
      = Some (s\<lparr>sync_time := t, sync_out := sync_out s @ evs\<rparr>) \<and> (evs = [] \<or> (\<exists>l. evs = [CounterNotify (aw_client u) l] \<and> l \<noteq> []))"
    (is "\<exists>evs t. ?send = Some (?log evs t) \<and> ?one evs")
  proof (cases "sync_calloc e \<and> rs \<noteq> []")
    case True
    then have ne: "rs \<noteq> []" by simp
    have "\<forall>aw \<in> set rs. \<exists>x ob. tr_pSync (aw_trigger aw) = Some x \<and> objects s x = Some ob" using items rs(2) by blast
    from send_counter_events [OF this ne, of e "aw_client u"] show ?thesis using True by simp
  next
    case False
    have "?send = Some (?log [] (sync_time s))" using False by auto
    then show ?thesis by blast
  qed
  then obtain evs t where send: "?send = Some (?log evs t)" and one: "?one evs" by blast
  let ?s1 = "s\<lparr>sync_time := t, sync_out := sync_out s @ evs @ [AttendClient (aw_client u)]\<rparr>"
  have v: "same_view s ?s1" by (rule same_view_log) simp
  have "sync_inv D T ?s1" "awaits ?s1 w = Some u" using sync_inv_view [OF v inv] w by simp_all
  from free_await_ok [OF this] obtain s' where s': "FreeAwait w ?s1 = Some s'" "same_view (free_await D w ?s1) s'" "same_log ?s1 s'" by blast
  have "same_view (free_await D w s) (free_await D w ?s1)" by (simp add: same_view_def free_await_def drop_triggers_def)
  then have "same_view (free_await D w s) s'" using s'(2) by (rule same_view_trans)
  moreover have "SyncAwaitTriggerFired e w s = Some s'"
  proof -
    have "SyncAwaitTriggerFired e w s = Option.bind ?send (\<lambda>s1. FreeAwait w (sync_log (AttendClient (aw_client u)) s1))"
      using w rs(1) by (simp add: SyncAwaitTriggerFired_def)
    then show ?thesis unfolding send using s'(1) by (simp add: sync_log_def)
  qed
  moreover have "sync_out s' = sync_out s @ evs @ [AttendClient (aw_client u)]" using s'(3) by (simp add: same_log_def)
  ultimately show ?thesis using one by blast
qed

subsection \<open>Firing an alarm\<close>

definition comparison :: "SyncTrigger \<Rightarrow> bool" where
  "comparison tr \<longleftrightarrow> test_type tr = XSyncPositiveComparison \<or> test_type tr = XSyncNegativeComparison"

definition alarms_ok :: "sync_state \<Rightarrow> bool" where
  "alarms_ok s \<longleftrightarrow> (\<forall>a al. alarms s a = Some al \<longrightarrow> check_matches (al_trigger al))"

lemma advance_result:
  assumes "alarm_advance chk d t = Some r"
  shows "fst r \<or> chk (snd r) = Some False"
proof -
  have "(\<lambda>chk d t r. fst r \<or> chk (snd r) = Some False) chk d t r"
    using assms by (rule alarm_advance.raw_induct [rotated]) (auto split: bind_splits if_splits)
  then show ?thesis .
qed

lemma advance_once:
  assumes "\<And>t. chk t = Some False"
  shows "\<exists>r. alarm_advance chk d t = Some r"
  using assms by (cases "in_int64 (sint t + sint d)") (auto simp: advance_step advance_overflow)

text \<open>For a trigger whose function goes with its type the loop of the alarm returns, unless it compares and the delta is zero,
  which the alarm tests first.\<close>

lemma matching_advance_returns:
  assumes "check_matches tr" "tr_pSync tr = Some x" "objects s x = Some ob" "is_counter ob"
    and "\<not> (d = 0 \<and> comparison tr)"
  shows "\<exists>r. alarm_advance (\<lambda>t. SyncCheckTrigger s (tr\<lparr>test_value := t\<rparr>) (counter_value ob)) d t0 = Some r"
proof -
  let ?chk = "\<lambda>t. SyncCheckTrigger s (tr\<lparr>test_value := t\<rparr>) (counter_value ob)"
  have chk: "?chk t = Some (counter_test (CheckTrigger tr) t (counter_value ob) (counter_value ob))" for t
    using assms by (auto simp: SyncCheckTrigger_def is_counter_def counter_value_def check_matches_def split: sync_body.splits)
  show ?thesis
  proof (cases "comparison tr")
    case True
    then show ?thesis using assms(5) chk by (intro advance_returns) auto
  next
    case False
    then have "?chk t = Some False" for t
      using assms(1) chk by (auto simp: check_matches_def comparison_def counter_test_def word_sless_alt word_sle_eq)
    then show ?thesis by (rule advance_once)
  qed
qed

lemma transition_advance:
  assumes "check_matches tr" "tr_pSync tr = Some x" "objects s x = Some ob" "is_counter ob" "\<not> comparison tr"
  shows "alarm_advance (\<lambda>t. SyncCheckTrigger s (tr\<lparr>test_value := t\<rparr>) (counter_value ob)) d t =
    Some (\<not> in_int64 (sint t + sint d), t + d)"
proof -
  have "SyncCheckTrigger s (tr\<lparr>test_value := t'\<rparr>) (counter_value ob) = Some False" for t'
    using assms
    by (auto simp: SyncCheckTrigger_def is_counter_def counter_value_def check_matches_def comparison_def counter_test_def
        word_sless_alt word_sle_eq split: sync_body.splits)
  then show ?thesis by (cases "in_int64 (sint t + sint d)") (simp_all add: advance_step advance_overflow)
qed

text \<open>What firing an alarm leaves: only the state and the test value of the alarm change; afterwards an active alarm
  that compares no longer holds. One that tests a transition has been advanced by one delta, or is inactive with its old test
  value when the sum does not fit; it may still hold.\<close>

definition one_addition :: "SyncAlarm \<Rightarrow> alarm_state \<times> int64" where
  "one_addition al =
     (let t = test_value (al_trigger al); d = al_delta al in
      if in_int64 (sint t + sint d) then (XSyncAlarmActive, t + d) else (XSyncAlarmInactive, t))"

definition alarm_at :: "alarm_state \<Rightarrow> int64 \<Rightarrow> SyncAlarm \<Rightarrow> SyncAlarm" where
  "alarm_at st t al = al\<lparr>al_state := st, al_trigger := (al_trigger al)\<lparr>test_value := t\<rparr>\<rparr>"

definition alarm_result :: "(int64 \<Rightarrow> bool) \<Rightarrow> SyncAlarm \<Rightarrow> alarm_state \<Rightarrow> int64 \<Rightarrow> bool" where
  "alarm_result holds al st t' \<longleftrightarrow>
     (if al_state al \<noteq> XSyncAlarmActive then st = al_state al \<and> t' = test_value (al_trigger al)
      else if comparison (al_trigger al)
      then st = XSyncAlarmInactive \<and> t' = test_value (al_trigger al) \<or> st = XSyncAlarmActive \<and> \<not> holds t'
      else (st, t') = one_addition al)"

definition alarm_fired :: "xid \<Rightarrow> sync_state \<Rightarrow> sync_state \<Rightarrow> bool" where
  "alarm_fired a s s' \<longleftrightarrow> objects s' = objects s \<and> awaits s' = awaits s \<and> presents s' = presents s
     \<and> (\<exists>al st t'. alarms s a = Some al \<and> alarms s' = (alarms s)(a \<mapsto> alarm_at st t' al)
          \<and> (\<forall>v. alarm_result (\<lambda>t. SyncCheckTrigger s ((al_trigger al)\<lparr>test_value := t\<rparr>) v \<noteq> Some False) al st t'))"

lemma alarm_firedI:
  assumes "alarms s a = Some al" "objects s' = objects s" "awaits s' = awaits s" "presents s' = presents s"
    and "alarms s' = (alarms s)(a \<mapsto> alarm_at st t' al)"
    and "\<forall>v. alarm_result (\<lambda>t. SyncCheckTrigger s ((al_trigger al)\<lparr>test_value := t\<rparr>) v \<noteq> Some False) al st t'"
  shows "alarm_fired a s s'"
  using assms unfolding alarm_fired_def by blast

lemma comparison_check_any:
  "comparison tr \<Longrightarrow> check_matches tr \<Longrightarrow> SyncCheckTrigger s (tr\<lparr>test_value := t\<rparr>) v = SyncCheckTrigger s (tr\<lparr>test_value := t\<rparr>) w"
  by (auto simp: comparison_def check_matches_def SyncCheckTrigger_def counter_test_def sync_types split: option.splits sync_body.splits)

lemma alarm_fired_ok:
  assumes inv: "sync_inv D T s" and al: "alarms s a = Some al" "check_matches (al_trigger al)" "tr_pSync (al_trigger al) = Some x"
  shows "\<exists>s'. SyncAlarmTriggerFired e a s = Some s' \<and> alarm_fired a s s'"
proof -
  let ?tr = "al_trigger al" and ?d = "al_delta al"
  have "trig_of s (AlarmTrigger a) = Some ?tr" using al by simp
  from sync_invD(2) [OF inv this al(3)] obtain ob where ob: "objects s x = Some ob" "is_counter ob"
    using al(2) by (auto simp: trig_ok_def check_matches_def)
  show ?thesis
  proof (cases "al_state al = XSyncAlarmActive")
    case False
    have eq: "alarms s = (alarms s)(a \<mapsto> alarm_at (al_state al) (test_value ?tr) al)"
      using al(1) by (simp add: fun_upd_idem alarm_at_def)
    have "alarm_fired a s s"
      by (rule alarm_firedI [OF al(1) _ _ _ eq]) (use False in \<open>simp_all add: alarm_result_def\<close>)
    then show ?thesis
      using False al ob by (auto simp: SyncAlarmTriggerFired_def Let_def)
  next
    case active: True
    have send: "\<exists>out. SyncSendAlarmNotifyEvents e a (upd_alarm a (\<lambda>al. al\<lparr>al_state := st\<rparr>) s) =
        Some (s\<lparr>alarms := (alarms s)(a \<mapsto> al\<lparr>al_state := st\<rparr>), sync_time := sync_tick e (sync_time s), sync_out := out\<rparr>)" for st
      using al ob by (auto simp: send_alarm_events upd_alarm_def)
    show ?thesis
    proof (cases "?d = 0 \<and> comparison ?tr")
      case True
      obtain out where out: "SyncSendAlarmNotifyEvents e a (upd_alarm a (\<lambda>al. al\<lparr>al_state := XSyncAlarmInactive\<rparr>) s) =
        Some (s\<lparr>alarms := (alarms s)(a \<mapsto> al\<lparr>al_state := XSyncAlarmInactive\<rparr>), sync_time := sync_tick e (sync_time s), sync_out := out\<rparr>)"
        using send by blast
      then have "SyncAlarmTriggerFired e a s =
          Some (set_trig (AlarmTrigger a) (\<lambda>tr. tr\<lparr>test_value := test_value ?tr\<rparr>)
            (s\<lparr>alarms := (alarms s)(a \<mapsto> al\<lparr>al_state := XSyncAlarmInactive\<rparr>), sync_time := sync_tick e (sync_time s), sync_out := out\<rparr>))"
        using True active al ob by (simp add: SyncAlarmTriggerFired_def Let_def comparison_def)
      moreover have "alarm_fired a s (set_trig (AlarmTrigger a) (\<lambda>tr. tr\<lparr>test_value := test_value ?tr\<rparr>)
            (s\<lparr>alarms := (alarms s)(a \<mapsto> al\<lparr>al_state := XSyncAlarmInactive\<rparr>), sync_time := sync_tick e (sync_time s), sync_out := out\<rparr>))"
        by (rule alarm_firedI [OF al(1), where st = XSyncAlarmInactive and t' = "test_value ?tr"])
          (use True active in \<open>simp_all add: alarm_at_def alarm_result_def\<close>)
      ultimately show ?thesis by blast
    next
      case False
      obtain ovf t' where adv: "alarm_advance (\<lambda>t. SyncCheckTrigger s (?tr\<lparr>test_value := t\<rparr>) (counter_value ob)) ?d (test_value ?tr) = Some (ovf, t')"
        using matching_advance_returns [OF al(2,3) ob False] by fastforce
      define st where "st = (if ovf then XSyncAlarmInactive else XSyncAlarmActive)"
      obtain out where out: "SyncSendAlarmNotifyEvents e a (upd_alarm a (\<lambda>al. al\<lparr>al_state := st\<rparr>) s) =
        Some (s\<lparr>alarms := (alarms s)(a \<mapsto> al\<lparr>al_state := st\<rparr>), sync_time := sync_tick e (sync_time s), sync_out := out\<rparr>)"
        using send by blast
      have once: "(st, if ovf then test_value ?tr else t') = one_addition al" if "\<not> comparison ?tr"
        using that transition_advance [OF al(2,3) ob that, of ?d "test_value ?tr"] adv
        by (auto simp: one_addition_def Let_def st_def)
      have "\<not> ovf \<Longrightarrow> SyncCheckTrigger s (?tr\<lparr>test_value := t'\<rparr>) (counter_value ob) = Some False"
        using advance_result [OF adv] by simp
      then have "\<not> ovf \<Longrightarrow> comparison ?tr \<Longrightarrow> \<forall>v. SyncCheckTrigger s (?tr\<lparr>test_value := t'\<rparr>) v = Some False"
        using comparison_check_any [OF _ al(2)] by metis
      moreover have "SyncAlarmTriggerFired e a s =
          Some (set_trig (AlarmTrigger a) (\<lambda>tr. tr\<lparr>test_value := (if ovf then test_value ?tr else t')\<rparr>)
            (s\<lparr>alarms := (alarms s)(a \<mapsto> al\<lparr>al_state := st\<rparr>), sync_time := sync_tick e (sync_time s), sync_out := out\<rparr>))"
        using out False active al ob adv by (cases ovf) (auto simp: SyncAlarmTriggerFired_def Let_def comparison_def st_def)
      moreover have "alarm_fired a s (set_trig (AlarmTrigger a) (\<lambda>tr. tr\<lparr>test_value := (if ovf then test_value ?tr else t')\<rparr>)
            (s\<lparr>alarms := (alarms s)(a \<mapsto> al\<lparr>al_state := st\<rparr>), sync_time := sync_tick e (sync_time s), sync_out := out\<rparr>))"
        by (rule alarm_firedI [OF al(1), where st = st and t' = "if ovf then test_value ?tr else t'"])
          (use calculation(1) once active in \<open>auto simp: st_def alarm_at_def alarm_result_def\<close>)
      ultimately show ?thesis by blast
    qed
  qed
qed

lemma alarm_fired_trig:
  assumes "alarm_fired a s s'" "trig_of s' t = Some tr'"
  shows "\<exists>tr. trig_of s t = Some tr \<and> tr_pSync tr' = tr_pSync tr \<and> CheckTrigger tr' = CheckTrigger tr \<and> test_type tr' = test_type tr"
  using assms by (cases t) (auto simp: alarm_fired_def alarm_at_def split: if_splits)

lemma alarm_fired_trigger_on: "alarm_fired a s s' \<Longrightarrow> trigger_on s' t x \<longleftrightarrow> trigger_on s t x"
  by (cases t) (auto simp: alarm_fired_def alarm_at_def trigger_on_def split: if_splits)

lemma sync_inv_alarm_fired:
  assumes f: "alarm_fired a s s'" and inv: "sync_inv D T s"
  shows "sync_inv D T s'"
proof
  fix x ob assume "objects s' x = Some ob"
  then have "obj_ok D s x ob" using sync_invD(1) [OF inv] f by (simp add: alarm_fired_def)
  then show "obj_ok D s' x ob" by (simp add: obj_ok_def alarm_fired_trigger_on [OF f])
next
  fix t tr' x assume tr': "trig_of s' t = Some tr'" "tr_pSync tr' = Some x"
  obtain tr where tr: "trig_of s t = Some tr" "tr_pSync tr = Some x" "CheckTrigger tr' = CheckTrigger tr"
    using alarm_fired_trig [OF f tr'(1)] tr'(2) by auto
  have "trig_ok T s t tr x" using sync_invD(2) [OF inv tr(1,2)] .
  then show "trig_ok T s' t tr' x" using tr(3) f by (simp add: trig_ok_def alarm_fired_def)
next
  fix w u assume "awaits s' w = Some u"
  then show "await_ok u" using sync_invD(3) [OF inv] f by (simp add: alarm_fired_def)
qed

lemma matches_test_value [simp]:
  "check_matches (tr\<lparr>test_value := t\<rparr>) = check_matches tr" "comparison (tr\<lparr>test_value := t\<rparr>) = comparison tr"
  by (simp_all add: check_matches_def comparison_def)

lemma alarms_ok_alarm_fired: "alarm_fired a s s' \<Longrightarrow> alarms_ok s \<Longrightarrow> alarms_ok s'"
  by (auto simp: alarm_fired_def alarms_ok_def alarm_at_def split: if_splits)

subsection \<open>A walk that may lose its place\<close>

lemma next_node_append: "n \<notin> set pre \<Longrightarrow> next_node n (pre @ n # rest) = first_node rest"
  by (induction pre) (auto simp: first_node_def split: list.splits)

lemma square_decreases: "L' < L \<Longrightarrow> k \<le> L' \<Longrightarrow> L' * L' + k < L * L + (j :: nat)"
proof -
  assume "L' < L" "k \<le> L'"
  then have "L' * L' + k \<le> L' * L" by (metis Suc_leI add_le_cancel_left add.commute mult_Suc_right mult_le_mono2 order_trans)
  also have "\<dots> < L * L" using \<open>L' < L\<close> by simp
  finally show ?thesis by simp
qed

text \<open>The interface of the walk over a list whose nodes may be taken away by what the walk runs: firing a node keeps the list, or removes
  nodes, the fired one among them; nodes that are quiet stay quiet, a node that does not hold is quiet, and a fired node that stays is
  quiet. The walk itself goes on with the successor read before firing, or at the head if that is gone.\<close>

locale restarting_walk =
  fixes nodes :: "'s \<Rightarrow> 'n list" and inv :: "'s \<Rightarrow> bool" and holds :: "'n \<Rightarrow> 's \<Rightarrow> bool" and fire :: "'n \<Rightarrow> 's \<Rightarrow> 's option"
    and still :: "'n \<Rightarrow> 's \<Rightarrow> bool" and progress :: "'s \<Rightarrow> 's \<Rightarrow> bool" and walk :: "'n option \<Rightarrow> 's \<Rightarrow> 's option"
  assumes nodes_distinct: "inv s \<Longrightarrow> distinct (nodes s)"
    and fire_returns: "inv s \<Longrightarrow> n \<in> set (nodes s) \<Longrightarrow> holds n s \<Longrightarrow>
      \<exists>s'. fire n s = Some s' \<and> inv s' \<and> progress s s' \<and> (nodes s' = nodes s \<and> still n s' \<or> (\<exists>P. nodes s' = filter P (nodes s) \<and> \<not> P n))
        \<and> (\<forall>m \<in> set (nodes s'). still m s \<longrightarrow> still m s')"
    and still_unless: "inv s \<Longrightarrow> n \<in> set (nodes s) \<Longrightarrow> \<not> holds n s \<Longrightarrow> still n s"
    and progress_refl: "progress s s"
    and progress_trans: "progress s s' \<Longrightarrow> progress s' s'' \<Longrightarrow> progress s s''"
    and walk_end: "walk None s = Some s"
    and walk_step: "inv s \<Longrightarrow> n \<in> set (nodes s) \<Longrightarrow> walk (Some n) s =
      (if holds n s then Option.bind (fire n s) (\<lambda>s1. Option.bind (resume_node (next_node n (nodes s)) (\<lambda>s. Some (nodes s)) s1) (\<lambda>p. walk p s1))
       else walk (next_node n (nodes s)) s)"
begin

definition walked :: "'s \<Rightarrow> 's \<Rightarrow> bool" where
  "walked s s' \<longleftrightarrow> inv s' \<and> progress s s' \<and> (\<forall>m \<in> set (nodes s'). still m s')"

lemma walked_after: "progress s s1 \<Longrightarrow> walked s1 s' \<Longrightarrow> walked s s'"
  unfolding walked_def using progress_trans by blast

text \<open>Where the walk goes on after a fired node: the nodes before are quiet, and there is less to do.\<close>

lemma resume_point:
  assumes nodes: "nodes s = pre @ n # rest" and pre: "\<forall>m \<in> set pre. still m s"
    and s1: "nodes s1 = nodes s \<and> still n s1 \<or> (\<exists>P. nodes s1 = filter P (nodes s) \<and> \<not> P n)"
      "\<forall>m \<in> set (nodes s1). still m s \<longrightarrow> still m s1"
  shows "\<exists>pre1 suf1. resume_node (first_node rest) (\<lambda>s. Some (nodes s)) s1 = Some (first_node suf1) \<and> nodes s1 = pre1 @ suf1
    \<and> (\<forall>m \<in> set pre1. still m s1)
    \<and> length (nodes s1) * length (nodes s1) + length suf1 < length (nodes s) * length (nodes s) + length (n # rest)"
  using s1(1)
proof (elim disjE exE conjE)
  assume same: "nodes s1 = nodes s" "still n s1"
  have "resume_node (first_node rest) (\<lambda>s. Some (nodes s)) s1 = Some (first_node rest)"
    using same(1) nodes by (cases rest) (auto simp: resume_node_def first_node_def)
  moreover have "\<forall>m \<in> set (pre @ [n]). still m s1" using same s1(2) pre nodes by auto
  ultimately show ?thesis using same(1) nodes by (intro exI [of _ "pre @ [n]"] exI [of _ rest]) simp
next
  fix P assume P: "nodes s1 = filter P (nodes s)" "\<not> P n"
  have shorter: "length (nodes s1) < length (nodes s)" using P nodes by (simp add: le_imp_less_Suc add_mono)
  have dec: "length (nodes s1) * length (nodes s1) + length suf1 < length (nodes s) * length (nodes s) + length (n # rest)"
    if "length suf1 \<le> length (nodes s1)" for suf1 :: "'n list" using square_decreases [OF shorter that] .
  have old: "\<forall>m \<in> set (filter P pre). still m s1" using s1(2) pre P(1) nodes by auto
  show ?thesis
  proof (cases "rest \<noteq> [] \<and> \<not> P (hd rest)")
    case True
    then have "hd rest \<notin> set (nodes s1)" using P(1) by auto
    then have "resume_node (first_node rest) (\<lambda>s. Some (nodes s)) s1 = Some (first_node (nodes s1))"
      using True by (cases rest) (auto simp: resume_node_def first_node_def)
    then show ?thesis using dec by (intro exI [of _ "[]"] exI [of _ "nodes s1"]) simp
  next
    case False
    then have "resume_node (first_node rest) (\<lambda>s. Some (nodes s)) s1 = Some (first_node (filter P rest))"
      using P nodes by (cases rest) (auto simp: resume_node_def first_node_def)
    moreover have "nodes s1 = filter P pre @ filter P rest" using P nodes by simp
    ultimately show ?thesis using dec old by (intro exI [of _ "filter P pre"] exI [of _ "filter P rest"]) simp
  qed
qed

lemma walk_visits:
  assumes "inv s" "nodes s = pre @ suf" "\<forall>m \<in> set pre. still m s"
  shows "\<exists>s'. walk (first_node suf) s = Some s' \<and> walked s s'"
  using assms
proof (induction "length (nodes s) * length (nodes s) + length suf" arbitrary: s pre suf rule: less_induct)
  case less
  note inv = less.prems(1) and nodes = less.prems(2) and pre = less.prems(3)
  show ?case
  proof (cases suf)
    case Nil
    then show ?thesis using inv nodes pre progress_refl by (simp add: first_node_def walk_end walked_def)
  next
    case (Cons n rest)
    have mem: "n \<in> set (nodes s)" and fresh: "n \<notin> set pre" using nodes Cons nodes_distinct [OF inv] by auto
    have nodes': "nodes s = pre @ n # rest" using nodes Cons by simp
    have fn: "first_node suf = Some n" by (simp add: Cons first_node_def)
    have next_n: "next_node n (nodes s) = first_node rest" using nodes' fresh by (simp add: next_node_append)
    show ?thesis
    proof (cases "holds n s")
      case False
      have "\<forall>m \<in> set (pre @ [n]). still m s" using pre still_unless [OF inv mem False] by simp
      then show ?thesis
        using less.hyps [of s rest "pre @ [n]"] inv nodes' Cons False walk_step [OF inv mem] unfolding fn next_n by auto
    next
      case True
      obtain s1 where s1: "fire n s = Some s1" "inv s1" "progress s s1"
        "nodes s1 = nodes s \<and> still n s1 \<or> (\<exists>P. nodes s1 = filter P (nodes s) \<and> \<not> P n)"
        "\<forall>m \<in> set (nodes s1). still m s \<longrightarrow> still m s1" using fire_returns [OF inv mem True] by blast
      obtain pre1 suf1 where r: "resume_node (first_node rest) (\<lambda>s. Some (nodes s)) s1 = Some (first_node suf1)"
        "nodes s1 = pre1 @ suf1" "\<forall>m \<in> set pre1. still m s1"
        "length (nodes s1) * length (nodes s1) + length suf1 < length (nodes s) * length (nodes s) + length suf"
        using resume_point [OF nodes' pre s1(4,5)] Cons by auto
      from less.hyps [OF r(4) s1(2) r(2,3)] obtain s' where "walk (first_node suf1) s1 = Some s'" "walked s1 s'" by blast
      then show ?thesis
        using True s1(1) r(1) walked_after [OF s1(3)] walk_step [OF inv mem] unfolding fn next_n by auto
    qed
  qed
qed

end

subsection \<open>Changing a counter\<close>

text \<open>One firing of an alarm of counter \<open>x\<close> while its value goes from \<open>oldval\<close> to \<open>v\<close>: it must be active and hold.\<close>

definition holds_on :: "xid \<Rightarrow> int64 \<Rightarrow> int64 \<Rightarrow> SyncAlarm \<Rightarrow> bool" where
  "holds_on x oldval v al \<longleftrightarrow> tr_pSync (al_trigger al) = Some x \<and> al_state al = XSyncAlarmActive
     \<and> counter_test (CheckTrigger (al_trigger al)) (test_value (al_trigger al)) oldval v"

inductive alarm_step :: "xid \<Rightarrow> int64 \<Rightarrow> int64 \<Rightarrow> SyncAlarm option \<Rightarrow> SyncAlarm option \<Rightarrow> bool" for x oldval v where
  fires: "holds_on x oldval v al \<Longrightarrow> alarm_result (\<lambda>t. counter_test (CheckTrigger (al_trigger al)) t oldval v) al st t'
    \<Longrightarrow> alarm_step x oldval v (Some al) (Some (alarm_at st t' al))"

text \<open>A trigger that has nothing more to do when the value has gone from \<open>oldval\<close> to \<open>v\<close>, seen from the state \<open>s0\<close> before its triggers
  were run: it does not hold, or it belongs to an alarm that is not active, or to one that tests a transition and has been
  fired at least once (such an alarm may still hold).\<close>

definition quiet :: "sync_state \<Rightarrow> sync_state \<Rightarrow> xid \<Rightarrow> int64 \<Rightarrow> int64 \<Rightarrow> trigger_ref \<Rightarrow> bool" where
  "quiet s0 s x oldval v t =
     (case t of
        AlarmTrigger a \<Rightarrow> (\<forall>al. alarms s a = Some al \<longrightarrow> al_state al = XSyncAlarmActive \<longrightarrow>
          \<not> counter_test (CheckTrigger (al_trigger al)) (test_value (al_trigger al)) oldval v \<or>
          \<not> comparison (al_trigger al) \<and> (alarm_step x oldval v)\<^sup>+\<^sup>+ (alarms s0 a) (alarms s a))
      | _ \<Rightarrow> (\<forall>tr. trig_of s t = Some tr \<longrightarrow> \<not> counter_test (CheckTrigger tr) (test_value tr) oldval v))"

lemma check_on_counter:
  assumes "tr_pSync tr = Some x" "objects s x = Some ob" "is_counter ob" "\<not> fence_check (CheckTrigger tr)"
  shows "SyncCheckTrigger s tr oldval = Some (counter_test (CheckTrigger tr) (test_value tr) oldval (counter_value ob))"
  using assms by (auto simp: SyncCheckTrigger_def is_counter_def counter_value_def fence_check_def split: sync_body.splits)

lemma quiet_same_trigger:
  assumes "quiet s0 s x oldval v t" "trig_of s' t = trig_of s t" "case t of AlarmTrigger a \<Rightarrow> alarms s' a = alarms s a | _ \<Rightarrow> True"
  shows "quiet s0 s' x oldval v t"
  using assms by (cases t) (simp_all add: quiet_def)

lemma comparison_test:
  "comparison tr \<Longrightarrow> check_matches tr \<Longrightarrow> counter_test (CheckTrigger tr) t oldval v = counter_test (CheckTrigger tr) t w v"
  by (auto simp: comparison_def check_matches_def counter_test_def sync_types)

text \<open>The effect of a trigger on the counter whose list it is in.\<close>

definition fired_on :: "xid \<Rightarrow> trigger_ref \<Rightarrow> SyncObject \<Rightarrow> SyncObject \<Rightarrow> sync_state \<Rightarrow> sync_state \<Rightarrow> bool" where
  "fired_on x t ob ob' s s' \<longleftrightarrow> is_counter ob' \<and> counter_value ob' = counter_value ob \<and> IsSystemCounter ob' = IsSystemCounter ob
     \<and> (\<forall>u. Some u \<in> set (pTriglist ob') \<longrightarrow> u \<noteq> t \<longrightarrow> trig_of s' u = trig_of s u)
     \<and> (case t of
          AlarmTrigger a \<Rightarrow> pTriglist ob' = pTriglist ob \<and> awaits s' = awaits s \<and>
            (\<exists>al st t'. alarms s a = Some al \<and> tr_pSync (al_trigger al) = Some x \<and> check_matches (al_trigger al) \<and>
               alarms s' = (alarms s)(a \<mapsto> alarm_at st t' al) \<and>
               (\<forall>oldval. alarm_result (\<lambda>t. counter_test (CheckTrigger (al_trigger al)) t oldval (counter_value ob)) al st t'))
        | AwaitTrigger w i \<Rightarrow> pTriglist ob' = filter (\<lambda>n. n \<notin> Some ` range (AwaitTrigger w)) (pTriglist ob)
            \<and> awaits s' = (awaits s)(w := None) \<and> alarms s' = alarms s
        | PresentTrigger p \<Rightarrow> False)"

lemma fire_alarm_on:
  assumes inv: "sync_inv {} {} s" and ok: "alarms_ok s" and ob: "objects s x = Some ob" "is_counter ob"
    and t: "Some (AlarmTrigger a) \<in> set (pTriglist ob)"
  shows "\<exists>s'. SyncAlarmTriggerFired e a s = Some s' \<and> sync_inv {} {} s' \<and> alarms_ok s' \<and> objects s' x = Some ob
    \<and> fired_on x (AlarmTrigger a) ob ob s s'"
proof -
  have "trigger_on s (AlarmTrigger a) x" using sync_invD(1) [OF inv ob(1)] t by (simp add: obj_ok_def)
  then obtain al where al: "alarms s a = Some al" "tr_pSync (al_trigger al) = Some x" by (auto simp: trigger_on_def)
  have m: "check_matches (al_trigger al)" using ok al(1) by (simp add: alarms_ok_def)
  obtain s' where s': "SyncAlarmTriggerFired e a s = Some s'" "alarm_fired a s s'"
    using alarm_fired_ok [OF inv al(1) m al(2)] by blast
  obtain st t' where al': "alarms s' = (alarms s)(a \<mapsto> alarm_at st t' al)"
    "\<forall>v. alarm_result (\<lambda>t. SyncCheckTrigger s ((al_trigger al)\<lparr>test_value := t\<rparr>) v \<noteq> Some False) al st t'"
    using s'(2) al(1) by (auto simp: alarm_fired_def)
  have "SyncCheckTrigger s ((al_trigger al)\<lparr>test_value := t\<rparr>) oldval =
      Some (counter_test (CheckTrigger (al_trigger al)) t oldval (counter_value ob))" for t oldval
    using check_on_counter [of "(al_trigger al)\<lparr>test_value := t\<rparr>" x s ob oldval] al(2) ob m by (auto simp: check_matches_def)
  then have "\<forall>oldval. alarm_result (\<lambda>t. counter_test (CheckTrigger (al_trigger al)) t oldval (counter_value ob)) al st t'"
    using al'(2) by simp
  moreover have "trig_of s' u = trig_of s u" if "u \<noteq> AlarmTrigger a" for u
    using that s'(2) by (cases u) (auto simp: alarm_fired_def)
  moreover have "objects s' x = Some ob" "awaits s' = awaits s" using s'(2) ob(1) by (simp_all add: alarm_fired_def)
  ultimately have "fired_on x (AlarmTrigger a) ob ob s s'" using ob(2) al m al'(1) unfolding fired_on_def by auto
  then show ?thesis
    using s' sync_inv_alarm_fired [OF s'(2) inv] alarms_ok_alarm_fired [OF s'(2) ok] ob(1) by (auto simp: alarm_fired_def)
qed

lemma fire_await_on:
  assumes inv: "sync_inv {} {} s" and ok: "alarms_ok s" and ob: "objects s x = Some ob" "is_counter ob"
    and t: "Some (AwaitTrigger w i) \<in> set (pTriglist ob)"
  shows "\<exists>s' ob'. SyncAwaitTriggerFired e w s = Some s' \<and> sync_inv {} {} s' \<and> alarms_ok s' \<and> objects s' x = Some ob'
    \<and> fired_on x (AwaitTrigger w i) ob ob' s s'"
proof -
  have "trigger_on s (AwaitTrigger w i) x" using sync_invD(1) [OF inv ob(1)] t by (simp add: obj_ok_def)
  then obtain u where u: "awaits s w = Some u" by (auto simp: trigger_on_def split: option.splits)
  obtain s' where s': "SyncAwaitTriggerFired e w s = Some s'" "same_view (free_await {} w s) s'"
    using await_fired_ok [OF inv u] by blast
  let ?ob = "ob\<lparr>pTriglist := filter (\<lambda>n. n \<notin> Some ` range (AwaitTrigger w)) (pTriglist ob)\<rparr>"
  have fa: "objects (free_await {} w s) x = Some ?ob"
    using ob by (simp add: free_await_def drop_triggers_def drop_nodes_def)
  obtain ob' where ob': "objects s' x = Some ob'" "obj_view ob' = obj_view ?ob" using same_view_object [OF s'(2) fa] .
  note f = obj_view_fields [OF ob'(2)]
  have "trig_of s' z = trig_of s z" if z: "Some z \<in> set (pTriglist ob')" for z
  proof -
    have "z \<notin> range (AwaitTrigger w)" using z f(2) by auto
    then show "trig_of s' z = trig_of s z" by (simp add: same_view_trig_of [OF s'(2)] trig_of_free_await)
  qed
  moreover have "alarms s' = alarms s" using s'(2) by (simp add: same_view_def free_await_def drop_triggers_def)
  moreover have "awaits s' = (awaits s)(w := None)" using s'(2) by (simp add: same_view_def free_await_def)
  ultimately have "fired_on x (AwaitTrigger w i) ob ob' s s'"
    using ob(2) f(2,5,6,7) by (simp add: fired_on_def counter_value_def is_counter_def IsSystemCounter_def)
  moreover have "sync_inv {} {} s'"
    using sync_inv_view [OF s'(2) sync_inv_free_await [OF inv]] by simp
  moreover have "alarms_ok s'" using ok s'(2) by (simp add: alarms_ok_def same_view_def free_await_def drop_triggers_def)
  ultimately show ?thesis using s'(1) ob'(1) by blast
qed

lemma fire_on:
  assumes "sync_inv {} {} s" "alarms_ok s" "objects s x = Some ob" "is_counter ob" "Some t \<in> set (pTriglist ob)"
  shows "\<exists>s' ob'. TriggerFired e t s = Some s' \<and> sync_inv {} {} s' \<and> alarms_ok s' \<and> objects s' x = Some ob' \<and> fired_on x t ob ob' s s'"
proof (cases t)
  case (AlarmTrigger a)
  then show ?thesis using fire_alarm_on [OF assms(1-4)] assms(5) by fastforce
next
  case (AwaitTrigger w i)
  then show ?thesis using fire_await_on [OF assms(1-4)] assms(5) by fastforce
next
  case (PresentTrigger p)
  have "trigger_on s t x" using sync_invD(1) [OF assms(1,3)] assms(5) by (simp add: obj_ok_def)
  then obtain tr where tr: "trig_of s t = Some tr" "tr_pSync tr = Some x" by (auto simp: trigger_on_def)
  then have "fence_check (CheckTrigger tr)" using PresentTrigger by (auto simp: present_trigger_def)
  then show ?thesis using sync_invD(2) [OF assms(1) tr] assms(3,4) by (simp add: trig_ok_def)
qed

text \<open>An await one of whose triggers is on the counter and holds.\<close>

definition released :: "sync_state \<Rightarrow> xid \<Rightarrow> int64 \<Rightarrow> int64 \<Rightarrow> xid \<Rightarrow> bool" where
  "released s x oldval v w \<longleftrightarrow> (\<exists>i tr. trig_of s (AwaitTrigger w i) = Some tr \<and> tr_pSync tr = Some x
     \<and> counter_test (CheckTrigger tr) (test_value tr) oldval v)"

text \<open>What the walk keeps: the counter with its value, and that the alarms come from those of the state it started in by firings.\<close>

definition walk_inv :: "sync_state \<Rightarrow> xid \<Rightarrow> int64 \<Rightarrow> int64 \<Rightarrow> sync_state \<Rightarrow> bool" where
  "walk_inv s0 x oldval v s \<longleftrightarrow> sync_inv {} {} s \<and> alarms_ok s \<and> (\<exists>ob. objects s x = Some ob \<and> is_counter ob \<and> counter_value ob = v)
     \<and> (\<forall>a. (alarm_step x oldval v)\<^sup>*\<^sup>* (alarms s0 a) (alarms s a))"

definition walk_nodes :: "xid \<Rightarrow> sync_state \<Rightarrow> trigger_ref option list" where
  "walk_nodes x s = (case objects s x of None \<Rightarrow> [] | Some ob \<Rightarrow> pTriglist ob)"

definition node_holds :: "int64 \<Rightarrow> trigger_ref option \<Rightarrow> sync_state \<Rightarrow> bool" where
  "node_holds oldval n s \<longleftrightarrow> Option.bind n (\<lambda>t. Option.bind (trig_of s t) (\<lambda>tr. SyncCheckTrigger s tr oldval)) = Some True"

definition node_fire :: "sync_env \<Rightarrow> trigger_ref option \<Rightarrow> sync_state \<Rightarrow> sync_state option" where
  "node_fire e n s = Option.bind n (\<lambda>t. TriggerFired e t s)"

definition node_still :: "sync_state \<Rightarrow> xid \<Rightarrow> int64 \<Rightarrow> int64 \<Rightarrow> trigger_ref option \<Rightarrow> sync_state \<Rightarrow> bool" where
  "node_still s0 x oldval v n s \<longleftrightarrow> (\<forall>t. n = Some t \<longrightarrow> quiet s0 s x oldval v t)"

definition walk_progress :: "xid \<Rightarrow> int64 \<Rightarrow> int64 \<Rightarrow> sync_state \<Rightarrow> sync_state \<Rightarrow> bool" where
  "walk_progress x oldval v s s' \<longleftrightarrow> (\<forall>w. awaits s' w = awaits s w \<or> awaits s' w = None \<and> released s x oldval v w)
     \<and> map_option IsSystemCounter (objects s' x) = map_option IsSystemCounter (objects s x)"

lemma walk_progress_trans:
  assumes "walk_progress x oldval v s s'" "walk_progress x oldval v s' s''"
  shows "walk_progress x oldval v s s''"
proof -
  have "trig_of s' (AwaitTrigger w i) = Some tr \<Longrightarrow> trig_of s (AwaitTrigger w i) = Some tr" for w i tr
    using assms(1) unfolding walk_progress_def by (elim conjE allE [of _ w] disjE) simp_all
  then have "released s' x oldval v w \<Longrightarrow> released s x oldval v w" for w unfolding released_def by blast
  then show ?thesis using assms unfolding walk_progress_def by metis
qed

text \<open>The node of a trigger on the counter, and what its test says.\<close>

lemma walk_node:
  assumes "walk_inv s0 x oldval v s" "n \<in> set (walk_nodes x s)"
  shows "\<exists>t tr ob. n = Some t \<and> objects s x = Some ob \<and> Some t \<in> set (pTriglist ob) \<and> trig_of s t = Some tr \<and> tr_pSync tr = Some x
    \<and> SyncCheckTrigger s tr oldval = Some (counter_test (CheckTrigger tr) (test_value tr) oldval v)"
proof -
  obtain ob where inv: "sync_inv {} {} s" and ob: "objects s x = Some ob" "is_counter ob" "counter_value ob = v"
    using assms(1) by (auto simp: walk_inv_def)
  have ok: "obj_ok {} s x ob" using sync_invD(1) [OF inv ob(1)] .
  have n: "n \<in> set (pTriglist ob)" using assms(2) ob(1) by (simp add: walk_nodes_def)
  moreover have "None \<notin> set (pTriglist ob)" using ok by (simp add: obj_ok_def)
  ultimately have "n \<noteq> None" by metis
  then obtain t where t: "n = Some t" by blast
  then obtain tr where tr: "trig_of s t = Some tr" "tr_pSync tr = Some x" using ok n by (auto simp: obj_ok_def trigger_on_def)
  have "\<not> fence_check (CheckTrigger tr)" using sync_invD(2) [OF inv tr] ob by (auto simp: trig_ok_def)
  then show ?thesis using check_on_counter [OF tr(2) ob(1,2)] ob t n tr by auto
qed

text \<open>A trigger that holds and is fired: the alarms make a step, the others stay quiet.\<close>

lemma fired_on_alarms:
  assumes f: "fired_on x t ob ob' s s'" and v: "counter_value ob = v"
    and tr: "trig_of s t = Some tr" "counter_test (CheckTrigger tr) (test_value tr) oldval v"
  shows "(alarm_step x oldval v)\<^sup>*\<^sup>* (alarms s a) (alarms s' a)"
proof (cases "t = AlarmTrigger a")
  case True
  then obtain al st t' where al: "alarms s a = Some al" "tr_pSync (al_trigger al) = Some x" "alarms s' a = Some (alarm_at st t' al)"
    "alarm_result (\<lambda>t. counter_test (CheckTrigger (al_trigger al)) t oldval v) al st t'"
    using f v by (auto simp: fired_on_def)
  show ?thesis
  proof (cases "al_state al = XSyncAlarmActive")
    case True
    then have "holds_on x oldval v al" using al(1,2) tr \<open>t = _\<close> by (simp add: holds_on_def)
    from alarm_step.fires [OF this al(4)] show ?thesis using al(1,3) by auto
  next
    case False
    then show ?thesis using al(1,3,4) by (simp add: alarm_result_def alarm_at_def)
  qed
next
  case False
  then have "alarms s' a = alarms s a" using f by (cases t) (auto simp: fired_on_def)
  then show ?thesis by simp
qed

lemma fired_on_quiet:
  assumes f: "fired_on x t ob ob' s s'" and v: "counter_value ob = v"
    and tr: "trig_of s t = Some tr" "counter_test (CheckTrigger tr) (test_value tr) oldval v"
    and start: "\<forall>a. (alarm_step x oldval v)\<^sup>*\<^sup>* (alarms s0 a) (alarms s a)" and t: "t = AlarmTrigger a"
  shows "quiet s0 s' x oldval v t"
proof -
  obtain al st t' where al: "alarms s a = Some al" "tr_pSync (al_trigger al) = Some x" "alarms s' a = Some (alarm_at st t' al)"
    "alarm_result (\<lambda>t. counter_test (CheckTrigger (al_trigger al)) t oldval v) al st t'" using f v t by (auto simp: fired_on_def)
  have "(alarm_step x oldval v)\<^sup>+\<^sup>+ (alarms s0 a) (alarms s' a)" if "al_state al = XSyncAlarmActive"
  proof -
    have "holds_on x oldval v al" using that al(1,2) tr t by (simp add: holds_on_def)
    from alarm_step.fires [OF this al(4)] have "alarm_step x oldval v (alarms s a) (alarms s' a)" using al(1,3) by simp
    then show ?thesis using start rtranclp_into_tranclp1 by metis
  qed
  then show ?thesis using al(3,4) t by (auto simp: quiet_def alarm_result_def alarm_at_def split: if_splits)
qed

lemma fired_on_walk:
  assumes f: "fired_on x t ob ob' s s'" and ob: "objects s x = Some ob" "objects s' x = Some ob'" and v: "counter_value ob = v"
    and mem: "Some t \<in> set (pTriglist ob)" and tr: "trig_of s t = Some tr" "tr_pSync tr = Some x" "counter_test (CheckTrigger tr) (test_value tr) oldval v"
    and start: "\<forall>a. (alarm_step x oldval v)\<^sup>*\<^sup>* (alarms s0 a) (alarms s a)"
  shows "walk_progress x oldval v s s'"
    and "walk_nodes x s' = walk_nodes x s \<and> node_still s0 x oldval v (Some t) s' \<or> (\<exists>P. walk_nodes x s' = filter P (walk_nodes x s) \<and> \<not> P (Some t))"
    and "\<forall>m \<in> set (walk_nodes x s'). node_still s0 x oldval v m s \<longrightarrow> node_still s0 x oldval v m s'"
proof -
  have "awaits s' w = awaits s w \<or> awaits s' w = None \<and> released s x oldval v w" for w
    using f tr by (cases t) (auto simp: fired_on_def released_def)
  then show "walk_progress x oldval v s s'" using f ob by (simp add: walk_progress_def fired_on_def)
  have other: "quiet s0 s' x oldval v u" if u: "Some u \<in> set (pTriglist ob')" "quiet s0 s x oldval v u" "u \<noteq> t" for u
  proof (rule quiet_same_trigger [OF u(2)])
    show "trig_of s' u = trig_of s u" using f u(1,3) by (simp add: fired_on_def)
    show "case u of AlarmTrigger a \<Rightarrow> alarms s' a = alarms s a | _ \<Rightarrow> True"
      using f u(3) by (cases u; cases t) (auto simp: fired_on_def)
  qed
  have gone: "Some t \<notin> set (pTriglist ob')" if "\<nexists>a. t = AlarmTrigger a"
    using that f by (cases t) (auto simp: fired_on_def)
  have "quiet s0 s' x oldval v u" if "Some u \<in> set (pTriglist ob')" "quiet s0 s x oldval v u \<or> u = t" for u
    using that other gone fired_on_quiet [OF f v tr(1,3) start] by metis
  note still = this
  then show "\<forall>m \<in> set (walk_nodes x s'). node_still s0 x oldval v m s \<longrightarrow> node_still s0 x oldval v m s'"
    using ob by (auto simp: walk_nodes_def node_still_def)
  show "walk_nodes x s' = walk_nodes x s \<and> node_still s0 x oldval v (Some t) s' \<or> (\<exists>P. walk_nodes x s' = filter P (walk_nodes x s) \<and> \<not> P (Some t))"
  proof (cases t)
    case (AlarmTrigger a)
    have "walk_nodes x s' = walk_nodes x s" using f ob AlarmTrigger by (simp add: walk_nodes_def fired_on_def)
    moreover have "node_still s0 x oldval v (Some t) s'"
      using still mem f AlarmTrigger by (simp add: node_still_def fired_on_def)
    ultimately show ?thesis by blast
  next
    case (AwaitTrigger w i)
    then show ?thesis using f ob
      by (intro disjI2 exI [of _ "\<lambda>n. n \<notin> Some ` range (AwaitTrigger w)"]) (auto simp: walk_nodes_def fired_on_def)
  next
    case (PresentTrigger p)
    then show ?thesis using f by (simp add: fired_on_def)
  qed
qed

subsection \<open>The walk of a counter\<close>

lemma distinct_nodes: "distinct (node_trigs ns) \<Longrightarrow> None \<notin> set ns \<Longrightarrow> distinct ns"
proof (induction ns)
  case (Cons n ns)
  then show ?case by (cases n) (auto simp: set_node_trigs)
qed simp

lemma counter_walk_distinct: "walk_inv s0 x oldval v s \<Longrightarrow> distinct (walk_nodes x s)"
proof -
  assume inv: "walk_inv s0 x oldval v s"
  then obtain ob where ob: "objects s x = Some ob" "sync_inv {} {} s" by (auto simp: walk_inv_def)
  have "obj_ok {} s x ob" using sync_invD(1) [OF ob(2,1)] .
  then show ?thesis using ob(1) by (simp add: obj_ok_def walk_nodes_def distinct_nodes)
qed

lemma counter_walk_fire:
  assumes inv: "walk_inv s0 x oldval v s" and n: "n \<in> set (walk_nodes x s)" and h: "node_holds oldval n s"
  shows "\<exists>s'. node_fire e n s = Some s' \<and> walk_inv s0 x oldval v s' \<and> walk_progress x oldval v s s'
    \<and> (walk_nodes x s' = walk_nodes x s \<and> node_still s0 x oldval v n s' \<or> (\<exists>P. walk_nodes x s' = filter P (walk_nodes x s) \<and> \<not> P n))
    \<and> (\<forall>m \<in> set (walk_nodes x s'). node_still s0 x oldval v m s \<longrightarrow> node_still s0 x oldval v m s')"
proof -
  obtain t tr ob where t: "n = Some t" "objects s x = Some ob" "Some t \<in> set (pTriglist ob)" "trig_of s t = Some tr" "tr_pSync tr = Some x"
    "SyncCheckTrigger s tr oldval = Some (counter_test (CheckTrigger tr) (test_value tr) oldval v)" using walk_node [OF inv n] by blast
  have c: "is_counter ob" "counter_value ob = v" "sync_inv {} {} s" "alarms_ok s"
    and start: "\<forall>a. (alarm_step x oldval v)\<^sup>*\<^sup>* (alarms s0 a) (alarms s a)" using inv t(2) by (auto simp: walk_inv_def)
  have holds: "counter_test (CheckTrigger tr) (test_value tr) oldval v" using h t by (simp add: node_holds_def)
  obtain s' ob' where s': "TriggerFired e t s = Some s'" "sync_inv {} {} s'" "alarms_ok s'" "objects s' x = Some ob'" "fired_on x t ob ob' s s'"
    using fire_on [OF c(3,4) t(2) c(1) t(3)] by blast
  have "walk_progress x oldval v s s'"
    "walk_nodes x s' = walk_nodes x s \<and> node_still s0 x oldval v n s' \<or> (\<exists>P. walk_nodes x s' = filter P (walk_nodes x s) \<and> \<not> P n)"
    "\<forall>m \<in> set (walk_nodes x s'). node_still s0 x oldval v m s \<longrightarrow> node_still s0 x oldval v m s'"
    using fired_on_walk [OF s'(5) t(2) s'(4) c(2) t(3,4,5) holds start] t(1) by blast+
  moreover have "\<forall>a. (alarm_step x oldval v)\<^sup>*\<^sup>* (alarms s0 a) (alarms s' a)"
    using start fired_on_alarms [OF s'(5) c(2) t(4) holds] by (meson rtranclp_trans)
  then have "walk_inv s0 x oldval v s'" using s' c(2) by (simp add: walk_inv_def fired_on_def)
  ultimately show ?thesis using s'(1) t(1) by (simp add: node_fire_def)
qed

lemma counter_walk_still:
  assumes "walk_inv s0 x oldval v s" "n \<in> set (walk_nodes x s)" "\<not> node_holds oldval n s"
  shows "node_still s0 x oldval v n s"
proof -
  obtain t tr where "n = Some t" "trig_of s t = Some tr"
    "SyncCheckTrigger s tr oldval = Some (counter_test (CheckTrigger tr) (test_value tr) oldval v)" using walk_node [OF assms(1,2)] by blast
  then show ?thesis using assms(3) by (cases t) (auto simp: node_still_def node_holds_def quiet_def)
qed

lemma counter_walk_step:
  assumes inv: "walk_inv s0 x oldval v s" and n: "n \<in> set (walk_nodes x s)"
  shows "change_loop e x oldval (Some n) s =
      (if node_holds oldval n s then Option.bind (node_fire e n s) (\<lambda>s1.
         Option.bind (resume_node (next_node n (walk_nodes x s)) (\<lambda>s. Some (walk_nodes x s)) s1) (\<lambda>p. change_loop e x oldval p s1))
       else change_loop e x oldval (next_node n (walk_nodes x s)) s)"
proof -
  obtain t tr where t: "n = Some t" "trig_of s t = Some tr"
    "SyncCheckTrigger s tr oldval = Some (counter_test (CheckTrigger tr) (test_value tr) oldval v)" using walk_node [OF inv n] by blast
  have nodes: "walk_inv s0 x oldval v s1 \<Longrightarrow> obj_nodes x s1 = Some (walk_nodes x s1)" for s1
    by (auto simp: walk_inv_def obj_nodes_def walk_nodes_def)
  then have resume: "walk_inv s0 x oldval v s1 \<Longrightarrow> resume_node p (obj_nodes x) s1 = resume_node p (\<lambda>s. Some (walk_nodes x s)) s1" for p s1
    by (simp add: resume_node_def split: option.splits)
  show ?thesis
  proof (cases "node_holds oldval n s")
    case True
    obtain s1 where "node_fire e n s = Some s1" "walk_inv s0 x oldval v s1" using counter_walk_fire [OF inv n True] by blast
    then show ?thesis
      using True t nodes [OF inv] resume by (subst change_loop.simps) (simp add: node_holds_def node_fire_def)
  next
    case False
    then show ?thesis using t nodes [OF inv] by (subst change_loop.simps) (simp add: node_holds_def)
  qed
qed

interpretation cw: restarting_walk "walk_nodes x" "walk_inv s0 x oldval v" "node_holds oldval" "node_fire e"
    "node_still s0 x oldval v" "walk_progress x oldval v" "change_loop e x oldval" for e s0 x oldval v
proof unfold_locales
  show "walk_progress x oldval v s s' \<Longrightarrow> walk_progress x oldval v s' s'' \<Longrightarrow> walk_progress x oldval v s s''" for s s' s''
    by (rule walk_progress_trans)
  show "walk_progress x oldval v s s" for s by (simp add: walk_progress_def)
  show "change_loop e x oldval None s = Some s" for s by (simp add: change_loop.simps)
qed (simp_all add: counter_walk_distinct counter_walk_fire counter_walk_still counter_walk_step)

definition changed_to :: "xid \<Rightarrow> SyncObject \<Rightarrow> int64 \<Rightarrow> sync_state \<Rightarrow> sync_state \<Rightarrow> bool" where
  "changed_to x ob oldval s s' \<longleftrightarrow> sync_inv {} {} s' \<and> alarms_ok s'
     \<and> (\<exists>ob'. objects s' x = Some ob' \<and> is_counter ob' \<and> counter_value ob' = counter_value ob
          \<and> IsSystemCounter ob' = IsSystemCounter ob
          \<and> (\<forall>t. Some t \<in> set (pTriglist ob') \<longrightarrow> quiet s s' x oldval (counter_value ob) t))
     \<and> (\<forall>a. (alarm_step x oldval (counter_value ob))\<^sup>*\<^sup>* (alarms s a) (alarms s' a))
     \<and> (\<forall>w. awaits s' w = awaits s w \<or> awaits s' w = None \<and> released s x oldval (counter_value ob) w)"

lemma change_loop_ok:
  assumes "sync_inv {} {} s" "alarms_ok s" "objects s x = Some ob" "is_counter ob"
  shows "\<exists>s'. change_loop e x oldval (first_node (pTriglist ob)) s = Some s' \<and> changed_to x ob oldval s s'"
proof -
  have "walk_inv s x oldval (counter_value ob) s" "walk_nodes x s = [] @ pTriglist ob"
    using assms by (simp_all add: walk_inv_def walk_nodes_def)
  from cw.walk_visits [OF this, of e] obtain s' where
    s': "change_loop e x oldval (first_node (pTriglist ob)) s = Some s'" "cw.walked x s oldval (counter_value ob) s s'" by auto
  then obtain ob' where "objects s' x = Some ob'" "is_counter ob'" "counter_value ob' = counter_value ob"
    "sync_inv {} {} s'" "alarms_ok s'" "\<forall>a. (alarm_step x oldval (counter_value ob))\<^sup>*\<^sup>* (alarms s a) (alarms s' a)"
    by (auto simp: cw.walked_def walk_inv_def)
  then have "changed_to x ob oldval s s'"
    using s'(2) assms(3) by (simp add: cw.walked_def changed_to_def walk_progress_def walk_nodes_def node_still_def)
  then show ?thesis using s'(1) by blast
qed

subsection \<open>The whole change\<close>

lemma set_value_fields:
  "is_counter (set_counter_value v ob) = is_counter ob" "pTriglist (set_counter_value v ob) = pTriglist ob"
  "beingDestroyed (set_counter_value v ob) = beingDestroyed ob" "IsSystemCounter (set_counter_value v ob) = IsSystemCounter ob"
  "has_sysinfo (set_counter_value v ob) = has_sysinfo ob"
  by (auto simp: set_counter_value.simps is_counter_def IsSystemCounter_def has_sysinfo_def split: sync_body.splits)

lemma set_value_value: "is_counter ob \<Longrightarrow> counter_value (set_counter_value v ob) = v"
  by (auto simp: set_counter_value.simps is_counter_def counter_value_def split: sync_body.splits)

lemma trig_of_upd_obj [simp]: "trig_of (upd_obj x f s) t = trig_of s t"
  by (cases t) (simp_all add: upd_obj_def)

lemma upd_obj_store [simp]: "alarms (upd_obj x f s) = alarms s" "awaits (upd_obj x f s) = awaits s"
  by (simp_all add: upd_obj_def)

lemma sync_inv_set_value:
  assumes inv: "sync_inv D T s"
  shows "sync_inv D T (upd_obj x (set_counter_value v) s)"
proof
  fix y ob' assume "objects (upd_obj x (set_counter_value v) s) y = Some ob'"
  then obtain ob where ob: "objects s y = Some ob" "ob' = ob \<or> ob' = set_counter_value v ob"
    by (auto simp: upd_obj_def split: if_splits)
  then show "obj_ok D (upd_obj x (set_counter_value v) s) y ob'"
    using sync_invD(1) [OF inv ob(1)] by (auto simp: obj_ok_def trigger_on_def set_value_fields)
next
  fix t tr y assume "trig_of (upd_obj x (set_counter_value v) s) t = Some tr" "tr_pSync tr = Some y"
  then have "trig_ok T s t tr y" using sync_invD(2) [OF inv] by simp
  then show "trig_ok T (upd_obj x (set_counter_value v) s) t tr y"
    by (auto simp: trig_ok_def upd_obj_def set_value_fields)
next
  fix w u assume "awaits (upd_obj x (set_counter_value v) s) w = Some u"
  then show "await_ok u" using sync_invD(3) [OF inv] by simp
qed

text \<open>The last step, the brackets of a system counter, changes nothing that matters.\<close>

lemma final_brackets:
  assumes inv: "sync_inv {} {} s" and ob: "objects s x = Some ob"
  shows "\<exists>s'. (if IsSystemCounter ob then SyncComputeBracketValues x s else Some s) = Some s' \<and> same_view s s'"
proof (cases "IsSystemCounter ob")
  case True
  have ok: "obj_ok {} s x ob" using sync_invD(1) [OF inv ob] .
  have "\<exists>t tr. n = Some t \<and> trig_of s t = Some tr" if "n \<in> set (pTriglist ob)" for n
    using ok that by (cases n) (auto simp: obj_ok_def trigger_on_def)
  then show ?thesis using compute_brackets_view [OF ob] ok True by (auto simp: obj_ok_def)
qed simp

lemma quiet_view:
  assumes "same_view s s'" "quiet s0 s x oldval v t"
  shows "quiet s0 s' x oldval v t"
  by (rule quiet_same_trigger [OF assms(2)])
    (use assms(1) in \<open>auto simp: same_view_trig_of same_view_def split: trigger_ref.splits\<close>)

lemma changed_to_view: "changed_to x ob oldval s s1 \<Longrightarrow> same_view s1 s' \<Longrightarrow> changed_to x ob oldval s s'"
proof -
  assume c: "changed_to x ob oldval s s1" and v: "same_view s1 s'"
  obtain ob1 where ob1: "objects s1 x = Some ob1" "is_counter ob1" "counter_value ob1 = counter_value ob"
    "IsSystemCounter ob1 = IsSystemCounter ob" "\<forall>t. Some t \<in> set (pTriglist ob1) \<longrightarrow> quiet s s1 x oldval (counter_value ob) t"
    using c by (auto simp: changed_to_def)
  obtain ob' where ob': "objects s' x = Some ob'" "obj_view ob' = obj_view ob1" using same_view_object [OF v ob1(1)] .
  have "alarms_ok s'" "\<forall>a. (alarm_step x oldval (counter_value ob))\<^sup>*\<^sup>* (alarms s a) (alarms s' a)"
    "\<forall>w. awaits s' w = awaits s w \<or> awaits s' w = None \<and> released s x oldval (counter_value ob) w"
    using c v by (simp_all add: changed_to_def alarms_ok_def same_view_def)
  moreover have "sync_inv {} {} s'" using sync_inv_view [OF v] c by (simp add: changed_to_def)
  moreover have "\<forall>t. Some t \<in> set (pTriglist ob') \<longrightarrow> quiet s s' x oldval (counter_value ob) t"
    using ob1(5) quiet_view [OF v] obj_view_fields(2) [OF ob'(2)] by simp
  ultimately show ?thesis using ob' ob1 obj_view_fields(5-7) [OF ob'(2)] by (auto simp: changed_to_def)
qed

text \<open>With the invariant, the quiet triggers decide which awaits are gone.\<close>

lemma changed_to_awaits:
  assumes c: "changed_to x ob oldval s s'"
  shows "awaits s' w = (if released s x oldval (counter_value ob) w then None else awaits s w)"
proof (cases "awaits s' w = None")
  case True
  then show ?thesis using c unfolding changed_to_def by metis
next
  case False
  then have same: "awaits s' w = awaits s w" using c unfolding changed_to_def by metis
  have "\<not> released s x oldval (counter_value ob) w"
  proof
    assume "released s x oldval (counter_value ob) w"
    then obtain i tr where tr: "trig_of s' (AwaitTrigger w i) = Some tr" "tr_pSync tr = Some x"
      "counter_test (CheckTrigger tr) (test_value tr) oldval (counter_value ob)"
      using same by (auto simp: released_def)
    have inv: "sync_inv {} {} s'" using c by (simp add: changed_to_def)
    obtain ob' where ob': "objects s' x = Some ob'" "\<forall>t. Some t \<in> set (pTriglist ob') \<longrightarrow> quiet s s' x oldval (counter_value ob) t"
      using c by (auto simp: changed_to_def)
    have "Some (AwaitTrigger w i) \<in> set (pTriglist ob')" using sync_invD(2) [OF inv tr(1,2)] ob'(1) by (auto simp: trig_ok_def)
    then show False using ob'(2) tr by (auto simp: quiet_def)
  qed
  then show ?thesis using same by simp
qed

lemma change_counter_ok:
  assumes inv: "sync_inv {} {} s" and ok: "alarms_ok s" and ob: "objects s x = Some ob" "is_counter ob"
  shows "\<exists>s'. SyncChangeCounter e x newval s = Some s'
    \<and> changed_to x (set_counter_value newval ob) (counter_value ob) (upd_obj x (set_counter_value newval) s) s'"
proof -
  let ?s1 = "upd_obj x (set_counter_value newval) s" and ?ob = "set_counter_value newval ob"
  have ob1: "objects ?s1 x = Some ?ob" using ob(1) by (simp add: upd_obj_def)
  have upd: "SyncUpdateCounter x newval s = Some (counter_value ob, ?s1)" using ob(1) by (simp add: SyncUpdateCounter_def)
  have "alarms_ok ?s1" using ok by (simp add: alarms_ok_def)
  from change_loop_ok [OF sync_inv_set_value [OF inv] this ob1, of e "counter_value ob"]
  obtain s2 where s2: "change_loop e x (counter_value ob) (first_node (pTriglist ob)) ?s1 = Some s2"
    "changed_to x ?ob (counter_value ob) ?s1 s2" using ob(2) by (auto simp: set_value_fields)
  obtain ob2 where ob2: "objects s2 x = Some ob2" "sync_inv {} {} s2" using s2(2) by (auto simp: changed_to_def)
  obtain s' where s': "(if IsSystemCounter ob2 then SyncComputeBracketValues x s2 else Some s2) = Some s'" "same_view s2 s'"
    using final_brackets [OF ob2(2,1)] by blast
  have "SyncChangeCounter e x newval s = Some s'"
    using upd ob1 s2(1) ob2(1) s'(1) by (simp add: SyncChangeCounter_def obj_nodes_def set_value_fields)
  then show ?thesis using changed_to_view [OF s2(2) s'(2)] by blast
qed

subsection \<open>What becomes of the alarms\<close>

text \<open>One alarm, before and after a change of counter \<open>x\<close> from \<open>oldval\<close> to \<open>v\<close>. If it is not on the counter, not active, or does not hold,
  it is as before. If it compares, it has become inactive with its old test value, or has a test value that does not hold. If it
  tests a transition, it has been advanced by its delta, once or more often (\<open>k\<close> times), each time from a test value that held; or it has
  become inactive at a test value that held and to which the delta cannot be added.\<close>

definition settled :: "xid \<Rightarrow> int64 \<Rightarrow> int64 \<Rightarrow> SyncAlarm \<Rightarrow> SyncAlarm \<Rightarrow> bool" where
  "settled x oldval v al al' \<longleftrightarrow>
     (let tr = al_trigger al; t = test_value tr; d = al_delta al; holds = (\<lambda>t. counter_test (CheckTrigger tr) t oldval v) in
      if \<not> holds_on x oldval v al then al' = al
      else if comparison tr
      then al' = alarm_at XSyncAlarmInactive t al \<or> (\<exists>t'. al' = alarm_at XSyncAlarmActive t' al \<and> \<not> holds t')
      else \<exists>k. (\<forall>j < k. holds (t + of_nat j * d) \<and> in_int64 (sint t + int (Suc j) * sint d)) \<and>
        (0 < k \<and> al' = alarm_at XSyncAlarmActive (t + of_nat k * d) al \<or>
         holds (t + of_nat k * d) \<and> \<not> in_int64 (sint t + int (Suc k) * sint d) \<and>
           al' = alarm_at XSyncAlarmInactive (t + of_nat k * d) al))"

lemma alarm_at_simps [simp]:
  "al_state (alarm_at st t al) = st" "al_delta (alarm_at st t al) = al_delta al" "alarm_at st t (alarm_at st' t' al) = alarm_at st t al"
  "al_trigger (alarm_at st t al) = (al_trigger al)\<lparr>test_value := t\<rparr>"
  by (simp_all add: alarm_at_def)

lemma one_addition_at:
  "one_addition (alarm_at st t al) = (if in_int64 (sint t + sint (al_delta al)) then (XSyncAlarmActive, t + al_delta al) else (XSyncAlarmInactive, t))"
  by (simp add: one_addition_def Let_def)

lemma sint_multiple:
  fixes t d :: int64
  assumes "\<forall>j < k. in_int64 (sint t + int (Suc j) * sint d)"
  shows "sint (t + of_nat k * d) = sint t + int k * sint d"
  using assms
proof (induction k)
  case (Suc k)
  then have ih: "sint (t + of_nat k * d) = sint t + int k * sint d" by simp
  have e: "sint (t + of_nat k * d) + sint d = sint t + int (Suc k) * sint d" unfolding ih by (simp add: algebra_simps)
  have "in_int64 (sint (t + of_nat k * d) + sint d)" unfolding e using Suc(2) by blast
  from sint_add_in [OF this] have "sint (t + of_nat k * d + d) = sint t + int (Suc k) * sint d" unfolding e .
  moreover have "t + of_nat k * d + d = t + of_nat (Suc k) * d" by (simp add: algebra_simps)
  ultimately show ?case by (simp only:)
qed simp

text \<open>Firings of an alarm that tests a transition.\<close>

definition advanced :: "int64 \<Rightarrow> int64 \<Rightarrow> SyncAlarm \<Rightarrow> SyncAlarm option \<Rightarrow> bool" where
  "advanced oldval v al oal \<longleftrightarrow>
     (let t = test_value (al_trigger al); d = al_delta al; holds = (\<lambda>t. counter_test (CheckTrigger (al_trigger al)) t oldval v) in
      \<exists>k. (\<forall>j < k. holds (t + of_nat j * d) \<and> in_int64 (sint t + int (Suc j) * sint d)) \<and>
        (0 < k \<and> oal = Some (alarm_at XSyncAlarmActive (t + of_nat k * d) al) \<or>
         holds (t + of_nat k * d) \<and> \<not> in_int64 (sint t + int (Suc k) * sint d) \<and>
           oal = Some (alarm_at XSyncAlarmInactive (t + of_nat k * d) al)))"

lemma alarm_stepE:
  assumes "alarm_step x oldval v (Some al) oal"
  obtains st t' where "oal = Some (alarm_at st t' al)" "holds_on x oldval v al"
    "alarm_result (\<lambda>t. counter_test (CheckTrigger (al_trigger al)) t oldval v) al st t'"
  using assms by cases

lemma transition_step:
  assumes "alarm_step x oldval v (Some al) oal" "\<not> comparison (al_trigger al)"
  shows "oal = Some (case one_addition al of (st, t') \<Rightarrow> alarm_at st t' al)" "al_state al = XSyncAlarmActive"
    "counter_test (CheckTrigger (al_trigger al)) (test_value (al_trigger al)) oldval v"
  using assms by (auto elim!: alarm_stepE simp: holds_on_def alarm_result_def split: prod.split)

lemma advanced_steps:
  assumes "(alarm_step x oldval v)\<^sup>+\<^sup>+ (Some al) oal" "\<not> comparison (al_trigger al)"
  shows "advanced oldval v al oal"
  using assms(1)
proof (induction rule: tranclp_induct)
  case (base oal)
  note s = transition_step [OF base assms(2)]
  show ?case
  proof (cases "in_int64 (sint (test_value (al_trigger al)) + sint (al_delta al))")
    case True
    then show ?thesis using s unfolding advanced_def Let_def by (intro exI [of _ 1]) (simp add: one_addition_def Let_def)
  next
    case False
    then show ?thesis using s unfolding advanced_def Let_def by (intro exI [of _ 0]) (simp add: one_addition_def Let_def)
  qed
next
  case (step oal oal')
  let ?t = "test_value (al_trigger al)" and ?d = "al_delta al"
  obtain k where k: "\<forall>j < k. counter_test (CheckTrigger (al_trigger al)) (?t + of_nat j * ?d) oldval v \<and> in_int64 (sint ?t + int (Suc j) * sint ?d)"
    "0 < k \<and> oal = Some (alarm_at XSyncAlarmActive (?t + of_nat k * ?d) al) \<or> oal = Some (alarm_at XSyncAlarmInactive (?t + of_nat k * ?d) al)"
    using step(3) unfolding advanced_def Let_def by blast
  then obtain st where st: "oal = Some (alarm_at st (?t + of_nat k * ?d) al)" by blast
  note s = transition_step [OF step(2) [unfolded st]]
  have c: "\<not> comparison (al_trigger (alarm_at st (?t + of_nat k * ?d) al))" using assms(2) by simp
  have e: "sint (?t + of_nat k * ?d) = sint ?t + int k * sint ?d" using sint_multiple [of k ?t ?d] k(1) by blast
  have add: "sint (?t + of_nat k * ?d) + sint ?d = sint ?t + int (Suc k) * sint ?d" "?t + of_nat k * ?d + ?d = ?t + of_nat (Suc k) * ?d"
    unfolding e by (simp_all add: algebra_simps)
  have h: "counter_test (CheckTrigger (al_trigger al)) (?t + of_nat k * ?d) oldval v" using s(3) [OF c] by simp
  have one: "one_addition (alarm_at st (?t + of_nat k * ?d) al) = (if in_int64 (sint ?t + int (Suc k) * sint ?d)
      then (XSyncAlarmActive, ?t + of_nat (Suc k) * ?d) else (XSyncAlarmInactive, ?t + of_nat k * ?d))"
    unfolding one_addition_at add ..
  have o: "oal' = Some (if in_int64 (sint ?t + int (Suc k) * sint ?d) then alarm_at XSyncAlarmActive (?t + of_nat (Suc k) * ?d) al
      else alarm_at XSyncAlarmInactive (?t + of_nat k * ?d) al)"
    unfolding s(1) [OF c] one by (simp split: if_split)
  show ?case
  proof (cases "in_int64 (sint ?t + int (Suc k) * sint ?d)")
    case True
    have "\<forall>j < Suc k. counter_test (CheckTrigger (al_trigger al)) (?t + of_nat j * ?d) oldval v \<and> in_int64 (sint ?t + int (Suc j) * sint ?d)"
      using k(1) h True less_Suc_eq by metis
    then show ?thesis unfolding advanced_def Let_def using o True by (intro exI [of _ "Suc k"]) simp
  next
    case False
    then show ?thesis unfolding advanced_def Let_def using o h k(1) by (intro exI [of _ k]) simp
  qed
qed

text \<open>An alarm that compares is fired once at most.\<close>

lemma comparison_steps:
  assumes "(alarm_step x oldval v)\<^sup>*\<^sup>* (Some al) oal" "comparison (al_trigger al)" "holds_on x oldval v al"
  shows "oal = Some al \<or> (\<exists>st t'. oal = Some (alarm_at st t' al) \<and>
    (st = XSyncAlarmInactive \<and> t' = test_value (al_trigger al) \<or> st = XSyncAlarmActive \<and> \<not> counter_test (CheckTrigger (al_trigger al)) t' oldval v))"
  using assms(1)
proof (induction rule: rtranclp_induct)
  case (step oal oal')
  have act: "al_state al = XSyncAlarmActive" using assms(3) by (simp add: holds_on_def)
  from step(3) show ?case
  proof (elim disjE exE conjE)
    assume "oal = Some al"
    with step(2) obtain st t' where "oal' = Some (alarm_at st t' al)"
      "alarm_result (\<lambda>t. counter_test (CheckTrigger (al_trigger al)) t oldval v) al st t'" by (auto elim!: alarm_stepE)
    then show ?thesis using assms(2) act unfolding alarm_result_def by auto
  next
    fix st t' assume o: "oal = Some (alarm_at st t' al)" and "st = XSyncAlarmInactive"
    then show ?thesis using step(2) by (auto elim!: alarm_stepE simp: holds_on_def)
  next
    fix st t' assume o: "oal = Some (alarm_at st t' al)" and "\<not> counter_test (CheckTrigger (al_trigger al)) t' oldval v"
    then show ?thesis using step(2) by (auto elim!: alarm_stepE simp: holds_on_def)
  qed
qed simp

lemma unfired_steps: "(alarm_step x oldval v)\<^sup>*\<^sup>* (Some al) oal \<Longrightarrow> \<not> holds_on x oldval v al \<Longrightarrow> oal = Some al"
  by (induction rule: rtranclp_induct) (auto elim: alarm_stepE)

lemma steps_fields:
  assumes "(alarm_step x oldval v)\<^sup>*\<^sup>* (Some al) oal"
  shows "\<exists>al'. oal = Some al' \<and> tr_pSync (al_trigger al') = tr_pSync (al_trigger al) \<and> CheckTrigger (al_trigger al') = CheckTrigger (al_trigger al)
    \<and> comparison (al_trigger al') = comparison (al_trigger al)"
  using assms
proof (induction rule: rtranclp_induct)
  case (step oal oal')
  then obtain al' where al': "oal = Some al'" "tr_pSync (al_trigger al') = tr_pSync (al_trigger al)"
    "CheckTrigger (al_trigger al') = CheckTrigger (al_trigger al)" "comparison (al_trigger al') = comparison (al_trigger al)" by blast
  show ?case using step(2) al' by (auto elim!: alarm_stepE)
qed simp

lemma changed_to_alarms:
  assumes c: "changed_to x ob oldval s s'" and al: "alarms s a = Some al"
  shows "\<exists>al'. alarms s' a = Some al' \<and> settled x oldval (counter_value ob) al al'"
proof -
  let ?v = "counter_value ob"
  have steps: "(alarm_step x oldval ?v)\<^sup>*\<^sup>* (Some al) (alarms s' a)" using c al unfolding changed_to_def by metis
  obtain al' where al': "alarms s' a = Some al'" "tr_pSync (al_trigger al') = tr_pSync (al_trigger al)"
    "CheckTrigger (al_trigger al') = CheckTrigger (al_trigger al)" "comparison (al_trigger al') = comparison (al_trigger al)"
    using steps_fields [OF steps] by blast
  have "settled x oldval ?v al al'"
  proof (cases "holds_on x oldval ?v al")
    case False
    then show ?thesis using unfired_steps [OF steps] al'(1) by (simp add: settled_def)
  next
    case True
    have q: "quiet s s' x oldval ?v (AlarmTrigger a)"
    proof -
      obtain ob' where ob': "objects s' x = Some ob'" "sync_inv {} {} s'" "\<forall>t. Some t \<in> set (pTriglist ob') \<longrightarrow> quiet s s' x oldval ?v t"
        using c by (auto simp: changed_to_def)
      have "trig_of s' (AlarmTrigger a) = Some (al_trigger al')" "tr_pSync (al_trigger al') = Some x"
        using al'(1,2) True by (simp_all add: holds_on_def)
      from sync_invD(2) [OF ob'(2) this] show ?thesis using ob'(1,3) by (auto simp: trig_ok_def)
    qed
    have act: "al_state al = XSyncAlarmActive"
      and holds: "counter_test (CheckTrigger (al_trigger al)) (test_value (al_trigger al)) oldval ?v"
      using True by (simp_all add: holds_on_def)
    show ?thesis
    proof (cases "comparison (al_trigger al)")
      case cmp: True
      have "al' \<noteq> al" using q al'(1) act holds cmp by (auto simp: quiet_def)
      then show ?thesis using comparison_steps [OF steps cmp True] al'(1) True cmp by (auto simp: settled_def Let_def)
    next
      case tra: False
      have "(alarm_step x oldval ?v)\<^sup>+\<^sup>+ (Some al) (alarms s' a)"
      proof (cases "al' = al")
        case True
        then show ?thesis using q al'(1) al act holds by (auto simp: quiet_def)
      next
        case False
        then show ?thesis using steps al'(1) by (auto dest: rtranclpD)
      qed
      from advanced_steps [OF this tra] show ?thesis
        using al'(1) True tra by (simp add: settled_def advanced_def Let_def)
    qed
  qed
  then show ?thesis using al'(1) by blast
qed

subsection \<open>The property\<close>

text \<open>C27. Changing a counter returns, although the triggers it runs take nodes out of the list it walks: from a state in which triggers
  and lists agree and every alarm's test function is the one of its type. Afterwards the counter has the new value, exactly
  the awaits with a trigger on this counter that the change makes true are gone, and triggers and lists agree again. Every alarm is settled:
  those on other counters, inactive ones and those that do not hold are as before; one that compares and holds is inactive or holds no
  more; one that tests a transition and holds has been advanced at least once, from one test value that held to the next, or is inactive
  because the next one does not fit. Such an alarm may hold still, and it may have been advanced more than once: the walk starts again at
  the head of the list when an await takes its next node away.\<close>

theorem SyncChangeCounter_releases:
  assumes "sync_inv {} {} s" "alarms_ok s" "objects s x = Some ob" "is_counter ob"
  shows "\<exists>s' ob'. SyncChangeCounter e x newval s = Some s' \<and> sync_inv {} {} s' \<and> alarms_ok s'
    \<and> objects s' x = Some ob' \<and> is_counter ob' \<and> counter_value ob' = newval
    \<and> (\<forall>w. awaits s' w = (if released s x (counter_value ob) newval w then None else awaits s w))
    \<and> (\<forall>a. rel_option (settled x (counter_value ob) newval) (alarms s a) (alarms s' a))"
proof -
  let ?s1 = "upd_obj x (set_counter_value newval) s" and ?ob = "set_counter_value newval ob"
  obtain s' where s': "SyncChangeCounter e x newval s = Some s'" "changed_to x ?ob (counter_value ob) ?s1 s'"
    using change_counter_ok [OF assms] by blast
  have v: "counter_value ?ob = newval" using assms(4) by (rule set_value_value)
  have "released ?s1 x o' v' w = released s x o' v' w" for o' v' w by (simp add: released_def)
  then have "\<forall>w. awaits s' w = (if released s x (counter_value ob) newval w then None else awaits s w)"
    using changed_to_awaits [OF s'(2)] v by simp
  moreover have "rel_option (settled x (counter_value ob) newval) (alarms s a) (alarms s' a)" for a
  proof (cases "alarms s a")
    case None
    have "(alarm_step x (counter_value ob) newval)\<^sup>*\<^sup>* (alarms s a) (alarms s' a)" using s'(2) v by (simp add: changed_to_def)
    then have "alarms s' a = None" unfolding None by (rule converse_rtranclpE) (auto elim: alarm_step.cases)
    then show ?thesis using None by simp
  next
    case (Some al)
    then show ?thesis using changed_to_alarms [OF s'(2), of a al] v by auto
  qed
  ultimately show ?thesis using s' v by (auto simp: changed_to_def)
qed

definition await9 :: SyncAwaitUnion where
  "await9 = \<lparr>aw_client = 2, num_waitconditions = 1, aw_items = [\<lparr>aw_trigger = al_trigger (alarm8 1), event_threshold = 0\<rparr>]\<rparr>"

definition await_state :: sync_state where
  "await_state = sync_empty\<lparr>objects := [7 \<mapsto> (counter7 10)\<lparr>pTriglist := [Some (AwaitTrigger 9 0)]\<rparr>], awaits := [9 \<mapsto> await9]\<rparr>"

lemma await_state_trig:
  "trig_of await_state t = Some tr \<longleftrightarrow> t = AwaitTrigger 9 0 \<and> tr = al_trigger (alarm8 1)"
  by (cases t) (auto simp: await_state_def sync_empty_def await9_def split: if_splits)

lemma await_state_inv: "sync_inv {} {} await_state" "alarms_ok await_state"
proof -
  show "sync_inv {} {} await_state"
  proof
    fix x ob assume "objects await_state x = Some ob"
    then have "x = 7" "ob = (counter7 10)\<lparr>pTriglist := [Some (AwaitTrigger 9 0)]\<rparr>" by (auto simp: await_state_def split: if_splits)
    then show "obj_ok {} await_state x ob"
      by (auto simp: obj_ok_def trigger_on_def await_state_trig counter7_def alarm8_def IsSystemCounter_def simp del: trig_of.simps)
  next
    fix t tr x assume "trig_of await_state t = Some tr" "tr_pSync tr = Some x"
    then have "t = AwaitTrigger 9 0" "tr = al_trigger (alarm8 1)" "x = 7" by (auto simp: await_state_trig alarm8_def)
    then show "trig_ok {} await_state t tr x"
      by (simp add: trig_ok_def alarm8_def counter7_def is_counter_def await_state_def)
  next
    fix w u assume "awaits await_state w = Some u"
    then show "await_ok u" by (auto simp: await_state_def await_ok_def await9_def alarm8_def split: if_splits)
  qed
  show "alarms_ok await_state" by (simp add: alarms_ok_def await_state_def sync_empty_def)
qed

definition two_waits :: sync_state where
  "two_waits = await_state\<lparr>objects := [7 \<mapsto> (counter7 10)\<lparr>pTriglist := [Some (AwaitTrigger 9 0), Some (AlarmTrigger 8)]\<rparr>],
     alarms := [8 \<mapsto> alarm8 1]\<rparr>"

lemma two_waits_trig:
  "trig_of two_waits t = Some tr \<longleftrightarrow> (t = AwaitTrigger 9 0 \<or> t = AlarmTrigger 8) \<and> tr = al_trigger (alarm8 1)"
  by (cases t) (auto simp: two_waits_def await_state_def await9_def split: if_splits)

lemma two_waits_inv: "sync_inv {} {} two_waits"
proof
  fix x ob assume "objects two_waits x = Some ob"
  then have "x = 7" "ob = (counter7 10)\<lparr>pTriglist := [Some (AwaitTrigger 9 0), Some (AlarmTrigger 8)]\<rparr>"
    by (auto simp: two_waits_def split: if_splits)
  then show "obj_ok {} two_waits x ob"
    by (auto simp: obj_ok_def trigger_on_def two_waits_trig counter7_def alarm8_def IsSystemCounter_def simp del: trig_of.simps)
next
  fix t tr x assume "trig_of two_waits t = Some tr" "tr_pSync tr = Some x"
  then have "t = AwaitTrigger 9 0 \<or> t = AlarmTrigger 8" "tr = al_trigger (alarm8 1)" "x = 7" by (auto simp: two_waits_trig alarm8_def)
  then show "trig_ok {} two_waits t tr x" by (auto simp: trig_ok_def alarm8_def counter7_def is_counter_def two_waits_def)
next
  fix w u assume "awaits two_waits w = Some u"
  then show "await_ok u" by (auto simp: two_waits_def await_state_def await_ok_def await9_def alarm8_def split: if_splits)
qed

theorem SyncChangeCounter_releases_witness:
  "\<exists>s' al. SyncChangeCounter sync_env0 7 25 two_waits = Some s' \<and> awaits two_waits 9 = Some await9 \<and> awaits s' 9 = None
     \<and> alarms s' 8 = Some al \<and> \<not> holds_on 7 10 25 al"
proof -
  let ?ob = "(counter7 10)\<lparr>pTriglist := [Some (AwaitTrigger 9 0), Some (AlarmTrigger 8)]\<rparr>"
  have ob: "objects two_waits 7 = Some ?ob" "is_counter ?ob" "counter_value ?ob = 10"
    by (simp_all add: two_waits_def is_counter_def counter7_def counter_value_def)
  have al: "alarms two_waits 8 = Some (alarm8 1)" by (simp add: two_waits_def)
  have ok: "alarms_ok two_waits" by (simp add: alarms_ok_def two_waits_def alarm8_def check_matches_def sync_types)
  obtain s' where s': "SyncChangeCounter sync_env0 7 25 two_waits = Some s'"
    "\<forall>w. awaits s' w = (if released two_waits 7 10 25 w then None else awaits two_waits w)"
    "rel_option (settled 7 10 25) (alarms two_waits 8) (alarms s' 8)"
    using SyncChangeCounter_releases [OF two_waits_inv ok ob(1,2), of sync_env0 25] unfolding ob(3) by blast
  have "released two_waits 7 10 25 9"
    unfolding released_def by (rule exI [of _ 0]) (simp only: two_waits_trig, simp add: alarm8_def counter_test_def word_sle_eq)
  moreover obtain al' where al': "alarms s' 8 = Some al'" "settled 7 10 25 (alarm8 1) al'"
    using s'(3) al by (auto simp: option_rel_Some1)
  moreover have "holds_on 7 10 25 (alarm8 1)" "comparison (al_trigger (alarm8 1))"
    by (simp_all add: holds_on_def alarm8_def counter_test_def word_sle_eq comparison_def sync_types)
  then have "\<not> holds_on 7 10 25 al'" using al'(2) by (auto simp: settled_def Let_def) (auto simp: holds_on_def)
  moreover have "awaits two_waits 9 = Some await9" by (simp add: two_waits_def await_state_def)
  ultimately show ?thesis using s'(1,2) by auto
qed

end
