(* ===== verification/SyncFree.thy ===== *)
theory SyncFree
  imports SyncLaws
begin

text \<open>
  Destroying a counter or a fence and triggering a fence (Xext/sync/sync.c, miext/sync/misync.c): the walks return, every
  await on the object is ended, every alarm on it loses it, and triggers and lists agree afterwards. No freed trigger is
  used although the awaits that end take the remaining nodes of the object apart while it is walked.
\<close>

subsection \<open>Telling one trigger\<close>








subsection \<open>The walk over the triggers of a destroyed object\<close>










subsection \<open>Destroying counters and fences\<close>





subsection \<open>Present fences\<close>

text \<open>Freeing Present fences (those at the addresses \<open>P\<close>) and setting fences triggered (those with the identifiers \<open>Y\<close>).\<close>

definition trigger_fences :: "xid set \<Rightarrow> sync_state \<Rightarrow> sync_state" where
  "trigger_fences Y s =
     s\<lparr>objects := (\<lambda>x. map_option (\<lambda>ob. if x \<in> Y \<and> \<not> is_counter ob then miSyncFenceSetTriggered ob else ob) (objects s x))\<rparr>"

definition free_presents :: "nat set \<Rightarrow> xid set \<Rightarrow> sync_state \<Rightarrow> sync_state" where
  "free_presents P Y s =
     (drop_triggers {} (PresentTrigger ` P) (trigger_fences Y s))\<lparr>presents := (\<lambda>p. if p \<in> P then None else presents s p)\<rparr>"

lemma trigger_fences_simps [simp]:
  "alarms (trigger_fences Y s) = alarms s" "awaits (trigger_fences Y s) = awaits s" "presents (trigger_fences Y s) = presents s"
  "trig_of (trigger_fences Y s) t = trig_of s t"
  by (simp_all add: trigger_fences_def) (cases t; simp)




lemma free_presents_simps [simp]:
  "alarms (free_presents P Y s) = alarms s" "awaits (free_presents P Y s) = awaits s"
  "presents (free_presents P Y s) = (\<lambda>p. if p \<in> P then None else presents s p)"
  by (simp_all add: free_presents_def drop_triggers_def)





subsection \<open>Triggering a fence\<close>



lemma await_check:
  assumes "sync_inv D T s" "alarms_ok s" "trig_of s (AwaitTrigger w i) = Some tr" "tr_pSync tr = Some x"
    "objects s x = Some ob" "so_body ob = FenceBody True"
  shows "fence_check (CheckTrigger tr)"
  using sync_invD(2) [OF assms(1,3,4)] assms(5,6) by (simp add: trig_ok_def is_counter_def)













definition fence5 :: SyncObject where
  "fence5 = \<lparr>so_client = Some 1, pTriglist = [Some (PresentTrigger 3), Some (AwaitTrigger 9 0)], initialized = True, beingDestroyed = False,
     so_body = FenceBody False\<rparr>"

definition fence_trigger :: SyncTrigger where
  "fence_trigger = zero_trigger\<lparr>tr_pSync := Some 5, CheckTrigger := CheckFence\<rparr>"

definition fence_state :: sync_state where
  "fence_state = sync_empty\<lparr>objects := [5 \<mapsto> fence5],
     awaits := [9 \<mapsto> await9\<lparr>aw_items := [\<lparr>aw_trigger = fence_trigger, event_threshold = 0\<rparr>]\<rparr>],
     presents := [3 \<mapsto> \<lparr>pf_fence = Some 5, pf_callback = Some 3\<rparr>]\<rparr>"


definition put_off_env :: sync_env where
  "put_off_env = sync_env0\<lparr>present_call := (\<lambda>c. Some)\<rparr>"





subsection \<open>Requests that are put off\<close>

text \<open>A callback that leaves its fence and itself in place, as that of a request which is put off again for another reason, is called
  again and again: triggering the fence does not return.\<close>

lemma fence_loop_stuck:
  assumes "find_triggered s ns = Some (Some (PresentTrigger p))" "obj_nodes x s = Some ns"
    and "presents s p = Some pf" "pf_callback pf = Some c" "present_call e c s = Some s"
  shows "fence_loop e x s = None"
proof (cases "fence_loop e x s")
  case (Some r)
  define P where "P = (\<lambda>e' x' s1 (r :: sync_state). e' = e \<longrightarrow> x' = x \<longrightarrow> s1 \<noteq> s)"
  have "P e x s r"
  proof (rule fence_loop.raw_induct [where P = P and xa = "((e, x), s)", unfolded prod.case])
    show "fence_loop e x s = Some r" using Some .
    fix loop e' x' s1 r
    assume ih: "\<And>e x s r. loop e x s = Some r \<Longrightarrow> P e x s r"
      and r: "Option.bind (obj_nodes x' s1) (\<lambda>ns. Option.bind (find_triggered s1 ns) (\<lambda>r. case r of None \<Rightarrow> Some s1
        | Some t \<Rightarrow> Option.bind (TriggerFired e' t s1) (\<lambda>s1. loop e' x' s1))) = Some r"
    show "P e' x' s1 r"
      unfolding P_def
    proof (intro impI notI)
      assume "e' = e" "x' = x" "s1 = s"
      then have "loop e x s = Some r" using r assms by (simp add: present_fence_sync_trigger_fired_def)
      then show False using ih unfolding P_def by blast
    qed
  qed
  then show ?thesis by (simp add: P_def)
qed simp

lemma put_off_hangs: "miSyncTriggerFence put_off_env 5 fence_state = None"
proof -
  let ?s = "upd_obj 5 miSyncFenceSetTriggered fence_state"
  have pf: "presents ?s 3 = Some \<lparr>pf_fence = Some 5, pf_callback = Some 3\<rparr>" by (simp add: upd_obj_def fence_state_def)
  have "find_triggered ?s [Some (PresentTrigger 3), Some (AwaitTrigger 9 0)] = Some (Some (PresentTrigger 3))"
    using pf by (simp add: SyncCheckTrigger_def present_trigger_def fence_state_def)
  moreover have "obj_nodes 5 ?s = Some [Some (PresentTrigger 3), Some (AwaitTrigger 9 0)]"
    by (simp add: obj_nodes_def upd_obj_def fence_state_def fence5_def miSyncFenceSetTriggered_def)
  ultimately have "fence_loop put_off_env 5 ?s = None"
    by (rule fence_loop_stuck [where e = put_off_env, OF _ _ pf]) (simp_all add: put_off_env_def)
  then show ?thesis by (simp add: miSyncTriggerFence_def)
qed

end
