(* ===== verification/Spec2Isabelle.thy ===== *)
theory Spec2Isabelle
  imports ServerTime Atoms RecordSet Resources ResourceTable ResourceIds
    Properties PropertyLaws Selections SelectionLaws EventQueue EventQueueLaws
    Timers TimerLaws Grabs GrabLaws PassiveGrabs GrabRequests
    Region RegionBands RegionSweep RegionUnion RegionBuild RegionSort RegionScatter RegionMerge RegionCorrect RegionAppends
    Lookups Callbacks CallbackLaws
    Windows WindowStacking WindowOps WindowRequests WindowTrees WindowSiblings WindowSaver WindowLinks WindowMapping WindowShown WindowPlaces
    SyncCounters SyncFire SyncRequests SyncAlarms SyncBrackets SyncInvariant SyncLaws SyncFree
begin

text \<open>
  A verification development of the XLibre X server: the device independent core (\<^verbatim>\<open>src/dix\<close>), the parts of
  \<^verbatim>\<open>src/os\<close> and \<^verbatim>\<open>src/mi\<close> it runs on, and three extensions (RECORD sets, SYNC, the passive grabs of XInput).

  \<^bold>\<open>The program.\<close> The server is one loop. It waits until a client, an input device or a timer needs it
  (\<^verbatim>\<open>os/WaitFor.c\<close>), calls the block and wakeup handlers around the wait and the work queue after it
  (\<^verbatim>\<open>dix/dixutils.c\<close>), drains the queue the input side has filled (\<^verbatim>\<open>mi/mieq.c\<close>), and runs the handlers of the
  requests that clients have sent. A request names objects by resource identifiers, which the resource database resolves
  (\<^verbatim>\<open>dix/resource.c\<close>, lookups in \<^verbatim>\<open>dix/dixutils.c\<close>), and strings by atoms (\<^verbatim>\<open>dix/atom.c\<close>). Handlers keep
  the data of windows (\<^verbatim>\<open>dix/property.c\<close>), the ownership of selections (\<^verbatim>\<open>dix/selection.c\<close>), passive grabs
  (\<^verbatim>\<open>dix/grabs.c\<close>), the tree of windows (\<^verbatim>\<open>dix/window.c\<close>), the counters, alarms and fences clients synchronise by (\<^verbatim>\<open>Xext/sync\<close>), and regions of
  pixels (\<^verbatim>\<open>dix/region.c\<close>). When a client goes away its resources are freed, and the delete functions of
  their types detach them from all other components.

  \<^bold>\<open>Conventions.\<close> A structure of the source is a record or a datatype, a function a definition of the same name (with a
  suffix or under the name of the loop it is, where one C function is several definitions). Machine integers are words where
  they can wrap (time stamps, identifiers, atoms, lengths, masks) and integers where the code cannot leave their range; the
  places where the difference matters carry their bound. Pointers are keys of explicit stores: identifiers of windows,
  indices of timers and devices, triggers named by the alarm or await they are part of. Code that the source calls through a
  function pointer (delete functions, callbacks, handlers, device procedures, the security hook) is an argument
  acting on the whole state, so it may call back into the component; what the server writes to clients and whom it
  calls is logged in order. Memory is an argument as well: a sequence of answers, one for every allocation, so all
  failures are covered. A result \<open>None\<close> stands for undefined behaviour (an access outside an array, the use of freed
  memory) or for a loop that does not end; the theorems then state that a result exists. Loops are structural recursions or
  functions with a measure; those that called code can keep busy for ever (\<open>DoTimers\<close>, the walks of SYNC, the processing
  of events) are \<open>partial_function (option)\<close>, and their theorems show that they return. No theorem depends on fuel.

  \<^bold>\<open>Theories.\<close>
  \<^item> \<open>XPrelude\<close>: machine types, status codes, results of requests, shared lemmas on lists and words.
  \<^item> \<open>ServerTime\<close> (\<^verbatim>\<open>dix/dixutils.c\<close>): time stamps of a month and 32-bit milliseconds. A client's time is taken for the nearest
    moment of the extended clock, comparison follows the time line.
  \<^item> \<open>Atoms\<close> (\<^verbatim>\<open>dix/atom.c\<close>, the two requests in \<^verbatim>\<open>dix/dispatch.c\<close>): the search tree ordered by fingerprint and name and the table that
    grows. Its invariant is kept by all operations and gives the interface \<open>atom_store\<close>: interning is a partial bijection between names and
    atoms, round trips in both directions, failed allocations change nothing that was there.
  \<^item> \<open>RecordSet\<close> (\<^verbatim>\<open>Xext/record/set.c\<close>): bit vectors and sorted interval lists behind one interface, the locale \<open>record_set\<close> with three interpretations:
    membership and iteration agree with the set the client asked for, in both representations.
  \<^item> \<open>Resources\<close>, \<open>ResourceTable\<close>, \<open>ResourceIds\<close> (\<^verbatim>\<open>dix/resource.c\<close>): hash tables of clients, refined to stacks of resources per identifier.
    Adding (with the table rebuilt when it is full), freeing with arbitrary delete functions, changing, looking up by type and class, and the
    allocation of identifiers: ranges handed out hold no identifier in use, and identifiers the server makes up are fresh.
  \<^item> \<open>Lookups\<close> (\<^verbatim>\<open>dix/dixutils.c\<close>): windows, drawables, graphics contexts, fonts and owners looked up in the database; save sets.
  \<^item> \<open>Properties\<close>, \<open>PropertyLaws\<close> (\<^verbatim>\<open>dix/property.c\<close>): every request on window properties. Replace, append and prepend give the values the protocol
    asks for, partial reads return the slice, a property is deleted when it has been read to its end, rotation is a cyclic permutation, and errors leave
    the window as it was.
  \<^item> \<open>Selections\<close>, \<open>SelectionLaws\<close> (\<^verbatim>\<open>dix/selection.c\<close>): owners and their time stamps, an invariant over all runs of requests and of the events of
    clients and windows going away, and one event for every conversion.
  \<^item> \<open>EventQueue\<close>, \<open>EventQueueLaws\<close> (\<^verbatim>\<open>mi/mieq.c\<close>): the ring buffer refines a first-in first-out queue (locale \<open>growing_fifo\<close>), also while it grows and
    while motion events are merged; processing delivers every event once to its device and its master.
  \<^item> \<open>Timers\<close>, \<open>TimerLaws\<close> (\<^verbatim>\<open>os/WaitFor.c\<close>): the list of timers ordered on the wrapping clock (locale \<open>ordered_queue\<close>); running them runs the due ones, in order.
  \<^item> \<open>Callbacks\<close>, \<open>CallbackLaws\<close> (\<^verbatim>\<open>dix/dixutils.c\<close>): handlers, work queue, sleep queue, callback lists. Removal during a call is deferred, stated once in the
    locale \<open>deferred_removal\<close> and interpreted on both registries that do it.
  \<^item> \<open>Grabs\<close>, \<open>GrabLaws\<close>, \<open>PassiveGrabs\<close>, \<open>GrabRequests\<close> (\<^verbatim>\<open>dix/grabs.c\<close>, \<^verbatim>\<open>dix/events.c\<close>, \<^verbatim>\<open>dix/inpututils.c\<close>, \<^verbatim>\<open>Xext/xinput\<close>): a list of grabs is a set of
    combinations of keys and modifiers. Ungrabbing removes exactly the combinations asked for or changes nothing, a grab is refused exactly when it shares one with
    another client, and the requests carry this to the protocol.
  \<^item> \<open>Region\<close> to \<open>RegionAppends\<close> (\<^verbatim>\<open>dix/region.c\<close>): arrays of rectangles in bands. The contract between the sweep \<open>RegionOp\<close> and the function
    for overlapping bands is the locale \<open>band_overlap\<close>, interpreted on \<open>RegionUnionO\<close>. Sorting, scattering into regions and merging them give a region that covers exactly the
    given rectangles and is the only banded, coalesced array doing so. The theorems hold for up to 8000 rectangles: so many have bands small enough for
    the size of every array the code asks for to stay below the limit of \<open>RegionSizeof\<close>. Failing memory is the subject of the lemmas at the end.
  \<^item> \<open>Windows\<close>, \<open>WindowStacking\<close>, \<open>WindowOps\<close>, \<open>WindowRequests\<close> (model) and \<open>WindowTrees\<close>, \<open>WindowSiblings\<close>, \<open>WindowSaver\<close>, \<open>WindowLinks\<close>, \<open>WindowMapping\<close>,
    \<open>WindowShown\<close>, \<open>WindowPlaces\<close> (\<^verbatim>\<open>dix/window.c\<close>, with \<open>miMoveWindow\<close> of \<^verbatim>\<open>mi/miwindow.c\<close> and the event masks of \<^verbatim>\<open>dix/events.c\<close>): windows in a
    store with the five pointers of the C structure. \<open>tree_inv\<close> relates the pointers to the list of children of every window, without cycles. The loops by pointers
    over a subtree are one loop with a visit, and what holds of all visits is proved in locales: \<open>tree_visit\<close> (the loop is a depth-first recursion over the tree, so it ends;
    interpreted on \<open>CompareWIDs\<close>), \<open>sweep_visit\<close> (flags set on the subtree; interpreted on the visits of \<open>RealizeTree\<close> and \<open>UnrealizeTree\<close>) and \<open>top_down\<close>
    (values computed from the parent; interpreted on the positions of \<open>ResizeChildrenWinSize\<close>). \<open>MoveWindowInStack\<close> refines the move \<open>restack\<close> in a list;
    mapping and unmapping keep \<open>shown_inv\<close> (a window is realized exactly when it and all its ancestors are mapped) and change nothing else; positions are those
    of the parents plus the origins. The theorems on mapping assume \<open>single_layer\<close>: the layer of a window that changes is the window itself and that of its children the first child, as
    \<^verbatim>\<open>mi/miwindow.c\<close> answers. Circulating, configuring, reparenting, destroying and the save set are modelled, with lemmas on
    their parts (linking and unlinking, walks, positions).
  \<^item> \<open>SyncCounters\<close>, \<open>SyncFire\<close>, \<open>SyncRequests\<close> (model) and \<open>SyncAlarms\<close>, \<open>SyncBrackets\<close>, \<open>SyncInvariant\<close>, \<open>SyncLaws\<close>, \<open>SyncFree\<close> (\<^verbatim>\<open>Xext/sync/sync.c\<close>,
    \<^verbatim>\<open>miext/sync/misync.c\<close>): triggers and the lists of their objects agree; the walks over them, which restart when a node disappears (locale \<open>restarting_walk\<close>),
    return, end exactly the awaits that hold and use no freed trigger; alarms advance to the first value past the counter; the 64-bit arithmetic reports overflow exactly;
    brackets miss no trigger of the idle counters.

  \<^bold>\<open>What the model found.\<close> Where the code differs from its comments or from what it means to do, the model follows the code, and a lemma
  shows the difference on an input: among them \<open>union_out_of_memory\<close> and \<open>validate_frees_twice\<close> for regions, \<open>topif_above_itself\<close> and \<open>topif_saver_null\<close> for the stack of a saved screen, and those of the alarms, the
  brackets of the server's time, the selections and the grabs.

  \<^bold>\<open>Not modelled.\<close> Byte swapping of requests and replies, log messages, DTRACE probes and the input lock are left out of the
  modelled files. Of \<^verbatim>\<open>os/WaitFor.c\<close> the wait itself, of \<^verbatim>\<open>dix/events.c\<close> and \<^verbatim>\<open>Xext/xinput\<close> everything but passive grabs and the event masks of windows, of SYNC the priorities,
  the listing of system counters and fences in shared memory, of \<^verbatim>\<open>dix/region.c\<close> printing and the wrappers of the pixman library.
  Rendering (\<^verbatim>\<open>fb\<close>, \<^verbatim>\<open>mi\<close>, \<^verbatim>\<open>exa\<close>, \<^verbatim>\<open>glamor\<close>, \<^verbatim>\<open>render\<close>, GLX) computes pixels through tables of function pointers, pixman, OpenGL and the
  kernel's drivers; the display servers under \<^verbatim>\<open>hw\<close> and the transport in \<^verbatim>\<open>os\<close> are input and output with devices, sockets and files. Their correctness is
  that of code outside the repository. Of \<^verbatim>\<open>dix/window.c\<close> the creation of windows, their attributes, the windows of the screen saver and Xinerama are
  left out, and the clip lists, which the screen computes, are calls. XKB, RandR, Present and Composite keep state of the same kind as
  the components above and could be modelled in the same way.
\<close>

end
